(* ===== verification/Prelude.thy ===== *)
theory Prelude
  imports Main "HOL-Library.Word" "HOL-Library.List_Lexorder" "HOL-Library.AList"
begin

text \<open>
  Shared vocabulary of the development: the machine integers of the Rust sources, the outcome of
  a fallible Rust function (a value, an error value or a panic), Rust's checked, saturating and
  wrapping arithmetic, little-endian byte images of integers, decimal formatting for error
  messages, \<open>subslice::binary_search_by\<close>, \<open>Vec::insert\<close> and \<open>Vec::remove\<close>, and the ordered
  map operations of \<open>BTreeMap\<close>. Lengths, indices and other \<open>usize\<close> values of in-memory
  vectors are \<open>nat\<close>; every integer that is stored, counted or encoded at a fixed width is a
  word of that width.
\<close>

section \<open>Named collections\<close>

named_theorems res_simps \<open>case distinctions on outcomes\<close>
named_theorems le_simps \<open>little-endian images\<close>
named_theorems inv_rules \<open>preservation of component invariants\<close>

section \<open>Machine integers\<close>

type_synonym u8 = "8 word"
type_synonym u16 = "16 word"
type_synonym u32 = "32 word"
type_synonym u64 = "64 word"
type_synonym bytes = "8 word list"

definition checked_add :: "'a::len word \<Rightarrow> 'a word \<Rightarrow> 'a word option" where
  "checked_add x y = (if unat x + unat y < 2 ^ LENGTH('a) then Some (x + y) else None)"

definition checked_sub :: "'a::len word \<Rightarrow> 'a word \<Rightarrow> 'a word option" where
  "checked_sub x y = (if y \<le> x then Some (x - y) else None)"

definition checked_mul :: "'a::len word \<Rightarrow> 'a word \<Rightarrow> 'a word option" where
  "checked_mul x y = (if unat x * unat y < 2 ^ LENGTH('a) then Some (x * y) else None)"

definition saturating_sub :: "'a::len word \<Rightarrow> 'a word \<Rightarrow> 'a word" where
  "saturating_sub x y = (if y \<le> x then x - y else 0)"

definition saturating_add :: "'a::len word \<Rightarrow> 'a word \<Rightarrow> 'a word" where
  "saturating_add x y = (if unat x + unat y < 2 ^ LENGTH('a) then x + y else - 1)"

lemma unat_less: "unat (w :: 'a::len word) < 2 ^ LENGTH('a)"
  by (rule unsigned_less)

lemma word_of_nat_unat_eq: "unat (w :: 'a::len word) = n \<Longrightarrow> word_of_nat n = w"
  using unat_less [of w] by (auto simp: word_unat_eq_iff unat_of_nat)

lemma unat_minus_one: "unat (- 1 :: 'a::len word) = 2 ^ LENGTH('a) - 1"
  by (simp add: unsigned_minus_1_eq_mask mask_eq_exp_minus_1)

lemma checked_add_Some:
  "checked_add x y = Some z \<Longrightarrow> unat z = unat x + unat y"
  by (auto simp: checked_add_def unat_word_ariths split: if_splits)

lemma checked_add_one_None:
  "checked_add x (1 :: 'a::len word) = None \<longleftrightarrow> x = - 1"
proof -
  have "unat x + 1 < 2 ^ LENGTH('a) \<longleftrightarrow> unat x \<noteq> 2 ^ LENGTH('a) - 1"
    using unat_less [of x] by linarith
  moreover have "x = - 1 \<longleftrightarrow> unat x = 2 ^ LENGTH('a) - 1"
    by (simp add: word_unat_eq_iff unat_minus_one)
  ultimately show ?thesis
    by (auto simp: checked_add_def)
qed

lemma checked_add_one_Some:
  "checked_add x (1 :: 'a::len word) = Some y \<longleftrightarrow> x \<noteq> - 1 \<and> y = x + 1"
  using checked_add_one_None [of x] by (auto simp: checked_add_def split: if_splits)

lemma checked_sub_Some:
  "checked_sub x y = Some z \<longleftrightarrow> y \<le> x \<and> z = x - y"
  by (auto simp: checked_sub_def)

lemma unat_saturating_sub: "unat (saturating_sub x y) = unat x - unat y"
  by (auto simp: saturating_sub_def unat_sub word_le_nat_alt)

lemma less_word_succ: "x \<noteq> - 1 \<Longrightarrow> x < x + (1 :: 'a::len word)"
  using checked_add_one_Some [of x "x + 1"]
  by (auto dest!: checked_add_Some simp: word_less_nat_alt)

section \<open>Outcomes of Rust functions\<close>

text \<open>
  \<open>Ok\<close> and \<open>Err\<close> are the constructors of \<open>Result\<close>; \<open>Panic\<close> is a call that does not return
  (an index out of range, a failed \<open>unwrap\<close>, an arithmetic overflow in a checked build).
\<close>

datatype ('e, 'a) res = Ok 'a | Err 'e | Panic

fun and_then :: "('e, 'a) res \<Rightarrow> ('a \<Rightarrow> ('e, 'b) res) \<Rightarrow> ('e, 'b) res" where
  "and_then (Ok a) f = f a"
| "and_then (Err e) f = Err e"
| "and_then Panic f = Panic"

fun is_ok :: "('e, 'a) res \<Rightarrow> bool" where
  "is_ok (Ok a) = True"
| "is_ok (Err e) = False"
| "is_ok Panic = False"

fun ok_of :: "('e, 'a) res \<Rightarrow> 'a option" where
  "ok_of (Ok a) = Some a"
| "ok_of (Err e) = None"
| "ok_of Panic = None"

definition ok_or :: "'a option \<Rightarrow> 'e \<Rightarrow> ('e, 'a) res" where
  "ok_or x e = (case x of None \<Rightarrow> Err e | Some a \<Rightarrow> Ok a)"

lemma and_then_Ok [simp]:
  "and_then r f = Ok b \<longleftrightarrow> (\<exists>a. r = Ok a \<and> f a = Ok b)"
  by (cases r) auto

lemma and_then_split:
  "P (and_then r f) \<longleftrightarrow>
     (\<forall>a. r = Ok a \<longrightarrow> P (f a)) \<and> (\<forall>e. r = Err e \<longrightarrow> P (Err e)) \<and> (r = Panic \<longrightarrow> P Panic)"
  by (cases r) auto

lemma ok_or_Ok [simp]: "ok_or x e = Ok a \<longleftrightarrow> x = Some a"
  by (auto simp: ok_or_def split: option.splits)

lemma is_ok_iff [res_simps]: "is_ok r \<longleftrightarrow> (\<exists>a. r = Ok a)"
  by (cases r) auto

lemma ok_of_Some [res_simps]: "ok_of r = Some a \<longleftrightarrow> r = Ok a"
  by (cases r) auto

section \<open>Chunks of a slice\<close>

text \<open>\<open>slice::chunks\<close>, of which a caller with chunk size zero panics.\<close>

function chunks_of :: "nat \<Rightarrow> 'a list \<Rightarrow> 'a list list" where
  "chunks_of n xs = (if n = 0 \<or> xs = [] then [] else take n xs # chunks_of n (drop n xs))"
  by pat_completeness auto

termination
  by (relation "measure (\<lambda>(n, xs). length xs)") auto

declare chunks_of.simps [simp del]

lemma concat_chunks_of: "0 < n \<Longrightarrow> concat (chunks_of n xs) = xs"
  by (induction n xs rule: chunks_of.induct) (subst chunks_of.simps, simp)

lemma chunks_of_length: "c \<in> set (chunks_of n xs) \<Longrightarrow> length c \<le> n"
  by (induction n xs rule: chunks_of.induct) (subst (asm) chunks_of.simps, auto split: if_splits)

section \<open>Decimal formatting\<close>

fun fmt_nat :: "nat \<Rightarrow> string" where
  "fmt_nat n = (if n < 10 then [char_of (48 + n)] else fmt_nat (n div 10) @ [char_of (48 + n mod 10)])"

declare fmt_nat.simps [simp del]

definition fmt :: "'a::len word \<Rightarrow> string" where
  "fmt w = fmt_nat (unat w)"

text \<open>The format \<open>{:08X}\<close>: eight upper case hexadecimal digits.\<close>

definition hex_digit :: "nat \<Rightarrow> char" where
  "hex_digit d = (if d < 10 then char_of (48 + d) else char_of (55 + d))"

definition fmt_hex8 :: "u32 \<Rightarrow> string" where
  "fmt_hex8 w = map (\<lambda>i. hex_digit (unat w div 16 ^ (7 - i) mod 16)) [0..<8]"

section \<open>Little-endian images\<close>

fun le_bytes :: "nat \<Rightarrow> nat \<Rightarrow> bytes" where
  "le_bytes 0 x = []"
| "le_bytes (Suc n) x = word_of_nat x # le_bytes n (x div 256)"

fun nat_of_le :: "bytes \<Rightarrow> nat" where
  "nat_of_le [] = 0"
| "nat_of_le (b # bs) = unat b + 256 * nat_of_le bs"

definition le16 :: "u16 \<Rightarrow> bytes" where "le16 w = le_bytes 2 (unat w)"
definition le32 :: "u32 \<Rightarrow> bytes" where "le32 w = le_bytes 4 (unat w)"
definition le64 :: "u64 \<Rightarrow> bytes" where "le64 w = le_bytes 8 (unat w)"

definition from_le :: "bytes \<Rightarrow> 'a::len word" where
  "from_le bs = word_of_nat (nat_of_le bs)"

text \<open>The bytes \<open>bs[i .. i + n]\<close>; callers check the range first.\<close>

definition subslice :: "nat \<Rightarrow> nat \<Rightarrow> 'a list \<Rightarrow> 'a list" where
  "subslice i n bs = take n (drop i bs)"

lemma length_le_bytes [simp]: "length (le_bytes n x) = n"
  by (induction n arbitrary: x) auto

lemma length_le [simp]: "length (le16 a) = 2" "length (le32 b) = 4" "length (le64 c) = 8"
  by (simp_all add: le16_def le32_def le64_def)

lemma nat_of_le_le_bytes: "nat_of_le (le_bytes n x) = x mod 256 ^ n"
proof (induction n arbitrary: x)
  case 0
  then show ?case by simp
next
  case (Suc n)
  have "unat (word_of_nat x :: u8) = x mod 256"
    by (simp add: unat_of_nat)
  moreover have "x mod 256 + 256 * (x div 256 mod 256 ^ n) = x mod (256 * 256 ^ n)"
    by (simp add: mod_mult2_eq)
  ultimately show ?case using Suc.IH by simp
qed

lemma from_le_le16 [simp, le_simps]: "from_le (le16 w) = w"
  using unat_less [of w] by (simp add: from_le_def le16_def nat_of_le_le_bytes)

lemma from_le_le32 [simp, le_simps]: "from_le (le32 w) = w"
  using unat_less [of w] by (simp add: from_le_def le32_def nat_of_le_le_bytes)

lemma from_le_le64 [simp, le_simps]: "from_le (le64 w) = w"
  using unat_less [of w] by (simp add: from_le_def le64_def nat_of_le_le_bytes)

lemma nat_of_le_bound: "nat_of_le bs < 256 ^ length bs"
proof (induction bs)
  case Nil
  then show ?case by simp
next
  case (Cons b bs)
  have "unat b < 256" using unat_less [of b] by simp
  with Cons show ?case by simp
qed

lemma le_bytes_nat_of_le: "le_bytes (length bs) (nat_of_le bs) = bs"
proof (induction bs)
  case Nil
  then show ?case by simp
next
  case (Cons b bs)
  have b: "unat b < 256" using unat_less [of b] by simp
  have "(unat b + 256 * nat_of_le bs) div 256 = nat_of_le bs"
    using b by simp
  moreover have "(word_of_nat (unat b + 256 * nat_of_le bs) :: u8) = b"
    using b by (simp add: word_unat_eq_iff unat_of_nat del: of_nat_add of_nat_mult)
  ultimately show ?case using Cons by simp
qed

lemma le16_from_le [le_simps]: "length bs = 2 \<Longrightarrow> le16 (from_le bs) = bs"
  using le_bytes_nat_of_le [of bs] nat_of_le_bound [of bs]
  by (simp add: le16_def from_le_def unat_of_nat)

lemma le32_from_le [le_simps]: "length bs = 4 \<Longrightarrow> le32 (from_le bs) = bs"
  using le_bytes_nat_of_le [of bs] nat_of_le_bound [of bs]
  by (simp add: le32_def from_le_def unat_of_nat)

lemma le64_from_le [le_simps]: "length bs = 8 \<Longrightarrow> le64 (from_le bs) = bs"
  using le_bytes_nat_of_le [of bs] nat_of_le_bound [of bs]
  by (simp add: le64_def from_le_def unat_of_nat)

lemma from_le_byte [simp]: "from_le [b] = (b :: u8)"
  by (simp add: from_le_def)

lemma subslice_0 [simp]: "subslice 0 n bs = take n bs"
  by (simp add: subslice_def)

lemma length_subslice [simp]: "length (subslice i n bs) = min n (length bs - i)"
  by (simp add: subslice_def)

lemma subslice_append_skip: "i \<ge> length xs \<Longrightarrow> subslice i n (xs @ ys) = subslice (i - length xs) n ys"
  by (simp add: subslice_def)

lemma subslice_append_take: "n = length xs \<Longrightarrow> subslice 0 n (xs @ ys) = xs"
  by (simp add: subslice_def)

lemma take_subslice_join:
  "take i xs @ subslice i n xs = take (i + n) xs"
  "take i xs @ subslice i n xs @ ys = take (i + n) xs @ ys"
  by (simp_all add: subslice_def take_add)

section \<open>Vec::insert, Vec::remove\<close>

text \<open>\<open>Vec::insert\<close> for \<open>i \<le> length xs\<close> and \<open>Vec::remove\<close> for \<open>i < length xs\<close>; both panic outside.\<close>

definition vec_insert :: "nat \<Rightarrow> 'a \<Rightarrow> 'a list \<Rightarrow> 'a list" where
  "vec_insert i x xs = take i xs @ x # drop i xs"

definition vec_remove :: "nat \<Rightarrow> 'a list \<Rightarrow> 'a list" where
  "vec_remove i xs = take i xs @ drop (Suc i) xs"

lemma length_vec_insert [simp]: "length (vec_insert i x xs) = Suc (length xs)"
  by (simp add: vec_insert_def)

lemma length_vec_remove [simp]: "i < length xs \<Longrightarrow> length (vec_remove i xs) = length xs - 1"
  by (simp add: vec_remove_def)

lemma set_vec_insert [simp]: "set (vec_insert i x xs) = insert x (set xs)"
proof -
  have "set xs = set (take i xs) \<union> set (drop i xs)"
    by (metis append_take_drop_id set_append)
  then show ?thesis by (auto simp: vec_insert_def)
qed

lemma set_vec_remove_subset: "set (vec_remove i xs) \<subseteq> set xs"
  by (auto simp: vec_remove_def dest: in_set_takeD in_set_dropD)

section \<open>slice::binary\_search\_by\<close>

text \<open>
  The comparison result of \<open>Ord::cmp\<close> and the loop of the standard library's
  \<open>binary_search_by\<close>: the interval \<open>[base, base + size)\<close> is halved until one element is left.
\<close>

datatype ordering = OLess | OEqual | OGreater

datatype search_result = Found nat | NotFound nat

definition cmp :: "'a::linorder \<Rightarrow> 'a \<Rightarrow> ordering" where
  "cmp x y = (if x < y then OLess else if x = y then OEqual else OGreater)"

lemma cmp_simps [simp]:
  "cmp x y = OLess \<longleftrightarrow> x < y" "cmp x y = OEqual \<longleftrightarrow> x = y" "cmp x y = OGreater \<longleftrightarrow> y < x"
  by (auto simp: cmp_def)

function bs_loop :: "('a \<Rightarrow> ordering) \<Rightarrow> 'a list \<Rightarrow> nat \<Rightarrow> nat \<Rightarrow> nat" where
  "bs_loop f xs base sz =
     (if sz \<le> 1 then base
      else let half = sz div 2; mid = base + half
           in bs_loop f xs (if f (xs ! mid) = OGreater then base else mid) (sz - half))"
  by pat_completeness auto
termination
  by (relation "measure (\<lambda>(f, xs, base, sz). sz)") auto

declare bs_loop.simps [simp del]

definition binary_search_by :: "('a \<Rightarrow> ordering) \<Rightarrow> 'a list \<Rightarrow> search_result" where
  "binary_search_by f xs =
     (if xs = [] then NotFound 0
      else let base = bs_loop f xs 0 (length xs)
           in (case f (xs ! base) of
                 OEqual \<Rightarrow> Found base
               | OLess \<Rightarrow> NotFound (Suc base)
               | OGreater \<Rightarrow> NotFound base))"

text \<open>\<open>unwrap_or_else(|pos| pos)\<close> on the result, and \<open>ok()\<close>.\<close>

fun search_pos :: "search_result \<Rightarrow> nat" where
  "search_pos (Found i) = i"
| "search_pos (NotFound i) = i"

fun search_ok :: "search_result \<Rightarrow> nat option" where
  "search_ok (Found i) = Some i"
| "search_ok (NotFound i) = None"

lemma bs_loop_invariant:
  assumes "base + sz \<le> length xs" "0 < sz"
    and "base = 0 \<or> f (xs ! base) \<noteq> OGreater"
    and "\<And>j. base + sz \<le> j \<Longrightarrow> j < length xs \<Longrightarrow> f (xs ! j) = OGreater"
    and mono: "\<And>i j. i \<le> j \<Longrightarrow> j < length xs \<Longrightarrow> f (xs ! i) = OGreater \<Longrightarrow> f (xs ! j) = OGreater"
  shows "bs_loop f xs base sz < length xs
    \<and> (bs_loop f xs base sz = 0 \<or> f (xs ! bs_loop f xs base sz) \<noteq> OGreater)
    \<and> (\<forall>j. bs_loop f xs base sz < j \<longrightarrow> j < length xs \<longrightarrow> f (xs ! j) = OGreater)"
  using assms
proof (induction f xs base sz rule: bs_loop.induct)
  case (1 f xs base sz)
  show ?case
  proof (cases "sz \<le> 1")
    case True
    with "1.prems" show ?thesis
      by (auto simp: bs_loop.simps [of f xs base sz])
  next
    case False
    let ?half = "sz div 2" and ?mid = "base + sz div 2"
    let ?base' = "if f (xs ! ?mid) = OGreater then base else ?mid"
    from False have "0 < ?half" "?half < sz" by auto
    then have mid: "?mid < length xs" using "1.prems"(1) by linarith
    have above: "f (xs ! j) = OGreater" if "?base' + (sz - ?half) \<le> j" "j < length xs" for j
    proof (cases "f (xs ! ?mid) = OGreater")
      case True
      moreover from this that(1) have "?mid \<le> j" by simp
      ultimately show ?thesis using "1.prems"(5) that(2) by blast
    next
      case False
      with that \<open>?half < sz\<close> show ?thesis by (intro "1.prems"(4)) auto
    qed
    have step: "bs_loop f xs base sz = bs_loop f xs ?base' (sz - ?half)"
      using False by (simp add: bs_loop.simps [of f xs base sz] Let_def)
    show ?thesis
      unfolding step
    proof (rule "1.IH" [OF False refl refl])
      show "?base' + (sz - ?half) \<le> length xs" "0 < sz - ?half"
        using "1.prems"(1) \<open>?half < sz\<close> by auto
      show "?base' = 0 \<or> f (xs ! ?base') \<noteq> OGreater"
        using "1.prems"(3) by auto
    qed (fact above, fact "1.prems"(5))
  qed
qed

text \<open>
  What \<open>binary_search_by\<close> returns on a list that the comparison splits into elements that are
  less, then equal, then greater.
\<close>

definition search_sorted :: "('a \<Rightarrow> ordering) \<Rightarrow> 'a list \<Rightarrow> bool" where
  "search_sorted f xs \<longleftrightarrow>
     (\<forall>i j. i \<le> j \<longrightarrow> j < length xs \<longrightarrow>
        (f (xs ! i) = OGreater \<longrightarrow> f (xs ! j) = OGreater) \<and>
        (f (xs ! j) = OLess \<longrightarrow> f (xs ! i) = OLess))"

lemma search_sortedD:
  assumes "search_sorted f xs" "i \<le> j" "j < length xs"
  shows "f (xs ! i) = OGreater \<Longrightarrow> f (xs ! j) = OGreater"
    and "f (xs ! j) = OLess \<Longrightarrow> f (xs ! i) = OLess"
  using assms by (auto simp: search_sorted_def)

lemma bs_loop_position:
  assumes "search_sorted f xs" "xs \<noteq> []"
  defines "b \<equiv> bs_loop f xs 0 (length xs)"
  shows "b < length xs" "b = 0 \<or> f (xs ! b) \<noteq> OGreater"
    and "\<And>j. b < j \<Longrightarrow> j < length xs \<Longrightarrow> f (xs ! j) = OGreater"
proof -
  have "b < length xs \<and> (b = 0 \<or> f (xs ! b) \<noteq> OGreater)
      \<and> (\<forall>j. b < j \<longrightarrow> j < length xs \<longrightarrow> f (xs ! j) = OGreater)"
    unfolding b_def using assms(2) search_sortedD(1) [OF assms(1)]
    by (intro bs_loop_invariant) auto
  then show "b < length xs" "b = 0 \<or> f (xs ! b) \<noteq> OGreater"
    and "\<And>j. b < j \<Longrightarrow> j < length xs \<Longrightarrow> f (xs ! j) = OGreater" by blast+
qed

lemma binary_search_by_Found:
  assumes "binary_search_by f xs = Found i" "search_sorted f xs"
  shows "i < length xs" "f (xs ! i) = OEqual"
proof -
  from assms(1) have "xs \<noteq> []" by (auto simp: binary_search_by_def)
  with assms(1) bs_loop_position(1) [OF assms(2)]
  show "i < length xs" "f (xs ! i) = OEqual"
    by (auto simp: binary_search_by_def Let_def split: ordering.splits)
qed

lemma binary_search_by_NotFound:
  assumes "binary_search_by f xs = NotFound i" "search_sorted f xs"
  shows "i \<le> length xs" "\<And>j. j < i \<Longrightarrow> f (xs ! j) = OLess"
    and "\<And>j. i \<le> j \<Longrightarrow> j < length xs \<Longrightarrow> f (xs ! j) = OGreater"
proof -
  have "i \<le> length xs \<and> (\<forall>j < i. f (xs ! j) = OLess)
      \<and> (\<forall>j. i \<le> j \<longrightarrow> j < length xs \<longrightarrow> f (xs ! j) = OGreater)"
  proof (cases "xs = []")
    case True
    with assms show ?thesis by (simp add: binary_search_by_def)
  next
    case False
    let ?b = "bs_loop f xs 0 (length xs)"
    note b = bs_loop_position [OF assms(2) False] and mono = search_sortedD [OF assms(2)]
    consider "f (xs ! ?b) = OLess" "i = Suc ?b" | "f (xs ! ?b) = OGreater" "i = ?b"
      using assms(1) False by (auto simp: binary_search_by_def Let_def split: ordering.splits)
    then show ?thesis
    proof cases
      case 1
      then show ?thesis using b(1,3) mono(2) [of _ ?b] by (simp add: less_Suc_eq_le Suc_le_eq)
    next
      case 2
      then show ?thesis using b(1,2) mono(1) [of ?b] by auto
    qed
  qed
  then show "i \<le> length xs" "\<And>j. j < i \<Longrightarrow> f (xs ! j) = OLess"
    and "\<And>j. i \<le> j \<Longrightarrow> j < length xs \<Longrightarrow> f (xs ! j) = OGreater" by blast+
qed

section \<open>Searching a list ordered by a key\<close>

text \<open>
  The contract the containers of the sources rely on: a search over a strictly ascending key
  returns the index of the key, or the index where it belongs. The facts below are proved from
  the two laws alone and hold for every container that is interpreted with its own search.
\<close>

definition ascending :: "('e \<Rightarrow> 'k::linorder) \<Rightarrow> 'e list \<Rightarrow> bool" where
  "ascending key xs \<longleftrightarrow> sorted_wrt (<) (map key xs)"

lemma ascending_simps [simp]:
  "ascending key []"
  "ascending key (x # xs) \<longleftrightarrow> (\<forall>y \<in> set xs. key x < key y) \<and> ascending key xs"
  by (auto simp: ascending_def)

lemma ascending_append:
  "ascending key (xs @ ys) \<longleftrightarrow>
     ascending key xs \<and> ascending key ys \<and> (\<forall>x \<in> set xs. \<forall>y \<in> set ys. key x < key y)"
  by (auto simp: ascending_def sorted_wrt_append)

lemma ascending_distinct: "ascending key xs \<Longrightarrow> distinct (map key xs)"
  by (induction xs) auto

lemma search_sorted_ascending:
  assumes "ascending key xs"
  shows "search_sorted (\<lambda>e. cmp (key e) k) xs"
proof -
  have le: "i \<le> j \<Longrightarrow> j < length xs \<Longrightarrow> key (xs ! i) \<le> key (xs ! j)" for i j
    using assms sorted_wrt_nth_less [of "(<)" "map key xs" i j]
    by (cases "i = j") (auto simp: ascending_def)
  show ?thesis
    unfolding search_sorted_def cmp_simps by (blast dest: le intro: less_le_trans le_less_trans)
qed

definition key_map :: "('e \<Rightarrow> 'k::linorder) \<Rightarrow> 'e list \<Rightarrow> 'k \<rightharpoonup> 'e" where
  "key_map key xs = map_of (map (\<lambda>e. (key e, e)) xs)"

lemma key_map_Some:
  assumes "ascending key xs"
  shows "key_map key xs k = Some e \<longleftrightarrow> e \<in> set xs \<and> key e = k"
proof -
  have "distinct (map fst (map (\<lambda>e. (key e, e)) xs))"
    using ascending_distinct [OF assms] by (simp add: comp_def)
  then show ?thesis by (auto simp: key_map_def)
qed

lemma key_map_None: "key_map key xs k = None \<longleftrightarrow> k \<notin> key ` set xs"
  by (auto simp: key_map_def map_of_eq_None_iff image_iff)

lemma key_map_eqI:
  assumes "\<And>k e. key_map key xs k = Some e \<longleftrightarrow> m k = Some e"
  shows "key_map key xs = m"
  by (rule ext, rule option.expand, use assms in \<open>metis not_None_eq option.collapse\<close>)
    (use assms in \<open>metis option.collapse\<close>)

locale key_search =
  fixes key :: "'e \<Rightarrow> 'k::linorder"
    and search :: "'k \<Rightarrow> 'e list \<Rightarrow> search_result"
  assumes search_Found:
      "ascending key xs \<Longrightarrow> search k xs = Found i \<Longrightarrow> i < length xs \<and> key (xs ! i) = k"
    and search_NotFound:
      "ascending key xs \<Longrightarrow> search k xs = NotFound i \<Longrightarrow>
         i \<le> length xs \<and> (\<forall>x \<in> set (take i xs). key x < k) \<and> (\<forall>x \<in> set (drop i xs). k < key x)"
begin

lemma NotFound_notin:
  assumes "ascending key xs" "search k xs = NotFound i"
  shows "k \<notin> key ` set xs"
proof -
  have "set xs = set (take i xs) \<union> set (drop i xs)"
    by (metis append_take_drop_id set_append)
  with search_NotFound [OF assms] show ?thesis by fastforce
qed

lemma Found_iff:
  assumes "ascending key xs"
  shows "(\<exists>i. search k xs = Found i) \<longleftrightarrow> k \<in> key ` set xs"
proof (cases "search k xs")
  case (Found i)
  with search_Found [OF assms Found] show ?thesis
    by (metis image_eqI nth_mem)
next
  case (NotFound i)
  with NotFound_notin [OF assms NotFound] show ?thesis by simp
qed

lemma insert_ascending:
  assumes "ascending key xs" "search (key x) xs = NotFound i"
  shows "ascending key (vec_insert i x xs)"
proof -
  have "ascending key (take i xs @ drop i xs)" using assms(1) by simp
  then show ?thesis
    using search_NotFound [OF assms] by (auto simp: vec_insert_def ascending_append simp del: append_take_drop_id)
qed

lemma update_ascending:
  assumes "ascending key xs" "search (key x) xs = Found i"
  shows "ascending key (xs[i := x])"
proof -
  have "map key (xs[i := x]) = map key xs"
    using search_Found [OF assms] by (simp add: map_update list_update_same_conv)
  then show ?thesis using assms(1) by (simp add: ascending_def)
qed

lemma remove_ascending:
  assumes "ascending key xs"
  shows "ascending key (vec_remove i xs)"
proof (cases "i < length xs")
  case True
  from assms have "ascending key (take i xs @ xs ! i # drop (Suc i) xs)"
    using id_take_nth_drop [OF True] by simp
  then show ?thesis by (auto simp: vec_remove_def ascending_append)
next
  case False
  with assms show ?thesis by (simp add: vec_remove_def)
qed

lemma lookup_key_map:
  assumes "ascending key xs"
  shows "(case search k xs of Found i \<Rightarrow> Some (xs ! i) | NotFound i \<Rightarrow> None) = key_map key xs k"
proof (cases "search k xs")
  case (Found i)
  with search_Found [OF assms Found] key_map_Some [OF assms, of k "xs ! i"] show ?thesis by simp
next
  case (NotFound i)
  with NotFound_notin [OF assms NotFound] have "key_map key xs k = None"
    by (simp add: key_map_None)
  with NotFound show ?thesis by simp
qed

lemma insert_key_map:
  assumes "ascending key xs" "search (key x) xs = NotFound i"
  shows "key_map key (vec_insert i x xs) = (key_map key xs)(key x \<mapsto> x)"
proof (rule key_map_eqI)
  fix k e
  show "key_map key (vec_insert i x xs) k = Some e \<longleftrightarrow> ((key_map key xs)(key x \<mapsto> x)) k = Some e"
    using NotFound_notin [OF assms] key_map_Some [OF insert_ascending [OF assms]] key_map_Some [OF assms(1)]
    by (auto simp: image_iff)
qed

lemma set_remove:
  assumes "ascending key xs" "search k xs = Found i"
  shows "set (vec_remove i xs) = {e \<in> set xs. key e \<noteq> k}"
proof -
  have i: "i < length xs" "key (xs ! i) = k" using search_Found [OF assms] by auto
  have "ascending key (take i xs @ xs ! i # drop (Suc i) xs)"
    using assms(1) id_take_nth_drop [OF i(1)] by simp
  moreover have "set xs = set (take i xs @ xs ! i # drop (Suc i) xs)"
    using id_take_nth_drop [OF i(1)] by simp
  ultimately show ?thesis
    using i(2) by (fastforce simp: vec_remove_def ascending_append)
qed

lemma set_update:
  assumes "ascending key xs" "search (key x) xs = Found i"
  shows "set (xs[i := x]) = insert x {e \<in> set xs. key e \<noteq> key x}"
proof -
  have "i < length xs" using search_Found [OF assms] by simp
  then have "set (xs[i := x]) = insert x (set (vec_remove i xs))"
    by (simp add: upd_conv_take_nth_drop vec_remove_def)
  then show ?thesis by (simp add: set_remove [OF assms])
qed

lemma update_key_map:
  assumes "ascending key xs" "search (key x) xs = Found i"
  shows "key_map key (xs[i := x]) = (key_map key xs)(key x \<mapsto> x)"
proof (rule key_map_eqI)
  fix k e
  show "key_map key (xs[i := x]) k = Some e \<longleftrightarrow> ((key_map key xs)(key x \<mapsto> x)) k = Some e"
    using set_update [OF assms] key_map_Some [OF update_ascending [OF assms]] key_map_Some [OF assms(1)]
    by auto
qed

lemma remove_key_map:
  assumes "ascending key xs" "search k xs = Found i"
  shows "key_map key (vec_remove i xs) = (key_map key xs)(k := None)"
proof (rule key_map_eqI)
  fix k' e
  show "key_map key (vec_remove i xs) k' = Some e \<longleftrightarrow> ((key_map key xs)(k := None)) k' = Some e"
    using set_remove [OF assms] key_map_Some [OF remove_ascending [OF assms(1)]] key_map_Some [OF assms(1)]
    by auto
qed

end

definition search_by_key :: "('e \<Rightarrow> 'k::linorder) \<Rightarrow> 'k \<Rightarrow> 'e list \<Rightarrow> search_result" where
  "search_by_key key k xs = binary_search_by (\<lambda>e. cmp (key e) k) xs"

interpretation bsearch: key_search key "search_by_key key"
  for key :: "'e \<Rightarrow> 'k::linorder"
proof unfold_locales
  fix xs :: "'e list" and k :: 'k and i
  assume asc: "ascending key xs"
  note sorted = search_sorted_ascending [OF asc, of k]
  show "i < length xs \<and> key (xs ! i) = k" if "search_by_key key k xs = Found i"
    using binary_search_by_Found [OF that [unfolded search_by_key_def] sorted] by simp
  show "i \<le> length xs \<and> (\<forall>x \<in> set (take i xs). key x < k) \<and> (\<forall>x \<in> set (drop i xs). k < key x)"
    if "search_by_key key k xs = NotFound i"
    using binary_search_by_NotFound [OF that [unfolded search_by_key_def] sorted]
    by (auto simp: in_set_conv_nth)
qed

section \<open>BTreeMap\<close>

text \<open>A \<open>BTreeMap\<close> is the list of its entries in ascending key order, which is its iteration order.\<close>

fun bt_insert :: "'k::linorder \<Rightarrow> 'v \<Rightarrow> ('k \<times> 'v) list \<Rightarrow> ('k \<times> 'v) list" where
  "bt_insert k v [] = [(k, v)]"
| "bt_insert k v (e # m) =
     (case cmp k (fst e) of
        OLess \<Rightarrow> (k, v) # e # m
      | OEqual \<Rightarrow> (k, v) # m
      | OGreater \<Rightarrow> e # bt_insert k v m)"

definition bt_remove :: "'k::linorder \<Rightarrow> ('k \<times> 'v) list \<Rightarrow> ('k \<times> 'v) list" where
  "bt_remove k m = filter (\<lambda>e. fst e \<noteq> k) m"

lemma bt_keys_insert: "fst ` set (bt_insert k v m) = insert k (fst ` set m)"
  by (induction m) (auto split: ordering.splits)

lemma bt_insert_ascending: "ascending fst m \<Longrightarrow> ascending fst (bt_insert k v m)"
proof (induction m)
  case Nil
  then show ?case by simp
next
  case (Cons e m)
  have "\<forall>x \<in> set (bt_insert k v m). fst x = k \<or> fst x \<in> fst ` set m"
    using bt_keys_insert [of k v m] by (metis imageI insertE)
  with Cons show ?case by (fastforce split: ordering.splits)
qed

lemma bt_remove_ascending: "ascending fst m \<Longrightarrow> ascending fst (bt_remove k m)"
  by (induction m) (auto simp: bt_remove_def)

lemma map_of_bt_insert: "ascending fst m \<Longrightarrow> map_of (bt_insert k v m) = (map_of m)(k \<mapsto> v)"
proof (induction m)
  case Nil
  then show ?case by simp
next
  case (Cons e m)
  then show ?case by (cases e) (auto split: ordering.splits)
qed

lemma map_of_bt_remove: "map_of (bt_remove k m) = (map_of m)(k := None)"
  by (induction m) (auto simp: bt_remove_def)

end
