(* ===== verification/Ids.thy ===== *)
theory Ids
  imports Prelude
begin

text \<open>
  The identifier types of \<^verbatim>\<open>types.rs\<close>. \<open>PageId\<close>, \<open>Lsn\<close> and \<open>TransactionId\<close> are transparent
  wrappers of \<open>u64\<close>; here each is a type synonym of the 64-bit word, with the associated
  constants and methods that the other modules call.
\<close>

type_synonym page_id = u64
type_synonym lsn = u64
type_synonym txn_id = u64

text \<open>Identifiers of the crate \<open>uuid\<close>.\<close>

type_synonym uuid = "128 word"

section \<open>PageId\<close>

definition META_A :: page_id where "META_A = 0"
definition META_B :: page_id where "META_B = 1"
definition FIRST_DATA :: page_id where "FIRST_DATA = 2"

definition is_meta_page :: "page_id \<Rightarrow> bool" where
  "is_meta_page p \<longleftrightarrow> p = 0 \<or> p = 1"

definition is_null :: "page_id \<Rightarrow> bool" where
  "is_null p \<longleftrightarrow> p = 0"

definition is_data_page :: "page_id \<Rightarrow> bool" where
  "is_data_page p \<longleftrightarrow> 2 \<le> p"

definition page_id_next :: "page_id \<Rightarrow> page_id option" where
  "page_id_next p = checked_add p 1"

text \<open>The multiplication of \<open>file_offset\<close> is unchecked: it wraps in a release build.\<close>

definition file_offset :: "page_id \<Rightarrow> u64 \<Rightarrow> u64" where
  "file_offset p page_size = p * page_size"

definition opposite_meta_id :: "page_id \<Rightarrow> page_id option" where
  "opposite_meta_id p = (if p = 0 then Some 1 else if p = 1 then Some 0 else None)"

section \<open>Lsn and TransactionId\<close>

definition LSN_INITIAL :: lsn where "LSN_INITIAL = 0"
definition LSN_FIRST :: lsn where "LSN_FIRST = 1"
definition TXN_INITIAL :: txn_id where "TXN_INITIAL = 0"
definition TXN_FIRST :: txn_id where "TXN_FIRST = 1"

definition lsn_is_valid :: "lsn \<Rightarrow> bool" where "lsn_is_valid l \<longleftrightarrow> 0 < l"
definition lsn_is_initial :: "lsn \<Rightarrow> bool" where "lsn_is_initial l \<longleftrightarrow> l = 0"
definition lsn_next :: "lsn \<Rightarrow> lsn option" where "lsn_next l = checked_add l 1"
definition lsn_distance_to :: "lsn \<Rightarrow> lsn \<Rightarrow> u64 option" where
  "lsn_distance_to l other = checked_sub other l"
definition lsn_to_le_bytes :: "lsn \<Rightarrow> bytes" where "lsn_to_le_bytes l = le64 l"
definition lsn_from_le_bytes :: "bytes \<Rightarrow> lsn" where "lsn_from_le_bytes bs = from_le bs"

definition txn_is_valid :: "txn_id \<Rightarrow> bool" where "txn_is_valid t \<longleftrightarrow> 0 < t"
definition txn_is_initial :: "txn_id \<Rightarrow> bool" where "txn_is_initial t \<longleftrightarrow> t = 0"
definition txn_next :: "txn_id \<Rightarrow> txn_id option" where "txn_next t = checked_add t 1"
definition txn_distance_to :: "txn_id \<Rightarrow> txn_id \<Rightarrow> u64 option" where
  "txn_distance_to t other = checked_sub other t"

section \<open>Lemmas\<close>

lemma data_page_not_meta: "is_data_page p \<longleftrightarrow> \<not> is_meta_page p"
proof -
  have "p = 0 \<longleftrightarrow> unat p = 0" "p = 1 \<longleftrightarrow> unat p = 1" "2 \<le> p \<longleftrightarrow> 2 \<le> unat p"
    by (simp_all add: word_unat_eq_iff word_le_nat_alt)
  then show ?thesis by (auto simp: is_data_page_def is_meta_page_def)
qed

lemma lsn_next_greater: "lsn_next l = Some l' \<Longrightarrow> l < l'"
  by (auto simp: lsn_next_def checked_add_one_Some less_word_succ)

lemma txn_next_greater: "txn_next t = Some t' \<Longrightarrow> t < t'"
  by (auto simp: txn_next_def checked_add_one_Some less_word_succ)

lemma lsn_next_None: "lsn_next l = None \<longleftrightarrow> l = - 1"
  by (simp add: lsn_next_def checked_add_one_None)

lemma txn_next_None: "txn_next t = None \<longleftrightarrow> t = - 1"
  by (simp add: txn_next_def checked_add_one_None)

lemma opposite_meta_id_involution:
  "opposite_meta_id p = Some q \<longleftrightarrow> is_meta_page p \<and> q = 1 - p"
  by (auto simp: opposite_meta_id_def is_meta_page_def split: if_splits)

text \<open>Two different pages of a file whose size fits in 64 bits never overlap.\<close>

lemma file_offset_disjoint:
  assumes "p < q" "unat q * unat page_size < 2 ^ 64"
  shows "unat (file_offset p page_size) + unat page_size \<le> unat (file_offset q page_size)"
proof -
  have pq: "unat p + 1 \<le> unat q" using assms(1) by (simp add: word_less_nat_alt)
  then have le: "(unat p + 1) * unat page_size \<le> unat q * unat page_size" by (rule mult_le_mono1)
  then have "unat p * unat page_size < 2 ^ 64" using assms(2) by simp
  then have "unat (file_offset p page_size) = unat p * unat page_size"
    by (simp add: file_offset_def unat_word_ariths)
  moreover have "unat (file_offset q page_size) = unat q * unat page_size"
    using assms(2) by (simp add: file_offset_def unat_word_ariths)
  ultimately show ?thesis using le by simp
qed

end
