(* ===== verification/Errors.thy ===== *)
theory Errors
  imports Prelude
begin

text \<open>
  The error enums of \<^verbatim>\<open>error.rs\<close> that the modelled components raise, with the source's variants
  and payloads. A formatted message is the string the format macro builds; \<open>usize\<close> payloads are
  natural numbers. The variants of the families that no modelled component constructs (language
  model, plugin, cartridge, consensus, replication, feature and rate limit errors) are left out.
\<close>

datatype io_error =
    FileNotFound string
  | PermissionDenied string
  | FileTooSmall string u64 u64
  | IoGeneric string
  | IncompleteKey
  | IncompleteValue
  | IncompleteMessage
  | IncompleteSnapshotData
  | InternalError string
  | NotFileBased
  | LogPathNotSet

datatype validation_error =
    ChecksumMismatch u32 u32
  | CorruptBtree u64
  | CorruptedData
  | InvalidCommitMagic u32 u32
  | InvalidMagic u32 u32
  | InvalidHeaderSize nat nat
  | InvalidOperationFlags u8
  | InvalidOperationType u8
  | InvalidReservedField u32
  | TooManyOperations u32 u32
  | ValidationGeneric string
  | CycleDetected u64
  | InvalidPageType u8
  | InvalidBtreeMagic
  | KeysNotSorted
  | InvalidLeafLevel u16
  | InvalidInternalLevel u16
  | LeavesNotSameDepth
  | InvalidChildPageId u64
  | TreeEmpty
  | DuplicateKeys
  | HeaderChecksumMismatch u32 u32
  | PayloadLengthInvalid u32 u32
  | UnsupportedVersion u16 u8 u8
  | VKeyLengthMismatch u16 nat
  | VValueLengthMismatch u32 nat
  | VDeleteHasValue

datatype protocol_error =
    UnsupportedProtocol u8 u8 u8
  | InvalidJsonStructure string
  | JsonParseError string
  | UnsupportedCommandType u32
  | UnknownCartridgeType string
  | InvalidCommitRecord

datatype concurrency_error =
    WriteBusy
  | TransactionNotActive
  | TransactionNotPreparing
  | AlreadyClaimed

datatype transaction_error =
    SnapshotNotFound u64
  | DatabaseClosed
  | LockPoisoned
  | TransactionGeneric string
  | InMemoryIteratorNotSupported
  | PutHasNoValue
  | DeleteHasValue
  | KeyLengthMismatch u16 nat
  | ValueLengthMismatch u32 nat

datatype storage_error =
    PagerError string
  | PageAllocationFailed
  | InvalidPageId u64
  | PageCorrupted u64
  | WalError string
  | ReplayFailed string
  | TruncateFailed

datatype size_limit_error =
    KeyTooLarge nat nat
  | ValueTooLarge nat nat
  | BufferTooSmall nat nat

datatype error =
    Io io_error
  | Validation validation_error
  | Protocol protocol_error
  | Concurrency concurrency_error
  | Transaction transaction_error
  | Storage storage_error
  | SizeLimit size_limit_error

type_synonym 'a outcome = "(error, 'a) res"

end
