(* ===== verification/Checksum.thy ===== *)
theory Checksum
  imports Prelude
begin

unbundle bit_operations_syntax

text \<open>
  The wrappers of \<^verbatim>\<open>checksum.rs\<close> around the third-party \<^verbatim>\<open>crc32c\<close> crate. The two functions of
  the crate are parameters; the contract the code relies on (the checksum of a concatenation is
  the continuation of the checksum of its first part) is the locale \<open>crc32c_lib\<close>. It is
  interpreted on the bitwise CRC-32C algorithm with the Castagnoli polynomial.
\<close>

section \<open>The contract of the crate\<close>

locale crc32c_lib =
  fixes crc32c :: "bytes \<Rightarrow> u32"
    and crc32c_append :: "u32 \<Rightarrow> bytes \<Rightarrow> u32"
  assumes crc32c_empty: "crc32c [] = 0"
    and crc32c_continue: "crc32c_append (crc32c xs) ys = crc32c (xs @ ys)"
begin

lemma append_from_zero: "crc32c_append 0 ys = crc32c ys"
  using crc32c_continue [of "[]" ys] by (simp add: crc32c_empty)

lemma fold_append_concat:
  "foldl crc32c_append (crc32c xs) chunks = crc32c (xs @ concat chunks)"
  by (induction chunks arbitrary: xs) (simp_all add: crc32c_continue)

end

section \<open>CRC-32C, bit by bit\<close>

definition crc_bit :: "u32 \<Rightarrow> u32" where
  "crc_bit c = (if c AND 1 = 1 then drop_bit 1 c XOR 0x82F63B78 else drop_bit 1 c)"

definition crc_byte :: "u32 \<Rightarrow> u8 \<Rightarrow> u32" where
  "crc_byte c b = (crc_bit ^^ 8) (c XOR ucast b)"

definition crc32c_bitwise_append :: "u32 \<Rightarrow> bytes \<Rightarrow> u32" where
  "crc32c_bitwise_append c bs = NOT (foldl crc_byte (NOT c) bs)"

definition crc32c_bitwise :: "bytes \<Rightarrow> u32" where
  "crc32c_bitwise bs = crc32c_bitwise_append 0 bs"

interpretation castagnoli: crc32c_lib crc32c_bitwise crc32c_bitwise_append
  by unfold_locales (simp_all add: crc32c_bitwise_def crc32c_bitwise_append_def)

section \<open>The hasher and the helpers\<close>

record crc32c_hasher =
  hasher_state :: u32

definition hasher_new :: crc32c_hasher where
  "hasher_new = \<lparr>hasher_state = 0\<rparr>"

definition hasher_update :: "(u32 \<Rightarrow> bytes \<Rightarrow> u32) \<Rightarrow> crc32c_hasher \<Rightarrow> bytes \<Rightarrow> crc32c_hasher" where
  "hasher_update crc32c_append h data = h\<lparr>hasher_state := crc32c_append (hasher_state h) data\<rparr>"

definition hasher_finalize :: "crc32c_hasher \<Rightarrow> u32" where
  "hasher_finalize h = hasher_state h"

definition hasher_reset :: "crc32c_hasher \<Rightarrow> crc32c_hasher" where
  "hasher_reset h = h\<lparr>hasher_state := 0\<rparr>"

definition checksum :: "(bytes \<Rightarrow> u32) \<Rightarrow> bytes \<Rightarrow> u32" where
  "checksum crc32c data = crc32c data"

definition checksum_with_init :: "(u32 \<Rightarrow> bytes \<Rightarrow> u32) \<Rightarrow> bytes \<Rightarrow> u32 \<Rightarrow> u32" where
  "checksum_with_init crc32c_append data init = crc32c_append init data"

definition verify_checksum :: "(bytes \<Rightarrow> u32) \<Rightarrow> bytes \<Rightarrow> u32 \<Rightarrow> bool" where
  "verify_checksum crc32c data expected \<longleftrightarrow> checksum crc32c data = expected"

lemma hasher_state_updates:
  "hasher_state (foldl (hasher_update app) h chunks) = foldl app (hasher_state h) chunks"
  by (induction chunks arbitrary: h) (simp_all add: hasher_update_def)

text \<open>
  The hasher and the one-shot function agree: feeding any sequence of chunks to a fresh hasher
  gives the checksum of their concatenation.
\<close>

lemma hasher_concat:
  assumes "crc32c_lib crc32c crc32c_append"
  shows "hasher_finalize (foldl (hasher_update crc32c_append) hasher_new chunks)
       = checksum crc32c (concat chunks)"
  using crc32c_lib.fold_append_concat [OF assms, of "[]" chunks] crc32c_lib.crc32c_empty [OF assms]
  by (simp add: hasher_finalize_def hasher_state_updates hasher_new_def checksum_def)

end
