(* ===== verification/Page.thy ===== *)
theory Page
  imports Ids Errors Checksum
begin

text \<open>
  \<^verbatim>\<open>page.rs\<close>: page types, the 40-byte page header with its two checksums, and the 16 KiB page
  image. The header is written and read through its \<open>repr(C)\<close> memory image on a little-endian
  target: 36 bytes of fields and 4 bytes of padding, which are zero here as in the zeroed buffers
  the code fills. The checksum function of the \<^verbatim>\<open>crc32c\<close> crate is the parameter \<open>crc\<close>.
\<close>

definition PAGE_MAGIC :: u32 where "PAGE_MAGIC = 0x4E534442"
definition FORMAT_VERSION :: u16 where "FORMAT_VERSION = 0"
definition PAGE_SIZE :: nat where "PAGE_SIZE = 16384"
definition HEADER_SIZE :: nat where "HEADER_SIZE = 40"
definition MAX_PAYLOAD_SIZE :: nat where "MAX_PAYLOAD_SIZE = PAGE_SIZE - HEADER_SIZE"

lemmas page_consts = PAGE_MAGIC_def FORMAT_VERSION_def PAGE_SIZE_def HEADER_SIZE_def MAX_PAYLOAD_SIZE_def

datatype page_type = Meta | BtreeInternal | BtreeLeaf | Freelist | LogSegment | Overflow

definition page_type_from_u8 :: "u8 \<Rightarrow> page_type option" where
  "page_type_from_u8 v =
     (if v = 0 then Some Meta
      else if v = 1 then Some BtreeInternal
      else if v = 2 then Some BtreeLeaf
      else if v = 3 then Some Freelist
      else if v = 4 then Some LogSegment
      else if v = 5 then Some Overflow
      else None)"

fun page_type_to_u8 :: "page_type \<Rightarrow> u8" where
  "page_type_to_u8 Meta = 0"
| "page_type_to_u8 BtreeInternal = 1"
| "page_type_to_u8 BtreeLeaf = 2"
| "page_type_to_u8 Freelist = 3"
| "page_type_to_u8 LogSegment = 4"
| "page_type_to_u8 Overflow = 5"

definition page_type_try_from :: "u8 \<Rightarrow> page_type outcome" where
  "page_type_try_from v = ok_or (page_type_from_u8 v) (Validation (InvalidPageType v))"

section \<open>Page header\<close>

record page_header =
  ph_magic :: u32
  ph_format_version :: u16
  ph_page_type :: u8
  ph_flags :: u8
  ph_page_id :: u64
  ph_txn_id :: u64
  ph_payload_len :: u32
  ph_header_crc32c :: u32
  ph_page_crc32c :: u32

definition page_header_new :: "page_id \<Rightarrow> page_type \<Rightarrow> page_header" where
  "page_header_new pid pt =
     \<lparr>ph_magic = PAGE_MAGIC, ph_format_version = FORMAT_VERSION, ph_page_type = page_type_to_u8 pt,
      ph_flags = 0, ph_page_id = pid, ph_txn_id = 0, ph_payload_len = 0, ph_header_crc32c = 0,
      ph_page_crc32c = 0\<rparr>"

definition page_header_default :: page_header where
  "page_header_default =
     \<lparr>ph_magic = PAGE_MAGIC, ph_format_version = FORMAT_VERSION, ph_page_type = 0,
      ph_flags = 0, ph_page_id = 0, ph_txn_id = 0, ph_payload_len = 0, ph_header_crc32c = 0,
      ph_page_crc32c = 0\<rparr>"

text \<open>The first 28 bytes of the header's memory image: everything before the checksums.\<close>

definition page_header_prefix :: "page_header \<Rightarrow> bytes" where
  "page_header_prefix h =
     le32 (ph_magic h) @ le16 (ph_format_version h) @ [ph_page_type h] @ [ph_flags h] @
     le64 (ph_page_id h) @ le64 (ph_txn_id h) @ le32 (ph_payload_len h)"

definition page_header_image :: "page_header \<Rightarrow> bytes" where
  "page_header_image h =
     page_header_prefix h @ le32 (ph_header_crc32c h) @ le32 (ph_page_crc32c h) @ replicate 4 0"

definition page_header_read :: "bytes \<Rightarrow> page_header" where
  "page_header_read bs =
     \<lparr>ph_magic = from_le (subslice 0 4 bs), ph_format_version = from_le (subslice 4 2 bs),
      ph_page_type = from_le (subslice 6 1 bs), ph_flags = from_le (subslice 7 1 bs),
      ph_page_id = from_le (subslice 8 8 bs), ph_txn_id = from_le (subslice 16 8 bs),
      ph_payload_len = from_le (subslice 24 4 bs), ph_header_crc32c = from_le (subslice 28 4 bs),
      ph_page_crc32c = from_le (subslice 32 4 bs)\<rparr>"

definition calculate_header_checksum :: "(bytes \<Rightarrow> u32) \<Rightarrow> page_header \<Rightarrow> u32" where
  "calculate_header_checksum crc h = checksum crc (page_header_prefix h)"

definition validate_header_checksum :: "(bytes \<Rightarrow> u32) \<Rightarrow> page_header \<Rightarrow> bool" where
  "validate_header_checksum crc h \<longleftrightarrow> ph_header_crc32c h = calculate_header_checksum crc h"

definition page_header_validate :: "(bytes \<Rightarrow> u32) \<Rightarrow> page_header \<Rightarrow> unit outcome" where
  "page_header_validate crc h =
     (if ph_magic h \<noteq> PAGE_MAGIC then
        Err (Validation (InvalidMagic PAGE_MAGIC (ph_magic h)))
      else if ph_format_version h \<noteq> FORMAT_VERSION then
        Err (Validation (UnsupportedVersion (ph_format_version h) 0 0))
      else if page_type_from_u8 (ph_page_type h) = None then
        Err (Validation (InvalidPageType (ph_page_type h)))
      else if MAX_PAYLOAD_SIZE < unat (ph_payload_len h) then
        Err (Validation (PayloadLengthInvalid (ph_payload_len h) (word_of_nat MAX_PAYLOAD_SIZE)))
      else if \<not> validate_header_checksum crc h then
        Err (Validation (HeaderChecksumMismatch (ph_header_crc32c h) (calculate_header_checksum crc h)))
      else Ok ())"

definition page_header_update_checksum :: "(bytes \<Rightarrow> u32) \<Rightarrow> page_header \<Rightarrow> page_header" where
  "page_header_update_checksum crc h = h\<lparr>ph_header_crc32c := calculate_header_checksum crc h\<rparr>"

definition get_page_type :: "page_header \<Rightarrow> page_type option" where
  "get_page_type h = page_type_from_u8 (ph_page_type h)"

section \<open>Page\<close>

record page =
  pg_header :: page_header
  pg_payload :: bytes

definition page_new :: "page_id \<Rightarrow> page_type \<Rightarrow> page" where
  "page_new pid pt = \<lparr>pg_header = page_header_new pid pt, pg_payload = []\<rparr>"

definition page_from_bytes :: "(bytes \<Rightarrow> u32) \<Rightarrow> bytes \<Rightarrow> page outcome" where
  "page_from_bytes crc bs =
     (if length bs \<noteq> PAGE_SIZE then
        Err (Validation (InvalidHeaderSize PAGE_SIZE (length bs)))
      else
        let h = page_header_read bs in
        and_then (page_header_validate crc h) (\<lambda>_.
          let payload_len = unat (ph_payload_len h);
              payload_end = HEADER_SIZE + payload_len
          in if length bs < payload_end then
               Err (Validation (PayloadLengthInvalid (ph_payload_len h) (word_of_nat MAX_PAYLOAD_SIZE)))
             else
               let payload = subslice HEADER_SIZE payload_len bs;
                   calculated = checksum crc payload
               in if calculated \<noteq> ph_page_crc32c h then
                    Err (Validation (ChecksumMismatch (ph_page_crc32c h) calculated))
                  else Ok \<lparr>pg_header = h, pg_payload = payload\<rparr>))"

definition page_to_bytes :: "page \<Rightarrow> bytes" where
  "page_to_bytes p =
     (let payload_len = min (length (pg_payload p)) MAX_PAYLOAD_SIZE
      in page_header_image (pg_header p) @ take payload_len (pg_payload p) @
         replicate (PAGE_SIZE - HEADER_SIZE - payload_len) 0)"

definition page_page_id :: "page \<Rightarrow> page_id" where
  "page_page_id p = ph_page_id (pg_header p)"

definition page_page_type :: "page \<Rightarrow> page_type option" where
  "page_page_type p = get_page_type (pg_header p)"

definition page_set_txn_id :: "page \<Rightarrow> u64 \<Rightarrow> page" where
  "page_set_txn_id p t = p\<lparr>pg_header := (pg_header p)\<lparr>ph_txn_id := t\<rparr>\<rparr>"

definition recalculate_checksums :: "(bytes \<Rightarrow> u32) \<Rightarrow> page \<Rightarrow> page" where
  "recalculate_checksums crc p =
     p\<lparr>pg_header := page_header_update_checksum crc
         ((pg_header p)\<lparr>ph_page_crc32c := checksum crc (pg_payload p)\<rparr>)\<rparr>"

definition page_update_payload :: "(bytes \<Rightarrow> u32) \<Rightarrow> page \<Rightarrow> bytes \<Rightarrow> page outcome" where
  "page_update_payload crc p payload =
     (if MAX_PAYLOAD_SIZE < length payload then
        Err (Validation (PayloadLengthInvalid (word_of_nat (length payload)) (word_of_nat MAX_PAYLOAD_SIZE)))
      else
        Ok (recalculate_checksums crc
          (p\<lparr>pg_payload := payload,
             pg_header := (pg_header p)\<lparr>ph_payload_len := word_of_nat (length payload)\<rparr>\<rparr>)))"

definition page_validate :: "(bytes \<Rightarrow> u32) \<Rightarrow> page \<Rightarrow> unit outcome" where
  "page_validate crc p =
     and_then (page_header_validate crc (pg_header p)) (\<lambda>_.
       if length (pg_payload p) \<noteq> unat (ph_payload_len (pg_header p)) then
         Err (Validation (PayloadLengthInvalid (ph_payload_len (pg_header p)) (word_of_nat (length (pg_payload p)))))
       else
         let calculated = checksum crc (pg_payload p)
         in if calculated \<noteq> ph_page_crc32c (pg_header p) then
              Err (Validation (ChecksumMismatch (ph_page_crc32c (pg_header p)) calculated))
            else Ok ())"

section \<open>Lemmas\<close>

lemma page_type_from_to [simp]: "page_type_from_u8 (page_type_to_u8 pt) = Some pt"
  by (cases pt) (simp_all add: page_type_from_u8_def)

lemma page_type_to_from: "page_type_from_u8 v = Some pt \<Longrightarrow> page_type_to_u8 pt = v"
  by (auto simp: page_type_from_u8_def split: if_splits)

lemma length_page_header_prefix [simp]: "length (page_header_prefix h) = 28"
  by (simp add: page_header_prefix_def)

lemma length_page_header_image [simp]: "length (page_header_image h) = 40"
  by (simp add: page_header_image_def)

lemma page_header_read_image [simp]: "page_header_read (page_header_image h @ rest) = h"
  by (simp add: page_header_read_def page_header_image_def page_header_prefix_def subslice_def)

lemma length_page_to_bytes [simp]: "length (page_to_bytes p) = PAGE_SIZE"
  by (simp add: page_to_bytes_def page_consts Let_def)

lemma page_header_validate_Ok:
  "page_header_validate crc h = Ok u \<longleftrightarrow>
     ph_magic h = PAGE_MAGIC \<and> ph_format_version h = FORMAT_VERSION \<and>
     page_type_from_u8 (ph_page_type h) \<noteq> None \<and> unat (ph_payload_len h) \<le> MAX_PAYLOAD_SIZE \<and>
     ph_header_crc32c h = calculate_header_checksum crc h"
  by (auto simp: page_header_validate_def validate_header_checksum_def)

lemma page_validate_Ok:
  "page_validate crc p = Ok u \<longleftrightarrow>
     page_header_validate crc (pg_header p) = Ok () \<and>
     length (pg_payload p) = unat (ph_payload_len (pg_header p)) \<and>
     checksum crc (pg_payload p) = ph_page_crc32c (pg_header p)"
  by (auto simp: page_validate_def Let_def)

lemma page_to_bytes_payload:
  assumes "length (pg_payload p) \<le> MAX_PAYLOAD_SIZE"
  shows "subslice HEADER_SIZE (length (pg_payload p)) (page_to_bytes p) = pg_payload p"
  using assms by (simp add: page_to_bytes_def subslice_def HEADER_SIZE_def Let_def min_absorb1)

lemma page_header_of_to_bytes [simp]: "page_header_read (page_to_bytes p) = pg_header p"
  by (simp add: page_to_bytes_def Let_def)

lemma calculate_header_checksum_crcs [simp]:
  "calculate_header_checksum crc (h\<lparr>ph_header_crc32c := a\<rparr>) = calculate_header_checksum crc h"
  "calculate_header_checksum crc (h\<lparr>ph_page_crc32c := b\<rparr>) = calculate_header_checksum crc h"
  by (simp_all add: calculate_header_checksum_def page_header_prefix_def)

text \<open>The static part of a header, which the checksum functions leave alone.\<close>

definition page_header_wf :: "page_header \<Rightarrow> bool" where
  "page_header_wf h \<longleftrightarrow> ph_magic h = PAGE_MAGIC \<and> ph_format_version h = FORMAT_VERSION \<and>
     page_type_from_u8 (ph_page_type h) \<noteq> None"

lemma page_header_new_wf [simp]: "page_header_wf (page_header_new pid pt)"
  by (simp add: page_header_wf_def page_header_new_def)

lemma recalculate_checksums_valid:
  assumes "page_header_wf (pg_header p)" "length (pg_payload p) \<le> MAX_PAYLOAD_SIZE"
    and "ph_payload_len (pg_header p) = word_of_nat (length (pg_payload p))"
  shows "page_validate crc (recalculate_checksums crc p) = Ok ()"
proof -
  have "unat (word_of_nat (length (pg_payload p)) :: u32) = length (pg_payload p)"
    using assms(2) by (simp add: unat_of_nat page_consts)
  with assms show ?thesis
    by (auto simp: page_validate_Ok page_header_validate_Ok page_header_wf_def
        recalculate_checksums_def page_header_update_checksum_def)
qed

lemma page_from_to_bytes:
  assumes "page_validate crc p = Ok ()"
  shows "page_from_bytes crc (page_to_bytes p) = Ok p"
proof -
  have len: "length (pg_payload p) = unat (ph_payload_len (pg_header p))"
    and "unat (ph_payload_len (pg_header p)) \<le> MAX_PAYLOAD_SIZE"
    using assms by (auto simp: page_validate_Ok page_header_validate_Ok)
  then have "subslice HEADER_SIZE (unat (ph_payload_len (pg_header p))) (page_to_bytes p) = pg_payload p"
    using page_to_bytes_payload [of p] by simp
  with assms len \<open>unat (ph_payload_len (pg_header p)) \<le> MAX_PAYLOAD_SIZE\<close> show ?thesis
    by (simp add: page_from_bytes_def Let_def page_validate_Ok page_consts)
qed

lemma page_header_read_prefix:
  assumes "take 36 bs = take 36 cs"
  shows "page_header_read bs = page_header_read cs"
proof -
  have "subslice i n bs = subslice i n cs" if "i + n \<le> 36" for i n
  proof -
    have "subslice i n xs = subslice i n (take 36 xs)" for xs :: bytes
      using that by (simp add: subslice_def drop_take min_absorb1)
    then show ?thesis using assms by metis
  qed
  then show ?thesis by (simp add: page_header_read_def del: subslice_0)
qed

lemma page_header_image_read:
  assumes "40 \<le> length bs"
  shows "take 36 (page_header_image (page_header_read bs)) = take 36 bs"
proof -
  have byte: "[from_le (subslice i 1 bs)] = subslice i 1 bs" if "i < 40" for i
    using that assms by (simp add: subslice_def take_Suc_conv_app_nth hd_drop_conv_nth take_Suc)
  have "take 36 bs = subslice 0 4 bs @ subslice 4 2 bs @ subslice 6 1 bs @ subslice 7 1 bs @
      subslice 8 8 bs @ subslice 16 8 bs @ subslice 24 4 bs @ subslice 28 4 bs @ subslice 32 4 bs"
    by (simp add: take_subslice_join)
  with assms byte show ?thesis
    by (simp add: page_header_image_def page_header_prefix_def page_header_read_def le_simps)
qed

section \<open>Properties\<close>

text \<open>
  C14. What \<open>Page::from_bytes\<close> accepts. A buffer parses to the page \<open>p\<close> exactly when it has the page
  size, \<open>p\<close> passes \<open>Page::validate\<close> (magic, version, type, length and both checksums), and the
  buffer starts with the header fields of \<open>p\<close> and carries its payload behind the header. In
  particular the image of a valid page parses back to that page.
\<close>

theorem page_from_bytes_iff:
  "page_from_bytes crc bs = Ok p \<longleftrightarrow>
     length bs = PAGE_SIZE \<and> page_validate crc p = Ok () \<and>
     take 36 bs = take 36 (page_to_bytes p) \<and>
     subslice HEADER_SIZE (length (pg_payload p)) bs = pg_payload p"
    (is "?parse \<longleftrightarrow> ?valid")
proof
  assume parse: ?parse
  then have p: "length bs = PAGE_SIZE" "pg_header p = page_header_read bs"
      "page_header_validate crc (page_header_read bs) = Ok ()"
      "pg_payload p = subslice HEADER_SIZE (unat (ph_payload_len (page_header_read bs))) bs"
      "checksum crc (pg_payload p) = ph_page_crc32c (page_header_read bs)"
    by (auto simp: page_from_bytes_def Let_def split: if_splits)
  moreover have len: "length (pg_payload p) = unat (ph_payload_len (page_header_read bs))"
    using p by (simp add: page_header_validate_Ok page_consts)
  moreover have "take 36 (page_to_bytes p) = take 36 bs"
    using p(1,2) page_header_image_read [of bs] by (simp add: page_to_bytes_def Let_def page_consts)
  ultimately show ?valid by (simp add: page_validate_Ok)
next
  assume valid: ?valid
  then have "page_header_read bs = pg_header p"
    using page_header_read_prefix [of bs "page_to_bytes p"] by simp
  moreover have "unat (ph_payload_len (pg_header p)) = length (pg_payload p)"
    using valid by (simp add: page_validate_Ok)
  moreover have "length (pg_payload p) \<le> MAX_PAYLOAD_SIZE"
    using valid by (simp add: page_validate_Ok page_header_validate_Ok)
  ultimately show ?parse
    using valid by (simp add: page_from_bytes_def Let_def page_validate_Ok page_consts)
qed

text \<open>
  \<open>update_payload\<close>. On a page with a well-formed static header it refuses exactly the payloads
  over 16344 bytes; otherwise the new page holds the payload, keeps its identity and transaction,
  passes validation, and survives a write and a read of its image.
\<close>

theorem page_update_payload_correct:
  assumes "page_header_wf (pg_header p)"
  shows "if length payload \<le> 16344
     then \<exists>p'. page_update_payload crc p payload = Ok p' \<and> pg_payload p' = payload
       \<and> page_page_id p' = page_page_id p \<and> page_page_type p' = page_page_type p
       \<and> ph_txn_id (pg_header p') = ph_txn_id (pg_header p)
       \<and> page_validate crc p' = Ok () \<and> page_from_bytes crc (page_to_bytes p') = Ok p'
     else \<exists>e. page_update_payload crc p payload = Err e"
proof (cases "length payload \<le> 16344")
  case True
  let ?q = "p\<lparr>pg_payload := payload, pg_header := (pg_header p)\<lparr>ph_payload_len := word_of_nat (length payload)\<rparr>\<rparr>"
  have valid: "page_validate crc (recalculate_checksums crc ?q) = Ok ()"
    using assms True by (intro recalculate_checksums_valid) (simp_all add: page_header_wf_def page_consts)
  with True page_from_to_bytes [OF valid] show ?thesis
    by (simp add: page_update_payload_def page_consts)
      (simp add: recalculate_checksums_def page_header_update_checksum_def page_page_id_def
        page_page_type_def get_page_type_def)
next
  case False
  then show ?thesis by (simp add: page_update_payload_def page_consts)
qed

theorem page_update_payload_correct_witness:
  "\<exists>p'. page_update_payload (\<lambda>_. 7) (page_new 5 BtreeLeaf) [1, 2, 3] = Ok p'
     \<and> page_from_bytes (\<lambda>_. 7) (page_to_bytes p') = Ok p' \<and> pg_payload p' = [1, 2, 3]"
  using page_update_payload_correct [of "page_new 5 BtreeLeaf" "[1, 2, 3]" "\<lambda>_. 7"]
  by (auto simp: page_new_def)

end
