(* ===== verification/Meta.thy ===== *)
theory Meta
  imports Page
begin

text \<open>
  \<^verbatim>\<open>pager/meta.rs\<close>: the payload of a meta page, the state kept for one of them, and the choice
  of the better of the two when a database is opened. The 48-byte payload image is the
  \<open>repr(C)\<close> layout of the struct: 44 bytes of fields and 4 bytes of padding, read as zero.
\<close>

definition META_MAGIC :: u32 where "META_MAGIC = 0x4D455441"
definition META_PAYLOAD_SIZE :: nat where "META_PAYLOAD_SIZE = 48"

record meta_payload =
  mp_meta_magic :: u32
  mp_format_version :: u16
  mp_page_size :: u16
  mp_committed_txn_id :: u64
  mp_root_page_id :: u64
  mp_freelist_head_page_id :: u64
  mp_log_tail_lsn :: u64
  mp_meta_crc32c :: u32

definition meta_payload_new :: meta_payload where
  "meta_payload_new =
     \<lparr>mp_meta_magic = META_MAGIC, mp_format_version = 0, mp_page_size = word_of_nat PAGE_SIZE,
      mp_committed_txn_id = 0, mp_root_page_id = FIRST_DATA, mp_freelist_head_page_id = 0,
      mp_log_tail_lsn = 0, mp_meta_crc32c = 0\<rparr>"

definition is_power_of_two :: "u16 \<Rightarrow> bool" where
  "is_power_of_two w \<longleftrightarrow> w \<in> set (map (\<lambda>i. 2 ^ i) [0..<16])"

definition meta_payload_validate :: "meta_payload \<Rightarrow> unit outcome" where
  "meta_payload_validate m =
     (if mp_meta_magic m \<noteq> META_MAGIC then
        Err (Validation (InvalidMagic META_MAGIC (mp_meta_magic m)))
      else if mp_format_version m \<noteq> 0 then
        Err (Validation (UnsupportedVersion (mp_format_version m) 0 0))
      else if mp_page_size m < 4096 \<or> \<not> is_power_of_two (mp_page_size m) then
        Err (Validation (ValidationGeneric
          (''Invalid page size: '' @ fmt (mp_page_size m) @ '' (must be power of 2 and >= 4096)'')))
      else Ok ())"

definition meta_payload_to_bytes :: "meta_payload \<Rightarrow> bytes" where
  "meta_payload_to_bytes m =
     le32 (mp_meta_magic m) @ le16 (mp_format_version m) @ le16 (mp_page_size m) @
     le64 (mp_committed_txn_id m) @ le64 (mp_root_page_id m) @ le64 (mp_freelist_head_page_id m) @
     le64 (mp_log_tail_lsn m) @ le32 (mp_meta_crc32c m) @ replicate 4 0"

definition meta_payload_read :: "bytes \<Rightarrow> meta_payload" where
  "meta_payload_read bs =
     \<lparr>mp_meta_magic = from_le (subslice 0 4 bs), mp_format_version = from_le (subslice 4 2 bs),
      mp_page_size = from_le (subslice 6 2 bs), mp_committed_txn_id = from_le (subslice 8 8 bs),
      mp_root_page_id = from_le (subslice 16 8 bs), mp_freelist_head_page_id = from_le (subslice 24 8 bs),
      mp_log_tail_lsn = from_le (subslice 32 8 bs), mp_meta_crc32c = from_le (subslice 40 4 bs)\<rparr>"

definition meta_payload_from_bytes :: "bytes \<Rightarrow> meta_payload outcome" where
  "meta_payload_from_bytes bs =
     (if length bs < META_PAYLOAD_SIZE then
        Err (Validation (InvalidHeaderSize META_PAYLOAD_SIZE (length bs)))
      else let payload = meta_payload_read bs
           in and_then (meta_payload_validate payload) (\<lambda>_. Ok payload))"

definition meta_calculate_checksum :: "(bytes \<Rightarrow> u32) \<Rightarrow> meta_payload \<Rightarrow> u32" where
  "meta_calculate_checksum crc m = checksum crc (meta_payload_to_bytes (m\<lparr>mp_meta_crc32c := 0\<rparr>))"

definition meta_validate_checksum :: "(bytes \<Rightarrow> u32) \<Rightarrow> meta_payload \<Rightarrow> bool" where
  "meta_validate_checksum crc m \<longleftrightarrow> mp_meta_crc32c m = meta_calculate_checksum crc m"

definition meta_update_checksum :: "(bytes \<Rightarrow> u32) \<Rightarrow> meta_payload \<Rightarrow> meta_payload" where
  "meta_update_checksum crc m = m\<lparr>mp_meta_crc32c := meta_calculate_checksum crc m\<rparr>"

section \<open>Meta state\<close>

record meta_state =
  ms_page_id :: page_id
  ms_header :: page_header
  ms_meta :: meta_payload

definition meta_state_new :: "(bytes \<Rightarrow> u32) \<Rightarrow> page_id \<Rightarrow> meta_state" where
  "meta_state_new crc pid =
     \<lparr>ms_page_id = pid,
      ms_header = page_header_update_checksum crc
        ((page_header_new pid Page.Meta)\<lparr>ph_payload_len := word_of_nat META_PAYLOAD_SIZE\<rparr>),
      ms_meta = meta_update_checksum crc meta_payload_new\<rparr>"

definition meta_state_from_page :: "page \<Rightarrow> meta_state outcome" where
  "meta_state_from_page p =
     (if page_page_type p \<noteq> Some Page.Meta then
        Err (Validation (InvalidPageType (ph_page_type (pg_header p))))
      else and_then (meta_payload_from_bytes (pg_payload p)) (\<lambda>meta.
        Ok \<lparr>ms_page_id = page_page_id p, ms_header = pg_header p, ms_meta = meta\<rparr>))"

definition meta_state_validate :: "(bytes \<Rightarrow> u32) \<Rightarrow> meta_state \<Rightarrow> unit outcome" where
  "meta_state_validate crc s =
     (if ph_page_id (ms_header s) \<noteq> ms_page_id s then
        Err (Validation (ValidationGeneric
          (''Page ID mismatch: header='' @ fmt (ph_page_id (ms_header s)) @ '', state='' @ fmt (ms_page_id s))))
      else and_then (page_header_validate crc (ms_header s)) (\<lambda>_.
        and_then (meta_payload_validate (ms_meta s)) (\<lambda>_.
          if \<not> meta_validate_checksum crc (ms_meta s) then
            Err (Validation (ChecksumMismatch (mp_meta_crc32c (ms_meta s)) (meta_calculate_checksum crc (ms_meta s))))
          else Ok ())))"

definition is_torn_write :: "meta_state \<Rightarrow> bool" where
  "is_torn_write s \<longleftrightarrow>
     mp_committed_txn_id (ms_meta s) > 1000000000000 \<or> mp_root_page_id (ms_meta s) > 1000000000"

definition meta_state_to_page :: "(bytes \<Rightarrow> u32) \<Rightarrow> meta_state \<Rightarrow> page" where
  "meta_state_to_page crc s =
     (let payload = meta_payload_to_bytes (ms_meta s)
      in recalculate_checksums crc
           \<lparr>pg_header = (ms_header s)\<lparr>ph_payload_len := word_of_nat (length payload)\<rparr>,
            pg_payload = payload\<rparr>)"

text \<open>The tail shared by the three update methods of the source.\<close>

definition meta_state_refresh :: "(bytes \<Rightarrow> u32) \<Rightarrow> meta_state \<Rightarrow> meta_state" where
  "meta_state_refresh crc s =
     s\<lparr>ms_meta := meta_update_checksum crc (ms_meta s),
       ms_header := page_header_update_checksum crc
         ((ms_header s)\<lparr>ph_payload_len := word_of_nat META_PAYLOAD_SIZE\<rparr>)\<rparr>"

definition update_committed_txn_id :: "(bytes \<Rightarrow> u32) \<Rightarrow> meta_state \<Rightarrow> txn_id \<Rightarrow> meta_state" where
  "update_committed_txn_id crc s t =
     meta_state_refresh crc (s\<lparr>ms_meta := (ms_meta s)\<lparr>mp_committed_txn_id := t\<rparr>\<rparr>)"

definition update_root_page_id :: "(bytes \<Rightarrow> u32) \<Rightarrow> meta_state \<Rightarrow> page_id \<Rightarrow> meta_state" where
  "update_root_page_id crc s p =
     meta_state_refresh crc (s\<lparr>ms_meta := (ms_meta s)\<lparr>mp_root_page_id := p\<rparr>\<rparr>)"

definition update_log_tail_lsn :: "(bytes \<Rightarrow> u32) \<Rightarrow> meta_state \<Rightarrow> lsn \<Rightarrow> meta_state" where
  "update_log_tail_lsn crc s l =
     meta_state_refresh crc (s\<lparr>ms_meta := (ms_meta s)\<lparr>mp_log_tail_lsn := l\<rparr>\<rparr>)"

definition choose_best_meta :: "meta_state option \<Rightarrow> meta_state option \<Rightarrow> meta_state option" where
  "choose_best_meta meta_a meta_b =
     (case (meta_a, meta_b) of
        (None, None) \<Rightarrow> None
      | (Some a, None) \<Rightarrow> Some a
      | (None, Some b) \<Rightarrow> Some b
      | (Some a, Some b) \<Rightarrow>
          (if is_torn_write a \<and> is_torn_write b then
             (if mp_committed_txn_id (ms_meta a) \<le> mp_committed_txn_id (ms_meta b) then Some a else Some b)
           else if is_torn_write a then Some b
           else if is_torn_write b then Some a
           else if mp_committed_txn_id (ms_meta a) > mp_committed_txn_id (ms_meta b) then Some a
           else Some b))"

section \<open>Lemmas\<close>

lemma length_meta_payload_to_bytes [simp]: "length (meta_payload_to_bytes m) = 48"
  by (simp add: meta_payload_to_bytes_def)

lemma meta_payload_read_to_bytes [simp]: "meta_payload_read (meta_payload_to_bytes m) = m"
  by (simp add: meta_payload_read_def meta_payload_to_bytes_def subslice_def)

lemma meta_payload_roundtrip:
  "meta_payload_validate m = Ok () \<Longrightarrow> meta_payload_from_bytes (meta_payload_to_bytes m) = Ok m"
  by (simp add: meta_payload_from_bytes_def META_PAYLOAD_SIZE_def)

lemma meta_calculate_checksum_crc [simp]:
  "meta_calculate_checksum crc (m\<lparr>mp_meta_crc32c := c\<rparr>) = meta_calculate_checksum crc m"
  by (simp add: meta_calculate_checksum_def)

lemma meta_payload_validate_fields:
  "meta_payload_validate (m\<lparr>mp_committed_txn_id := t\<rparr>) = meta_payload_validate m"
  "meta_payload_validate (m\<lparr>mp_root_page_id := r\<rparr>) = meta_payload_validate m"
  "meta_payload_validate (m\<lparr>mp_log_tail_lsn := l\<rparr>) = meta_payload_validate m"
  "meta_payload_validate (m\<lparr>mp_meta_crc32c := c\<rparr>) = meta_payload_validate m"
  by (simp_all add: meta_payload_validate_def)

text \<open>What every meta state the pager keeps satisfies.\<close>

definition meta_state_wf :: "meta_state \<Rightarrow> bool" where
  "meta_state_wf s \<longleftrightarrow> page_header_wf (ms_header s) \<and> ph_page_type (ms_header s) = 0 \<and>
     ph_page_id (ms_header s) = ms_page_id s \<and> meta_payload_validate (ms_meta s) = Ok ()"

lemma meta_payload_new_valid: "meta_payload_validate meta_payload_new = Ok ()"
  by (simp add: meta_payload_validate_def meta_payload_new_def PAGE_SIZE_def is_power_of_two_def
      upt_rec)

lemma meta_state_new_wf [inv_rules]: "meta_state_wf (meta_state_new crc pid)"
  using page_header_new_wf [of pid Page.Meta] meta_payload_new_valid
  by (simp add: meta_state_wf_def meta_state_new_def page_header_wf_def page_header_update_checksum_def
      meta_update_checksum_def meta_payload_validate_fields page_header_new_def)

lemma meta_state_refresh_wf: "meta_state_wf (meta_state_refresh crc s) \<longleftrightarrow> meta_state_wf s"
  by (simp add: meta_state_wf_def meta_state_refresh_def page_header_wf_def
      page_header_update_checksum_def meta_update_checksum_def meta_payload_validate_fields)

lemma meta_updates_wf [inv_rules]:
  "meta_state_wf s \<Longrightarrow> meta_state_wf (update_committed_txn_id crc s t)"
  "meta_state_wf s \<Longrightarrow> meta_state_wf (update_root_page_id crc s r)"
  "meta_state_wf s \<Longrightarrow> meta_state_wf (update_log_tail_lsn crc s l)"
  by (auto simp: update_committed_txn_id_def update_root_page_id_def update_log_tail_lsn_def
      meta_state_refresh_wf) (auto simp: meta_state_wf_def meta_payload_validate_fields)

lemma meta_state_refresh_valid:
  assumes "meta_state_wf s"
  shows "meta_state_validate crc (meta_state_refresh crc s) = Ok ()"
proof -
  have "unat (word_of_nat META_PAYLOAD_SIZE :: u32) \<le> MAX_PAYLOAD_SIZE"
    by (simp add: META_PAYLOAD_SIZE_def page_consts)
  with assms show ?thesis
    by (auto simp: meta_state_validate_def meta_state_refresh_def page_header_validate_Ok
        page_header_update_checksum_def meta_state_wf_def page_header_wf_def meta_update_checksum_def
        meta_payload_validate_fields meta_validate_checksum_def)
qed

lemma meta_state_to_page_valid:
  assumes "meta_state_wf s"
  shows "page_validate crc (meta_state_to_page crc s) = Ok ()"
  unfolding meta_state_to_page_def Let_def
  by (rule recalculate_checksums_valid)
    (use assms in \<open>simp_all add: meta_state_wf_def page_header_wf_def page_consts page_type_from_u8_def\<close>)

lemma meta_state_from_to_page:
  assumes "meta_state_wf s"
  obtains h where "meta_state_from_page (meta_state_to_page crc s)
      = Ok \<lparr>ms_page_id = ms_page_id s, ms_header = h, ms_meta = ms_meta s\<rparr>"
    and "h = pg_header (meta_state_to_page crc s)"
proof
  show "meta_state_from_page (meta_state_to_page crc s)
      = Ok \<lparr>ms_page_id = ms_page_id s, ms_header = pg_header (meta_state_to_page crc s), ms_meta = ms_meta s\<rparr>"
    using assms meta_payload_roundtrip [of "ms_meta s"]
    by (simp add: meta_state_from_page_def meta_state_to_page_def recalculate_checksums_def
        page_header_update_checksum_def page_page_type_def get_page_type_def page_page_id_def
        meta_state_wf_def page_type_from_u8_def Let_def)
qed simp

lemma choose_best_meta_later:
  assumes "\<not> is_torn_write a" "\<not> is_torn_write b"
  shows "choose_best_meta (Some a) (Some b) =
    Some (if mp_committed_txn_id (ms_meta b) < mp_committed_txn_id (ms_meta a) then a else b)"
  using assms by (simp add: choose_best_meta_def)

end
