(* ===== verification/Allocator.thy ===== *)
theory Allocator
  imports Ids Errors
begin

text \<open>
  \<^verbatim>\<open>pager/allocator.rs\<close>: the free list, kept in ascending order and searched by
  \<open>binary_search\<close>, and the counter of pages handed out so far. \<open>fetch_add\<close> on the counter wraps.
\<close>

record page_allocator =
  al_free_pages :: "page_id list"
  al_last_allocated_page :: u64

definition allocator_new :: page_allocator where
  "allocator_new = \<lparr>al_free_pages = [], al_last_allocated_page = 3\<rparr>"

definition allocate_page :: "page_allocator \<Rightarrow> page_id outcome \<times> page_allocator" where
  "allocate_page a =
     (case al_free_pages a of
        p # ps \<Rightarrow> (Ok p, a\<lparr>al_free_pages := ps\<rparr>)
      | [] \<Rightarrow> (Ok (al_last_allocated_page a),
               a\<lparr>al_last_allocated_page := al_last_allocated_page a + 1\<rparr>))"

definition free_page :: "page_allocator \<Rightarrow> page_id \<Rightarrow> page_allocator outcome" where
  "free_page a p =
     (if is_meta_page p then
        Err (Storage (PagerError (''Cannot free meta page '' @ fmt p)))
      else
        let pos = search_pos (search_by_key id p (al_free_pages a))
        in Ok (a\<lparr>al_free_pages := vec_insert pos p (al_free_pages a)\<rparr>))"

definition free_page_count :: "page_allocator \<Rightarrow> nat" where
  "free_page_count a = length (al_free_pages a)"

definition last_allocated_page_id :: "page_allocator \<Rightarrow> page_id" where
  "last_allocated_page_id a =
     (if 0 < al_last_allocated_page a then al_last_allocated_page a - 1 else 0)"

definition total_pages :: "page_allocator \<Rightarrow> u64" where
  "total_pages a = al_last_allocated_page a"

text \<open>\<open>rebuild_freelist\<close> is a placeholder in the source: it ignores the storage and changes nothing.\<close>

definition rebuild_freelist :: "page_allocator \<Rightarrow> page_allocator outcome" where
  "rebuild_freelist a = Ok a"

definition is_free :: "page_allocator \<Rightarrow> page_id \<Rightarrow> bool" where
  "is_free a p \<longleftrightarrow> (case search_by_key id p (al_free_pages a) of Found i \<Rightarrow> True | NotFound i \<Rightarrow> False)"

section \<open>Invariant\<close>

text \<open>
  The free list is strictly ascending, holds data pages only, and every page of it was handed out
  before. The pages in use are the data pages below the counter that are not free.
\<close>

definition allocator_inv :: "page_allocator \<Rightarrow> bool" where
  "allocator_inv a \<longleftrightarrow> ascending id (al_free_pages a) \<and>
     (\<forall>p \<in> set (al_free_pages a). is_data_page p \<and> p < al_last_allocated_page a) \<and>
     3 \<le> al_last_allocated_page a"

definition live_pages :: "page_allocator \<Rightarrow> page_id set" where
  "live_pages a = {p. is_data_page p \<and> p < al_last_allocated_page a} - set (al_free_pages a)"

lemma allocator_new_inv [inv_rules]: "allocator_inv allocator_new"
  by (simp add: allocator_inv_def allocator_new_def)

lemma live_pages_new: "live_pages allocator_new = {FIRST_DATA}"
proof -
  have "2 \<le> p \<and> p < 3 \<longleftrightarrow> p = 2" for p :: u64
    by (auto simp: word_le_nat_alt word_less_nat_alt word_unat_eq_iff)
  then show ?thesis
    by (auto simp: live_pages_def allocator_new_def is_data_page_def FIRST_DATA_def)
qed

lemma is_free_iff: "allocator_inv a \<Longrightarrow> is_free a p \<longleftrightarrow> p \<in> set (al_free_pages a)"
  using bsearch.Found_iff [of id "al_free_pages a" p]
  by (auto simp: is_free_def allocator_inv_def split: search_result.splits)

lemma below_next_counter:
  assumes "(c :: u64) \<noteq> - 1"
  shows "p < c + 1 \<longleftrightarrow> p < c \<or> p = c"
proof -
  have "unat (c + 1) = unat c + 1"
    using assms checked_add_Some [of c 1 "c + 1"] by (simp add: checked_add_one_Some)
  then show ?thesis by (auto simp: word_less_nat_alt word_unat_eq_iff)
qed

lemma allocate_page_spec:
  assumes inv: "allocator_inv a" and cap: "al_last_allocated_page a \<noteq> - 1"
    and alloc: "allocate_page a = (r, a')"
  obtains p where "r = Ok p" "is_data_page p" "p \<notin> live_pages a"
    "live_pages a' = insert p (live_pages a)" "allocator_inv a'"
proof (cases "al_free_pages a")
  case Nil
  let ?c = "al_last_allocated_page a"
  have a': "r = Ok ?c" "a' = a\<lparr>al_last_allocated_page := ?c + 1\<rparr>"
    using alloc Nil by (auto simp: allocate_page_def)
  have c3: "3 \<le> ?c" using inv by (simp add: allocator_inv_def)
  then have c2: "is_data_page ?c" by (simp add: is_data_page_def word_le_nat_alt)
  have "3 \<le> ?c + 1" using c3 less_word_succ [OF cap] by simp
  with a' Nil c2 show ?thesis
    using that [of ?c] below_next_counter [OF cap] by (auto simp: live_pages_def allocator_inv_def)
next
  case (Cons p ps)
  have a': "r = Ok p" "a' = a\<lparr>al_free_pages := ps\<rparr>"
    using alloc Cons by (auto simp: allocate_page_def)
  with inv Cons show ?thesis
    by (intro that [of p]) (auto simp: live_pages_def allocator_inv_def)
qed

lemma free_page_spec:
  assumes inv: "allocator_inv a" and live: "p \<in> live_pages a"
  obtains a' where "free_page a p = Ok a'" "live_pages a' = live_pages a - {p}" "allocator_inv a'"
proof -
  let ?fs = "al_free_pages a"
  have asc: "ascending id ?fs" using inv by (simp add: allocator_inv_def)
  have p: "is_data_page p" "p < al_last_allocated_page a" "p \<notin> set ?fs"
    using live by (auto simp: live_pages_def)
  obtain i where i: "search_by_key id p ?fs = NotFound i"
    using bsearch.Found_iff [OF asc, of p] p(3) by (cases "search_by_key id p ?fs") auto
  have asc': "ascending id (vec_insert i p ?fs)"
    using bsearch.insert_ascending [OF asc, of p i] i by simp
  have "free_page a p = Ok (a\<lparr>al_free_pages := vec_insert i p ?fs\<rparr>)"
    using p(1) i by (simp add: free_page_def data_page_not_meta)
  then show ?thesis
    by (rule that) (use inv p asc' in \<open>auto simp: live_pages_def allocator_inv_def\<close>)
qed

section \<open>Runs\<close>

text \<open>
  A client run: the allocator together with the set of pages its client holds. The client frees
  only pages it holds; the counter has not reached the largest 64-bit value.
\<close>

inductive alloc_run :: "page_allocator \<Rightarrow> page_id set \<Rightarrow> bool" where
  start: "alloc_run allocator_new {FIRST_DATA}"
| alloc: "alloc_run a held \<Longrightarrow> al_last_allocated_page a \<noteq> - 1 \<Longrightarrow> allocate_page a = (Ok p, a') \<Longrightarrow>
     alloc_run a' (insert p held)"
| free: "alloc_run a held \<Longrightarrow> p \<in> held \<Longrightarrow> free_page a p = Ok a' \<Longrightarrow> alloc_run a' (held - {p})"

lemma alloc_run_inv: "alloc_run a held \<Longrightarrow> allocator_inv a \<and> held = live_pages a"
proof (induction rule: alloc_run.induct)
  case start
  show ?case by (simp add: allocator_new_inv live_pages_new)
next
  case (alloc a held p a')
  then show ?case by (auto elim: allocate_page_spec)
next
  case (free a held p a')
  then show ?case by (metis free_page_spec res.inject(1))
qed

section \<open>Properties\<close>

text \<open>
  C6. No page is handed out twice. In a run that starts with a new allocator, where page 2 counts as held because the root of the tree
  lives there, and in which clients free only pages they hold, while the counter is not exhausted, the next allocation
  succeeds with a data page that no client holds, and the free list stays consistent: \<open>is_free\<close> answers exactly for the pages below the counter
  that nobody holds. The counter of a new allocator is 3, so the first page handed out is page 3; two unit tests of the
  file expect page 2 instead.
\<close>

theorem allocate_page_fresh:
  assumes "alloc_run a held" "al_last_allocated_page a \<noteq> - 1"
  shows "\<exists>p a'. allocate_page a = (Ok p, a') \<and> p \<notin> held \<and> is_data_page p
    \<and> alloc_run a' (insert p held)
    \<and> (\<forall>q. is_free a q \<longleftrightarrow> is_data_page q \<and> q < total_pages a \<and> q \<notin> held)"
proof -
  have inv: "allocator_inv a" "held = live_pages a" using alloc_run_inv [OF assms(1)] by auto
  obtain r a' where alloc: "allocate_page a = (r, a')" by fastforce
  then obtain p where p: "r = Ok p" "is_data_page p" "p \<notin> live_pages a"
    using allocate_page_spec [OF inv(1) assms(2)] by metis
  have "alloc_run a' (insert p held)"
    using alloc_run.alloc [OF assms] alloc p(1) by simp
  moreover have "is_free a q \<longleftrightarrow> is_data_page q \<and> q < total_pages a \<and> q \<notin> held" for q
    using inv by (auto simp: is_free_iff live_pages_def total_pages_def allocator_inv_def)
  ultimately show ?thesis using alloc p inv(2) by blast
qed

theorem allocate_page_fresh_witness:
  "alloc_run allocator_new {FIRST_DATA} \<and>
   (\<exists>p a'. allocate_page allocator_new = (Ok p, a') \<and> p \<notin> {FIRST_DATA})"
  using allocate_page_fresh [OF alloc_run.start] alloc_run.start
  by (auto simp: allocator_new_def)

text \<open>
  The allocator does not detect a double free: after the same page is freed twice, two
  successive allocations both return it.
\<close>

theorem double_free_allocates_twice:
  assumes "is_data_page p" "al_free_pages a = []"
  shows "\<exists>a1 a2 a3 a4. free_page a p = Ok a1 \<and> free_page a1 p = Ok a2
    \<and> allocate_page a2 = (Ok p, a3) \<and> allocate_page a3 = (Ok p, a4)"
proof -
  have "search_pos (search_by_key id p []) = 0" "search_pos (search_by_key id p [p]) = 0"
    by (simp_all add: search_by_key_def binary_search_by_def bs_loop.simps cmp_def)
  with assms show ?thesis
    by (simp add: free_page_def data_page_not_meta vec_insert_def allocate_page_def)
qed

theorem double_free_allocates_twice_witness:
  "\<exists>a1 a2 a3 a4. free_page allocator_new 2 = Ok a1 \<and> free_page a1 2 = Ok a2
    \<and> allocate_page a2 = (Ok 2, a3) \<and> allocate_page a3 = (Ok 2, a4)"
  using double_free_allocates_twice [of 2 allocator_new]
  by (simp add: is_data_page_def allocator_new_def)

end
