(* ===== verification/Storage_Backend.thy ===== *)
theory Storage_Backend
  imports Page
begin

text \<open>
  \<^verbatim>\<open>pager/storage.rs\<close>: the two storage backends. A file is its contents, as the memory backend's
  vector is; a write past the end of a file leaves a gap of zeros, and seeking to an offset that
  does not fit a signed 64-bit value is refused by the operating system. Failures of the device
  and poisoned locks are not modelled. The interface the pager relies on, pages that can be read
  back and do not interfere, is the locale \<open>page_store\<close>.
\<close>

section \<open>The interface\<close>

locale page_store =
  fixes read_pg :: "'s \<Rightarrow> page_id \<Rightarrow> bytes outcome"
    and write_pg :: "'s \<Rightarrow> page_id \<Rightarrow> bytes \<Rightarrow> 's outcome"
    and addressable :: "page_id \<Rightarrow> bool"
  assumes write_total: "addressable p \<Longrightarrow> length buf = PAGE_SIZE \<Longrightarrow> \<exists>s'. write_pg s p buf = Ok s'"
    and read_written: "addressable p \<Longrightarrow> write_pg s p buf = Ok s' \<Longrightarrow> read_pg s' p = Ok buf"
    and read_other: "addressable p \<Longrightarrow> addressable q \<Longrightarrow> q \<noteq> p \<Longrightarrow> write_pg s p buf = Ok s' \<Longrightarrow>
      read_pg s q = Ok c \<Longrightarrow> read_pg s' q = Ok c"
begin

lemma write_two:
  assumes "addressable p" "addressable q" "p \<noteq> q" "length a = PAGE_SIZE" "length b = PAGE_SIZE"
  obtains s1 s2 where "write_pg s p a = Ok s1" "write_pg s1 q b = Ok s2" "read_pg s2 p = Ok a" "read_pg s2 q = Ok b"
    "\<And>r c. addressable r \<Longrightarrow> r \<noteq> p \<Longrightarrow> r \<noteq> q \<Longrightarrow> read_pg s r = Ok c \<Longrightarrow> read_pg s2 r = Ok c"
proof -
  obtain s1 where s1: "write_pg s p a = Ok s1" using write_total assms by blast
  obtain s2 where s2: "write_pg s1 q b = Ok s2" using write_total assms by blast
  show ?thesis
    using that [OF s1 s2] read_written read_other s1 s2 assms by metis
qed

end

section \<open>The backends\<close>

datatype storage = FileStorage bytes | MemoryStorage bytes

definition buffer_mismatch :: "nat \<Rightarrow> error" where
  "buffer_mismatch n = Io (InternalError
     (''Buffer size mismatch: expected '' @ fmt_nat PAGE_SIZE @ '', got '' @ fmt_nat n))"

definition page_overflow :: "page_id \<Rightarrow> error" where
  "page_overflow p = Io (InternalError (''Page ID overflow: '' @ fmt p @ '' * '' @ fmt_nat PAGE_SIZE))"

definition splice :: "nat \<Rightarrow> bytes \<Rightarrow> bytes \<Rightarrow> bytes" where
  "splice offset buf data = take offset data @ buf @ drop (offset + length buf) data"

text \<open>\<open>resize(n, 0)\<close> when the vector is shorter than \<open>n\<close>.\<close>

definition grow :: "nat \<Rightarrow> bytes \<Rightarrow> bytes" where
  "grow n data = data @ replicate (n - length data) 0"

definition memory_read_page :: "bytes \<Rightarrow> page_id \<Rightarrow> nat \<Rightarrow> bytes outcome" where
  "memory_read_page data p n =
     (if n \<noteq> PAGE_SIZE then Err (buffer_mismatch n)
      else and_then (ok_or (checked_mul p (word_of_nat PAGE_SIZE)) (page_overflow p)) (\<lambda>off.
        let offset = unat off; end_offset = offset + PAGE_SIZE
        in if 2 ^ 64 \<le> end_offset then Panic
           else if length data < end_offset then
             Err (Io (FileTooSmall '':memory:'' (word_of_nat (length data)) (word_of_nat end_offset)))
           else Ok (subslice offset PAGE_SIZE data)))"

definition memory_write_page :: "bytes \<Rightarrow> page_id \<Rightarrow> bytes \<Rightarrow> bytes outcome" where
  "memory_write_page data p buf =
     (if length buf \<noteq> PAGE_SIZE then Err (buffer_mismatch (length buf))
      else and_then (ok_or (checked_mul p (word_of_nat PAGE_SIZE)) (page_overflow p)) (\<lambda>off.
        let offset = unat off; end_offset = offset + PAGE_SIZE
        in if 2 ^ 64 \<le> end_offset then Panic
           else Ok (splice offset buf (grow end_offset data))))"

definition file_read_page :: "bytes \<Rightarrow> page_id \<Rightarrow> nat \<Rightarrow> bytes outcome" where
  "file_read_page data p n =
     (if n \<noteq> PAGE_SIZE then Err (buffer_mismatch n)
      else and_then (ok_or (checked_mul p (word_of_nat PAGE_SIZE)) (page_overflow p)) (\<lambda>off.
        let offset = unat off
        in if 2 ^ 63 \<le> offset then Err (Io (IoGeneric ''Invalid argument''))
           else if length data < offset + PAGE_SIZE then
             Err (Io (FileTooSmall ''unknown'' off (off + word_of_nat PAGE_SIZE)))
           else Ok (subslice offset PAGE_SIZE data)))"

definition file_write_page :: "bytes \<Rightarrow> page_id \<Rightarrow> bytes \<Rightarrow> bytes outcome" where
  "file_write_page data p buf =
     (if length buf \<noteq> PAGE_SIZE then Err (buffer_mismatch (length buf))
      else and_then (ok_or (checked_mul p (word_of_nat PAGE_SIZE)) (page_overflow p)) (\<lambda>off.
        let offset = unat off
        in if 2 ^ 63 \<le> offset then Err (Io (IoGeneric ''Invalid argument''))
           else Ok (splice offset buf (grow (offset + PAGE_SIZE) data))))"

fun storage_read_page :: "storage \<Rightarrow> page_id \<Rightarrow> nat \<Rightarrow> bytes outcome" where
  "storage_read_page (FileStorage d) p n = file_read_page d p n"
| "storage_read_page (MemoryStorage d) p n = memory_read_page d p n"

fun storage_write_page :: "storage \<Rightarrow> page_id \<Rightarrow> bytes \<Rightarrow> storage outcome" where
  "storage_write_page (FileStorage d) p buf = and_then (file_write_page d p buf) (\<lambda>d'. Ok (FileStorage d'))"
| "storage_write_page (MemoryStorage d) p buf = and_then (memory_write_page d p buf) (\<lambda>d'. Ok (MemoryStorage d'))"

fun storage_size :: "storage \<Rightarrow> nat" where
  "storage_size (FileStorage d) = length d"
| "storage_size (MemoryStorage d) = length d"

text \<open>\<open>sync\<close> forces what is written to the device: it has no effect on the contents.\<close>

definition storage_sync :: "storage \<Rightarrow> unit outcome" where
  "storage_sync s = Ok ()"

section \<open>Both backends are page stores\<close>

text \<open>Page numbers whose byte range lies below \<open>2\<^sup>6\<^sup>3\<close>.\<close>

definition addressable :: "page_id \<Rightarrow> bool" where
  "addressable p \<longleftrightarrow> unat p < 2 ^ 48"

lemma page_offset:
  "addressable p \<Longrightarrow> checked_mul p (word_of_nat PAGE_SIZE) = Some (p * word_of_nat PAGE_SIZE)
     \<and> unat (p * word_of_nat PAGE_SIZE) = unat p * PAGE_SIZE"
  by (simp add: addressable_def checked_mul_def PAGE_SIZE_def unat_word_ariths)

lemma length_splice:
  "offset + length buf \<le> length data \<Longrightarrow> length (splice offset buf data) = length data"
  by (simp add: splice_def)

lemma length_grow [simp]: "length (grow n data) = max n (length data)"
  by (simp add: grow_def)

lemma subslice_splice_same:
  "offset \<le> length data \<Longrightarrow> subslice offset (length buf) (splice offset buf data) = buf"
  by (simp add: splice_def subslice_def)

lemma subslice_splice_other:
  assumes "offset + length buf \<le> length data" "i + n \<le> offset \<or> offset + length buf \<le> i"
  shows "subslice i n (splice offset buf data) = subslice i n data"
proof (cases "i + n \<le> offset")
  case True
  show ?thesis
    by (rule nth_equalityI) (use True assms(1) in \<open>auto simp: splice_def subslice_def nth_append\<close>)
next
  case False
  then have le: "offset + length buf \<le> i" using assms(2) by simp
  then have "drop i (splice offset buf data) = drop i data"
    using assms(1) by (simp add: splice_def)
  then show ?thesis by (simp add: subslice_def)
qed

lemma subslice_grow: "i + n \<le> length data \<Longrightarrow> subslice i n (grow m data) = subslice i n data"
  by (simp add: subslice_def grow_def)

lemma pages_disjoint:
  assumes "p \<noteq> (q :: page_id)"
  shows "unat q * PAGE_SIZE + PAGE_SIZE \<le> unat p * PAGE_SIZE \<or> unat p * PAGE_SIZE + PAGE_SIZE \<le> unat q * PAGE_SIZE"
proof -
  have "unat q + 1 \<le> unat p \<or> unat p + 1 \<le> unat q"
    using assms by (metis word_unat_eq_iff linorder_neqE_nat Suc_eq_plus1 Suc_leI)
  then show ?thesis by (auto simp: PAGE_SIZE_def)
qed

lemma storage_write_read:
  assumes "addressable p" "storage_write_page s p buf = Ok s'"
  shows "storage_read_page s' p PAGE_SIZE = Ok buf"
proof -
  note off = page_offset [OF assms(1)]
  have small: "unat p * PAGE_SIZE + PAGE_SIZE < 2 ^ 63"
    using assms(1) by (simp add: addressable_def PAGE_SIZE_def)
  have len: "length buf = PAGE_SIZE"
    using assms(2) by (cases s) (auto simp: file_write_page_def memory_write_page_def split: if_splits)
  show ?thesis
    using assms(2) off small len subslice_splice_same [of "unat p * PAGE_SIZE" _ buf]
    by (cases s) (auto simp: file_write_page_def memory_write_page_def file_read_page_def
        memory_read_page_def ok_or_def Let_def length_splice)
qed

lemma storage_write_read_other:
  assumes "addressable p" "addressable q" "q \<noteq> p" "storage_write_page s p buf = Ok s'"
    and "storage_read_page s q PAGE_SIZE = Ok c"
  shows "storage_read_page s' q PAGE_SIZE = Ok c"
proof -
  note offs = page_offset [OF assms(1)] page_offset [OF assms(2)]
  have small: "unat p * PAGE_SIZE + PAGE_SIZE < 2 ^ 63"
    using assms(1) by (simp add: addressable_def PAGE_SIZE_def)
  have len: "length buf = PAGE_SIZE"
    using assms(4) by (cases s) (auto simp: file_write_page_def memory_write_page_def split: if_splits)
  have other: "subslice (unat q * PAGE_SIZE) PAGE_SIZE (splice (unat p * PAGE_SIZE) buf (grow (unat p * PAGE_SIZE + PAGE_SIZE) d))
      = subslice (unat q * PAGE_SIZE) PAGE_SIZE d" if "unat q * PAGE_SIZE + PAGE_SIZE \<le> length d" for d
    using that len pages_disjoint [OF assms(3) [symmetric]]
    by (simp add: subslice_splice_other subslice_grow)
  show ?thesis
    using assms(4,5) offs small len other
    by (cases s) (auto simp: file_write_page_def memory_write_page_def file_read_page_def
        memory_read_page_def ok_or_def Let_def length_splice split: if_splits)
qed

lemma storage_write_total:
  assumes "addressable p" "length buf = PAGE_SIZE"
  shows "\<exists>s'. storage_write_page s p buf = Ok s'"
proof -
  have small: "unat p * PAGE_SIZE + PAGE_SIZE < 2 ^ 63"
    using assms(1) by (simp add: addressable_def PAGE_SIZE_def)
  with page_offset [OF assms(1)] assms(2) show ?thesis
    by (cases s) (auto simp: file_write_page_def memory_write_page_def ok_or_def Let_def)
qed

interpretation backend: page_store "\<lambda>s p. storage_read_page s p PAGE_SIZE" storage_write_page addressable
  by unfold_locales (blast intro: storage_write_total storage_write_read storage_write_read_other)+

lemma meta_pages_addressable [simp]: "addressable META_A" "addressable META_B"
  by (simp_all add: addressable_def META_A_def META_B_def)

end
