(* ===== verification/Pager.thy ===== *)
theory Pager
  imports Meta Allocator Storage_Backend
begin

text \<open>
  \<^verbatim>\<open>pager/pager.rs\<close>: creating and opening a pager, committing the transaction state to the two
  meta pages, allocating pages and the uncached page read. The operations that go through the page cache
  are in the theory \<open>Cached_Pager\<close>; the prefetch queue is left out. The checksum function is the parameter \<open>crc\<close>.
\<close>

record pager =
  pgr_storage :: storage
  pgr_page_size :: u16
  pgr_current_meta :: meta_state
  pgr_allocator :: page_allocator

definition write_meta_pages :: "(bytes \<Rightarrow> u32) \<Rightarrow> pager \<Rightarrow> pager outcome" where
  "write_meta_pages crc g =
     (let bytes_a = page_to_bytes (meta_state_to_page crc (pgr_current_meta g)) in
      and_then (storage_write_page (pgr_storage g) META_A bytes_a) (\<lambda>s1.
        let bytes_b = page_to_bytes (meta_state_to_page crc (pgr_current_meta g)) in
        and_then (storage_write_page s1 META_B bytes_b) (\<lambda>s2.
          Ok (g\<lparr>pgr_storage := s2\<rparr>))))"

definition initial_meta :: "(bytes \<Rightarrow> u32) \<Rightarrow> meta_state" where
  "initial_meta crc = update_committed_txn_id crc (meta_state_new crc META_A) TXN_INITIAL"

definition create_memory :: "(bytes \<Rightarrow> u32) \<Rightarrow> pager outcome" where
  "create_memory crc = write_meta_pages crc
     \<lparr>pgr_storage = MemoryStorage [], pgr_page_size = word_of_nat PAGE_SIZE,
      pgr_current_meta = initial_meta crc, pgr_allocator = allocator_new\<rparr>"

definition read_meta_page :: "(bytes \<Rightarrow> u32) \<Rightarrow> storage \<Rightarrow> page_id \<Rightarrow> meta_state option" where
  "read_meta_page crc s p =
     (case storage_read_page s p PAGE_SIZE of
        Ok buffer \<Rightarrow>
          (case ok_of (page_from_bytes crc buffer) of
             None \<Rightarrow> None
           | Some page \<Rightarrow> ok_of (meta_state_from_page page))
      | _ \<Rightarrow> None)"

definition open_storage :: "(bytes \<Rightarrow> u32) \<Rightarrow> storage \<Rightarrow> pager outcome" where
  "open_storage crc s =
     and_then (ok_or (choose_best_meta (read_meta_page crc s META_A) (read_meta_page crc s META_B))
                (Validation CorruptedData)) (\<lambda>best.
       if unat (mp_page_size (ms_meta best)) \<noteq> PAGE_SIZE then
         Err (Validation (ValidationGeneric
           (''Unsupported page size: '' @ fmt (mp_page_size (ms_meta best)) @
            '' (expected '' @ fmt_nat PAGE_SIZE @ '')'')))
       else Ok \<lparr>pgr_storage = s, pgr_page_size = mp_page_size (ms_meta best),
                pgr_current_meta = best, pgr_allocator = allocator_new\<rparr>)"

definition validate_page_buffer :: "(bytes \<Rightarrow> u32) \<Rightarrow> page_id \<Rightarrow> bytes \<Rightarrow> unit outcome" where
  "validate_page_buffer crc p buffer =
     (let h = page_header_read buffer in
      if ph_magic h \<noteq> PAGE_MAGIC then Err (Validation (InvalidMagic PAGE_MAGIC (ph_magic h)))
      else if ph_page_id h \<noteq> p then
        Err (Validation (ValidationGeneric
          (''Page ID mismatch: expected '' @ fmt p @ '', got '' @ fmt (ph_page_id h))))
      else page_header_validate crc h)"

definition pager_read_page :: "(bytes \<Rightarrow> u32) \<Rightarrow> pager \<Rightarrow> page_id \<Rightarrow> nat \<Rightarrow> bytes outcome" where
  "pager_read_page crc g p n =
     (if n \<noteq> PAGE_SIZE then Err (Validation (InvalidHeaderSize PAGE_SIZE n))
      else and_then (storage_read_page (pgr_storage g) p n) (\<lambda>buffer.
        and_then (validate_page_buffer crc p buffer) (\<lambda>_. Ok buffer)))"

definition pager_allocate_page :: "(bytes \<Rightarrow> u32) \<Rightarrow> pager \<Rightarrow> page_id outcome \<times> pager" where
  "pager_allocate_page crc g =
     (case allocate_page (pgr_allocator g) of
        (Ok p, a) \<Rightarrow>
          (let page_bytes = page_to_bytes (recalculate_checksums crc (page_new p Freelist));
               g' = g\<lparr>pgr_allocator := a\<rparr>
           in (case storage_write_page (pgr_storage g') p page_bytes of
                 Ok s \<Rightarrow> (Ok p, g'\<lparr>pgr_storage := s\<rparr>)
               | Err e \<Rightarrow> (Err e, g')
               | Panic \<Rightarrow> (Panic, g')))
      | (Err e, a) \<Rightarrow> (Err e, g\<lparr>pgr_allocator := a\<rparr>)
      | (Panic, a) \<Rightarrow> (Panic, g\<lparr>pgr_allocator := a\<rparr>))"

definition commit_transaction :: "(bytes \<Rightarrow> u32) \<Rightarrow> pager \<Rightarrow> txn_id \<Rightarrow> page_id \<Rightarrow> pager outcome" where
  "commit_transaction crc g t root =
     (let g1 = g\<lparr>pgr_current_meta := update_root_page_id crc
                   (update_committed_txn_id crc (pgr_current_meta g) t) root\<rparr> in
      and_then (write_meta_pages crc g1) (\<lambda>g2.
        and_then (storage_sync (pgr_storage g2)) (\<lambda>_. Ok g2)))"

definition pager_root_page_id :: "pager \<Rightarrow> page_id" where
  "pager_root_page_id g = mp_root_page_id (ms_meta (pgr_current_meta g))"

definition pager_committed_txn_id :: "pager \<Rightarrow> txn_id" where
  "pager_committed_txn_id g = mp_committed_txn_id (ms_meta (pgr_current_meta g))"

section \<open>Meta pages read back\<close>

abbreviation meta_image :: "(bytes \<Rightarrow> u32) \<Rightarrow> meta_state \<Rightarrow> bytes" where
  "meta_image crc m \<equiv> page_to_bytes (meta_state_to_page crc m)"

definition meta_of_image :: "(bytes \<Rightarrow> u32) \<Rightarrow> bytes \<Rightarrow> meta_state option" where
  "meta_of_image crc buffer =
     (case ok_of (page_from_bytes crc buffer) of
        None \<Rightarrow> None | Some page \<Rightarrow> ok_of (meta_state_from_page page))"

lemma read_meta_page_Ok:
  "storage_read_page s p PAGE_SIZE = Ok buffer \<Longrightarrow> read_meta_page crc s p = meta_of_image crc buffer"
  by (simp add: read_meta_page_def meta_of_image_def)

lemma meta_of_meta_image:
  assumes "meta_state_wf m"
  obtains m' where "meta_of_image crc (meta_image crc m) = Some m'" "ms_meta m' = ms_meta m"
proof -
  obtain h where "meta_state_from_page (meta_state_to_page crc m)
      = Ok \<lparr>ms_page_id = ms_page_id m, ms_header = h, ms_meta = ms_meta m\<rparr>"
    using meta_state_from_to_page [OF assms] by blast
  with page_from_to_bytes [OF meta_state_to_page_valid [OF assms, of crc]] show ?thesis
    by (intro that [of "\<lparr>ms_page_id = ms_page_id m, ms_header = h, ms_meta = ms_meta m\<rparr>"])
      (simp_all add: meta_of_image_def)
qed

lemma write_meta_pages_spec:
  obtains s' where "write_meta_pages crc g = Ok (g\<lparr>pgr_storage := s'\<rparr>)"
    "storage_read_page s' META_A PAGE_SIZE = Ok (meta_image crc (pgr_current_meta g))"
    "storage_read_page s' META_B PAGE_SIZE = Ok (meta_image crc (pgr_current_meta g))"
proof -
  let ?img = "meta_image crc (pgr_current_meta g)"
  have "META_A \<noteq> META_B" by (simp add: META_A_def META_B_def)
  then obtain s1 s2 where "storage_write_page (pgr_storage g) META_A ?img = Ok s1"
      "storage_write_page s1 META_B ?img = Ok s2" "storage_read_page s2 META_A PAGE_SIZE = Ok ?img"
      "storage_read_page s2 META_B PAGE_SIZE = Ok ?img"
    using backend.write_two [of META_A META_B ?img ?img "pgr_storage g"] by (metis length_page_to_bytes meta_pages_addressable)
  then show ?thesis by (intro that [of s2]) (simp_all add: write_meta_pages_def Let_def)
qed

lemma open_written_meta:
  assumes "meta_state_wf m" "\<not> is_torn_write m" "unat (mp_page_size (ms_meta m)) = PAGE_SIZE"
    and "storage_read_page s META_A PAGE_SIZE = Ok (meta_image crc m)"
    and "storage_read_page s META_B PAGE_SIZE = Ok (meta_image crc m)"
  obtains g where "open_storage crc s = Ok g" "ms_meta (pgr_current_meta g) = ms_meta m"
proof -
  obtain m' where m': "meta_of_image crc (meta_image crc m) = Some m'" "ms_meta m' = ms_meta m"
    using meta_of_meta_image [OF assms(1)] .
  then have "choose_best_meta (Some m') (Some m') = Some m'"
    using assms(2) by (simp add: choose_best_meta_def)
  with m' assms(3-5) have "open_storage crc s = Ok \<lparr>pgr_storage = s,
      pgr_page_size = mp_page_size (ms_meta m'), pgr_current_meta = m', pgr_allocator = allocator_new\<rparr>"
    by (simp add: open_storage_def ok_or_def read_meta_page_Ok)
  then show ?thesis by (rule that) (simp add: m'(2))
qed

lemma initial_meta_facts:
  "meta_state_wf (initial_meta crc)" "unat (mp_page_size (ms_meta (initial_meta crc))) = PAGE_SIZE"
  "mp_committed_txn_id (ms_meta (initial_meta crc)) = 0" "\<not> is_torn_write (initial_meta crc)"
proof -
  show "meta_state_wf (initial_meta crc)" unfolding initial_meta_def by (intro inv_rules)
  show "unat (mp_page_size (ms_meta (initial_meta crc))) = PAGE_SIZE"
    "mp_committed_txn_id (ms_meta (initial_meta crc)) = 0" "\<not> is_torn_write (initial_meta crc)"
    by (simp_all add: initial_meta_def update_committed_txn_id_def meta_state_refresh_def meta_state_new_def
        meta_update_checksum_def meta_payload_new_def PAGE_SIZE_def TXN_INITIAL_def FIRST_DATA_def is_torn_write_def)
qed

lemma create_memory_opens:
  obtains g g' where "create_memory crc = Ok g" "open_storage crc (pgr_storage g) = Ok g'"
    "ms_meta (pgr_current_meta g') = ms_meta (initial_meta crc)"
    "storage_read_page (pgr_storage g) META_A PAGE_SIZE = Ok (meta_image crc (initial_meta crc))"
    "storage_read_page (pgr_storage g) META_B PAGE_SIZE = Ok (meta_image crc (initial_meta crc))"
proof -
  let ?g = "\<lparr>pgr_storage = MemoryStorage [], pgr_page_size = word_of_nat PAGE_SIZE,
      pgr_current_meta = initial_meta crc, pgr_allocator = allocator_new\<rparr>"
  obtain s where s: "write_meta_pages crc ?g = Ok (?g\<lparr>pgr_storage := s\<rparr>)"
      "storage_read_page s META_A PAGE_SIZE = Ok (meta_image crc (initial_meta crc))"
      "storage_read_page s META_B PAGE_SIZE = Ok (meta_image crc (initial_meta crc))"
    using write_meta_pages_spec [of crc ?g] by auto
  obtain g' where "open_storage crc s = Ok g'" "ms_meta (pgr_current_meta g') = ms_meta (initial_meta crc)"
    using open_written_meta [OF initial_meta_facts(1,4,2) s(2,3)] .
  with s show ?thesis
    using that [of "?g\<lparr>pgr_storage := s\<rparr>" g'] by (simp add: create_memory_def)
qed

section \<open>Crashes while the meta pages are written\<close>

text \<open>
  \<open>write_meta_pages\<close> writes the two pages without a sync in between, so a crash before the sync of the commit can leave either
  page in any state, in any order: with its bytes from before (\<open>s\<close>), with its bytes from after (\<open>s'\<close>), or torn. A torn page
  is one that is not accepted as a meta page; a mixture of old and new bytes that has both checksums right is not
  considered.
\<close>

definition meta_crash :: "(bytes \<Rightarrow> u32) \<Rightarrow> storage \<Rightarrow> storage \<Rightarrow> storage \<Rightarrow> bool" where
  "meta_crash crc s s' c \<longleftrightarrow>
     (\<forall>p \<in> {META_A, META_B}. storage_read_page c p PAGE_SIZE = storage_read_page s p PAGE_SIZE \<or>
        storage_read_page c p PAGE_SIZE = storage_read_page s' p PAGE_SIZE \<or> read_meta_page crc c p = None)"

lemma meta_ids_distinct: "META_A \<noteq> META_B" "META_B \<noteq> META_A"
  by (simp_all add: META_A_def META_B_def)

section \<open>Properties\<close>

text \<open>
  C2. Durable commit. From any pager with a well-formed meta state, \<open>commit_transaction\<close> succeeds,
  and opening the storage it leaves behind recovers exactly the committed transaction id and root
  page, as long as the ids are within the range \<open>is_torn_write\<close> takes for plausible.
\<close>

theorem commit_transaction_durable:
  assumes "meta_state_wf (pgr_current_meta g)" "unat (mp_page_size (ms_meta (pgr_current_meta g))) = PAGE_SIZE"
    and "t \<le> 1000000000000" "root \<le> 1000000000"
  shows "\<exists>g' g''. commit_transaction crc g t root = Ok g' \<and> open_storage crc (pgr_storage g') = Ok g''
    \<and> pager_committed_txn_id g'' = t \<and> pager_root_page_id g'' = root
    \<and> ms_meta (pgr_current_meta g'') = ms_meta (pgr_current_meta g')"
proof -
  let ?m = "update_root_page_id crc (update_committed_txn_id crc (pgr_current_meta g) t) root"
  have wf: "meta_state_wf ?m" using assms(1) by (intro inv_rules)
  obtain s' where s': "write_meta_pages crc (g\<lparr>pgr_current_meta := ?m\<rparr>) = Ok (g\<lparr>pgr_current_meta := ?m, pgr_storage := s'\<rparr>)"
      "storage_read_page s' META_A PAGE_SIZE = Ok (meta_image crc ?m)"
      "storage_read_page s' META_B PAGE_SIZE = Ok (meta_image crc ?m)"
    using write_meta_pages_spec [of crc "g\<lparr>pgr_current_meta := ?m\<rparr>"] by auto
  have fields: "mp_committed_txn_id (ms_meta ?m) = t" "mp_root_page_id (ms_meta ?m) = root"
      "mp_page_size (ms_meta ?m) = mp_page_size (ms_meta (pgr_current_meta g))"
    by (simp_all add: update_root_page_id_def update_committed_txn_id_def meta_state_refresh_def meta_update_checksum_def)
  have "\<not> is_torn_write ?m" using assms(3,4) fields by (auto simp: is_torn_write_def)
  then obtain g'' where "open_storage crc s' = Ok g''" "ms_meta (pgr_current_meta g'') = ms_meta ?m"
    using open_written_meta [OF wf _ _ s'(2,3)] fields assms(2) by metis
  with s'(1) fields show ?thesis
    by (auto simp: commit_transaction_def storage_sync_def Let_def pager_committed_txn_id_def pager_root_page_id_def)
qed

theorem commit_transaction_durable_witness:
  "\<exists>g' g''. commit_transaction (\<lambda>_. 7)
      \<lparr>pgr_storage = MemoryStorage [], pgr_page_size = 16384,
       pgr_current_meta = initial_meta (\<lambda>_. 7), pgr_allocator = allocator_new\<rparr> 5 9 = Ok g'
    \<and> open_storage (\<lambda>_. 7) (pgr_storage g') = Ok g''
    \<and> pager_committed_txn_id g'' = 5 \<and> pager_root_page_id g'' = 9"
  using commit_transaction_durable [of "\<lparr>pgr_storage = MemoryStorage [], pgr_page_size = 16384,
       pgr_current_meta = initial_meta (\<lambda>_. 7), pgr_allocator = allocator_new\<rparr>" 5 9 "\<lambda>_. 7"]
    initial_meta_facts [of "\<lambda>_. 7"] by auto

lemma commit_transaction_images:
  obtains g' where "commit_transaction crc g t root = Ok g'"
    "pgr_current_meta g' = update_root_page_id crc (update_committed_txn_id crc (pgr_current_meta g) t) root"
    "storage_read_page (pgr_storage g') META_A PAGE_SIZE = Ok (meta_image crc (pgr_current_meta g'))"
    "storage_read_page (pgr_storage g') META_B PAGE_SIZE = Ok (meta_image crc (pgr_current_meta g'))"
  by (rule write_meta_pages_spec [of crc "g\<lparr>pgr_current_meta := update_root_page_id crc (update_committed_txn_id crc (pgr_current_meta g) t) root\<rparr>"])
    (auto simp: commit_transaction_def storage_sync_def Let_def)

lemma updated_meta_fields:
  "mp_committed_txn_id (ms_meta (update_root_page_id crc (update_committed_txn_id crc m t) root)) = t"
  "mp_root_page_id (ms_meta (update_root_page_id crc (update_committed_txn_id crc m t) root)) = root"
  "mp_page_size (ms_meta (update_root_page_id crc (update_committed_txn_id crc m t) root)) = mp_page_size (ms_meta m)"
  by (simp_all add: update_root_page_id_def update_committed_txn_id_def meta_state_refresh_def meta_update_checksum_def)

text \<open>Of two readable pages, the one of the later transaction is chosen.\<close>

lemma choose_best_meta_switch:
  assumes "\<not> is_torn_write old" "\<not> is_torn_write new"
    and "mp_committed_txn_id (ms_meta old) < mp_committed_txn_id (ms_meta new)"
    and "a \<in> {Some old, Some new, None}" "b \<in> {Some old, Some new, None}"
  shows "choose_best_meta a b = (if a = Some new \<or> b = Some new then Some new else if a = None \<and> b = None then None else Some old)"
  using assms by (auto simp: choose_best_meta_def)

text \<open>
  C1. The switch of the meta pages under crashes. Let both meta pages hold the image of the pager's meta state and let a commit of a
  later transaction, with plausible ids, write them. The commit succeeds when it is not interrupted. When a crash leaves
  each of the two pages, independently, with its old bytes, with its new bytes or rejected by its checksums, opening the
  storage yields the new meta payload if one of the pages holds its new bytes, the old payload if none does and one
  is readable, and fails if both are rejected; it never yields a mixture.
\<close>

theorem meta_switch_atomic:
  assumes "meta_state_wf (pgr_current_meta g)" "unat (mp_page_size (ms_meta (pgr_current_meta g))) = PAGE_SIZE"
    and "\<not> is_torn_write (pgr_current_meta g)" "pager_committed_txn_id g < t" "t \<le> 1000000000000" "root \<le> 1000000000"
    and "storage_read_page (pgr_storage g) META_A PAGE_SIZE = Ok (meta_image crc (pgr_current_meta g))"
    and "storage_read_page (pgr_storage g) META_B PAGE_SIZE = Ok (meta_image crc (pgr_current_meta g))"
  shows "\<exists>g'. commit_transaction crc g t root = Ok g' \<and> pager_committed_txn_id g' = t \<and> pager_root_page_id g' = root \<and>
    (\<forall>c. meta_crash crc (pgr_storage g) (pgr_storage g') c \<longrightarrow>
       (if \<exists>p \<in> {META_A, META_B}. storage_read_page c p PAGE_SIZE = storage_read_page (pgr_storage g') p PAGE_SIZE
        then \<exists>r. open_storage crc c = Ok r \<and> ms_meta (pgr_current_meta r) = ms_meta (pgr_current_meta g')
        else if read_meta_page crc c META_A = None \<and> read_meta_page crc c META_B = None
        then open_storage crc c = Err (Validation CorruptedData)
        else \<exists>r. open_storage crc c = Ok r \<and> ms_meta (pgr_current_meta r) = ms_meta (pgr_current_meta g)))"
proof -
  obtain g' where g': "commit_transaction crc g t root = Ok g'"
      "pgr_current_meta g' = update_root_page_id crc (update_committed_txn_id crc (pgr_current_meta g) t) root"
      "storage_read_page (pgr_storage g') META_A PAGE_SIZE = Ok (meta_image crc (pgr_current_meta g'))"
      "storage_read_page (pgr_storage g') META_B PAGE_SIZE = Ok (meta_image crc (pgr_current_meta g'))"
    by (rule commit_transaction_images [of crc g t root], rule that)
  have wf: "meta_state_wf (pgr_current_meta g')" unfolding g'(2) using assms(1) by (intro inv_rules)
  obtain old where old: "meta_of_image crc (meta_image crc (pgr_current_meta g)) = Some old" "ms_meta old = ms_meta (pgr_current_meta g)"
    using meta_of_meta_image [OF assms(1)] .
  obtain new where new: "meta_of_image crc (meta_image crc (pgr_current_meta g')) = Some new" "ms_meta new = ms_meta (pgr_current_meta g')"
    using meta_of_meta_image [OF wf] .
  note fields = updated_meta_fields [of crc "pgr_current_meta g" t root, folded g'(2)]
  have order: "\<not> is_torn_write old" "\<not> is_torn_write new" "mp_committed_txn_id (ms_meta old) < mp_committed_txn_id (ms_meta new)"
    using assms(3-6) fields old(2) new(2) by (auto simp: is_torn_write_def pager_committed_txn_id_def)
  have sizes: "unat (mp_page_size (ms_meta old)) = PAGE_SIZE" "unat (mp_page_size (ms_meta new)) = PAGE_SIZE"
    using assms(2) fields(3) old(2) new(2) by simp_all
  have distinct: "old \<noteq> new" using order(3) by auto
  have crash: "\<forall>p \<in> {META_A, META_B}. read_meta_page crc c p \<in> {Some old, Some new, None} \<and>
      (storage_read_page c p PAGE_SIZE = storage_read_page (pgr_storage g') p PAGE_SIZE \<longleftrightarrow> read_meta_page crc c p = Some new)"
    if "meta_crash crc (pgr_storage g) (pgr_storage g') c" for c
    using that assms(7,8) g'(3,4) old(1) new(1) distinct by (auto simp: meta_crash_def read_meta_page_Ok)
  show ?thesis
  proof (intro exI [of _ g'] conjI allI impI)
    fix c
    assume "meta_crash crc (pgr_storage g) (pgr_storage g') c"
    note pages = crash [OF this]
    then have "choose_best_meta (read_meta_page crc c META_A) (read_meta_page crc c META_B) = (if read_meta_page crc c META_A = Some new \<or>
        read_meta_page crc c META_B = Some new then Some new
        else if read_meta_page crc c META_A = None \<and> read_meta_page crc c META_B = None then None else Some old)"
      by (intro choose_best_meta_switch [OF order]) auto
    with pages sizes old(2) new(2) show "if \<exists>p \<in> {META_A, META_B}. storage_read_page c p PAGE_SIZE = storage_read_page (pgr_storage g') p PAGE_SIZE
        then \<exists>r. open_storage crc c = Ok r \<and> ms_meta (pgr_current_meta r) = ms_meta (pgr_current_meta g')
        else if read_meta_page crc c META_A = None \<and> read_meta_page crc c META_B = None
        then open_storage crc c = Err (Validation CorruptedData)
        else \<exists>r. open_storage crc c = Ok r \<and> ms_meta (pgr_current_meta r) = ms_meta (pgr_current_meta g)"
      by (auto simp: open_storage_def ok_or_def)
  qed (use g'(1) fields in \<open>simp_all add: pager_committed_txn_id_def pager_root_page_id_def\<close>)
qed

text \<open>In the witness the crash comes after the first page of a new store was written.\<close>

theorem meta_switch_atomic_witness:
  "\<exists>g g' c r. create_memory (\<lambda>_. 7) = Ok g \<and> commit_transaction (\<lambda>_. 7) g 5 9 = Ok g' \<and>
     meta_crash (\<lambda>_. 7) (pgr_storage g) (pgr_storage g') c \<and> open_storage (\<lambda>_. 7) c = Ok r \<and> pager_committed_txn_id r = 5"
proof -
  let ?crc = "\<lambda>_. 7 :: u32"
  obtain g where g: "create_memory ?crc = Ok g" "storage_read_page (pgr_storage g) META_A PAGE_SIZE = Ok (meta_image ?crc (initial_meta ?crc))"
      "storage_read_page (pgr_storage g) META_B PAGE_SIZE = Ok (meta_image ?crc (initial_meta ?crc))"
    by (rule create_memory_opens [of ?crc]) blast
  have m: "pgr_current_meta g = initial_meta ?crc" using g(1) by (auto simp: create_memory_def write_meta_pages_def Let_def)
  note old = initial_meta_facts [of ?crc]
  have less: "pager_committed_txn_id g < 5" using old(3) by (simp add: pager_committed_txn_id_def m)
  have ids: "(5 :: u64) \<le> 1000000000000" "(9 :: u64) \<le> 1000000000" by simp_all
  obtain g' where g': "commit_transaction ?crc g 5 9 = Ok g'" "pager_committed_txn_id g' = 5"
      "\<And>c p. meta_crash ?crc (pgr_storage g) (pgr_storage g') c \<Longrightarrow> p \<in> {META_A, META_B} \<Longrightarrow>
         storage_read_page c p PAGE_SIZE = storage_read_page (pgr_storage g') p PAGE_SIZE \<Longrightarrow>
         \<exists>r. open_storage ?crc c = Ok r \<and> ms_meta (pgr_current_meta r) = ms_meta (pgr_current_meta g')"
    using meta_switch_atomic [of g 5 9 ?crc, unfolded m, OF old(1,2,4) less ids g(2,3)] by fastforce
  obtain g2 where g2: "commit_transaction ?crc g 5 9 = Ok g2" "storage_read_page (pgr_storage g2) META_A PAGE_SIZE = Ok (meta_image ?crc (pgr_current_meta g2))"
    by (rule commit_transaction_images [of ?crc g 5 9], rule that)
  let ?img = "meta_image ?crc (pgr_current_meta g')"
  have img: "storage_read_page (pgr_storage g') META_A PAGE_SIZE = Ok ?img" using g2 g'(1) by simp
  obtain c where c: "storage_write_page (pgr_storage g) META_A ?img = Ok c" using storage_write_total [of META_A ?img] by auto
  have a: "storage_read_page c META_A PAGE_SIZE = Ok ?img" and b: "storage_read_page c META_B PAGE_SIZE = storage_read_page (pgr_storage g) META_B PAGE_SIZE"
    using backend.read_written [of META_A "pgr_storage g" ?img c] backend.read_other [of META_A META_B "pgr_storage g" ?img c] c g(3)
    by (simp_all add: meta_ids_distinct)
  have crash: "meta_crash ?crc (pgr_storage g) (pgr_storage g') c" using a b img by (simp add: meta_crash_def)
  with g'(3) [OF crash, of META_A] a img obtain r where "open_storage ?crc c = Ok r" "ms_meta (pgr_current_meta r) = ms_meta (pgr_current_meta g')" by auto
  with crash g(1) g'(1,2) show ?thesis by (auto simp: pager_committed_txn_id_def)
qed

text \<open>
  Opening a storage forgets which pages are in use. Whatever the storage holds, the first
  allocation after \<open>open_storage\<close> returns page 3 and overwrites it with an empty page of the free
  list, also when page 3 belongs to the tree that the recovered root names.
\<close>

theorem open_storage_reuses_page_3:
  assumes "open_storage crc s = Ok g"
  shows "\<exists>g'. pager_allocate_page crc g = (Ok 3, g')
    \<and> storage_read_page (pgr_storage g') 3 PAGE_SIZE
      = Ok (page_to_bytes (recalculate_checksums crc (page_new 3 Freelist)))"
proof -
  let ?img = "page_to_bytes (recalculate_checksums crc (page_new 3 Freelist))"
  have addr: "addressable 3" by (simp add: addressable_def)
  have g: "pgr_allocator g = allocator_new"
    using assms by (auto simp: open_storage_def split: if_splits)
  obtain s' where s': "storage_write_page (pgr_storage g) 3 ?img = Ok s'"
    using storage_write_total [OF addr, of ?img] by auto
  with storage_write_read [OF addr s'] g show ?thesis
    by (simp add: pager_allocate_page_def allocate_page_def allocator_new_def Let_def)
qed

theorem open_storage_reuses_page_3_witness:
  "\<exists>s g g'. open_storage (\<lambda>_. 7) s = Ok g \<and> pager_allocate_page (\<lambda>_. 7) g = (Ok 3, g')"
  using create_memory_opens [of "\<lambda>_. 7"] open_storage_reuses_page_3 [of "\<lambda>_. 7"] by metis

end
