(* ===== verification/Txn.thy ===== *)
theory Txn
  imports Ids Errors Checksum
begin

text \<open>
  \<^verbatim>\<open>txn/state.rs\<close>, \<^verbatim>\<open>txn/mutation.rs\<close>, \<^verbatim>\<open>txn/context.rs\<close> and \<^verbatim>\<open>txn/commit.rs\<close>: the life cycle of a
  transaction, the buffered mutations with their limits, and the in-memory commit record with
  its checksum. The time stamp taken when a context is created is a parameter.
\<close>

definition MAX_KEY_SIZE :: nat where "MAX_KEY_SIZE = 4096"
definition MAX_VALUE_SIZE :: nat where "MAX_VALUE_SIZE = 16 * 1024 * 1024"
definition MAX_OPERATIONS_PER_COMMIT :: nat where "MAX_OPERATIONS_PER_COMMIT = 10000"

section \<open>Transaction state\<close>

datatype txn_state = Active | Preparing | Committed | Aborted

fun allows_mutations :: "txn_state \<Rightarrow> bool" where
  "allows_mutations s = (case s of Active \<Rightarrow> True | _ \<Rightarrow> False)"

fun allows_prepare :: "txn_state \<Rightarrow> bool" where
  "allows_prepare s = (case s of Active \<Rightarrow> True | _ \<Rightarrow> False)"

fun allows_commit :: "txn_state \<Rightarrow> bool" where
  "allows_commit s = (case s of Preparing \<Rightarrow> True | _ \<Rightarrow> False)"

fun allows_abort :: "txn_state \<Rightarrow> bool" where
  "allows_abort s = (case s of Active \<Rightarrow> True | Preparing \<Rightarrow> True | _ \<Rightarrow> False)"

fun is_terminal :: "txn_state \<Rightarrow> bool" where
  "is_terminal s = (case s of Committed \<Rightarrow> True | Aborted \<Rightarrow> True | _ \<Rightarrow> False)"

fun state_name :: "txn_state \<Rightarrow> string" where
  "state_name Active = ''Active''"
| "state_name Preparing = ''Preparing''"
| "state_name Committed = ''Committed''"
| "state_name Aborted = ''Aborted''"

definition validate_mutation :: "txn_state \<Rightarrow> unit outcome" where
  "validate_mutation s =
     (if \<not> allows_mutations s
      then Err (Validation (ValidationGeneric (''Cannot mutate in '' @ state_name s @ '' state'')))
      else Ok ())"

definition validate_prepare :: "txn_state \<Rightarrow> unit outcome" where
  "validate_prepare s =
     (if \<not> allows_prepare s
      then Err (Validation (ValidationGeneric (''Cannot prepare in '' @ state_name s @ '' state'')))
      else Ok ())"

definition validate_commit :: "txn_state \<Rightarrow> unit outcome" where
  "validate_commit s =
     (if \<not> allows_commit s
      then Err (Validation (ValidationGeneric (''Cannot commit in '' @ state_name s @ '' state'')))
      else Ok ())"

definition validate_abort :: "txn_state \<Rightarrow> unit outcome" where
  "validate_abort s =
     (if \<not> allows_abort s
      then Err (Validation (ValidationGeneric (''Cannot abort in '' @ state_name s @ '' state'')))
      else Ok ())"

definition transition_to_preparing :: "txn_state \<Rightarrow> txn_state outcome" where
  "transition_to_preparing s = and_then (validate_prepare s) (\<lambda>_. Ok Preparing)"

definition transition_to_committed :: "txn_state \<Rightarrow> txn_state outcome" where
  "transition_to_committed s = and_then (validate_commit s) (\<lambda>_. Ok Committed)"

definition transition_to_aborted :: "txn_state \<Rightarrow> txn_state outcome" where
  "transition_to_aborted s = and_then (validate_abort s) (\<lambda>_. Ok Aborted)"

section \<open>Mutations\<close>

datatype mutation = Put bytes bytes | Delete bytes

fun get_key :: "mutation \<Rightarrow> bytes" where
  "get_key (Put k v) = k"
| "get_key (Delete k) = k"

fun get_value :: "mutation \<Rightarrow> bytes option" where
  "get_value (Put k v) = Some v"
| "get_value (Delete k) = None"

fun mutation_size :: "mutation \<Rightarrow> nat" where
  "mutation_size (Put k v) = length k + length v"
| "mutation_size (Delete k) = length k"

definition mutation_validate :: "mutation \<Rightarrow> unit outcome" where
  "mutation_validate m =
     (if get_key m = [] then Err (Validation (ValidationGeneric ''Key cannot be empty''))
      else if MAX_KEY_SIZE < length (get_key m) then
        Err (SizeLimit (KeyTooLarge (length (get_key m)) MAX_KEY_SIZE))
      else (case get_value m of
              Some v \<Rightarrow> (if MAX_VALUE_SIZE < length v
                          then Err (SizeLimit (ValueTooLarge (length v) MAX_VALUE_SIZE)) else Ok ())
            | None \<Rightarrow> Ok ()))"

section \<open>Transaction context\<close>

record txn_context =
  tc_txn_id :: txn_id
  tc_parent_txn_id :: txn_id
  tc_state :: txn_state
  tc_mutations :: "mutation list"
  tc_mutation_count :: nat
  tc_allocated_pages :: "page_id list"
  tc_modified_pages :: "page_id \<rightharpoonup> bytes"
  tc_start_timestamp_ns :: u64
  tc_commit_lsn :: "lsn option"

definition context_new :: "u64 \<Rightarrow> txn_id \<Rightarrow> txn_context" where
  "context_new now t =
     \<lparr>tc_txn_id = t, tc_parent_txn_id = TXN_INITIAL, tc_state = Active, tc_mutations = [],
      tc_mutation_count = 0, tc_allocated_pages = [], tc_modified_pages = Map.empty,
      tc_start_timestamp_ns = now, tc_commit_lsn = None\<rparr>"

definition too_many_mutations :: "nat \<Rightarrow> error" where
  "too_many_mutations n = Validation (ValidationGeneric
     (''Too many mutations: '' @ fmt_nat n @ '' (max: '' @ fmt_nat MAX_OPERATIONS_PER_COMMIT @ '')''))"

definition context_put :: "txn_context \<Rightarrow> bytes \<Rightarrow> bytes \<Rightarrow> txn_context outcome" where
  "context_put c key val =
     and_then (validate_mutation (tc_state c)) (\<lambda>_.
       if MAX_OPERATIONS_PER_COMMIT \<le> tc_mutation_count c then Err (too_many_mutations (tc_mutation_count c))
       else if key = [] then Err (Validation (ValidationGeneric ''Key cannot be empty''))
       else if MAX_KEY_SIZE < length key then Err (SizeLimit (KeyTooLarge (length key) MAX_KEY_SIZE))
       else if MAX_VALUE_SIZE < length val then Err (SizeLimit (ValueTooLarge (length val) MAX_VALUE_SIZE))
       else Ok (c\<lparr>tc_mutations := tc_mutations c @ [Put key val],
                  tc_mutation_count := tc_mutation_count c + 1\<rparr>))"

definition context_delete :: "txn_context \<Rightarrow> bytes \<Rightarrow> txn_context outcome" where
  "context_delete c key =
     and_then (validate_mutation (tc_state c)) (\<lambda>_.
       if MAX_OPERATIONS_PER_COMMIT \<le> tc_mutation_count c then Err (too_many_mutations (tc_mutation_count c))
       else if key = [] then Err (Validation (ValidationGeneric ''Key cannot be empty''))
       else if MAX_KEY_SIZE < length key then Err (SizeLimit (KeyTooLarge (length key) MAX_KEY_SIZE))
       else Ok (c\<lparr>tc_mutations := tc_mutations c @ [Delete key],
                  tc_mutation_count := tc_mutation_count c + 1\<rparr>))"

definition track_allocated_page :: "txn_context \<Rightarrow> page_id \<Rightarrow> txn_context" where
  "track_allocated_page c p = c\<lparr>tc_allocated_pages := tc_allocated_pages c @ [p]\<rparr>"

definition track_modified_page :: "txn_context \<Rightarrow> page_id \<Rightarrow> bytes \<Rightarrow> txn_context" where
  "track_modified_page c p img = c\<lparr>tc_modified_pages := (tc_modified_pages c)(p \<mapsto> img)\<rparr>"

definition has_mutations :: "txn_context \<Rightarrow> bool" where
  "has_mutations c \<longleftrightarrow> 0 < tc_mutation_count c"

definition total_mutation_size :: "txn_context \<Rightarrow> nat" where
  "total_mutation_size c = sum_list (map mutation_size (tc_mutations c))"

definition find_mutation :: "txn_context \<Rightarrow> bytes \<Rightarrow> mutation option" where
  "find_mutation c key = List.find (\<lambda>m. get_key m = key) (rev (tc_mutations c))"

definition context_transition :: "(txn_state \<Rightarrow> txn_state outcome) \<Rightarrow> txn_context \<Rightarrow> txn_context outcome" where
  "context_transition tr c = and_then (tr (tc_state c)) (\<lambda>s. Ok (c\<lparr>tc_state := s\<rparr>))"

definition context_clear :: "txn_context \<Rightarrow> txn_context" where
  "context_clear c =
     c\<lparr>tc_mutations := [], tc_mutation_count := 0, tc_allocated_pages := [], tc_modified_pages := Map.empty\<rparr>"

definition duration_ns :: "u64 \<Rightarrow> txn_context \<Rightarrow> u64" where
  "duration_ns now c = saturating_sub now (tc_start_timestamp_ns c)"

section \<open>Commit record\<close>

record commit_record =
  cr_txn_id :: txn_id
  cr_root_page_id :: u64
  cr_mutations :: "mutation list"
  cr_checksum :: u32

text \<open>The chunks the hasher is fed for one mutation, in order.\<close>

fun mutation_chunks :: "mutation \<Rightarrow> bytes list" where
  "mutation_chunks (Put k v) =
     [[1], le32 (word_of_nat (length k)), k, le32 (word_of_nat (length v)), v]"
| "mutation_chunks (Delete k) = [[0], le32 (word_of_nat (length k)), k]"

definition commit_calculate_checksum :: "(u32 \<Rightarrow> bytes \<Rightarrow> u32) \<Rightarrow> mutation list \<Rightarrow> u32" where
  "commit_calculate_checksum crc_append ms =
     hasher_finalize (foldl (\<lambda>h m. foldl (hasher_update crc_append) h (mutation_chunks m)) hasher_new ms)"

definition commit_record_new :: "(u32 \<Rightarrow> bytes \<Rightarrow> u32) \<Rightarrow> txn_id \<Rightarrow> u64 \<Rightarrow> mutation list \<Rightarrow> commit_record" where
  "commit_record_new crc_append t root ms =
     \<lparr>cr_txn_id = t, cr_root_page_id = root, cr_mutations = ms,
      cr_checksum = commit_calculate_checksum crc_append ms\<rparr>"

definition commit_record_verify :: "(u32 \<Rightarrow> bytes \<Rightarrow> u32) \<Rightarrow> commit_record \<Rightarrow> bool" where
  "commit_record_verify crc_append r \<longleftrightarrow> commit_calculate_checksum crc_append (cr_mutations r) = cr_checksum r"

definition commit_total_size :: "commit_record \<Rightarrow> nat" where
  "commit_total_size r = sum_list (map mutation_size (cr_mutations r))"

section \<open>Invariant of the context\<close>

definition context_inv :: "txn_context \<Rightarrow> bool" where
  "context_inv c \<longleftrightarrow> tc_mutation_count c = length (tc_mutations c) \<and>
     tc_mutation_count c \<le> MAX_OPERATIONS_PER_COMMIT \<and>
     (\<forall>m \<in> set (tc_mutations c). mutation_validate m = Ok ())"

lemma context_new_inv [inv_rules]: "context_inv (context_new now t)"
  by (simp add: context_inv_def context_new_def)

lemma context_put_Ok:
  "context_put c key val = Ok c' \<longleftrightarrow>
     tc_state c = Active \<and> tc_mutation_count c < MAX_OPERATIONS_PER_COMMIT \<and>
     mutation_validate (Put key val) = Ok () \<and>
     c' = c\<lparr>tc_mutations := tc_mutations c @ [Put key val], tc_mutation_count := tc_mutation_count c + 1\<rparr>"
  by (auto simp: context_put_def validate_mutation_def mutation_validate_def split: txn_state.splits if_splits)

lemma context_delete_Ok:
  "context_delete c key = Ok c' \<longleftrightarrow>
     tc_state c = Active \<and> tc_mutation_count c < MAX_OPERATIONS_PER_COMMIT \<and>
     mutation_validate (Delete key) = Ok () \<and>
     c' = c\<lparr>tc_mutations := tc_mutations c @ [Delete key], tc_mutation_count := tc_mutation_count c + 1\<rparr>"
  by (auto simp: context_delete_def validate_mutation_def mutation_validate_def split: txn_state.splits if_splits)

lemma transitions_Ok:
  "transition_to_preparing s = Ok s' \<longleftrightarrow> s = Active \<and> s' = Preparing"
  "transition_to_committed s = Ok s' \<longleftrightarrow> s = Preparing \<and> s' = Committed"
  "transition_to_aborted s = Ok s' \<longleftrightarrow> s \<in> {Active, Preparing} \<and> s' = Aborted"
  by (cases s; auto simp: transition_to_preparing_def transition_to_committed_def transition_to_aborted_def
      validate_prepare_def validate_commit_def validate_abort_def)+

section \<open>The life cycle as a step relation\<close>

text \<open>
  The operations of the context, and the step in which \<open>WriteTxn::commit\<close> takes the mutations out of a prepared context
  without touching their count.
\<close>

inductive txn_step :: "txn_context \<Rightarrow> txn_context \<Rightarrow> bool" where
  put: "context_put c k v = Ok c' \<Longrightarrow> txn_step c c'"
| delete: "context_delete c k = Ok c' \<Longrightarrow> txn_step c c'"
| track_alloc: "txn_step c (track_allocated_page c p)"
| track_mod: "txn_step c (track_modified_page c p img)"
| prepare: "context_transition transition_to_preparing c = Ok c' \<Longrightarrow> txn_step c c'"
| commit: "context_transition transition_to_committed c = Ok c' \<Longrightarrow> txn_step c c'"
| abort: "context_transition transition_to_aborted c = Ok c' \<Longrightarrow> txn_step c c'"
| clear: "txn_step c (context_clear c)"
| take: "tc_state c = Preparing \<Longrightarrow> has_mutations c \<Longrightarrow> txn_step c (c\<lparr>tc_mutations := []\<rparr>)"

lemma context_transition_Ok:
  "context_transition tr c = Ok c' \<longleftrightarrow> (\<exists>s. tr (tc_state c) = Ok s \<and> c' = c\<lparr>tc_state := s\<rparr>)"
  by (auto simp: context_transition_def)

text \<open>What holds along every run: the limits, and the count of the mutations unless they were taken for the commit.\<close>

definition context_kept :: "txn_context \<Rightarrow> bool" where
  "context_kept c \<longleftrightarrow> tc_mutation_count c \<le> MAX_OPERATIONS_PER_COMMIT \<and> (\<forall>m \<in> set (tc_mutations c). mutation_validate m = Ok ()) \<and>
     (tc_mutation_count c = length (tc_mutations c) \<or> tc_mutations c = [] \<and> tc_state c \<noteq> Active)"

lemma context_new_kept: "context_kept (context_new now t)"
  by (simp add: context_kept_def context_new_def)

lemma txn_step_kept: "txn_step c c' \<Longrightarrow> context_kept c \<Longrightarrow> context_kept c'"
  by (induction rule: txn_step.induct)
    (auto simp: context_put_Ok context_delete_Ok context_transition_Ok transitions_Ok context_kept_def context_clear_def
      track_allocated_page_def track_modified_page_def)

text \<open>A transaction only moves forward, and once it leaves \<open>Active\<close> its mutations can only be dropped.\<close>

fun phase :: "txn_state \<Rightarrow> nat" where
  "phase Active = 0"
| "phase Preparing = 1"
| "phase Committed = 2"
| "phase Aborted = 2"

lemma txn_step_forward:
  "txn_step c c' \<Longrightarrow> tc_txn_id c' = tc_txn_id c \<and>
     (tc_state c' = tc_state c \<or> phase (tc_state c) < phase (tc_state c')) \<and>
     (tc_state c \<noteq> Active \<longrightarrow> tc_mutations c' \<in> {tc_mutations c, []}) \<and>
     (tc_state c' = Committed \<longrightarrow> tc_state c \<in> {Preparing, Committed}) \<and>
     (tc_state c = Active \<longrightarrow> tc_state c' = Preparing \<longrightarrow> context_transition transition_to_preparing c = Ok c')"
  by (induction rule: txn_step.induct)
    (auto simp: context_put_Ok context_delete_Ok context_transition_Ok transitions_Ok context_clear_def
      track_allocated_page_def track_modified_page_def)

lemma txn_run_frozen:
  assumes "txn_step\<^sup>*\<^sup>* c c'" "tc_state c \<noteq> Active"
  shows "tc_state c' \<noteq> Active \<and> tc_mutations c' \<in> {tc_mutations c, []} \<and> (is_terminal (tc_state c) \<longrightarrow> tc_state c' = tc_state c)"
  using assms(1)
proof (induction rule: rtranclp_induct)
  case base
  then show ?case using assms(2) by simp
next
  case (step b d)
  have phases: "phase s = 0 \<longleftrightarrow> s = Active" "phase s \<le> 2" "is_terminal s \<longleftrightarrow> phase s = 2" for s
    by (cases s; simp)+
  note fwd = txn_step_forward [OF step.hyps(2)]
  have "tc_state d \<noteq> Active" using fwd step.IH phases(1) by (metis less_zeroE)
  moreover have "is_terminal (tc_state b) \<Longrightarrow> tc_state d = tc_state b"
    using fwd phases(2) [of "tc_state d"] phases(3) [of "tc_state b"] by auto
  ultimately show ?case using fwd step.IH by auto
qed

lemma txn_run_prepared:
  assumes "txn_step\<^sup>*\<^sup>* c c'" "tc_state c = Active" "tc_state c' \<in> {Preparing, Committed}"
  shows "\<exists>a p. txn_step\<^sup>*\<^sup>* c a \<and> context_transition transition_to_preparing a = Ok p \<and> txn_step\<^sup>*\<^sup>* p c'"
  using assms(1,3)
proof (induction rule: rtranclp_induct)
  case base
  then show ?case using assms(2) by simp
next
  case (step b d)
  note fwd = txn_step_forward [OF step.hyps(2)]
  show ?case
  proof (cases "tc_state b \<in> {Preparing, Committed}")
    case True
    with step.IH obtain a p where "txn_step\<^sup>*\<^sup>* c a" "context_transition transition_to_preparing a = Ok p" "txn_step\<^sup>*\<^sup>* p b" by blast
    with step.hyps(2) show ?thesis by (meson rtranclp.rtrancl_into_rtrancl)
  next
    case False
    with fwd step.prems have "tc_state b = Active" "tc_state d = Preparing" by (cases "tc_state b"; auto)+
    with fwd step.hyps(1) show ?thesis by blast
  qed
qed

section \<open>The meaning of a list of mutations\<close>

text \<open>Abstract specification: a mutation updates a finite map from keys to values.\<close>

fun apply_mutation :: "(bytes \<rightharpoonup> bytes) \<Rightarrow> mutation \<Rightarrow> (bytes \<rightharpoonup> bytes)" where
  "apply_mutation db (Put k v) = db(k \<mapsto> v)"
| "apply_mutation db (Delete k) = db(k := None)"

lemma apply_mutation_key: "apply_mutation db m = db(get_key m := get_value m)"
  by (cases m) simp_all

lemma find_last_mutation:
  "foldl apply_mutation db ms key =
     (case List.find (\<lambda>m. get_key m = key) (rev ms) of Some m \<Rightarrow> get_value m | None \<Rightarrow> db key)"
  by (induction ms rule: rev_induct) (auto simp: apply_mutation_key)

section \<open>The encoding under the commit checksum\<close>

definition mutation_encoding :: "mutation \<Rightarrow> bytes" where
  "mutation_encoding m = concat (mutation_chunks m)"

lemma le32_length_inj:
  assumes "le32 (word_of_nat m) @ xs = le32 (word_of_nat n) @ ys" "m < 2 ^ 32" "n < 2 ^ 32"
  shows "m = n \<and> xs = ys"
proof -
  have "le32 (word_of_nat m) = le32 (word_of_nat n)" "xs = ys"
    using assms(1) by (simp_all add: append_eq_append_conv)
  then have "(word_of_nat m :: u32) = word_of_nat n" by (metis from_le_le32)
  then have "unat (word_of_nat m :: u32) = unat (word_of_nat n :: u32)" by simp
  with assms(2,3) \<open>xs = ys\<close> show ?thesis by (simp add: unat_of_nat)
qed

lemma counted_inj:
  assumes "le32 (word_of_nat (length a)) @ a @ xs = le32 (word_of_nat (length b)) @ b @ ys"
    and "length a < 2 ^ 32" "length b < 2 ^ 32"
  shows "a = b \<and> xs = ys"
  using le32_length_inj [OF assms(1-3)] by auto

lemma valid_mutation_lengths:
  "mutation_validate (Put k v) = Ok () \<Longrightarrow> length k < 2 ^ 32 \<and> length v < 2 ^ 32"
  "mutation_validate (Delete k) = Ok () \<Longrightarrow> length k < 2 ^ 32"
  by (auto simp: mutation_validate_def MAX_KEY_SIZE_def MAX_VALUE_SIZE_def split: if_splits)

lemma mutation_encoding_inj:
  assumes "mutation_encoding m @ xs = mutation_encoding m' @ ys"
    and "mutation_validate m = Ok ()" "mutation_validate m' = Ok ()"
  shows "m = m' \<and> xs = ys"
proof (cases m; cases m')
  fix k v k' v'
  assume m: "m = Put k v" "m' = Put k' v'"
  with assms have "le32 (word_of_nat (length k)) @ k @ (le32 (word_of_nat (length v)) @ v @ xs)
      = le32 (word_of_nat (length k')) @ k' @ (le32 (word_of_nat (length v')) @ v' @ ys)"
    by (simp add: mutation_encoding_def)
  with assms(2,3) m show ?thesis
    by (metis counted_inj valid_mutation_lengths(1))
next
  fix k k'
  assume m: "m = Delete k" "m' = Delete k'"
  with assms have "le32 (word_of_nat (length k)) @ k @ xs = le32 (word_of_nat (length k')) @ k' @ ys"
    by (simp add: mutation_encoding_def)
  with assms(2,3) m show ?thesis
    by (metis counted_inj valid_mutation_lengths(2))
qed (use assms in \<open>auto simp: mutation_encoding_def\<close>)

lemma mutation_encoding_nonempty: "mutation_encoding m \<noteq> []"
  by (cases m) (simp_all add: mutation_encoding_def)

lemma mutation_list_encoding_inj:
  assumes "concat (map mutation_encoding ms) = concat (map mutation_encoding ns)"
    and "\<forall>m \<in> set ms. mutation_validate m = Ok ()" "\<forall>m \<in> set ns. mutation_validate m = Ok ()"
  shows "ms = ns"
  using assms
proof (induction ms arbitrary: ns)
  case Nil
  then show ?case by (cases ns) (auto simp: mutation_encoding_nonempty)
next
  case (Cons m ms)
  then obtain n ns' where "ns = n # ns'"
    by (cases ns) (auto simp: mutation_encoding_nonempty)
  with Cons mutation_encoding_inj [of m _ n] show ?case by auto
qed

lemma commit_checksum_encoding:
  assumes "crc32c_lib crc crc_append"
  shows "commit_calculate_checksum crc_append ms = checksum crc (concat (map mutation_encoding ms))"
proof -
  have "foldl (\<lambda>h m. foldl (hasher_update crc_append) h (mutation_chunks m)) h ms
      = foldl (hasher_update crc_append) h (concat (map mutation_chunks ms))" for h
    by (induction ms arbitrary: h) simp_all
  moreover have "concat (concat (map mutation_chunks ms)) = concat (map mutation_encoding ms)"
    by (induction ms) (simp_all add: mutation_encoding_def)
  ultimately show ?thesis
    using hasher_concat [OF assms] by (simp add: commit_calculate_checksum_def)
qed

section \<open>Properties\<close>

text \<open>
  C9. Life cycle of a transaction. Along every run of context operations from a fresh context, clearing it and taking its mutations
  for the commit included, the limits on mutations are kept, the transaction keeps its id, the buffered mutations never change
  once it has left \<open>Active\<close> except that they may be dropped as a whole, a terminal state is final, and a
  transaction that is committed was prepared before, when it was active with the mutations that it keeps until they are
  dropped.
\<close>

theorem txn_lifecycle:
  assumes "txn_step\<^sup>*\<^sup>* (context_new now t) c" "txn_step\<^sup>*\<^sup>* c c'"
  shows "context_kept c' \<and> tc_txn_id c' = t
    \<and> (tc_state c \<noteq> Active \<longrightarrow> tc_mutations c' \<in> {tc_mutations c, []} \<and> tc_state c' \<noteq> Active)
    \<and> (is_terminal (tc_state c) \<longrightarrow> tc_state c' = tc_state c)
    \<and> (tc_state c' = Committed \<longrightarrow> tc_state c = Active \<longrightarrow>
        (\<exists>a p. txn_step\<^sup>*\<^sup>* c a \<and> context_transition transition_to_preparing a = Ok p \<and> txn_step\<^sup>*\<^sup>* p c' \<and>
           tc_mutations c' \<in> {tc_mutations a, []}))"
proof -
  have "txn_step\<^sup>*\<^sup>* (context_new now t) c'" using assms by (rule rtranclp_trans)
  then have kept: "context_kept c' \<and> tc_txn_id c' = t"
    by (induction rule: rtranclp_induct)
      (auto simp: context_new_kept txn_step_kept dest: txn_step_forward, simp add: context_new_def)
  have terminal: "is_terminal (tc_state c) \<Longrightarrow> tc_state c \<noteq> Active" by auto
  have "\<exists>a p. txn_step\<^sup>*\<^sup>* c a \<and> context_transition transition_to_preparing a = Ok p \<and> txn_step\<^sup>*\<^sup>* p c' \<and> tc_mutations c' \<in> {tc_mutations a, []}"
    if com: "tc_state c' = Committed" "tc_state c = Active"
  proof -
    obtain a p where p: "txn_step\<^sup>*\<^sup>* c a" "context_transition transition_to_preparing a = Ok p" "txn_step\<^sup>*\<^sup>* p c'"
      using txn_run_prepared [OF assms(2) com(2)] com(1) by auto
    then have "tc_state p \<noteq> Active" "tc_mutations p = tc_mutations a" by (auto simp: context_transition_Ok transitions_Ok)
    with txn_run_frozen [OF p(3)] p show ?thesis by auto
  qed
  with kept txn_run_frozen [OF assms(2)] terminal show ?thesis by blast
qed

theorem txn_lifecycle_witness:
  "\<exists>c c'. txn_step\<^sup>*\<^sup>* (context_new 0 7) c \<and> txn_step\<^sup>*\<^sup>* c c' \<and> tc_state c = Preparing
     \<and> tc_state c' = Committed \<and> tc_mutations c' = [] \<and> tc_mutations c = [Put [1] [2]] \<and> context_kept c'"
proof -
  let ?a = "context_new 0 7"
  let ?b = "?a\<lparr>tc_mutations := [Put [1] [2]], tc_mutation_count := 1\<rparr>"
  let ?c = "?b\<lparr>tc_state := Preparing\<rparr>" and ?e = "?b\<lparr>tc_state := Preparing, tc_mutations := []\<rparr>"
  let ?d = "?e\<lparr>tc_state := Committed\<rparr>"
  have "txn_step ?a ?b"
    by (rule txn_step.put [of _ "[1]" "[2]"])
      (simp add: context_put_Ok context_new_def mutation_validate_def MAX_KEY_SIZE_def MAX_VALUE_SIZE_def
        MAX_OPERATIONS_PER_COMMIT_def)
  moreover have "txn_step ?b ?c"
    by (rule txn_step.prepare) (simp add: context_transition_Ok transitions_Ok context_new_def)
  ultimately have ac: "txn_step\<^sup>*\<^sup>* ?a ?c" by (meson r_into_rtranclp rtranclp.rtrancl_into_rtrancl)
  have "txn_step ?c ?e" using txn_step.take [of ?c] by (simp add: has_mutations_def)
  moreover have "txn_step ?e ?d" by (rule txn_step.commit) (simp add: context_transition_Ok transitions_Ok)
  ultimately have cd: "txn_step\<^sup>*\<^sup>* ?c ?d" by (meson r_into_rtranclp rtranclp.rtrancl_into_rtrancl)
  show ?thesis
    using txn_lifecycle [OF ac cd] ac cd by (intro exI [of _ ?c] exI [of _ ?d]) simp
qed

text \<open>
  C15. The commit record's checksum covers its mutations faithfully: it is the CRC of one byte string
  (the hasher's many updates included), and for the mutation lists a context can hold, different
  lists have different strings. A record made by \<open>CommitRecord::new\<close> verifies.
\<close>

theorem commit_checksum_faithful:
  assumes "crc32c_lib crc crc_append" "context_inv c" "context_inv c'"
  shows "commit_calculate_checksum crc_append (tc_mutations c)
       = checksum crc (concat (map mutation_encoding (tc_mutations c)))
    \<and> (concat (map mutation_encoding (tc_mutations c)) = concat (map mutation_encoding (tc_mutations c'))
       \<longleftrightarrow> tc_mutations c = tc_mutations c')
    \<and> commit_record_verify crc_append (commit_record_new crc_append t root (tc_mutations c))"
proof (intro conjI)
  show "commit_calculate_checksum crc_append (tc_mutations c)
       = checksum crc (concat (map mutation_encoding (tc_mutations c)))"
    by (rule commit_checksum_encoding [OF assms(1)])
  show "concat (map mutation_encoding (tc_mutations c)) = concat (map mutation_encoding (tc_mutations c'))
       \<longleftrightarrow> tc_mutations c = tc_mutations c'"
    using mutation_list_encoding_inj assms(2,3) by (auto simp: context_inv_def)
  show "commit_record_verify crc_append (commit_record_new crc_append t root (tc_mutations c))"
    by (simp add: commit_record_verify_def commit_record_new_def)
qed

theorem commit_checksum_faithful_witness:
  "commit_record_verify crc32c_bitwise_append
     (commit_record_new crc32c_bitwise_append 3 4 (tc_mutations (context_new 0 1)))"
  using commit_checksum_faithful [OF castagnoli.crc32c_lib_axioms context_new_inv context_new_inv] by blast

end
