(* ===== verification/Ref_Tree.thy ===== *)
theory Ref_Tree
  imports Ids
begin

text \<open>
  \<^verbatim>\<open>refmodel/tree.rs\<close>: the in-memory tree of the reference model, an ordered map from keys to
  version chains. A chain is kept in LSN order by binary search and holds at most 100 versions.
\<close>

section \<open>Versions and chains\<close>

record versioned_value =
  vv_value :: bytes
  vv_lsn :: lsn
  vv_is_tombstone :: bool

definition versioned_value_new :: "bytes \<Rightarrow> lsn \<Rightarrow> versioned_value" where
  "versioned_value_new v l = \<lparr>vv_value = v, vv_lsn = l, vv_is_tombstone = False\<rparr>"

definition versioned_value_tombstone :: "lsn \<Rightarrow> versioned_value" where
  "versioned_value_tombstone l = \<lparr>vv_value = [], vv_lsn = l, vv_is_tombstone = True\<rparr>"

definition version_is_visible :: "versioned_value \<Rightarrow> lsn \<Rightarrow> bool" where
  "version_is_visible v snapshot_lsn \<longleftrightarrow> vv_lsn v \<le> snapshot_lsn"

type_synonym version_chain = "versioned_value list"

definition add_version :: "version_chain \<Rightarrow> versioned_value \<Rightarrow> version_chain" where
  "add_version c version =
     (let pos = search_pos (binary_search_by (\<lambda>v. cmp (vv_lsn v) (vv_lsn version)) c);
          c' = vec_insert pos version c
      in if 100 < length c' then vec_remove 0 c' else c')"

definition chain_resolve :: "version_chain \<Rightarrow> lsn \<Rightarrow> versioned_value option" where
  "chain_resolve c snapshot_lsn = List.find (\<lambda>v. version_is_visible v snapshot_lsn) (rev c)"

definition chain_latest :: "version_chain \<Rightarrow> versioned_value option" where
  "chain_latest c = (if c = [] then None else Some (last c))"

definition chain_delete :: "version_chain \<Rightarrow> lsn \<Rightarrow> version_chain" where
  "chain_delete c l = add_version c (versioned_value_tombstone l)"

section \<open>The tree\<close>

type_synonym ref_tree = "(bytes \<times> version_chain) list"

definition ref_tree_new :: ref_tree where "ref_tree_new = []"

definition live_value :: "version_chain \<Rightarrow> bytes option" where
  "live_value c =
     (case chain_latest c of
        None \<Rightarrow> None
      | Some v \<Rightarrow> if vv_is_tombstone v then None else Some (vv_value v))"

definition ref_tree_get :: "ref_tree \<Rightarrow> bytes \<Rightarrow> bytes option" where
  "ref_tree_get t key = Option.bind (map_of t key) live_value"

text \<open>\<open>entry(key).or_default()\<close> followed by an update of the chain.\<close>

definition entry_or_default :: "ref_tree \<Rightarrow> bytes \<Rightarrow> version_chain" where
  "entry_or_default t key = (case map_of t key of None \<Rightarrow> [] | Some c \<Rightarrow> c)"

definition ref_tree_put :: "ref_tree \<Rightarrow> bytes \<Rightarrow> bytes \<Rightarrow> lsn \<Rightarrow> ref_tree" where
  "ref_tree_put t key val l =
     bt_insert key (add_version (entry_or_default t key) (versioned_value_new val l)) t"

definition ref_tree_delete :: "ref_tree \<Rightarrow> bytes \<Rightarrow> ref_tree" where
  "ref_tree_delete t key =
     (case map_of t key of
        None \<Rightarrow> t
      | Some c \<Rightarrow> bt_insert key (chain_delete c (- 1)) t)"

definition ref_tree_keys :: "ref_tree \<Rightarrow> bytes list" where
  "ref_tree_keys t = map fst t"

definition ref_tree_iter :: "ref_tree \<Rightarrow> (bytes \<times> bytes) list" where
  "ref_tree_iter t = List.map_filter (\<lambda>(key, c). map_option (Pair key) (live_value c)) t"

definition ref_tree_range :: "ref_tree \<Rightarrow> bytes \<Rightarrow> bytes \<Rightarrow> (bytes \<times> bytes) list" where
  "ref_tree_range t lo hi = filter (\<lambda>(key, _). lo \<le> key \<and> key < hi) (ref_tree_iter t)"

definition ref_tree_merge :: "ref_tree \<Rightarrow> ref_tree \<Rightarrow> ref_tree" where
  "ref_tree_merge t other =
     foldl (\<lambda>t (key, c). bt_insert key (foldl add_version (entry_or_default t key) c) t) t other"

text \<open>
  \<open>compute_hash\<close> feeds the live entries in key order to the hasher; the algorithm of
  \<open>DefaultHasher\<close> is unspecified, so the function from what is fed to the digest is a parameter.
\<close>

definition hash_input :: "ref_tree \<Rightarrow> (bytes \<times> bytes \<times> u64) list" where
  "hash_input t =
     List.map_filter (\<lambda>(key, c).
       case chain_latest c of
         None \<Rightarrow> None
       | Some v \<Rightarrow> if vv_is_tombstone v then None else Some (key, vv_value v, vv_lsn v)) t"

definition compute_hash :: "((bytes \<times> bytes \<times> u64) list \<Rightarrow> u64) \<Rightarrow> ref_tree \<Rightarrow> u64" where
  "compute_hash hasher t = hasher (hash_input t)"

section \<open>Chains stay in LSN order\<close>

definition chain_inv :: "version_chain \<Rightarrow> bool" where
  "chain_inv c \<longleftrightarrow> sorted (map vv_lsn c) \<and> length c \<le> 100"

lemma chain_search_sorted:
  assumes "sorted (map vv_lsn c)"
  shows "search_sorted (\<lambda>v. cmp (vv_lsn v) l) c"
proof -
  have le: "i \<le> j \<Longrightarrow> j < length c \<Longrightarrow> vv_lsn (c ! i) \<le> vv_lsn (c ! j)" for i j
    using sorted_nth_mono [OF assms, of i j] by simp
  show ?thesis
    unfolding search_sorted_def cmp_simps by (blast dest: le intro: less_le_trans le_less_trans)
qed

lemma sorted_vec_insert:
  assumes "sorted (map key xs)" "i \<le> length xs"
    and "\<And>j. j < i \<Longrightarrow> key (xs ! j) \<le> key x" "\<And>j. i \<le> j \<Longrightarrow> j < length xs \<Longrightarrow> key x \<le> key (xs ! j)"
  shows "sorted (map key (vec_insert i x xs))"
proof -
  have "sorted (map key (take i xs))" "sorted (map key (drop i xs))"
    using assms(1) by (simp_all add: take_map [symmetric] drop_map [symmetric] sorted_wrt_take sorted_wrt_drop)
  moreover have "\<forall>y \<in> set (take i xs). key y \<le> key x" "\<forall>y \<in> set (drop i xs). key x \<le> key y"
    using assms(2-4) by (auto simp: in_set_conv_nth)
  ultimately show ?thesis
    by (fastforce simp: vec_insert_def sorted_append)
qed

lemma add_version_sorted:
  assumes "sorted (map vv_lsn c)"
  shows "sorted (map vv_lsn (add_version c v))"
proof -
  let ?f = "\<lambda>w. cmp (vv_lsn w) (vv_lsn v)"
  note so = chain_search_sorted [OF assms, of "vv_lsn v"]
  have mono: "i \<le> j \<Longrightarrow> j < length c \<Longrightarrow> vv_lsn (c ! i) \<le> vv_lsn (c ! j)" for i j
    using sorted_nth_mono [OF assms, of i j] by simp
  have "sorted (map vv_lsn (vec_insert (search_pos (binary_search_by ?f c)) v c))"
  proof (cases "binary_search_by ?f c")
    case (Found i)
    with binary_search_by_Found [OF Found so] show ?thesis
      using mono [of _ i] mono [of i] by (intro sorted_vec_insert [OF assms]) auto
  next
    case (NotFound i)
    with binary_search_by_NotFound [OF NotFound so] show ?thesis
      by (intro sorted_vec_insert [OF assms]) (auto intro: less_imp_le)
  qed
  then show ?thesis
    by (cases "vec_insert (search_pos (binary_search_by ?f c)) v c")
      (auto simp: add_version_def Let_def vec_remove_def)
qed

lemma add_version_inv [inv_rules]: "chain_inv c \<Longrightarrow> chain_inv (add_version c v)"
  using add_version_sorted [of c v] by (auto simp: chain_inv_def add_version_def Let_def)

lemma add_version_nonempty: "add_version c v \<noteq> []"
proof -
  have "0 < length (add_version c v)" by (simp add: add_version_def Let_def del: length_greater_0_conv)
  then show ?thesis by (rule length_greater_0_conv [THEN iffD1])
qed

lemma set_add_version: "set (add_version c v) \<subseteq> insert v (set c)"
  by (simp add: add_version_def Let_def order_trans [OF set_vec_remove_subset])

text \<open>A version above every other goes to the end; one that is not above the newest is hidden by it.\<close>

lemma add_version_newest:
  assumes "sorted (map vv_lsn c)" "\<forall>w \<in> set c. vv_lsn w < vv_lsn v"
  shows "add_version c v = (if 100 \<le> length c then tl c else c) @ [v]"
proof -
  let ?f = "\<lambda>w. cmp (vv_lsn w) (vv_lsn v)"
  note so = chain_search_sorted [OF assms(1), of "vv_lsn v"]
  have "search_pos (binary_search_by ?f c) = length c"
  proof (cases "binary_search_by ?f c")
    case (Found i)
    with binary_search_by_Found [OF Found so] assms(2) show ?thesis by (metis cmp_simps(2) nth_mem less_irrefl)
  next
    case (NotFound i)
    have False if "i < length c"
      using binary_search_by_NotFound(3) [OF NotFound so, of i] that assms(2)
      by (metis cmp_simps(3) nth_mem order.refl order.asym)
    with binary_search_by_NotFound(1) [OF NotFound so] NotFound show ?thesis by fastforce
  qed
  then show ?thesis
    by (cases c) (auto simp: add_version_def Let_def vec_insert_def vec_remove_def)
qed

lemma last_vec_insert: "i < length xs \<Longrightarrow> last (vec_insert i x xs) = last xs"
  by (auto simp: vec_insert_def)

lemma add_version_hidden:
  assumes "sorted (map vv_lsn c)" "c \<noteq> []" "vv_lsn v \<le> vv_lsn (last c)"
  shows "last (add_version c v) = last c"
proof -
  let ?f = "\<lambda>w. cmp (vv_lsn w) (vv_lsn v)"
  let ?p = "search_pos (binary_search_by ?f c)"
  note so = chain_search_sorted [OF assms(1), of "vv_lsn v"]
  have "?p < length c"
  proof (cases "binary_search_by ?f c")
    case (Found i)
    with binary_search_by_Found [OF Found so] show ?thesis by simp
  next
    case (NotFound i)
    have "i \<noteq> length c"
      using binary_search_by_NotFound(2) [OF NotFound so, of "length c - 1"] assms(2,3)
      by (auto simp: last_conv_nth)
    with binary_search_by_NotFound(1) [OF NotFound so] NotFound show ?thesis by simp
  qed
  then have "last (vec_insert ?p v c) = last c" "length (vec_insert ?p v c) = Suc (length c)"
    by (simp_all add: last_vec_insert)
  then show ?thesis
    using assms(2) by (cases "vec_insert ?p v c") (auto simp: add_version_def Let_def vec_remove_def split: if_splits)
qed

lemma sorted_last_max:
  "sorted (map vv_lsn c) \<Longrightarrow> c \<noteq> [] \<Longrightarrow> w \<in> set c \<Longrightarrow> vv_lsn w \<le> vv_lsn (last c)"
  by (induction c rule: rev_induct) (auto simp: sorted_append)

lemma chain_latest_add_version:
  assumes "sorted (map vv_lsn c)"
  shows "chain_latest (add_version c v)
    = (if c = [] \<or> vv_lsn (last c) < vv_lsn v then Some v else chain_latest c)"
proof (cases "c = [] \<or> vv_lsn (last c) < vv_lsn v")
  case True
  then have "\<forall>w \<in> set c. vv_lsn w < vv_lsn v"
    using sorted_last_max [OF assms] by fastforce
  with True show ?thesis
    by (simp add: chain_latest_def add_version_newest [OF assms])
next
  case False
  then have "last (add_version c v) = last c" by (intro add_version_hidden [OF assms]) auto
  with False show ?thesis by (simp add: chain_latest_def add_version_nonempty)
qed

lemma chain_latest_add_hidden:
  assumes "sorted (map vv_lsn c)" "chain_latest c = Some w" "vv_lsn v \<le> vv_lsn w"
  shows "chain_latest (add_version c v) = Some w"
proof -
  have "c \<noteq> []" "last c = w" using assms(2) by (auto simp: chain_latest_def split: if_splits)
  with assms show ?thesis by (simp add: chain_latest_add_version not_less)
qed

section \<open>Reading at a snapshot\<close>

lemma find_rev_snoc: "List.find P (rev (xs @ [x])) = (if P x then Some x else List.find P (rev xs))"
  by simp

lemma chain_resolve_newest:
  assumes "sorted (map vv_lsn c)" "\<forall>w \<in> set c. vv_lsn w < vv_lsn v"
  shows "chain_resolve (add_version c v) s =
    (if vv_lsn v \<le> s then Some v else chain_resolve (if 100 \<le> length c then tl c else c) s)"
  unfolding chain_resolve_def add_version_newest [OF assms]
  by (simp add: version_is_visible_def)

text \<open>In an ordered chain \<open>resolve\<close> finds a version of the largest LSN that the snapshot admits.\<close>

lemma chain_resolve_max:
  assumes "sorted (map vv_lsn c)"
  shows "chain_resolve c s = Some v \<Longrightarrow>
      v \<in> set c \<and> vv_lsn v \<le> s \<and> (\<forall>w \<in> set c. vv_lsn w \<le> s \<longrightarrow> vv_lsn w \<le> vv_lsn v)"
    and "chain_resolve c s = None \<longleftrightarrow> (\<forall>w \<in> set c. s < vv_lsn w)"
  using assms
  by (induction c rule: rev_induct)
    (auto simp: chain_resolve_def version_is_visible_def sorted_append split: if_splits)

section \<open>The tree as a map\<close>

text \<open>
  Between two commits every version has an LSN below the one the next commit uses, or is a
  tombstone with the largest LSN, as \<open>delete\<close> writes it.
\<close>

definition version_below :: "lsn \<Rightarrow> versioned_value \<Rightarrow> bool" where
  "version_below l v \<longleftrightarrow> (if vv_is_tombstone v then vv_lsn v = - 1 else vv_lsn v < l)"

definition ref_tree_inv :: "lsn \<Rightarrow> ref_tree \<Rightarrow> bool" where
  "ref_tree_inv l t \<longleftrightarrow> ascending fst t \<and>
     (\<forall>(key, c) \<in> set t. c \<noteq> [] \<and> chain_inv c \<and> (\<forall>v \<in> set c. version_below l v))"

lemma set_bt_insert_subset: "set (bt_insert k v m) \<subseteq> insert (k, v) (set m)"
  by (induction m) (auto split: ordering.splits)

lemma ref_tree_inv_insert:
  assumes "ref_tree_inv l t" "c \<noteq> []" "chain_inv c" "\<forall>v \<in> set c. version_below l v"
  shows "ref_tree_inv l (bt_insert key c t)"
  using assms set_bt_insert_subset [of key c t] bt_insert_ascending [of t key c]
  by (fastforce simp: ref_tree_inv_def)

lemma ref_tree_inv_entry:
  assumes "ref_tree_inv l t"
  shows "chain_inv (entry_or_default t key) \<and> (\<forall>v \<in> set (entry_or_default t key). version_below l v)"
proof (cases "map_of t key")
  case None
  then show ?thesis by (simp add: entry_or_default_def chain_inv_def)
next
  case (Some c)
  then have "(key, c) \<in> set t" by (rule map_of_SomeD)
  with assms Some show ?thesis by (auto simp: ref_tree_inv_def entry_or_default_def)
qed

lemma ref_tree_inv_mono:
  assumes "ref_tree_inv l t" "l \<le> l'"
  shows "ref_tree_inv l' t"
  using assms by (fastforce simp: ref_tree_inv_def version_below_def)

text \<open>A key whose newest version is the tombstone of a delete.\<close>

definition dead_key :: "ref_tree \<Rightarrow> bytes \<Rightarrow> bool" where
  "dead_key t key \<longleftrightarrow> (\<exists>v. chain_latest (entry_or_default t key) = Some v \<and> vv_is_tombstone v)"

lemma ref_tree_get_entry: "ref_tree_get t key = live_value (entry_or_default t key)"
  by (simp add: ref_tree_get_def entry_or_default_def live_value_def chain_latest_def split: option.splits)

lemma dead_key_get: "dead_key t key \<Longrightarrow> ref_tree_get t key = None"
  by (auto simp: dead_key_def ref_tree_get_entry live_value_def)

lemma entry_bt_insert:
  "ascending fst t \<Longrightarrow> entry_or_default (bt_insert key c t) k = (if k = key then c else entry_or_default t k)"
  by (simp add: entry_or_default_def map_of_bt_insert)

lemma ref_tree_put_inv [inv_rules]:
  assumes "ref_tree_inv l' t" "l < l'"
  shows "ref_tree_inv l' (ref_tree_put t key val l)"
  unfolding ref_tree_put_def
  using ref_tree_inv_entry [OF assms(1), of key] set_add_version assms(2)
  by (intro ref_tree_inv_insert [OF assms(1)] add_version_nonempty add_version_inv)
    (auto simp: version_below_def versioned_value_new_def dest!: subsetD [OF set_add_version] split: if_splits)

lemma ref_tree_delete_inv [inv_rules]:
  assumes "ref_tree_inv l t"
  shows "ref_tree_inv l (ref_tree_delete t key)"
proof (cases "map_of t key")
  case None
  with assms show ?thesis by (simp add: ref_tree_delete_def)
next
  case (Some c)
  with ref_tree_inv_entry [OF assms, of key] have c: "chain_inv c" "\<forall>v \<in> set c. version_below l v"
    by (simp_all add: entry_or_default_def)
  have "version_below l v" if "v \<in> set (chain_delete c (- 1))" for v
    using subsetD [OF set_add_version that [unfolded chain_delete_def]] c(2)
    by (auto simp: version_below_def versioned_value_tombstone_def)
  with Some c(1) show ?thesis
    by (simp add: ref_tree_delete_def ref_tree_inv_insert [OF assms] chain_delete_def add_version_nonempty add_version_inv)
qed

lemma not_less_max_word: "\<not> (- 1 :: 'a::len word) < w"
  by (simp add: word_less_nat_alt unat_minus_one not_less unat_less less_Suc_eq_le [symmetric])

text \<open>A put shows unless the key is dead, in which case the tombstone hides it.\<close>

lemma ref_tree_put_get:
  assumes "ascending fst t" "chain_inv (entry_or_default t key)"
    and "\<forall>v \<in> set (entry_or_default t key). version_below l v"
  shows "ref_tree_get (ref_tree_put t key val l) k =
    (if k \<noteq> key then ref_tree_get t k else if dead_key t key then None else Some val)"
proof -
  let ?c = "entry_or_default t key"
  have so: "sorted (map vv_lsn ?c)" using assms(2) by (simp add: chain_inv_def)
  have "?c = [] \<or> vv_lsn (last ?c) < l \<longleftrightarrow> \<not> dead_key t key"
    using assms(3) by (auto simp: dead_key_def chain_latest_def version_below_def not_less_max_word)
  then have "live_value (add_version ?c (versioned_value_new val l)) = (if dead_key t key then None else Some val)"
    using chain_latest_add_version [OF so, of "versioned_value_new val l"]
    by (auto simp: live_value_def versioned_value_new_def dead_key_def)
  then show ?thesis
    by (simp add: ref_tree_get_entry ref_tree_put_def entry_bt_insert [OF assms(1)])
qed

lemma chain_delete_latest:
  assumes "sorted (map vv_lsn c)" "\<forall>v \<in> set c. version_below l v"
  shows "\<exists>v. chain_latest (chain_delete c (- 1)) = Some v \<and> vv_is_tombstone v"
proof -
  have "c \<noteq> [] \<Longrightarrow> \<not> vv_lsn (last c) < - 1 \<Longrightarrow> vv_is_tombstone (last c)"
    using assms(2) by (auto simp: version_below_def not_less_max_word dest: order_less_le_trans split: if_splits)
  then show ?thesis
    using chain_latest_add_version [OF assms(1), of "versioned_value_tombstone (- 1)"]
    by (auto simp: chain_delete_def chain_latest_def versioned_value_tombstone_def)
qed

lemma dead_key_delete:
  assumes "ref_tree_inv l t"
  shows "dead_key (ref_tree_delete t key) k \<longleftrightarrow> dead_key t k \<or> (k = key \<and> map_of t key \<noteq> None)"
proof (cases "map_of t key")
  case None
  then show ?thesis by (simp add: ref_tree_delete_def)
next
  case (Some c)
  have asc: "ascending fst t" using assms by (simp add: ref_tree_inv_def)
  have "\<exists>v. chain_latest (chain_delete c (- 1)) = Some v \<and> vv_is_tombstone v"
    using ref_tree_inv_entry [OF assms, of key] Some
    by (intro chain_delete_latest) (auto simp: entry_or_default_def chain_inv_def)
  with Some show ?thesis
    by (simp add: dead_key_def ref_tree_delete_def entry_bt_insert [OF asc])
qed

lemma ref_tree_delete_get:
  assumes "ref_tree_inv l t"
  shows "ref_tree_get (ref_tree_delete t key) k = (if k = key then None else ref_tree_get t k)"
proof (cases "map_of t key")
  case None
  then show ?thesis by (simp add: ref_tree_delete_def ref_tree_get_def)
next
  case (Some c)
  then have "dead_key (ref_tree_delete t key) key" by (simp add: dead_key_delete [OF assms])
  moreover have "ascending fst t" using assms by (simp add: ref_tree_inv_def)
  ultimately show ?thesis
    using Some dead_key_get [of "ref_tree_delete t key" key]
    by (simp add: ref_tree_get_def ref_tree_delete_def map_of_bt_insert)
qed

lemma dead_key_put:
  assumes "ascending fst t" "chain_inv (entry_or_default t key)"
    and "\<forall>v \<in> set (entry_or_default t key). version_below l v"
  shows "dead_key (ref_tree_put t key val l) k \<longleftrightarrow> dead_key t k"
proof (cases "k = key")
  case True
  let ?c = "entry_or_default t key"
  have so: "sorted (map vv_lsn ?c)" using assms(2) by (simp add: chain_inv_def)
  have "dead_key t key \<Longrightarrow> ?c \<noteq> [] \<and> \<not> vv_lsn (last ?c) < l"
    using assms(3) by (auto simp: dead_key_def chain_latest_def version_below_def not_less_max_word split: if_splits)
  then show ?thesis
    using True chain_latest_add_version [OF so, of "versioned_value_new val l"]
    by (auto simp: dead_key_def ref_tree_put_def entry_bt_insert [OF assms(1)] versioned_value_new_def)
next
  case False
  then show ?thesis by (simp add: dead_key_def ref_tree_put_def entry_bt_insert [OF assms(1)])
qed

section \<open>Iteration\<close>

lemma ref_tree_iter_Cons:
  "ref_tree_iter ((key, c) # t) =
     (case live_value c of None \<Rightarrow> ref_tree_iter t | Some v \<Rightarrow> (key, v) # ref_tree_iter t)"
  by (simp add: ref_tree_iter_def map_filter_simps split: option.splits)

lemma ref_tree_iter_keys: "x \<in> set (ref_tree_iter t) \<Longrightarrow> fst x \<in> fst ` set t"
  by (force simp: ref_tree_iter_def map_filter_def split: prod.splits)

lemma ref_tree_iter_get:
  assumes "ascending fst t"
  shows "ascending fst (ref_tree_iter t) \<and> map_of (ref_tree_iter t) = ref_tree_get t"
  using assms
proof (induction t)
  case Nil
  then show ?case by (simp add: ref_tree_iter_def map_filter_simps ref_tree_get_def fun_eq_iff)
next
  case (Cons e t)
  obtain key c where e: "e = (key, c)" by (cases e)
  have less: "key < fst x" if "x \<in> set (ref_tree_iter t)" for x
    using Cons.prems ref_tree_iter_keys [OF that] by (auto simp: e)
  then have "map_of (ref_tree_iter t) key = None"
    by (fastforce simp: map_of_eq_None_iff)
  with Cons less show ?case
    by (auto simp: e ref_tree_iter_Cons ref_tree_get_def fun_eq_iff split: option.splits)
qed

end
