(* ===== verification/Ref_Model.thy ===== *)
theory Ref_Model
  imports Ref_Tree Errors
begin

text \<open>
  \<^verbatim>\<open>refmodel/ops.rs\<close>, \<^verbatim>\<open>refmodel/snapshot.rs\<close> and \<^verbatim>\<open>refmodel/mod.rs\<close>: pending transactions, the registry of
  snapshots and the reference model that ties them to the tree. A \<open>HashMap\<close> keyed by LSN is
  kept as the list of its entries in ascending order; no operation here depends on the order in
  which the hash map is walked. An operation that changes the state before it fails returns the
  new state beside the error.
\<close>

section \<open>Pending transactions\<close>

datatype pending_mutation = PendingPut bytes bytes | PendingDelete bytes

fun pending_key :: "pending_mutation \<Rightarrow> bytes" where
  "pending_key (PendingPut k v) = k"
| "pending_key (PendingDelete k) = k"

fun pending_value :: "pending_mutation \<Rightarrow> bytes option" where
  "pending_value (PendingPut k v) = Some v"
| "pending_value (PendingDelete k) = None"

definition affects_key :: "pending_mutation \<Rightarrow> bytes \<Rightarrow> bool" where
  "affects_key m key \<longleftrightarrow> pending_key m = key"

record pending_txn =
  pt_id :: txn_id
  pt_mutations :: "pending_mutation list"
  pt_start_lsn :: lsn
  pt_committed :: bool

definition pending_txn_new :: "txn_id \<Rightarrow> lsn \<Rightarrow> pending_txn" where
  "pending_txn_new i start = \<lparr>pt_id = i, pt_mutations = [], pt_start_lsn = start, pt_committed = False\<rparr>"

definition add_put :: "pending_txn \<Rightarrow> bytes \<Rightarrow> bytes \<Rightarrow> pending_txn" where
  "add_put t key val = t\<lparr>pt_mutations := pt_mutations t @ [PendingPut key val]\<rparr>"

definition add_delete :: "pending_txn \<Rightarrow> bytes \<Rightarrow> pending_txn" where
  "add_delete t key = t\<lparr>pt_mutations := pt_mutations t @ [PendingDelete key]\<rparr>"

definition get_pending :: "pending_txn \<Rightarrow> bytes \<Rightarrow> bytes option option" where
  "get_pending t key =
     map_option pending_value (List.find (\<lambda>m. affects_key m key) (rev (pt_mutations t)))"

record txn_manager =
  tm_active_transactions :: "pending_txn list"
  tm_next_txn_id :: txn_id

definition txn_manager_new :: txn_manager where
  "txn_manager_new = \<lparr>tm_active_transactions = [], tm_next_txn_id = TXN_FIRST\<rparr>"

definition txn_manager_begin :: "txn_manager \<Rightarrow> lsn \<Rightarrow> txn_manager \<times> txn_id" where
  "txn_manager_begin mgr current_lsn =
     (let i = tm_next_txn_id mgr in
      (\<lparr>tm_active_transactions = tm_active_transactions mgr @ [pending_txn_new i current_lsn],
        tm_next_txn_id = (case txn_next i of Some n \<Rightarrow> n | None \<Rightarrow> i)\<rparr>, i))"

definition txn_not_found :: "txn_id \<Rightarrow> error" where
  "txn_not_found i = Transaction (TransactionGeneric (''Transaction '' @ fmt i @ '' not found''))"

definition txn_already_committed :: "txn_id \<Rightarrow> error" where
  "txn_already_committed i = Transaction (TransactionGeneric (''Transaction '' @ fmt i @ '' already committed''))"

definition get_txn :: "txn_manager \<Rightarrow> txn_id \<Rightarrow> pending_txn outcome" where
  "get_txn mgr i = ok_or (List.find (\<lambda>t. pt_id t = i) (tm_active_transactions mgr)) (txn_not_found i)"

text \<open>\<open>get_txn_mut\<close> borrows the first transaction with the id; the update is written back there.\<close>

fun update_first :: "('a \<Rightarrow> bool) \<Rightarrow> ('a \<Rightarrow> 'a) \<Rightarrow> 'a list \<Rightarrow> 'a list" where
  "update_first P f [] = []"
| "update_first P f (x # xs) = (if P x then f x # xs else x # update_first P f xs)"

definition with_open_txn :: "txn_manager \<Rightarrow> txn_id \<Rightarrow> (pending_txn \<Rightarrow> pending_txn) \<Rightarrow> txn_manager outcome" where
  "with_open_txn mgr i f =
     and_then (get_txn mgr i) (\<lambda>t.
       if pt_committed t then Err (txn_already_committed i)
       else Ok (mgr\<lparr>tm_active_transactions :=
                 update_first (\<lambda>t. pt_id t = i) f (tm_active_transactions mgr)\<rparr>))"

definition txn_manager_put :: "txn_manager \<Rightarrow> txn_id \<Rightarrow> bytes \<Rightarrow> bytes \<Rightarrow> txn_manager outcome" where
  "txn_manager_put mgr i key val = with_open_txn mgr i (\<lambda>t. add_put t key val)"

definition txn_manager_delete :: "txn_manager \<Rightarrow> txn_id \<Rightarrow> bytes \<Rightarrow> txn_manager outcome" where
  "txn_manager_delete mgr i key = with_open_txn mgr i (\<lambda>t. add_delete t key)"

definition txn_manager_commit :: "txn_manager \<Rightarrow> txn_id \<Rightarrow> txn_manager outcome" where
  "txn_manager_commit mgr i = with_open_txn mgr i (\<lambda>t. t\<lparr>pt_committed := True\<rparr>)"

fun remove_first :: "('a \<Rightarrow> bool) \<Rightarrow> 'a list \<Rightarrow> 'a list" where
  "remove_first P [] = []"
| "remove_first P (x # xs) = (if P x then xs else x # remove_first P xs)"

definition txn_manager_rollback :: "txn_manager \<Rightarrow> txn_id \<Rightarrow> txn_manager outcome" where
  "txn_manager_rollback mgr i =
     and_then (get_txn mgr i) (\<lambda>t.
       if pt_committed t then Err (txn_already_committed i)
       else Ok (mgr\<lparr>tm_active_transactions := remove_first (\<lambda>t. pt_id t = i) (tm_active_transactions mgr)\<rparr>))"

definition txn_manager_cleanup :: "txn_manager \<Rightarrow> txn_manager" where
  "txn_manager_cleanup mgr =
     mgr\<lparr>tm_active_transactions := filter (\<lambda>t. \<not> pt_committed t) (tm_active_transactions mgr)\<rparr>"

definition active_txn_ids :: "txn_manager \<Rightarrow> txn_id list" where
  "active_txn_ids mgr = map pt_id (filter (\<lambda>t. \<not> pt_committed t) (tm_active_transactions mgr))"

section \<open>Snapshots\<close>

record snapshot_registry =
  sr_snapshots :: "(lsn \<times> ref_tree) list"
  sr_max_snapshots :: nat

definition snapshot_registry_new :: snapshot_registry where
  "snapshot_registry_new = \<lparr>sr_snapshots = [], sr_max_snapshots = 100\<rparr>"

definition with_max_snapshots :: "snapshot_registry \<Rightarrow> nat \<Rightarrow> snapshot_registry" where
  "with_max_snapshots r mx = r\<lparr>sr_max_snapshots := mx\<rparr>"

text \<open>The loop that removes the oldest snapshot while there are too many.\<close>

function prune_snapshots :: "nat \<Rightarrow> (lsn \<times> ref_tree) list \<Rightarrow> (lsn \<times> ref_tree) list" where
  "prune_snapshots mx s =
     (if mx < length s then prune_snapshots mx (bt_remove (min_list (map fst s)) s) else s)"
  by auto

termination prune_snapshots
proof (relation "measure (\<lambda>(mx, s). length s)")
  fix mx and s :: "(lsn \<times> ref_tree) list"
  assume "mx < length s"
  then have "map fst s \<noteq> []" by auto
  then have "min_list (map fst s) \<in> fst ` set s"
    using Min_in [of "set (map fst s)"] by (simp add: min_list_Min)
  then obtain x where "x \<in> set s" "fst x = min_list (map fst s)" by force
  then show "((mx, bt_remove (min_list (map fst s)) s), (mx, s)) \<in> measure (\<lambda>(mx, s). length s)"
    unfolding bt_remove_def in_measure split_conv by (intro length_filter_less) auto
qed simp

declare prune_snapshots.simps [simp del]

definition add_snapshot :: "snapshot_registry \<Rightarrow> lsn \<Rightarrow> ref_tree \<Rightarrow> snapshot_registry" where
  "add_snapshot r l state =
     r\<lparr>sr_snapshots := prune_snapshots (sr_max_snapshots r) (bt_insert l state (sr_snapshots r))\<rparr>"

definition get_state_at :: "snapshot_registry \<Rightarrow> lsn \<Rightarrow> ref_tree option" where
  "get_state_at r l = map_of (sr_snapshots r) l"

definition remove_snapshot :: "snapshot_registry \<Rightarrow> lsn \<Rightarrow> snapshot_registry \<times> ref_tree option" where
  "remove_snapshot r l = (r\<lparr>sr_snapshots := bt_remove l (sr_snapshots r)\<rparr>, map_of (sr_snapshots r) l)"

definition snapshot_lsns :: "snapshot_registry \<Rightarrow> lsn list" where
  "snapshot_lsns r = sort (map fst (sr_snapshots r))"

fun max_by_lsn :: "(lsn \<times> ref_tree) list \<Rightarrow> (lsn \<times> ref_tree) option" where
  "max_by_lsn [] = None"
| "max_by_lsn (e # s) =
     (case max_by_lsn s of None \<Rightarrow> Some e | Some b \<Rightarrow> Some (if fst e \<le> fst b then b else e))"

fun min_by_lsn :: "(lsn \<times> ref_tree) list \<Rightarrow> (lsn \<times> ref_tree) option" where
  "min_by_lsn [] = None"
| "min_by_lsn (e # s) =
     (case min_by_lsn s of None \<Rightarrow> Some e | Some b \<Rightarrow> Some (if fst b < fst e then b else e))"

definition latest_snapshot :: "snapshot_registry \<Rightarrow> (lsn \<times> ref_tree) option" where
  "latest_snapshot r = max_by_lsn (sr_snapshots r)"

definition oldest_snapshot :: "snapshot_registry \<Rightarrow> (lsn \<times> ref_tree) option" where
  "oldest_snapshot r = min_by_lsn (sr_snapshots r)"

definition snapshot_registry_merge :: "snapshot_registry \<Rightarrow> snapshot_registry \<Rightarrow> snapshot_registry" where
  "snapshot_registry_merge r other =
     r\<lparr>sr_snapshots := prune_snapshots (sr_max_snapshots r)
         (foldl (\<lambda>s (l, state). case map_of s l of None \<Rightarrow> bt_insert l state s | Some _ \<Rightarrow> s)
            (sr_snapshots r) (sr_snapshots other))\<rparr>"

section \<open>The reference model\<close>

record ref_model =
  rm_tree :: ref_tree
  rm_snapshots :: snapshot_registry
  rm_transactions :: txn_manager
  rm_lsn :: lsn

definition ref_model_new :: ref_model where
  "ref_model_new =
     \<lparr>rm_tree = ref_tree_new, rm_snapshots = snapshot_registry_new,
      rm_transactions = txn_manager_new, rm_lsn = LSN_INITIAL\<rparr>"

definition ref_get :: "ref_model \<Rightarrow> bytes \<Rightarrow> bytes option" where
  "ref_get m key = ref_tree_get (rm_tree m) key"

definition ref_get_at :: "ref_model \<Rightarrow> bytes \<Rightarrow> lsn \<Rightarrow> bytes option" where
  "ref_get_at m key l =
     (case get_state_at (rm_snapshots m) l of Some s \<Rightarrow> ref_tree_get s key | None \<Rightarrow> None)"

definition ref_begin_txn :: "ref_model \<Rightarrow> ref_model \<times> txn_id" where
  "ref_begin_txn m =
     (let (mgr, i) = txn_manager_begin (rm_transactions m) (rm_lsn m) in (m\<lparr>rm_transactions := mgr\<rparr>, i))"

definition ref_put :: "ref_model \<Rightarrow> txn_id \<Rightarrow> bytes \<Rightarrow> bytes \<Rightarrow> ref_model outcome" where
  "ref_put m i key val =
     and_then (txn_manager_put (rm_transactions m) i key val) (\<lambda>mgr. Ok (m\<lparr>rm_transactions := mgr\<rparr>))"

definition ref_delete :: "ref_model \<Rightarrow> txn_id \<Rightarrow> bytes \<Rightarrow> ref_model outcome" where
  "ref_delete m i key =
     and_then (txn_manager_delete (rm_transactions m) i key) (\<lambda>mgr. Ok (m\<lparr>rm_transactions := mgr\<rparr>))"

fun apply_to_tree :: "lsn \<Rightarrow> ref_tree \<Rightarrow> pending_mutation \<Rightarrow> ref_tree" where
  "apply_to_tree l t (PendingPut key val) = ref_tree_put t key val l"
| "apply_to_tree l t (PendingDelete key) = ref_tree_delete t key"

text \<open>The state is changed before the transaction manager may refuse, so both results are returned.\<close>

definition ref_commit :: "ref_model \<Rightarrow> txn_id \<Rightarrow> ref_model \<times> unit outcome" where
  "ref_commit m i =
     (case get_txn (rm_transactions m) i of
        Ok txn \<Rightarrow>
          (let m1 = m\<lparr>rm_tree := foldl (apply_to_tree (rm_lsn m)) (rm_tree m) (pt_mutations txn),
                      rm_lsn := (case lsn_next (rm_lsn m) of Some l \<Rightarrow> l | None \<Rightarrow> rm_lsn m)\<rparr>
           in (case txn_manager_commit (rm_transactions m1) i of
                 Ok mgr \<Rightarrow> (m1\<lparr>rm_transactions := mgr\<rparr>, Ok ())
               | Err e \<Rightarrow> (m1, Err e)
               | Panic \<Rightarrow> (m1, Panic)))
      | Err e \<Rightarrow> (m, Err e)
      | Panic \<Rightarrow> (m, Panic))"

definition ref_rollback :: "ref_model \<Rightarrow> txn_id \<Rightarrow> ref_model outcome" where
  "ref_rollback m i =
     and_then (txn_manager_rollback (rm_transactions m) i) (\<lambda>mgr. Ok (m\<lparr>rm_transactions := mgr\<rparr>))"

definition create_snapshot :: "ref_model \<Rightarrow> ref_model \<times> lsn" where
  "create_snapshot m =
     (m\<lparr>rm_snapshots := add_snapshot (rm_snapshots m) (rm_lsn m) (rm_tree m)\<rparr>, rm_lsn m)"

section \<open>Runs of the model\<close>

inductive ref_step :: "ref_model \<Rightarrow> ref_model \<Rightarrow> bool" where
  begin_txn: "ref_step m (fst (ref_begin_txn m))"
| put: "ref_put m i key val = Ok m' \<Longrightarrow> ref_step m m'"
| delete: "ref_delete m i key = Ok m' \<Longrightarrow> ref_step m m'"
| commit: "ref_step m (fst (ref_commit m i))"
| rollback: "ref_rollback m i = Ok m' \<Longrightarrow> ref_step m m'"
| snapshot: "ref_step m (fst (create_snapshot m))"

definition lsn_advance :: "lsn \<Rightarrow> lsn" where
  "lsn_advance l = (case lsn_next l of Some l' \<Rightarrow> l' | None \<Rightarrow> l)"

lemma lsn_advance_less: "l \<noteq> - 1 \<Longrightarrow> l < lsn_advance l"
  using lsn_next_None [of l] by (auto simp: lsn_advance_def lsn_next_greater split: option.splits)

lemma lsn_advance_le: "l \<le> lsn_advance l"
  by (auto simp: lsn_advance_def split: option.splits dest: lsn_next_greater)

lemma ref_commit_effect:
  assumes "get_txn (rm_transactions m) i = Ok txn"
  shows "rm_tree (fst (ref_commit m i)) = foldl (apply_to_tree (rm_lsn m)) (rm_tree m) (pt_mutations txn)"
    and "rm_lsn (fst (ref_commit m i)) = lsn_advance (rm_lsn m)"
    and "rm_snapshots (fst (ref_commit m i)) = rm_snapshots m"
    and "snd (ref_commit m i) = (if pt_committed txn then Err (txn_already_committed i) else Ok ())"
  using assms by (auto simp: ref_commit_def txn_manager_commit_def with_open_txn_def lsn_advance_def Let_def)

text \<open>What a step does to the tree, the LSN and the snapshots.\<close>

lemma ref_step_effect:
  assumes "ref_step m m'"
  obtains (txns) "rm_tree m' = rm_tree m" "rm_lsn m' = rm_lsn m" "rm_snapshots m' = rm_snapshots m"
  | (commit) ms where "rm_tree m' = foldl (apply_to_tree (rm_lsn m)) (rm_tree m) ms"
      "rm_lsn m' = lsn_advance (rm_lsn m)" "rm_snapshots m' = rm_snapshots m"
  | (snapshot) "rm_tree m' = rm_tree m" "rm_lsn m' = rm_lsn m"
      "rm_snapshots m' = add_snapshot (rm_snapshots m) (rm_lsn m) (rm_tree m)"
  using assms
proof cases
  case (commit i)
  show thesis
  proof (cases "get_txn (rm_transactions m) i")
    case (Ok txn)
    from ref_commit_effect(1-3) [OF Ok] commit show thesis by (intro that(2)) simp_all
  next
    case (Err e)
    with commit show thesis by (intro that(1)) (simp_all add: ref_commit_def)
  next
    case Panic
    with commit show thesis by (intro that(1)) (simp_all add: ref_commit_def)
  qed
next
  case snapshot
  then show thesis by (intro that(3)) (simp_all add: create_snapshot_def)
qed (auto simp: ref_begin_txn_def txn_manager_begin_def Let_def ref_put_def ref_delete_def ref_rollback_def intro: that(1))

section \<open>Committing as a map update\<close>

fun pending_effect :: "(bytes \<rightharpoonup> bytes) \<Rightarrow> pending_mutation \<Rightarrow> (bytes \<rightharpoonup> bytes)" where
  "pending_effect db (PendingPut k v) = db(k \<mapsto> v)"
| "pending_effect db (PendingDelete k) = db(k := None)"

lemma apply_to_tree_inv [inv_rules]:
  "ref_tree_inv l' t \<Longrightarrow> l < l' \<Longrightarrow> ref_tree_inv l' (apply_to_tree l t mu)"
  by (cases mu) (simp_all add: inv_rules)

lemma apply_all_inv [inv_rules]:
  "ref_tree_inv l' t \<Longrightarrow> l < l' \<Longrightarrow> ref_tree_inv l' (foldl (apply_to_tree l) t ms)"
  by (induction ms arbitrary: t) (simp_all add: inv_rules)

lemma apply_to_tree_frame:
  assumes "ascending fst t" "k \<noteq> pending_key mu"
  shows "entry_or_default (apply_to_tree l t mu) k = entry_or_default t k"
  using assms
  by (cases mu) (auto simp: ref_tree_put_def ref_tree_delete_def entry_bt_insert split: option.splits)

lemma commit_as_map:
  assumes "ref_tree_inv l' t" "l < l'" "distinct (map pending_key ms)"
    and "\<And>mu. mu \<in> set ms \<Longrightarrow> \<forall>v \<in> set (entry_or_default t (pending_key mu)). version_below l v"
    and "\<And>k v. PendingPut k v \<in> set ms \<Longrightarrow> \<not> dead_key t k"
  shows "ref_tree_get (foldl (apply_to_tree l) t ms) = foldl pending_effect (ref_tree_get t) ms"
  using assms
proof (induction ms arbitrary: t)
  case Nil
  then show ?case by simp
next
  case (Cons mu ms)
  let ?t = "apply_to_tree l t mu"
  have asc: "ascending fst t" using Cons.prems(1) by (simp add: ref_tree_inv_def)
  have frame: "entry_or_default ?t (pending_key nu) = entry_or_default t (pending_key nu)" if "nu \<in> set ms" for nu
    using Cons.prems(3) that by (intro apply_to_tree_frame [OF asc]) (metis distinct.simps(2) image_eqI list.set_map list.simps(9))
  have "ref_tree_get ?t = pending_effect (ref_tree_get t) mu"
  proof (cases mu)
    case (PendingPut k v)
    then have "\<forall>v \<in> set (entry_or_default t k). version_below l v" "\<not> dead_key t k"
      using Cons.prems(4) [of mu] Cons.prems(5) [of k v] by simp_all
    with PendingPut ref_tree_inv_entry [OF Cons.prems(1), of k] show ?thesis
      by (simp add: fun_eq_iff ref_tree_put_get [OF asc])
  next
    case (PendingDelete k)
    then show ?thesis by (auto simp: fun_eq_iff ref_tree_delete_get [OF Cons.prems(1)])
  qed
  moreover have "ref_tree_get (foldl (apply_to_tree l) ?t ms) = foldl pending_effect (ref_tree_get ?t) ms"
  proof (rule Cons.IH)
    show "ref_tree_inv l' ?t" by (rule apply_to_tree_inv [OF Cons.prems(1,2)])
    show "\<forall>v \<in> set (entry_or_default ?t (pending_key nu)). version_below l v" if "nu \<in> set ms" for nu
      using Cons.prems(4) [of nu] that frame [OF that] by simp
    show "\<not> dead_key ?t k" if "PendingPut k v \<in> set ms" for k v
      using Cons.prems(5) [of k v] that frame [OF that] by (simp add: dead_key_def)
  qed (use Cons.prems in auto)
  ultimately show ?case by simp
qed

section \<open>Pruning snapshots\<close>

lemma min_list_ascending: "ascending fst (e # s) \<Longrightarrow> min_list (map fst (e # s)) = fst e"
  using min_list_Min [of "map fst (e # s)"] by (auto intro!: Min_eqI simp del: min_list.simps)

lemma prune_snapshots_drop:
  assumes "ascending fst s"
  shows "prune_snapshots mx s = drop (length s - mx) s"
  using assms
proof (induction mx s rule: prune_snapshots.induct)
  case (1 mx s)
  show ?case
  proof (cases "mx < length s")
    case True
    then obtain e s' where s: "s = e # s'" by (cases s) auto
    with "1.prems" have "bt_remove (min_list (map fst s)) s = s'"
      unfolding s min_list_ascending [OF "1.prems" [unfolded s]]
      by (auto simp: bt_remove_def intro!: filter_True)
    moreover have "prune_snapshots mx s = prune_snapshots mx (bt_remove (min_list (map fst s)) s)"
      using True by (simp add: prune_snapshots.simps [of mx s])
    ultimately show ?thesis
      using 1 True s by (simp add: Suc_diff_le del: min_list.simps)
  next
    case False
    then show ?thesis by (simp add: prune_snapshots.simps)
  qed
qed

lemma prune_snapshots_small: "length s \<le> mx \<Longrightarrow> prune_snapshots mx s = s"
  by (simp add: prune_snapshots.simps)

lemma map_of_drop_ascending:
  assumes "ascending fst s"
  shows "map_of (drop n s) k = (if k \<in> fst ` set (drop n s) then map_of s k else None)"
proof (cases "map_of (drop n s) k")
  case None
  then show ?thesis by (simp add: map_of_eq_None_iff)
next
  case (Some v)
  then have "(k, v) \<in> set (drop n s)" by (rule map_of_SomeD)
  moreover from this have "(k, v) \<in> set s" by (rule in_set_dropD)
  ultimately show ?thesis
    using Some ascending_distinct [OF assms] by (force simp: map_of_is_SomeI)
qed

definition registry_inv :: "lsn \<Rightarrow> snapshot_registry \<Rightarrow> bool" where
  "registry_inv l r \<longleftrightarrow> ascending fst (sr_snapshots r) \<and> (\<forall>(s, _) \<in> set (sr_snapshots r). s \<le> l) \<and>
     length (sr_snapshots r) \<le> sr_max_snapshots r \<and> 0 < sr_max_snapshots r"

lemma get_state_at_add:
  assumes "ascending fst (sr_snapshots r)"
  shows "get_state_at (add_snapshot r l t) s \<in> {None, if s = l then Some t else get_state_at r s}"
  using assms
  by (simp add: get_state_at_def add_snapshot_def prune_snapshots_drop bt_insert_ascending
      map_of_drop_ascending map_of_bt_insert split: if_splits)

text \<open>The snapshot that was just added has the largest LSN, so pruning keeps it.\<close>

lemma bt_insert_last:
  "\<forall>e \<in> set s. fst e \<le> l \<Longrightarrow> ascending fst s \<Longrightarrow> \<exists>s'. bt_insert l t s = s' @ [(l, t)]"
proof (induction s)
  case Nil
  then show ?case by simp
next
  case (Cons e s)
  then obtain s' where s': "bt_insert l t s = s' @ [(l, t)]" by auto
  show ?case
  proof (cases "fst e = l")
    case True
    with Cons.prems have "s = []" by (cases s) (auto simp: not_less [symmetric])
    with True show ?thesis by (auto split: ordering.splits)
  next
    case False
    with Cons.prems(1) have "fst e < l" by auto
    with s' show ?thesis by (auto simp: cmp_def intro!: exI [of _ "e # s'"])
  qed
qed

lemma add_snapshot_inv [inv_rules]:
  assumes "registry_inv l r"
  shows "registry_inv l (add_snapshot r l t) \<and> get_state_at (add_snapshot r l t) l = Some t"
proof -
  let ?s = "bt_insert l t (sr_snapshots r)" and ?mx = "sr_max_snapshots r"
  have asc: "ascending fst (sr_snapshots r)" and mx: "0 < ?mx" and le: "\<forall>e \<in> set (sr_snapshots r). fst e \<le> l"
    using assms by (auto simp: registry_inv_def)
  obtain s' where s': "?s = s' @ [(l, t)]" using bt_insert_last [OF le asc] by blast
  have asc': "ascending fst ?s" by (rule bt_insert_ascending [OF asc])
  have dropped: "sr_snapshots (add_snapshot r l t) = drop (length ?s - ?mx) ?s"
    by (simp add: add_snapshot_def prune_snapshots_drop [OF asc'])
  have "(l, t) \<in> set (drop (length ?s - ?mx) ?s)"
    using mx by (simp add: s')
  moreover have "ascending fst (drop n ?s)" for n
    using asc' append_take_drop_id [of n ?s] by (metis ascending_append)
  moreover have "\<forall>e \<in> set (drop (length ?s - ?mx) ?s). fst e \<le> l"
    using le set_bt_insert_subset [of l t "sr_snapshots r"] by (auto dest!: in_set_dropD)
  ultimately show ?thesis
    using mx ascending_distinct [of fst "drop (length ?s - ?mx) ?s"]
    by (auto simp: registry_inv_def dropped get_state_at_def map_of_is_SomeI) (auto simp: add_snapshot_def)
qed

lemma registry_inv_mono: "registry_inv l r \<Longrightarrow> l \<le> l' \<Longrightarrow> registry_inv l' r"
  by (auto simp: registry_inv_def)

lemma ref_step_registry:
  "ref_step m m' \<Longrightarrow> registry_inv (rm_lsn m) (rm_snapshots m) \<Longrightarrow> registry_inv (rm_lsn m') (rm_snapshots m')"
  by (erule ref_step_effect) (auto simp: add_snapshot_inv intro: registry_inv_mono lsn_advance_le)

lemma ref_run_registry:
  "ref_step\<^sup>*\<^sup>* ref_model_new m \<Longrightarrow> registry_inv (rm_lsn m) (rm_snapshots m)"
  by (induction rule: rtranclp_induct)
    (auto simp: ref_step_registry, simp add: ref_model_new_def registry_inv_def snapshot_registry_new_def)

section \<open>Dead keys stay dead\<close>

definition ref_tree_sorted :: "ref_tree \<Rightarrow> bool" where
  "ref_tree_sorted t \<longleftrightarrow> ascending fst t \<and> (\<forall>(key, c) \<in> set t. sorted (map vv_lsn c))"

lemma ref_tree_sorted_entry: "ref_tree_sorted t \<Longrightarrow> sorted (map vv_lsn (entry_or_default t key))"
  using map_of_SomeD [of t key] by (fastforce simp: ref_tree_sorted_def entry_or_default_def split: option.splits)

lemma ref_tree_sorted_insert:
  assumes "ref_tree_sorted t" "sorted (map vv_lsn c)"
  shows "ref_tree_sorted (bt_insert key c t)"
  using assms set_bt_insert_subset [of key c t] bt_insert_ascending [of t key c]
  by (fastforce simp: ref_tree_sorted_def)

text \<open>The newest version of the key is a tombstone with the largest LSN there is.\<close>

definition tombstoned :: "ref_tree \<Rightarrow> bytes \<Rightarrow> bool" where
  "tombstoned t key \<longleftrightarrow>
     (\<exists>v. chain_latest (entry_or_default t key) = Some v \<and> vv_is_tombstone v \<and> vv_lsn v = - 1)"

lemma tombstoned_get: "tombstoned t key \<Longrightarrow> ref_tree_get t key = None"
  by (auto simp: tombstoned_def ref_tree_get_entry live_value_def)

lemma apply_to_tree_sorted:
  assumes "ref_tree_sorted t"
  shows "ref_tree_sorted (apply_to_tree l t mu) \<and> (tombstoned t key \<longrightarrow> tombstoned (apply_to_tree l t mu) key)"
proof -
  have asc: "ascending fst t" using assms by (simp add: ref_tree_sorted_def)
  have ins: "ref_tree_sorted (bt_insert k (add_version (entry_or_default t k) v) t)
      \<and> (tombstoned t key \<longrightarrow> tombstoned (bt_insert k (add_version (entry_or_default t k) v) t) key)" for k v
    using ref_tree_sorted_entry [OF assms, of k] ref_tree_sorted_insert [OF assms]
      chain_latest_add_version [of "entry_or_default t k" v]
    by (auto simp: tombstoned_def entry_bt_insert [OF asc] add_version_sorted chain_latest_def not_less_max_word
        split: if_splits)
  show ?thesis
  proof (cases mu)
    case (PendingPut k v)
    with ins [of k] show ?thesis by (simp add: ref_tree_put_def)
  next
    case (PendingDelete k)
    then show ?thesis
      using ins [of k] assms
      by (auto simp: ref_tree_delete_def chain_delete_def entry_or_default_def split: option.splits)
  qed
qed

lemma apply_all_sorted:
  assumes "ref_tree_sorted t"
  shows "ref_tree_sorted (foldl (apply_to_tree l) t ms) \<and>
    (tombstoned t key \<longrightarrow> tombstoned (foldl (apply_to_tree l) t ms) key)"
  using assms by (induction ms arbitrary: t) (auto simp: apply_to_tree_sorted)

lemma ref_run_sorted:
  assumes "ref_step\<^sup>*\<^sup>* m m'" "ref_tree_sorted (rm_tree m)"
  shows "ref_tree_sorted (rm_tree m') \<and> (tombstoned (rm_tree m) key \<longrightarrow> tombstoned (rm_tree m') key)"
  using assms
proof (induction rule: rtranclp_induct)
  case (step m1 m2)
  from step.hyps(2) show ?case
    by (cases rule: ref_step_effect) (use step apply_all_sorted [of "rm_tree m1" _ _ key] in auto)
qed simp

lemma ref_model_new_sorted: "ref_tree_sorted (rm_tree ref_model_new)"
  by (simp add: ref_model_new_def ref_tree_new_def ref_tree_sorted_def)

lemma delete_tombstoned:
  assumes "ref_tree_inv l t" "map_of t key \<noteq> None"
  shows "tombstoned (ref_tree_delete t key) key"
proof -
  have "dead_key (ref_tree_delete t key) key" using dead_key_delete [OF assms(1)] assms(2) by simp
  moreover have "version_below l v" if "chain_latest (entry_or_default (ref_tree_delete t key) key) = Some v" for v
    using ref_tree_inv_entry [OF ref_tree_delete_inv [OF assms(1), of key], of key] that
    by (auto simp: chain_latest_def split: if_splits)
  ultimately show ?thesis by (auto simp: dead_key_def tombstoned_def version_below_def)
qed

section \<open>Invariant of the model\<close>

lemma ref_run_tree_inv:
  assumes "ref_step\<^sup>*\<^sup>* ref_model_new m"
  shows "rm_lsn m \<noteq> - 1 \<Longrightarrow> ref_tree_inv (rm_lsn m) (rm_tree m)"
  using assms
proof (induction rule: rtranclp_induct)
  case base
  then show ?case by (simp add: ref_model_new_def ref_tree_new_def ref_tree_inv_def)
next
  case (step m1 m2)
  from step.hyps(2) show ?case
  proof (cases rule: ref_step_effect)
    case (commit ms)
    with step.prems have "rm_lsn m1 \<noteq> - 1"
      using lsn_next_None [of "- 1"] by (auto simp: lsn_advance_def)
    moreover from this have "rm_lsn m1 < rm_lsn m2" by (simp add: commit lsn_advance_less)
    ultimately show ?thesis
      using step.IH ref_tree_inv_mono [of "rm_lsn m1" "rm_tree m1" "rm_lsn m2"]
      by (simp add: commit(1) apply_all_inv)
  qed (use step in auto)
qed

lemma commit_as_map_run:
  assumes "ref_step\<^sup>*\<^sup>* ref_model_new m" "rm_lsn m \<noteq> - 1" "distinct (map pending_key ms)"
    and "\<And>k v. PendingPut k v \<in> set ms \<Longrightarrow> \<not> dead_key (rm_tree m) k"
  shows "ref_tree_get (foldl (apply_to_tree (rm_lsn m)) (rm_tree m) ms) = foldl pending_effect (ref_get m) ms"
proof -
  note inv = ref_run_tree_inv [OF assms(1,2)]
  have "rm_lsn m < lsn_advance (rm_lsn m)" by (rule lsn_advance_less [OF assms(2)])
  then have "ref_tree_get (foldl (apply_to_tree (rm_lsn m)) (rm_tree m) ms)
      = foldl pending_effect (ref_tree_get (rm_tree m)) ms"
    using ref_tree_inv_entry [OF inv] assms(3,4)
    by (intro commit_as_map [OF ref_tree_inv_mono [OF inv]]) auto
  then show ?thesis by (simp add: ref_get_def [abs_def])
qed

lemma apply_to_tree_keys: "ascending fst t \<Longrightarrow> map_of t key \<noteq> None \<Longrightarrow> map_of (apply_to_tree l t mu) key \<noteq> None"
  by (cases mu) (auto simp: ref_tree_put_def ref_tree_delete_def map_of_bt_insert split: option.splits)

lemma apply_all_deletes:
  assumes "ref_tree_inv l' t" "l < l'" "map_of t key \<noteq> None" "PendingDelete key \<in> set ms"
  shows "tombstoned (foldl (apply_to_tree l) t ms) key"
  using assms
proof (induction ms arbitrary: t)
  case (Cons mu ms)
  let ?t = "apply_to_tree l t mu"
  have asc: "ascending fst t" using Cons.prems(1) by (simp add: ref_tree_inv_def)
  note inv = apply_to_tree_inv [OF Cons.prems(1,2), of mu]
  show ?case
  proof (cases "mu = PendingDelete key")
    case True
    have "ref_tree_sorted ?t" using inv by (fastforce simp: ref_tree_inv_def ref_tree_sorted_def chain_inv_def)
    then show ?thesis
      using True apply_all_sorted [of ?t l ms key] delete_tombstoned [OF Cons.prems(1,3)] by simp
  next
    case False
    then show ?thesis
      using Cons.IH [OF inv Cons.prems(2) apply_to_tree_keys [OF asc Cons.prems(3)]] Cons.prems(4) by simp
  qed
qed simp

text \<open>A snapshot \<open>s\<close> of tree \<open>t\<close>: later steps cannot register another tree under its LSN.\<close>

definition snapshot_kept :: "lsn \<Rightarrow> ref_tree \<Rightarrow> ref_model \<Rightarrow> bool" where
  "snapshot_kept s t m \<longleftrightarrow> s \<le> rm_lsn m \<and> registry_inv (rm_lsn m) (rm_snapshots m) \<and>
     (rm_lsn m = s \<longrightarrow> rm_tree m = t) \<and> get_state_at (rm_snapshots m) s \<in> {None, Some t}"

lemma ref_step_snapshot_kept:
  assumes "ref_step m m'" "s \<noteq> - 1" "snapshot_kept s t m"
  shows "snapshot_kept s t m'"
  using assms(1)
proof (cases rule: ref_step_effect)
  case txns
  with assms(3) show ?thesis by (simp add: snapshot_kept_def)
next
  case (commit ms)
  have "s \<le> rm_lsn m" "registry_inv (rm_lsn m) (rm_snapshots m)" using assms(3) by (simp_all add: snapshot_kept_def)
  then have "s < lsn_advance (rm_lsn m)"
    using assms(2) lsn_advance_less [of "rm_lsn m"] lsn_advance_le [of "rm_lsn m"]
    by (metis order.strict_trans1 order.strict_trans2 order.not_eq_order_implies_strict)
  with assms(3) commit ref_step_registry [OF assms(1)] show ?thesis
    by (auto simp: snapshot_kept_def)
next
  case snapshot
  have "ascending fst (sr_snapshots (rm_snapshots m))" using assms(3) by (simp add: snapshot_kept_def registry_inv_def)
  from get_state_at_add [OF this, of "rm_lsn m" "rm_tree m" s] assms(3) snapshot ref_step_registry [OF assms(1)]
  show ?thesis by (auto simp: snapshot_kept_def split: if_splits)
qed

lemma ref_run_snapshot_kept:
  assumes "ref_step\<^sup>*\<^sup>* m m'" "s \<noteq> - 1" "snapshot_kept s t m"
  shows "snapshot_kept s t m'"
  using assms by (induction rule: rtranclp_induct) (auto intro: ref_step_snapshot_kept)

section \<open>Scripts\<close>

text \<open>A client that issues operations one after the other; a refused operation changes nothing.\<close>

datatype ref_op = OpBegin | OpPut txn_id bytes bytes | OpDelete txn_id bytes | OpCommit txn_id | OpSnapshot

definition ok_else :: "'a \<Rightarrow> ('e, 'a) res \<Rightarrow> 'a" where
  "ok_else a r = (case r of Ok b \<Rightarrow> b | _ \<Rightarrow> a)"

fun ref_op_run :: "ref_model \<Rightarrow> ref_op \<Rightarrow> ref_model" where
  "ref_op_run m OpBegin = fst (ref_begin_txn m)"
| "ref_op_run m (OpPut i k v) = ok_else m (ref_put m i k v)"
| "ref_op_run m (OpDelete i k) = ok_else m (ref_delete m i k)"
| "ref_op_run m (OpCommit i) = fst (ref_commit m i)"
| "ref_op_run m OpSnapshot = fst (create_snapshot m)"

definition ref_script :: "ref_op list \<Rightarrow> ref_model" where
  "ref_script ops = foldl ref_op_run ref_model_new ops"

lemma ref_op_run_steps: "ref_step\<^sup>*\<^sup>* m (ref_op_run m a)"
  by (cases a) (auto simp: ok_else_def intro: ref_step.intros split: res.splits)

lemma ref_script_steps: "ref_step\<^sup>*\<^sup>* (ref_script xs) (ref_script (xs @ ys))"
proof (induction ys rule: rev_induct)
  case (snoc y ys)
  then show ?case using ref_op_run_steps [of "ref_script (xs @ ys)" y] by (simp add: ref_script_def)
qed simp

lemma ref_script_reachable: "ref_step\<^sup>*\<^sup>* ref_model_new (ref_script ops)"
  using ref_script_steps [of "[]" ops] by (simp add: ref_script_def)

lemmas ref_eval =
  ref_script_def ref_begin_txn_def txn_manager_begin_def Let_def ref_model_new_def txn_manager_new_def
  ref_put_def txn_manager_put_def with_open_txn_def get_txn_def ok_or_def ok_else_def ref_delete_def
  txn_manager_delete_def pending_txn_new_def add_put_def add_delete_def TXN_FIRST_def LSN_INITIAL_def
  ref_commit_def txn_manager_commit_def lsn_next_def txn_next_def checked_add_def create_snapshot_def
  add_snapshot_def snapshot_registry_new_def ref_tree_new_def ref_tree_put_def ref_tree_delete_def
  entry_or_default_def add_version_def binary_search_by_def vec_insert_def versioned_value_new_def
  chain_delete_def versioned_value_tombstone_def cmp_def bs_loop.simps prune_snapshots_small

section \<open>Properties\<close>

text \<open>
  C11. Commit of the reference model. In every state the model can reach, committing an open
  transaction that touches each key at most once and puts no key that was deleted before succeeds,
  advances the LSN, leaves the snapshots alone and turns the visible map into the one obtained by
  applying the transaction's mutations in order.
\<close>

theorem ref_commit_refines:
  assumes "ref_step\<^sup>*\<^sup>* ref_model_new m" "rm_lsn m \<noteq> - 1"
    and "get_txn (rm_transactions m) i = Ok txn" "\<not> pt_committed txn" "distinct (map pending_key (pt_mutations txn))"
    and "\<And>k v. PendingPut k v \<in> set (pt_mutations txn) \<Longrightarrow> \<not> dead_key (rm_tree m) k"
  shows "\<exists>m'. ref_commit m i = (m', Ok ()) \<and> rm_lsn m < rm_lsn m' \<and> rm_snapshots m' = rm_snapshots m
    \<and> ref_get m' = foldl pending_effect (ref_get m) (pt_mutations txn)"
proof -
  have "ref_get (fst (ref_commit m i)) = foldl pending_effect (ref_get m) (pt_mutations txn)"
    using commit_as_map_run [OF assms(1,2,5,6)] ref_commit_effect(1) [OF assms(3)]
    by (simp add: ref_get_def [abs_def])
  with ref_commit_effect [OF assms(3)] assms(2,4) lsn_advance_less [of "rm_lsn m"] show ?thesis
    by (intro exI [of _ "fst (ref_commit m i)"]) (simp add: prod_eq_iff)
qed

theorem ref_commit_refines_witness:
  "\<exists>m'. ref_commit (ref_script [OpBegin, OpPut 1 [1] [2], OpDelete 1 [3]]) 1 = (m', Ok ()) \<and> ref_get m' [1] = Some [2]"
proof -
  let ?ops = "[OpBegin, OpPut 1 [1] [2], OpDelete 1 [3]]"
  let ?txn = "\<lparr>pt_id = 1, pt_mutations = [PendingPut [1] [2], PendingDelete [3]], pt_start_lsn = 0, pt_committed = False\<rparr>"
  have "get_txn (rm_transactions (ref_script ?ops)) 1 = Ok ?txn" "rm_lsn (ref_script ?ops) = 0" "rm_tree (ref_script ?ops) = []"
    by (simp_all add: ref_eval)
  then show ?thesis
    using ref_commit_refines [OF ref_script_reachable, of ?ops 1 ?txn]
    by (auto simp: dead_key_def entry_or_default_def chain_latest_def)
qed

text \<open>
  C16. Snapshot isolation of the reference model. Reading at a snapshot gives what the model held
  when the snapshot was taken, at once and after any further run of the model, for as long as the
  registry still holds that snapshot.
\<close>

theorem ref_snapshot_isolation:
  assumes "ref_step\<^sup>*\<^sup>* ref_model_new m" "rm_lsn m \<noteq> - 1" "create_snapshot m = (m1, s)" "ref_step\<^sup>*\<^sup>* m1 m2"
  shows "ref_get_at m1 key s = ref_get m key \<and>
    (get_state_at (rm_snapshots m2) s \<noteq> None \<longrightarrow> ref_get_at m2 key s = ref_get m key)"
proof -
  from assms(3) have m1: "s = rm_lsn m" "rm_lsn m1 = s" "rm_tree m1 = rm_tree m"
    "rm_snapshots m1 = add_snapshot (rm_snapshots m) s (rm_tree m)"
    by (auto simp: create_snapshot_def)
  note added = add_snapshot_inv [OF ref_run_registry [OF assms(1)], of "rm_tree m"]
  have "snapshot_kept s (rm_tree m) m1" using added by (simp add: snapshot_kept_def m1)
  with assms(2,4) have "snapshot_kept s (rm_tree m) m2" by (simp add: m1(1) ref_run_snapshot_kept)
  with added show ?thesis by (auto simp: snapshot_kept_def ref_get_at_def ref_get_def m1)
qed

theorem ref_snapshot_isolation_witness:
  "ref_get_at (ref_script ([OpBegin, OpPut 1 [1] [2], OpCommit 1, OpSnapshot] @ [OpBegin, OpPut 2 [1] [3], OpCommit 2])) [1] 1
     = Some [2]"
proof -
  let ?ops = "[OpBegin, OpPut 1 [1] [2], OpCommit 1]" and ?more = "[OpBegin, OpPut 2 [1] [3], OpCommit 2]"
  let ?m = "ref_script ?ops" and ?m1 = "ref_script (?ops @ [OpSnapshot])" and ?m2 = "ref_script ((?ops @ [OpSnapshot]) @ ?more)"
  have l: "rm_lsn ?m = 1" "ref_get ?m [1] = Some [2]"
    by (simp_all add: ref_eval ref_get_def ref_tree_get_def live_value_def chain_latest_def)
  have s: "create_snapshot ?m = (?m1, rm_lsn ?m)"
    by (simp add: ref_script_def create_snapshot_def)
  have "get_state_at (rm_snapshots ?m2) 1 \<noteq> None"
    by (simp add: ref_eval get_state_at_def)
  then show ?thesis
    using ref_snapshot_isolation [OF ref_script_reachable _ s [unfolded l(1)] ref_script_steps, of "[1]" ?more] l by simp
qed

text \<open>
  A deleted key never comes back. Once a transaction that deletes a present key has been
  committed, the key reads as absent in every state the model reaches afterwards, whatever is put
  and committed: the tombstone is written with the largest LSN.
\<close>

theorem ref_delete_is_forever:
  assumes "ref_step\<^sup>*\<^sup>* ref_model_new m" "rm_lsn m \<noteq> - 1"
    and "get_txn (rm_transactions m) i = Ok txn" "PendingDelete key \<in> set (pt_mutations txn)" "ref_get m key \<noteq> None"
    and "ref_step\<^sup>*\<^sup>* (fst (ref_commit m i)) m'"
  shows "ref_get m' key = None"
proof -
  note inv = ref_run_tree_inv [OF assms(1,2)] and less = lsn_advance_less [OF assms(2)]
  have "map_of (rm_tree m) key \<noteq> None" using assms(5) by (cases "map_of (rm_tree m) key") (auto simp: ref_get_def ref_tree_get_def)
  with inv less assms(4) have "tombstoned (rm_tree (fst (ref_commit m i))) key"
    unfolding ref_commit_effect(1) [OF assms(3)]
    by (intro apply_all_deletes [OF ref_tree_inv_mono [OF inv]]) auto
  moreover have "ref_tree_sorted (rm_tree (fst (ref_commit m i)))"
    using ref_run_sorted [OF rtranclp.rtrancl_into_rtrancl [OF assms(1) ref_step.commit] ref_model_new_sorted] by blast
  ultimately show ?thesis
    using ref_run_sorted [OF assms(6)] by (simp add: ref_get_def tombstoned_get)
qed

theorem ref_delete_is_forever_witness:
  "ref_get (ref_script ([OpBegin, OpPut 1 [1] [2], OpCommit 1, OpBegin, OpDelete 2 [1], OpCommit 2]
     @ [OpBegin, OpPut 3 [1] [4], OpCommit 3])) [1] = None"
proof -
  let ?ops = "[OpBegin, OpPut 1 [1] [2], OpCommit 1, OpBegin, OpDelete 2 [1]]" and ?more = "[OpBegin, OpPut 3 [1] [4], OpCommit 3]"
  let ?m = "ref_script ?ops"
  let ?txn = "\<lparr>pt_id = 2, pt_mutations = [PendingDelete [1]], pt_start_lsn = 1, pt_committed = False\<rparr>"
  have m: "rm_lsn ?m = 1" "get_txn (rm_transactions ?m) 2 = Ok ?txn" "ref_get ?m [1] = Some [2]"
    by (simp_all add: ref_eval ref_get_def ref_tree_get_def live_value_def chain_latest_def)
  have "fst (ref_commit ?m 2) = ref_script (?ops @ [OpCommit 2])" by (simp add: ref_script_def)
  then have "ref_step\<^sup>*\<^sup>* (fst (ref_commit ?m 2)) (ref_script ((?ops @ [OpCommit 2]) @ ?more))"
    using ref_script_steps by metis
  then show ?thesis
    using ref_delete_is_forever [OF ref_script_reachable _ m(2), of "[1]"] m by simp
qed

text \<open>
  Committing twice. The second commit of a transaction reports an error, but the model has
  then already applied the transaction's mutations a second time, over whatever was committed in
  between, and has advanced the LSN.
\<close>

theorem ref_recommit_reapplies:
  assumes "ref_step\<^sup>*\<^sup>* ref_model_new m" "rm_lsn m \<noteq> - 1"
    and "get_txn (rm_transactions m) i = Ok txn" "pt_committed txn" "distinct (map pending_key (pt_mutations txn))"
    and "\<And>k v. PendingPut k v \<in> set (pt_mutations txn) \<Longrightarrow> \<not> dead_key (rm_tree m) k"
  shows "\<exists>m'. ref_commit m i = (m', Err (txn_already_committed i)) \<and> rm_lsn m < rm_lsn m'
    \<and> ref_get m' = foldl pending_effect (ref_get m) (pt_mutations txn)"
proof -
  have "ref_get (fst (ref_commit m i)) = foldl pending_effect (ref_get m) (pt_mutations txn)"
    using commit_as_map_run [OF assms(1,2,5,6)] ref_commit_effect(1) [OF assms(3)]
    by (simp add: ref_get_def [abs_def])
  with ref_commit_effect [OF assms(3)] assms(2,4) lsn_advance_less [of "rm_lsn m"] show ?thesis
    by (intro exI [of _ "fst (ref_commit m i)"]) (simp add: prod_eq_iff)
qed

theorem ref_recommit_reapplies_witness:
  "\<exists>m'. ref_commit (ref_script [OpBegin, OpPut 1 [1] [2], OpCommit 1, OpBegin, OpPut 2 [1] [3], OpCommit 2]) 1
       = (m', Err (txn_already_committed 1)) \<and> ref_get m' [1] = Some [2]"
proof -
  let ?ops = "[OpBegin, OpPut 1 [1] [2], OpCommit 1, OpBegin, OpPut 2 [1] [3], OpCommit 2]"
  let ?txn = "\<lparr>pt_id = 1, pt_mutations = [PendingPut [1] [2]], pt_start_lsn = 0, pt_committed = True\<rparr>"
  have m: "rm_lsn (ref_script ?ops) = 2" "get_txn (rm_transactions (ref_script ?ops)) 1 = Ok ?txn"
    "\<not> dead_key (rm_tree (ref_script ?ops)) [1]"
    by (simp_all add: ref_eval dead_key_def chain_latest_def)
  then show ?thesis
    using ref_recommit_reapplies [OF ref_script_reachable _ m(2)] by auto
qed

text \<open>
  Two puts of one key in one transaction. Inside the transaction the second value is read
  back, but after the commit the model returns the first: both versions carry the same LSN and
  the later one is inserted below the earlier one.
\<close>

theorem ref_first_put_wins:
  assumes "ref_step\<^sup>*\<^sup>* ref_model_new m" "rm_lsn m \<noteq> - 1" "get_txn (rm_transactions m) i = Ok txn"
    and "pt_mutations txn = [PendingPut key v1, PendingPut key v2]" "\<not> dead_key (rm_tree m) key"
  shows "get_pending txn key = Some (Some v2) \<and> ref_get (fst (ref_commit m i)) key = Some v1"
proof -
  let ?l = "rm_lsn m" and ?t = "rm_tree m"
  let ?t1 = "ref_tree_put ?t key v1 ?l"
  note inv = ref_run_tree_inv [OF assms(1,2)]
  have asc: "ascending fst ?t" "ascending fst ?t1"
    using inv ref_tree_put_def bt_insert_ascending by (auto simp: ref_tree_inv_def)
  have so: "sorted (map vv_lsn (entry_or_default ?t key))"
    using ref_tree_inv_entry [OF inv, of key] by (simp add: chain_inv_def)
  have "entry_or_default ?t key = [] \<or> vv_lsn (last (entry_or_default ?t key)) < ?l"
    using ref_tree_inv_entry [OF inv, of key] assms(5) last_in_set [of "entry_or_default ?t key"]
    by (cases "entry_or_default ?t key = []") (auto simp: dead_key_def chain_latest_def version_below_def)
  then have "chain_latest (entry_or_default ?t1 key) = Some (versioned_value_new v1 ?l)"
    "sorted (map vv_lsn (entry_or_default ?t1 key))"
    by (simp_all add: ref_tree_put_def entry_bt_insert [OF asc(1)] chain_latest_add_version [OF so]
        add_version_sorted [OF so] versioned_value_new_def)
  then have "chain_latest (add_version (entry_or_default ?t1 key) (versioned_value_new v2 ?l))
      = Some (versioned_value_new v1 ?l)"
    by (simp add: chain_latest_add_hidden versioned_value_new_def)
  then have "ref_tree_get (ref_tree_put ?t1 key v2 ?l) key = Some v1"
    by (simp add: ref_tree_get_entry ref_tree_put_def [of ?t1] entry_bt_insert [OF asc(2)] live_value_def versioned_value_new_def)
  with assms(4) show ?thesis
    by (simp add: ref_get_def ref_commit_effect(1) [OF assms(3)] get_pending_def affects_key_def)
qed

theorem ref_first_put_wins_witness:
  "ref_get (fst (ref_commit (ref_script [OpBegin, OpPut 1 [1] [2], OpPut 1 [1] [3]]) 1)) [1] = Some [2]"
proof -
  let ?ops = "[OpBegin, OpPut 1 [1] [2], OpPut 1 [1] [3]]"
  let ?txn = "\<lparr>pt_id = 1, pt_mutations = [PendingPut [1] [2], PendingPut [1] [3]], pt_start_lsn = 0, pt_committed = False\<rparr>"
  have m: "rm_lsn (ref_script ?ops) = 0" "get_txn (rm_transactions (ref_script ?ops)) 1 = Ok ?txn"
    "\<not> dead_key (rm_tree (ref_script ?ops)) [1]"
    by (simp_all add: ref_eval dead_key_def chain_latest_def)
  then show ?thesis
    using ref_first_put_wins [OF ref_script_reachable _ m(2), of "[1]" "[2]" "[3]"] by simp
qed

end
