(* ===== verification/Ref_Compare.thy ===== *)
theory Ref_Compare
  imports Ref_Tree
begin

text \<open>
  \<^verbatim>\<open>refmodel/compare.rs\<close>: comparing the live contents of two trees. The sources collect the entries
  in a \<open>HashMap\<close>, whose walk order is unspecified; here the walk is in key order, and the
  theorems speak of the set and the number of the differences. The report text is not modelled.
\<close>

datatype diff_type =
    OnlyInLeft bytes
  | OnlyInRight bytes
  | ValueMismatch bytes bytes

record difference =
  df_key :: bytes
  df_diff_type :: diff_type

datatype comparison_result = Equivalent | Different "difference list"

definition is_equivalent :: "comparison_result \<Rightarrow> bool" where
  "is_equivalent r = (case r of Equivalent \<Rightarrow> True | Different _ \<Rightarrow> False)"

definition differences :: "comparison_result \<Rightarrow> difference list" where
  "differences r = (case r of Equivalent \<Rightarrow> [] | Different ds \<Rightarrow> ds)"

definition left_difference :: "(bytes \<times> bytes) list \<Rightarrow> bytes \<times> bytes \<Rightarrow> difference option" where
  "left_difference right_items e =
     (case e of (key, left_value) \<Rightarrow>
       (case map_of right_items key of
          Some right_value \<Rightarrow>
            (if left_value \<noteq> right_value
             then Some \<lparr>df_key = key, df_diff_type = ValueMismatch left_value right_value\<rparr> else None)
        | None \<Rightarrow> Some \<lparr>df_key = key, df_diff_type = OnlyInLeft left_value\<rparr>))"

definition right_difference :: "(bytes \<times> bytes) list \<Rightarrow> bytes \<times> bytes \<Rightarrow> difference option" where
  "right_difference left_items e =
     (case e of (key, right_value) \<Rightarrow>
       (if map_of left_items key = None
        then Some \<lparr>df_key = key, df_diff_type = OnlyInRight right_value\<rparr> else None))"

definition compare_trees :: "ref_tree \<Rightarrow> ref_tree \<Rightarrow> comparison_result" where
  "compare_trees left right =
     (let left_items = ref_tree_iter left;
          right_items = ref_tree_iter right;
          ds = List.map_filter (left_difference right_items) left_items
             @ List.map_filter (right_difference left_items) right_items
      in if ds = [] then Equivalent else Different ds)"

definition compute_digest :: "((bytes \<times> bytes \<times> u64) list \<Rightarrow> u64) \<Rightarrow> ref_tree \<Rightarrow> u64" where
  "compute_digest hasher t = compute_hash hasher t"

definition same_digest :: "((bytes \<times> bytes \<times> u64) list \<Rightarrow> u64) \<Rightarrow> ref_tree \<Rightarrow> ref_tree \<Rightarrow> bool" where
  "same_digest hasher left right \<longleftrightarrow> compute_digest hasher left = compute_digest hasher right"

record comparison_stats =
  cs_left_keys :: nat
  cs_right_keys :: nat
  cs_only_in_left :: nat
  cs_only_in_right :: nat
  cs_mismatches :: nat
  cs_total_differences :: nat

definition has_differences :: "comparison_stats \<Rightarrow> bool" where
  "has_differences s \<longleftrightarrow> 0 < cs_total_differences s"

text \<open>The loop over the left entries carries the two counters it increments.\<close>

definition count_left :: "(bytes \<times> bytes) list \<Rightarrow> nat \<times> nat \<Rightarrow> bytes \<times> bytes \<Rightarrow> nat \<times> nat" where
  "count_left right_items = (\<lambda>(only_in_left, mismatches) (key, left_value).
     case map_of right_items key of
       Some right_value \<Rightarrow> (only_in_left, if left_value \<noteq> right_value then mismatches + 1 else mismatches)
     | None \<Rightarrow> (only_in_left + 1, mismatches))"

definition count_right :: "(bytes \<times> bytes) list \<Rightarrow> nat \<Rightarrow> bytes \<times> bytes \<Rightarrow> nat" where
  "count_right left_items n e = (if map_of left_items (fst e) = None then n + 1 else n)"

definition compare_stats :: "ref_tree \<Rightarrow> ref_tree \<Rightarrow> comparison_stats" where
  "compare_stats left right =
     (let left_items = ref_tree_iter left;
          right_items = ref_tree_iter right;
          (only_in_left, mismatches) = foldl (count_left right_items) (0, 0) left_items;
          only_in_right = foldl (count_right left_items) 0 right_items
      in \<lparr>cs_left_keys = length left_items, cs_right_keys = length right_items,
          cs_only_in_left = only_in_left, cs_only_in_right = only_in_right, cs_mismatches = mismatches,
          cs_total_differences = only_in_left + only_in_right + mismatches\<rparr>)"

section \<open>Lemmas\<close>

lemma set_map_filter: "set (List.map_filter f xs) = {y. \<exists>x \<in> set xs. f x = Some y}"
  by (force simp: map_filter_def)

lemma count_left_length:
  "foldl (count_left r) (a, b) xs = (a', b') \<Longrightarrow>
     a' + b' = a + b + length (List.map_filter (left_difference r) xs)"
proof (induction xs arbitrary: a b)
  case (Cons e xs)
  obtain k v where e: "e = (k, v)" by (cases e)
  obtain a1 b1 where s: "count_left r (a, b) e = (a1, b1)" by (cases "count_left r (a, b) e")
  then have "a1 + b1 + length (List.map_filter (left_difference r) xs)
      = a + b + length (List.map_filter (left_difference r) (e # xs))"
    by (auto simp: e count_left_def left_difference_def map_filter_simps split: option.splits if_splits)
  moreover have "a' + b' = a1 + b1 + length (List.map_filter (left_difference r) xs)"
    using Cons.prems by (intro Cons.IH) (simp add: s)
  ultimately show ?case by simp
qed (simp add: map_filter_simps)

lemma count_right_length:
  "foldl (count_right l) n xs = n + length (List.map_filter (right_difference l) xs)"
  by (induction xs arbitrary: n)
    (auto simp: count_right_def right_difference_def map_filter_simps split: prod.splits)

lemma iter_mem:
  assumes "ascending fst t"
  shows "(k, v) \<in> set (ref_tree_iter t) \<longleftrightarrow> ref_tree_get t k = Some v"
  using ref_tree_iter_get [OF assms] ascending_distinct [of fst "ref_tree_iter t"]
  by (metis map_of_SomeD map_of_is_SomeI)

text \<open>Specification: how two maps differ at a key.\<close>

fun diff_at :: "bytes option \<Rightarrow> bytes option \<Rightarrow> diff_type option" where
  "diff_at (Some v) (Some w) = (if v = w then None else Some (ValueMismatch v w))"
| "diff_at (Some v) None = Some (OnlyInLeft v)"
| "diff_at None (Some w) = Some (OnlyInRight w)"
| "diff_at None None = None"

lemma diff_at_None: "diff_at x y = None \<longleftrightarrow> x = y"
  by (cases x; cases y) auto

lemma left_difference_Some:
  "left_difference r (k, v) = Some d \<longleftrightarrow> df_key d = k \<and> diff_at (Some v) (map_of r k) = Some (df_diff_type d)"
  by (cases d) (auto simp: left_difference_def split: option.splits)

lemma right_difference_Some:
  "right_difference l (k, w) = Some d \<longleftrightarrow>
     df_key d = k \<and> map_of l k = None \<and> diff_at (map_of l k) (Some w) = Some (df_diff_type d)"
  by (cases d) (auto simp: right_difference_def)

lemma differences_append:
  "differences (compare_trees left right) =
     List.map_filter (left_difference (ref_tree_iter right)) (ref_tree_iter left)
   @ List.map_filter (right_difference (ref_tree_iter left)) (ref_tree_iter right)"
  by (simp add: compare_trees_def differences_def Let_def)

lemma compare_trees_differences:
  assumes "ascending fst left" "ascending fst right"
  shows "d \<in> set (differences (compare_trees left right)) \<longleftrightarrow>
    diff_at (ref_tree_get left (df_key d)) (ref_tree_get right (df_key d)) = Some (df_diff_type d)"
proof -
  have maps: "map_of (ref_tree_iter left) = ref_tree_get left" "map_of (ref_tree_iter right) = ref_tree_get right"
    using ref_tree_iter_get assms by blast+
  have "d \<in> set (differences (compare_trees left right)) \<longleftrightarrow>
      (\<exists>k v. ref_tree_get left k = Some v \<and> left_difference (ref_tree_iter right) (k, v) = Some d) \<or>
      (\<exists>k w. ref_tree_get right k = Some w \<and> right_difference (ref_tree_iter left) (k, w) = Some d)"
    by (auto simp: differences_append set_map_filter iter_mem [OF assms(1)] iter_mem [OF assms(2)] Bex_def)
  also have "\<dots> \<longleftrightarrow> diff_at (ref_tree_get left (df_key d)) (ref_tree_get right (df_key d)) = Some (df_diff_type d)"
    by (cases "ref_tree_get left (df_key d)"; cases "ref_tree_get right (df_key d)")
      (auto simp: left_difference_Some right_difference_Some maps)
  finally show ?thesis .
qed

section \<open>Properties\<close>

text \<open>
  C17. The comparison is exact: the differences reported for two trees are precisely the keys whose
  live values differ, each with the right kind, so the trees are equivalent if and only if every
  key reads the same, and the statistics count the same number of differences.
\<close>

theorem compare_trees_exact:
  assumes "ascending fst left" "ascending fst right"
  shows "set (differences (compare_trees left right)) =
      {d. diff_at (ref_tree_get left (df_key d)) (ref_tree_get right (df_key d)) = Some (df_diff_type d)}
    \<and> (is_equivalent (compare_trees left right) \<longleftrightarrow> ref_tree_get left = ref_tree_get right)
    \<and> cs_total_differences (compare_stats left right) = length (differences (compare_trees left right))"
proof (intro conjI)
  note diffs = compare_trees_differences [OF assms]
  show "set (differences (compare_trees left right)) =
      {d. diff_at (ref_tree_get left (df_key d)) (ref_tree_get right (df_key d)) = Some (df_diff_type d)}"
    using diffs by blast
  have "is_equivalent (compare_trees left right) \<longleftrightarrow> set (differences (compare_trees left right)) = {}"
    by (simp add: is_equivalent_def differences_def compare_trees_def Let_def del: set_append)
  also have "\<dots> \<longleftrightarrow> (\<forall>k. diff_at (ref_tree_get left k) (ref_tree_get right k) = None)"
    using diffs by (auto simp: set_eq_iff) (metis comparison_result.exhaust difference.select_convs option.exhaust)
  finally show "is_equivalent (compare_trees left right) \<longleftrightarrow> ref_tree_get left = ref_tree_get right"
    by (simp add: diff_at_None fun_eq_iff)
  obtain a b where ab: "foldl (count_left (ref_tree_iter right)) (0, 0) (ref_tree_iter left) = (a, b)" by fastforce
  from count_left_length [OF this] show
    "cs_total_differences (compare_stats left right) = length (differences (compare_trees left right))"
    by (simp add: compare_stats_def differences_append Let_def count_right_length ab)
qed

theorem compare_trees_exact_witness:
  "is_equivalent (compare_trees [([1], [versioned_value_new [2] 1])] [([1], [versioned_value_new [2] 7])])"
  using compare_trees_exact [of "[([1], [versioned_value_new [2] 1])]" "[([1], [versioned_value_new [2] 7])]"]
  by (simp add: ref_tree_get_def fun_eq_iff live_value_def chain_latest_def versioned_value_new_def)

end
