(* ===== verification/Ref_Serialize.thy ===== *)
theory Ref_Serialize
  imports Ref_Model
begin

text \<open>
  \<^verbatim>\<open>refmodel/serialize.rs\<close>: saving and loading trees and snapshots of the reference model. Keys and values are written as
  base64 text by the module's own encoder and decoder. The JSON encoder and parser are the parameters \<open>to_json\<close> and
  \<open>from_json\<close>: they turn the data that the derived \<open>Serialize\<close> and \<open>Deserialize\<close> hand over, in which bytes are already base64
  strings, into text and back. The file system is a map from paths to texts; \<open>fault\<close> is the outcome of a write that fails, an
  error and the text it leaves behind. A string is its bytes.
\<close>

unbundle bit_operations_syntax

section \<open>Base64\<close>

definition BASE64_ALPHABET :: string where
  "BASE64_ALPHABET = ''ABCDEFGHIJKLMNOPQRSTUVWXYZabcdefghijklmnopqrstuvwxyz0123456789+/''"

definition sextet_char :: "u8 \<Rightarrow> char" where
  "sextet_char v = BASE64_ALPHABET ! unat v"

definition encode_chunk :: "bytes \<Rightarrow> string" where
  "encode_chunk chunk =
     (let b0 = chunk ! 0;
          b1 = (if 1 < length chunk then chunk ! 1 else 0);
          b2 = (if 2 < length chunk then chunk ! 2 else 0)
      in [sextet_char (drop_bit 2 b0), sextet_char (push_bit 4 (b0 AND 3) OR drop_bit 4 b1),
          (if 1 < length chunk then sextet_char (push_bit 2 (b1 AND 15) OR drop_bit 6 b2) else CHR ''=''),
          (if 2 < length chunk then sextet_char (b2 AND 63) else CHR ''='')])"

definition base64_encode :: "bytes \<Rightarrow> string" where
  "base64_encode input = concat (map encode_chunk (chunks_of 3 input))"

definition decode_table :: "char \<Rightarrow> u8 option" where
  "decode_table = map_of (zip BASE64_ALPHABET (map (word_of_nat :: nat \<Rightarrow> u8) [0..<64]))"

definition table_get :: "char \<Rightarrow> (string, u8) res" where
  "table_get c = ok_or (decode_table c) ''Invalid base64 character''"

definition decode_chunk :: "string \<Rightarrow> (string, bytes) res" where
  "decode_chunk chunk =
     (if length chunk < 2 then Err ''Invalid base64 input''
      else
        and_then (table_get (chunk ! 0)) (\<lambda>v0.
        and_then (table_get (chunk ! 1)) (\<lambda>v1.
          let b0 = push_bit 2 v0 OR drop_bit 4 v1 in
          if 2 < length chunk \<and> chunk ! 2 \<noteq> CHR ''=''
          then
            and_then (table_get (chunk ! 2)) (\<lambda>v2.
              let b1 = push_bit 4 v1 OR drop_bit 2 v2 in
              if 3 < length chunk \<and> chunk ! 3 \<noteq> CHR ''=''
              then and_then (table_get (chunk ! 3)) (\<lambda>v3. Ok [b0, b1, push_bit 6 v2 OR v3])
              else Ok [b0, b1])
          else Ok [b0])))"

fun decode_chunks :: "string list \<Rightarrow> (string, bytes) res" where
  "decode_chunks [] = Ok []"
| "decode_chunks (c # cs) = and_then (decode_chunk c) (\<lambda>bs. and_then (decode_chunks cs) (\<lambda>rest. Ok (bs @ rest)))"

definition trim_end :: "char \<Rightarrow> string \<Rightarrow> string" where
  "trim_end c s = rev (dropWhile (\<lambda>x. x = c) (rev s))"

definition base64_decode :: "string \<Rightarrow> (string, bytes) res" where
  "base64_decode input = decode_chunks (chunks_of 4 (trim_end CHR ''='' input))"

lemma masks: "(3 :: u8) = mask 2" "(15 :: u8) = mask 4" "(63 :: u8) = mask 6"
  by (simp_all add: mask_eq_exp_minus_1)

lemma octet_eqI:
  assumes "\<And>n. n \<in> {0, 1, 2, 3, 4, 5, 6, 7} \<Longrightarrow> bit a n = bit b n"
  shows "a = (b :: u8)"
proof (rule bit_eqI)
  fix n
  assume "possible_bit TYPE(u8) n"
  then have "n < 8" by simp
  then have "n \<in> {0, 1, 2, 3, 4, 5, 6, 7}" by auto
  then show "bit a n = bit b n" by (rule assms)
qed

lemma six_bits:
  assumes "\<not> bit v 6" "\<not> bit v 7"
  shows "unat (v :: u8) < 64"
proof -
  have "take_bit 6 v = v" by (rule octet_eqI) (use assms in \<open>auto simp: bit_simps\<close>)
  then have "unat v = take_bit 6 (unat v)" by (metis unsigned_take_bit_eq)
  then show ?thesis using take_bit_nat_less_exp [of 6 "unat v"] by simp
qed

lemma past_octet: "8 \<le> n \<Longrightarrow> \<not> bit (v :: u8) n"
  using bit_imp_le_length [of v n] by auto

text \<open>The four sextets of three octets.\<close>

definition sextet0 :: "u8 \<Rightarrow> u8" where "sextet0 b0 = drop_bit 2 b0"
definition sextet1 :: "u8 \<Rightarrow> u8 \<Rightarrow> u8" where "sextet1 b0 b1 = (push_bit 4 (b0 AND 3) OR drop_bit 4 b1)"
definition sextet2 :: "u8 \<Rightarrow> u8 \<Rightarrow> u8" where "sextet2 b1 b2 = (push_bit 2 (b1 AND 15) OR drop_bit 6 b2)"
definition sextet3 :: "u8 \<Rightarrow> u8" where "sextet3 b2 = (b2 AND 63)"

lemmas sextet_defs = sextet0_def sextet1_def sextet2_def sextet3_def

lemma sextet_bits [simp]:
  "unat (sextet0 b0) < 64" "unat (sextet1 b0 b1) < 64" "unat (sextet2 b1 b2) < 64" "unat (sextet3 b2) < 64"
  unfolding sextet_defs masks by (rule six_bits; simp add: bit_simps past_octet)+

lemma octet_bits [simp]:
  "push_bit 2 (sextet0 b0) OR drop_bit 4 (sextet1 b0 b1) = b0"
  "push_bit 4 (sextet1 b0 b1) OR drop_bit 2 (sextet2 b1 b2) = b1"
  "push_bit 6 (sextet2 b1 b2) OR sextet3 b2 = b2"
  unfolding sextet_defs masks by (rule octet_eqI; auto simp: bit_simps past_octet numeral_2_eq_2 [symmetric])+

lemma alphabet: "length BASE64_ALPHABET = 64" "distinct BASE64_ALPHABET" "CHR ''='' \<notin> set BASE64_ALPHABET"
  by (simp_all add: BASE64_ALPHABET_def)

lemma sextet_char_table [simp]:
  assumes "unat v < 64"
  shows "table_get (sextet_char v) = Ok v" "sextet_char v \<noteq> CHR ''=''"
proof -
  have "map_of (zip BASE64_ALPHABET (map (word_of_nat :: nat \<Rightarrow> u8) [0..<64])) (BASE64_ALPHABET ! unat v) = Some (map (word_of_nat :: nat \<Rightarrow> u8) [0..<64] ! unat v)"
    using assms by (intro map_of_zip_nth) (simp_all add: alphabet)
  with assms show "table_get (sextet_char v) = Ok v"
    by (simp add: table_get_def decode_table_def sextet_char_def ok_or_def)
  have "BASE64_ALPHABET ! unat v \<in> set BASE64_ALPHABET" using assms by (simp add: alphabet)
  with alphabet(3) show "sextet_char v \<noteq> CHR ''=''" unfolding sextet_char_def by metis
qed

lemma base64_encode_simps [simp]:
  "base64_encode [] = []"
  "base64_encode [b0] = [sextet_char (sextet0 b0), sextet_char (sextet1 b0 0), CHR ''='', CHR ''='']"
  "base64_encode [b0, b1] = [sextet_char (sextet0 b0), sextet_char (sextet1 b0 b1), sextet_char (sextet2 b1 0), CHR ''='']"
  "base64_encode (b0 # b1 # b2 # bs) =
     [sextet_char (sextet0 b0), sextet_char (sextet1 b0 b1), sextet_char (sextet2 b1 b2), sextet_char (sextet3 b2)] @ base64_encode bs"
  by (simp_all add: base64_encode_def chunks_of.simps [of 3 "_ # _"] chunks_of.simps [of 3 "[]"] encode_chunk_def sextet_defs)

lemma trim_end_append:
  assumes "xs \<noteq> []" "last xs \<noteq> c"
  shows "trim_end c (xs @ ys) = xs @ trim_end c ys"
proof -
  have "dropWhile (\<lambda>x. x = c) (rev xs) = rev xs"
    using assms by (simp add: hd_rev dropWhile_eq_self_iff)
  then show ?thesis by (induction ys rule: rev_induct) (simp_all add: trim_end_def)
qed

lemma decode_chunk_simps [simp]:
  "decode_chunk [sextet_char (sextet0 b0), sextet_char (sextet1 b0 b1), sextet_char (sextet2 b1 b2), sextet_char (sextet3 b2)] = Ok [b0, b1, b2]"
  "decode_chunk [sextet_char (sextet0 b0), sextet_char (sextet1 b0 b1), sextet_char (sextet2 b1 b2)] = Ok [b0, b1]"
  "decode_chunk [sextet_char (sextet0 b0), sextet_char (sextet1 b0 b1)] = Ok [b0]"
  by (simp_all add: decode_chunk_def)

text \<open>Decoding what the encoder writes for any bytes gives back these bytes, whatever padding was needed.\<close>

lemma base64_wire: "base64_decode (base64_encode bs) = Ok bs"
proof (induction bs rule: measure_induct_rule [of length])
  case (less bs)
  consider "bs = []" | b0 where "bs = [b0]" | b0 b1 where "bs = [b0, b1]" | b0 b1 b2 rest where "bs = b0 # b1 # b2 # rest"
    by (metis list.exhaust)
  then show ?case
  proof cases
    case 4
    let ?q = "[sextet_char (sextet0 b0), sextet_char (sextet1 b0 b1), sextet_char (sextet2 b1 b2), sextet_char (sextet3 b2)]"
    have "base64_decode (base64_encode bs) = decode_chunks (?q # chunks_of 4 (trim_end CHR ''='' (base64_encode rest)))"
      using trim_end_append [of ?q "CHR ''=''" "base64_encode rest"]
      by (simp add: 4 base64_decode_def chunks_of.simps [of 4 "_ # _"])
    moreover have "base64_decode (base64_encode rest) = Ok rest" using less [of rest] 4 by simp
    ultimately show ?thesis by (simp add: 4 base64_decode_def)
  qed (simp_all add: base64_decode_def trim_end_def chunks_of.simps [of 4 "_ # _"] chunks_of.simps [of 4 "[]"])
qed

section \<open>Serialized trees\<close>

record serialized_versioned_value =
  sv_value :: bytes
  sv_lsn :: u64
  sv_is_tombstone :: bool

record serialized_entry =
  se_key :: bytes
  se_chain :: "serialized_versioned_value list"

type_synonym serialized_ref_tree = "serialized_entry list"

definition version_of_serialized :: "serialized_versioned_value \<Rightarrow> versioned_value" where
  "version_of_serialized v = \<lparr>vv_value = sv_value v, vv_lsn = sv_lsn v, vv_is_tombstone = sv_is_tombstone v\<rparr>"

definition serialized_of_version :: "versioned_value \<Rightarrow> serialized_versioned_value" where
  "serialized_of_version v = \<lparr>sv_value = vv_value v, sv_lsn = vv_lsn v, sv_is_tombstone = vv_is_tombstone v\<rparr>"

definition serialized_of_tree :: "ref_tree \<Rightarrow> serialized_ref_tree" where
  "serialized_of_tree t =
     map (\<lambda>(key, val). \<lparr>se_key = key, se_chain = [\<lparr>sv_value = val, sv_lsn = 1, sv_is_tombstone = False\<rparr>]\<rparr>) (ref_tree_iter t)"

definition load_entry :: "ref_tree \<Rightarrow> serialized_entry \<Rightarrow> ref_tree" where
  "load_entry t e =
     (if se_chain e = [] then t
      else let latest_version = last (se_chain e) in
        if sv_is_tombstone latest_version then t
        else ref_tree_put t (se_key e) (sv_value latest_version) (sv_lsn latest_version))"

definition tree_of_serialized :: "serialized_ref_tree \<Rightarrow> (string, ref_tree) res" where
  "tree_of_serialized st = Ok (foldl load_entry ref_tree_new st)"

text \<open>What \<open>serialize_with\<close> and \<open>deserialize_with\<close> make of the bytes.\<close>

type_synonym wire_version = "string \<times> u64 \<times> bool"
type_synonym wire_tree = "(string \<times> wire_version list) list"

definition version_to_wire :: "serialized_versioned_value \<Rightarrow> wire_version" where
  "version_to_wire v = (base64_encode (sv_value v), sv_lsn v, sv_is_tombstone v)"

definition entry_to_wire :: "serialized_entry \<Rightarrow> string \<times> wire_version list" where
  "entry_to_wire e = (base64_encode (se_key e), map version_to_wire (se_chain e))"

fun all_ok :: "('a \<Rightarrow> ('e, 'b) res) \<Rightarrow> 'a list \<Rightarrow> ('e, 'b list) res" where
  "all_ok f [] = Ok []"
| "all_ok f (x # xs) = and_then (f x) (\<lambda>y. and_then (all_ok f xs) (\<lambda>ys. Ok (y # ys)))"

definition version_from_wire :: "wire_version \<Rightarrow> (string, serialized_versioned_value) res" where
  "version_from_wire v =
     (case v of (text, l, dead) \<Rightarrow>
        and_then (base64_decode text) (\<lambda>val. Ok \<lparr>sv_value = val, sv_lsn = l, sv_is_tombstone = dead\<rparr>))"

definition entry_from_wire :: "string \<times> wire_version list \<Rightarrow> (string, serialized_entry) res" where
  "entry_from_wire e =
     (case e of (text, versions) \<Rightarrow>
        and_then (base64_decode text) (\<lambda>key.
        and_then (all_ok version_from_wire versions) (\<lambda>chain. Ok \<lparr>se_key = key, se_chain = chain\<rparr>)))"

section \<open>Files\<close>

text \<open>Only the JSON functions look at the text of a file, so its type is open.\<close>

type_synonym 'text text_files = "string \<rightharpoonup> 'text"

datatype file_error =
    NoSuchFile
  | FileIo
  | FileOther string

definition write_file :: "(file_error \<times> 'text) option \<Rightarrow> string \<Rightarrow> 'text \<Rightarrow> 'text text_files \<Rightarrow> 'text text_files \<times> (file_error, unit) res" where
  "write_file fault path text fs =
     (case fault of
        None \<Rightarrow> (fs(path \<mapsto> text), Ok ())
      | Some (err, left_behind) \<Rightarrow> (fs(path \<mapsto> left_behind), Err err))"

fun map_err :: "('e \<Rightarrow> 'f) \<Rightarrow> ('e, 'a) res \<Rightarrow> ('f, 'a) res" where
  "map_err f (Ok a) = Ok a"
| "map_err f (Err e) = Err (f e)"
| "map_err f Panic = Panic"

definition read_file :: "string \<Rightarrow> 'text text_files \<Rightarrow> (file_error, 'text) res" where
  "read_file path fs = ok_or (fs path) NoSuchFile"

definition save_to_file ::
  "(wire_tree \<Rightarrow> (string, 'text) res) \<Rightarrow> (file_error \<times> 'text) option \<Rightarrow> ref_tree \<Rightarrow> string \<Rightarrow> 'text text_files \<Rightarrow> 'text text_files \<times> (file_error, unit) res" where
  "save_to_file to_json fault t path fs =
     (case to_json (map entry_to_wire (serialized_of_tree t)) of
        Err e \<Rightarrow> (fs, Err (FileOther e))
      | Panic \<Rightarrow> (fs, Panic)
      | Ok json \<Rightarrow> write_file fault path json fs)"

definition load_from_file ::
  "('text \<Rightarrow> (string, wire_tree) res) \<Rightarrow> string \<Rightarrow> 'text text_files \<Rightarrow> (file_error, ref_tree) res" where
  "load_from_file from_json path fs =
     and_then (read_file path fs) (\<lambda>json.
     and_then (map_err FileOther (and_then (from_json json) (all_ok entry_from_wire))) (\<lambda>serialized.
       map_err FileOther (tree_of_serialized serialized)))"

text \<open>The snapshots are written in the order in which their hash map is visited, \<open>visited\<close>.\<close>

type_synonym wire_snapshots = "(u64 \<times> wire_tree) list"

definition save_snapshots_to_file ::
  "(wire_snapshots \<Rightarrow> (string, 'text) res) \<Rightarrow> (file_error \<times> 'text) option \<Rightarrow> (lsn \<times> ref_tree) list \<Rightarrow> string \<Rightarrow> 'text text_files
   \<Rightarrow> 'text text_files \<times> (file_error, unit) res" where
  "save_snapshots_to_file to_json fault visited path fs =
     (case to_json (map (\<lambda>(l, t). (l, map entry_to_wire (serialized_of_tree t))) visited) of
        Err e \<Rightarrow> (fs, Err (FileOther e))
      | Panic \<Rightarrow> (fs, Panic)
      | Ok json \<Rightarrow> write_file fault path json fs)"

definition snapshot_from_wire :: "u64 \<times> wire_tree \<Rightarrow> (string, u64 \<times> serialized_ref_tree) res" where
  "snapshot_from_wire w = (case w of (l, st) \<Rightarrow> and_then (all_ok entry_from_wire st) (\<lambda>st. Ok (l, st)))"

fun load_snapshots :: "snapshot_registry \<Rightarrow> (u64 \<times> serialized_ref_tree) list \<Rightarrow> (file_error, snapshot_registry) res" where
  "load_snapshots r [] = Ok r"
| "load_snapshots r ((l, st) # rest) =
     and_then (map_err FileOther (tree_of_serialized st)) (\<lambda>t.
       load_snapshots (r\<lparr>sr_snapshots := bt_insert l t (sr_snapshots r)\<rparr>) rest)"

definition load_snapshots_from_file ::
  "('text \<Rightarrow> (string, wire_snapshots) res) \<Rightarrow> string \<Rightarrow> 'text text_files \<Rightarrow> (file_error, snapshot_registry) res" where
  "load_snapshots_from_file from_json path fs =
     and_then (read_file path fs) (\<lambda>json.
     and_then (map_err FileOther (and_then (from_json json) (all_ok snapshot_from_wire))) (\<lambda>data.
       load_snapshots snapshot_registry_new data))"

section \<open>What a file keeps\<close>

lemma all_ok_map: "(\<And>x. x \<in> set xs \<Longrightarrow> f (g x) = Ok x) \<Longrightarrow> all_ok f (map g xs) = Ok xs"
  by (induction xs) simp_all

lemma version_wire [simp]: "version_from_wire (version_to_wire v) = Ok v"
  by (simp add: version_from_wire_def version_to_wire_def base64_wire)

lemma entry_wire [simp]: "entry_from_wire (entry_to_wire e) = Ok e"
  by (simp add: entry_from_wire_def entry_to_wire_def base64_wire all_ok_map)

lemma tree_wire [simp]: "all_ok entry_from_wire (map entry_to_wire st) = Ok st"
  by (rule all_ok_map) simp

text \<open>The tree that a saved tree loads as: its live entries, each with one version at LSN 1.\<close>

definition flat_tree :: "ref_tree \<Rightarrow> ref_tree" where
  "flat_tree t = map (\<lambda>(key, val). (key, [versioned_value_new val 1])) (ref_tree_iter t)"

lemma bt_insert_above: "\<forall>e \<in> set m. fst e < k \<Longrightarrow> bt_insert k v m = m @ [(k, v)]"
  by (induction m) (auto split: ordering.splits)

lemma add_version_first: "add_version [] v = [v]"
  using add_version_newest [of "[]" v] by simp

lemma ref_tree_put_last:
  assumes "\<forall>e \<in> set t. fst e < k"
  shows "ref_tree_put t k v l = t @ [(k, [versioned_value_new v l])]"
proof -
  have "map_of t k = None" using assms by (fastforce simp: map_of_eq_None_iff)
  then show ?thesis
    by (simp add: ref_tree_put_def entry_or_default_def add_version_first bt_insert_above [OF assms])
qed

lemma load_entries:
  assumes "ascending fst items" "\<forall>e \<in> set t. \<forall>x \<in> set items. fst e < fst x"
  shows "foldl load_entry t (map (\<lambda>(key, val). \<lparr>se_key = key, se_chain = [\<lparr>sv_value = val, sv_lsn = 1, sv_is_tombstone = False\<rparr>]\<rparr>) items)
    = t @ map (\<lambda>(key, val). (key, [versioned_value_new val 1])) items"
  using assms
proof (induction items arbitrary: t)
  case Nil
  then show ?case by simp
next
  case (Cons e items)
  obtain k v where e: "e = (k, v)" by (cases e)
  have "ref_tree_put t k v 1 = t @ [(k, [versioned_value_new v 1])]"
    using Cons.prems(2) by (intro ref_tree_put_last) (simp add: e)
  with Cons.IH [of "t @ [(k, [versioned_value_new v 1])]"] Cons.prems show ?case
    by (auto simp: e load_entry_def)
qed

lemma reload_tree:
  assumes "ascending fst t"
  shows "tree_of_serialized (serialized_of_tree t) = Ok (flat_tree t)"
  using load_entries [of "ref_tree_iter t" "[]"] ref_tree_iter_get [OF assms]
  by (simp add: tree_of_serialized_def serialized_of_tree_def flat_tree_def ref_tree_new_def)

lemma flat_tree_iter: "ref_tree_iter (flat_tree t) = ref_tree_iter t"
proof -
  have "ref_tree_iter (map (\<lambda>(key, val). (key, [versioned_value_new val 1])) items) = items" for items
    by (induction items) (auto simp: ref_tree_iter_Cons live_value_def chain_latest_def versioned_value_new_def, simp add: ref_tree_iter_def map_filter_simps)
  then show ?thesis by (simp add: flat_tree_def)
qed

lemma flat_tree_ascending: "ascending fst t \<Longrightarrow> ascending fst (flat_tree t)"
  using ref_tree_iter_get [of t] by (simp add: flat_tree_def ascending_def comp_def case_prod_beta)

lemma flat_tree_get: "ascending fst t \<Longrightarrow> ref_tree_get (flat_tree t) = ref_tree_get t"
  using ref_tree_iter_get [of t] ref_tree_iter_get [OF flat_tree_ascending, of t] by (simp add: flat_tree_iter)

lemma snapshots_wire:
  "all_ok snapshot_from_wire (map (\<lambda>(l, t). (l, map entry_to_wire (serialized_of_tree t))) visited)
    = Ok (map (\<lambda>(l, t). (l, serialized_of_tree t)) visited)"
  by (induction visited) (auto simp: snapshot_from_wire_def)

lemma load_snapshots_all:
  assumes "\<forall>(l, t) \<in> set visited. ascending fst t" "ascending fst (sr_snapshots r)" "distinct (map fst visited)"
  shows "\<exists>r'. load_snapshots r (map (\<lambda>(l, t). (l, serialized_of_tree t)) visited) = Ok r' \<and>
    sr_max_snapshots r' = sr_max_snapshots r \<and>
    get_state_at r' = get_state_at r ++ (map_option flat_tree \<circ> map_of visited)"
  using assms
proof (induction visited arbitrary: r)
  case Nil
  then show ?case by (auto simp: fun_eq_iff map_add_def)
next
  case (Cons e visited)
  obtain l t where e: "e = (l, t)" by (cases e)
  let ?r = "r\<lparr>sr_snapshots := bt_insert l (flat_tree t) (sr_snapshots r)\<rparr>"
  have "ascending fst (sr_snapshots ?r)" using Cons.prems(2) by (simp add: bt_insert_ascending)
  then obtain r' where r': "load_snapshots ?r (map (\<lambda>(l, t). (l, serialized_of_tree t)) visited) = Ok r'"
      "sr_max_snapshots r' = sr_max_snapshots r"
      "get_state_at r' = get_state_at ?r ++ (map_option flat_tree \<circ> map_of visited)"
    using Cons.IH [of ?r] Cons.prems by (auto simp: comp_def)
  have "map_of visited l = None" using Cons.prems(3) by (simp add: e map_of_eq_None_iff)
  then have "get_state_at r' = get_state_at r ++ (map_option flat_tree \<circ> map_of (e # visited))"
    using r'(3) map_of_bt_insert [OF Cons.prems(2), of l "flat_tree t"]
    by (auto simp: e get_state_at_def fun_eq_iff map_add_def split: option.splits)
  moreover have "load_snapshots r (map (\<lambda>(l, t). (l, serialized_of_tree t)) (e # visited)) = Ok r'"
    using r'(1) Cons.prems(1) by (simp add: e reload_tree)
  ultimately show ?case using r'(2) by blast
qed

text \<open>
  C37. A saved tree loads: where the JSON functions invert each other and the file takes the write, saving a tree succeeds, and loading the file gives a tree
  with the same live entries in the same order, so that every read answers alike.
\<close>

theorem saved_tree_loads:
  fixes from_json :: "'text \<Rightarrow> (string, wire_tree) res"
  assumes json_roundtrip: "\<And>w. and_then (to_json w) from_json = Ok w"
    and "ascending fst t"
  shows "\<exists>fs' t'. save_to_file to_json None t path fs = (fs', Ok ()) \<and> load_from_file from_json path fs' = Ok t' \<and>
    ref_tree_iter t' = ref_tree_iter t \<and> ref_tree_get t' = ref_tree_get t"
proof -
  obtain json where "to_json (map entry_to_wire (serialized_of_tree t)) = Ok json"
      "from_json json = Ok (map entry_to_wire (serialized_of_tree t))"
    using json_roundtrip [of "map entry_to_wire (serialized_of_tree t)"] by auto
  then show ?thesis
    using assms(2) by (simp add: save_to_file_def write_file_def load_from_file_def read_file_def ok_or_def reload_tree
        flat_tree_iter flat_tree_get)
qed

theorem saved_tree_loads_witness:
  "\<exists>fs' t'. save_to_file Ok None
       [([1], [versioned_value_new [8, 9, 255, 0] 2]), ([2, 0], [versioned_value_new [7] 1, versioned_value_tombstone (- 1)])]
       ''model'' Map.empty = (fs', Ok ()) \<and>
     load_from_file Ok ''model'' fs' = Ok t' \<and>
     ref_tree_iter t' = [([1], [8, 9, 255, 0])] \<and> ref_tree_get t' [1] = Some [8, 9, 255, 0] \<and> ref_tree_get t' [2, 0] = None"
proof -
  let ?t = "[([1], [versioned_value_new [8, 9, 255, 0] 2]), ([2, 0], [versioned_value_new [7] 1, versioned_value_tombstone (- 1)])]
    :: ref_tree"
  have "ascending fst ?t" by simp
  moreover have "ref_tree_iter ?t = [([1], [8, 9, 255, 0])]" "ref_tree_get ?t [1] = Some [8, 9, 255, 0]" "ref_tree_get ?t [2, 0] = None"
    by (simp_all add: ref_tree_iter_def ref_tree_get_def map_filter_simps live_value_def chain_latest_def
        versioned_value_new_def versioned_value_tombstone_def)
  ultimately show ?thesis using saved_tree_loads [of Ok Ok ?t "''model''" Map.empty] by auto
qed

text \<open>Loading a registry gives every snapshot's entries back, but its maximum is the default again.\<close>

theorem saved_snapshots_load:
  fixes from_json :: "'text \<Rightarrow> (string, wire_snapshots) res"
  assumes "\<And>w. and_then (to_json w) from_json = Ok w"
    and "distinct (map fst visited)" "set visited = set (sr_snapshots r)" "distinct (map fst (sr_snapshots r))"
    and "\<forall>(l, t) \<in> set visited. ascending fst t"
  shows "\<exists>fs' r'. save_snapshots_to_file to_json None visited path fs = (fs', Ok ()) \<and>
    load_snapshots_from_file from_json path fs' = Ok r' \<and>
    sr_max_snapshots r' = 100 \<and> get_state_at r' = map_option flat_tree \<circ> get_state_at r"
proof -
  let ?w = "map (\<lambda>(l, t). (l, map entry_to_wire (serialized_of_tree t))) visited"
  obtain json where json: "to_json ?w = Ok json" "from_json json = Ok ?w" using assms(1) [of ?w] by auto
  obtain r' where r': "load_snapshots snapshot_registry_new (map (\<lambda>(l, t). (l, serialized_of_tree t)) visited) = Ok r'"
      "sr_max_snapshots r' = 100"
      "get_state_at r' = get_state_at snapshot_registry_new ++ (map_option flat_tree \<circ> map_of visited)"
    using load_snapshots_all [of visited snapshot_registry_new] assms by (auto simp: snapshot_registry_new_def)
  have "map_of visited = map_of (sr_snapshots r)" using assms by (intro map_of_inject_set [THEN iffD2]) simp_all
  with r'(3) have "get_state_at r' = map_option flat_tree \<circ> get_state_at r"
    by (simp add: fun_eq_iff get_state_at_def snapshot_registry_new_def map_add_def split: option.splits)
  with json r' show ?thesis
    by (simp add: save_snapshots_to_file_def write_file_def load_snapshots_from_file_def read_file_def ok_or_def snapshots_wire)
qed

end
