(* ===== verification/Buffers.thy ===== *)
theory Buffers
  imports Errors
begin

text \<open>
  Byte buffers written and read at a moving offset, as the serializers of the sources do with
  slices: an access past the end of the buffer is the panic of a slice index. A writer copies
  chunks one behind the other; a reader takes a chunk and advances. The round-trip lemmas for
  whole formats are built from \<open>write_seq_append\<close> and \<open>read_at_append\<close>.
\<close>

section \<open>Access at an offset\<close>

definition write_at :: "nat \<Rightarrow> bytes \<Rightarrow> bytes \<Rightarrow> bytes outcome" where
  "write_at offset d bs =
     (if offset + length d \<le> length bs then Ok (take offset bs @ d @ drop (offset + length d) bs) else Panic)"

definition read_at :: "nat \<Rightarrow> nat \<Rightarrow> bytes \<Rightarrow> bytes outcome" where
  "read_at offset n bs = (if offset + n \<le> length bs then Ok (subslice offset n bs) else Panic)"

text \<open>Copying chunks one after the other; the offset advances by the length of each chunk.\<close>

fun write_seq :: "nat \<Rightarrow> bytes list \<Rightarrow> bytes \<Rightarrow> (nat \<times> bytes) outcome" where
  "write_seq offset [] bs = Ok (offset, bs)"
| "write_seq offset (c # cs) bs =
     and_then (write_at offset c bs) (\<lambda>bs'. write_seq (offset + length c) cs bs')"

section \<open>Lemmas\<close>

lemma length_write_at: "write_at offset d bs = Ok bs' \<Longrightarrow> length bs' = length bs"
  by (auto simp: write_at_def split: if_splits)

lemma write_at_append:
  "length d = length old \<Longrightarrow> write_at (length pre) d (pre @ old @ rest) = Ok (pre @ d @ rest)"
  by (simp add: write_at_def)

lemma write_seq_append:
  assumes "length (concat cs) \<le> length rest"
  shows "write_seq (length pre) cs (pre @ rest)
    = Ok (length pre + length (concat cs), pre @ concat cs @ drop (length (concat cs)) rest)"
  using assms
proof (induction cs arbitrary: pre rest)
  case Nil
  then show ?case by simp
next
  case (Cons c cs)
  have "write_at (length pre) c (pre @ rest) = Ok (pre @ c @ drop (length c) rest)"
    using Cons.prems by (simp add: write_at_def)
  moreover have "write_seq (length (pre @ c)) cs ((pre @ c) @ drop (length c) rest)
      = Ok (length (pre @ c) + length (concat cs), (pre @ c) @ concat cs @ drop (length (concat cs)) (drop (length c) rest))"
    using Cons.prems by (intro Cons.IH) simp
  ultimately show ?case by (simp add: add.commute add.left_commute)
qed

lemma write_seq_panic:
  assumes "length bs < offset + length (concat cs)" "offset \<le> length bs"
  shows "write_seq offset cs bs = Panic"
  using assms
proof (induction cs arbitrary: offset bs)
  case (Cons c cs)
  show ?case
  proof (cases "offset + length c \<le> length bs")
    case True
    then obtain bs' where "write_at offset c bs = Ok bs'" by (simp add: write_at_def)
    with Cons True length_write_at [of offset c bs bs'] show ?thesis by simp
  qed (simp add: write_at_def)
qed simp

lemma subslice_here: "k = length pre \<Longrightarrow> n = length d \<Longrightarrow> subslice k n (pre @ d @ rest) = d"
  by (simp add: subslice_def)

lemma read_at_append:
  "n = length d \<Longrightarrow> read_at (length pre) n (pre @ d @ rest) = Ok d"
  by (simp add: read_at_def subslice_def)

lemma read_at_end: "n = length d \<Longrightarrow> k = length pre \<Longrightarrow> read_at k n (pre @ d) = Ok d"
  by (simp add: read_at_def subslice_def)

end
