(* ===== verification/Node_Header.thy ===== *)
theory Node_Header
  imports Ids Checksum Buffers
begin

text \<open>
  \<^verbatim>\<open>btree/header.rs\<close>: the packed 60-byte header at the start of every B+tree node, its type tag,
  its flags and its validation.
\<close>

unbundle bit_operations_syntax

section \<open>Constants and node types\<close>

definition NODE_MAGIC :: u32 where "NODE_MAGIC = 0x4E535452"
definition NODE_HEADER_SIZE :: nat where "NODE_HEADER_SIZE = 60"
definition DEFAULT_PAGE_SIZE :: nat where "DEFAULT_PAGE_SIZE = 16384"

datatype node_type = InternalType | LeafType | RootInternalType | RootLeafType

definition node_type_from_u8 :: "u8 \<Rightarrow> node_type option" where
  "node_type_from_u8 v =
     (if v = 1 then Some InternalType else if v = 2 then Some LeafType
      else if v = 3 then Some RootInternalType else if v = 4 then Some RootLeafType else None)"

fun node_type_to_u8 :: "node_type \<Rightarrow> u8" where
  "node_type_to_u8 InternalType = 1"
| "node_type_to_u8 LeafType = 2"
| "node_type_to_u8 RootInternalType = 3"
| "node_type_to_u8 RootLeafType = 4"

fun node_type_is_root :: "node_type \<Rightarrow> bool" where
  "node_type_is_root t = (case t of RootInternalType \<Rightarrow> True | RootLeafType \<Rightarrow> True | _ \<Rightarrow> False)"

fun node_type_is_leaf :: "node_type \<Rightarrow> bool" where
  "node_type_is_leaf t = (case t of LeafType \<Rightarrow> True | RootLeafType \<Rightarrow> True | _ \<Rightarrow> False)"

fun node_type_is_internal :: "node_type \<Rightarrow> bool" where
  "node_type_is_internal t = (case t of InternalType \<Rightarrow> True | RootInternalType \<Rightarrow> True | _ \<Rightarrow> False)"

fun base_type :: "node_type \<Rightarrow> node_type" where
  "base_type RootInternalType = InternalType"
| "base_type RootLeafType = LeafType"
| "base_type t = t"

definition FLAG_DIRTY :: u32 where "FLAG_DIRTY = 0x00000001"
definition FLAG_UNDERFULL :: u32 where "FLAG_UNDERFULL = 0x00000002"
definition FLAG_OVERFLOW :: u32 where "FLAG_OVERFLOW = 0x00000004"
definition FLAG_COMPRESSED :: u32 where "FLAG_COMPRESSED = 0x00000008"
definition FLAG_DELETED :: u32 where "FLAG_DELETED = 0x00000010"
definition FLAG_SPLIT_PENDING :: u32 where "FLAG_SPLIT_PENDING = 0x00000020"
definition FLAG_MERGE_PENDING :: u32 where "FLAG_MERGE_PENDING = 0x00000040"

section \<open>The header\<close>

record node_header =
  nh_magic :: u32
  nh_node_type :: u8
  nh_is_root :: u8
  nh_num_keys :: u16
  nh_parent_page_id :: u64
  nh_right_sibling_page_id :: u64
  nh_free_space :: u16
  nh_level :: u16
  nh_checksum :: u32
  nh_flags :: u32
  nh_generation :: u64
  nh_reserved :: u64
  nh_node_id :: u64

definition node_header_new :: "node_type \<Rightarrow> page_id \<Rightarrow> u16 \<Rightarrow> node_header" where
  "node_header_new t pid lvl =
     \<lparr>nh_magic = NODE_MAGIC, nh_node_type = node_type_to_u8 t,
      nh_is_root = (if node_type_is_root t then 1 else 0), nh_num_keys = 0, nh_parent_page_id = 0,
      nh_right_sibling_page_id = 0, nh_free_space = word_of_nat (DEFAULT_PAGE_SIZE - NODE_HEADER_SIZE),
      nh_level = lvl, nh_checksum = 0, nh_flags = 0, nh_generation = 1, nh_reserved = 0, nh_node_id = pid\<rparr>"

definition node_header_validate :: "node_header \<Rightarrow> page_id \<Rightarrow> unit outcome" where
  "node_header_validate h pid =
     (if nh_magic h \<noteq> NODE_MAGIC then Err (Validation (InvalidMagic NODE_MAGIC (nh_magic h)))
      else case node_type_from_u8 (nh_node_type h) of
        None \<Rightarrow> Err (Validation (ValidationGeneric (''Invalid node type: '' @ fmt (nh_node_type h))))
      | Some t \<Rightarrow>
          (let is_root_flag = (nh_is_root h \<noteq> 0) in
           if node_type_is_root t \<noteq> is_root_flag then
             Err (Validation (ValidationGeneric ''Node type is_root flag inconsistency''))
           else if is_root_flag \<and> nh_parent_page_id h \<noteq> 0 then
             Err (Validation (ValidationGeneric ''Root node has non-zero parent''))
           else if node_type_is_leaf t \<and> nh_level h \<noteq> 0 then
             Err (Validation (InvalidLeafLevel (nh_level h)))
           else if nh_reserved h \<noteq> 0 then
             Err (Validation (InvalidReservedField (ucast (nh_reserved h))))
           else if nh_node_id h \<noteq> pid then
             Err (Validation (ValidationGeneric
               (''Node ID mismatch: header='' @ fmt (nh_node_id h) @ '', page='' @ fmt pid)))
           else Ok ()))"

definition get_node_type :: "node_header \<Rightarrow> node_type option" where
  "get_node_type h = node_type_from_u8 (nh_node_type h)"

definition is_root_node :: "node_header \<Rightarrow> bool" where
  "is_root_node h \<longleftrightarrow> nh_is_root h \<noteq> 0"

definition has_space :: "node_header \<Rightarrow> nat \<Rightarrow> bool" where
  "has_space h entry_size \<longleftrightarrow> entry_size \<le> unat (nh_free_space h)"

definition is_underfull :: "node_header \<Rightarrow> u16 \<Rightarrow> bool" where
  "is_underfull h min_entries \<longleftrightarrow> \<not> is_root_node h \<and> nh_num_keys h < min_entries"

definition has_flag :: "node_header \<Rightarrow> u32 \<Rightarrow> bool" where
  "has_flag h flag \<longleftrightarrow> nh_flags h AND flag \<noteq> 0"

definition set_flag :: "u32 \<Rightarrow> node_header \<Rightarrow> node_header" where
  "set_flag flag h = h\<lparr>nh_flags := nh_flags h OR flag\<rparr>"

definition clear_flag :: "u32 \<Rightarrow> node_header \<Rightarrow> node_header" where
  "clear_flag flag h = h\<lparr>nh_flags := nh_flags h AND NOT flag\<rparr>"

definition node_calculate_checksum :: "(bytes \<Rightarrow> u32) \<Rightarrow> bytes \<Rightarrow> u32" where
  "node_calculate_checksum crc node_bytes = checksum crc node_bytes"

definition node_verify_checksum :: "(bytes \<Rightarrow> u32) \<Rightarrow> node_header \<Rightarrow> bytes \<Rightarrow> bool" where
  "node_verify_checksum crc h node_bytes \<longleftrightarrow> node_calculate_checksum crc node_bytes = nh_checksum h"

definition increment_generation :: "node_header \<Rightarrow> node_header" where
  "increment_generation h = h\<lparr>nh_generation := nh_generation h + 1\<rparr>"

section \<open>The packed image\<close>

definition node_header_image :: "node_header \<Rightarrow> bytes" where
  "node_header_image h =
     le32 (nh_magic h) @ [nh_node_type h] @ [nh_is_root h] @ le16 (nh_num_keys h) @
     le64 (nh_parent_page_id h) @ le64 (nh_right_sibling_page_id h) @ le16 (nh_free_space h) @
     le16 (nh_level h) @ le32 (nh_checksum h) @ le32 (nh_flags h) @ le64 (nh_generation h) @
     le64 (nh_reserved h) @ le64 (nh_node_id h)"

definition node_header_read :: "bytes \<Rightarrow> node_header" where
  "node_header_read bs =
     \<lparr>nh_magic = from_le (subslice 0 4 bs), nh_node_type = from_le (subslice 4 1 bs),
      nh_is_root = from_le (subslice 5 1 bs), nh_num_keys = from_le (subslice 6 2 bs),
      nh_parent_page_id = from_le (subslice 8 8 bs), nh_right_sibling_page_id = from_le (subslice 16 8 bs),
      nh_free_space = from_le (subslice 24 2 bs), nh_level = from_le (subslice 26 2 bs),
      nh_checksum = from_le (subslice 28 4 bs), nh_flags = from_le (subslice 32 4 bs),
      nh_generation = from_le (subslice 36 8 bs), nh_reserved = from_le (subslice 44 8 bs),
      nh_node_id = from_le (subslice 52 8 bs)\<rparr>"

section \<open>Lemmas\<close>

lemma node_type_from_to [simp]: "node_type_from_u8 (node_type_to_u8 t) = Some t"
  by (cases t) (simp_all add: node_type_from_u8_def)

lemma length_node_header_image [simp]: "length (node_header_image h) = NODE_HEADER_SIZE"
  by (simp add: node_header_image_def NODE_HEADER_SIZE_def)

lemma node_header_read_image [simp]: "node_header_read (node_header_image h @ rest) = h"
  by (simp add: node_header_read_def node_header_image_def subslice_def)

text \<open>Writing four bytes at offset 28 of an image replaces the checksum field.\<close>

lemma write_checksum_field:
  "write_at 28 (le32 c) (node_header_image h @ rest) = Ok (node_header_image (h\<lparr>nh_checksum := c\<rparr>) @ rest)"
  by (simp add: write_at_def node_header_image_def)

definition node_header_wf :: "node_header \<Rightarrow> bool" where
  "node_header_wf h \<longleftrightarrow> node_header_validate h (nh_node_id h) = Ok ()"

lemma node_header_wf_iff:
  "node_header_wf h \<longleftrightarrow> nh_magic h = NODE_MAGIC \<and> nh_reserved h = 0 \<and>
     (\<exists>t. node_type_from_u8 (nh_node_type h) = Some t \<and> (node_type_is_root t \<longleftrightarrow> nh_is_root h \<noteq> 0) \<and>
        (nh_is_root h \<noteq> 0 \<longrightarrow> nh_parent_page_id h = 0) \<and> (node_type_is_leaf t \<longrightarrow> nh_level h = 0))"
  by (auto simp: node_header_wf_def node_header_validate_def Let_def split: option.splits if_splits
      simp del: node_type_is_root.simps node_type_is_leaf.simps)

lemma node_header_new_wf: "node_type_is_internal t \<or> lvl = 0 \<Longrightarrow> node_header_wf (node_header_new t pid lvl)"
  by (cases t) (auto simp: node_header_wf_def node_header_validate_def node_header_new_def node_type_from_u8_def)

text \<open>Validation does not look at the fields that the node operations change.\<close>

lemma node_header_wf_update [simp]:
  "node_header_wf (h\<lparr>nh_num_keys := n\<rparr>) = node_header_wf h"
  "node_header_wf (h\<lparr>nh_free_space := f\<rparr>) = node_header_wf h"
  "node_header_wf (h\<lparr>nh_checksum := c\<rparr>) = node_header_wf h"
  "node_header_wf (set_flag fl h) = node_header_wf h"
  "node_header_wf (increment_generation h) = node_header_wf h"
  by (simp_all add: node_header_wf_iff set_flag_def increment_generation_def)

lemma flag_simps:
  "has_flag (clear_flag fl h) fl = False"
  "fl \<noteq> 0 \<Longrightarrow> has_flag (set_flag fl h) fl"
proof -
  have "(nh_flags h AND NOT fl) AND fl = 0" by (auto simp: bit_eq_iff bit_simps)
  then show "has_flag (clear_flag fl h) fl = False" by (simp add: has_flag_def clear_flag_def)
  have "(nh_flags h OR fl) AND fl = fl" by (auto simp: bit_eq_iff bit_simps)
  then show "fl \<noteq> 0 \<Longrightarrow> has_flag (set_flag fl h) fl" by (simp add: has_flag_def set_flag_def)
qed

end
