(* ===== verification/Node.thy ===== *)
theory Node
  imports Node_Header
begin

text \<open>
  \<^verbatim>\<open>btree/node.rs\<close>: leaf and internal nodes of the B+tree, their operations and their page image.
  Unsigned arithmetic that would overflow is a panic, as in a build with overflow checks; casts
  (\<open>as u8\<close>, \<open>as u16\<close>) truncate. \<open>needs_split\<close> compares floating point ratios and is not modelled.
\<close>

section \<open>Data\<close>

definition MAX_KEY_LENGTH :: nat where "MAX_KEY_LENGTH = 255"
definition MAX_INLINE_VALUE_LENGTH :: nat where "MAX_INLINE_VALUE_LENGTH = 65535"
definition OVERFLOW_VALUE_MARKER :: u16 where "OVERFLOW_VALUE_MARKER = 0xFFFF"

record entry =
  en_key :: bytes
  en_value :: bytes
  en_lsn :: lsn

definition serialized_size :: "entry \<Rightarrow> nat" where
  "serialized_size e = 1 + length (en_key e) + 2 + length (en_value e) + 8"

record internal_node =
  in_header :: node_header
  in_separators :: "bytes list"
  in_children :: "u64 list"

record leaf_node =
  lf_header :: node_header
  lf_entries :: "entry list"
  lf_next_leaf :: u64
  lf_prev_leaf :: u64

datatype node = InternalN internal_node | LeafN leaf_node

fun node_header_of :: "node \<Rightarrow> node_header" where
  "node_header_of (InternalN n) = in_header n"
| "node_header_of (LeafN n) = lf_header n"

definition usize_sub :: "nat \<Rightarrow> nat \<Rightarrow> nat outcome" where
  "usize_sub a b = (if b \<le> a then Ok (a - b) else Panic)"

fun strictly_sorted :: "'a::linorder list \<Rightarrow> bool" where
  "strictly_sorted (x # y # zs) = (\<not> y \<le> x \<and> strictly_sorted (y # zs))"
| "strictly_sorted _ = True"

definition free_space_mismatch :: "u16 \<Rightarrow> u16 \<Rightarrow> bool" where
  "free_space_mismatch header_free calculated \<longleftrightarrow> 10 < \<bar>uint header_free - uint calculated\<bar>"

definition free_space_error :: "u16 \<Rightarrow> u16 \<Rightarrow> error" where
  "free_space_error header_free calculated =
     Validation (ValidationGeneric (''Free space mismatch: header='' @ fmt header_free @ '', calculated='' @ fmt calculated))"

section \<open>Internal nodes\<close>

definition internal_new :: "u64 \<Rightarrow> u16 \<Rightarrow> internal_node" where
  "internal_new pid lvl =
     \<lparr>in_header = node_header_new InternalType pid lvl, in_separators = [], in_children = []\<rparr>"

definition internal_insert :: "internal_node \<Rightarrow> bytes \<Rightarrow> u64 \<Rightarrow> internal_node outcome" where
  "internal_insert n separator child_id =
     (let entry_size = 1 + length separator + 8 in
      if \<not> has_space (in_header n) entry_size then Err (Storage (PagerError ''Internal node''))
      else
        let pos = search_pos (binary_search_by (\<lambda>probe. cmp probe separator) (in_separators n)) in
        if length (in_children n) < pos then Panic
        else
          let seps = vec_insert pos separator (in_separators n);
              h = (in_header n)\<lparr>nh_num_keys := word_of_nat (length seps),
                    nh_free_space := saturating_sub (nh_free_space (in_header n)) (word_of_nat entry_size)\<rparr>
          in Ok \<lparr>in_header = increment_generation (set_flag FLAG_DIRTY h), in_separators = seps,
                 in_children = vec_insert pos child_id (in_children n)\<rparr>)"

definition set_rightmost_child :: "internal_node \<Rightarrow> u64 \<Rightarrow> internal_node" where
  "set_rightmost_child n child_id =
     (if length (in_children n) \<le> length (in_separators n)
      then n\<lparr>in_children := in_children n @ [child_id]\<rparr>
      else n\<lparr>in_children := (in_children n)[length (in_children n) - 1 := child_id]\<rparr>)"

definition index_child :: "internal_node \<Rightarrow> nat \<Rightarrow> u64 outcome" where
  "index_child n i = (if i < length (in_children n) then Ok (in_children n ! i) else Panic)"

definition find_child :: "internal_node \<Rightarrow> bytes \<Rightarrow> u64 outcome" where
  "find_child n key =
     (let pos = search_pos (binary_search_by (\<lambda>probe. cmp probe key) (in_separators n)) in
      if pos < length (in_separators n) \<and> in_separators n ! pos = key
      then index_child n (pos + 1) else index_child n pos)"

definition internal_calculate_free_space :: "internal_node \<Rightarrow> u16 outcome" where
  "internal_calculate_free_space n =
     and_then (usize_sub (DEFAULT_PAGE_SIZE - NODE_HEADER_SIZE)
        (sum_list (map (\<lambda>k. 1 + length k) (in_separators n)) + length (in_children n) * 8))
       (\<lambda>free. Ok (word_of_nat free))"

definition internal_validate :: "internal_node \<Rightarrow> unit outcome" where
  "internal_validate n =
     (if \<not> strictly_sorted (in_separators n) then Err (Validation (ValidationGeneric ''Separators not sorted''))
      else if length (in_children n) \<noteq> length (in_separators n) + 1 then
        Err (Validation (ValidationGeneric (''Children count mismatch: '' @ fmt_nat (length (in_children n)) @
          '' != '' @ fmt_nat (length (in_separators n)) @ '' + 1'')))
      else and_then (internal_calculate_free_space n) (\<lambda>calculated.
        if free_space_mismatch (nh_free_space (in_header n)) calculated
        then Err (free_space_error (nh_free_space (in_header n)) calculated) else Ok ()))"

section \<open>Leaf nodes\<close>

definition leaf_new :: "u64 \<Rightarrow> leaf_node" where
  "leaf_new pid =
     (let h = node_header_new LeafType pid 0 in
      \<lparr>lf_header = h\<lparr>nh_free_space := saturating_sub (nh_free_space h) 16\<rparr>, lf_entries = [],
       lf_next_leaf = 0, lf_prev_leaf = 0\<rparr>)"

definition touch_header :: "node_header \<Rightarrow> node_header" where
  "touch_header h = increment_generation (set_flag FLAG_DIRTY h)"

definition leaf_insert :: "leaf_node \<Rightarrow> entry \<Rightarrow> (leaf_node \<times> bool) outcome" where
  "leaf_insert n e =
     (let entry_size = serialized_size e; h = lf_header n; es = lf_entries n in
      if \<not> has_space h entry_size then Err (Storage (PagerError ''Leaf node''))
      else
        let pos = search_pos (binary_search_by (\<lambda>probe. cmp (en_key probe) (en_key e)) es);
            is_update = (pos < length es \<and> en_key (es ! pos) = en_key e)
        in if is_update then
             let size_delta = int entry_size - int (serialized_size (es ! pos));
                 h1 = h\<lparr>nh_free_space := saturating_sub (nh_free_space h) (word_of_int size_delta)\<rparr>
             in Ok (n\<lparr>lf_entries := es[pos := e], lf_header := touch_header h1\<rparr>, True)
           else
             let es1 = vec_insert pos e es;
                 h1 = h\<lparr>nh_num_keys := word_of_nat (length es1),
                        nh_free_space := saturating_sub (nh_free_space h) (word_of_nat entry_size)\<rparr>
             in Ok (n\<lparr>lf_entries := es1, lf_header := touch_header h1\<rparr>, False))"

definition leaf_find :: "leaf_node \<Rightarrow> bytes \<Rightarrow> entry option" where
  "leaf_find n key =
     (case binary_search_by (\<lambda>probe. cmp (en_key probe) key) (lf_entries n) of
        NotFound pos \<Rightarrow> None
      | Found pos \<Rightarrow> Some (lf_entries n ! pos))"

definition MIN_ENTRIES :: u16 where
  "MIN_ENTRIES = word_of_nat ((DEFAULT_PAGE_SIZE - NODE_HEADER_SIZE) div 100)"

definition leaf_remove :: "leaf_node \<Rightarrow> bytes \<Rightarrow> (leaf_node \<times> entry option) outcome" where
  "leaf_remove n key =
     (case search_ok (binary_search_by (\<lambda>probe. cmp (en_key probe) key) (lf_entries n)) of
        None \<Rightarrow> Ok (n, None)
      | Some pos \<Rightarrow>
          (let e = lf_entries n ! pos; es = vec_remove pos (lf_entries n); h = lf_header n in
           case checked_add (nh_free_space h) (word_of_nat (serialized_size e)) of
             None \<Rightarrow> Panic
           | Some free \<Rightarrow>
               (let h1 = touch_header (h\<lparr>nh_num_keys := word_of_nat (length es), nh_free_space := free\<rparr>);
                    h2 = (if is_underfull h1 MIN_ENTRIES then set_flag FLAG_UNDERFULL h1 else h1)
                in Ok (n\<lparr>lf_entries := es, lf_header := h2\<rparr>, Some e))))"

definition leaf_calculate_free_space :: "leaf_node \<Rightarrow> u16 outcome" where
  "leaf_calculate_free_space n =
     and_then (usize_sub (DEFAULT_PAGE_SIZE - NODE_HEADER_SIZE - 16)
        (sum_list (map serialized_size (lf_entries n))))
       (\<lambda>free. Ok (word_of_nat free))"

definition leaf_validate :: "leaf_node \<Rightarrow> unit outcome" where
  "leaf_validate n =
     (if \<not> strictly_sorted (map en_key (lf_entries n)) then Err (Validation (ValidationGeneric ''Keys not sorted''))
      else if length (lf_entries n) \<noteq> unat (nh_num_keys (lf_header n)) then
        Err (Validation (ValidationGeneric (''Entry count mismatch: '' @ fmt_nat (length (lf_entries n)) @
          '' != '' @ fmt (nh_num_keys (lf_header n)))))
      else and_then (leaf_calculate_free_space n) (\<lambda>calculated.
        if free_space_mismatch (nh_free_space (lf_header n)) calculated
        then Err (free_space_error (nh_free_space (lf_header n)) calculated) else Ok ()))"

fun node_validate :: "node \<Rightarrow> unit outcome" where
  "node_validate (InternalN n) = internal_validate n"
| "node_validate (LeafN n) = leaf_validate n"

section \<open>Page image\<close>

definition separator_chunks :: "bytes \<times> u64 \<Rightarrow> bytes list" where
  "separator_chunks p = (case p of (sep, child) \<Rightarrow> [[word_of_nat (length sep)], sep, le64 child])"

definition entry_chunks :: "entry \<Rightarrow> bytes list" where
  "entry_chunks e =
     [[word_of_nat (length (en_key e))], en_key e, le16 (word_of_nat (length (en_value e))), en_value e, le64 (en_lsn e)]"

definition write_checksum :: "(bytes \<Rightarrow> u32) \<Rightarrow> bytes \<Rightarrow> bytes outcome" where
  "write_checksum crc bs = write_at 28 (le32 (node_calculate_checksum crc bs)) bs"

fun node_to_bytes :: "(bytes \<Rightarrow> u32) \<Rightarrow> node \<Rightarrow> bytes outcome" where
  "node_to_bytes crc (InternalN n) =
     and_then (write_at 0 (node_header_image (in_header n)) (replicate DEFAULT_PAGE_SIZE 0)) (\<lambda>bs0.
     and_then (write_seq NODE_HEADER_SIZE
        (concat (map separator_chunks (zip (in_separators n) (in_children n)))) bs0) (\<lambda>(offset, bs1).
     and_then (if length (in_separators n) < length (in_children n)
               then write_at offset (le64 (last (in_children n))) bs1 else Ok bs1) (\<lambda>bs2.
     write_checksum crc bs2)))"
| "node_to_bytes crc (LeafN n) =
     and_then (write_at 0 (node_header_image (lf_header n)) (replicate DEFAULT_PAGE_SIZE 0)) (\<lambda>bs0.
     and_then (write_seq NODE_HEADER_SIZE (concat (map entry_chunks (lf_entries n))) bs0) (\<lambda>(offset, bs1).
     and_then (write_at (DEFAULT_PAGE_SIZE - 16) (le64 (lf_next_leaf n)) bs1) (\<lambda>bs2.
     and_then (write_at (DEFAULT_PAGE_SIZE - 8) (le64 (lf_prev_leaf n)) bs2) (\<lambda>bs3.
     write_checksum crc bs3))))"

text \<open>The loops of \<open>from_bytes\<close> over the entries, with the bytes and the running offset.\<close>

fun read_separators :: "nat \<Rightarrow> bytes \<Rightarrow> nat \<Rightarrow> ((bytes \<times> u64) list \<times> nat) outcome" where
  "read_separators 0 bs offset = Ok ([], offset)"
| "read_separators (Suc k) bs offset =
     and_then (read_at offset 1 bs) (\<lambda>lenb.
       let key_len = unat (from_le lenb :: u8) in
       and_then (read_at (offset + 1) key_len bs) (\<lambda>key.
       and_then (read_at (offset + 1 + key_len) 8 bs) (\<lambda>childb.
       and_then (read_separators k bs (offset + 1 + key_len + 8)) (\<lambda>(ps, offset').
       Ok ((key, from_le childb) # ps, offset')))))"

fun read_entries :: "nat \<Rightarrow> bytes \<Rightarrow> nat \<Rightarrow> (entry list \<times> nat) outcome" where
  "read_entries 0 bs offset = Ok ([], offset)"
| "read_entries (Suc k) bs offset =
     and_then (read_at offset 1 bs) (\<lambda>lenb.
       let key_len = unat (from_le lenb :: u8) in
       and_then (read_at (offset + 1) key_len bs) (\<lambda>key.
       and_then (read_at (offset + 1 + key_len) 2 bs) (\<lambda>vlenb.
       let value_len = unat (from_le vlenb :: u16) in
       and_then (read_at (offset + 1 + key_len + 2) value_len bs) (\<lambda>val.
       and_then (read_at (offset + 1 + key_len + 2 + value_len) 8 bs) (\<lambda>lsnb.
       and_then (read_entries k bs (offset + 1 + key_len + 2 + value_len + 8)) (\<lambda>(es, offset').
       Ok (\<lparr>en_key = key, en_value = val, en_lsn = from_le lsnb\<rparr> # es, offset')))))))"

definition node_from_bytes :: "bytes \<Rightarrow> node outcome" where
  "node_from_bytes bs =
     (if length bs < NODE_HEADER_SIZE then
        Err (Validation (ValidationGeneric (''Node bytes too short: '' @ fmt_nat (length bs) @ '' < '' @ fmt_nat NODE_HEADER_SIZE)))
      else
        let h = node_header_read bs in
        and_then (node_header_validate h (nh_node_id h)) (\<lambda>_.
        and_then (ok_or (get_node_type h)
            (Validation (ValidationGeneric (''Invalid node type: '' @ fmt (nh_node_type h))))) (\<lambda>t.
          case base_type t of
            InternalType \<Rightarrow>
              and_then (read_separators (unat (nh_num_keys h)) bs NODE_HEADER_SIZE) (\<lambda>(ps, offset).
                let rest = (if offset + 8 \<le> length bs then [from_le (subslice offset 8 bs)] else [])
                in Ok (InternalN \<lparr>in_header = h, in_separators = map fst ps, in_children = map snd ps @ rest\<rparr>))
          | LeafType \<Rightarrow>
              and_then (read_entries (unat (nh_num_keys h)) bs NODE_HEADER_SIZE) (\<lambda>(es, offset).
              and_then (read_at (DEFAULT_PAGE_SIZE - 16) 8 bs) (\<lambda>nextb.
              and_then (read_at (DEFAULT_PAGE_SIZE - 8) 8 bs) (\<lambda>prevb.
                Ok (LeafN \<lparr>lf_header = h, lf_entries = es, lf_next_leaf = from_le nextb, lf_prev_leaf = from_le prevb\<rparr>))))
          | _ \<Rightarrow> Err (Validation (ValidationGeneric ''Unsupported node type'')))))"

section \<open>Leaf operations\<close>

abbreviation LEAF_CAPACITY :: nat where "LEAF_CAPACITY \<equiv> DEFAULT_PAGE_SIZE - NODE_HEADER_SIZE - 16"

definition leaf_used :: "leaf_node \<Rightarrow> nat" where
  "leaf_used n = sum_list (map serialized_size (lf_entries n))"

definition leaf_ordered :: "leaf_node \<Rightarrow> bool" where
  "leaf_ordered n \<longleftrightarrow> ascending en_key (lf_entries n) \<and> nh_num_keys (lf_header n) = word_of_nat (length (lf_entries n))"

definition leaf_inv :: "leaf_node \<Rightarrow> bool" where
  "leaf_inv n \<longleftrightarrow> leaf_ordered n \<and> leaf_used n \<le> LEAF_CAPACITY \<and>
     unat (nh_free_space (lf_header n)) = LEAF_CAPACITY - leaf_used n"

definition leaf_map :: "leaf_node \<Rightarrow> bytes \<rightharpoonup> entry" where
  "leaf_map n = key_map en_key (lf_entries n)"

lemmas page_size_defs = DEFAULT_PAGE_SIZE_def NODE_HEADER_SIZE_def

lemma touch_header_fields [simp]:
  "nh_num_keys (touch_header h) = nh_num_keys h" "nh_free_space (touch_header h) = nh_free_space h"
  "nh_is_root (touch_header h) = nh_is_root h" "node_header_wf (touch_header h) = node_header_wf h"
  by (simp_all add: touch_header_def) (simp_all add: increment_generation_def set_flag_def)

lemma set_flag_fields [simp]:
  "nh_num_keys (set_flag f h) = nh_num_keys h" "nh_free_space (set_flag f h) = nh_free_space h"
  by (simp_all add: set_flag_def)

lemma sum_list_vec_insert: "sum_list (map f (vec_insert i x xs)) = (f x :: nat) + sum_list (map f xs)"
proof -
  have "sum_list (map f (take i xs)) + sum_list (map f (drop i xs)) = sum_list (map f xs)"
    by (metis append_take_drop_id map_append sum_list_append)
  then show ?thesis by (simp add: vec_insert_def)
qed

lemma sum_list_vec_remove:
  "i < length xs \<Longrightarrow> (f (xs ! i) :: nat) + sum_list (map f (vec_remove i xs)) = sum_list (map f xs)"
  by (subst (3) id_take_nth_drop [of i xs]) (simp_all add: vec_remove_def)

lemma leaf_new_inv [inv_rules]: "leaf_inv (leaf_new pid) \<and> node_header_wf (lf_header (leaf_new pid))"
proof -
  have "unat (word_of_nat 16324 :: u16) = 16324" by (simp add: unat_of_nat)
  then have "unat (saturating_sub (word_of_nat 16324 :: u16) 16) = 16308" by (simp add: unat_saturating_sub)
  then show ?thesis
    by (simp add: leaf_inv_def leaf_ordered_def leaf_new_def leaf_used_def node_header_new_def page_size_defs Let_def)
      (simp add: node_header_wf_iff node_type_from_u8_def)
qed

lemma leaf_find_map: "ascending en_key (lf_entries n) \<Longrightarrow> leaf_find n key = leaf_map n key"
  using bsearch.lookup_key_map [of en_key "lf_entries n" key]
  by (auto simp: leaf_find_def leaf_map_def search_by_key_def split: search_result.splits)

lemma leaf_insert_new:
  assumes "ascending en_key (lf_entries n)" "leaf_map n (en_key e) = None" "has_space (lf_header n) (serialized_size e)"
  obtains i where "search_by_key en_key (en_key e) (lf_entries n) = NotFound i"
    and "leaf_insert n e = Ok (n\<lparr>lf_entries := vec_insert i e (lf_entries n),
      lf_header := touch_header ((lf_header n)\<lparr>nh_num_keys := word_of_nat (Suc (length (lf_entries n))),
        nh_free_space := saturating_sub (nh_free_space (lf_header n)) (word_of_nat (serialized_size e))\<rparr>)\<rparr>, False)"
proof -
  have notin: "en_key e \<notin> en_key ` set (lf_entries n)" using assms(2) by (simp add: leaf_map_def key_map_None)
  then obtain i where i: "search_by_key en_key (en_key e) (lf_entries n) = NotFound i"
    using bsearch.Found_iff [OF assms(1)] by (metis search_result.exhaust)
  have "\<not> (i < length (lf_entries n) \<and> en_key (lf_entries n ! i) = en_key e)" using notin by (metis imageI nth_mem)
  with i assms(3) show thesis by (intro that [OF i]) (simp add: leaf_insert_def search_by_key_def Let_def)
qed

lemma leaf_insert_update:
  assumes "ascending en_key (lf_entries n)" "leaf_map n (en_key e) = Some old" "has_space (lf_header n) (serialized_size e)"
  obtains i where "search_by_key en_key (en_key e) (lf_entries n) = Found i" "i < length (lf_entries n)" "lf_entries n ! i = old"
    and "leaf_insert n e = Ok (n\<lparr>lf_entries := (lf_entries n)[i := e],
      lf_header := touch_header ((lf_header n)\<lparr>nh_free_space := saturating_sub (nh_free_space (lf_header n))
        (word_of_int (int (serialized_size e) - int (serialized_size old)))\<rparr>)\<rparr>, True)"
proof -
  have "old \<in> set (lf_entries n)" "en_key old = en_key e"
    using assms(2) key_map_Some [OF assms(1)] by (simp_all add: leaf_map_def)
  then obtain i where i: "search_by_key en_key (en_key e) (lf_entries n) = Found i"
    using bsearch.Found_iff [OF assms(1)] by (metis imageI)
  then have "i < length (lf_entries n)" "en_key (lf_entries n ! i) = en_key e"
    using bsearch.search_Found [OF assms(1)] by auto
  moreover have "lf_entries n ! i = old"
    using bsearch.lookup_key_map [OF assms(1), of "en_key e"] i assms(2) by (simp add: leaf_map_def)
  ultimately show thesis
    using i assms(3) by (intro that [OF i]) (simp_all add: leaf_insert_def search_by_key_def Let_def)
qed

lemma leaf_size_bounds:
  assumes "leaf_inv n"
  shows "has_space (lf_header n) (serialized_size e) \<longleftrightarrow> leaf_used n + serialized_size e \<le> LEAF_CAPACITY"
    and "leaf_used n \<le> 16308"
  using assms by (auto simp: leaf_inv_def has_space_def page_size_defs serialized_size_def)

lemma leaf_insert_new_inv:
  assumes "leaf_inv n" "leaf_map n (en_key e) = None" "leaf_used n + serialized_size e \<le> LEAF_CAPACITY"
  shows "\<exists>n'. leaf_insert n e = Ok (n', False) \<and> leaf_inv n' \<and> leaf_map n' = (leaf_map n)(en_key e \<mapsto> e)
    \<and> lf_next_leaf n' = lf_next_leaf n \<and> lf_prev_leaf n' = lf_prev_leaf n
    \<and> node_header_wf (lf_header n') = node_header_wf (lf_header n)"
proof -
  have asc: "ascending en_key (lf_entries n)" using assms(1) by (simp add: leaf_inv_def leaf_ordered_def)
  obtain i where i: "search_by_key en_key (en_key e) (lf_entries n) = NotFound i"
    and ins: "leaf_insert n e = Ok (n\<lparr>lf_entries := vec_insert i e (lf_entries n),
      lf_header := touch_header ((lf_header n)\<lparr>nh_num_keys := word_of_nat (Suc (length (lf_entries n))),
        nh_free_space := saturating_sub (nh_free_space (lf_header n)) (word_of_nat (serialized_size e))\<rparr>)\<rparr>, False)"
    using leaf_insert_new [OF asc assms(2)] leaf_size_bounds(1) [OF assms(1)] assms(3) by blast
  have "unat (word_of_nat (serialized_size e) :: u16) = serialized_size e"
    using assms(3) by (simp add: unat_of_nat page_size_defs)
  then show ?thesis
    using assms bsearch.insert_ascending [OF asc i] bsearch.insert_key_map [OF asc i]
    by (simp add: ins leaf_inv_def leaf_ordered_def leaf_map_def leaf_used_def sum_list_vec_insert unat_saturating_sub)
qed

lemma leaf_insert_update_order:
  assumes "leaf_inv n" "leaf_map n (en_key e) = Some old" "leaf_used n + serialized_size e \<le> LEAF_CAPACITY"
  shows "\<exists>n'. leaf_insert n e = Ok (n', True) \<and> leaf_ordered n' \<and> leaf_map n' = (leaf_map n)(en_key e \<mapsto> e)
    \<and> lf_next_leaf n' = lf_next_leaf n \<and> lf_prev_leaf n' = lf_prev_leaf n
    \<and> node_header_wf (lf_header n') = node_header_wf (lf_header n)
    \<and> leaf_used n' + serialized_size old = leaf_used n + serialized_size e
    \<and> serialized_size old \<le> leaf_used n
    \<and> nh_free_space (lf_header n') = saturating_sub (nh_free_space (lf_header n))
        (word_of_int (int (serialized_size e) - int (serialized_size old)))"
proof -
  have asc: "ascending en_key (lf_entries n)" using assms(1) by (simp add: leaf_inv_def leaf_ordered_def)
  obtain i where i: "search_by_key en_key (en_key e) (lf_entries n) = Found i" "i < length (lf_entries n)" "lf_entries n ! i = old"
    and ins: "leaf_insert n e = Ok (n\<lparr>lf_entries := (lf_entries n)[i := e],
      lf_header := touch_header ((lf_header n)\<lparr>nh_free_space := saturating_sub (nh_free_space (lf_header n))
        (word_of_int (int (serialized_size e) - int (serialized_size old)))\<rparr>)\<rparr>, True)"
    using leaf_insert_update [OF asc assms(2)] leaf_size_bounds(1) [OF assms(1)] assms(3) by blast
  have old: "serialized_size old \<le> leaf_used n"
    using sum_list_vec_remove [OF i(2), of serialized_size] by (simp add: i(3) leaf_used_def)
  then have "sum_list (map serialized_size ((lf_entries n)[i := e])) + serialized_size old = leaf_used n + serialized_size e"
    using i(2,3) by (simp add: map_update sum_list_update leaf_used_def)
  with old assms(1) bsearch.update_ascending [OF asc i(1)] bsearch.update_key_map [OF asc i(1)] show ?thesis
    by (simp add: ins leaf_ordered_def leaf_map_def leaf_used_def leaf_inv_def)
qed

lemma word_of_int_size_delta:
  assumes "b \<le> a" "a < 65536"
  shows "unat (word_of_int (int a - int b) :: u16) = a - b"
proof -
  have "(word_of_int (int a - int b) :: u16) = word_of_nat (a - b)"
    using assms(1) by (simp add: of_nat_diff)
  with assms(2) show ?thesis by (simp add: unat_of_nat)
qed

lemma word_of_int_negative_delta:
  assumes "a < b" "b < 65536"
  shows "unat (word_of_int (int a - int b) :: u16) = 65536 - (b - a)"
proof -
  have "(int a - int b) mod 65536 = (int a - int b + 65536) mod 65536" by simp
  also have "\<dots> = int a - int b + 65536" by (rule mod_pos_pos_trivial) (use assms in auto)
  also have "\<dots> = int (65536 - (b - a))" using assms by (simp add: of_nat_diff)
  finally have "(word_of_int (int a - int b) :: u16) = word_of_int (int (65536 - (b - a)))"
    by (intro word_of_int_eq_iff [THEN iffD2]) (simp add: take_bit_eq_mod)
  then have "unat (word_of_int (int a - int b) :: u16) = unat (word_of_nat (65536 - (b - a)) :: u16)"
    by (simp only: of_int_of_nat_eq)
  also have "\<dots> = 65536 - (b - a)" by (subst unat_of_nat) (use assms in simp)
  finally show ?thesis .
qed

lemma leaf_remove_correct_lemma:
  assumes "leaf_inv n"
  shows "\<exists>n'. leaf_remove n key = Ok (n', leaf_map n key) \<and> leaf_inv n' \<and> leaf_map n' = (leaf_map n)(key := None)
    \<and> lf_next_leaf n' = lf_next_leaf n \<and> lf_prev_leaf n' = lf_prev_leaf n
    \<and> node_header_wf (lf_header n') = node_header_wf (lf_header n)"
proof (cases "search_by_key en_key key (lf_entries n)")
  case (NotFound i)
  have "ascending en_key (lf_entries n)" using assms by (simp add: leaf_inv_def leaf_ordered_def)
  from bsearch.lookup_key_map [OF this, of key] NotFound have "leaf_map n key = None" by (simp add: leaf_map_def)
  with NotFound assms show ?thesis by (simp add: leaf_remove_def search_by_key_def fun_upd_idem)
next
  case (Found i)
  have asc: "ascending en_key (lf_entries n)" using assms by (simp add: leaf_inv_def leaf_ordered_def)
  have i: "i < length (lf_entries n)" using bsearch.search_Found [OF asc Found] by simp
  let ?e = "lf_entries n ! i" and ?free = "nh_free_space (lf_header n)"
  have e: "leaf_map n key = Some ?e"
    using bsearch.lookup_key_map [OF asc, of key] Found by (simp add: leaf_map_def)
  have used: "serialized_size ?e + sum_list (map serialized_size (vec_remove i (lf_entries n))) = leaf_used n"
    unfolding leaf_used_def by (rule sum_list_vec_remove [OF i])
  then have sz: "unat (word_of_nat (serialized_size ?e) :: u16) = serialized_size ?e"
    using leaf_size_bounds(2) [OF assms] by (simp add: unat_of_nat)
  then have "unat ?free + unat (word_of_nat (serialized_size ?e) :: u16) < 2 ^ 16"
    using assms used by (simp add: leaf_inv_def page_size_defs)
  then have add: "checked_add ?free (word_of_nat (serialized_size ?e)) = Some (?free + word_of_nat (serialized_size ?e))"
    and sum: "unat (?free + word_of_nat (serialized_size ?e)) = unat ?free + serialized_size ?e"
    by (simp_all add: checked_add_def sz unat_word_ariths)
  have "unat ?free + serialized_size ?e = LEAF_CAPACITY - sum_list (map serialized_size (vec_remove i (lf_entries n)))"
    using assms used by (simp add: leaf_inv_def page_size_defs)
  with Found assms used sum add e bsearch.remove_ascending [OF asc, of i] bsearch.remove_key_map [OF asc Found]
  show ?thesis
    by (simp add: leaf_remove_def search_by_key_def Let_def leaf_inv_def leaf_ordered_def leaf_map_def leaf_used_def i)
qed

lemma strictly_sorted_iff: "strictly_sorted xs \<longleftrightarrow> sorted_wrt (<) xs"
  by (induction xs rule: strictly_sorted.induct) (auto simp: not_le dest: less_trans)

lemma leaf_entry_count: "11 * length (lf_entries n) \<le> leaf_used n"
proof -
  have "11 * length es \<le> sum_list (map serialized_size es)" for es
    by (induction es) (auto simp: serialized_size_def)
  then show ?thesis by (simp add: leaf_used_def)
qed

lemma leaf_inv_count: "leaf_inv n \<Longrightarrow> unat (nh_num_keys (lf_header n)) = length (lf_entries n)"
  using leaf_entry_count [of n] leaf_size_bounds(2) [of n]
  by (simp add: leaf_inv_def leaf_ordered_def unat_of_nat)

lemma leaf_inv_validate: "leaf_inv n \<Longrightarrow> leaf_validate n = Ok ()"
proof -
  assume inv: "leaf_inv n"
  have "leaf_calculate_free_space n = Ok (nh_free_space (lf_header n))"
    using inv word_of_nat_unat_eq [of "nh_free_space (lf_header n)" "LEAF_CAPACITY - leaf_used n"]
    by (simp add: leaf_calculate_free_space_def usize_sub_def leaf_inv_def leaf_used_def del: of_nat_diff)
  with inv leaf_inv_count [OF inv] show ?thesis
    by (simp add: leaf_validate_def strictly_sorted_iff leaf_inv_def leaf_ordered_def ascending_def free_space_mismatch_def)
qed

section \<open>Page image\<close>

definition entry_fits :: "entry \<Rightarrow> bool" where
  "entry_fits e \<longleftrightarrow> length (en_key e) \<le> MAX_KEY_LENGTH \<and> length (en_value e) \<le> MAX_INLINE_VALUE_LENGTH"

lemma length_entry_chunks: "length (concat (entry_chunks e)) = serialized_size e"
  by (simp add: entry_chunks_def serialized_size_def)

lemma length_entries_chunks:
  "length (concat (concat (map entry_chunks es))) = sum_list (map serialized_size es)"
  by (induction es) (simp_all add: length_entry_chunks)

lemma unat_key_len: "k \<le> MAX_KEY_LENGTH \<Longrightarrow> unat (word_of_nat k :: u8) = k"
  by (simp add: unat_of_nat MAX_KEY_LENGTH_def)

lemma unat_value_len: "k \<le> MAX_INLINE_VALUE_LENGTH \<Longrightarrow> unat (word_of_nat k :: u16) = k"
  by (simp add: unat_of_nat MAX_INLINE_VALUE_LENGTH_def)

lemma read_at_here: "length d = n \<Longrightarrow> offset = length pre \<Longrightarrow> read_at offset n (pre @ d @ rest) = Ok d"
  by (simp add: read_at_append)

lemma read_entries_image:
  assumes "\<forall>e \<in> set es. entry_fits e" "offset = length pre"
  shows "read_entries (length es) (pre @ concat (concat (map entry_chunks es)) @ rest) offset
    = Ok (es, offset + sum_list (map serialized_size es))"
  using assms
proof (induction es arbitrary: pre offset)
  case Nil
  then show ?case by simp
next
  case (Cons e es)
  let ?bs = "pre @ concat (concat (map entry_chunks (e # es))) @ rest"
  let ?kl = "[word_of_nat (length (en_key e))] :: bytes" and ?vl = "le16 (word_of_nat (length (en_value e)))"
  let ?tail = "concat (concat (map entry_chunks es)) @ rest"
  have bs: "?bs = pre @ ?kl @ en_key e @ ?vl @ en_value e @ le64 (en_lsn e) @ ?tail"
    by (simp add: entry_chunks_def)
  have fits: "unat (word_of_nat (length (en_key e)) :: u8) = length (en_key e)"
    "unat (word_of_nat (length (en_value e)) :: u16) = length (en_value e)"
    using Cons.prems(1) by (simp_all add: entry_fits_def unat_key_len unat_value_len)
  have r1: "read_at offset 1 ?bs = Ok ?kl"
    using Cons.prems(2) unfolding bs by (intro read_at_here) simp_all
  have r2: "read_at (offset + 1) (length (en_key e)) ?bs = Ok (en_key e)"
    using Cons.prems(2) read_at_here [of "en_key e" "length (en_key e)" "offset + 1" "pre @ ?kl"] unfolding bs by simp
  have r3: "read_at (offset + 1 + length (en_key e)) 2 ?bs = Ok ?vl"
    using Cons.prems(2) read_at_here [of ?vl 2 "offset + 1 + length (en_key e)" "pre @ ?kl @ en_key e"] unfolding bs by simp
  have r4: "read_at (offset + 1 + length (en_key e) + 2) (length (en_value e)) ?bs = Ok (en_value e)"
    using Cons.prems(2) read_at_here [of "en_value e" "length (en_value e)" "offset + 1 + length (en_key e) + 2"
        "pre @ ?kl @ en_key e @ ?vl"] unfolding bs by simp
  have r5: "read_at (offset + 1 + length (en_key e) + 2 + length (en_value e)) 8 ?bs = Ok (le64 (en_lsn e))"
    using Cons.prems(2) read_at_here [of "le64 (en_lsn e)" 8 "offset + 1 + length (en_key e) + 2 + length (en_value e)"
        "pre @ ?kl @ en_key e @ ?vl @ en_value e"] unfolding bs by simp
  have r6: "read_entries (length es) ?bs (offset + 1 + length (en_key e) + 2 + length (en_value e) + 8)
      = Ok (es, offset + 1 + length (en_key e) + 2 + length (en_value e) + 8 + sum_list (map serialized_size es))"
    using Cons.prems Cons.IH [of _ "pre @ ?kl @ en_key e @ ?vl @ en_value e @ le64 (en_lsn e)"] unfolding bs by (simp add: ac_simps)
  show ?case
    using r1 r2 r3 r4 r5 r6 by (simp add: fits serialized_size_def [of e] del: concat.simps map_append concat_append)
qed

lemma write_header_image:
  "write_at 0 (node_header_image h) (replicate DEFAULT_PAGE_SIZE 0)
     = Ok (node_header_image h @ replicate (DEFAULT_PAGE_SIZE - NODE_HEADER_SIZE) 0)"
  by (simp add: write_at_def page_size_defs)

lemma write_body:
  assumes "length (concat cs) + k = DEFAULT_PAGE_SIZE - NODE_HEADER_SIZE"
  shows "write_seq NODE_HEADER_SIZE cs (node_header_image h @ replicate (DEFAULT_PAGE_SIZE - NODE_HEADER_SIZE) 0)
    = Ok (NODE_HEADER_SIZE + length (concat cs), node_header_image h @ concat cs @ replicate k 0)"
  using write_seq_append [of cs "replicate (DEFAULT_PAGE_SIZE - NODE_HEADER_SIZE) 0" "node_header_image h"] assms
  by (simp del: length_concat)

lemma write_checksum_image:
  "write_checksum crc (node_header_image h @ rest) =
     Ok (node_header_image (h\<lparr>nh_checksum := checksum crc (node_header_image h @ rest)\<rparr>) @ rest)"
  by (simp add: write_checksum_def node_calculate_checksum_def write_checksum_field)

text \<open>The image of a leaf, and of an internal node, as one string.\<close>

definition leaf_body :: "leaf_node \<Rightarrow> bytes" where
  "leaf_body n = concat (concat (map entry_chunks (lf_entries n))) @ replicate (LEAF_CAPACITY - leaf_used n) 0
     @ le64 (lf_next_leaf n) @ le64 (lf_prev_leaf n)"

lemma leaf_to_bytes_image:
  assumes "leaf_used n \<le> LEAF_CAPACITY"
  shows "node_to_bytes crc (LeafN n) = Ok (node_header_image ((lf_header n)\<lparr>nh_checksum :=
     checksum crc (node_header_image (lf_header n) @ leaf_body n)\<rparr>) @ leaf_body n)"
proof -
  let ?h = "node_header_image (lf_header n)" and ?b = "concat (concat (map entry_chunks (lf_entries n)))"
  let ?z = "replicate (LEAF_CAPACITY - leaf_used n) (0 :: u8)"
  have len: "length ?b = leaf_used n" by (simp only: length_entries_chunks leaf_used_def)
  have pre: "length (?h @ ?b @ ?z) = DEFAULT_PAGE_SIZE - 16" "length (?h @ ?b @ ?z @ le64 (lf_next_leaf n)) = DEFAULT_PAGE_SIZE - 8"
    using assms by (simp_all add: len page_size_defs del: length_concat)
  have z: "replicate (LEAF_CAPACITY - leaf_used n + 16) (0 :: u8) = ?z @ replicate 8 0 @ replicate 8 0"
    by (simp only: replicate_add [symmetric]) simp
  have total: "length ?b + (LEAF_CAPACITY - leaf_used n + 16) = DEFAULT_PAGE_SIZE - NODE_HEADER_SIZE"
    using assms by (simp add: len page_size_defs del: length_concat)
  have "write_seq NODE_HEADER_SIZE (concat (map entry_chunks (lf_entries n))) (?h @ replicate (DEFAULT_PAGE_SIZE - NODE_HEADER_SIZE) 0)
      = Ok (NODE_HEADER_SIZE + leaf_used n, ?h @ ?b @ ?z @ replicate 8 0 @ replicate 8 0)"
    using write_body [OF total, of "lf_header n"] by (simp only: len z append_assoc)
  moreover have "write_at (DEFAULT_PAGE_SIZE - 16) (le64 (lf_next_leaf n)) (?h @ ?b @ ?z @ replicate 8 0 @ replicate 8 0)
      = Ok (?h @ ?b @ ?z @ le64 (lf_next_leaf n) @ replicate 8 0)"
    using write_at_append [of "le64 (lf_next_leaf n)" "replicate 8 0" "?h @ ?b @ ?z"] pre(1) by simp
  moreover have "write_at (DEFAULT_PAGE_SIZE - 8) (le64 (lf_prev_leaf n)) (?h @ ?b @ ?z @ le64 (lf_next_leaf n) @ replicate 8 0)
      = Ok (?h @ leaf_body n)"
    using write_at_append [of "le64 (lf_prev_leaf n)" "replicate 8 0" "?h @ ?b @ ?z @ le64 (lf_next_leaf n)" "[]"] pre(2)
    by (simp add: leaf_body_def)
  ultimately show ?thesis
    by (simp add: write_header_image write_checksum_image)
qed

lemma leaf_from_image:
  assumes "node_header_wf h" "get_node_type h = Some t" "base_type t = LeafType" "leaf_used n \<le> LEAF_CAPACITY"
    and "unat (nh_num_keys h) = length (lf_entries n)" "\<forall>e \<in> set (lf_entries n). entry_fits e"
  shows "node_from_bytes (node_header_image h @ leaf_body n) = Ok (LeafN (n\<lparr>lf_header := h\<rparr>))"
proof -
  let ?bs = "node_header_image h @ leaf_body n" and ?b = "concat (concat (map entry_chunks (lf_entries n)))"
  let ?z = "replicate (LEAF_CAPACITY - leaf_used n) (0 :: u8)"
  have len: "length ?b = leaf_used n" by (simp only: length_entries_chunks leaf_used_def)
  have pre: "length (node_header_image h @ ?b @ ?z) = DEFAULT_PAGE_SIZE - 16"
    "length (node_header_image h @ ?b @ ?z @ le64 (lf_next_leaf n)) = DEFAULT_PAGE_SIZE - 8"
    using assms(4) by (simp_all add: len page_size_defs del: length_concat)
  have entries: "read_entries (length (lf_entries n)) ?bs NODE_HEADER_SIZE
      = Ok (lf_entries n, NODE_HEADER_SIZE + sum_list (map serialized_size (lf_entries n)))"
    unfolding leaf_body_def by (rule read_entries_image [OF assms(6)]) simp
  have "read_at (DEFAULT_PAGE_SIZE - 16) 8 ?bs = Ok (le64 (lf_next_leaf n))"
    using read_at_here [of "le64 (lf_next_leaf n)" 8 "DEFAULT_PAGE_SIZE - 16" "node_header_image h @ ?b @ ?z"] pre(1)
    by (simp add: leaf_body_def)
  moreover have "read_at (DEFAULT_PAGE_SIZE - 8) 8 ?bs = Ok (le64 (lf_prev_leaf n))"
    using read_at_here [of "le64 (lf_prev_leaf n)" 8 "DEFAULT_PAGE_SIZE - 8"
        "node_header_image h @ ?b @ ?z @ le64 (lf_next_leaf n)" "[]"] pre(2)
    by (simp add: leaf_body_def)
  ultimately show ?thesis
    using assms(1-3,5) entries by (simp add: node_from_bytes_def Let_def node_header_wf_def ok_or_def)
qed

definition separator_size :: "bytes \<Rightarrow> nat" where
  "separator_size k = 1 + length k + 8"

lemma length_separator_chunks:
  "length (concat (concat (map separator_chunks ps))) = sum_list (map (separator_size \<circ> fst) ps)"
  by (induction ps) (auto simp: separator_chunks_def separator_size_def split: prod.splits)

lemma read_separators_image:
  assumes "\<forall>p \<in> set ps. length (fst p) \<le> MAX_KEY_LENGTH" "offset = length pre"
  shows "read_separators (length ps) (pre @ concat (concat (map separator_chunks ps)) @ rest) offset
    = Ok (ps, offset + sum_list (map (separator_size \<circ> fst) ps))"
  using assms
proof (induction ps arbitrary: pre offset)
  case Nil
  then show ?case by simp
next
  case (Cons p ps)
  obtain sep child where p: "p = (sep, child)" by (cases p)
  let ?bs = "pre @ concat (concat (map separator_chunks (p # ps))) @ rest"
  let ?kl = "[word_of_nat (length sep)] :: bytes"
  have bs: "?bs = pre @ ?kl @ sep @ le64 child @ concat (concat (map separator_chunks ps)) @ rest"
    by (simp add: p separator_chunks_def)
  have fits: "unat (word_of_nat (length sep) :: u8) = length sep"
    using Cons.prems(1) by (simp add: p unat_key_len)
  have r1: "read_at offset 1 ?bs = Ok ?kl"
    using Cons.prems(2) unfolding bs by (intro read_at_here) simp_all
  have r2: "read_at (offset + 1) (length sep) ?bs = Ok sep"
    using Cons.prems(2) read_at_here [of sep "length sep" "offset + 1" "pre @ ?kl"] unfolding bs by simp
  have r3: "read_at (offset + 1 + length sep) 8 ?bs = Ok (le64 child)"
    using Cons.prems(2) read_at_here [of "le64 child" 8 "offset + 1 + length sep" "pre @ ?kl @ sep"] unfolding bs by simp
  have r4: "read_separators (length ps) ?bs (offset + 1 + length sep + 8)
      = Ok (ps, offset + 1 + length sep + 8 + sum_list (map (separator_size \<circ> fst) ps))"
    using Cons.prems Cons.IH [of _ "pre @ ?kl @ sep @ le64 child"] unfolding bs by (simp add: ac_simps comp_def)
  show ?case
    using r1 r2 r3 r4 by (simp add: p fits comp_def separator_size_def [of sep] del: concat.simps map_append concat_append)
qed

definition internal_used :: "internal_node \<Rightarrow> nat" where
  "internal_used n = sum_list (map separator_size (in_separators n)) + 8"

definition internal_body :: "internal_node \<Rightarrow> bytes" where
  "internal_body n = concat (concat (map separator_chunks (zip (in_separators n) (in_children n))))
     @ le64 (last (in_children n)) @ replicate (DEFAULT_PAGE_SIZE - NODE_HEADER_SIZE - internal_used n) 0"

lemma length_internal_chunks:
  assumes "length (in_children n) = Suc (length (in_separators n))"
  shows "length (concat (concat (map separator_chunks (zip (in_separators n) (in_children n))))) + 8 = internal_used n"
  using assms by (simp only: length_separator_chunks internal_used_def map_map [symmetric] map_fst_zip_take) simp

lemma internal_to_bytes_image:
  assumes "internal_used n \<le> DEFAULT_PAGE_SIZE - NODE_HEADER_SIZE" "length (in_children n) = Suc (length (in_separators n))"
  shows "node_to_bytes crc (InternalN n) = Ok (node_header_image ((in_header n)\<lparr>nh_checksum :=
     checksum crc (node_header_image (in_header n) @ internal_body n)\<rparr>) @ internal_body n)"
proof -
  let ?h = "node_header_image (in_header n)"
  let ?cs = "concat (map separator_chunks (zip (in_separators n) (in_children n)))"
  let ?k = "DEFAULT_PAGE_SIZE - NODE_HEADER_SIZE - internal_used n"
  note len = length_internal_chunks [OF assms(2)]
  have total: "length (concat ?cs) + (8 + ?k) = DEFAULT_PAGE_SIZE - NODE_HEADER_SIZE"
    using assms(1) len by linarith
  have "write_seq NODE_HEADER_SIZE ?cs (?h @ replicate (DEFAULT_PAGE_SIZE - NODE_HEADER_SIZE) 0)
      = Ok (NODE_HEADER_SIZE + length (concat ?cs), (?h @ concat ?cs) @ replicate 8 0 @ replicate ?k 0)"
    using write_body [OF total, of "in_header n"] by (simp only: replicate_add append_assoc)
  moreover have "write_at (NODE_HEADER_SIZE + length (concat ?cs)) (le64 (last (in_children n)))
      ((?h @ concat ?cs) @ replicate 8 0 @ replicate ?k 0) = Ok (?h @ internal_body n)"
    using write_at_append [of "le64 (last (in_children n))" "replicate 8 0" "?h @ concat ?cs" "replicate ?k 0"]
    by (simp add: internal_body_def)
  ultimately show ?thesis
    using assms(2) by (simp add: write_header_image write_checksum_image del: length_concat append_assoc)
qed

lemma internal_from_image:
  assumes "node_header_wf h" "get_node_type h = Some t" "base_type t = InternalType"
    and "unat (nh_num_keys h) = length (in_separators n)" "\<forall>k \<in> set (in_separators n). length k \<le> MAX_KEY_LENGTH"
    and "internal_used n \<le> DEFAULT_PAGE_SIZE - NODE_HEADER_SIZE" "length (in_children n) = Suc (length (in_separators n))"
  shows "node_from_bytes (node_header_image h @ internal_body n) = Ok (InternalN (n\<lparr>in_header := h\<rparr>))"
proof -
  let ?ps = "zip (in_separators n) (in_children n)"
  let ?b = "concat (concat (map separator_chunks ?ps))" and ?bs = "node_header_image h @ internal_body n"
  let ?z = "replicate (DEFAULT_PAGE_SIZE - NODE_HEADER_SIZE - internal_used n) (0 :: u8)"
  have len: "length ?b = sum_list (map (separator_size \<circ> fst) ?ps)" by (rule length_separator_chunks)
  have "\<forall>p \<in> set ?ps. length (fst p) \<le> MAX_KEY_LENGTH" using assms(5) by (auto dest: set_zip_leftD)
  then have "read_separators (length ?ps) ?bs NODE_HEADER_SIZE = Ok (?ps, NODE_HEADER_SIZE + length ?b)"
    unfolding internal_body_def len by (rule read_separators_image) simp
  moreover have "length ?ps = length (in_separators n)" using assms(7) by simp
  moreover have "NODE_HEADER_SIZE + length ?b + 8 \<le> length ?bs"
    by (simp add: internal_body_def)
  moreover have "subslice (NODE_HEADER_SIZE + length ?b) 8 ?bs = le64 (last (in_children n))"
    by (simp add: internal_body_def subslice_def)
  moreover have "map fst ?ps = in_separators n" using assms(7) by (simp add: map_fst_zip_take)
  moreover have "map snd ?ps @ [last (in_children n)] = in_children n"
    using assms(7) append_butlast_last_id [of "in_children n"]
    by (cases "in_children n = []") (auto simp: map_snd_zip_take butlast_conv_take)
  ultimately show ?thesis
    using assms(1-4) by (simp add: node_from_bytes_def Let_def node_header_wf_def ok_or_def del: length_concat)
qed

section \<open>Routing in an internal node\<close>

definition children_of :: "internal_node \<Rightarrow> bytes \<Rightarrow> nat" where
  "children_of n key = length (filter (\<lambda>s. s \<le> key) (in_separators n))"

lemma filter_le_prefix:
  assumes "ascending id xs" "i \<le> length xs" "\<forall>x \<in> set (take i xs). x \<le> k" "\<forall>x \<in> set (drop i xs). k < x"
  shows "length (filter (\<lambda>s. s \<le> k) xs) = i"
proof -
  have "filter (\<lambda>s. s \<le> k) (take i xs @ drop i xs) = take i xs"
    using assms(3,4) by (simp add: filter_empty_conv not_le del: append_take_drop_id)
  then show ?thesis using assms(2) by simp
qed

lemma find_child_position:
  assumes "ascending id (in_separators n)"
  shows "find_child n key = index_child n (children_of n key)"
proof (cases "search_by_key id key (in_separators n)")
  case (NotFound i)
  note nf = bsearch.search_NotFound [OF assms NotFound]
  have "i < length (in_separators n) \<Longrightarrow> in_separators n ! i \<noteq> key"
    using bsearch.NotFound_notin [OF assms NotFound] nth_mem [of i "in_separators n"] by auto
  moreover have "children_of n key = i"
    unfolding children_of_def using nf by (intro filter_le_prefix [OF assms]) (auto intro: less_imp_le)
  ultimately show ?thesis
    using NotFound by (auto simp: find_child_def search_by_key_def Let_def)
next
  case (Found i)
  have i: "i < length (in_separators n)" "in_separators n ! i = key" using bsearch.search_Found [OF assms Found] by auto
  have "ascending id (take i (in_separators n) @ key # drop (Suc i) (in_separators n))"
    using assms id_take_nth_drop [OF i(1)] i(2) by simp
  then have "\<forall>x \<in> set (take (Suc i) (in_separators n)). x \<le> key" "\<forall>x \<in> set (drop (Suc i) (in_separators n)). key < x"
    using i by (auto simp: ascending_append take_Suc_conv_app_nth)
  then have "children_of n key = Suc i"
    unfolding children_of_def using i(1) by (intro filter_le_prefix [OF assms]) auto
  with Found i show ?thesis by (simp add: find_child_def search_by_key_def Let_def)
qed

section \<open>Nodes that fit their page\<close>

fun node_fits :: "node \<Rightarrow> bool" where
  "node_fits (LeafN n) \<longleftrightarrow> node_header_wf (lf_header n) \<and> map_option base_type (get_node_type (lf_header n)) = Some LeafType
     \<and> leaf_used n \<le> LEAF_CAPACITY \<and> unat (nh_num_keys (lf_header n)) = length (lf_entries n)
     \<and> (\<forall>e \<in> set (lf_entries n). entry_fits e)"
| "node_fits (InternalN n) \<longleftrightarrow> node_header_wf (in_header n) \<and> map_option base_type (get_node_type (in_header n)) = Some InternalType
     \<and> internal_used n \<le> DEFAULT_PAGE_SIZE - NODE_HEADER_SIZE \<and> unat (nh_num_keys (in_header n)) = length (in_separators n)
     \<and> length (in_children n) = Suc (length (in_separators n)) \<and> (\<forall>k \<in> set (in_separators n). length k \<le> MAX_KEY_LENGTH)"

fun with_checksum :: "u32 \<Rightarrow> node \<Rightarrow> node" where
  "with_checksum c (LeafN n) = LeafN (n\<lparr>lf_header := (lf_header n)\<lparr>nh_checksum := c\<rparr>\<rparr>)"
| "with_checksum c (InternalN n) = InternalN (n\<lparr>in_header := (in_header n)\<lparr>nh_checksum := c\<rparr>\<rparr>)"

lemma get_node_type_checksum [simp]: "get_node_type (h\<lparr>nh_checksum := c\<rparr>) = get_node_type h"
  by (simp add: get_node_type_def)

lemma length_leaf_image:
  "leaf_used n \<le> LEAF_CAPACITY \<Longrightarrow> length (node_header_image h @ leaf_body n) = DEFAULT_PAGE_SIZE"
  using length_entries_chunks [of "lf_entries n"]
  by (simp add: leaf_body_def page_size_defs leaf_used_def del: length_concat)

lemma length_internal_image:
  assumes "internal_used n \<le> DEFAULT_PAGE_SIZE - NODE_HEADER_SIZE" "length (in_children n) = Suc (length (in_separators n))"
  shows "length (node_header_image h @ internal_body n) = DEFAULT_PAGE_SIZE"
  using length_internal_chunks [OF assms(2)] assms(1)
  by (simp add: internal_body_def page_size_defs del: length_concat)

lemma node_from_bytes_leaf:
  assumes "node_from_bytes bs = Ok (LeafN m)"
  shows "\<exists>offset. read_entries (unat (nh_num_keys (node_header_read bs))) bs NODE_HEADER_SIZE = Ok (lf_entries m, offset)"
proof -
  obtain t where "get_node_type (node_header_read bs) = Some t"
    using assms by (auto simp: node_from_bytes_def Let_def split: if_splits)
  with assms show ?thesis
    by (cases "base_type t") (auto simp: node_from_bytes_def Let_def ok_or_def split: if_splits prod.splits)
qed

lemma read_entries_first_key:
  assumes "read_entries (Suc k) bs offset = Ok (es, offset')" "read_at offset 1 bs = Ok [b]"
  shows "\<exists>e es'. es = e # es' \<and> length (en_key e) = unat b"
  using assms by (auto simp: Let_def read_at_def split: if_splits prod.splits)

section \<open>Properties\<close>

text \<open>
  C13. Inserting in a leaf. On a leaf whose keys are ordered and whose free space is accounted for,
  \<open>insert\<close> refuses exactly the entries that do not fit; otherwise it tells whether the key was
  there, and the leaf then maps the key to the new entry and every other key as before, with keys
  still ordered and found by \<open>find\<close>. The free space stays exact when the entry is new or not
  smaller than the one it replaces.
\<close>

theorem leaf_insert_correct:
  assumes "leaf_inv n"
  shows "if LEAF_CAPACITY < leaf_used n + serialized_size e then leaf_insert n e = Err (Storage (PagerError ''Leaf node''))
    else \<exists>n'. leaf_insert n e = Ok (n', leaf_map n (en_key e) \<noteq> None) \<and> leaf_ordered n'
      \<and> leaf_find n' = (leaf_find n)(en_key e \<mapsto> e) \<and> lf_next_leaf n' = lf_next_leaf n \<and> lf_prev_leaf n' = lf_prev_leaf n
      \<and> ((\<forall>old. leaf_find n (en_key e) = Some old \<longrightarrow> serialized_size old \<le> serialized_size e) \<longrightarrow> leaf_inv n')"
proof (cases "LEAF_CAPACITY < leaf_used n + serialized_size e")
  case True
  then show ?thesis using leaf_size_bounds(1) [OF assms, of e] by (simp add: leaf_insert_def Let_def)
next
  case False
  then have fit: "leaf_used n + serialized_size e \<le> LEAF_CAPACITY" by simp
  have find: "leaf_ordered m \<Longrightarrow> leaf_find m = leaf_map m" for m
    by (simp add: fun_eq_iff leaf_find_map leaf_ordered_def)
  have "leaf_ordered n" using assms by (simp add: leaf_inv_def)
  note find_n = find [OF this]
  show ?thesis
  proof (cases "leaf_map n (en_key e)")
    case None
    with leaf_insert_new_inv [OF assms None fit] False find_n show ?thesis
      by (auto simp: find leaf_inv_def)
  next
    case (Some old)
    then obtain n' where n': "leaf_insert n e = Ok (n', True)" "leaf_ordered n'" "leaf_map n' = (leaf_map n)(en_key e \<mapsto> e)"
        "lf_next_leaf n' = lf_next_leaf n" "lf_prev_leaf n' = lf_prev_leaf n"
        "leaf_used n' + serialized_size old = leaf_used n + serialized_size e" "serialized_size old \<le> leaf_used n"
        "nh_free_space (lf_header n') = saturating_sub (nh_free_space (lf_header n))
           (word_of_int (int (serialized_size e) - int (serialized_size old)))"
      using leaf_insert_update_order [OF assms Some fit] by blast
    have "leaf_inv n'" if "serialized_size old \<le> serialized_size e"
    proof -
      have "serialized_size e < 65536" using fit by (simp add: page_size_defs)
      with that n'(8) have "unat (nh_free_space (lf_header n'))
          = unat (nh_free_space (lf_header n)) - (serialized_size e - serialized_size old)"
        by (simp only: unat_saturating_sub word_of_int_size_delta)
      with assms n'(2,6) fit that show ?thesis by (auto simp: leaf_inv_def)
    qed
    with n' Some False find_n show ?thesis by (auto simp: find)
  qed
qed

theorem leaf_insert_correct_witness:
  "\<exists>n'. leaf_insert (leaf_new 5) \<lparr>en_key = [1], en_value = [2], en_lsn = 3\<rparr> = Ok (n', False) \<and> leaf_inv n'"
  using leaf_insert_correct [of "leaf_new 5" "\<lparr>en_key = [1], en_value = [2], en_lsn = 3\<rparr>"] leaf_new_inv [of 5]
  by (auto simp: leaf_used_def leaf_new_def Let_def serialized_size_def page_size_defs leaf_map_def key_map_def
      leaf_find_def binary_search_by_def)

text \<open>
  Removing from a leaf. \<open>remove\<close> never panics on a consistent leaf, returns the entry that was
  stored under the key, and leaves a consistent leaf, one that passes \<open>validate\<close>, without that key.
\<close>

theorem leaf_remove_correct:
  assumes "leaf_inv n"
  shows "\<exists>n'. leaf_remove n key = Ok (n', leaf_find n key) \<and> leaf_find n' = (leaf_find n)(key := None)
    \<and> leaf_inv n' \<and> leaf_validate n' = Ok ()"
proof -
  have find: "leaf_inv m \<Longrightarrow> leaf_find m = leaf_map m" for m
    by (simp add: fun_eq_iff leaf_find_map leaf_ordered_def leaf_inv_def)
  from leaf_remove_correct_lemma [OF assms, of key] find [OF assms] show ?thesis
    by (auto simp: find leaf_inv_validate)
qed

theorem leaf_remove_correct_witness:
  "\<exists>n'. leaf_remove (leaf_new 5) [1] = Ok (n', leaf_find (leaf_new 5) [1]) \<and> leaf_validate n' = Ok ()"
  using leaf_remove_correct [of "leaf_new 5" "[1]"] leaf_new_inv [of 5] by blast

lemma node_roundtrip:
  assumes "node_fits n"
  shows "\<exists>bs c. node_to_bytes crc n = Ok bs \<and> length bs = DEFAULT_PAGE_SIZE \<and> node_from_bytes bs = Ok (with_checksum c n)"
proof (cases n)
  case (LeafN l)
  let ?h = "(lf_header l)\<lparr>nh_checksum := checksum crc (node_header_image (lf_header l) @ leaf_body l)\<rparr>"
  have "node_from_bytes (node_header_image ?h @ leaf_body l) = Ok (LeafN (l\<lparr>lf_header := ?h\<rparr>))"
    using assms LeafN by (auto intro!: leaf_from_image)
  with assms LeafN show ?thesis
    by (intro exI [of _ "node_header_image ?h @ leaf_body l"] exI [of _ "nh_checksum ?h"])
      (simp add: leaf_to_bytes_image length_leaf_image del: length_append node_to_bytes.simps)
next
  case (InternalN i)
  let ?h = "(in_header i)\<lparr>nh_checksum := checksum crc (node_header_image (in_header i) @ internal_body i)\<rparr>"
  have "node_from_bytes (node_header_image ?h @ internal_body i) = Ok (InternalN (i\<lparr>in_header := ?h\<rparr>))"
    using assms InternalN by (auto intro!: internal_from_image)
  with assms InternalN show ?thesis
    by (intro exI [of _ "node_header_image ?h @ internal_body i"] exI [of _ "nh_checksum ?h"])
      (simp add: internal_to_bytes_image length_internal_image del: length_append node_to_bytes.simps)
qed

text \<open>
  C8. Round trip of a node through its page image. A leaf or internal node that fits its page, with
  keys of at most 255 bytes and counts that match its header, is written without a panic to an
  image of one page, and reading the image gives the node back, its header carrying the checksum
  that was written.
\<close>

theorem node_image_roundtrip:
  assumes "node_fits n"
  shows "\<exists>bs c. node_to_bytes crc n = Ok bs \<and> length bs = DEFAULT_PAGE_SIZE \<and> node_from_bytes bs = Ok (with_checksum c n)"
  using assms by (rule node_roundtrip)

theorem node_image_roundtrip_witness:
  "\<exists>bs c. node_to_bytes (\<lambda>_. 7) (LeafN (leaf_new 5)) = Ok bs \<and> node_from_bytes bs = Ok (with_checksum c (LeafN (leaf_new 5)))"
proof -
  have "node_fits (LeafN (leaf_new 5))"
    using leaf_new_inv [of 5]
    by (simp add: leaf_inv_count leaf_used_def) (simp add: leaf_new_def Let_def get_node_type_def node_header_new_def page_size_defs
        node_type_from_u8_def)
  from node_image_roundtrip [OF this] show ?thesis by blast
qed

text \<open>
  Replacing an entry by a smaller one loses the leaf's free space. The negative size difference
  is cast to an unsigned 16-bit number and subtracted with saturation: the header then says that
  no byte is free, every further insert is refused, and the leaf no longer validates when it has
  more than ten bytes left.
\<close>

theorem leaf_shrink_loses_space:
  assumes "leaf_inv n" "leaf_find n (en_key e) = Some old" "serialized_size e < serialized_size old"
    and "leaf_used n + serialized_size e \<le> LEAF_CAPACITY"
  shows "\<exists>n'. leaf_insert n e = Ok (n', True) \<and> nh_free_space (lf_header n') = 0
    \<and> (\<forall>e'. leaf_insert n' e' = Err (Storage (PagerError ''Leaf node'')))
    \<and> (leaf_used n' + 10 < LEAF_CAPACITY \<longrightarrow> leaf_validate n' \<noteq> Ok ())"
proof -
  have "leaf_map n (en_key e) = Some old"
    using assms(1,2) by (simp add: leaf_inv_def leaf_ordered_def leaf_find_map)
  from leaf_insert_update_order [OF assms(1) this assms(4)] obtain n' where
    n': "leaf_insert n e = Ok (n', True)" "leaf_used n' + serialized_size old = leaf_used n + serialized_size e"
      "serialized_size old \<le> leaf_used n"
      "nh_free_space (lf_header n') = saturating_sub (nh_free_space (lf_header n))
         (word_of_int (int (serialized_size e) - int (serialized_size old)))" by blast
  have old: "serialized_size old \<le> 16308" using n'(3) leaf_size_bounds(2) [OF assms(1)] by simp
  then have "unat (nh_free_space (lf_header n')) = unat (nh_free_space (lf_header n)) - (65536 - (serialized_size old - serialized_size e))"
    using assms(3) by (simp only: n'(4) unat_saturating_sub word_of_int_negative_delta)
  moreover have "unat (nh_free_space (lf_header n)) \<le> 16308" using assms(1) by (simp add: leaf_inv_def page_size_defs)
  ultimately have free: "nh_free_space (lf_header n') = 0"
    using old assms(3) by (simp add: word_unat_eq_iff)
  have refuse: "leaf_insert n' e' = Err (Storage (PagerError ''Leaf node''))" for e'
    by (simp add: leaf_insert_def has_space_def free serialized_size_def)
  have "leaf_validate n' \<noteq> Ok ()" if "leaf_used n' + 10 < LEAF_CAPACITY"
  proof -
    have "unat (word_of_nat (LEAF_CAPACITY - leaf_used n') :: u16) = LEAF_CAPACITY - leaf_used n'"
      by (subst unat_of_nat) (simp add: page_size_defs)
    then have "free_space_mismatch 0 (word_of_nat (LEAF_CAPACITY - leaf_used n'))"
      using that unfolding free_space_mismatch_def by (simp only: uint_nat) simp
    then have "leaf_calculate_free_space n' = Ok f \<Longrightarrow> free_space_mismatch 0 f" for f
      using that by (auto simp: leaf_calculate_free_space_def usize_sub_def leaf_used_def)
    then show ?thesis by (auto simp: leaf_validate_def free split: if_splits)
  qed
  with n'(1) free refuse show ?thesis by blast
qed

theorem leaf_shrink_loses_space_witness:
  "\<exists>n n'. leaf_inv n \<and> leaf_insert n \<lparr>en_key = [1], en_value = [], en_lsn = 4\<rparr> = Ok (n', True)
     \<and> nh_free_space (lf_header n') = 0"
proof -
  let ?old = "\<lparr>en_key = [1], en_value = [2, 3], en_lsn = 3\<rparr>" and ?e = "\<lparr>en_key = [1], en_value = [], en_lsn = 4\<rparr>"
  have empty: "leaf_map (leaf_new 5) (en_key ?old) = None" "leaf_used (leaf_new 5) = 0"
    by (simp_all add: leaf_map_def key_map_def leaf_new_def leaf_used_def Let_def)
  then have "leaf_used (leaf_new 5) + serialized_size ?old \<le> LEAF_CAPACITY"
    by (simp add: serialized_size_def page_size_defs)
  with leaf_insert_new_inv [OF conjunct1 [OF leaf_new_inv [of 5]] empty(1)] obtain n where
    n: "leaf_insert (leaf_new 5) ?old = Ok (n, False)" "leaf_inv n" "leaf_map n = (leaf_map (leaf_new 5))(en_key ?old \<mapsto> ?old)"
    by blast
  then have find: "leaf_find n (en_key ?e) = Some ?old" by (simp add: leaf_inv_def leaf_ordered_def leaf_find_map)
  have "lf_entries n = [?old]"
    using n(1) by (auto simp: leaf_insert_def leaf_new_def Let_def binary_search_by_def vec_insert_def split: if_splits)
  then have "leaf_used n + serialized_size ?e \<le> LEAF_CAPACITY" "serialized_size ?e < serialized_size ?old"
    by (simp_all add: leaf_used_def serialized_size_def page_size_defs)
  with leaf_shrink_loses_space [OF n(2) find] n(2) show ?thesis by blast
qed

text \<open>
  Routing. In an internal node that validates, \<open>find_child\<close> returns the child whose position is
  the number of separators not above the key, so a key equal to a separator goes right of it.
\<close>

theorem find_child_routes:
  assumes "internal_validate n = Ok ()"
  shows "find_child n key = Ok (in_children n ! length (filter (\<lambda>s. s \<le> key) (in_separators n)))"
proof -
  have "ascending id (in_separators n)" "length (in_children n) = Suc (length (in_separators n))"
    using assms by (auto simp: internal_validate_def strictly_sorted_iff ascending_def split: if_splits)
  then show ?thesis
    using find_child_position [of n key] length_filter_le [of "\<lambda>s. s \<le> key" "in_separators n"]
    by (simp add: index_child_def children_of_def less_Suc_eq_le)
qed

theorem find_child_routes_witness:
  "find_child \<lparr>in_header = (node_header_new InternalType 9 1)\<lparr>nh_free_space := 16306\<rparr>, in_separators = [[5]],
     in_children = [7, 8]\<rparr> [5] = Ok 8"
proof -
  let ?n = "\<lparr>in_header = (node_header_new InternalType 9 1)\<lparr>nh_free_space := 16306\<rparr>, in_separators = [[5]],
     in_children = [7, 8]\<rparr>"
  have "internal_validate ?n = Ok ()"
    by (simp add: internal_validate_def internal_calculate_free_space_def usize_sub_def page_size_defs free_space_mismatch_def)
  from find_child_routes [OF this, of "[5]"] show ?thesis by simp
qed

text \<open>
  Keys of more than 255 bytes do not survive a page image. The length byte is truncated, so
  when the first entry of a leaf has such a key, the image that \<open>to_bytes\<close> produces is never read
  back as a leaf with the same entries, although \<open>insert\<close> accepts keys of any length that fits.
\<close>

theorem long_key_image_corrupt:
  assumes "leaf_inv n" "lf_entries n = e # es" "MAX_KEY_LENGTH < length (en_key e)"
  shows "\<exists>bs. node_to_bytes crc (LeafN n) = Ok bs \<and> (\<forall>m. node_from_bytes bs = Ok (LeafN m) \<longrightarrow> lf_entries m \<noteq> lf_entries n)"
proof -
  let ?h = "(lf_header n)\<lparr>nh_checksum := checksum crc (node_header_image (lf_header n) @ leaf_body n)\<rparr>"
  let ?bs = "node_header_image ?h @ leaf_body n" and ?kl = "word_of_nat (length (en_key e)) :: u8"
  have "unat ?kl < 256" using unat_less [of ?kl] by simp
  then have neq: "unat ?kl \<noteq> length (en_key e)" using assms(3) by (simp add: MAX_KEY_LENGTH_def)
  have bs: "\<exists>rest. ?bs = node_header_image ?h @ [?kl] @ rest"
    by (simp add: leaf_body_def assms(2) entry_chunks_def)
  have count: "\<exists>k. unat (nh_num_keys ?h) = Suc k" using leaf_inv_count [OF assms(1)] assms(2) by simp
  have "read_at NODE_HEADER_SIZE 1 ?bs = Ok [?kl]" using bs read_at_here [of "[?kl]" 1 NODE_HEADER_SIZE "node_header_image ?h"] by auto
  then have "lf_entries m \<noteq> lf_entries n" if "node_from_bytes ?bs = Ok (LeafN m)" for m
    using node_from_bytes_leaf [OF that] count read_entries_first_key [of _ ?bs NODE_HEADER_SIZE "lf_entries m"] neq assms(2)
    by (auto simp del: read_entries.simps)
  moreover have "node_to_bytes crc (LeafN n) = Ok ?bs" using assms(1) by (intro leaf_to_bytes_image) (simp add: leaf_inv_def)
  ultimately show ?thesis by blast
qed

theorem long_key_image_corrupt_witness:
  "\<exists>n bs. lf_entries n = [\<lparr>en_key = replicate 300 1, en_value = [], en_lsn = 3\<rparr>] \<and> node_to_bytes (\<lambda>_. 7) (LeafN n) = Ok bs
     \<and> (\<forall>m. node_from_bytes bs = Ok (LeafN m) \<longrightarrow> lf_entries m \<noteq> lf_entries n)"
proof -
  let ?e = "\<lparr>en_key = replicate 300 1, en_value = [], en_lsn = 3\<rparr>"
  have empty: "leaf_map (leaf_new 5) (en_key ?e) = None" "leaf_used (leaf_new 5) = 0"
    by (simp_all add: leaf_map_def key_map_def leaf_new_def leaf_used_def Let_def)
  then have "leaf_used (leaf_new 5) + serialized_size ?e \<le> LEAF_CAPACITY"
    by (simp add: serialized_size_def page_size_defs)
  with leaf_insert_new_inv [OF conjunct1 [OF leaf_new_inv [of 5]] empty(1)] obtain n where
    n: "leaf_insert (leaf_new 5) ?e = Ok (n, False)" "leaf_inv n" by blast
  have "lf_entries n = [?e]"
    using n(1) by (auto simp: leaf_insert_def leaf_new_def Let_def binary_search_by_def vec_insert_def split: if_splits)
  with long_key_image_corrupt [OF n(2), of ?e "[]"] show ?thesis by (auto simp: MAX_KEY_LENGTH_def)
qed

end
