(* ===== verification/Wal_Format.thy ===== *)
theory Wal_Format
  imports Ids Checksum Buffers
begin

text \<open>
  \<^verbatim>\<open>wal/header.rs\<close>: the 40-byte header and the 12-byte trailer around every record of the
  write-ahead log, each with a checksum over its own image with the checksum field zeroed.
\<close>

section \<open>Constants and record types\<close>

definition RECORD_MAGIC :: u32 where "RECORD_MAGIC = 0x4C4F4752"
definition TRAILER_MAGIC :: u32 where "TRAILER_MAGIC = 0x52474F4C"
definition RECORD_VERSION :: u16 where "RECORD_VERSION = 0"
definition WAL_HEADER_SIZE :: nat where "WAL_HEADER_SIZE = 40"
definition TRAILER_SIZE :: nat where "TRAILER_SIZE = 12"
definition WAL_MAX_PAYLOAD_SIZE :: u32 where "WAL_MAX_PAYLOAD_SIZE = 16 * 1024 * 1024"

datatype record_type = CommitRec | CheckpointRec | CartridgeMetaRec

definition record_type_from_u16 :: "u16 \<Rightarrow> record_type option" where
  "record_type_from_u16 v =
     (if v = 0 then Some CommitRec else if v = 1 then Some CheckpointRec
      else if v = 2 then Some CartridgeMetaRec else None)"

fun record_type_to_u16 :: "record_type \<Rightarrow> u16" where
  "record_type_to_u16 CommitRec = 0"
| "record_type_to_u16 CheckpointRec = 1"
| "record_type_to_u16 CartridgeMetaRec = 2"

type_synonym record_flags = u16

definition RECORD_FLAGS_EMPTY :: record_flags where "RECORD_FLAGS_EMPTY = 0"

section \<open>Record header\<close>

record record_header =
  rh_magic :: u32
  rh_record_version :: u16
  rh_record_type :: u16
  rh_header_len :: u16
  rh_flags :: u16
  rh_txn_id :: u64
  rh_prev_lsn :: u64
  rh_payload_len :: u32
  rh_header_crc32c :: u32
  rh_payload_crc32c :: u32

definition record_header_to_bytes :: "record_header \<Rightarrow> bytes" where
  "record_header_to_bytes h =
     le32 (rh_magic h) @ le16 (rh_record_version h) @ le16 (rh_record_type h) @ le16 (rh_header_len h) @
     le16 (rh_flags h) @ le64 (rh_txn_id h) @ le64 (rh_prev_lsn h) @ le32 (rh_payload_len h) @
     le32 (rh_header_crc32c h) @ le32 (rh_payload_crc32c h)"

definition record_header_read :: "bytes \<Rightarrow> record_header" where
  "record_header_read bs =
     \<lparr>rh_magic = from_le (subslice 0 4 bs), rh_record_version = from_le (subslice 4 2 bs),
      rh_record_type = from_le (subslice 6 2 bs), rh_header_len = from_le (subslice 8 2 bs),
      rh_flags = from_le (subslice 10 2 bs), rh_txn_id = from_le (subslice 12 8 bs),
      rh_prev_lsn = from_le (subslice 20 8 bs), rh_payload_len = from_le (subslice 28 4 bs),
      rh_header_crc32c = from_le (subslice 32 4 bs), rh_payload_crc32c = from_le (subslice 36 4 bs)\<rparr>"

definition record_header_from_bytes :: "bytes \<Rightarrow> record_header outcome" where
  "record_header_from_bytes bs =
     (if length bs < WAL_HEADER_SIZE then Err (Validation (InvalidHeaderSize WAL_HEADER_SIZE (length bs)))
      else Ok (record_header_read bs))"

definition record_header_checksum :: "(bytes \<Rightarrow> u32) \<Rightarrow> record_header \<Rightarrow> u32" where
  "record_header_checksum crc h = checksum crc (record_header_to_bytes (h\<lparr>rh_header_crc32c := 0\<rparr>))"

definition record_header_new ::
  "(bytes \<Rightarrow> u32) \<Rightarrow> record_type \<Rightarrow> record_flags \<Rightarrow> u64 \<Rightarrow> u64 \<Rightarrow> u32 \<Rightarrow> record_header" where
  "record_header_new crc t flags txn prev len =
     (let h = \<lparr>rh_magic = RECORD_MAGIC, rh_record_version = RECORD_VERSION, rh_record_type = record_type_to_u16 t,
               rh_header_len = word_of_nat WAL_HEADER_SIZE, rh_flags = flags, rh_txn_id = txn,
               rh_prev_lsn = prev, rh_payload_len = len, rh_header_crc32c = 0, rh_payload_crc32c = 0\<rparr>
      in h\<lparr>rh_header_crc32c := record_header_checksum crc h\<rparr>)"

definition with_payload_checksum :: "(bytes \<Rightarrow> u32) \<Rightarrow> record_header \<Rightarrow> u32 \<Rightarrow> record_header" where
  "with_payload_checksum crc h payload_checksum =
     (let h' = h\<lparr>rh_payload_crc32c := payload_checksum\<rparr> in h'\<lparr>rh_header_crc32c := record_header_checksum crc h'\<rparr>)"

definition validate_header_crc :: "(bytes \<Rightarrow> u32) \<Rightarrow> record_header \<Rightarrow> unit outcome" where
  "validate_header_crc crc h =
     (let calculated = record_header_checksum crc h in
      if calculated \<noteq> rh_header_crc32c h
      then Err (Validation (HeaderChecksumMismatch (rh_header_crc32c h) calculated)) else Ok ())"

definition validate_magic :: "record_header \<Rightarrow> unit outcome" where
  "validate_magic h =
     (if rh_magic h \<noteq> RECORD_MAGIC then Err (Validation (InvalidMagic RECORD_MAGIC (rh_magic h))) else Ok ())"

definition validate_version :: "record_header \<Rightarrow> unit outcome" where
  "validate_version h =
     (if rh_record_version h \<noteq> RECORD_VERSION
      then Err (Validation (UnsupportedVersion (rh_record_version h) 0 0)) else Ok ())"

definition validate_record_type :: "record_header \<Rightarrow> record_type outcome" where
  "validate_record_type h =
     ok_or (record_type_from_u16 (rh_record_type h))
       (Validation (ValidationGeneric (''Invalid record type: '' @ fmt (rh_record_type h))))"

definition validate_payload_len :: "record_header \<Rightarrow> unit outcome" where
  "validate_payload_len h =
     (if WAL_MAX_PAYLOAD_SIZE < rh_payload_len h
      then Err (Validation (PayloadLengthInvalid (rh_payload_len h) WAL_MAX_PAYLOAD_SIZE)) else Ok ())"

definition record_header_validate :: "(bytes \<Rightarrow> u32) \<Rightarrow> record_header \<Rightarrow> record_type outcome" where
  "record_header_validate crc h =
     and_then (validate_magic h) (\<lambda>_. and_then (validate_version h) (\<lambda>_.
     and_then (validate_payload_len h) (\<lambda>_. and_then (validate_header_crc crc h) (\<lambda>_.
     validate_record_type h))))"

definition record_total_size :: "record_header \<Rightarrow> nat" where
  "record_total_size h = WAL_HEADER_SIZE + unat (rh_payload_len h) + TRAILER_SIZE"

section \<open>Record trailer\<close>

record record_trailer =
  rt_magic2 :: u32
  rt_total_len :: u32
  rt_trailer_crc32c :: u32

definition trailer_to_bytes :: "record_trailer \<Rightarrow> bytes" where
  "trailer_to_bytes t = le32 (rt_magic2 t) @ le32 (rt_total_len t) @ le32 (rt_trailer_crc32c t)"

definition trailer_from_bytes :: "bytes \<Rightarrow> record_trailer outcome" where
  "trailer_from_bytes bs =
     (if length bs < TRAILER_SIZE then Err (Validation (InvalidHeaderSize TRAILER_SIZE (length bs)))
      else Ok \<lparr>rt_magic2 = from_le (subslice 0 4 bs), rt_total_len = from_le (subslice 4 4 bs),
               rt_trailer_crc32c = from_le (subslice 8 4 bs)\<rparr>)"

definition trailer_checksum :: "(bytes \<Rightarrow> u32) \<Rightarrow> record_trailer \<Rightarrow> u32" where
  "trailer_checksum crc t = checksum crc (trailer_to_bytes (t\<lparr>rt_trailer_crc32c := 0\<rparr>))"

definition trailer_new :: "(bytes \<Rightarrow> u32) \<Rightarrow> u32 \<Rightarrow> record_trailer" where
  "trailer_new crc total_len =
     (let t = \<lparr>rt_magic2 = TRAILER_MAGIC, rt_total_len = total_len, rt_trailer_crc32c = 0\<rparr>
      in t\<lparr>rt_trailer_crc32c := trailer_checksum crc t\<rparr>)"

definition trailer_validate_checksum :: "(bytes \<Rightarrow> u32) \<Rightarrow> record_trailer \<Rightarrow> unit outcome" where
  "trailer_validate_checksum crc t =
     (let calculated = trailer_checksum crc t in
      if calculated \<noteq> rt_trailer_crc32c t
      then Err (Validation (ChecksumMismatch (rt_trailer_crc32c t) calculated)) else Ok ())"

definition trailer_validate_magic :: "record_trailer \<Rightarrow> unit outcome" where
  "trailer_validate_magic t =
     (if rt_magic2 t \<noteq> TRAILER_MAGIC then Err (Validation (InvalidMagic TRAILER_MAGIC (rt_magic2 t))) else Ok ())"

definition trailer_validate_total_len :: "record_trailer \<Rightarrow> u32 \<Rightarrow> unit outcome" where
  "trailer_validate_total_len t expected =
     (if rt_total_len t \<noteq> expected
      then Err (Validation (ValidationGeneric
             (''Trailer length mismatch: expected '' @ fmt expected @ '', got '' @ fmt (rt_total_len t))))
      else Ok ())"

definition trailer_validate :: "(bytes \<Rightarrow> u32) \<Rightarrow> record_trailer \<Rightarrow> u32 \<Rightarrow> unit outcome" where
  "trailer_validate crc t expected =
     and_then (trailer_validate_magic t) (\<lambda>_. and_then (trailer_validate_checksum crc t) (\<lambda>_.
     trailer_validate_total_len t expected))"

section \<open>Lemmas\<close>

lemmas wal_sizes = WAL_HEADER_SIZE_def TRAILER_SIZE_def

lemma length_record_header [simp]: "length (record_header_to_bytes h) = WAL_HEADER_SIZE"
  by (simp add: record_header_to_bytes_def wal_sizes)

lemma length_trailer [simp]: "length (trailer_to_bytes t) = TRAILER_SIZE"
  by (simp add: trailer_to_bytes_def wal_sizes)

lemma record_header_from_to [simp]: "record_header_from_bytes (record_header_to_bytes h @ rest) = Ok h"
  by (simp add: record_header_from_bytes_def wal_sizes)
    (simp add: record_header_read_def record_header_to_bytes_def subslice_def)

lemma trailer_from_to [simp]: "trailer_from_bytes (trailer_to_bytes t) = Ok t"
  by (simp add: trailer_from_bytes_def trailer_to_bytes_def wal_sizes subslice_def)

lemma record_header_crc_field [simp]:
  "record_header_checksum crc (h\<lparr>rh_header_crc32c := c\<rparr>) = record_header_checksum crc h"
  by (simp add: record_header_checksum_def)

text \<open>The header a record is written with, and that it validates when the payload is not too long.\<close>

definition commit_header :: "(bytes \<Rightarrow> u32) \<Rightarrow> u64 \<Rightarrow> u64 \<Rightarrow> bytes \<Rightarrow> record_header" where
  "commit_header crc txn prev payload =
     with_payload_checksum crc (record_header_new crc CommitRec RECORD_FLAGS_EMPTY txn prev (word_of_nat (length payload)))
       (checksum crc payload)"

lemma commit_header_fields [simp]:
  "rh_payload_len (commit_header crc txn prev payload) = word_of_nat (length payload)"
  "rh_payload_crc32c (commit_header crc txn prev payload) = checksum crc payload"
  "rh_txn_id (commit_header crc txn prev payload) = txn"
  "rh_record_type (commit_header crc txn prev payload) = 0"
  "rh_magic (commit_header crc txn prev payload) = RECORD_MAGIC"
  by (simp_all add: commit_header_def with_payload_checksum_def record_header_new_def Let_def)

lemma commit_header_validate:
  "record_header_validate crc (commit_header crc txn prev payload) =
     (if WAL_MAX_PAYLOAD_SIZE < word_of_nat (length payload)
      then Err (Validation (PayloadLengthInvalid (word_of_nat (length payload)) WAL_MAX_PAYLOAD_SIZE)) else Ok CommitRec)"
proof -
  have "record_header_checksum crc (commit_header crc txn prev payload) = rh_header_crc32c (commit_header crc txn prev payload)"
    unfolding commit_header_def with_payload_checksum_def Let_def by simp
  moreover have "rh_record_version (commit_header crc txn prev payload) = RECORD_VERSION"
    by (simp add: commit_header_def with_payload_checksum_def record_header_new_def Let_def)
  ultimately show ?thesis
    by (simp add: record_header_validate_def validate_magic_def validate_version_def validate_payload_len_def
        validate_header_crc_def validate_record_type_def record_type_from_u16_def ok_or_def)
qed

lemma trailer_new_validate: "trailer_validate crc (trailer_new crc n) m = Ok () \<longleftrightarrow> n = m"
  by (simp add: trailer_validate_def trailer_new_def trailer_validate_magic_def trailer_validate_checksum_def
      trailer_validate_total_len_def trailer_checksum_def Let_def)

end
