(* ===== verification/Wal_Record.thy ===== *)
theory Wal_Record
  imports Wal_Format
begin

text \<open>
  \<^verbatim>\<open>wal/record.rs\<close>: the payload of a commit record, its 32-byte header, the encoding of one
  operation and the serialization of a whole transaction.
\<close>

section \<open>Constants and data\<close>

definition WAL_MAX_KEY_SIZE :: u32 where "WAL_MAX_KEY_SIZE = 4 * 1024"
definition WAL_MAX_VALUE_SIZE :: u32 where "WAL_MAX_VALUE_SIZE = 16 * 1024 * 1024"
definition WAL_MAX_OPERATIONS_PER_COMMIT :: u32 where "WAL_MAX_OPERATIONS_PER_COMMIT = 10000"
definition COMMIT_MAGIC :: u32 where "COMMIT_MAGIC = 0x434D4954"
definition COMMIT_HEADER_SIZE :: nat where "COMMIT_HEADER_SIZE = 32"

datatype operation_type = OpTypePut | OpTypeDelete

definition operation_type_from_u8 :: "u8 \<Rightarrow> operation_type option" where
  "operation_type_from_u8 v = (if v = 0 then Some OpTypePut else if v = 1 then Some OpTypeDelete else None)"

fun operation_type_to_u8 :: "operation_type \<Rightarrow> u8" where
  "operation_type_to_u8 OpTypePut = 0"
| "operation_type_to_u8 OpTypeDelete = 1"

record commit_payload_header =
  cp_commit_magic :: u32
  cp_txn_id :: u64
  cp_root_page_id :: u64
  cp_padding :: u32
  cp_op_count :: u32
  cp_reserved :: u32

definition commit_payload_header_new :: "u64 \<Rightarrow> u64 \<Rightarrow> u32 \<Rightarrow> commit_payload_header" where
  "commit_payload_header_new txn root n =
     \<lparr>cp_commit_magic = COMMIT_MAGIC, cp_txn_id = txn, cp_root_page_id = root, cp_padding = 0,
      cp_op_count = n, cp_reserved = 0\<rparr>"

definition commit_payload_header_to_bytes :: "commit_payload_header \<Rightarrow> bytes" where
  "commit_payload_header_to_bytes h =
     le32 (cp_commit_magic h) @ le64 (cp_txn_id h) @ le64 (cp_root_page_id h) @ le32 (cp_padding h) @
     le32 (cp_op_count h) @ le32 (cp_reserved h)"

definition commit_payload_header_from_bytes :: "bytes \<Rightarrow> commit_payload_header outcome" where
  "commit_payload_header_from_bytes bs =
     (if length bs < COMMIT_HEADER_SIZE then Err (Validation (InvalidHeaderSize COMMIT_HEADER_SIZE (length bs)))
      else Ok \<lparr>cp_commit_magic = from_le (subslice 0 4 bs), cp_txn_id = from_le (subslice 4 8 bs),
               cp_root_page_id = from_le (subslice 12 8 bs), cp_padding = from_le (subslice 20 4 bs),
               cp_op_count = from_le (subslice 24 4 bs), cp_reserved = from_le (subslice 28 4 bs)\<rparr>)"

definition commit_payload_header_validate :: "commit_payload_header \<Rightarrow> unit outcome" where
  "commit_payload_header_validate h =
     (if cp_commit_magic h \<noteq> COMMIT_MAGIC then Err (Validation (InvalidCommitMagic COMMIT_MAGIC (cp_commit_magic h)))
      else if cp_reserved h \<noteq> 0 then Err (Validation (InvalidReservedField (cp_reserved h)))
      else if WAL_MAX_OPERATIONS_PER_COMMIT < cp_op_count h
      then Err (Validation (TooManyOperations (cp_op_count h) WAL_MAX_OPERATIONS_PER_COMMIT))
      else Ok ())"

section \<open>Encoded operations\<close>

record encoded_operation =
  eo_op_type :: operation_type
  eo_op_flags :: u8
  eo_key_len :: u16
  eo_val_len :: u32
  eo_key_bytes :: bytes
  eo_val_bytes :: "bytes option"

definition new_put :: "bytes \<Rightarrow> bytes \<Rightarrow> encoded_operation outcome" where
  "new_put key val =
     (let key_len = (word_of_nat (length key) :: u16); val_len = (word_of_nat (length val) :: u32) in
      if WAL_MAX_KEY_SIZE < ucast key_len then
        Err (SizeLimit (KeyTooLarge (unat key_len) (unat WAL_MAX_KEY_SIZE)))
      else if WAL_MAX_VALUE_SIZE < val_len then
        Err (SizeLimit (ValueTooLarge (unat val_len) (unat WAL_MAX_VALUE_SIZE)))
      else Ok \<lparr>eo_op_type = OpTypePut, eo_op_flags = 0, eo_key_len = key_len, eo_val_len = val_len,
               eo_key_bytes = key, eo_val_bytes = Some val\<rparr>)"

definition new_delete :: "bytes \<Rightarrow> encoded_operation outcome" where
  "new_delete key =
     (let key_len = (word_of_nat (length key) :: u16) in
      if WAL_MAX_KEY_SIZE < ucast key_len then
        Err (SizeLimit (KeyTooLarge (unat key_len) (unat WAL_MAX_KEY_SIZE)))
      else Ok \<lparr>eo_op_type = OpTypeDelete, eo_op_flags = 0, eo_key_len = key_len, eo_val_len = 0,
               eo_key_bytes = key, eo_val_bytes = None\<rparr>)"

definition encoded_size :: "encoded_operation \<Rightarrow> nat" where
  "encoded_size op = 8 + length (eo_key_bytes op) + (case eo_val_bytes op of None \<Rightarrow> 0 | Some v \<Rightarrow> length v)"

definition calculate_payload_size :: "encoded_operation list \<Rightarrow> nat" where
  "calculate_payload_size ops = COMMIT_HEADER_SIZE + sum_list (map encoded_size ops)"

definition operation_to_bytes :: "encoded_operation \<Rightarrow> bytes" where
  "operation_to_bytes op =
     [operation_type_to_u8 (eo_op_type op)] @ [eo_op_flags op] @ le16 (eo_key_len op) @ le32 (eo_val_len op) @
     eo_key_bytes op @ (case eo_val_bytes op of None \<Rightarrow> [] | Some v \<Rightarrow> v)"

definition operation_validate :: "encoded_operation \<Rightarrow> unit outcome" where
  "operation_validate op =
     (if eo_op_flags op \<noteq> 0 then Err (Validation (InvalidOperationFlags (eo_op_flags op)))
      else if length (eo_key_bytes op) \<noteq> unat (eo_key_len op) then
        Err (Validation (VKeyLengthMismatch (eo_key_len op) (length (eo_key_bytes op))))
      else case eo_op_type op of
        OpTypePut \<Rightarrow>
          (case eo_val_bytes op of
             Some v \<Rightarrow> (if length v \<noteq> unat (eo_val_len op)
                         then Err (Validation (VValueLengthMismatch (eo_val_len op) (length v))) else Ok ())
           | None \<Rightarrow> Err (Validation (ValidationGeneric ''Put operation missing value'')))
      | OpTypeDelete \<Rightarrow>
          (if eo_val_len op \<noteq> 0 \<or> eo_val_bytes op \<noteq> None then Err (Validation VDeleteHasValue) else Ok ()))"

definition operation_from_bytes :: "bytes \<Rightarrow> encoded_operation outcome" where
  "operation_from_bytes bs =
     (if length bs < 8 then Err (Validation (ValidationGeneric ''Operation data too short''))
      else
        and_then (ok_or (operation_type_from_u8 (bs ! 0)) (Validation (InvalidOperationType (bs ! 0)))) (\<lambda>op_type.
          let op_flags = bs ! 1;
              key_len = unat (from_le (subslice 2 2 bs) :: u16);
              val_len = unat (from_le (subslice 4 4 bs) :: u32)
          in if op_flags \<noteq> 0 then Err (Validation (InvalidOperationFlags op_flags))
             else if length bs < 8 + key_len + val_len then
               Err (Validation (ValidationGeneric ''Operation data truncated''))
             else
               let op = \<lparr>eo_op_type = op_type, eo_op_flags = op_flags, eo_key_len = word_of_nat key_len,
                         eo_val_len = word_of_nat val_len, eo_key_bytes = subslice 8 key_len bs,
                         eo_val_bytes = (if 0 < val_len then Some (subslice (8 + key_len) val_len bs) else None)\<rparr>
               in and_then (operation_validate op) (\<lambda>_. Ok op)))"

section \<open>Mutations and commit records\<close>

datatype wal_mutation = WalPut bytes bytes | WalDelete bytes

fun wal_mutation_encode :: "wal_mutation \<Rightarrow> encoded_operation outcome" where
  "wal_mutation_encode (WalPut key val) = new_put key val"
| "wal_mutation_encode (WalDelete key) = new_delete key"

definition wal_mutation_try_from :: "encoded_operation \<Rightarrow> wal_mutation outcome" where
  "wal_mutation_try_from op =
     (case eo_op_type op of
        OpTypePut \<Rightarrow>
          and_then (ok_or (eo_val_bytes op) (Validation (ValidationGeneric ''Put operation missing value'')))
            (\<lambda>v. Ok (WalPut (eo_key_bytes op) v))
      | OpTypeDelete \<Rightarrow> Ok (WalDelete (eo_key_bytes op)))"

record wal_commit_record =
  wr_txn_id :: u64
  wr_root_page_id :: u64
  wr_mutations :: "wal_mutation list"
  wr_checksum :: u32

definition wal_commit_record_new :: "u64 \<Rightarrow> u64 \<Rightarrow> wal_mutation list \<Rightarrow> wal_commit_record" where
  "wal_commit_record_new txn root ms =
     \<lparr>wr_txn_id = txn, wr_root_page_id = root, wr_mutations = ms, wr_checksum = 0\<rparr>"

text \<open>\<open>mutation.encode().unwrap()\<close>: an encoding error is a panic.\<close>

fun encode_all :: "wal_mutation list \<Rightarrow> bytes list outcome" where
  "encode_all [] = Ok []"
| "encode_all (m # ms) =
     (case wal_mutation_encode m of
        Ok op \<Rightarrow> and_then (encode_all ms) (\<lambda>rest. Ok (operation_to_bytes op # rest))
      | _ \<Rightarrow> Panic)"

definition record_payload_header :: "wal_commit_record \<Rightarrow> bytes" where
  "record_payload_header r = commit_payload_header_to_bytes
     (commit_payload_header_new (wr_txn_id r) (wr_root_page_id r) (word_of_nat (length (wr_mutations r))))"

definition serialize_payload :: "wal_commit_record \<Rightarrow> bytes outcome" where
  "serialize_payload r =
     and_then (encode_all (wr_mutations r)) (\<lambda>ops. Ok (record_payload_header r @ concat ops))"

definition calculate_payload_checksum :: "(u32 \<Rightarrow> bytes \<Rightarrow> u32) \<Rightarrow> wal_commit_record \<Rightarrow> u32 outcome" where
  "calculate_payload_checksum crc_append r =
     and_then (encode_all (wr_mutations r)) (\<lambda>ops.
       Ok (hasher_finalize (foldl (hasher_update crc_append)
             (hasher_update crc_append hasher_new (record_payload_header r)) ops)))"

definition wal_validate_checksum :: "(u32 \<Rightarrow> bytes \<Rightarrow> u32) \<Rightarrow> wal_commit_record \<Rightarrow> bool outcome" where
  "wal_validate_checksum crc_append r =
     and_then (calculate_payload_checksum crc_append r) (\<lambda>c. Ok (c = wr_checksum r))"

text \<open>The loop of \<open>deserialize_payload\<close> over the operations, with the bytes and the running offset.\<close>

fun read_operations :: "nat \<Rightarrow> bytes \<Rightarrow> nat \<Rightarrow> (wal_mutation list \<times> nat) outcome" where
  "read_operations 0 bs offset = Ok ([], offset)"
| "read_operations (Suc k) bs offset =
     (if length bs < offset + 8 then Err (Validation (ValidationGeneric ''Operation header truncated''))
      else
        let key_len = unat (from_le (subslice (offset + 2) 2 bs) :: u16);
            val_len = unat (from_le (subslice (offset + 4) 4 bs) :: u32);
            op_size = 8 + key_len + val_len
        in if length bs < offset + op_size then Err (Validation (ValidationGeneric ''Operation data truncated''))
           else
             and_then (operation_from_bytes (subslice offset op_size bs)) (\<lambda>op.
             and_then (wal_mutation_try_from op) (\<lambda>m.
             and_then (read_operations k bs (offset + op_size)) (\<lambda>(ms, offset').
             Ok (m # ms, offset')))))"

definition deserialize_payload :: "(u32 \<Rightarrow> bytes \<Rightarrow> u32) \<Rightarrow> u64 \<Rightarrow> bytes \<Rightarrow> wal_commit_record outcome" where
  "deserialize_payload crc_append txn bs =
     and_then (commit_payload_header_from_bytes bs) (\<lambda>h.
     and_then (commit_payload_header_validate h) (\<lambda>_.
       if cp_txn_id h \<noteq> txn then Err (Validation (ValidationGeneric ''Transaction ID mismatch''))
       else
         and_then (read_operations (unat (cp_op_count h)) bs COMMIT_HEADER_SIZE) (\<lambda>(ms, offset).
           Ok \<lparr>wr_txn_id = cp_txn_id h, wr_root_page_id = cp_root_page_id h, wr_mutations = ms,
               wr_checksum = hasher_finalize (hasher_update crc_append hasher_new (take offset bs))\<rparr>)))"

section \<open>Images of operations\<close>

fun mutation_value :: "wal_mutation \<Rightarrow> bytes" where
  "mutation_value (WalPut k v) = v"
| "mutation_value (WalDelete k) = []"

fun mutation_key :: "wal_mutation \<Rightarrow> bytes" where
  "mutation_key (WalPut k v) = k"
| "mutation_key (WalDelete k) = k"

fun mutation_tag :: "wal_mutation \<Rightarrow> u8" where
  "mutation_tag (WalPut k v) = 0"
| "mutation_tag (WalDelete k) = 1"

definition mutation_fits :: "wal_mutation \<Rightarrow> bool" where
  "mutation_fits m \<longleftrightarrow> length (mutation_key m) \<le> 4096 \<and> length (mutation_value m) \<le> 16777216"

text \<open>A put of the empty value is what the reader cannot tell from a put without a value.\<close>

definition mutation_readable :: "wal_mutation \<Rightarrow> bool" where
  "mutation_readable m \<longleftrightarrow> (case m of WalPut k v \<Rightarrow> v \<noteq> [] | WalDelete k \<Rightarrow> True)"

definition op_image :: "wal_mutation \<Rightarrow> bytes" where
  "op_image m = [mutation_tag m, 0] @ le16 (word_of_nat (length (mutation_key m))) @
     le32 (word_of_nat (length (mutation_value m))) @ mutation_key m @ mutation_value m"

lemma length_op_image: "length (op_image m) = 8 + length (mutation_key m) + length (mutation_value m)"
  by (simp add: op_image_def)

lemma unat_lengths:
  assumes "mutation_fits m"
  shows "unat (word_of_nat (length (mutation_key m)) :: u16) = length (mutation_key m)"
    and "unat (word_of_nat (length (mutation_value m)) :: u32) = length (mutation_value m)"
  using assms by (simp_all add: mutation_fits_def unat_of_nat)

lemma size_limits:
  assumes "mutation_fits m"
  shows "\<not> WAL_MAX_KEY_SIZE < ucast (word_of_nat (length (mutation_key m)) :: u16)"
    and "\<not> WAL_MAX_VALUE_SIZE < (word_of_nat (length (mutation_value m)) :: u32)"
  using assms unat_lengths [OF assms]
  by (simp_all add: word_less_nat_alt not_less WAL_MAX_KEY_SIZE_def WAL_MAX_VALUE_SIZE_def mutation_fits_def unsigned_ucast_eq
      take_bit_nat_eq_self)

lemma encode_fits:
  assumes "mutation_fits m"
  shows "\<exists>op. wal_mutation_encode m = Ok op \<and> operation_to_bytes op = op_image m \<and> encoded_size op = length (op_image m)"
  using size_limits [OF assms]
  by (cases m) (simp_all add: new_put_def new_delete_def Let_def operation_to_bytes_def op_image_def encoded_size_def)

lemma encode_all_fits:
  "\<forall>m \<in> set ms. mutation_fits m \<Longrightarrow> encode_all ms = Ok (map op_image ms)"
proof (induction ms)
  case (Cons m ms)
  then obtain op where "wal_mutation_encode m = Ok op" "operation_to_bytes op = op_image m" using encode_fits by force
  with Cons show ?case by simp
qed simp

definition decoded_op :: "wal_mutation \<Rightarrow> encoded_operation" where
  "decoded_op m =
     \<lparr>eo_op_type = (case m of WalPut k v \<Rightarrow> OpTypePut | WalDelete k \<Rightarrow> OpTypeDelete), eo_op_flags = 0,
      eo_key_len = word_of_nat (length (mutation_key m)), eo_val_len = word_of_nat (length (mutation_value m)),
      eo_key_bytes = mutation_key m, eo_val_bytes = (if mutation_value m = [] then None else Some (mutation_value m))\<rparr>"

lemma operation_from_image:
  assumes "mutation_fits m"
  shows "operation_from_bytes (op_image m) = and_then (operation_validate (decoded_op m)) (\<lambda>_. Ok (decoded_op m))"
proof -
  let ?k = "mutation_key m" and ?v = "mutation_value m"
  have fields: "op_image m ! 0 = mutation_tag m" "op_image m ! 1 = 0"
      "subslice 2 2 (op_image m) = le16 (word_of_nat (length ?k))" "subslice 4 4 (op_image m) = le32 (word_of_nat (length ?v))"
      "subslice 8 (length ?k) (op_image m) = ?k"
    by (simp_all add: op_image_def subslice_def)
  have val: "subslice (8 + length ?k) (length ?v) (op_image m) = ?v"
    using subslice_here [of "8 + length ?k" "[mutation_tag m, 0] @ le16 (word_of_nat (length ?k)) @ le32 (word_of_nat (length ?v)) @ ?k"
        "length ?v" ?v "[]"] by (simp add: op_image_def)
  have "operation_type_from_u8 (mutation_tag m) = Some (case m of WalPut k v \<Rightarrow> OpTypePut | WalDelete k \<Rightarrow> OpTypeDelete)"
    by (cases m) (simp_all add: operation_type_from_u8_def)
  then show ?thesis
    unfolding operation_from_bytes_def Let_def fields
    using unat_lengths [OF assms] by (simp add: length_op_image decoded_op_def ok_or_def fields val)
qed

lemma decoded_op_validate:
  assumes "mutation_fits m"
  shows "operation_validate (decoded_op m) =
    (if mutation_readable m then Ok () else Err (Validation (ValidationGeneric ''Put operation missing value'')))"
  using unat_lengths [OF assms]
  by (cases m) (simp_all add: operation_validate_def decoded_op_def mutation_readable_def)

lemma decoded_op_mutation: "mutation_readable m \<Longrightarrow> wal_mutation_try_from (decoded_op m) = Ok m"
  by (cases m) (simp_all add: wal_mutation_try_from_def decoded_op_def mutation_readable_def ok_or_def)

lemma read_operations_step:
  assumes "mutation_fits m" "offset = length pre"
  shows "read_operations (Suc k) (pre @ op_image m @ rest) offset =
    and_then (operation_from_bytes (op_image m)) (\<lambda>op.
    and_then (wal_mutation_try_from op) (\<lambda>m'.
    and_then (read_operations k (pre @ op_image m @ rest) (offset + length (op_image m))) (\<lambda>(ms, offset').
    Ok (m' # ms, offset'))))"
proof -
  let ?bs = "pre @ op_image m @ rest"
  have "subslice (offset + 2) 2 ?bs = le16 (word_of_nat (length (mutation_key m)))"
    "subslice (offset + 4) 4 ?bs = le32 (word_of_nat (length (mutation_value m)))"
    using assms(2) by (simp_all add: subslice_def op_image_def)
  moreover have "subslice offset (length (op_image m)) ?bs = op_image m"
    by (rule subslice_here [OF assms(2) refl])
  ultimately show ?thesis
    using assms(2) unat_lengths [OF assms(1)] by (simp add: Let_def length_op_image add.assoc)
qed

lemma read_operations_image:
  assumes "\<forall>m \<in> set ms. mutation_fits m \<and> mutation_readable m" "offset = length pre"
  shows "read_operations (length ms) (pre @ concat (map op_image ms) @ rest) offset
    = Ok (ms, offset + length (concat (map op_image ms)))"
  using assms
proof (induction ms arbitrary: pre offset)
  case (Cons m ms)
  have "read_operations (length ms) ((pre @ op_image m) @ concat (map op_image ms) @ rest) (offset + length (op_image m))
      = Ok (ms, offset + length (op_image m) + length (concat (map op_image ms)))"
    using Cons.prems by (intro Cons.IH) auto
  with Cons.prems read_operations_step [of m offset pre "length ms" "concat (map op_image ms) @ rest"] show ?case
    by (simp add: operation_from_image decoded_op_validate decoded_op_mutation del: read_operations.simps length_concat)
qed simp

lemma read_operations_unreadable:
  assumes "\<forall>m \<in> set ms. mutation_fits m" "\<exists>m \<in> set ms. \<not> mutation_readable m" "offset = length pre"
  shows "read_operations (length ms) (pre @ concat (map op_image ms) @ rest) offset
    = Err (Validation (ValidationGeneric ''Put operation missing value''))"
  using assms
proof (induction ms arbitrary: pre offset)
  case (Cons m ms)
  note step = read_operations_step [of m offset pre "length ms" "concat (map op_image ms) @ rest"]
  show ?case
  proof (cases "mutation_readable m")
    case True
    with Cons.prems have "read_operations (length ms) ((pre @ op_image m) @ concat (map op_image ms) @ rest) (offset + length (op_image m))
        = Err (Validation (ValidationGeneric ''Put operation missing value''))"
      by (intro Cons.IH) auto
    with Cons.prems step True show ?thesis
      by (simp add: operation_from_image decoded_op_validate decoded_op_mutation del: read_operations.simps)
  next
    case False
    with Cons.prems step show ?thesis
      by (simp add: operation_from_image decoded_op_validate del: read_operations.simps)
  qed
qed simp

section \<open>Images of records\<close>

definition record_fits :: "wal_commit_record \<Rightarrow> bool" where
  "record_fits r \<longleftrightarrow> length (wr_mutations r) \<le> 10000 \<and> (\<forall>m \<in> set (wr_mutations r). mutation_fits m)"

definition payload_image :: "wal_commit_record \<Rightarrow> bytes" where
  "payload_image r = record_payload_header r @ concat (map op_image (wr_mutations r))"

lemma serialize_payload_image: "record_fits r \<Longrightarrow> serialize_payload r = Ok (payload_image r)"
  by (simp add: serialize_payload_def record_fits_def encode_all_fits payload_image_def)

lemma length_record_payload_header [simp]: "length (record_payload_header r) = COMMIT_HEADER_SIZE"
  by (simp add: record_payload_header_def commit_payload_header_to_bytes_def COMMIT_HEADER_SIZE_def)

lemma commit_payload_header_from_image:
  "commit_payload_header_from_bytes (record_payload_header r @ rest) =
     Ok (commit_payload_header_new (wr_txn_id r) (wr_root_page_id r) (word_of_nat (length (wr_mutations r))))"
  by (simp add: commit_payload_header_from_bytes_def COMMIT_HEADER_SIZE_def)
    (simp add: record_payload_header_def commit_payload_header_to_bytes_def commit_payload_header_new_def subslice_def)

lemma op_count_fits:
  assumes "record_fits r"
  shows "unat (word_of_nat (length (wr_mutations r)) :: u32) = length (wr_mutations r)"
    and "commit_payload_header_validate (commit_payload_header_new t p (word_of_nat (length (wr_mutations r)))) = Ok ()"
proof -
  show n: "unat (word_of_nat (length (wr_mutations r)) :: u32) = length (wr_mutations r)"
    using assms by (simp add: record_fits_def unat_of_nat)
  then show "commit_payload_header_validate (commit_payload_header_new t p (word_of_nat (length (wr_mutations r)))) = Ok ()"
    using assms by (simp add: commit_payload_header_validate_def commit_payload_header_new_def record_fits_def
        WAL_MAX_OPERATIONS_PER_COMMIT_def word_less_nat_alt)
qed

lemma deserialize_payload_image:
  assumes "record_fits r"
  shows "deserialize_payload crc_append (wr_txn_id r) (payload_image r) =
    (if \<forall>m \<in> set (wr_mutations r). mutation_readable m
     then Ok (r\<lparr>wr_checksum := crc_append 0 (payload_image r)\<rparr>)
     else Err (Validation (ValidationGeneric ''Put operation missing value'')))"
proof (cases "\<forall>m \<in> set (wr_mutations r). mutation_readable m")
  case True
  have "read_operations (length (wr_mutations r)) (payload_image r) COMMIT_HEADER_SIZE
      = Ok (wr_mutations r, length (payload_image r))"
    using read_operations_image [of "wr_mutations r" COMMIT_HEADER_SIZE "record_payload_header r" "[]"] assms True
    by (simp add: payload_image_def record_fits_def del: length_concat)
  then show ?thesis
    using True op_count_fits [OF assms]
    by (simp add: deserialize_payload_def payload_image_def commit_payload_header_from_image del: length_concat)
      (simp add: commit_payload_header_new_def hasher_finalize_def hasher_update_def hasher_new_def)
next
  case False
  have "read_operations (length (wr_mutations r)) (payload_image r) COMMIT_HEADER_SIZE
      = Err (Validation (ValidationGeneric ''Put operation missing value''))"
    using read_operations_unreadable [of "wr_mutations r" COMMIT_HEADER_SIZE "record_payload_header r" "[]"] assms False
    by (simp add: payload_image_def record_fits_def)
  then show ?thesis
    unfolding if_not_P [OF False]
    using op_count_fits [OF assms]
    by (simp add: deserialize_payload_def payload_image_def commit_payload_header_from_image)
      (simp add: commit_payload_header_new_def)
qed

section \<open>Properties\<close>

text \<open>
  C12. Round trip of a commit record. A transaction within the size limits, with no empty value, is
  serialized without a panic, reading the payload gives back its id, root page and mutations in
  order, and the record read back passes its own checksum.
\<close>

theorem commit_record_roundtrip:
  assumes "crc32c_lib crc crc_append" "record_fits r" "\<forall>m \<in> set (wr_mutations r). mutation_readable m"
  shows "\<exists>bs r'. serialize_payload r = Ok bs \<and> deserialize_payload crc_append (wr_txn_id r) bs = Ok r'
    \<and> r' = r\<lparr>wr_checksum := checksum crc bs\<rparr> \<and> wal_validate_checksum crc_append r' = Ok True"
proof -
  let ?r = "r\<lparr>wr_checksum := checksum crc (payload_image r)\<rparr>"
  have "calculate_payload_checksum crc_append ?r = Ok (checksum crc (payload_image r))"
    using hasher_concat [OF assms(1), of "record_payload_header r # map op_image (wr_mutations r)"] assms(2)
    by (simp add: calculate_payload_checksum_def encode_all_fits record_fits_def payload_image_def record_payload_header_def)
  then have "wal_validate_checksum crc_append ?r = Ok True" by (simp add: wal_validate_checksum_def)
  moreover have "crc_append 0 (payload_image r) = checksum crc (payload_image r)"
    using crc32c_lib.append_from_zero [OF assms(1)] by (simp add: checksum_def)
  ultimately show ?thesis
    using serialize_payload_image [OF assms(2)] deserialize_payload_image [OF assms(2), of crc_append] assms(3) by simp
qed

theorem commit_record_roundtrip_witness:
  "\<exists>bs r'. serialize_payload (wal_commit_record_new 7 0 [WalPut [1] [2], WalDelete [3]]) = Ok bs
    \<and> deserialize_payload crc32c_bitwise_append 7 bs = Ok r' \<and> wr_mutations r' = [WalPut [1] [2], WalDelete [3]]"
  using commit_record_roundtrip [OF castagnoli.crc32c_lib_axioms, of "wal_commit_record_new 7 0 [WalPut [1] [2], WalDelete [3]]"]
  by (auto simp: wal_commit_record_new_def record_fits_def mutation_fits_def mutation_readable_def)

text \<open>
  A transaction that puts an empty value is written to the log but can never be read back: the
  reader takes a value length of zero for a missing value and rejects the whole record.
\<close>

theorem empty_value_unreadable:
  assumes "record_fits r" "WalPut k [] \<in> set (wr_mutations r)"
  shows "\<exists>bs. serialize_payload r = Ok bs
    \<and> deserialize_payload crc_append (wr_txn_id r) bs = Err (Validation (ValidationGeneric ''Put operation missing value''))"
proof -
  have "\<not> (\<forall>m \<in> set (wr_mutations r). mutation_readable m)" using assms(2) by (force simp: mutation_readable_def)
  then show ?thesis
    using serialize_payload_image [OF assms(1)] deserialize_payload_image [OF assms(1), of crc_append] by auto
qed

theorem empty_value_unreadable_witness:
  "\<exists>bs. serialize_payload (wal_commit_record_new 7 0 [WalPut [1] []]) = Ok bs
    \<and> deserialize_payload crc32c_bitwise_append 7 bs = Err (Validation (ValidationGeneric ''Put operation missing value''))"
  using empty_value_unreadable [of "wal_commit_record_new 7 0 [WalPut [1] []]" "[1]" crc32c_bitwise_append]
  by (simp add: wal_commit_record_new_def record_fits_def mutation_fits_def)

end
