(* ===== verification/Wal.thy ===== *)
theory Wal
  imports Wal_Record
begin

text \<open>
  \<^verbatim>\<open>wal/wal.rs\<close> and the state type of \<^verbatim>\<open>wal/config.rs\<close>: the write-ahead log with its 64 KiB
  buffer, scanning on open, and the replay iterator. The file is its bytes and the position of the
  handle, which a handle cloned by \<open>try_clone\<close> shares. Device errors and the access mode of the
  handle are not modelled; \<open>sync_all\<close> leaves the bytes as they are. File positions are natural
  numbers.
\<close>

section \<open>State\<close>

definition WAL_BUFFER_SIZE :: nat where "WAL_BUFFER_SIZE = 64 * 1024"

datatype wal_state = WalClosed | WalOpen | WalRecovering | WalFailed

record wal =
  wl_file :: bytes
  wl_cursor :: nat
  wl_current_lsn :: u64
  wl_buffer :: bytes
  wl_buffer_pos :: nat
  wl_sync_needed :: bool
  wl_file_pos :: nat
  wl_state :: wal_state

text \<open>\<open>write_all\<close> at the position of the handle; a gap past the end would be filled with zeros.\<close>

definition file_write :: "wal \<Rightarrow> bytes \<Rightarrow> wal" where
  "file_write w d =
     w\<lparr>wl_file := take (wl_cursor w) (wl_file w @ replicate (wl_cursor w - length (wl_file w)) 0) @ d
         @ drop (wl_cursor w + length d) (wl_file w),
       wl_cursor := wl_cursor w + length d\<rparr>"

definition lsn_increment :: "u64 \<Rightarrow> u64 outcome" where
  "lsn_increment l = (case checked_add l 1 of Some l' \<Rightarrow> Ok l' | None \<Rightarrow> Panic)"

definition wal_create :: wal where
  "wal_create =
     \<lparr>wl_file = [], wl_cursor = 0, wl_current_lsn = 0, wl_buffer = replicate WAL_BUFFER_SIZE 0, wl_buffer_pos = 0,
      wl_sync_needed = False, wl_file_pos = 0, wl_state = WalOpen\<rparr>"

section \<open>Scanning\<close>

text \<open>One step of the loop: what is found at a position that still has a complete header.\<close>

datatype scan_step = ScanStop | ScanRecord nat

definition scan_record :: "(bytes \<Rightarrow> u32) \<Rightarrow> bytes \<Rightarrow> nat \<Rightarrow> scan_step outcome" where
  "scan_record crc file pos =
     and_then (record_header_from_bytes (subslice pos WAL_HEADER_SIZE file)) (\<lambda>h.
     and_then (record_header_validate crc h) (\<lambda>_.
       let payload_len = unat (rh_payload_len h);
           record_size = WAL_HEADER_SIZE + payload_len + TRAILER_SIZE
       in if length file < pos + record_size then Ok ScanStop
          else
            let payload = subslice (pos + WAL_HEADER_SIZE) payload_len file;
                calculated = checksum crc payload
            in if calculated \<noteq> rh_payload_crc32c h
               then Err (Validation (ChecksumMismatch (rh_payload_crc32c h) calculated))
               else
                 and_then (trailer_from_bytes (subslice (pos + WAL_HEADER_SIZE + payload_len) TRAILER_SIZE file)) (\<lambda>t.
                 and_then (trailer_validate crc t (word_of_nat record_size)) (\<lambda>_.
                 Ok (ScanRecord record_size)))))"

lemma scan_record_progress: "scan_record crc file pos = Ok (ScanRecord n) \<Longrightarrow> 0 < n"
  by (auto simp: scan_record_def Let_def wal_sizes split: if_splits)

function scan_highest_lsn :: "(bytes \<Rightarrow> u32) \<Rightarrow> bytes \<Rightarrow> nat \<Rightarrow> u64 \<Rightarrow> (u64 \<times> nat) outcome" where
  "scan_highest_lsn crc file pos l =
     (if length file \<le> pos then Ok (l, pos)
      else if length file < pos + WAL_HEADER_SIZE then Ok (l, pos)
      else case scan_record crc file pos of
        Err e \<Rightarrow> Err e
      | Panic \<Rightarrow> Panic
      | Ok ScanStop \<Rightarrow> Ok (l, pos)
      | Ok (ScanRecord n) \<Rightarrow> and_then (lsn_increment l) (\<lambda>l'. scan_highest_lsn crc file (pos + n) l'))"
  by pat_completeness auto

termination
  by (relation "measure (\<lambda>(crc, file, pos, l). length file - pos)") (auto dest!: scan_record_progress)

declare scan_highest_lsn.simps [simp del]

definition wal_open :: "(bytes \<Rightarrow> u32) \<Rightarrow> bytes \<Rightarrow> wal outcome" where
  "wal_open crc file =
     and_then (if length file = 0 then Ok (0, 0) else scan_highest_lsn crc file 0 0) (\<lambda>(l, end_pos).
       Ok \<lparr>wl_file = file, wl_cursor = end_pos, wl_current_lsn = l, wl_buffer = replicate WAL_BUFFER_SIZE 0,
           wl_buffer_pos = 0, wl_sync_needed = False, wl_file_pos = end_pos, wl_state = WalOpen\<rparr>)"

section \<open>Appending\<close>

definition flush_buffer :: "wal \<Rightarrow> wal" where
  "flush_buffer w =
     (if wl_buffer_pos w = 0 then w
      else (file_write w (take (wl_buffer_pos w) (wl_buffer w)))
             \<lparr>wl_file_pos := wl_file_pos w + wl_buffer_pos w, wl_buffer_pos := 0, wl_sync_needed := True\<rparr>)"

definition wal_sync :: "wal \<Rightarrow> wal" where
  "wal_sync w = (flush_buffer w)\<lparr>wl_sync_needed := False\<rparr>"

definition wal_close :: "wal \<Rightarrow> wal" where
  "wal_close w = (if wl_state w \<noteq> WalOpen then w else (flush_buffer w)\<lparr>wl_state := WalClosed\<rparr>)"

definition write_record_to_buffer :: "(bytes \<Rightarrow> u32) \<Rightarrow> wal \<Rightarrow> record_header \<Rightarrow> bytes \<Rightarrow> wal outcome" where
  "write_record_to_buffer crc w h payload =
     (let total_len = word_of_nat (WAL_HEADER_SIZE + length payload + TRAILER_SIZE) in
      and_then (write_seq (wl_buffer_pos w)
         [record_header_to_bytes h, payload, trailer_to_bytes (trailer_new crc total_len)] (wl_buffer w)) (\<lambda>(pos, buf).
      Ok (w\<lparr>wl_buffer := buf, wl_buffer_pos := pos, wl_sync_needed := True\<rparr>)))"

definition write_large_record :: "(bytes \<Rightarrow> u32) \<Rightarrow> wal \<Rightarrow> record_header \<Rightarrow> bytes \<Rightarrow> (wal \<times> lsn) outcome" where
  "write_large_record crc w h payload =
     (let w0 = flush_buffer w;
          total_len = word_of_nat (WAL_HEADER_SIZE + length payload + TRAILER_SIZE);
          w1 = file_write (file_write (file_write w0 (record_header_to_bytes h)) payload)
                 (trailer_to_bytes (trailer_new crc total_len));
          w2 = w1\<lparr>wl_file_pos := wl_file_pos w1 + WAL_HEADER_SIZE + length payload + TRAILER_SIZE, wl_sync_needed := True\<rparr>
      in and_then (lsn_increment (wl_current_lsn w2)) (\<lambda>l. Ok (w2, l)))"

definition ensure_open :: "wal \<Rightarrow> unit outcome" where
  "ensure_open w = (if wl_state w \<noteq> WalOpen then Err (Storage (WalError ''WAL is not open'')) else Ok ())"

definition append_commit_record :: "(bytes \<Rightarrow> u32) \<Rightarrow> wal \<Rightarrow> wal_commit_record \<Rightarrow> (wal \<times> lsn) outcome" where
  "append_commit_record crc w r =
     and_then (ensure_open w) (\<lambda>_.
     and_then (serialize_payload r) (\<lambda>payload.
       let payload_len = (word_of_nat (length payload) :: u32);
           h = with_payload_checksum crc
                 (record_header_new crc CommitRec RECORD_FLAGS_EMPTY (wr_txn_id r) (wl_current_lsn w) payload_len)
                 (checksum crc payload);
           total_size = WAL_HEADER_SIZE + unat payload_len + TRAILER_SIZE;
           full = length (wl_buffer w) < wl_buffer_pos w + total_size;
           w1 = (if full then flush_buffer w else w)
       in if full \<and> length (wl_buffer w) < total_size then write_large_record crc w1 h payload
          else
            and_then (write_record_to_buffer crc w1 h payload) (\<lambda>w2.
            and_then (lsn_increment (wl_current_lsn w2)) (\<lambda>l.
            Ok (w2\<lparr>wl_current_lsn := l\<rparr>, l)))))"

section \<open>Replay\<close>

record wal_replay_iterator =
  ri_file_pos :: nat
  ri_file_size :: nat
  ri_current_lsn :: u64
  ri_done :: bool

definition replay_iterator_new :: "bytes \<Rightarrow> wal_replay_iterator" where
  "replay_iterator_new file = \<lparr>ri_file_pos = 0, ri_file_size = length file, ri_current_lsn = 0, ri_done = False\<rparr>"

definition replay_resync :: "wal_replay_iterator \<Rightarrow> nat \<Rightarrow> wal_replay_iterator" where
  "replay_resync it offset =
     (if ri_file_size it \<le> ri_file_pos it + offset then it\<lparr>ri_done := True\<rparr>
      else it\<lparr>ri_file_pos := ri_file_pos it + offset\<rparr>)"

definition read_next_commit ::
  "(bytes \<Rightarrow> u32) \<Rightarrow> (u32 \<Rightarrow> bytes \<Rightarrow> u32) \<Rightarrow> bytes \<Rightarrow> nat \<Rightarrow> nat \<Rightarrow> (wal_commit_record \<times> nat) option outcome" where
  "read_next_commit crc crc_append file pos file_size =
     (if file_size < pos + WAL_HEADER_SIZE then Ok None
      else case record_header_from_bytes (subslice pos WAL_HEADER_SIZE file) of
        Ok h \<Rightarrow>
          (if \<not> is_ok (record_header_validate crc h) then Ok None
           else case record_type_from_u16 (rh_record_type h) of
             None \<Rightarrow> Ok None
           | Some CommitRec \<Rightarrow>
               (let payload_len = unat (rh_payload_len h);
                    record_size = WAL_HEADER_SIZE + payload_len + TRAILER_SIZE
                in if file_size < pos + record_size then Ok None
                   else
                     let payload = subslice (pos + WAL_HEADER_SIZE) payload_len file;
                         calculated = checksum crc payload
                     in if calculated \<noteq> rh_payload_crc32c h
                        then Err (Validation (ChecksumMismatch (rh_payload_crc32c h) calculated))
                        else
                          (case trailer_from_bytes (subslice (pos + WAL_HEADER_SIZE + payload_len) TRAILER_SIZE file) of
                             Ok t \<Rightarrow>
                               (if \<not> is_ok (trailer_validate crc t (word_of_nat record_size)) then Ok None
                                else case deserialize_payload crc_append (rh_txn_id h) payload of
                                  Ok r \<Rightarrow> Ok (Some (r, record_size))
                                | _ \<Rightarrow> Ok None)
                           | _ \<Rightarrow> Ok None))
           | Some _ \<Rightarrow> Ok None)
      | _ \<Rightarrow> Ok None)"

definition replay_next ::
  "(bytes \<Rightarrow> u32) \<Rightarrow> (u32 \<Rightarrow> bytes \<Rightarrow> u32) \<Rightarrow> bytes \<Rightarrow> wal_replay_iterator
     \<Rightarrow> wal_replay_iterator \<times> wal_commit_record outcome option" where
  "replay_next crc crc_append file it =
     (if ri_done it then (it, None)
      else if ri_file_size it \<le> ri_file_pos it then (it\<lparr>ri_done := True\<rparr>, None)
      else case read_next_commit crc crc_append file (ri_file_pos it) (ri_file_size it) of
        Ok (Some (r, n)) \<Rightarrow>
          (it\<lparr>ri_current_lsn := ri_current_lsn it + 1, ri_file_pos := ri_file_pos it + n\<rparr>, Some (Ok r))
      | Ok None \<Rightarrow> (it\<lparr>ri_done := True\<rparr>, None)
      | Err (Validation _) \<Rightarrow> (it\<lparr>ri_done := True\<rparr>, None)
      | Err e \<Rightarrow> (it, Some (Err e))
      | Panic \<Rightarrow> (it, Some Panic))"

lemma read_next_commit_progress:
  "read_next_commit crc crc_append file pos sz = Ok (Some (r, n)) \<Longrightarrow> 0 < n"
  by (auto simp: read_next_commit_def Let_def wal_sizes split: if_splits res.splits option.splits record_type.splits)

text \<open>Draining the iterator: the records it yields before it stops or reports an error.\<close>

function replay_all ::
  "(bytes \<Rightarrow> u32) \<Rightarrow> (u32 \<Rightarrow> bytes \<Rightarrow> u32) \<Rightarrow> bytes \<Rightarrow> wal_replay_iterator \<Rightarrow> wal_commit_record list" where
  "replay_all crc crc_append file it =
     (case replay_next crc crc_append file it of
        (it', Some (Ok r)) \<Rightarrow> r # replay_all crc crc_append file it'
      | _ \<Rightarrow> [])"
  by pat_completeness auto

termination
  by (relation "measure (\<lambda>(crc, crc_append, file, it). ri_file_size it - ri_file_pos it)")
    (auto simp: replay_next_def dest!: read_next_commit_progress
      split: if_splits res.splits option.splits error.splits prod.splits)

declare replay_all.simps [simp del]

definition wal_replay :: "(bytes \<Rightarrow> u32) \<Rightarrow> (u32 \<Rightarrow> bytes \<Rightarrow> u32) \<Rightarrow> wal \<Rightarrow> wal_commit_record list" where
  "wal_replay crc crc_append w =
     (let w1 = flush_buffer w in replay_all crc crc_append (wl_file w1) (replay_iterator_new (wl_file w1)))"

text \<open>\<open>replay_ref\<close> clones the handle; creating the iterator seeks both handles to the start.\<close>

definition wal_replay_ref :: "wal \<Rightarrow> (wal \<times> wal_replay_iterator) outcome" where
  "wal_replay_ref w =
     (if 0 < wl_buffer_pos w
      then Err (Storage (WalError ''WAL has unflushed data. Call sync() before replay_ref().''))
      else Ok (w\<lparr>wl_cursor := 0\<rparr>, replay_iterator_new (wl_file w)))"

section \<open>Images of records in the log\<close>

definition wal_image :: "(bytes \<Rightarrow> u32) \<Rightarrow> u64 \<times> wal_commit_record \<Rightarrow> bytes" where
  "wal_image crc = (\<lambda>(prev, r). record_header_to_bytes (commit_header crc (wr_txn_id r) prev (payload_image r)) @ payload_image r
     @ trailer_to_bytes (trailer_new crc (word_of_nat (WAL_HEADER_SIZE + length (payload_image r) + TRAILER_SIZE))))"

definition log_image :: "(bytes \<Rightarrow> u32) \<Rightarrow> (u64 \<times> wal_commit_record) list \<Rightarrow> bytes" where
  "log_image crc es = concat (map (wal_image crc) es)"

text \<open>A record that the log can hold and that a reader accepts.\<close>

definition loggable :: "wal_commit_record \<Rightarrow> bool" where
  "loggable r \<longleftrightarrow> record_fits r \<and> (\<forall>m \<in> set (wr_mutations r). mutation_readable m)
     \<and> length (payload_image r) \<le> unat WAL_MAX_PAYLOAD_SIZE"

lemma length_wal_image: "length (wal_image crc (p, r)) = WAL_HEADER_SIZE + length (payload_image r) + TRAILER_SIZE"
  by (simp add: wal_image_def)

lemma loggable_len:
  assumes "loggable r"
  shows "unat (word_of_nat (length (payload_image r)) :: u32) = length (payload_image r)"
    and "\<not> WAL_MAX_PAYLOAD_SIZE < word_of_nat (length (payload_image r))"
proof -
  have le: "length (payload_image r) \<le> 16777216" using assms by (simp add: loggable_def WAL_MAX_PAYLOAD_SIZE_def)
  then show *: "unat (word_of_nat (length (payload_image r)) :: u32) = length (payload_image r)"
    by (simp add: unat_of_nat)
  with le show "\<not> WAL_MAX_PAYLOAD_SIZE < word_of_nat (length (payload_image r))"
    by (simp add: word_less_nat_alt WAL_MAX_PAYLOAD_SIZE_def)
qed

lemma header_of_image:
  assumes "bs = pre @ wal_image crc (p, r) @ rest"
  shows "record_header_from_bytes (subslice (length pre) WAL_HEADER_SIZE bs)
    = Ok (commit_header crc (wr_txn_id r) p (payload_image r))"
proof -
  have "subslice (length pre) WAL_HEADER_SIZE bs = record_header_to_bytes (commit_header crc (wr_txn_id r) p (payload_image r))"
    unfolding assms wal_image_def split_conv append_assoc by (rule subslice_here) simp_all
  then show ?thesis using record_header_from_to [of _ "[]"] by simp
qed

lemma body_of_image:
  assumes "bs = pre @ wal_image crc (p, r) @ rest"
  shows "subslice (length pre + WAL_HEADER_SIZE) (length (payload_image r)) bs = payload_image r"
    and "subslice (length pre + WAL_HEADER_SIZE + length (payload_image r)) TRAILER_SIZE bs
      = trailer_to_bytes (trailer_new crc (word_of_nat (WAL_HEADER_SIZE + length (payload_image r) + TRAILER_SIZE)))"
proof -
  let ?h = "record_header_to_bytes (commit_header crc (wr_txn_id r) p (payload_image r))"
  let ?t = "trailer_to_bytes (trailer_new crc (word_of_nat (WAL_HEADER_SIZE + length (payload_image r) + TRAILER_SIZE)))"
  have "bs = (pre @ ?h) @ payload_image r @ (?t @ rest)" "bs = (pre @ ?h @ payload_image r) @ ?t @ rest"
    by (simp_all add: assms wal_image_def)
  then show "subslice (length pre + WAL_HEADER_SIZE) (length (payload_image r)) bs = payload_image r"
    "subslice (length pre + WAL_HEADER_SIZE + length (payload_image r)) TRAILER_SIZE bs = ?t"
    using subslice_here [of _ "pre @ ?h" _ "payload_image r" "?t @ rest"] subslice_here [of _ "pre @ ?h @ payload_image r" _ ?t rest]
    by (simp_all add: add.assoc)
qed

lemma scan_record_image:
  assumes "bs = pre @ wal_image crc (p, r) @ rest" "loggable r"
  shows "scan_record crc bs (length pre) = Ok (ScanRecord (length (wal_image crc (p, r))))"
  using header_of_image [OF assms(1)] body_of_image [OF assms(1)] loggable_len [OF assms(2)]
  by (simp add: scan_record_def commit_header_validate Let_def trailer_new_validate length_wal_image)
    (simp add: assms(1) length_wal_image)

lemma read_next_image:
  assumes "bs = pre @ wal_image crc (p, r) @ rest" "loggable r"
  shows "read_next_commit crc crc_append bs (length pre) (length bs)
    = Ok (Some (r\<lparr>wr_checksum := crc_append 0 (payload_image r)\<rparr>, length (wal_image crc (p, r))))"
proof -
  have "length pre + (WAL_HEADER_SIZE + length (payload_image r) + TRAILER_SIZE) \<le> length bs"
    by (simp add: assms(1) length_wal_image)
  moreover have "trailer_validate crc (trailer_new crc n) n = Ok ()" for n by (simp add: trailer_new_validate)
  ultimately show ?thesis
    using header_of_image [OF assms(1)] body_of_image [OF assms(1)] loggable_len [OF assms(2)]
      deserialize_payload_image [of r crc_append] assms(2)
    by (simp add: read_next_commit_def commit_header_validate Let_def length_wal_image record_type_from_u16_def loggable_def)
qed

text \<open>A torn record: a proper prefix of an image at the end of the file.\<close>

lemma torn_header:
  assumes "bs = pre @ take j (wal_image crc (p, r))" "WAL_HEADER_SIZE \<le> j"
  shows "record_header_from_bytes (subslice (length pre) WAL_HEADER_SIZE bs)
    = Ok (commit_header crc (wr_txn_id r) p (payload_image r))"
proof -
  let ?h = "record_header_to_bytes (commit_header crc (wr_txn_id r) p (payload_image r))"
  have "\<exists>rest. bs = pre @ ?h @ rest"
    using assms by (simp add: wal_image_def take_append)
  then have "subslice (length pre) WAL_HEADER_SIZE bs = ?h" using subslice_here [of _ pre _ ?h] by auto
  then show ?thesis using record_header_from_to [of _ "[]"] by simp
qed

lemma torn_stop:
  assumes "bs = pre @ take j (wal_image crc (p, r))" "j < length (wal_image crc (p, r))" "loggable r"
  shows "scan_highest_lsn crc bs (length pre) l = Ok (l, length pre)"
    and "read_next_commit crc crc_append bs (length pre) (length bs) = Ok None"
proof -
  have short: "length bs < length pre + (WAL_HEADER_SIZE + length (payload_image r) + TRAILER_SIZE)"
    using assms(1,2) by (simp add: length_wal_image)
  have "scan_highest_lsn crc bs (length pre) l = Ok (l, length pre)
      \<and> read_next_commit crc crc_append bs (length pre) (length bs) = Ok None"
  proof (cases "length bs < length pre + WAL_HEADER_SIZE")
    case True
    then show ?thesis by (simp add: scan_highest_lsn.simps read_next_commit_def)
  next
    case False
    then have "WAL_HEADER_SIZE \<le> j" using assms(1) by simp
    note h = torn_header [OF assms(1) this]
    have "scan_record crc bs (length pre) = Ok ScanStop"
      using h short loggable_len [OF assms(3)] by (simp add: scan_record_def commit_header_validate Let_def)
    with h short loggable_len [OF assms(3)] False show ?thesis
      by (simp add: scan_highest_lsn.simps read_next_commit_def commit_header_validate Let_def record_type_from_u16_def)
  qed
  then show "scan_highest_lsn crc bs (length pre) l = Ok (l, length pre)"
    "read_next_commit crc crc_append bs (length pre) (length bs) = Ok None" by auto
qed

section \<open>Reading a prefix of the log\<close>

text \<open>The records whose images lie completely within the first \<open>m\<close> bytes.\<close>

fun complete_records :: "(bytes \<Rightarrow> u32) \<Rightarrow> nat \<Rightarrow> (u64 \<times> wal_commit_record) list \<Rightarrow> (u64 \<times> wal_commit_record) list" where
  "complete_records crc m [] = []"
| "complete_records crc m (e # es) =
     (if length (wal_image crc e) \<le> m then e # complete_records crc (m - length (wal_image crc e)) es else [])"

lemma complete_records_all: "length (log_image crc es) \<le> m \<Longrightarrow> complete_records crc m es = es"
  by (induction es arbitrary: m) (auto simp: log_image_def)

lemma complete_records_prefix: "\<exists>rest. es = complete_records crc m es @ rest"
  by (induction es arbitrary: m) auto

lemma log_image_Cons [simp]: "log_image crc (e # es) = wal_image crc e @ log_image crc es" "log_image crc [] = []"
  by (simp_all add: log_image_def)

lemma scan_prefix:
  assumes "\<forall>e \<in> set es. loggable (snd e)" "unat l + length es < 2 ^ 64" "bs = pre @ take m (log_image crc es)"
  shows "scan_highest_lsn crc bs (length pre) l
    = Ok (l + word_of_nat (length (complete_records crc m es)), length pre + length (log_image crc (complete_records crc m es)))"
  using assms
proof (induction es arbitrary: pre l m)
  case Nil
  then show ?case by (simp add: scan_highest_lsn.simps)
next
  case (Cons e es)
  obtain p r where e: "e = (p, r)" by (cases e)
  have ok: "loggable r" using Cons.prems(1) by (simp add: e)
  show ?case
  proof (cases "length (wal_image crc e) \<le> m")
    case True
    let ?rest = "take (m - length (wal_image crc e)) (log_image crc es)"
    have bs: "bs = pre @ wal_image crc (p, r) @ ?rest" using Cons.prems(3) True by (simp add: e)
    have "unat l + 1 < 2 ^ 64" using Cons.prems(2) by simp
    then have inc: "lsn_increment l = Ok (l + 1)" "unat (l + 1) = unat l + 1"
      by (simp_all add: lsn_increment_def checked_add_def unat_word_ariths)
    have len: "\<not> length bs \<le> length pre" "\<not> length bs < length pre + WAL_HEADER_SIZE"
      by (simp_all add: bs length_wal_image wal_sizes)
    have "scan_highest_lsn crc bs (length pre) l
        = scan_highest_lsn crc bs (length (pre @ wal_image crc (p, r))) (l + 1)"
      using scan_record_image [OF bs ok] len by (simp add: scan_highest_lsn.simps [of crc bs "length pre"] inc)
    also have "\<dots> = Ok (l + 1 + word_of_nat (length (complete_records crc (m - length (wal_image crc e)) es)),
        length (pre @ wal_image crc (p, r)) + length (log_image crc (complete_records crc (m - length (wal_image crc e)) es)))"
      using Cons.prems bs by (intro Cons.IH) (auto simp: inc(2))
    finally show ?thesis using True by (simp add: e add.assoc)
  next
    case False
    then have "bs = pre @ take m (wal_image crc (p, r))" using Cons.prems(3) by (simp add: e)
    from torn_stop(1) [OF this _ ok] False show ?thesis by (simp add: e)
  qed
qed

definition iterator_at :: "bytes \<Rightarrow> nat \<Rightarrow> wal_replay_iterator \<Rightarrow> bool" where
  "iterator_at bs pos it \<longleftrightarrow> ri_file_pos it = pos \<and> ri_file_size it = length bs \<and> \<not> ri_done it"

definition read_back :: "(u32 \<Rightarrow> bytes \<Rightarrow> u32) \<Rightarrow> wal_commit_record \<Rightarrow> wal_commit_record" where
  "read_back crc_append r = r\<lparr>wr_checksum := crc_append 0 (payload_image r)\<rparr>"

lemma replay_prefix:
  assumes "\<forall>e \<in> set es. loggable (snd e)" "bs = pre @ take m (log_image crc es)" "iterator_at bs (length pre) it"
  shows "replay_all crc crc_append bs it = map (read_back crc_append \<circ> snd) (complete_records crc m es)"
  using assms
proof (induction es arbitrary: pre it m)
  case Nil
  then have "replay_next crc crc_append bs it = (it\<lparr>ri_done := True\<rparr>, None)"
    by (simp add: replay_next_def iterator_at_def)
  then show ?case by (simp add: replay_all.simps [of crc crc_append bs it])
next
  case (Cons e es)
  obtain p r where e: "e = (p, r)" by (cases e)
  have ok: "loggable r" using Cons.prems(1) by (simp add: e)
  show ?case
  proof (cases "length (wal_image crc e) \<le> m")
    case True
    let ?rest = "take (m - length (wal_image crc e)) (log_image crc es)"
    let ?it = "it\<lparr>ri_current_lsn := ri_current_lsn it + 1, ri_file_pos := length (pre @ wal_image crc (p, r))\<rparr>"
    have bs: "bs = pre @ wal_image crc (p, r) @ ?rest" using Cons.prems(2) True by (simp add: e)
    have "\<not> length bs \<le> length pre" by (simp add: bs length_wal_image wal_sizes)
    then have "replay_next crc crc_append bs it = (?it, Some (Ok (read_back crc_append r)))"
      using Cons.prems(3) read_next_image [OF bs ok, of crc_append]
      by (simp add: replay_next_def iterator_at_def read_back_def)
    moreover have "replay_all crc crc_append bs ?it
        = map (read_back crc_append \<circ> snd) (complete_records crc (m - length (wal_image crc e)) es)"
    proof (rule Cons.IH)
      show "\<forall>e \<in> set es. loggable (snd e)" using Cons.prems(1) by simp
      show "bs = (pre @ wal_image crc (p, r)) @ ?rest" by (simp only: bs append_assoc)
      show "iterator_at bs (length (pre @ wal_image crc (p, r))) ?it" using Cons.prems(3) by (simp add: iterator_at_def)
    qed
    ultimately show ?thesis using True by (simp add: replay_all.simps [of crc crc_append bs it] e)
  next
    case False
    then have "bs = pre @ take m (wal_image crc (p, r))" using Cons.prems(2) by (simp add: e)
    from torn_stop(2) [OF this _ ok, of crc_append] False
    have none: "read_next_commit crc crc_append bs (length pre) (length bs) = Ok None" by (simp add: e)
    have "replay_next crc crc_append bs it = (it\<lparr>ri_done := True\<rparr>, None)"
      using Cons.prems(3) by (simp add: replay_next_def iterator_at_def none)
    with False show ?thesis by (simp add: replay_all.simps [of crc crc_append bs it] e)
  qed
qed

section \<open>Appending\<close>

text \<open>What the log holds: the bytes in the file and the bytes still in the buffer.\<close>

definition wal_contents :: "wal \<Rightarrow> bytes" where
  "wal_contents w = wl_file w @ take (wl_buffer_pos w) (wl_buffer w)"

definition wal_inv :: "wal \<Rightarrow> bool" where
  "wal_inv w \<longleftrightarrow> wl_state w = WalOpen \<and> wl_cursor w = length (wl_file w) \<and> wl_file_pos w = length (wl_file w)
     \<and> length (wl_buffer w) = WAL_BUFFER_SIZE \<and> wl_buffer_pos w \<le> WAL_BUFFER_SIZE"

lemma file_write_end: "wl_cursor w = length (wl_file w) \<Longrightarrow>
    file_write w d = w\<lparr>wl_file := wl_file w @ d, wl_cursor := length (wl_file w) + length d\<rparr>"
  by (simp add: file_write_def)

lemma wal_create_inv [inv_rules]: "wal_inv wal_create" "wal_contents wal_create = []"
  by (simp_all add: wal_inv_def wal_create_def wal_contents_def)

lemma flush_buffer_inv [inv_rules]:
  assumes "wal_inv w"
  shows "wal_inv (flush_buffer w)" "wal_contents (flush_buffer w) = wal_contents w" "wl_buffer_pos (flush_buffer w) = 0"
    "wl_file (flush_buffer w) = wal_contents w" "wl_current_lsn (flush_buffer w) = wl_current_lsn w"
    "wl_buffer (flush_buffer w) = wl_buffer w"
  using assms by (auto simp: flush_buffer_def wal_inv_def wal_contents_def file_write_end)

lemma append_to_buffer:
  assumes "wal_inv w" "wl_buffer_pos w + length (wal_image crc (p, r)) \<le> WAL_BUFFER_SIZE"
  shows "\<exists>w'. write_record_to_buffer crc w (commit_header crc (wr_txn_id r) p (payload_image r)) (payload_image r) = Ok w'
    \<and> wal_inv w' \<and> wal_contents w' = wal_contents w @ wal_image crc (p, r) \<and> wl_current_lsn w' = wl_current_lsn w"
proof -
  let ?pre = "take (wl_buffer_pos w) (wl_buffer w)" and ?old = "drop (wl_buffer_pos w) (wl_buffer w)"
  let ?cs = "[record_header_to_bytes (commit_header crc (wr_txn_id r) p (payload_image r)), payload_image r,
    trailer_to_bytes (trailer_new crc (word_of_nat (WAL_HEADER_SIZE + length (payload_image r) + TRAILER_SIZE)))]"
  have img: "concat ?cs = wal_image crc (p, r)" by (simp add: wal_image_def)
  have pre: "length ?pre = wl_buffer_pos w" using assms(1) by (simp add: wal_inv_def)
  have "write_seq (wl_buffer_pos w) ?cs (?pre @ ?old) = Ok (wl_buffer_pos w + length (wal_image crc (p, r)),
      ?pre @ wal_image crc (p, r) @ drop (length (wal_image crc (p, r))) ?old)"
    using write_seq_append [of ?cs ?old ?pre] assms unfolding img pre by (simp add: wal_inv_def)
  then show ?thesis
    using assms pre by (simp add: write_record_to_buffer_def Let_def wal_inv_def wal_contents_def del: write_seq.simps)
qed

lemma append_large:
  assumes "wal_inv w" "wl_current_lsn w \<noteq> - 1"
  shows "\<exists>w'. write_large_record crc w (commit_header crc (wr_txn_id r) p (payload_image r)) (payload_image r)
      = Ok (w', wl_current_lsn w + 1)
    \<and> wal_inv w' \<and> wal_contents w' = wal_contents w @ wal_image crc (p, r) \<and> wl_current_lsn w' = wl_current_lsn w"
proof -
  note fl = flush_buffer_inv [OF assms(1)]
  have inc: "lsn_increment (wl_current_lsn w) = Ok (wl_current_lsn w + 1)"
    using assms(2) checked_add_one_Some [of "wl_current_lsn w" "wl_current_lsn w + 1"] by (simp add: lsn_increment_def)
  have "wl_cursor (flush_buffer w) = length (wl_file (flush_buffer w))" using fl(1) by (simp add: wal_inv_def)
  then show ?thesis
    using fl by (simp add: write_large_record_def Let_def file_write_end inc wal_inv_def wal_contents_def wal_image_def)
qed

definition is_large :: "wal_commit_record \<Rightarrow> bool" where
  "is_large r \<longleftrightarrow> WAL_BUFFER_SIZE < WAL_HEADER_SIZE + length (payload_image r) + TRAILER_SIZE"

lemma append_commit:
  assumes "wal_inv w" "record_fits r" "length (payload_image r) < 2 ^ 32" "wl_current_lsn w \<noteq> - 1"
  shows "\<exists>w'. append_commit_record crc w r = Ok (w', wl_current_lsn w + 1) \<and> wal_inv w'
    \<and> wal_contents w' = wal_contents w @ wal_image crc (wl_current_lsn w, r)
    \<and> wl_current_lsn w' = (if is_large r then wl_current_lsn w else wl_current_lsn w + 1)"
proof -
  let ?h = "commit_header crc (wr_txn_id r) (wl_current_lsn w) (payload_image r)" and ?img = "wal_image crc (wl_current_lsn w, r)"
  have len: "unat (word_of_nat (length (payload_image r)) :: u32) = length (payload_image r)"
    using assms(3) by (simp add: unat_of_nat)
  have inc: "lsn_increment (wl_current_lsn w) = Ok (wl_current_lsn w + 1)"
    using assms(4) checked_add_one_Some [of "wl_current_lsn w" "wl_current_lsn w + 1"] by (simp add: lsn_increment_def)
  define full where "full \<longleftrightarrow> WAL_BUFFER_SIZE < wl_buffer_pos w + length ?img"
  define w1 where "w1 = (if full then flush_buffer w else w)"
  have inv1: "wal_inv w1" "wal_contents w1 = wal_contents w" "wl_current_lsn w1 = wl_current_lsn w"
    using assms(1) flush_buffer_inv [OF assms(1)] by (simp_all add: w1_def)
  have app: "append_commit_record crc w r =
     (if full \<and> is_large r then write_large_record crc w1 ?h (payload_image r)
      else and_then (write_record_to_buffer crc w1 ?h (payload_image r)) (\<lambda>w2.
        and_then (lsn_increment (wl_current_lsn w2)) (\<lambda>l. Ok (w2\<lparr>wl_current_lsn := l\<rparr>, l))))"
    using assms(1) serialize_payload_image [OF assms(2)]
    by (simp add: append_commit_record_def ensure_open_def wal_inv_def Let_def len full_def w1_def is_large_def
        length_wal_image commit_header_def)
  show ?thesis
  proof (cases "is_large r")
    case True
    then have full using assms(1) by (simp add: full_def is_large_def length_wal_image)
    with True app append_large [OF inv1(1), of crc r "wl_current_lsn w"] assms(4) inv1 show ?thesis by simp
  next
    case False
    then have "wl_buffer_pos w1 + length ?img \<le> WAL_BUFFER_SIZE"
      using flush_buffer_inv [OF assms(1)] by (simp add: w1_def full_def is_large_def length_wal_image)
    from append_to_buffer [OF inv1(1) this] obtain w2 where
      w2: "write_record_to_buffer crc w1 ?h (payload_image r) = Ok w2" "wal_inv w2" "wal_contents w2 = wal_contents w1 @ ?img"
        "wl_current_lsn w2 = wl_current_lsn w1" by blast
    with False app inc inv1 show ?thesis
      by (simp add: wal_inv_def wal_contents_def)
  qed
qed

fun append_all :: "(bytes \<Rightarrow> u32) \<Rightarrow> wal \<Rightarrow> wal_commit_record list \<Rightarrow> wal outcome" where
  "append_all crc w [] = Ok w"
| "append_all crc w (r # rs) = and_then (append_commit_record crc w r) (\<lambda>(w', l). append_all crc w' rs)"

lemma append_all_log:
  assumes "wal_inv w" "\<forall>r \<in> set rs. loggable r" "unat (wl_current_lsn w) + length rs < 2 ^ 64"
  shows "\<exists>w' es. append_all crc w rs = Ok w' \<and> wal_inv w' \<and> wal_contents w' = wal_contents w @ log_image crc es \<and> map snd es = rs"
  using assms
proof (induction rs arbitrary: w)
  case Nil
  then show ?case by (intro exI [of _ w] exI [of _ "[]"]) simp
next
  case (Cons r rs)
  have lsn: "wl_current_lsn w \<noteq> - 1" "unat (wl_current_lsn w + 1) = unat (wl_current_lsn w) + 1"
    using Cons.prems(3) unat_minus_one [where 'a = 64] by (auto simp: unat_word_ariths)
  have "record_fits r" "length (payload_image r) < 2 ^ 32"
    using Cons.prems(2) by (auto simp: loggable_def WAL_MAX_PAYLOAD_SIZE_def)
  from append_commit [OF Cons.prems(1) this lsn(1), of crc] obtain w1 where
    w1: "append_commit_record crc w r = Ok (w1, wl_current_lsn w + 1)" "wal_inv w1"
      "wal_contents w1 = wal_contents w @ wal_image crc (wl_current_lsn w, r)"
      "wl_current_lsn w1 = (if is_large r then wl_current_lsn w else wl_current_lsn w + 1)" by blast
  have "unat (wl_current_lsn w1) + length rs < 2 ^ 64" using Cons.prems(3) lsn(2) w1(4) by (simp split: if_splits)
  with Cons.IH [OF w1(2)] Cons.prems(2) obtain w' es where
    "append_all crc w1 rs = Ok w'" "wal_inv w'" "wal_contents w' = wal_contents w1 @ log_image crc es" "map snd es = rs" by auto
  with w1 show ?case by (intro exI [of _ w'] exI [of _ "(wl_current_lsn w, r) # es"]) simp
qed

lemma wal_open_prefix:
  assumes "\<forall>e \<in> set es. loggable (snd e)" "length es < 2 ^ 64"
  shows "\<exists>w. wal_open crc (take m (log_image crc es)) = Ok w \<and> wl_current_lsn w = word_of_nat (length (complete_records crc m es))
    \<and> wl_buffer_pos w = 0 \<and> wl_file w = take m (log_image crc es) \<and> wl_file_pos w = length (log_image crc (complete_records crc m es))"
proof -
  let ?file = "take m (log_image crc es)"
  have "scan_highest_lsn crc ?file 0 0
      = Ok (word_of_nat (length (complete_records crc m es)), length (log_image crc (complete_records crc m es)))"
    using scan_prefix [OF assms(1), of 0 ?file "[]" m crc] assms(2) by simp
  moreover from this have "length ?file = 0 \<Longrightarrow> complete_records crc m es = [] \<or> length (log_image crc (complete_records crc m es)) = 0
      \<and> (word_of_nat (length (complete_records crc m es)) :: u64) = 0"
    by (simp add: scan_highest_lsn.simps)
  ultimately show ?thesis by (auto simp: wal_open_def simp del: length_take)
qed

lemma recover_prefix:
  assumes "\<forall>e \<in> set es. loggable (snd e)" "length es < 2 ^ 64"
  shows "\<exists>k w. wal_open crc (take m (log_image crc es)) = Ok w \<and> wl_current_lsn w = word_of_nat k
    \<and> wal_replay crc crc_append w = map (read_back crc_append) (take k (map snd es))
    \<and> (length (log_image crc es) \<le> m \<longrightarrow> k = length es)"
proof -
  let ?c = "complete_records crc m es"
  obtain w where w: "wal_open crc (take m (log_image crc es)) = Ok w" "wl_current_lsn w = word_of_nat (length ?c)"
      "wl_buffer_pos w = 0" "wl_file w = take m (log_image crc es)"
    using wal_open_prefix [OF assms, of crc m] by blast
  have "iterator_at (wl_file w) 0 (replay_iterator_new (wl_file w))"
    by (simp add: iterator_at_def replay_iterator_new_def)
  with replay_prefix [OF assms(1), of "wl_file w" "[]" m crc "replay_iterator_new (wl_file w)" crc_append] w(3,4)
  have "wal_replay crc crc_append w = map (read_back crc_append \<circ> snd) ?c"
    by (simp add: wal_replay_def flush_buffer_def)
  moreover obtain rest where "es = ?c @ rest" using complete_records_prefix by blast
  then have "take (length ?c) (map snd es) = map snd ?c" by (metis append_eq_conv_conj take_map)
  moreover have "length (log_image crc es) \<le> m \<Longrightarrow> length ?c = length es" by (simp add: complete_records_all)
  ultimately show ?thesis using w(1,2) by (intro exI [of _ "length ?c"] exI [of _ w]) simp
qed

section \<open>Properties\<close>

text \<open>
  C7. Crash recovery of the log, for fewer than \<open>2^64\<close> loggable transactions: their puts have nonempty values, their lengths fit the
  fields of the format, and each payload has at most 16 MiB. Appending them to a fresh log and syncing it succeeds, and after a
  crash that keeps any prefix of the file the log opens without an error and replays exactly the first so many of the
  transactions, in order and unchanged apart from the computed checksum; when the whole file survived, all of them. The condition
  is needed: an empty value is not read back, and a record with a larger payload keeps the log from opening.
\<close>

theorem wal_crash_recovery:
  assumes "\<forall>r \<in> set rs. loggable r" "length rs < 2 ^ 64"
  shows "\<exists>w. append_all crc wal_create rs = Ok w \<and> \<not> wl_sync_needed (wal_sync w) \<and>
    (\<forall>m. \<exists>k w'. wal_open crc (take m (wl_file (wal_sync w))) = Ok w' \<and> wl_current_lsn w' = word_of_nat k
       \<and> wal_replay crc crc_append w' = map (read_back crc_append) (take k rs)
       \<and> (length (wl_file (wal_sync w)) \<le> m \<longrightarrow> k = length rs))"
proof -
  have "unat (wl_current_lsn wal_create) + length rs < 2 ^ 64" using assms(2) by (simp add: wal_create_def)
  from append_all_log [OF wal_create_inv(1) assms(1) this, of crc] obtain w es where
    w: "append_all crc wal_create rs = Ok w" "wal_inv w" "wal_contents w = log_image crc es" "map snd es = rs"
    by (auto simp: wal_create_inv(2))
  have es: "\<forall>e \<in> set es. loggable (snd e)" using assms(1) w(4) by (metis image_eqI list.set_map)
  have len: "length es = length rs" using w(4) by (metis length_map)
  have bytes: "wl_file (wal_sync w) = log_image crc es"
    using flush_buffer_inv(4) [OF w(2)] by (simp add: wal_sync_def w(3))
  have "\<not> wl_sync_needed (wal_sync w)" by (simp add: wal_sync_def)
  moreover have "\<forall>m. \<exists>k w'. wal_open crc (take m (wl_file (wal_sync w))) = Ok w' \<and> wl_current_lsn w' = word_of_nat k
       \<and> wal_replay crc crc_append w' = map (read_back crc_append) (take k rs)
       \<and> (length (wl_file (wal_sync w)) \<le> m \<longrightarrow> k = length rs)"
    unfolding bytes using recover_prefix [OF es, of crc _ crc_append] assms(2) by (simp only: len w(4)) blast
  ultimately show ?thesis using w(1) by blast
qed

theorem wal_crash_recovery_witness:
  "\<exists>w k w'. append_all (\<lambda>_. 7) wal_create [wal_commit_record_new 7 0 [WalPut [1] [2]], wal_commit_record_new 8 0 [WalDelete [3]]] = Ok w
     \<and> wal_open (\<lambda>_. 7) (take 100 (wl_file (wal_sync w))) = Ok w'
     \<and> wal_replay (\<lambda>_. 7) (\<lambda>_ _. 7) w' = map (read_back (\<lambda>_ _. 7))
         (take k [wal_commit_record_new 7 0 [WalPut [1] [2]], wal_commit_record_new 8 0 [WalDelete [3]]])"
proof -
  let ?rs = "[wal_commit_record_new 7 0 [WalPut [1] [2]], wal_commit_record_new 8 0 [WalDelete [3]]]"
  have "\<forall>r \<in> set ?rs. loggable r"
    by (simp add: loggable_def record_fits_def wal_commit_record_new_def mutation_fits_def mutation_readable_def
        payload_image_def op_image_def COMMIT_HEADER_SIZE_def WAL_MAX_PAYLOAD_SIZE_def)
  moreover have "length ?rs < 2 ^ 64" by simp
  ultimately show ?thesis using wal_crash_recovery [of ?rs "\<lambda>_. 7" "\<lambda>_ _. 7"] by blast
qed

text \<open>
  What an append does. On an open log with a consistent buffer, appending a transaction extends
  what the log holds by the transaction's record and returns the next LSN; nothing that was logged
  before changes, whether the record goes to the buffer, forces it to be flushed, or is written
  directly to the file.
\<close>

theorem append_extends_log:
  assumes "wal_inv w" "record_fits r" "length (payload_image r) < 2 ^ 32" "wl_current_lsn w \<noteq> - 1"
  shows "\<exists>w'. append_commit_record crc w r = Ok (w', wl_current_lsn w + 1) \<and> wal_inv w'
    \<and> wal_contents w' = wal_contents w @ wal_image crc (wl_current_lsn w, r) \<and> wl_file (wal_sync w') = wal_contents w'"
proof -
  from append_commit [OF assms, of crc] obtain w' where
    "append_commit_record crc w r = Ok (w', wl_current_lsn w + 1)" "wal_inv w'"
    "wal_contents w' = wal_contents w @ wal_image crc (wl_current_lsn w, r)" by blast
  then show ?thesis using flush_buffer_inv(4) [of w'] by (simp add: wal_sync_def)
qed

theorem append_extends_log_witness:
  "\<exists>w'. append_commit_record (\<lambda>_. 7) wal_create (wal_commit_record_new 7 0 [WalPut [1] [2]]) = Ok (w', 1)"
  using append_extends_log [OF wal_create_inv(1), of "wal_commit_record_new 7 0 [WalPut [1] [2]]" "\<lambda>_. 7"]
  by (auto simp: wal_create_def record_fits_def wal_commit_record_new_def mutation_fits_def payload_image_def
      op_image_def COMMIT_HEADER_SIZE_def)

text \<open>
  A record larger than the buffer does not advance the log's LSN: the append returns the next
  LSN, but the following append returns the same LSN again.
\<close>

theorem large_record_repeats_lsn:
  assumes "wal_inv w" "record_fits r" "is_large r" "length (payload_image r) < 2 ^ 32" "wl_current_lsn w \<noteq> - 1"
    and "record_fits r'" "length (payload_image r') < 2 ^ 32"
  shows "\<exists>w1 w2. append_commit_record crc w r = Ok (w1, wl_current_lsn w + 1)
    \<and> append_commit_record crc w1 r' = Ok (w2, wl_current_lsn w + 1)"
proof -
  obtain w1 where w1: "append_commit_record crc w r = Ok (w1, wl_current_lsn w + 1)" "wal_inv w1"
      "wl_current_lsn w1 = wl_current_lsn w"
    using append_commit [OF assms(1,2,4,5), of crc] assms(3) by auto
  with append_commit [OF w1(2) assms(6,7), of crc] assms(5) show ?thesis by auto
qed

definition big_record :: wal_commit_record where
  "big_record = wal_commit_record_new 7 0 [WalPut [1] (replicate 70000 0)]"

theorem large_record_repeats_lsn_witness:
  "\<exists>w1 w2. append_commit_record (\<lambda>_. 7) wal_create big_record = Ok (w1, 1)
    \<and> append_commit_record (\<lambda>_. 7) w1 big_record = Ok (w2, 1)"
proof -
  have "length (payload_image big_record) = 70041"
    by (simp add: big_record_def wal_commit_record_new_def payload_image_def op_image_def COMMIT_HEADER_SIZE_def)
  moreover have "record_fits big_record"
    by (simp add: big_record_def wal_commit_record_new_def record_fits_def mutation_fits_def)
  ultimately show ?thesis
    using large_record_repeats_lsn [OF wal_create_inv(1), of big_record big_record "\<lambda>_. 7"]
    by (simp add: is_large_def WAL_BUFFER_SIZE_def) (simp add: wal_create_def)
qed

text \<open>
  The log accepts a record whose payload is longer than the reader's limit of 16 MiB, and after
  that it cannot be opened any more. The limits on keys and values allow such a transaction: one
  value of 16 MiB is enough.
\<close>

theorem oversized_record_blocks_open:
  assumes "record_fits r" "unat WAL_MAX_PAYLOAD_SIZE < length (payload_image r)" "length (payload_image r) < 2 ^ 32"
  shows "\<exists>w. append_commit_record crc wal_create r = Ok (w, 1)
    \<and> wal_open crc (wl_file (wal_sync w))
      = Err (Validation (PayloadLengthInvalid (word_of_nat (length (payload_image r))) WAL_MAX_PAYLOAD_SIZE))"
proof -
  have zero: "wl_current_lsn wal_create = 0" by (simp add: wal_create_def)
  obtain w where w: "append_commit_record crc wal_create r = Ok (w, 1)" "wal_inv w" "wal_contents w = wal_image crc (0, r)"
    using append_commit [OF wal_create_inv(1) assms(1,3), of crc] by (auto simp: wal_create_inv(2) zero)
  let ?file = "wal_image crc (0, r)"
  have bytes: "wl_file (wal_sync w) = ?file" using flush_buffer_inv(4) [OF w(2)] w(3) by (simp add: wal_sync_def)
  have "unat (word_of_nat (length (payload_image r)) :: u32) = length (payload_image r)" using assms(3) by (simp add: unat_of_nat)
  then have big: "WAL_MAX_PAYLOAD_SIZE < word_of_nat (length (payload_image r))" using assms(2) by (simp add: word_less_nat_alt)
  have "scan_record crc ?file 0 = Err (Validation (PayloadLengthInvalid (word_of_nat (length (payload_image r))) WAL_MAX_PAYLOAD_SIZE))"
    using header_of_image [of ?file "[]" crc 0 r "[]"] big by (simp add: scan_record_def commit_header_validate)
  moreover have "\<not> length ?file \<le> 0" "\<not> length ?file < 0 + WAL_HEADER_SIZE" by (simp_all add: length_wal_image wal_sizes)
  ultimately have "wal_open crc ?file = Err (Validation (PayloadLengthInvalid (word_of_nat (length (payload_image r))) WAL_MAX_PAYLOAD_SIZE))"
    by (simp add: wal_open_def scan_highest_lsn.simps)
  with w(1) bytes show ?thesis by auto
qed

definition huge_record :: wal_commit_record where
  "huge_record = wal_commit_record_new 7 0 [WalPut [1] (replicate 16777216 0)]"

theorem oversized_record_blocks_open_witness:
  "\<exists>w. append_commit_record (\<lambda>_. 7) wal_create huge_record = Ok (w, 1) \<and> \<not> is_ok (wal_open (\<lambda>_. 7) (wl_file (wal_sync w)))"
proof -
  have "length (payload_image huge_record) = 16777257"
    by (simp add: huge_record_def wal_commit_record_new_def payload_image_def op_image_def COMMIT_HEADER_SIZE_def)
  moreover have "record_fits huge_record"
    by (simp add: huge_record_def wal_commit_record_new_def record_fits_def mutation_fits_def)
  ultimately show ?thesis
    using oversized_record_blocks_open [of huge_record "\<lambda>_. 7"] by (auto simp: WAL_MAX_PAYLOAD_SIZE_def)
qed

end
