(* ===== verification/Wal_Config.thy ===== *)
theory Wal_Config
  imports Wal
begin

text \<open>
  \<^verbatim>\<open>wal/config.rs\<close>: the configuration of the write-ahead log and what its states allow. A builder method whose assertion fails
  panics.
\<close>

definition WAL_DEFAULT_BUFFER_SIZE :: nat where "WAL_DEFAULT_BUFFER_SIZE = 64 * 1024"
definition MIN_BUFFER_SIZE :: nat where "MIN_BUFFER_SIZE = 4 * 1024"
definition DEFAULT_AUTOCHECKPOINT_THRESHOLD :: nat where "DEFAULT_AUTOCHECKPOINT_THRESHOLD = 10000"
definition DEFAULT_MAX_WAL_SIZE :: nat where "DEFAULT_MAX_WAL_SIZE = 100 * 1024 * 1024"

lemmas wal_config_consts =
  WAL_DEFAULT_BUFFER_SIZE_def MIN_BUFFER_SIZE_def DEFAULT_AUTOCHECKPOINT_THRESHOLD_def DEFAULT_MAX_WAL_SIZE_def

datatype sync_strategy = OnCommit | BatchSync | NoSync

definition sync_strategy_default :: sync_strategy where "sync_strategy_default = OnCommit"

fun allows_modifications :: "wal_state \<Rightarrow> bool" where
  "allows_modifications WalOpen = True"
| "allows_modifications _ = False"

fun allows_reads :: "wal_state \<Rightarrow> bool" where
  "allows_reads WalOpen = True"
| "allows_reads WalRecovering = True"
| "allows_reads _ = False"

definition wal_state_is_open :: "wal_state \<Rightarrow> bool" where "wal_state_is_open st \<longleftrightarrow> st = WalOpen"
definition wal_state_is_closed :: "wal_state \<Rightarrow> bool" where "wal_state_is_closed st \<longleftrightarrow> st = WalClosed"

record wal_config =
  wc_buffer_size :: nat
  wc_sync_strategy :: sync_strategy
  wc_autocheckpoint_threshold :: nat
  wc_max_wal_size :: nat

definition wal_config_default :: wal_config where
  "wal_config_default =
     \<lparr>wc_buffer_size = WAL_DEFAULT_BUFFER_SIZE, wc_sync_strategy = sync_strategy_default,
      wc_autocheckpoint_threshold = DEFAULT_AUTOCHECKPOINT_THRESHOLD, wc_max_wal_size = DEFAULT_MAX_WAL_SIZE\<rparr>"

definition with_buffer_size :: "nat \<Rightarrow> wal_config \<Rightarrow> (string, wal_config) res" where
  "with_buffer_size n c =
     (if n < MIN_BUFFER_SIZE then Panic
      else if n mod MIN_BUFFER_SIZE \<noteq> 0 then Panic
      else Ok (c\<lparr>wc_buffer_size := n\<rparr>))"

definition with_sync_strategy :: "sync_strategy \<Rightarrow> wal_config \<Rightarrow> wal_config" where
  "with_sync_strategy s c = c\<lparr>wc_sync_strategy := s\<rparr>"

definition with_autocheckpoint_threshold :: "nat \<Rightarrow> wal_config \<Rightarrow> wal_config" where
  "with_autocheckpoint_threshold n c = c\<lparr>wc_autocheckpoint_threshold := n\<rparr>"

definition with_max_wal_size :: "nat \<Rightarrow> wal_config \<Rightarrow> (string, wal_config) res" where
  "with_max_wal_size n c = (if n < wc_buffer_size c then Panic else Ok (c\<lparr>wc_max_wal_size := n\<rparr>))"

definition wal_config_validate :: "wal_config \<Rightarrow> (string, unit) res" where
  "wal_config_validate c =
     (if wc_buffer_size c < MIN_BUFFER_SIZE then Err (''Buffer size too small (minimum '' @ fmt_nat MIN_BUFFER_SIZE @ '' bytes)'')
      else if wc_buffer_size c mod MIN_BUFFER_SIZE \<noteq> 0 then Err ''Buffer size must be page-aligned''
      else if wc_max_wal_size c < wc_buffer_size c then Err ''Max WAL size must be at least buffer size''
      else Ok ())"

lemma validate_iff:
  "wal_config_validate c = Ok () \<longleftrightarrow>
     0 < wc_buffer_size c \<and> MIN_BUFFER_SIZE dvd wc_buffer_size c \<and> wc_buffer_size c \<le> wc_max_wal_size c"
  by (auto simp: wal_config_validate_def not_less dvd_eq_mod_eq_0 [symmetric] wal_config_consts intro: dvd_imp_le)

text \<open>The default is valid, and the builder keeps a configuration valid except that a larger buffer can exceed the maximum.\<close>

lemma default_valid: "wal_config_validate wal_config_default = Ok ()"
  by (simp add: wal_config_validate_def wal_config_default_def wal_config_consts)

lemma builder_keeps_valid:
  assumes "wal_config_validate c = Ok ()"
  shows "wal_config_validate (with_sync_strategy s c) = Ok ()"
    and "wal_config_validate (with_autocheckpoint_threshold n c) = Ok ()"
    and "with_max_wal_size n c = Ok c' \<Longrightarrow> wal_config_validate c' = Ok ()"
    and "with_buffer_size n c = Ok c' \<Longrightarrow> wal_config_validate c' = Ok () \<longleftrightarrow> n \<le> wc_max_wal_size c"
  using assms
  by (auto simp: wal_config_validate_def with_sync_strategy_def with_autocheckpoint_threshold_def with_max_wal_size_def with_buffer_size_def
      split: if_splits)

end
