(* ===== verification/Backup.thy ===== *)
theory Backup
  imports Wal "HOL-Library.AList"
begin

text \<open>
  \<^verbatim>\<open>recovery/backup.rs\<close>: full and incremental backups of the database file, retention and verification. The file system is a
  map from paths to contents. What the operating system does in one copy is a \<open>disk_turn\<close>: whether the files open, how many bytes
  each read returns or that it fails, whether writes and the flush succeed and how much of a failed copy reaches the file. The
  SHA-256 digest in hexadecimal, the JSON writer, the format of a time stamp, the text of an identifier, the generator of
  identifiers and the clock (in nanoseconds) are arguments. The hash map of backups is an association list in the order in
  which an iteration visits it. A file has fewer than \<open>2^63\<close> bytes, so the byte counts do not overflow. A read that succeeds returns bytes that
  are stored, and no other process changes a file during a call, also between the verification of a backup and its copy.
\<close>

section \<open>Backups\<close>

datatype backup_type = FullBackup | IncrementalBackup | DifferentialBackup | SnapshotBackup

fun backup_type_display :: "backup_type \<Rightarrow> string" where
  "backup_type_display FullBackup = ''full''"
| "backup_type_display IncrementalBackup = ''incremental''"
| "backup_type_display DifferentialBackup = ''differential''"
| "backup_type_display SnapshotBackup = ''snapshot''"

datatype backup_status = BkPending | BkInProgress | BkCompleted | BkFailed | BkCancelled

fun backup_status_display :: "backup_status \<Rightarrow> string" where
  "backup_status_display BkPending = ''pending''"
| "backup_status_display BkInProgress = ''in_progress''"
| "backup_status_display BkCompleted = ''completed''"
| "backup_status_display BkFailed = ''failed''"
| "backup_status_display BkCancelled = ''cancelled''"

record backup =
  bk_id :: uuid
  bk_backup_type :: backup_type
  bk_status :: backup_status
  bk_start_lsn :: lsn
  bk_end_lsn :: lsn
  bk_created_at :: int
  bk_completed_at :: "int option"
  bk_previous_backup_id :: "uuid option"
  bk_size_bytes :: u64
  bk_checksum :: string
  bk_path :: string
  bk_compression_level :: "u8 option"
  bk_encrypted :: bool
  bk_error :: "string option"

definition backup_new ::
  "uuid \<Rightarrow> int \<Rightarrow> backup_type \<Rightarrow> lsn \<Rightarrow> string \<Rightarrow> uuid option \<Rightarrow> u8 option \<Rightarrow> bool \<Rightarrow> backup" where
  "backup_new fresh now kind start_lsn file previous compression encrypted =
     \<lparr>bk_id = fresh, bk_backup_type = kind, bk_status = BkPending, bk_start_lsn = start_lsn, bk_end_lsn = start_lsn,
      bk_created_at = now, bk_completed_at = None, bk_previous_backup_id = previous, bk_size_bytes = 0, bk_checksum = [],
      bk_path = file, bk_compression_level = compression, bk_encrypted = encrypted, bk_error = None\<rparr>"

definition backup_mark_in_progress :: "backup \<Rightarrow> backup" where
  "backup_mark_in_progress b = b\<lparr>bk_status := BkInProgress\<rparr>"

definition backup_mark_completed :: "int \<Rightarrow> lsn \<Rightarrow> u64 \<Rightarrow> string \<Rightarrow> backup \<Rightarrow> backup" where
  "backup_mark_completed now end_lsn nbytes sum_text b =
     b\<lparr>bk_status := BkCompleted, bk_end_lsn := end_lsn, bk_size_bytes := nbytes, bk_checksum := sum_text,
       bk_completed_at := Some now\<rparr>"

definition backup_mark_failed :: "int \<Rightarrow> string \<Rightarrow> backup \<Rightarrow> backup" where
  "backup_mark_failed now msg b = b\<lparr>bk_status := BkFailed, bk_error := Some msg, bk_completed_at := Some now\<rparr>"

definition backup_duration :: "backup \<Rightarrow> nat option" where
  "backup_duration b = map_option (\<lambda>end_at. nat (end_at - bk_created_at b)) (bk_completed_at b)"

definition backup_is_valid :: "backup \<Rightarrow> bool" where
  "backup_is_valid b \<longleftrightarrow> bk_status b = BkCompleted \<and> bk_checksum b \<noteq> []"

section \<open>Retention and schedule\<close>

record retention_policy =
  rp_max_count :: nat
  rp_max_age_days :: u64

definition retention_policy_default :: retention_policy where
  "retention_policy_default = \<lparr>rp_max_count = 10, rp_max_age_days = 7\<rparr>"

text \<open>Whole days of a difference of times, rounded towards zero.\<close>

definition num_days :: "int \<Rightarrow> int" where
  "num_days d = (if 0 \<le> d then d div 86400000000000 else - ((- d) div 86400000000000))"

definition should_retain :: "int \<Rightarrow> retention_policy \<Rightarrow> backup \<Rightarrow> bool" where
  "should_retain now p b \<longleftrightarrow> num_days (now - bk_created_at b) < sint (rp_max_age_days p)"

definition max_age_duration :: "retention_policy \<Rightarrow> u64 outcome" where
  "max_age_duration p =
     (case checked_mul (rp_max_age_days p) 24 of
        None \<Rightarrow> Panic
      | Some a \<Rightarrow> (case checked_mul a 60 of
          None \<Rightarrow> Panic
        | Some b \<Rightarrow> (case checked_mul b 60 of None \<Rightarrow> Panic | Some c \<Rightarrow> Ok c)))"

record schedule_config =
  sc_enabled :: bool
  sc_full_interval_hours :: u64
  sc_incremental_interval_hours :: u64
  sc_window_start_hour :: u8
  sc_window_end_hour :: u8

definition schedule_config_default :: schedule_config where
  "schedule_config_default =
     \<lparr>sc_enabled = False, sc_full_interval_hours = 168, sc_incremental_interval_hours = 1, sc_window_start_hour = 2,
      sc_window_end_hour = 4\<rparr>"

definition in_backup_window :: "u8 \<Rightarrow> schedule_config \<Rightarrow> bool" where
  "in_backup_window hour c \<longleftrightarrow>
     (if \<not> sc_enabled c then False
      else
        let (start_hour, end_hour) =
          (if sc_window_start_hour c < sc_window_end_hour c then (sc_window_start_hour c, sc_window_end_hour c)
           else (sc_window_end_hour c, sc_window_start_hour c))
        in if sc_window_start_hour c < sc_window_end_hour c then start_hour \<le> hour \<and> hour < end_hour
           else start_hour \<le> hour \<or> hour < end_hour)"

record backup_config =
  bc_backup_dir :: string
  bc_retention :: retention_policy
  bc_schedule :: schedule_config
  bc_compression_level :: "u8 option"
  bc_encryption_enabled :: bool
  bc_encryption_key :: "bytes option"

definition backup_config_default :: backup_config where
  "backup_config_default =
     \<lparr>bc_backup_dir = ''./backups'', bc_retention = retention_policy_default, bc_schedule = schedule_config_default,
      bc_compression_level = Some 6, bc_encryption_enabled = False, bc_encryption_key = None\<rparr>"

section \<open>The manager\<close>

record backup_manager =
  bm_config :: backup_config
  bm_backups :: "(uuid \<times> backup) list"
  bm_wal :: "wal option"

definition backup_manager_new :: "backup_config \<Rightarrow> backup_manager" where
  "backup_manager_new c = \<lparr>bm_config = c, bm_backups = [], bm_wal = None\<rparr>"

definition set_wal :: "wal \<Rightarrow> backup_manager \<Rightarrow> backup_manager" where
  "set_wal w m = m\<lparr>bm_wal := Some w\<rparr>"

definition all_backups :: "backup_manager \<Rightarrow> backup list" where
  "all_backups m = map snd (bm_backups m)"

definition get_backup :: "uuid \<Rightarrow> backup_manager \<Rightarrow> backup option" where
  "get_backup i m = map_of (bm_backups m) i"

text \<open>\<open>max_by_key\<close> returns the last of several greatest elements.\<close>

definition latest_created :: "backup list \<Rightarrow> backup option" where
  "latest_created bs =
     foldl (\<lambda>best b. case best of
                None \<Rightarrow> Some b
              | Some c \<Rightarrow> if bk_created_at b < bk_created_at c then Some c else Some b) None bs"

definition latest_backup :: "backup_type \<Rightarrow> backup_manager \<Rightarrow> backup option" where
  "latest_backup kind m = latest_created (filter (\<lambda>b. bk_backup_type b = kind \<and> backup_is_valid b) (all_backups m))"

definition latest_completed_backup :: "backup_manager \<Rightarrow> backup option" where
  "latest_completed_backup m = latest_created (filter backup_is_valid (all_backups m))"

definition list_backups :: "backup_type option \<Rightarrow> backup_manager \<Rightarrow> backup list" where
  "list_backups kind m = filter (\<lambda>b. case kind of None \<Rightarrow> True | Some k \<Rightarrow> bk_backup_type b = k) (all_backups m)"

definition backup_current_lsn :: "backup_manager \<Rightarrow> lsn" where
  "backup_current_lsn m = (case bm_wal m of None \<Rightarrow> 0 | Some w \<Rightarrow> wl_current_lsn w)"

definition path_join :: "string \<Rightarrow> string \<Rightarrow> string" where
  "path_join dir name = (if dir = [] then name else if last dir = CHR ''/'' then dir @ name else dir @ ''/'' @ name)"

definition backup_path :: "(int \<Rightarrow> string) \<Rightarrow> int \<Rightarrow> backup_type \<Rightarrow> backup_manager \<Rightarrow> string" where
  "backup_path stamp now kind m =
     path_join (bc_backup_dir (bm_config m)) (backup_type_display kind @ ''__'' @ stamp now @ ''.backup'')"

section \<open>Copying files\<close>

type_synonym disk_files = "string \<rightharpoonup> bytes"

record disk_turn =
  dt_opens :: bool
  dt_creates :: bool
  dt_reads :: "nat \<Rightarrow> nat option"
  dt_writes :: "nat \<Rightarrow> bool"
  dt_flushes :: bool
  dt_kept :: nat
  dt_removes :: bool
  dt_error :: string

definition COPY_BUFFER :: nat where "COPY_BUFFER = 65536"

text \<open>A read returns at least one byte of what is left and at most the buffer.\<close>

definition read_size :: "nat \<Rightarrow> bytes \<Rightarrow> nat" where
  "read_size k rest = min (length rest) (max 1 (min k COPY_BUFFER))"

function copy_loop :: "(nat \<Rightarrow> nat option) \<Rightarrow> (nat \<Rightarrow> bool) \<Rightarrow> nat \<Rightarrow> bytes \<Rightarrow> bytes \<Rightarrow> bool \<times> bytes" where
  "copy_loop reads writes i rest out =
     (case reads i of
        None \<Rightarrow> (False, out)
      | Some k \<Rightarrow>
          if rest = [] then (True, out)
          else if \<not> writes i then (False, out)
          else let n = read_size k rest in copy_loop reads writes (Suc i) (drop n rest) (out @ take n rest))"
  by pat_completeness auto

termination copy_loop
  by (relation "measure (\<lambda>(reads, writes, i, rest, out). length rest)") (auto simp: read_size_def)

declare copy_loop.simps [simp del]

definition generic_error :: "disk_turn \<Rightarrow> error" where
  "generic_error d = Io (IoGeneric (dt_error d))"

definition copy_file :: "disk_turn \<Rightarrow> string \<Rightarrow> string \<Rightarrow> disk_files \<Rightarrow> disk_files \<times> bytes outcome" where
  "copy_file d source target fs =
     (if \<not> dt_opens d \<or> fs source = None \<or> \<not> dt_creates d then (fs, Err (generic_error d))
      else
        let fs = fs(target \<mapsto> []);
            (finished, out) = copy_loop (dt_reads d) (dt_writes d) 0 (the (fs source)) []
        in if finished \<and> dt_flushes d then (fs(target \<mapsto> out), Ok out)
           else (fs(target \<mapsto> take (dt_kept d) out), Err (generic_error d)))"

section \<open>Creating backups\<close>

record backup_tools =
  tl_digest :: "bytes \<Rightarrow> string"
  tl_json :: "uuid \<Rightarrow> u64 \<Rightarrow> u64 \<Rightarrow> bytes"
  tl_stamp :: "int \<Rightarrow> string"
  tl_show :: "uuid \<Rightarrow> string"

text \<open>The readings of the clock and the identifier that one call takes.\<close>

record moment =
  mo_fresh :: uuid
  mo_path :: int
  mo_created :: int
  mo_completed :: int
  mo_retention :: "uuid \<Rightarrow> int"

definition delete_backup ::
  "backup_tools \<Rightarrow> disk_turn \<Rightarrow> uuid \<Rightarrow> backup_manager \<Rightarrow> disk_files \<Rightarrow> disk_files \<times> backup_manager \<times> unit outcome" where
  "delete_backup tools d i m fs =
     (case get_backup i m of
        None \<Rightarrow> (fs, m, Err (Io (FileNotFound (tl_show tools i))))
      | Some b \<Rightarrow>
          if fs (bk_path b) \<noteq> None \<and> \<not> dt_removes d then (fs, m, Err (generic_error d))
          else (fs(bk_path b := None), m\<lparr>bm_backups := AList.delete i (bm_backups m)\<rparr>, Ok ()))"

text \<open>One round of the retention loop; the counter is compared with \<open>max_count\<close> but nothing depends on the comparison.\<close>

definition retention_round ::
  "backup_tools \<Rightarrow> (uuid \<Rightarrow> disk_turn) \<Rightarrow> (uuid \<Rightarrow> int) \<Rightarrow> uuid \<Rightarrow> disk_files \<times> backup_manager \<times> nat \<Rightarrow> disk_files \<times> backup_manager \<times> nat" where
  "retention_round tools ds now i s =
     (case s of (fs, m, count) \<Rightarrow>
        (case get_backup i m of
           None \<Rightarrow> (fs, m, count)
         | Some b \<Rightarrow>
             (if should_retain (now i) (bc_retention (bm_config m)) b then (fs, m, count + 1)
              else case delete_backup tools (ds i) i m fs of (fs', m', _) \<Rightarrow> (fs', m', count))))"

definition apply_retention_policy ::
  "backup_tools \<Rightarrow> (uuid \<Rightarrow> disk_turn) \<Rightarrow> (uuid \<Rightarrow> int) \<Rightarrow> disk_files \<Rightarrow> backup_manager \<Rightarrow> disk_files \<times> backup_manager" where
  "apply_retention_policy tools ds now fs m =
     (let ids = sort_key (\<lambda>i. case get_backup i m of Some b \<Rightarrow> bk_created_at b | None \<Rightarrow> now i) (map fst (bm_backups m));
          (fs', m', count) = fold (retention_round tools ds now) ids (fs, m, 0)
      in (fs', m'))"

definition perform_full_backup ::
  "backup_tools \<Rightarrow> disk_turn \<Rightarrow> string \<Rightarrow> backup \<Rightarrow> backup_manager \<Rightarrow> disk_files \<Rightarrow> disk_files \<times> (lsn \<times> u64 \<times> string) outcome" where
  "perform_full_backup tools d db_path b m fs =
     (case copy_file d db_path (bk_path b) fs of (fs', r) \<Rightarrow>
        (fs', and_then r (\<lambda>out. Ok (backup_current_lsn m, word_of_nat (length out), tl_digest tools out))))"

text \<open>What both kinds do with the result: a failed backup is dropped, a finished one recorded after retention was applied.\<close>

definition finish_backup ::
  "backup_tools \<Rightarrow> (uuid \<Rightarrow> disk_turn) \<Rightarrow> moment \<Rightarrow> backup \<Rightarrow> backup_manager \<Rightarrow> disk_files \<times> (lsn \<times> u64 \<times> string) outcome
   \<Rightarrow> disk_files \<times> backup_manager \<times> uuid outcome" where
  "finish_backup tools ds mo b m r =
     (case r of
        (fs, Ok (end_lsn, nbytes, sum_text)) \<Rightarrow>
          let b = backup_mark_completed (mo_completed mo) end_lsn nbytes sum_text b;
              (fs, m) = apply_retention_policy tools ds (mo_retention mo) fs m
          in (fs, m\<lparr>bm_backups := AList.update (bk_id b) b (bm_backups m)\<rparr>, Ok (bk_id b))
      | (fs, Err e) \<Rightarrow> (fs, m, Err e)
      | (fs, Panic) \<Rightarrow> (fs, m, Panic))"

definition create_full_backup ::
  "backup_tools \<Rightarrow> disk_turn \<Rightarrow> (uuid \<Rightarrow> disk_turn) \<Rightarrow> moment \<Rightarrow> string \<Rightarrow> backup_manager \<Rightarrow> disk_files
   \<Rightarrow> disk_files \<times> backup_manager \<times> uuid outcome" where
  "create_full_backup tools d ds mo db_path m fs =
     (let start_lsn = backup_current_lsn m;
          file = backup_path (tl_stamp tools) (mo_path mo) FullBackup m;
          b = backup_mark_in_progress (backup_new (mo_fresh mo) (mo_created mo) FullBackup start_lsn file None
                (bc_compression_level (bm_config m)) (bc_encryption_enabled (bm_config m)))
      in finish_backup tools ds mo b m (perform_full_backup tools d db_path b m fs))"

definition ascii_bytes :: "string \<Rightarrow> bytes" where
  "ascii_bytes s = map (\<lambda>c. word_of_nat (of_char c)) s"

text \<open>The file of an incremental backup is a description with an empty list of records.\<close>

definition perform_incremental_backup ::
  "backup_tools \<Rightarrow> disk_turn \<Rightarrow> backup \<Rightarrow> backup \<Rightarrow> backup_manager \<Rightarrow> disk_files \<Rightarrow> disk_files \<times> (lsn \<times> u64 \<times> string) outcome" where
  "perform_incremental_backup tools d base b m fs =
     (case bm_wal m of
        None \<Rightarrow> (fs, Err (Io (InternalError ''WAL not configured for incremental backup'')))
      | Some _ \<Rightarrow>
          let start_lsn = bk_end_lsn base;
              end_lsn = backup_current_lsn m;
              json = tl_json tools (bk_id base) start_lsn end_lsn
          in if \<not> dt_creates d then (fs, Err (generic_error d))
             else if \<not> dt_writes d 0 then (fs(bk_path b \<mapsto> take (dt_kept d) json), Err (Protocol (JsonParseError (dt_error d))))
             else (fs(bk_path b \<mapsto> json), Ok (end_lsn, 0, tl_digest tools (ascii_bytes (fmt start_lsn @ '':'' @ fmt end_lsn)))))"

definition create_incremental_backup ::
  "backup_tools \<Rightarrow> disk_turn \<Rightarrow> (uuid \<Rightarrow> disk_turn) \<Rightarrow> moment \<Rightarrow> backup_manager \<Rightarrow> disk_files
   \<Rightarrow> disk_files \<times> backup_manager \<times> uuid outcome" where
  "create_incremental_backup tools d ds mo m fs =
     (let start_lsn = backup_current_lsn m in
      case latest_completed_backup m of
        None \<Rightarrow> (fs, m, Err (Io (InternalError ''No base backup found for incremental'')))
      | Some base \<Rightarrow>
          let file = backup_path (tl_stamp tools) (mo_path mo) IncrementalBackup m;
              b = backup_mark_in_progress (backup_new (mo_fresh mo) (mo_created mo) IncrementalBackup start_lsn file (Some (bk_id base))
                    (bc_compression_level (bm_config m)) (bc_encryption_enabled (bm_config m)))
          in finish_backup tools ds mo b m (perform_incremental_backup tools d base b m fs))"

definition verify_backup :: "backup_tools \<Rightarrow> disk_turn \<Rightarrow> uuid \<Rightarrow> backup_manager \<Rightarrow> disk_files \<Rightarrow> bool outcome" where
  "verify_backup tools d i m fs =
     (case get_backup i m of
        None \<Rightarrow> Err (Io (FileNotFound (tl_show tools i)))
      | Some b \<Rightarrow>
          (case fs (bk_path b) of
             None \<Rightarrow> Ok False
           | Some content \<Rightarrow>
               if \<not> dt_opens d then Err (generic_error d)
               else (case copy_loop (dt_reads d) (\<lambda>_. True) 0 content [] of
                       (False, _) \<Rightarrow> Err (generic_error d)
                     | (True, out) \<Rightarrow> Ok (tl_digest tools out = bk_checksum b))))"

text \<open>The loop along the previous backups follows the identifiers, so it need not end on an arbitrary map.\<close>

partial_function (option) chain_loop :: "(uuid \<times> backup) list \<Rightarrow> uuid option \<Rightarrow> backup list \<Rightarrow> backup list option" where
  "chain_loop bs current chain_so_far =
     (case current of
        None \<Rightarrow> Some chain_so_far
      | Some i \<Rightarrow>
          (case map_of bs i of
             None \<Rightarrow> Some chain_so_far
           | Some b \<Rightarrow> chain_loop bs (bk_previous_backup_id b) (chain_so_far @ [b])))"

definition get_backup_chain :: "uuid \<Rightarrow> backup_manager \<Rightarrow> backup list option" where
  "get_backup_chain i m = map_option rev (chain_loop (bm_backups m) (Some i) [])"

text \<open>Loading counts the files with the extension \<open>backup\<close>; it reads none of them.\<close>

definition path_extension :: "string \<Rightarrow> string option" where
  "path_extension name =
     (let before = dropWhile (\<lambda>c. c \<noteq> CHR ''.'') (rev name) in
      if length before \<le> 1 \<or> name = ''..'' then None else Some (rev (takeWhile (\<lambda>c. c \<noteq> CHR ''.'') (rev name))))"

definition load_backups_from_disk :: "string list outcome \<Rightarrow> backup_manager \<Rightarrow> nat outcome" where
  "load_backups_from_disk entries m =
     and_then entries (\<lambda>names. Ok (length (filter (\<lambda>name. path_extension name = Some ''backup'') names)))"

section \<open>Copies are exact\<close>

lemma copy_loop_exact: "copy_loop reads writes i rest out = (True, res) \<Longrightarrow> res = out @ rest"
proof (induction reads writes i rest out rule: copy_loop.induct)
  case (1 reads writes i rest out)
  then show ?case
    by (subst (asm) (2) copy_loop.simps) (auto simp: Let_def split: option.splits if_splits)
qed

lemma copy_loop_finishes:
  assumes "\<And>j. reads j \<noteq> None" "\<And>j. writes j"
  shows "copy_loop reads writes i rest out = (True, out @ rest)"
proof (induction rest arbitrary: i out rule: measure_induct_rule [of length])
  case (less rest)
  obtain k where k: "reads i = Some k" "writes i" using assms(1) [of i] assms(2) [of i] by blast
  have "length (drop (read_size k rest) rest) < length rest" if "rest \<noteq> []" using that by (simp add: read_size_def)
  then show ?case
    using less [of "drop (read_size k rest) rest" "Suc i" "out @ take (read_size k rest) rest"]
    by (subst copy_loop.simps) (simp add: k Let_def)
qed

definition disk_works :: "disk_turn \<Rightarrow> bool" where
  "disk_works d \<longleftrightarrow> dt_opens d \<and> dt_creates d \<and> (\<forall>i. dt_reads d i \<noteq> None) \<and> (\<forall>i. dt_writes d i) \<and> dt_flushes d"

lemma copy_file_Ok:
  assumes "copy_file d source target fs = (fs', Ok out)"
  shows "fs' = fs(target \<mapsto> out) \<and> out = (if source = target then [] else the (fs source)) \<and> fs source \<noteq> None"
  using assms by (auto simp: copy_file_def Let_def split: if_splits prod.splits dest!: copy_loop_exact)

lemma copy_file_works:
  assumes "disk_works d" "fs source = Some content" "source \<noteq> target"
  shows "copy_file d source target fs = (fs(target \<mapsto> content), Ok content)"
  using assms copy_loop_finishes [of "dt_reads d" "dt_writes d" 0 content "[]"] by (simp add: disk_works_def copy_file_def)

section \<open>What retention removes\<close>

definition expired :: "(uuid \<Rightarrow> int) \<Rightarrow> backup_manager \<Rightarrow> uuid \<Rightarrow> bool" where
  "expired now m i \<longleftrightarrow> (\<exists>b. get_backup i m = Some b \<and> \<not> should_retain (now i) (bc_retention (bm_config m)) b)"

definition thinned :: "(uuid \<Rightarrow> int) \<Rightarrow> backup_manager \<Rightarrow> disk_files \<Rightarrow> backup_manager \<Rightarrow> disk_files \<Rightarrow> bool" where
  "thinned now m fs m' fs' \<longleftrightarrow>
     bm_config m' = bm_config m \<and> bm_wal m' = bm_wal m \<and>
     (distinct (map fst (bm_backups m)) \<longrightarrow> distinct (map fst (bm_backups m'))) \<and>
     (\<forall>i. get_backup i m' = get_backup i m \<or> get_backup i m' = None \<and> expired now m i) \<and>
     (\<forall>p. fs' p = fs p \<or> fs' p = None \<and> (\<exists>i b. expired now m i \<and> get_backup i m = Some b \<and> bk_path b = p))"

lemma thinned_refl: "thinned now m fs m fs"
  by (simp add: thinned_def)

lemma thinned_trans:
  assumes "thinned now m fs m' fs'" "thinned now m' fs' m'' fs''"
  shows "thinned now m fs m'' fs''"
proof -
  have ex: "expired now m' i \<Longrightarrow> expired now m i" for i
    using assms(1) unfolding thinned_def expired_def by (metis option.distinct(1))
  have get: "get_backup i m' = Some b \<Longrightarrow> get_backup i m = Some b" for i b
    using assms(1) unfolding thinned_def by (metis option.distinct(1))
  have "get_backup i m'' = get_backup i m \<or> get_backup i m'' = None \<and> expired now m i" for i
    using assms ex unfolding thinned_def by metis
  moreover have "fs'' p = fs p \<or> fs'' p = None \<and> (\<exists>i b. expired now m i \<and> get_backup i m = Some b \<and> bk_path b = p)" for p
  proof (cases "fs'' p = fs' p")
    case True
    with assms(1) show ?thesis by (simp add: thinned_def)
  next
    case False
    with assms(2) show ?thesis using ex get unfolding thinned_def by metis
  qed
  ultimately show ?thesis using assms by (auto simp: thinned_def)
qed

lemma delete_backup_thins:
  assumes "delete_backup tools d i m fs = (fs', m', r)" "expired now m i"
  shows "thinned now m fs m' fs'"
  using assms
  by (auto simp: delete_backup_def thinned_def get_backup_def delete_conv' distinct_delete split: option.splits if_splits)

lemma retention_round_thins:
  assumes "retention_round tools ds now i (fs, m, n) = (fs', m', n')"
  shows "thinned now m fs m' fs'"
  using assms delete_backup_thins [of tools "ds i" i m fs]
  by (auto simp: retention_round_def thinned_refl expired_def split: option.splits if_splits prod.splits)

lemma retention_thins:
  "fold (retention_round tools ds now) ids (fs, m, n) = (fs', m', n') \<Longrightarrow> thinned now m fs m' fs'"
proof (induction ids arbitrary: fs m n)
  case Nil
  then show ?case by (simp add: thinned_refl)
next
  case (Cons i ids)
  obtain fs1 m1 n1 where r: "retention_round tools ds now i (fs, m, n) = (fs1, m1, n1)" by (metis prod_cases3)
  with Cons.prems have "thinned now m1 fs1 m' fs'" by (intro Cons.IH) simp
  with retention_round_thins [OF r] show ?case by (rule thinned_trans)
qed

lemma apply_retention_thins:
  assumes "apply_retention_policy tools ds now fs m = (fs', m')"
  shows "thinned now m fs m' fs'"
  using assms by (auto simp: apply_retention_policy_def Let_def split: prod.splits intro: retention_thins)

text \<open>\<open>max_count\<close> has no effect: with any other count the same backups and files remain.\<close>

definition with_max_count :: "nat \<Rightarrow> backup_manager \<Rightarrow> backup_manager" where
  "with_max_count n m = m\<lparr>bm_config := (bm_config m)\<lparr>bc_retention := (bc_retention (bm_config m))\<lparr>rp_max_count := n\<rparr>\<rparr>\<rparr>"

lemma with_max_count_simps [simp]:
  "get_backup i (with_max_count n m) = get_backup i m" "bm_backups (with_max_count n m) = bm_backups m"
  "rp_max_age_days (bc_retention (bm_config (with_max_count n m))) = rp_max_age_days (bc_retention (bm_config m))"
  by (simp_all add: with_max_count_def get_backup_def)

lemma retention_round_max_count:
  "retention_round tools ds now i (fs, with_max_count n m, c)
    = (\<lambda>(fs', m', c'). (fs', with_max_count n m', c')) (retention_round tools ds now i (fs, m, c))"
  by (simp add: retention_round_def delete_backup_def should_retain_def split: option.splits)
    (simp add: with_max_count_def)

lemma retention_ignores_max_count:
  "apply_retention_policy tools ds now fs (with_max_count n m)
    = (\<lambda>(fs', m'). (fs', with_max_count n m')) (apply_retention_policy tools ds now fs m)"
proof -
  have "fold (retention_round tools ds now) ids (fs, with_max_count n m, c)
      = (\<lambda>(fs', m', c'). (fs', with_max_count n m', c')) (fold (retention_round tools ds now) ids (fs, m, c))" for ids c
  proof (induction ids arbitrary: fs m c)
    case (Cons i ids)
    then show ?case
      by (cases "retention_round tools ds now i (fs, m, c)") (simp add: retention_round_max_count)
  qed simp
  then show ?thesis by (simp add: apply_retention_policy_def Let_def split: prod.splits)
qed

text \<open>A window that crosses midnight is always open.\<close>

lemma window_over_midnight_always_open:
  assumes "sc_enabled c" "sc_window_end_hour c \<le> sc_window_start_hour c"
  shows "in_backup_window hour c"
  using assms by (auto simp: in_backup_window_def Let_def)

section \<open>Full backups\<close>

text \<open>A finished full backup is recorded with the digest of the database, and its file holds the database.\<close>

lemma create_full_backup_works:
  assumes "disk_works d" "fs db_path = Some content" "db_path \<noteq> backup_path (tl_stamp tools) (mo_path mo) FullBackup m"
  shows "\<exists>fs' m'. create_full_backup tools d ds mo db_path m fs = (fs', m', Ok (mo_fresh mo))"
  using copy_file_works [of d fs db_path content, OF assms]
  by (simp add: create_full_backup_def finish_backup_def perform_full_backup_def backup_new_def backup_mark_in_progress_def
      backup_mark_completed_def Let_def split: prod.splits)

lemma create_full_backup_Ok:
  assumes created: "create_full_backup tools d ds mo db_path m fs = (fs', m', Ok i)"
    and "\<forall>j b. get_backup j m = Some b \<longrightarrow> bk_path b \<noteq> backup_path (tl_stamp tools) (mo_path mo) FullBackup m"
    and "db_path \<noteq> backup_path (tl_stamp tools) (mo_path mo) FullBackup m"
  shows "i = mo_fresh mo \<and> (\<exists>b content. get_backup i m' = Some b \<and> fs db_path = Some content \<and> bk_backup_type b = FullBackup \<and>
    bk_status b = BkCompleted \<and> bk_checksum b = tl_digest tools content \<and> bk_size_bytes b = word_of_nat (length content) \<and>
    bk_path b = backup_path (tl_stamp tools) (mo_path mo) FullBackup m \<and> fs' (bk_path b) = Some content)"
proof -
  let ?file = "backup_path (tl_stamp tools) (mo_path mo) FullBackup m"
  obtain fs1 out where c: "copy_file d db_path ?file fs = (fs1, Ok out)"
    using created by (auto simp: create_full_backup_def finish_backup_def perform_full_backup_def backup_new_def backup_mark_in_progress_def
        Let_def split: prod.splits res.splits)
  obtain fs2 m2 where t: "apply_retention_policy tools ds (mo_retention mo) fs1 m = (fs2, m2)" by fastforce
  have "fs2 ?file = fs1 ?file" using apply_retention_thins [OF t] assms(2) unfolding thinned_def by metis
  then have "fs2 ?file = Some out" using copy_file_Ok [OF c] by simp
  with created c t copy_file_Ok [OF c] assms(3) show ?thesis
    by (auto simp: create_full_backup_def finish_backup_def perform_full_backup_def backup_new_def backup_mark_in_progress_def
        backup_mark_completed_def get_backup_def update_conv' Let_def)
qed

section \<open>Chains of backups\<close>

definition unused :: "uuid \<Rightarrow> backup_manager \<Rightarrow> bool" where
  "unused i m \<longleftrightarrow> get_backup i m = None \<and> (\<forall>j b. get_backup j m = Some b \<longrightarrow> bk_previous_backup_id b \<noteq> Some i)"

inductive backup_reach :: "backup_tools \<Rightarrow> backup_manager \<Rightarrow> bool" for tools where
  new: "backup_reach tools (backup_manager_new c)"
| wal: "backup_reach tools m \<Longrightarrow> backup_reach tools (set_wal w m)"
| full: "backup_reach tools m \<Longrightarrow> unused (mo_fresh mo) m \<Longrightarrow> create_full_backup tools d ds mo db_path m fs = (fs', m', r) \<Longrightarrow>
    backup_reach tools m'"
| incremental: "backup_reach tools m \<Longrightarrow> unused (mo_fresh mo) m \<Longrightarrow> create_incremental_backup tools d ds mo m fs = (fs', m', r) \<Longrightarrow>
    backup_reach tools m'"
| delete: "backup_reach tools m \<Longrightarrow> delete_backup tools d i m fs = (fs', m', r) \<Longrightarrow> backup_reach tools m'"

definition ranked :: "(uuid \<Rightarrow> nat) \<Rightarrow> backup_manager \<Rightarrow> bool" where
  "ranked rank m \<longleftrightarrow> (\<forall>i b p. get_backup i m = Some b \<and> bk_previous_backup_id b = Some p \<longrightarrow> rank p < rank i)"

definition backup_inv :: "backup_manager \<Rightarrow> bool" where
  "backup_inv m \<longleftrightarrow> distinct (map fst (bm_backups m)) \<and> (\<exists>rank. ranked rank m) \<and>
     (\<forall>i b. get_backup i m = Some b \<longrightarrow> bk_id b = i \<and> (bk_previous_backup_id b = None \<longleftrightarrow> bk_backup_type b = FullBackup))"

lemma backup_inv_submap:
  assumes "backup_inv m" "distinct (map fst (bm_backups m'))" "\<forall>i. get_backup i m' = get_backup i m \<or> get_backup i m' = None"
  shows "backup_inv m'"
proof -
  have get: "get_backup i m' = Some b \<Longrightarrow> get_backup i m = Some b" for i b using assms(3) by (metis option.distinct(1))
  obtain rank where "ranked rank m" using assms(1) by (auto simp: backup_inv_def)
  then have "ranked rank m'" using get unfolding ranked_def by blast
  with assms(1,2) get show ?thesis unfolding backup_inv_def by blast
qed

lemma backup_inv_insert:
  assumes "backup_inv m" "unused i m" "bk_id b = i" "bk_previous_backup_id b = None \<longleftrightarrow> bk_backup_type b = FullBackup"
    and "bk_previous_backup_id b \<noteq> Some i"
  shows "backup_inv (m\<lparr>bm_backups := AList.update i b (bm_backups m)\<rparr>)"
proof -
  let ?m = "m\<lparr>bm_backups := AList.update i b (bm_backups m)\<rparr>"
  have get: "get_backup j ?m = (if j = i then Some b else get_backup j m)" for j by (simp add: get_backup_def update_conv')
  obtain rank where rank: "ranked rank m" using assms(1) by (auto simp: backup_inv_def)
  let ?rank = "rank(i := (case bk_previous_backup_id b of None \<Rightarrow> 0 | Some p \<Rightarrow> Suc (rank p)))"
  have "ranked ?rank ?m"
    using rank assms(2,5) unfolding ranked_def get unused_def by (auto split: option.splits)
  moreover have "distinct (map fst (bm_backups ?m))" using assms(1) by (simp add: backup_inv_def distinct_update)
  ultimately show ?thesis using assms(1,3,4) by (auto simp: backup_inv_def get)
qed

lemma unused_submap:
  "unused i m \<Longrightarrow> \<forall>j. get_backup j m' = get_backup j m \<or> get_backup j m' = None \<Longrightarrow> unused i m'"
  unfolding unused_def by (metis option.distinct(1))

lemma finish_backup_inv:
  assumes "backup_inv m" "unused (bk_id b) m" "bk_previous_backup_id b = None \<longleftrightarrow> bk_backup_type b = FullBackup"
    and "bk_previous_backup_id b \<noteq> Some (bk_id b)" "finish_backup tools ds mo b m q = (fs', m', r)"
  shows "backup_inv m'"
proof (cases "\<exists>fs a. q = (fs, Ok a)")
  case False
  with assms(1,5) show ?thesis by (auto simp: finish_backup_def split: prod.splits res.splits)
next
  case True
  then obtain fs l n t where q: "q = (fs, Ok (l, n, t))" by (metis prod_cases3)
  obtain fs2 m2 where a: "apply_retention_policy tools ds (mo_retention mo) fs m = (fs2, m2)" by fastforce
  let ?b = "backup_mark_completed (mo_completed mo) l n t b"
  have sub: "\<forall>j. get_backup j m2 = get_backup j m \<or> get_backup j m2 = None" "distinct (map fst (bm_backups m2))"
    using apply_retention_thins [OF a] assms(1) by (auto simp: thinned_def backup_inv_def)
  have "backup_inv (m2\<lparr>bm_backups := AList.update (bk_id b) ?b (bm_backups m2)\<rparr>)"
    using assms(3,4) by (intro backup_inv_insert backup_inv_submap [OF assms(1) sub(2,1)] unused_submap [OF assms(2) sub(1)])
      (simp_all add: backup_mark_completed_def)
  with assms(5) q a show ?thesis by (simp add: finish_backup_def backup_mark_completed_def Let_def)
qed

lemma latest_created_mem: "latest_created bs = Some b \<Longrightarrow> b \<in> set bs"
proof (induction bs arbitrary: b rule: rev_induct)
  case Nil
  then show ?case by (simp add: latest_created_def)
next
  case (snoc x bs)
  then show ?case by (auto simp: latest_created_def split: option.splits if_splits)
qed

lemma latest_completed_get:
  assumes "backup_inv m" "latest_completed_backup m = Some b"
  shows "get_backup (bk_id b) m = Some b"
proof -
  obtain i where i: "(i, b) \<in> set (bm_backups m)"
    using latest_created_mem [OF assms(2) [unfolded latest_completed_backup_def]] by (auto simp: all_backups_def)
  then have "get_backup i m = Some b" using assms(1) by (simp add: get_backup_def backup_inv_def)
  moreover from this have "bk_id b = i" using assms(1) by (simp add: backup_inv_def)
  ultimately show ?thesis by simp
qed

lemma backup_reach_inv: "backup_reach tools m \<Longrightarrow> backup_inv m"
proof (induction rule: backup_reach.induct)
  case (new c)
  then show ?case by (simp add: backup_inv_def ranked_def backup_manager_new_def get_backup_def)
next
  case (wal m w)
  then show ?case by (intro backup_inv_submap [OF wal.IH]) (simp_all add: set_wal_def get_backup_def backup_inv_def)
next
  case (full m mo d ds db_path fs fs' m' r)
  from full.hyps(3) show ?case
    unfolding create_full_backup_def Let_def
    by (rule finish_backup_inv [OF full.IH, rotated 3]) (use full.hyps(2) in \<open>simp_all add: backup_new_def backup_mark_in_progress_def\<close>)
next
  case (incremental m mo d ds fs fs' m' r)
  show ?case
  proof (cases "latest_completed_backup m")
    case None
    with incremental show ?thesis by (simp add: create_incremental_backup_def Let_def)
  next
    case (Some base)
    have "bk_id base \<noteq> mo_fresh mo" using latest_completed_get [OF incremental.IH Some] incremental.hyps(2) by (auto simp: unused_def)
    with incremental.hyps(2,3) Some show ?thesis
      by (auto simp: create_incremental_backup_def Let_def backup_new_def backup_mark_in_progress_def
          intro!: finish_backup_inv [OF incremental.IH])
  qed
next
  case (delete m d i fs fs' m' r)
  from delete.hyps(2) show ?case
    by (intro backup_inv_submap [OF delete.IH])
      (use delete.IH in \<open>auto simp: delete_backup_def backup_inv_def get_backup_def delete_conv' distinct_delete split: option.splits if_splits\<close>)
qed

text \<open>The chain that the loop collects, newest first: it follows the links until there is none or its backup is gone.\<close>

definition chain_to :: "(uuid \<times> backup) list \<Rightarrow> uuid \<Rightarrow> backup list \<Rightarrow> bool" where
  "chain_to bs i c \<longleftrightarrow>
     (case map_of bs i of
        None \<Rightarrow> c = []
      | Some b \<Rightarrow> c \<noteq> [] \<and> hd c = b \<and> set c \<subseteq> ran (map_of bs) \<and>
          successively (\<lambda>b a. bk_previous_backup_id b = Some (bk_id a)) c \<and>
          (case bk_previous_backup_id (last c) of None \<Rightarrow> True | Some p \<Rightarrow> map_of bs p = None))"

lemma chain_loop_returns:
  assumes "backup_inv m" "ranked rank m"
  shows "\<exists>c. chain_loop (bm_backups m) (Some i) acc = Some (acc @ c) \<and> chain_to (bm_backups m) i c"
proof (induction i arbitrary: acc rule: measure_induct_rule [of rank])
  case (less i)
  show ?case
  proof (cases "map_of (bm_backups m) i")
    case None
    then show ?thesis by (simp add: chain_loop.simps [of _ "Some i"] chain_to_def)
  next
    case (Some b)
    show ?thesis
    proof (cases "bk_previous_backup_id b")
      case None
      with Some show ?thesis
        by (intro exI [of _ "[b]"]) (auto simp: chain_loop.simps [of _ "Some i"] chain_loop.simps [of _ None] chain_to_def ran_def)
    next
      case prev: (Some p)
      with Some assms(2) have "rank p < rank i" by (auto simp: ranked_def get_backup_def)
      from less [OF this, of "acc @ [b]"] obtain c where
        c: "chain_loop (bm_backups m) (Some p) (acc @ [b]) = Some (acc @ b # c)" "chain_to (bm_backups m) p c" by auto
      have "bk_id a = p" if "map_of (bm_backups m) p = Some a" for a
        using that assms(1) by (auto simp: backup_inv_def get_backup_def)
      with c(2) Some prev have "chain_to (bm_backups m) i (b # c)"
        by (cases c) (auto simp: chain_to_def successively_Cons ran_def split: option.splits)
      with c(1) Some prev show ?thesis by (auto simp: chain_loop.simps [of _ "Some i"])
    qed
  qed
qed

text \<open>
  C40. Chains of backups end. In every manager that its operations can reach, with identifiers that were not used before, the walk
  along the previous backups returns. The chain starts with a full backup, or with one whose base is gone, each backup
  continues the one before it, and it ends with the one asked for; it is empty only for an unknown identifier.
\<close>

theorem backup_chain_returns:
  assumes "backup_reach tools m"
  shows "\<exists>c. get_backup_chain i m = Some c \<and>
    (case get_backup i m of
       None \<Rightarrow> c = []
     | Some b \<Rightarrow> c \<noteq> [] \<and> last c = b \<and> set c \<subseteq> set (all_backups m) \<and>
         successively (\<lambda>a b. bk_previous_backup_id b = Some (bk_id a)) c \<and>
         (bk_backup_type (hd c) = FullBackup \<or> (\<exists>p. bk_previous_backup_id (hd c) = Some p \<and> get_backup p m = None)))"
proof -
  have inv: "backup_inv m" by (rule backup_reach_inv [OF assms])
  then obtain rank where "ranked rank m" by (auto simp: backup_inv_def)
  with chain_loop_returns [OF inv, of rank i "[]"] obtain c where
    c: "chain_loop (bm_backups m) (Some i) [] = Some c" "chain_to (bm_backups m) i c" by auto
  have ran: "ran (map_of (bm_backups m)) \<subseteq> set (all_backups m)"
    by (force simp: all_backups_def ran_def dest: map_of_SomeD)
  have full: "bk_backup_type b = FullBackup" if "b \<in> ran (map_of (bm_backups m))" "bk_previous_backup_id b = None" for b
    using that inv by (auto simp: backup_inv_def get_backup_def ran_def)
  show ?thesis
  proof (cases "map_of (bm_backups m) i")
    case None
    with c show ?thesis by (simp add: get_backup_chain_def get_backup_def chain_to_def)
  next
    case (Some b)
    with c(2) have f: "c \<noteq> []" "hd c = b" "set c \<subseteq> ran (map_of (bm_backups m))"
        "successively (\<lambda>b a. bk_previous_backup_id b = Some (bk_id a)) c"
        "case bk_previous_backup_id (last c) of None \<Rightarrow> True | Some p \<Rightarrow> map_of (bm_backups m) p = None"
      by (simp_all add: chain_to_def)
    have "bk_backup_type (last c) = FullBackup \<or> (\<exists>p. bk_previous_backup_id (last c) = Some p \<and> get_backup p m = None)"
      using f(3,5) full [of "last c"] last_in_set [OF f(1)] by (cases "bk_previous_backup_id (last c)") (auto simp: get_backup_def)
    with c(1) Some f ran show ?thesis
      by (auto simp: get_backup_chain_def get_backup_def last_rev hd_rev)
  qed
qed

text \<open>A full backup of three bytes and an incremental one an hour later.\<close>

definition sample_tools :: backup_tools where
  "sample_tools = \<lparr>tl_digest = (\<lambda>bs. ''d'' @ map (\<lambda>b. char_of (unat b)) bs), tl_json = (\<lambda>i a b. [123, 125]), tl_stamp = (\<lambda>t. if t = 0 then ''00'' else ''01''),
     tl_show = (\<lambda>i. fmt_nat (unat i))\<rparr>"

definition sample_disk :: disk_turn where
  "sample_disk = \<lparr>dt_opens = True, dt_creates = True, dt_reads = (\<lambda>i. Some 2), dt_writes = (\<lambda>i. True), dt_flushes = True, dt_kept = 0,
     dt_removes = True, dt_error = []\<rparr>"

definition sample_moment :: "uuid \<Rightarrow> int \<Rightarrow> moment" where
  "sample_moment i t = \<lparr>mo_fresh = i, mo_path = t, mo_created = t, mo_completed = t, mo_retention = (\<lambda>j. t)\<rparr>"

definition sample_files :: disk_files where
  "sample_files = [''db'' \<mapsto> [1, 2, 3]]"

definition sample_full :: backup where
  "sample_full = \<lparr>bk_id = 1, bk_backup_type = FullBackup, bk_status = BkCompleted, bk_start_lsn = 0, bk_end_lsn = 0, bk_created_at = 0,
     bk_completed_at = Some 0, bk_previous_backup_id = None, bk_size_bytes = 3, bk_checksum = tl_digest sample_tools [1, 2, 3],
     bk_path = ''./backups/full__00.backup'', bk_compression_level = Some 6, bk_encrypted = False, bk_error = None\<rparr>"

definition backup_sample :: backup_manager where
  "backup_sample = \<lparr>bm_config = backup_config_default, bm_backups = [], bm_wal = Some wal_create\<rparr>"

lemma sample_disk_works: "disk_works sample_disk"
  by (simp add: disk_works_def sample_disk_def)

lemma sample_full_backup:
  "create_full_backup sample_tools sample_disk (\<lambda>_. sample_disk) (sample_moment 1 0) ''db'' backup_sample sample_files
    = (sample_files(''./backups/full__00.backup'' \<mapsto> [1, 2, 3]), backup_sample\<lparr>bm_backups := [(1, sample_full)]\<rparr>, Ok 1)"
proof -
  have "backup_path (tl_stamp sample_tools) 0 FullBackup backup_sample = ''./backups/full__00.backup''"
    by (simp add: backup_path_def path_join_def backup_sample_def sample_tools_def backup_config_default_def)
  moreover have "copy_file sample_disk ''db'' ''./backups/full__00.backup'' sample_files
      = (sample_files(''./backups/full__00.backup'' \<mapsto> [1, 2, 3]), Ok [1, 2, 3])"
    by (rule copy_file_works [OF sample_disk_works]) (simp_all add: sample_files_def)
  ultimately show ?thesis
    by (simp add: create_full_backup_def finish_backup_def perform_full_backup_def apply_retention_policy_def backup_new_def
        backup_mark_in_progress_def backup_mark_completed_def backup_current_lsn_def backup_sample_def sample_moment_def
        sample_full_def backup_config_default_def wal_create_def Let_def)
qed

definition sample_incremental :: backup where
  "sample_incremental = \<lparr>bk_id = 2, bk_backup_type = IncrementalBackup, bk_status = BkCompleted, bk_start_lsn = 0, bk_end_lsn = 0,
     bk_created_at = 3600000000000, bk_completed_at = Some 3600000000000, bk_previous_backup_id = Some 1, bk_size_bytes = 0,
     bk_checksum = tl_digest sample_tools (ascii_bytes (fmt (0 :: u64) @ '':'' @ fmt (0 :: u64))),
     bk_path = ''./backups/incremental__01.backup'', bk_compression_level = Some 6, bk_encrypted = False, bk_error = None\<rparr>"

lemma sample_incremental_backup:
  "create_incremental_backup sample_tools sample_disk (\<lambda>_. sample_disk) (sample_moment 2 3600000000000)
      (backup_sample\<lparr>bm_backups := [(1, sample_full)]\<rparr>) fs
    = (fs(''./backups/incremental__01.backup'' \<mapsto> [123, 125]),
       backup_sample\<lparr>bm_backups := [(1, sample_full), (2, sample_incremental)]\<rparr>, Ok 2)"
proof -
  have path: "backup_path (tl_stamp sample_tools) 3600000000000 IncrementalBackup (backup_sample\<lparr>bm_backups := [(1, sample_full)]\<rparr>)
      = ''./backups/incremental__01.backup''"
    by (simp add: backup_path_def path_join_def backup_sample_def sample_tools_def backup_config_default_def)
  have "bk_checksum sample_full \<noteq> []" by (simp add: sample_full_def sample_tools_def)
  then have base: "latest_completed_backup (backup_sample\<lparr>bm_backups := [(1, sample_full)]\<rparr>) = Some sample_full"
    by (simp add: latest_completed_backup_def latest_created_def all_backups_def backup_is_valid_def sample_full_def)
  have "num_days (3600000000000 - bk_created_at sample_full) < sint (7 :: u64)"
    by (simp add: num_days_def sample_full_def)
  then have kept: "should_retain 3600000000000 (bc_retention (bm_config backup_sample)) sample_full"
    by (simp add: should_retain_def backup_sample_def backup_config_default_def retention_policy_default_def)
  then have retention: "apply_retention_policy sample_tools (\<lambda>_. sample_disk) (\<lambda>j. 3600000000000) fs (backup_sample\<lparr>bm_backups := [(1, sample_full)]\<rparr>)
      = (fs, backup_sample\<lparr>bm_backups := [(1, sample_full)]\<rparr>)" for fs
    by (simp add: apply_retention_policy_def retention_round_def get_backup_def)
  have fields: "bm_wal backup_sample = Some wal_create" "wl_current_lsn wal_create = 0"
      "bc_compression_level (bm_config backup_sample) = Some 6" "\<not> bc_encryption_enabled (bm_config backup_sample)"
      "bk_id sample_full = 1" "bk_end_lsn sample_full = 0" "tl_json sample_tools 1 0 0 = [123, 125]"
      "dt_creates sample_disk" "dt_writes sample_disk 0"
    by (simp_all add: backup_sample_def sample_full_def wal_create_def sample_disk_def sample_tools_def backup_config_default_def)
  have mo: "sample_moment 2 3600000000000 = \<lparr>mo_fresh = 2, mo_path = 3600000000000, mo_created = 3600000000000,
      mo_completed = 3600000000000, mo_retention = (\<lambda>j. 3600000000000)\<rparr>" by (simp add: sample_moment_def)
  show ?thesis
    by (simp add: mo path base retention fields create_incremental_backup_def finish_backup_def perform_incremental_backup_def
        backup_new_def backup_mark_in_progress_def backup_mark_completed_def backup_current_lsn_def sample_incremental_def Let_def)
qed

lemma sample_reach: "backup_reach sample_tools (backup_sample\<lparr>bm_backups := [(1, sample_full), (2, sample_incremental)]\<rparr>)"
proof -
  have "backup_reach sample_tools (set_wal wal_create (backup_manager_new backup_config_default))"
    by (intro backup_reach.intros)
  then have "backup_reach sample_tools backup_sample" by (simp add: set_wal_def backup_manager_new_def backup_sample_def)
  then have "backup_reach sample_tools (backup_sample\<lparr>bm_backups := [(1, sample_full)]\<rparr>)"
    by (rule backup_reach.full [OF _ _ sample_full_backup]) (simp add: unused_def get_backup_def backup_sample_def)
  then show ?thesis
    by (rule backup_reach.incremental [OF _ _ sample_incremental_backup])
      (simp add: unused_def get_backup_def backup_sample_def sample_moment_def sample_full_def)
qed

theorem backup_chain_returns_witness:
  "\<exists>c. get_backup_chain 2 (backup_sample\<lparr>bm_backups := [(1, sample_full), (2, sample_incremental)]\<rparr>) = Some c \<and>
     c \<noteq> [] \<and> last c = sample_incremental \<and> bk_backup_type (hd c) = FullBackup"
proof -
  let ?m = "backup_sample\<lparr>bm_backups := [(1, sample_full), (2, sample_incremental)]\<rparr>"
  have gets: "get_backup 2 ?m = Some sample_incremental" "get_backup 1 ?m = Some sample_full"
      "all_backups ?m = [sample_full, sample_incremental]"
    by (simp_all add: get_backup_def all_backups_def)
  obtain c where c: "get_backup_chain 2 ?m = Some c" "c \<noteq> []" "last c = sample_incremental" "set c \<subseteq> set (all_backups ?m)"
      "bk_backup_type (hd c) = FullBackup \<or> (\<exists>p. bk_previous_backup_id (hd c) = Some p \<and> get_backup p ?m = None)"
    using backup_chain_returns [OF sample_reach, of 2] by (auto simp: gets)
  have "hd c \<in> {sample_full, sample_incremental}" using c(4) hd_in_set [OF c(2)] by (auto simp: gets)
  then have "bk_previous_backup_id (hd c) = None \<or> bk_previous_backup_id (hd c) = Some 1"
    by (auto simp: sample_full_def sample_incremental_def)
  with c gets(2) show ?thesis by auto
qed

end
