(* ===== verification/Restore.thy ===== *)
theory Restore
  imports Backup
begin

text \<open>
  \<^verbatim>\<open>recovery/restore.rs\<close>: restoring a full backup, a chain of backups and a point in time, over the backups and files of the
  theory \<open>Backup\<close>. The backup manager that the recovery manager shares is a field of its state. A walk along a chain that does
  not end makes \<open>restore_incremental_chain\<close> return nothing.
\<close>

section \<open>Recoveries\<close>

datatype recovery_type = FullRestore | PointInTime | IncrementalRestore | ReplicaPromote

fun recovery_type_display :: "recovery_type \<Rightarrow> string" where
  "recovery_type_display FullRestore = ''full_restore''"
| "recovery_type_display PointInTime = ''point_in_time''"
| "recovery_type_display IncrementalRestore = ''incremental_restore''"
| "recovery_type_display ReplicaPromote = ''replica_promote''"

datatype recovery_status = RcPreparing | RcRestoring | RcReplayingLogs | RcValidating | RcCompleted | RcFailed

fun recovery_status_display :: "recovery_status \<Rightarrow> string" where
  "recovery_status_display RcPreparing = ''preparing''"
| "recovery_status_display RcRestoring = ''restoring''"
| "recovery_status_display RcReplayingLogs = ''replaying_logs''"
| "recovery_status_display RcValidating = ''validating''"
| "recovery_status_display RcCompleted = ''completed''"
| "recovery_status_display RcFailed = ''failed''"

record restore_stats =
  rst_bytes_restored :: u64
  rst_records_replayed :: u64
  rst_pages_recovered :: u64
  rst_validation_errors :: u64
  rst_duration_secs :: u64

definition restore_stats_default :: restore_stats where
  "restore_stats_default =
     \<lparr>rst_bytes_restored = 0, rst_records_replayed = 0, rst_pages_recovered = 0, rst_validation_errors = 0, rst_duration_secs = 0\<rparr>"

record recovery =
  rc_id :: uuid
  rc_recovery_type :: recovery_type
  rc_status :: recovery_status
  rc_backup_id :: uuid
  rc_target_lsn :: "lsn option"
  rc_target_timestamp :: "int option"
  rc_started_at :: int
  rc_completed_at :: "int option"
  rc_stats :: restore_stats
  rc_target_path :: string
  rc_error :: "string option"

definition recovery_new :: "uuid \<Rightarrow> int \<Rightarrow> recovery_type \<Rightarrow> uuid \<Rightarrow> string \<Rightarrow> recovery" where
  "recovery_new fresh now kind i target =
     \<lparr>rc_id = fresh, rc_recovery_type = kind, rc_status = RcPreparing, rc_backup_id = i, rc_target_lsn = None, rc_target_timestamp = None,
      rc_started_at = now, rc_completed_at = None, rc_stats = restore_stats_default, rc_target_path = target, rc_error = None\<rparr>"

definition with_target_lsn :: "lsn \<Rightarrow> recovery \<Rightarrow> recovery" where
  "with_target_lsn l rc = rc\<lparr>rc_target_lsn := Some l\<rparr>"

definition recovery_mark_in_progress :: "recovery_status \<Rightarrow> recovery \<Rightarrow> recovery" where
  "recovery_mark_in_progress st rc = rc\<lparr>rc_status := st\<rparr>"

definition recovery_mark_completed :: "int \<Rightarrow> restore_stats \<Rightarrow> recovery \<Rightarrow> recovery" where
  "recovery_mark_completed now stats rc = rc\<lparr>rc_status := RcCompleted, rc_stats := stats, rc_completed_at := Some now\<rparr>"

definition recovery_mark_failed :: "int \<Rightarrow> string \<Rightarrow> recovery \<Rightarrow> recovery" where
  "recovery_mark_failed now msg rc = rc\<lparr>rc_status := RcFailed, rc_error := Some msg, rc_completed_at := Some now\<rparr>"

definition recovery_duration :: "recovery \<Rightarrow> nat option" where
  "recovery_duration rc = map_option (\<lambda>end_at. nat (end_at - rc_started_at rc)) (rc_completed_at rc)"

section \<open>The manager\<close>

record recovery_manager =
  rg_recoveries :: "(uuid \<times> recovery) list"
  rg_backups :: backup_manager

definition recovery_manager_new :: recovery_manager where
  "recovery_manager_new = \<lparr>rg_recoveries = [], rg_backups = backup_manager_new backup_config_default\<rparr>"

definition with_backup_manager :: "backup_manager \<Rightarrow> recovery_manager" where
  "with_backup_manager m = \<lparr>rg_recoveries = [], rg_backups = m\<rparr>"

definition all_recoveries :: "recovery_manager \<Rightarrow> recovery list" where
  "all_recoveries g = map snd (rg_recoveries g)"

definition get_recovery :: "uuid \<Rightarrow> recovery_manager \<Rightarrow> recovery option" where
  "get_recovery i g = map_of (rg_recoveries g) i"

definition put_recovery :: "uuid \<Rightarrow> recovery \<Rightarrow> recovery_manager \<Rightarrow> recovery_manager" where
  "put_recovery i rc g = g\<lparr>rg_recoveries := AList.update i rc (rg_recoveries g)\<rparr>"

text \<open>The three placeholders of the source.\<close>

definition validate_database :: "string \<Rightarrow> u64 outcome" where "validate_database db_path = Ok 100"
definition replay_wal_to_lsn :: "string \<Rightarrow> lsn \<Rightarrow> u64 outcome" where "replay_wal_to_lsn db_path l = Ok 0"
definition apply_incremental :: "backup \<Rightarrow> string \<Rightarrow> u64 outcome" where "apply_incremental b target = Ok 0"

definition perform_full_restore ::
  "backup_tools \<Rightarrow> disk_turn \<Rightarrow> disk_turn \<Rightarrow> uuid \<Rightarrow> string \<Rightarrow> recovery \<Rightarrow> backup_manager \<Rightarrow> disk_files
   \<Rightarrow> disk_files \<times> recovery \<times> restore_stats outcome" where
  "perform_full_restore tools dv d i target rc m fs =
     (case get_backup i m of
        None \<Rightarrow> (fs, rc, Err (Io (FileNotFound (tl_show tools i))))
      | Some b \<Rightarrow>
          if \<not> backup_is_valid b then (fs, rc, Err (Io (InternalError ''Backup is not valid for restore'')))
          else (case verify_backup tools dv i m fs of
              Err e \<Rightarrow> (fs, rc, Err e)
            | Panic \<Rightarrow> (fs, rc, Panic)
            | Ok verified \<Rightarrow>
                if \<not> verified then (fs, rc, Err (Io (InternalError ''Backup checksum verification failed'')))
                else
                  let rc = recovery_mark_in_progress RcRestoring rc in
                  (case copy_file d (bk_path b) target fs of
                     (fs', Err e) \<Rightarrow> (fs', rc, Err e)
                   | (fs', Panic) \<Rightarrow> (fs', rc, Panic)
                   | (fs', Ok out) \<Rightarrow>
                       (fs', recovery_mark_in_progress RcValidating rc,
                        and_then (validate_database target) (\<lambda>pages.
                          Ok (restore_stats_default\<lparr>rst_bytes_restored := word_of_nat (length out), rst_pages_recovered := pages\<rparr>))))))"

text \<open>What the three operations do with the result: a failed recovery is not updated in the map.\<close>

definition conclude_recovery ::
  "uuid \<Rightarrow> int \<Rightarrow> recovery_manager \<Rightarrow> disk_files \<times> recovery \<times> restore_stats outcome \<Rightarrow> disk_files \<times> recovery_manager \<times> uuid outcome" where
  "conclude_recovery fresh now g r =
     (case r of
        (fs, rc, Ok stats) \<Rightarrow> (fs, put_recovery fresh (recovery_mark_completed now stats rc) g, Ok fresh)
      | (fs, rc, Err e) \<Rightarrow> (fs, g, Err e)
      | (fs, rc, Panic) \<Rightarrow> (fs, g, Panic))"

definition restore_backup ::
  "backup_tools \<Rightarrow> disk_turn \<Rightarrow> disk_turn \<Rightarrow> uuid \<Rightarrow> int \<Rightarrow> int \<Rightarrow> uuid \<Rightarrow> string \<Rightarrow> recovery_manager \<Rightarrow> disk_files
   \<Rightarrow> disk_files \<times> recovery_manager \<times> uuid outcome" where
  "restore_backup tools dv d fresh started ended i target g fs =
     (let rc = recovery_mark_in_progress RcRestoring (recovery_new fresh started FullRestore i target);
          g = put_recovery fresh rc g
      in conclude_recovery fresh ended g (perform_full_restore tools dv d i target rc (rg_backups g) fs))"

fun restore_links ::
  "(nat \<Rightarrow> disk_turn) \<Rightarrow> nat \<Rightarrow> string \<Rightarrow> backup list \<Rightarrow> recovery \<Rightarrow> restore_stats \<Rightarrow> disk_files
   \<Rightarrow> disk_files \<times> recovery \<times> restore_stats outcome" where
  "restore_links ds n target [] rc stats fs = (fs, rc, Ok stats)"
| "restore_links ds n target (b # bs) rc stats fs =
     (let rc = recovery_mark_in_progress (if n = 0 then RcRestoring else RcReplayingLogs) rc in
      if bk_backup_type b = FullBackup then
        (case copy_file (ds n) (bk_path b) target fs of
           (fs', Err e) \<Rightarrow> (fs', rc, Err e)
         | (fs', Panic) \<Rightarrow> (fs', rc, Panic)
         | (fs', Ok out) \<Rightarrow>
             restore_links ds (Suc n) target bs rc (stats\<lparr>rst_bytes_restored := rst_bytes_restored stats + word_of_nat (length out)\<rparr>) fs')
      else
        (case apply_incremental b target of
           Err e \<Rightarrow> (fs, rc, Err e)
         | Panic \<Rightarrow> (fs, rc, Panic)
         | Ok k \<Rightarrow> restore_links ds (Suc n) target bs rc (stats\<lparr>rst_records_replayed := rst_records_replayed stats + k\<rparr>) fs))"

definition perform_incremental_restore ::
  "backup_tools \<Rightarrow> (nat \<Rightarrow> disk_turn) \<Rightarrow> uuid \<Rightarrow> string \<Rightarrow> recovery \<Rightarrow> backup_manager \<Rightarrow> disk_files
   \<Rightarrow> (disk_files \<times> recovery \<times> restore_stats outcome) option" where
  "perform_incremental_restore tools ds i target rc m fs =
     map_option (\<lambda>chain.
       if chain = [] then (fs, rc, Err (Io (FileNotFound (tl_show tools i))))
       else (case restore_links ds 0 target chain rc restore_stats_default fs of (fs', rc', r) \<Rightarrow>
           (case r of
              Ok stats \<Rightarrow>
                (fs', recovery_mark_in_progress RcValidating rc',
                 and_then (validate_database target) (\<lambda>pages. Ok (stats\<lparr>rst_pages_recovered := pages\<rparr>)))
            | r' \<Rightarrow> (fs', rc', r')))) (get_backup_chain i m)"

definition restore_incremental_chain ::
  "backup_tools \<Rightarrow> (nat \<Rightarrow> disk_turn) \<Rightarrow> uuid \<Rightarrow> int \<Rightarrow> int \<Rightarrow> uuid \<Rightarrow> string \<Rightarrow> recovery_manager \<Rightarrow> disk_files
   \<Rightarrow> (disk_files \<times> recovery_manager \<times> uuid outcome) option" where
  "restore_incremental_chain tools ds fresh started ended i target g fs =
     (let rc = recovery_mark_in_progress RcRestoring (recovery_new fresh started IncrementalRestore i target);
          g = put_recovery fresh rc g
      in map_option (conclude_recovery fresh ended g) (perform_incremental_restore tools ds i target rc (rg_backups g) fs))"

definition perform_pit_recovery ::
  "backup_tools \<Rightarrow> disk_turn \<Rightarrow> disk_turn \<Rightarrow> uuid \<Rightarrow> lsn \<Rightarrow> string \<Rightarrow> recovery \<Rightarrow> backup_manager \<Rightarrow> disk_files
   \<Rightarrow> disk_files \<times> recovery \<times> restore_stats outcome" where
  "perform_pit_recovery tools dv d i target_lsn target rc m fs =
     (case perform_full_restore tools dv d i target rc m fs of
        (fs', rc', Ok base_stats) \<Rightarrow>
          (fs', recovery_mark_in_progress RcValidating (recovery_mark_in_progress RcReplayingLogs rc'),
           and_then (replay_wal_to_lsn target target_lsn) (\<lambda>n.
           and_then (validate_database target) (\<lambda>pages.
             Ok (base_stats\<lparr>rst_records_replayed := n, rst_pages_recovered := pages\<rparr>))))
      | r \<Rightarrow> r)"

definition point_in_time_recovery ::
  "backup_tools \<Rightarrow> disk_turn \<Rightarrow> disk_turn \<Rightarrow> uuid \<Rightarrow> int \<Rightarrow> int \<Rightarrow> uuid \<Rightarrow> lsn \<Rightarrow> string \<Rightarrow> recovery_manager \<Rightarrow> disk_files
   \<Rightarrow> disk_files \<times> recovery_manager \<times> uuid outcome" where
  "point_in_time_recovery tools dv d fresh started ended i target_lsn target g fs =
     (let rc = recovery_mark_in_progress RcRestoring (with_target_lsn target_lsn (recovery_new fresh started PointInTime i target));
          g = put_recovery fresh rc g
      in conclude_recovery fresh ended g (perform_pit_recovery tools dv d i target_lsn target rc (rg_backups g) fs))"

definition cancel_recovery ::
  "backup_tools \<Rightarrow> disk_turn \<Rightarrow> uuid \<Rightarrow> recovery_manager \<Rightarrow> disk_files \<Rightarrow> disk_files \<times> recovery_manager \<times> unit outcome" where
  "cancel_recovery tools d i g fs =
     (case get_recovery i g of
        None \<Rightarrow> (fs, g, Err (Io (FileNotFound (tl_show tools i))))
      | Some rc \<Rightarrow>
          if rc_status rc = RcCompleted then (fs, g, Err (Io (InternalError ''Cannot cancel completed recovery'')))
          else if fs (rc_target_path rc) \<noteq> None \<and> \<not> dt_removes d then (fs, g, Err (generic_error d))
          else (fs(rc_target_path rc := None), g\<lparr>rg_recoveries := AList.delete i (rg_recoveries g)\<rparr>, Ok ()))"

definition stats_of_recovery :: "uuid \<Rightarrow> recovery_manager \<Rightarrow> restore_stats option" where
  "stats_of_recovery i g = map_option rc_stats (get_recovery i g)"

section \<open>What a restore writes\<close>

lemma get_put_recovery [simp]:
  "get_recovery j (put_recovery i rc g) = (if j = i then Some rc else get_recovery j g)"
  "rg_backups (put_recovery i rc g) = rg_backups g"
  by (simp_all add: get_recovery_def put_recovery_def update_conv')

lemma verify_backup_Ok:
  assumes "verify_backup tools dv i m fs = Ok True"
  obtains b content where "get_backup i m = Some b" "fs (bk_path b) = Some content" "tl_digest tools content = bk_checksum b"
  using assms
  by (auto simp: verify_backup_def split: option.splits if_splits prod.splits bool.splits dest!: copy_loop_exact)

lemma verify_backup_works:
  assumes "disk_works dv" "get_backup i m = Some b" "fs (bk_path b) = Some content"
  shows "verify_backup tools dv i m fs = Ok (tl_digest tools content = bk_checksum b)"
  using assms copy_loop_finishes [of "dt_reads dv" "\<lambda>_. True" 0 content "[]"] by (simp add: verify_backup_def disk_works_def)

lemma perform_full_restore_Ok:
  assumes "perform_full_restore tools dv d i target rc m fs = (fs', rc', Ok stats)"
  obtains b content where "get_backup i m = Some b" "backup_is_valid b" "fs (bk_path b) = Some content"
    "tl_digest tools content = bk_checksum b"
    "fs' = fs(target \<mapsto> (if target = bk_path b then [] else content))"
    "stats = restore_stats_default\<lparr>rst_bytes_restored := word_of_nat (length (if target = bk_path b then [] else content)), rst_pages_recovered := 100\<rparr>"
proof -
  from assms obtain b out where b: "get_backup i m = Some b" "backup_is_valid b" "verify_backup tools dv i m fs = Ok True"
      "copy_file d (bk_path b) target fs = (fs', Ok out)"
      "stats = restore_stats_default\<lparr>rst_bytes_restored := word_of_nat (length out), rst_pages_recovered := 100\<rparr>"
    by (auto simp: perform_full_restore_def validate_database_def Let_def split: option.splits if_splits res.splits prod.splits)
  with verify_backup_Ok [OF b(3)] obtain content where c: "fs (bk_path b) = Some content" "tl_digest tools content = bk_checksum b"
    by (metis option.inject)
  have "out = (if target = bk_path b then [] else content)" "fs' = fs(target \<mapsto> out)"
    using copy_file_Ok [OF b(4)] c(1) by auto
  with that [OF b(1,2) c] b(5) show thesis by simp
qed

text \<open>
  C38. A restore is verified. Whatever happened to the files since the backup was made and whatever the disk does in the call, a restore that
  reports success, to a path other than the backup's own, has written content whose digest is the one recorded with the backup,
  changed no other file, and recorded a completed recovery. The file of the backup does not change between the verification and the copy, and a read
  that succeeds returns the bytes stored.
\<close>

theorem restore_is_verified:
  assumes "restore_backup tools dv d fresh started ended i target g fs = (fs', g', Ok r)"
    and "\<forall>b. get_backup i (rg_backups g) = Some b \<longrightarrow> bk_path b \<noteq> target"
  shows "r = fresh \<and> (\<exists>b content rc. get_backup i (rg_backups g) = Some b \<and> backup_is_valid b \<and>
    tl_digest tools content = bk_checksum b \<and> fs' = fs(target \<mapsto> content) \<and>
    get_recovery r g' = Some rc \<and> rc_status rc = RcCompleted \<and> rst_bytes_restored (rc_stats rc) = word_of_nat (length content))"
proof -
  obtain rc1 stats where p: "perform_full_restore tools dv d i target (recovery_mark_in_progress RcRestoring (recovery_new fresh started FullRestore i target))
      (rg_backups g) fs = (fs', rc1, Ok stats)" and r: "r = fresh"
      "get_recovery fresh g' = Some (recovery_mark_completed ended stats rc1)"
    using assms(1) by (auto simp: restore_backup_def conclude_recovery_def Let_def split: res.splits prod.splits)
  show ?thesis
  proof (rule perform_full_restore_Ok [OF p])
    fix b content
    assume b: "get_backup i (rg_backups g) = Some b" "backup_is_valid b" "tl_digest tools content = bk_checksum b"
      "fs' = fs(target \<mapsto> if target = bk_path b then [] else content)"
      "stats = restore_stats_default\<lparr>rst_bytes_restored := word_of_nat (length (if target = bk_path b then [] else content)), rst_pages_recovered := 100\<rparr>"
    moreover have "target \<noteq> bk_path b" using assms(2) b(1) by blast
    ultimately show ?thesis using r by (auto simp: recovery_mark_completed_def)
  qed
qed

text \<open>On a working disk, an unchanged valid backup restores.\<close>

lemma restore_backup_works:
  assumes "get_backup i (rg_backups g) = Some b" "backup_is_valid b" "fs (bk_path b) = Some content" "bk_checksum b = tl_digest tools content"
    and "target \<noteq> bk_path b" "disk_works dv" "disk_works dr"
  shows "\<exists>g'. restore_backup tools dv dr fresh started ended i target g fs = (fs(target \<mapsto> content), g', Ok fresh)"
proof -
  have "verify_backup tools dv i (rg_backups g) fs = Ok True"
    using verify_backup_works [of dv i "rg_backups g" b fs content tools] assms by simp
  moreover have "copy_file dr (bk_path b) target fs = (fs(target \<mapsto> content), Ok content)"
    using copy_file_works [of dr fs "bk_path b" content target] assms by simp
  ultimately show ?thesis
    using assms(1,2) by (simp add: restore_backup_def perform_full_restore_def conclude_recovery_def validate_database_def Let_def)
qed

text \<open>
  C39. A full backup restores. When a full backup of the database succeeds, its path is new and nothing has changed its file or its
  record since, a restore on a working disk succeeds and writes exactly the content the database had, whatever the sizes of the
  reads. Digests are nonempty texts, and nothing writes the files during the calls.
\<close>

theorem backup_then_restore:
  assumes "create_full_backup tools d ds mo db_path m fs = (fs1, m1, Ok i)"
    and "\<forall>j b. get_backup j m = Some b \<longrightarrow> bk_path b \<noteq> backup_path (tl_stamp tools) (mo_path mo) FullBackup m"
    and "db_path \<noteq> backup_path (tl_stamp tools) (mo_path mo) FullBackup m" "target \<noteq> backup_path (tl_stamp tools) (mo_path mo) FullBackup m"
    and digest_text: "\<forall>content. tl_digest tools content \<noteq> []"
    and "get_backup i (rg_backups g) = get_backup i m1"
    and "fs2 (backup_path (tl_stamp tools) (mo_path mo) FullBackup m) = fs1 (backup_path (tl_stamp tools) (mo_path mo) FullBackup m)"
    and "disk_works dv" "disk_works dr"
  shows "\<exists>g'. restore_backup tools dv dr fresh started ended i target g fs2 = (fs2(target := fs db_path), g', Ok fresh) \<and>
    fs db_path \<noteq> None"
proof -
  obtain b content where b: "get_backup i m1 = Some b" "fs db_path = Some content" "bk_status b = BkCompleted"
      "bk_checksum b = tl_digest tools content" "bk_path b = backup_path (tl_stamp tools) (mo_path mo) FullBackup m"
      "fs1 (bk_path b) = Some content"
    using create_full_backup_Ok [OF assms(1-3)] by auto
  have f: "fs2 (bk_path b) = Some content" "get_backup i (rg_backups g) = Some b" using assms(6,7) b(1,5,6) by simp_all
  have "backup_is_valid b" using b(3,4) digest_text by (simp add: backup_is_valid_def)
  with restore_backup_works [of i g b fs2 content tools target dv dr] f b assms(4,8,9) show ?thesis by simp
qed

section \<open>What the operations do not do\<close>

text \<open>A content with another digest is refused before anything is written; the recovery stays in the map as restoring.\<close>

lemma unverified_backup_refused:
  assumes "disk_works dv" "get_backup i (rg_backups g) = Some b" "backup_is_valid b" "fs (bk_path b) = Some content"
    and "tl_digest tools content \<noteq> bk_checksum b"
  shows "restore_backup tools dv d fresh started ended i target g fs =
    (fs, put_recovery fresh (recovery_mark_in_progress RcRestoring (recovery_new fresh started FullRestore i target)) g,
     Err (Io (InternalError ''Backup checksum verification failed'')))"
  using verify_backup_works [of dv i "rg_backups g" b fs content tools] assms
  by (simp add: restore_backup_def perform_full_restore_def conclude_recovery_def Let_def)

text \<open>
  The checksum of an incremental backup is that of two numbers, not of its file, so it is refused unless the digests collide.
\<close>

lemma incremental_checksum:
  assumes "perform_incremental_backup tools d base b m fs = (fs', Ok (l, n, sum_text))"
  shows "fs' (bk_path b) = Some (tl_json tools (bk_id base) (bk_end_lsn base) l) \<and>
    sum_text = tl_digest tools (ascii_bytes (fmt (bk_end_lsn base) @ '':'' @ fmt l))"
  using assms by (auto simp: perform_incremental_backup_def Let_def split: option.splits if_splits)

text \<open>Point in time recovery writes what a full restore writes, for every target LSN.\<close>

lemma point_in_time_ignores_lsn:
  assumes "restore_backup tools dv d fresh started ended i target g fs = (fs', g', r)"
  shows "\<exists>g''. point_in_time_recovery tools dv d fresh started ended i l target g fs = (fs', g'', r)"
proof -
  have rc: "perform_full_restore tools dv d i target rc m fs = (case perform_full_restore tools dv d i target rc' m fs of (f, q, s) \<Rightarrow>
      (f, (case perform_full_restore tools dv d i target rc m fs of (_, q', _) \<Rightarrow> q'), s))" for rc rc' m
    by (auto simp: perform_full_restore_def Let_def split: option.splits res.splits prod.splits if_splits)
  show ?thesis
    using assms rc [of "recovery_mark_in_progress RcRestoring (with_target_lsn l (recovery_new fresh started PointInTime i target))" "rg_backups g"
        "recovery_mark_in_progress RcRestoring (recovery_new fresh started FullRestore i target)"]
    by (auto simp: restore_backup_def point_in_time_recovery_def perform_pit_recovery_def conclude_recovery_def Let_def replay_wal_to_lsn_def
        validate_database_def split: res.splits prod.splits)
qed

text \<open>Restoring onto the path of the backup itself empties it and reports success.\<close>

lemma restore_onto_itself_empties:
  assumes "restore_backup tools dv d fresh started ended i target g fs = (fs', g', Ok r)"
    and "get_backup i (rg_backups g) = Some b" "bk_path b = target"
  shows "fs' (bk_path b) = Some []"
proof -
  obtain rc1 stats where "perform_full_restore tools dv d i target (recovery_mark_in_progress RcRestoring (recovery_new fresh started FullRestore i target))
      (rg_backups g) fs = (fs', rc1, Ok stats)"
    using assms(1) by (auto simp: restore_backup_def conclude_recovery_def Let_def split: res.splits prod.splits)
  then show ?thesis by (rule perform_full_restore_Ok) (use assms(2,3) in simp)
qed

text \<open>A chain without a full backup, whose base was deleted, restores nothing and reports success.\<close>

lemma restore_links_without_full:
  "\<forall>b \<in> set c. bk_backup_type b \<noteq> FullBackup \<Longrightarrow> \<exists>rc'. restore_links ds n target c rc stats fs = (fs, rc', Ok stats)"
  by (induction c arbitrary: n rc) (auto simp: apply_incremental_def Let_def)

lemma orphan_chain_restores_nothing:
  assumes "get_backup_chain i (rg_backups g) = Some c" "c \<noteq> []" "\<forall>b \<in> set c. bk_backup_type b \<noteq> FullBackup"
  shows "\<exists>g'. restore_incremental_chain tools ds fresh started ended i target g fs = Some (fs, g', Ok fresh)"
proof -
  obtain rc' where "restore_links ds 0 target c (recovery_mark_in_progress RcRestoring (recovery_new fresh started IncrementalRestore i target))
      restore_stats_default fs = (fs, rc', Ok restore_stats_default)"
    using restore_links_without_full [OF assms(3)] by blast
  with assms(1,2) show ?thesis
    by (simp add: restore_incremental_chain_def perform_incremental_restore_def conclude_recovery_def validate_database_def Let_def)
qed

section \<open>Witnesses\<close>

lemma sample_digest: "\<forall>content. tl_digest sample_tools content \<noteq> []"
  by (simp add: sample_tools_def)

lemma sample_path: "backup_path (tl_stamp sample_tools) (mo_path (sample_moment 1 0)) FullBackup backup_sample = ''./backups/full__00.backup''"
  by (simp add: sample_moment_def backup_path_def path_join_def backup_sample_def sample_tools_def backup_config_default_def)

lemma sample_get: "get_backup 1 (backup_sample\<lparr>bm_backups := [(1, sample_full)]\<rparr>) = Some sample_full" "get_backup j backup_sample = None"
  by (simp_all add: get_backup_def backup_sample_def)

theorem backup_then_restore_witness:
  "\<exists>g'. restore_backup sample_tools sample_disk sample_disk 7 5 6 1 ''new'' (with_backup_manager (backup_sample\<lparr>bm_backups := [(1, sample_full)]\<rparr>))
       [''./backups/full__00.backup'' \<mapsto> [1, 2, 3]] = ([''./backups/full__00.backup'' \<mapsto> [1, 2, 3], ''new'' \<mapsto> [1, 2, 3]], g', Ok 7)"
  using backup_then_restore [OF sample_full_backup, of "''new''" "with_backup_manager (backup_sample\<lparr>bm_backups := [(1, sample_full)]\<rparr>)"
      "[''./backups/full__00.backup'' \<mapsto> [1, 2, 3]]" sample_disk sample_disk 7 5 6]
  by (simp add: sample_path sample_digest sample_disk_works with_backup_manager_def sample_get sample_files_def)

theorem restore_is_verified_witness:
  "\<exists>fs' g' content rc. restore_backup sample_tools sample_disk sample_disk 7 5 6 1 ''new''
       (with_backup_manager (backup_sample\<lparr>bm_backups := [(1, sample_full)]\<rparr>)) [''./backups/full__00.backup'' \<mapsto> [1, 2, 3]] = (fs', g', Ok 7) \<and>
     fs' ''new'' = Some content \<and> tl_digest sample_tools content = bk_checksum sample_full \<and>
     get_recovery 7 g' = Some rc \<and> rc_status rc = RcCompleted"
proof -
  let ?g = "with_backup_manager (backup_sample\<lparr>bm_backups := [(1, sample_full)]\<rparr>)" and ?fs = "[''./backups/full__00.backup'' \<mapsto> [1, 2, 3 :: u8]]"
  have b: "get_backup 1 (rg_backups ?g) = Some sample_full" by (simp add: with_backup_manager_def sample_get)
  have full: "backup_is_valid sample_full" "bk_path sample_full = ''./backups/full__00.backup''"
      "bk_checksum sample_full = tl_digest sample_tools [1, 2, 3]"
    using sample_digest by (simp_all add: backup_is_valid_def sample_full_def)
  then obtain g' where g': "restore_backup sample_tools sample_disk sample_disk 7 5 6 1 ''new'' ?g ?fs = (?fs(''new'' \<mapsto> [1, 2, 3]), g', Ok 7)"
    using restore_backup_works [OF b, of ?fs "[1, 2, 3]" sample_tools "''new''"] sample_disk_works by fastforce
  have "\<forall>b. get_backup 1 (rg_backups ?g) = Some b \<longrightarrow> bk_path b \<noteq> ''new''" using b full(2) by simp
  from restore_is_verified [OF g' this] b g' show ?thesis by fastforce
qed

end
