(* ===== verification/Cache_Shard.thy ===== *)
theory Cache_Shard
  imports Errors "HOL-Library.Multiset"
begin

text \<open>
  The cache shards of \<^verbatim>\<open>cache/types.rs\<close> and \<^verbatim>\<open>cache/shard.rs\<close>. A \<open>HashMap\<close> is an association
  list with distinct keys; the order in which Rust iterates over one is the parameter \<open>ord\<close> of
  the operations that iterate, of which only \<open>mset (ord ks) = mset ks\<close> is known. The entry and
  shard pin counts are atomics of 64 bits: \<open>fetch_sub\<close> wraps. The time of the last access is
  recorded by the code and never read, and is left out. Of \<open>BinaryHeap\<close>, whose order among equal
  elements is unspecified, the model pops the oldest entry with the least access count.

  Locks are modelled where they decide the result: \<open>CacheShard::get\<close> calls
  \<open>update_policy_tracking\<close> while it holds the write lock of the entries, and under the LFU policy
  that function takes the read lock, so the call never returns; \<open>shard_get\<close> is \<open>None\<close> there.
\<close>

section \<open>Errors, policies and configuration\<close>

datatype cache_error =
    EntryTooLarge nat nat
  | CacheFull
  | Poisoned
  | InvalidConfig string
  | WriteBackFailed

datatype cache_policy = Lru | Lfu | ArcPolicy | Fifo | Lifo

record cache_config =
  cc_max_size :: nat
  cc_max_entries :: nat
  cc_policy :: cache_policy
  cc_shard_count :: nat
  cc_enable_stats :: bool
  cc_enable_prefetch :: bool
  cc_ttl_ms :: "nat option"
  cc_write_back :: bool
  cc_write_back_interval_ms :: nat

text \<open>\<open>num_cpus::get()\<close> is the argument.\<close>

definition cache_config_default :: "nat \<Rightarrow> cache_config" where
  "cache_config_default num_cpus =
     \<lparr>cc_max_size = 256 * 1024 * 1024, cc_max_entries = 100000, cc_policy = ArcPolicy,
      cc_shard_count = num_cpus, cc_enable_stats = True, cc_enable_prefetch = True,
      cc_ttl_ms = None, cc_write_back = True, cc_write_back_interval_ms = 1000\<rparr>"

definition usize_is_power_of_two :: "nat \<Rightarrow> bool" where
  "usize_is_power_of_two n \<longleftrightarrow> (\<exists>k \<in> set [0..<64]. n = 2 ^ k)"

definition cache_config_validate :: "cache_config \<Rightarrow> (cache_error, unit) res" where
  "cache_config_validate c =
     (if cc_max_size c < 1024 * 1024 then Err (InvalidConfig ''max_size must be >= 1MB'')
      else if cc_max_entries c < 1000 then Err (InvalidConfig ''max_entries must be >= 1000'')
      else if \<not> usize_is_power_of_two (cc_shard_count c) then
        Err (InvalidConfig ''shard_count must be a power of 2'')
      else (case cc_ttl_ms c of
              Some ttl \<Rightarrow> if ttl < 1 then Err (InvalidConfig ''ttl must be >= 1 millisecond'') else Ok ()
            | None \<Rightarrow> Ok ()))"

section \<open>Entries\<close>

record 'v cache_entry =
  ce_value :: 'v
  ce_access_count :: u64
  ce_size :: nat
  ce_dirty :: bool
  ce_pin_count :: u64

definition cache_entry_new :: "'v \<Rightarrow> nat \<Rightarrow> 'v cache_entry" where
  "cache_entry_new v n =
     \<lparr>ce_value = v, ce_access_count = 1, ce_size = n, ce_dirty = False, ce_pin_count = 0\<rparr>"

text \<open>Both return the value \<open>fetch_add\<close> and \<open>fetch_sub\<close> had before, the second less one.\<close>

definition entry_pin :: "'v cache_entry \<Rightarrow> u64 \<times> 'v cache_entry" where
  "entry_pin e = (ce_pin_count e, e\<lparr>ce_pin_count := ce_pin_count e + 1\<rparr>)"

definition entry_unpin :: "'v cache_entry \<Rightarrow> u64 \<times> 'v cache_entry" where
  "entry_unpin e = (saturating_sub (ce_pin_count e) 1, e\<lparr>ce_pin_count := ce_pin_count e - 1\<rparr>)"

definition is_pinned :: "'v cache_entry \<Rightarrow> bool" where
  "is_pinned e \<longleftrightarrow> ce_pin_count e > 0"

definition entry_mark_dirty :: "'v cache_entry \<Rightarrow> 'v cache_entry" where
  "entry_mark_dirty e = e\<lparr>ce_dirty := True\<rparr>"

definition entry_mark_clean :: "'v cache_entry \<Rightarrow> 'v cache_entry" where
  "entry_mark_clean e = e\<lparr>ce_dirty := False\<rparr>"

definition record_access :: "'v cache_entry \<Rightarrow> 'v cache_entry" where
  "record_access e = e\<lparr>ce_access_count := ce_access_count e + 1\<rparr>"

section \<open>The shard\<close>

record 'k arc_state =
  arc_t1 :: "'k list"
  arc_t2 :: "'k list"
  arc_delta_t1 :: nat
  arc_delta_t2 :: nat

definition arc_state_new :: "'k arc_state" where
  "arc_state_new = \<lparr>arc_t1 = [], arc_t2 = [], arc_delta_t1 = 0, arc_delta_t2 = 0\<rparr>"

definition arc_remove :: "'k \<Rightarrow> 'k arc_state \<Rightarrow> 'k arc_state" where
  "arc_remove k a = a\<lparr>arc_t1 := filter ((\<noteq>) k) (arc_t1 a), arc_t2 := filter ((\<noteq>) k) (arc_t2 a)\<rparr>"

record cache_stats =
  st_hits :: u64
  st_misses :: u64
  st_evictions :: u64
  st_insertions :: u64
  st_dirty_evictions :: u64
  st_current_size :: nat
  st_current_entries :: nat
  st_pin_count :: u64

definition cache_stats_new :: cache_stats where
  "cache_stats_new = \<lparr>st_hits = 0, st_misses = 0, st_evictions = 0, st_insertions = 0,
     st_dirty_evictions = 0, st_current_size = 0, st_current_entries = 0, st_pin_count = 0\<rparr>"

definition stats_inserted :: "nat \<Rightarrow> cache_stats \<Rightarrow> cache_stats" where
  "stats_inserted n t = t\<lparr>st_insertions := st_insertions t + 1, st_current_size := st_current_size t + n,
     st_current_entries := st_current_entries t + 1\<rparr>"

definition stats_evicted :: "nat \<Rightarrow> bool \<Rightarrow> cache_stats \<Rightarrow> cache_stats" where
  "stats_evicted n dirty t = t\<lparr>st_current_size := st_current_size t - n,
     st_current_entries := st_current_entries t - 1, st_evictions := st_evictions t + 1,
     st_dirty_evictions := st_dirty_evictions t + (if dirty then 1 else 0)\<rparr>"

record ('k, 'v) cache_shard =
  cs_entries :: "('k \<times> 'v cache_entry) list"
  cs_policy :: cache_policy
  cs_lru_list :: "'k list"
  cs_lfu_heap :: "('k \<times> u64) list"
  cs_arc_state :: "'k arc_state"
  cs_config :: cache_config
  cs_stats :: cache_stats
  cs_shard_index :: nat

definition shard_new :: "cache_policy \<Rightarrow> cache_config \<Rightarrow> nat \<Rightarrow> ('k, 'v) cache_shard" where
  "shard_new p c i = \<lparr>cs_entries = [], cs_policy = p, cs_lru_list = [], cs_lfu_heap = [],
     cs_arc_state = arc_state_new, cs_config = c, cs_stats = cache_stats_new, cs_shard_index = i\<rparr>"

definition update_policy_tracking :: "('k, 'v) cache_shard \<Rightarrow> 'k \<Rightarrow> ('k, 'v) cache_shard" where
  "update_policy_tracking s key =
     (case cs_policy s of
        Lru \<Rightarrow> s\<lparr>cs_lru_list := key # filter ((\<noteq>) key) (cs_lru_list s)\<rparr>
      | Lfu \<Rightarrow> (case map_of (cs_entries s) key of
                  Some e \<Rightarrow> s\<lparr>cs_lfu_heap := cs_lfu_heap s @ [(key, ce_access_count e)]\<rparr>
                | None \<Rightarrow> s)
      | ArcPolicy \<Rightarrow>
          (let a = cs_arc_state s in
           if key \<in> set (arc_t1 a) then s\<lparr>cs_arc_state := a\<lparr>arc_delta_t1 := arc_delta_t1 a + 1\<rparr>\<rparr>
           else if key \<in> set (arc_t2 a) then s\<lparr>cs_arc_state := a\<lparr>arc_delta_t2 := arc_delta_t2 a + 1\<rparr>\<rparr>
           else s)
      | Fifo \<Rightarrow> s
      | Lifo \<Rightarrow> s)"

definition remove_policy_tracking :: "('k, 'v) cache_shard \<Rightarrow> 'k \<Rightarrow> ('k, 'v) cache_shard" where
  "remove_policy_tracking s key =
     (case cs_policy s of
        Lru \<Rightarrow> s\<lparr>cs_lru_list := filter ((\<noteq>) key) (cs_lru_list s)\<rparr>
      | ArcPolicy \<Rightarrow> s\<lparr>cs_arc_state := arc_remove key (cs_arc_state s)\<rparr>
      | Lfu \<Rightarrow> s
      | Fifo \<Rightarrow> s
      | Lifo \<Rightarrow> s)"

definition shard_get :: "('k, 'v) cache_shard \<Rightarrow> 'k \<Rightarrow> ('v option \<times> ('k, 'v) cache_shard) option" where
  "shard_get s key =
     (case map_of (cs_entries s) key of
        None \<Rightarrow> Some (None, s)
      | Some e \<Rightarrow>
          (let s1 = s\<lparr>cs_stats := (cs_stats s)\<lparr>st_hits := st_hits (cs_stats s) + 1\<rparr>,
                      cs_entries := AList.update key (record_access (snd (entry_unpin (snd (entry_pin e)))))
                                      (cs_entries s)\<rparr>
           in if cs_policy s = Lfu then None
              else Some (Some (ce_value e), update_policy_tracking s1 key)))"

section \<open>Eviction\<close>

text \<open>A victim is a key with the size and the dirty flag of its entry; the tracking structures
  lose what the search popped.\<close>

type_synonym 'k victim = "('k \<times> nat \<times> bool) option"

definition victim_of :: "'k \<Rightarrow> 'v cache_entry \<Rightarrow> 'k \<times> nat \<times> bool" where
  "victim_of k e = (k, ce_size e, ce_dirty e)"

text \<open>The list is searched from its back, the least recently used key.\<close>

fun pop_lru :: "('k \<times> 'v cache_entry) list \<Rightarrow> 'k list \<Rightarrow> 'k victim \<times> 'k list" where
  "pop_lru es [] = (None, [])"
| "pop_lru es (k # ks) =
     (case map_of es k of
        Some e \<Rightarrow> if is_pinned e then pop_lru es ks else (Some (victim_of k e), ks)
      | None \<Rightarrow> pop_lru es ks)"

definition evict_lru :: "('k, 'v) cache_shard \<Rightarrow> 'k victim \<times> ('k, 'v) cache_shard" where
  "evict_lru s = (let (v, ks) = pop_lru (cs_entries s) (rev (cs_lru_list s))
                  in (v, s\<lparr>cs_lru_list := rev ks\<rparr>))"

fun heap_pop :: "('k \<times> u64) list \<Rightarrow> (('k \<times> u64) \<times> ('k \<times> u64) list) option" where
  "heap_pop [] = None"
| "heap_pop (x # xs) =
     (case heap_pop xs of
        None \<Rightarrow> Some (x, xs)
      | Some (y, ys) \<Rightarrow> if snd x \<le> snd y then Some (x, xs) else Some (y, x # ys))"

lemma heap_pop_length: "heap_pop xs = Some (y, ys) \<Longrightarrow> length xs = Suc (length ys)"
  by (induction xs arbitrary: y ys) (fastforce split: option.splits if_splits)+

function pop_lfu :: "('k \<times> 'v cache_entry) list \<Rightarrow> ('k \<times> u64) list \<Rightarrow> 'k victim \<times> ('k \<times> u64) list" where
  "pop_lfu es h =
     (case heap_pop h of
        None \<Rightarrow> (None, [])
      | Some ((k, c), h') \<Rightarrow>
          (case map_of es k of
             Some e \<Rightarrow> if is_pinned e then pop_lfu es h' else (Some (victim_of k e), h')
           | None \<Rightarrow> pop_lfu es h'))"
  by pat_completeness auto
termination
  by (relation "measure (\<lambda>(es, h). length h)") (auto dest: heap_pop_length)

declare pop_lfu.simps [simp del]

definition evict_lfu :: "('k, 'v) cache_shard \<Rightarrow> 'k victim \<times> ('k, 'v) cache_shard" where
  "evict_lfu s = (let (v, h) = pop_lfu (cs_entries s) (cs_lfu_heap s) in (v, s\<lparr>cs_lfu_heap := h\<rparr>))"

fun first_unpinned :: "('k \<times> 'v cache_entry) list \<Rightarrow> 'k list \<Rightarrow> 'k victim" where
  "first_unpinned es [] = None"
| "first_unpinned es (k # ks) =
     (case map_of es k of
        Some e \<Rightarrow> if is_pinned e then first_unpinned es ks else Some (victim_of k e)
      | None \<Rightarrow> first_unpinned es ks)"

definition evict_arc :: "('k list \<Rightarrow> 'k list) \<Rightarrow> ('k, 'v) cache_shard \<Rightarrow> 'k victim \<times> ('k, 'v) cache_shard" where
  "evict_arc ord s =
     (let a = cs_arc_state s;
          keys_to_try = ord (if arc_delta_t1 a > arc_delta_t2 a then arc_t2 a else arc_t1 a)
      in case first_unpinned (cs_entries s) keys_to_try of
           None \<Rightarrow> (None, s)
         | Some (k, n, d) \<Rightarrow> (Some (k, n, d), s\<lparr>cs_arc_state := arc_remove k a\<rparr>))"

definition evict_fifo :: "('k list \<Rightarrow> 'k list) \<Rightarrow> ('k, 'v) cache_shard \<Rightarrow> 'k victim \<times> ('k, 'v) cache_shard" where
  "evict_fifo ord s = (first_unpinned (cs_entries s) (ord (map fst (cs_entries s))), s)"

definition evict_lifo :: "('k list \<Rightarrow> 'k list) \<Rightarrow> ('k, 'v) cache_shard \<Rightarrow> 'k victim \<times> ('k, 'v) cache_shard" where
  "evict_lifo ord s = (first_unpinned (cs_entries s) (rev (ord (map fst (cs_entries s)))), s)"

definition choose_victim :: "('k list \<Rightarrow> 'k list) \<Rightarrow> ('k, 'v) cache_shard \<Rightarrow> 'k victim \<times> ('k, 'v) cache_shard" where
  "choose_victim ord s =
     (case cs_policy s of
        Lru \<Rightarrow> evict_lru s
      | Lfu \<Rightarrow> evict_lfu s
      | ArcPolicy \<Rightarrow> evict_arc ord s
      | Fifo \<Rightarrow> evict_fifo ord s
      | Lifo \<Rightarrow> evict_lifo ord s)"

fun evict_loop :: "('k list \<Rightarrow> 'k list) \<Rightarrow> nat \<Rightarrow> nat \<Rightarrow> nat \<Rightarrow> nat \<Rightarrow> nat \<Rightarrow> ('k, 'v) cache_shard \<Rightarrow>
    (cache_error, unit) res \<times> ('k, 'v) cache_shard" where
  "evict_loop ord 0 freed_bytes freed_entries required_bytes required_entries s = (Ok (), s)"
| "evict_loop ord (Suc n) freed_bytes freed_entries required_bytes required_entries s =
     (if required_bytes \<le> freed_bytes \<and> required_entries \<le> freed_entries then (Ok (), s)
      else (case choose_victim ord s of
              (None, s1) \<Rightarrow> (Err CacheFull, s1)
            | (Some (k, sz, dirty), s1) \<Rightarrow>
                if map_of (cs_entries s1) k \<noteq> None then
                  evict_loop ord n (freed_bytes + sz) (freed_entries + 1) required_bytes required_entries
                    (s1\<lparr>cs_entries := AList.delete k (cs_entries s1), cs_stats := stats_evicted sz dirty (cs_stats s1)\<rparr>)
                else evict_loop ord n freed_bytes freed_entries required_bytes required_entries s1))"

definition shard_evict :: "('k list \<Rightarrow> 'k list) \<Rightarrow> nat \<Rightarrow> nat \<Rightarrow> ('k, 'v) cache_shard \<Rightarrow>
    (cache_error, unit) res \<times> ('k, 'v) cache_shard" where
  "shard_evict ord required_bytes required_entries s =
     evict_loop ord (cc_max_entries (cs_config s)) 0 0 required_bytes required_entries s"

section \<open>Insertion, removal, pins\<close>

definition shard_insert_new :: "('k, 'v) cache_shard \<Rightarrow> 'k \<Rightarrow> 'v \<Rightarrow> nat \<Rightarrow> ('k, 'v) cache_shard" where
  "shard_insert_new s key v n =
     update_policy_tracking
       (s\<lparr>cs_entries := AList.update key (cache_entry_new v n) (cs_entries s),
          cs_stats := stats_inserted n (cs_stats s)\<rparr>) key"

definition shard_put :: "('k list \<Rightarrow> 'k list) \<Rightarrow> ('k, 'v) cache_shard \<Rightarrow> 'k \<Rightarrow> 'v \<Rightarrow> nat \<Rightarrow>
    (cache_error, unit) res \<times> ('k, 'v) cache_shard" where
  "shard_put ord s key v n =
     (if cc_max_size (cs_config s) < n then (Err (EntryTooLarge n (cc_max_size (cs_config s))), s)
      else case map_of (cs_entries s) key of
        Some e \<Rightarrow>
          (Ok (), s\<lparr>cs_entries := AList.update key (record_access (e\<lparr>ce_value := v\<rparr>)) (cs_entries s)\<rparr>)
      | None \<Rightarrow>
          (let new_size = st_current_size (cs_stats s) + n;
               new_entries = st_current_entries (cs_stats s) + 1;
               max_size = cc_max_size (cs_config s);
               max_entries = cc_max_entries (cs_config s)
           in case (if max_size < new_size \<or> max_entries < new_entries
                    then shard_evict ord (new_size - max_size) (new_entries - max_entries) s
                    else (Ok (), s)) of
                (Ok _, s1) \<Rightarrow> (Ok (), shard_insert_new s1 key v n)
              | (r, s1) \<Rightarrow> (r, s1)))"

definition shard_invalidate :: "('k, 'v) cache_shard \<Rightarrow> 'k \<Rightarrow> bool \<times> ('k, 'v) cache_shard" where
  "shard_invalidate s key =
     (case map_of (cs_entries s) key of
        Some e \<Rightarrow>
          (True, remove_policy_tracking
             (s\<lparr>cs_entries := AList.delete key (cs_entries s),
                cs_stats := stats_evicted (ce_size e) (ce_dirty e) (cs_stats s)\<rparr>) key)
      | None \<Rightarrow> (False, s))"

definition shard_pin :: "('k, 'v) cache_shard \<Rightarrow> 'k \<Rightarrow> bool \<times> ('k, 'v) cache_shard" where
  "shard_pin s key =
     (case map_of (cs_entries s) key of
        Some e \<Rightarrow> (True, s\<lparr>cs_entries := AList.update key (snd (entry_pin e)) (cs_entries s),
                           cs_stats := (cs_stats s)\<lparr>st_pin_count := st_pin_count (cs_stats s) + 1\<rparr>\<rparr>)
      | None \<Rightarrow> (False, s))"

definition shard_unpin :: "('k, 'v) cache_shard \<Rightarrow> 'k \<Rightarrow> bool \<times> ('k, 'v) cache_shard" where
  "shard_unpin s key =
     (case map_of (cs_entries s) key of
        Some e \<Rightarrow>
          (let (new_count, e') = entry_unpin e
           in (True, s\<lparr>cs_entries := AList.update key e' (cs_entries s),
                       cs_stats := (cs_stats s)\<lparr>st_pin_count := st_pin_count (cs_stats s) -
                                                 (if new_count = 0 then 1 else 0)\<rparr>\<rparr>))
      | None \<Rightarrow> (False, s))"

record clear_result =
  cr_entries_cleared :: nat
  cr_dirty_pages_written :: nat
  cr_memory_freed :: nat

definition shard_clear :: "('k, 'v) cache_shard \<Rightarrow> clear_result \<times> ('k, 'v) cache_shard" where
  "shard_clear s =
     (let result = \<lparr>cr_entries_cleared = length (cs_entries s),
                    cr_dirty_pages_written = length (filter (\<lambda>(k, e). ce_dirty e) (cs_entries s)),
                    cr_memory_freed = st_current_size (cs_stats s)\<rparr>;
          s1 = s\<lparr>cs_entries := [], cs_stats := (cs_stats s)\<lparr>st_current_size := 0, st_current_entries := 0\<rparr>\<rparr>
      in (result,
          case cs_policy s of
            Lru \<Rightarrow> s1\<lparr>cs_lru_list := []\<rparr>
          | Lfu \<Rightarrow> s1\<lparr>cs_lfu_heap := []\<rparr>
          | ArcPolicy \<Rightarrow> s1\<lparr>cs_arc_state := (cs_arc_state s1)\<lparr>arc_t1 := [], arc_t2 := []\<rparr>\<rparr>
          | Fifo \<Rightarrow> s1
          | Lifo \<Rightarrow> s1))"

definition shard_dirty_count :: "('k, 'v) cache_shard \<Rightarrow> nat" where
  "shard_dirty_count s = length (filter (\<lambda>(k, e). ce_dirty e) (cs_entries s))"

section \<open>Lookup and invariant\<close>

definition shard_lookup :: "('k, 'v) cache_shard \<Rightarrow> 'k \<rightharpoonup> 'v" where
  "shard_lookup s k = map_option ce_value (map_of (cs_entries s) k)"

definition entries_size :: "('k \<times> 'v cache_entry) list \<Rightarrow> nat" where
  "entries_size es = sum_list (map (ce_size \<circ> snd) es)"

definition shard_inv :: "('k, 'v) cache_shard \<Rightarrow> bool" where
  "shard_inv s \<longleftrightarrow> distinct (map fst (cs_entries s)) \<and>
     st_current_entries (cs_stats s) = length (cs_entries s) \<and>
     st_current_size (cs_stats s) = entries_size (cs_entries s) \<and>
     arc_t1 (cs_arc_state s) = [] \<and> arc_t2 (cs_arc_state s) = []"

definition shard_bounded :: "('k, 'v) cache_shard \<Rightarrow> bool" where
  "shard_bounded s \<longleftrightarrow> length (cs_entries s) \<le> cc_max_entries (cs_config s) \<and>
     entries_size (cs_entries s) \<le> cc_max_size (cs_config s)"

text \<open>What a step may drop: \<open>sub_entries es es'\<close> says that \<open>es'\<close> has only entries of \<open>es\<close> and
  still has every pinned one.\<close>

definition sub_entries :: "('k \<times> 'v cache_entry) list \<Rightarrow> ('k \<times> 'v cache_entry) list \<Rightarrow> bool" where
  "sub_entries es es' \<longleftrightarrow> (\<forall>k. map_of es' k = map_of es k \<or>
     map_of es' k = None \<and> (\<exists>e. map_of es k = Some e \<and> \<not> is_pinned e))"

lemma sub_entries_refl [simp]: "sub_entries es es"
  by (simp add: sub_entries_def)

lemma sub_entries_trans: "sub_entries a b \<Longrightarrow> sub_entries b c \<Longrightarrow> sub_entries a c"
  unfolding sub_entries_def by metis

lemma sub_entries_delete:
  "map_of es k = Some e \<Longrightarrow> \<not> is_pinned e \<Longrightarrow> sub_entries es (AList.delete k es)"
  by (auto simp: sub_entries_def delete_conv')

lemma update_present:
  assumes "distinct (map fst es)" "map_of es k = Some e"
  shows "length (AList.update k e' es) = length es"
    and "ce_size e' = ce_size e \<Longrightarrow> entries_size (AList.update k e' es) = entries_size es"
  using assms by (induction es) (auto simp: entries_size_def split: if_splits)

lemma update_absent:
  assumes "map_of es k = None"
  shows "AList.update k e es = es @ [(k, e)]"
  using assms by (induction es) (auto split: if_splits)

lemma delete_absent: "map_of es k = None \<Longrightarrow> AList.delete k es = es"
  by (induction es) (auto simp: AList.delete_eq split: if_splits)

lemma delete_present:
  assumes "distinct (map fst es)" "map_of es k = Some e"
  shows "length es = Suc (length (AList.delete k es)) \<and>
         entries_size es = ce_size e + entries_size (AList.delete k es)"
  using assms
proof (induction es)
  case Nil
  then show ?case by simp
next
  case (Cons a es)
  show ?case
  proof (cases "fst a = k")
    case True
    then have "map_of es k = None" using Cons.prems(1) by (auto simp: map_of_eq_None_iff)
    then show ?thesis
      using True Cons.prems delete_absent [of es k] by (cases a) (simp add: entries_size_def AList.delete_eq)
  next
    case False
    then show ?thesis
      using Cons by (cases a) (simp add: entries_size_def AList.delete_eq)
  qed
qed

lemmas entry_defs = entry_pin_def entry_unpin_def record_access_def entry_mark_dirty_def entry_mark_clean_def

lemma entry_sizes [simp]:
  "ce_size (snd (entry_pin e)) = ce_size e" "ce_size (snd (entry_unpin e)) = ce_size e"
  "ce_size (record_access e) = ce_size e" "ce_value (snd (entry_pin e)) = ce_value e"
  "ce_value (snd (entry_unpin e)) = ce_value e" "ce_value (record_access e) = ce_value e"
  "ce_pin_count (record_access e) = ce_pin_count e"
  "is_pinned (record_access e) = is_pinned e"
  by (simp_all add: entry_defs is_pinned_def)

lemma pin_unpin [simp]: "snd (entry_unpin (snd (entry_pin e))) = e"
  by (simp add: entry_defs)

lemma update_policy_tracking_fields [simp]:
  "cs_entries (update_policy_tracking s k) = cs_entries s"
  "cs_policy (update_policy_tracking s k) = cs_policy s"
  "cs_config (update_policy_tracking s k) = cs_config s"
  "cs_stats (update_policy_tracking s k) = cs_stats s"
  "arc_t1 (cs_arc_state (update_policy_tracking s k)) = arc_t1 (cs_arc_state s)"
  "arc_t2 (cs_arc_state (update_policy_tracking s k)) = arc_t2 (cs_arc_state s)"
  by (simp_all add: update_policy_tracking_def Let_def split: cache_policy.splits option.splits)

lemma remove_policy_tracking_fields [simp]:
  "cs_entries (remove_policy_tracking s k) = cs_entries s"
  "cs_policy (remove_policy_tracking s k) = cs_policy s"
  "cs_config (remove_policy_tracking s k) = cs_config s"
  "cs_stats (remove_policy_tracking s k) = cs_stats s"
  "arc_t1 (cs_arc_state s) = [] \<Longrightarrow> arc_t1 (cs_arc_state (remove_policy_tracking s k)) = []"
  "arc_t2 (cs_arc_state s) = [] \<Longrightarrow> arc_t2 (cs_arc_state (remove_policy_tracking s k)) = []"
  by (simp_all add: remove_policy_tracking_def arc_remove_def split: cache_policy.splits)

section \<open>Choosing and evicting a victim\<close>

definition good_victim :: "('k \<times> 'v cache_entry) list \<Rightarrow> 'k \<times> nat \<times> bool \<Rightarrow> bool" where
  "good_victim es v \<longleftrightarrow> (\<exists>e. map_of es (fst v) = Some e \<and> v = victim_of (fst v) e \<and> \<not> is_pinned e)"

lemma good_victim_of: "map_of es k = Some e \<Longrightarrow> \<not> is_pinned e \<Longrightarrow> good_victim es (victim_of k e)"
  by (simp add: good_victim_def victim_of_def)

lemma pop_lru_good: "pop_lru es ks = (Some v, ks') \<Longrightarrow> good_victim es v"
  by (induction es ks arbitrary: ks' rule: pop_lru.induct)
    (auto intro: good_victim_of split: option.splits if_splits)

lemma pop_lfu_good: "pop_lfu es h = (Some v, h') \<Longrightarrow> good_victim es v"
proof (induction es h arbitrary: h' rule: pop_lfu.induct)
  case (1 es h)
  then show ?case
    by (subst (asm) pop_lfu.simps) (auto intro: good_victim_of split: option.splits if_splits prod.splits)
qed

lemma first_unpinned_good: "first_unpinned es ks = Some v \<Longrightarrow> good_victim es v"
  by (induction es ks rule: first_unpinned.induct)
    (auto intro: good_victim_of split: option.splits if_splits)

lemma choose_victim_frame:
  assumes "choose_victim ord s = (v, s1)"
  shows "cs_entries s1 = cs_entries s" "cs_policy s1 = cs_policy s" "cs_config s1 = cs_config s"
    "cs_stats s1 = cs_stats s" "arc_t1 (cs_arc_state s) = [] \<Longrightarrow> arc_t1 (cs_arc_state s1) = []"
    "arc_t2 (cs_arc_state s) = [] \<Longrightarrow> arc_t2 (cs_arc_state s1) = []"
  using assms
  by (auto simp: choose_victim_def evict_lru_def evict_lfu_def evict_arc_def evict_fifo_def evict_lifo_def
      arc_remove_def Let_def split: cache_policy.splits option.splits prod.splits)

lemma choose_victim_good:
  assumes "choose_victim ord s = (Some v, s1)"
  shows "good_victim (cs_entries s) v"
  using assms
  by (auto simp: choose_victim_def evict_lru_def evict_lfu_def evict_arc_def evict_fifo_def evict_lifo_def
      Let_def split: cache_policy.splits option.splits prod.splits
      intro: pop_lru_good pop_lfu_good first_unpinned_good)

lemma evict_step:
  assumes "shard_inv s" "choose_victim ord s = (Some (k, sz, d), s1)"
  defines "s2 \<equiv> s1\<lparr>cs_entries := AList.delete k (cs_entries s1), cs_stats := stats_evicted sz d (cs_stats s1)\<rparr>"
  shows "map_of (cs_entries s1) k \<noteq> None" "shard_inv s2" "sub_entries (cs_entries s) (cs_entries s2)"
    "length (cs_entries s) = length (cs_entries s2) + 1"
    "entries_size (cs_entries s) = entries_size (cs_entries s2) + sz"
    "cs_config s2 = cs_config s" "cs_policy s2 = cs_policy s"
proof -
  note fr = choose_victim_frame [OF assms(2)]
  obtain e where e: "map_of (cs_entries s) k = Some e" "sz = ce_size e" "\<not> is_pinned e"
    using choose_victim_good [OF assms(2)] by (auto simp: good_victim_def victim_of_def)
  have d: "distinct (map fst (cs_entries s))" using assms(1) by (simp add: shard_inv_def)
  note del = delete_present [OF d e(1)]
  show "map_of (cs_entries s1) k \<noteq> None" using e fr by simp
  show "shard_inv s2"
    using assms(1) del fr e by (simp add: shard_inv_def s2_def stats_evicted_def distinct_delete)
  show "sub_entries (cs_entries s) (cs_entries s2)"
    using sub_entries_delete e fr by (simp add: s2_def)
  show "length (cs_entries s) = length (cs_entries s2) + 1"
    "entries_size (cs_entries s) = entries_size (cs_entries s2) + sz"
    "cs_config s2 = cs_config s" "cs_policy s2 = cs_policy s"
    using del fr e by (simp_all add: s2_def)
qed

lemma evict_loop_spec:
  assumes "shard_inv s" "evict_loop ord n fb fe rb re s = (r, s')"
  shows "shard_inv s' \<and> sub_entries (cs_entries s) (cs_entries s') \<and> cs_config s' = cs_config s \<and>
    cs_policy s' = cs_policy s \<and> r \<noteq> Panic \<and>
    (\<exists>m b. length (cs_entries s) = length (cs_entries s') + m \<and>
       entries_size (cs_entries s) = entries_size (cs_entries s') + b \<and>
       (r = Ok () \<longrightarrow> rb \<le> fb + b \<and> re \<le> fe + m \<or> m = n))"
  using assms
proof (induction n arbitrary: fb fe s)
  case 0
  then show ?case by auto
next
  case (Suc n)
  show ?case
  proof (cases "rb \<le> fb \<and> re \<le> fe")
    case True
    then show ?thesis using Suc.prems by auto
  next
    case False
    obtain v s1 where v: "choose_victim ord s = (v, s1)" by (cases "choose_victim ord s")
    note fr = choose_victim_frame [OF v]
    show ?thesis
    proof (cases v)
      case None
      then show ?thesis using Suc.prems v fr False by (auto simp: shard_inv_def)
    next
      case (Some vv)
      obtain k sz d where vv: "vv = (k, sz, d)" by (cases vv)
      define s2 where
        "s2 = s1\<lparr>cs_entries := AList.delete k (cs_entries s1), cs_stats := stats_evicted sz d (cs_stats s1)\<rparr>"
      note st = evict_step [OF Suc.prems(1) v [unfolded Some vv], folded s2_def]
      have "evict_loop ord n (fb + sz) (fe + 1) rb re s2 = (r, s')"
        using Suc.prems(2) False v Some vv st(1) by (auto simp: s2_def)
      from Suc.IH [OF st(2) this] obtain m b where
        "shard_inv s'" "sub_entries (cs_entries s2) (cs_entries s')" "cs_config s' = cs_config s"
        "cs_policy s' = cs_policy s" "r \<noteq> Panic"
        "length (cs_entries s2) = length (cs_entries s') + m"
        "entries_size (cs_entries s2) = entries_size (cs_entries s') + b"
        "r = Ok () \<longrightarrow> rb \<le> fb + sz + b \<and> re \<le> fe + 1 + m \<or> m = n"
        using st by auto
      then show ?thesis using st sub_entries_trans [OF st(3)]
        by (intro conjI exI [of _ "m + 1"] exI [of _ "b + sz"]) auto
    qed
  qed
qed

section \<open>The operations keep the invariant\<close>

lemma shard_insert_new_spec:
  fixes v :: 'v and n :: nat
  assumes "shard_inv s" "map_of (cs_entries s) key = None"
  defines "s' \<equiv> shard_insert_new s key v n"
  shows "shard_inv s'" "cs_config s' = cs_config s" "cs_policy s' = cs_policy s"
    "cs_entries s' = cs_entries s @ [(key, cache_entry_new v n)]"
  using assms
  by (auto simp: shard_inv_def shard_insert_new_def update_absent stats_inserted_def entries_size_def
      cache_entry_new_def map_of_eq_None_iff)

lemma shard_put_existing:
  fixes v :: 'v
  assumes "shard_inv s" "map_of (cs_entries s) key = Some e"
  defines "s' \<equiv> s\<lparr>cs_entries := AList.update key (record_access (e\<lparr>ce_value := v\<rparr>)) (cs_entries s)\<rparr>"
  shows "shard_inv s'" "length (cs_entries s') = length (cs_entries s)"
    "entries_size (cs_entries s') = entries_size (cs_entries s)"
  using assms update_present [of "cs_entries s" key e "record_access (e\<lparr>ce_value := v\<rparr>)"]
  by (auto simp: shard_inv_def distinct_update record_access_def)

lemma shard_put_cases:
  assumes "shard_put ord s key v n = (r, s')"
  obtains (large) "cc_max_size (cs_config s) < n" "r = Err (EntryTooLarge n (cc_max_size (cs_config s)))" "s' = s"
  | (existing) e where "n \<le> cc_max_size (cs_config s)" "map_of (cs_entries s) key = Some e" "r = Ok ()"
      "s' = s\<lparr>cs_entries := AList.update key (record_access (e\<lparr>ce_value := v\<rparr>)) (cs_entries s)\<rparr>"
  | (room) "n \<le> cc_max_size (cs_config s)" "map_of (cs_entries s) key = None"
      "st_current_size (cs_stats s) + n \<le> cc_max_size (cs_config s)"
      "st_current_entries (cs_stats s) < cc_max_entries (cs_config s)"
      "r = Ok ()" "s' = shard_insert_new s key v n"
  | (evicted) s1 where "n \<le> cc_max_size (cs_config s)" "map_of (cs_entries s) key = None"
      "shard_evict ord (st_current_size (cs_stats s) + n - cc_max_size (cs_config s))
         (st_current_entries (cs_stats s) + 1 - cc_max_entries (cs_config s)) s = (Ok (), s1)"
      "r = Ok ()" "s' = shard_insert_new s1 key v n"
  | (full) "n \<le> cc_max_size (cs_config s)" "map_of (cs_entries s) key = None"
      "cc_max_size (cs_config s) < st_current_size (cs_stats s) + n \<or>
       cc_max_entries (cs_config s) < st_current_entries (cs_stats s) + 1"
      "shard_evict ord (st_current_size (cs_stats s) + n - cc_max_size (cs_config s))
         (st_current_entries (cs_stats s) + 1 - cc_max_entries (cs_config s)) s = (r, s')"
      "r \<noteq> Ok ()"
proof (cases "cc_max_size (cs_config s) < n")
  case True
  with assms have "r = Err (EntryTooLarge n (cc_max_size (cs_config s)))" "s' = s"
    by (auto simp: shard_put_def)
  with True show ?thesis by (rule large)
next
  case False
  then have n: "n \<le> cc_max_size (cs_config s)" by simp
  show ?thesis
  proof (cases "map_of (cs_entries s) key")
    case (Some e)
    with assms False have "r = Ok ()"
      "s' = s\<lparr>cs_entries := AList.update key (record_access (e\<lparr>ce_value := v\<rparr>)) (cs_entries s)\<rparr>"
      by (auto simp: shard_put_def)
    with n Some show ?thesis by (rule existing)
  next
    case None
    let ?ev = "shard_evict ord (st_current_size (cs_stats s) + n - cc_max_size (cs_config s))
         (st_current_entries (cs_stats s) + 1 - cc_max_entries (cs_config s)) s"
    show ?thesis
    proof (cases "cc_max_size (cs_config s) < st_current_size (cs_stats s) + n \<or>
        cc_max_entries (cs_config s) < st_current_entries (cs_stats s) + 1")
      case True
      obtain r1 s1 where ev: "?ev = (r1, s1)" by (cases ?ev)
      have put: "(r, s') = (case r1 of Ok _ \<Rightarrow> (Ok (), shard_insert_new s1 key v n) | r \<Rightarrow> (r, s1))"
        using assms False None True ev by (simp add: shard_put_def Let_def)
      show ?thesis
      proof (cases "r1 = Ok ()")
        case True
        then show ?thesis using put ev by (intro evicted [OF n None, of s1]) simp_all
      next
        case False
        then have "r = r1" "s' = s1" using put by (auto split: res.splits)
        then show ?thesis using False ev True full [OF n None] by simp
      qed
    next
      case fits: False
      then have "r = Ok ()" "s' = shard_insert_new s key v n"
        using assms False None by (auto simp: shard_put_def Let_def)
      then show ?thesis using fits by (intro room [OF n None]) simp_all
    qed
  qed
qed

lemma shard_lookup_sub:
  "sub_entries (cs_entries s) (cs_entries s') \<Longrightarrow> shard_lookup s' j \<in> {shard_lookup s j, None}"
  unfolding sub_entries_def shard_lookup_def by (drule spec [of _ j]) auto

lemma shard_put_spec:
  assumes inv: "shard_inv s" and put: "shard_put ord s key v n = (r, s')"
  shows "shard_inv s'" "cs_config s' = cs_config s" "cs_policy s' = cs_policy s"
    "r = Ok () \<Longrightarrow> shard_lookup s' key = Some v"
    "r \<noteq> Ok () \<Longrightarrow> shard_lookup s' key \<in> {shard_lookup s key, None}"
    "j \<noteq> key \<Longrightarrow> shard_lookup s' j \<in> {shard_lookup s j, None}"
    "r \<noteq> Panic"
proof -
  have "shard_inv s' \<and> cs_config s' = cs_config s \<and> cs_policy s' = cs_policy s \<and> r \<noteq> Panic \<and>
    (r = Ok () \<longrightarrow> shard_lookup s' key = Some v) \<and>
    (r \<noteq> Ok () \<longrightarrow> shard_lookup s' key \<in> {shard_lookup s key, None}) \<and>
    (j \<noteq> key \<longrightarrow> shard_lookup s' j \<in> {shard_lookup s j, None})"
    using put
  proof (cases rule: shard_put_cases)
    case large
    then show ?thesis using inv by simp
  next
    case (existing e)
    then show ?thesis
      using shard_put_existing [OF inv existing(2)] by (simp add: shard_lookup_def update_conv')
  next
    case room
    then show ?thesis
      using shard_insert_new_spec [OF inv room(2), of v n]
      by (auto simp: shard_lookup_def map_add_def cache_entry_new_def split: option.splits)
  next
    case (evicted s1)
    note ev = evict_loop_spec [OF inv evicted(3) [unfolded shard_evict_def]]
    have "map_of (cs_entries s1) key = None"
      using ev evicted(2) unfolding sub_entries_def by metis
    then show ?thesis
      using evicted shard_insert_new_spec [of s1 key v n] ev shard_lookup_sub [of s s1 j]
      by (auto simp: shard_lookup_def map_add_def cache_entry_new_def split: option.splits)
  next
    case full
    then show ?thesis
      using evict_loop_spec [OF inv full(4) [unfolded shard_evict_def]]
        shard_lookup_sub [of s s' key] shard_lookup_sub [of s s' j] by simp
  qed
  then show "shard_inv s'" "cs_config s' = cs_config s" "cs_policy s' = cs_policy s"
    "r = Ok () \<Longrightarrow> shard_lookup s' key = Some v"
    "r \<noteq> Ok () \<Longrightarrow> shard_lookup s' key \<in> {shard_lookup s key, None}"
    "j \<noteq> key \<Longrightarrow> shard_lookup s' j \<in> {shard_lookup s j, None}"
    "r \<noteq> Panic" by blast+
qed

lemma shard_put_bounded:
  assumes "shard_inv s" "shard_bounded s" "0 < cc_max_entries (cs_config s)" "shard_put ord s key v n = (r, s')"
  shows "shard_bounded s'"
  using assms(4)
proof (cases rule: shard_put_cases)
  case large
  then show ?thesis using assms by simp
next
  case (existing e)
  then show ?thesis using assms shard_put_existing [OF assms(1) existing(2)] by (simp add: shard_bounded_def)
next
  case room
  then show ?thesis
    using assms shard_insert_new_spec [OF assms(1) room(2), of v n]
    by (simp add: shard_bounded_def shard_inv_def entries_size_def cache_entry_new_def)
next
  case (evicted s1)
  note ev = evict_loop_spec [OF assms(1) evicted(3) [unfolded shard_evict_def]]
  have "map_of (cs_entries s1) key = None" using ev evicted(2) unfolding sub_entries_def by metis
  note ins = shard_insert_new_spec [OF _ this, of v n]
  have "length (cs_entries s1) < cc_max_entries (cs_config s) \<and>
        entries_size (cs_entries s1) + n \<le> cc_max_size (cs_config s)"
    using ev assms(1-3) evicted(1) by (auto simp: shard_inv_def shard_bounded_def entries_size_def)
  then show ?thesis
    using evicted ev ins by (simp add: shard_bounded_def entries_size_def cache_entry_new_def)
next
  case full
  then show ?thesis
    using assms(2) evict_loop_spec [OF assms(1) full(4) [unfolded shard_evict_def]] by (auto simp: shard_bounded_def)
qed

lemma shard_touch_inv:
  assumes "shard_inv s" "map_of (cs_entries s) key = Some e" "ce_size e' = ce_size e"
    "cs_entries s' = AList.update key e' (cs_entries s)" "cs_arc_state s' = cs_arc_state s"
    "st_current_size (cs_stats s') = st_current_size (cs_stats s)"
    "st_current_entries (cs_stats s') = st_current_entries (cs_stats s)" "cs_config s' = cs_config s"
  shows "shard_inv s' \<and> (shard_bounded s \<longrightarrow> shard_bounded s')"
  using assms update_present [of "cs_entries s" key e e']
  by (auto simp: shard_inv_def shard_bounded_def distinct_update)

lemma shard_get_spec:
  assumes "shard_inv s" "shard_get s key = Some (r, s')"
  shows "shard_inv s'" "r = shard_lookup s key" "shard_lookup s' = shard_lookup s"
    "cs_config s' = cs_config s" "cs_policy s' = cs_policy s" "shard_bounded s \<Longrightarrow> shard_bounded s'"
    "length (cs_entries s') = length (cs_entries s)"
proof -
  have "shard_inv s' \<and> r = shard_lookup s key \<and> shard_lookup s' = shard_lookup s \<and>
    cs_config s' = cs_config s \<and> cs_policy s' = cs_policy s \<and> (shard_bounded s \<longrightarrow> shard_bounded s') \<and>
    length (cs_entries s') = length (cs_entries s)"
  proof (cases "map_of (cs_entries s) key")
    case None
    then show ?thesis using assms by (auto simp: shard_get_def shard_lookup_def)
  next
    case (Some e)
    then have s': "cs_entries s' = AList.update key (record_access e) (cs_entries s)"
      "cs_config s' = cs_config s" "cs_policy s' = cs_policy s" "r = Some (ce_value e)"
      "shard_inv s' \<longleftrightarrow> shard_inv (s\<lparr>cs_entries := AList.update key (record_access e) (cs_entries s)\<rparr>)"
      using assms by (auto simp: shard_get_def shard_inv_def Let_def split: if_splits)
    have "shard_inv s'"
      using s' shard_touch_inv [OF assms(1) Some, of "record_access e"] by simp
    moreover have "distinct (map fst (cs_entries s))" using assms(1) by (simp add: shard_inv_def)
    ultimately show ?thesis
      using s' Some update_present [of "cs_entries s" key e "record_access e"]
      by (auto simp: shard_lookup_def fun_eq_iff update_conv' shard_bounded_def)
  qed
  then show "shard_inv s'" "r = shard_lookup s key" "shard_lookup s' = shard_lookup s"
    "cs_config s' = cs_config s" "cs_policy s' = cs_policy s" "shard_bounded s \<Longrightarrow> shard_bounded s'"
    "length (cs_entries s') = length (cs_entries s)" by blast+
qed

lemma shard_invalidate_spec:
  assumes "shard_inv s" "shard_invalidate s key = (b, s')"
  shows "shard_inv s'" "shard_lookup s' key = None" "j \<noteq> key \<Longrightarrow> shard_lookup s' j = shard_lookup s j"
    "cs_config s' = cs_config s" "cs_policy s' = cs_policy s" "shard_bounded s \<Longrightarrow> shard_bounded s'"
    "length (cs_entries s') \<le> length (cs_entries s)" "b \<longleftrightarrow> shard_lookup s key \<noteq> None"
proof -
  have d: "distinct (map fst (cs_entries s))" using assms(1) by (simp add: shard_inv_def)
  have "shard_inv s' \<and> shard_lookup s' key = None \<and> (j \<noteq> key \<longrightarrow> shard_lookup s' j = shard_lookup s j) \<and>
    cs_config s' = cs_config s \<and> cs_policy s' = cs_policy s \<and> (shard_bounded s \<longrightarrow> shard_bounded s') \<and>
    length (cs_entries s') \<le> length (cs_entries s) \<and> (b \<longleftrightarrow> shard_lookup s key \<noteq> None)"
  proof (cases "map_of (cs_entries s) key")
    case None
    then show ?thesis using assms by (auto simp: shard_invalidate_def shard_lookup_def)
  next
    case (Some e)
    then show ?thesis
      using assms delete_present [OF d Some]
      by (auto simp: shard_invalidate_def shard_lookup_def shard_inv_def shard_bounded_def stats_evicted_def
          distinct_delete delete_conv')
  qed
  then show "shard_inv s'" "shard_lookup s' key = None" "j \<noteq> key \<Longrightarrow> shard_lookup s' j = shard_lookup s j"
    "cs_config s' = cs_config s" "cs_policy s' = cs_policy s" "shard_bounded s \<Longrightarrow> shard_bounded s'"
    "length (cs_entries s') \<le> length (cs_entries s)" "b \<longleftrightarrow> shard_lookup s key \<noteq> None" by blast+
qed

lemma shard_pin_spec:
  assumes "shard_inv s" "(b, s') = shard_pin s key \<or> (b, s') = shard_unpin s key"
  shows "shard_inv s'" "shard_lookup s' = shard_lookup s" "cs_config s' = cs_config s"
    "cs_policy s' = cs_policy s" "shard_bounded s \<Longrightarrow> shard_bounded s'" "length (cs_entries s') = length (cs_entries s)"
proof -
  have d: "distinct (map fst (cs_entries s))" using assms(1) by (simp add: shard_inv_def)
  have "shard_inv s' \<and> shard_lookup s' = shard_lookup s \<and> cs_config s' = cs_config s \<and>
    cs_policy s' = cs_policy s \<and> (shard_bounded s \<longrightarrow> shard_bounded s') \<and> length (cs_entries s') = length (cs_entries s)"
  proof (cases "map_of (cs_entries s) key")
    case None
    then show ?thesis using assms by (auto simp: shard_pin_def shard_unpin_def)
  next
    case (Some e)
    obtain e' where e': "cs_entries s' = AList.update key e' (cs_entries s)" "ce_size e' = ce_size e"
      "ce_value e' = ce_value e" "cs_arc_state s' = cs_arc_state s" "cs_config s' = cs_config s"
      "cs_policy s' = cs_policy s" "st_current_size (cs_stats s') = st_current_size (cs_stats s)"
      "st_current_entries (cs_stats s') = st_current_entries (cs_stats s)"
      using assms(2) Some
      by (auto simp: shard_pin_def shard_unpin_def Let_def case_prod_beta)
    then show ?thesis
      using shard_touch_inv [OF assms(1) Some] update_present [OF d Some] Some
      by (auto simp: shard_lookup_def fun_eq_iff update_conv')
  qed
  then show "shard_inv s'" "shard_lookup s' = shard_lookup s" "cs_config s' = cs_config s"
    "cs_policy s' = cs_policy s" "shard_bounded s \<Longrightarrow> shard_bounded s'" "length (cs_entries s') = length (cs_entries s)"
    by blast+
qed

lemma shard_clear_spec:
  assumes "shard_inv s" "shard_clear s = (r, s')"
  shows "shard_inv s'" "shard_bounded s'" "shard_lookup s' = Map.empty" "cs_config s' = cs_config s"
    "cs_policy s' = cs_policy s" "cr_memory_freed r = entries_size (cs_entries s)"
proof -
  have "shard_inv s' \<and> shard_bounded s' \<and> shard_lookup s' = Map.empty \<and> cs_config s' = cs_config s \<and>
    cs_policy s' = cs_policy s \<and> cr_memory_freed r = entries_size (cs_entries s)"
    using assms
    by (cases "cs_policy s")
      (auto simp: shard_clear_def shard_inv_def shard_bounded_def entries_size_def shard_lookup_def Let_def)
  then show "shard_inv s'" "shard_bounded s'" "shard_lookup s' = Map.empty" "cs_config s' = cs_config s"
    "cs_policy s' = cs_policy s" "cr_memory_freed r = entries_size (cs_entries s)" by blast+
qed

lemma shard_new_inv [inv_rules]: "shard_inv (shard_new p c i)" "shard_bounded (shard_new p c i)"
  by (simp_all add: shard_inv_def shard_bounded_def shard_new_def cache_stats_new_def arc_state_new_def entries_size_def)

section \<open>Runs of a shard\<close>

text \<open>Any sequence of calls on a shard; a call that never returns has no successor.\<close>

inductive shard_step :: "('k list \<Rightarrow> 'k list) \<Rightarrow> ('k, 'v) cache_shard \<Rightarrow> ('k, 'v) cache_shard \<Rightarrow> bool"
  for ord where
  get: "shard_get s k = Some (r, s') \<Longrightarrow> shard_step ord s s'"
| put: "shard_put ord s k v n = (r, s') \<Longrightarrow> shard_step ord s s'"
| invalidate: "shard_invalidate s k = (b, s') \<Longrightarrow> shard_step ord s s'"
| pin: "shard_pin s k = (b, s') \<Longrightarrow> shard_step ord s s'"
| unpin: "shard_unpin s k = (b, s') \<Longrightarrow> shard_step ord s s'"
| clear: "shard_clear s = (r, s') \<Longrightarrow> shard_step ord s s'"

lemma shard_step_inv:
  assumes "shard_step ord s s'" "shard_inv s"
  shows "shard_inv s' \<and> cs_config s' = cs_config s \<and> cs_policy s' = cs_policy s \<and>
    (0 < cc_max_entries (cs_config s) \<longrightarrow> shard_bounded s \<longrightarrow> shard_bounded s')"
  using assms
proof (cases rule: shard_step.cases)
  case (get k r)
  then show ?thesis using shard_get_spec [OF assms(2)] by blast
next
  case (put k v n r)
  then show ?thesis using shard_put_spec(1-3) [OF assms(2) put(1)] shard_put_bounded [OF assms(2) _ _ put(1)] by blast
next
  case (invalidate k b)
  then show ?thesis using shard_invalidate_spec [OF assms(2)] by blast
next
  case (pin k b)
  then show ?thesis using shard_pin_spec [OF assms(2), of b s' k] by simp
next
  case (unpin k b)
  then show ?thesis using shard_pin_spec [OF assms(2), of b s' k] by simp
next
  case (clear r)
  then show ?thesis using shard_clear_spec [OF assms(2)] by blast
qed

lemma shard_run_inv:
  assumes "(shard_step ord)\<^sup>*\<^sup>* s s'" "shard_inv s"
  shows "shard_inv s' \<and> cs_config s' = cs_config s \<and> cs_policy s' = cs_policy s \<and>
    (0 < cc_max_entries (cs_config s) \<longrightarrow> shard_bounded s \<longrightarrow> shard_bounded s')"
  using assms by (induction rule: rtranclp_induct) (auto dest: shard_step_inv)

text \<open>
  C18. In every state a cache shard can reach from \<open>CacheShard::new\<close>, whatever its policy and the
  iteration order of its maps, the entry and byte counters are exactly the number and total size of
  the cached entries, no key is cached twice, and neither limit of the configuration is exceeded.
\<close>

theorem cache_accounting:
  assumes "(shard_step ord)\<^sup>*\<^sup>* (shard_new p c i) s" "0 < cc_max_entries c"
  shows "distinct (map fst (cs_entries s)) \<and>
    st_current_entries (cs_stats s) = length (cs_entries s) \<and>
    st_current_size (cs_stats s) = sum_list (map (ce_size \<circ> snd) (cs_entries s)) \<and>
    length (cs_entries s) \<le> cc_max_entries c \<and>
    st_current_size (cs_stats s) \<le> cc_max_size c"
  using shard_run_inv [OF assms(1) shard_new_inv(1)] assms(2) shard_new_inv(2) [of p c i]
  by (auto simp: shard_inv_def shard_bounded_def entries_size_def shard_new_def)

definition small_config :: "cache_policy \<Rightarrow> cache_config" where
  "small_config p = \<lparr>cc_max_size = 100, cc_max_entries = Suc 0, cc_policy = p, cc_shard_count = 1,
     cc_enable_stats = True, cc_enable_prefetch = True, cc_ttl_ms = None, cc_write_back = True,
     cc_write_back_interval_ms = 1000\<rparr>"

lemmas shard_eval = small_config_def shard_put_def shard_new_def cache_stats_new_def
  arc_state_new_def shard_evict_def evict_loop.simps choose_victim_def evict_lru_def evict_arc_def victim_of_def
  shard_insert_new_def update_policy_tracking_def stats_inserted_def stats_evicted_def cache_entry_new_def
  is_pinned_def Let_def

theorem cache_accounting_witness:
  "\<exists>s :: (nat, nat) cache_shard. shard_put (\<lambda>ks. ks)
       (snd (shard_put (\<lambda>ks. ks) (shard_new Lru (small_config Lru) 0) 1 10 60)) 2 20 70 = (Ok (), s) \<and>
     map fst (cs_entries s) = [2] \<and> st_current_entries (cs_stats s) \<le> 1 \<and>
     st_current_size (cs_stats s) = sum_list (map (ce_size \<circ> snd) (cs_entries s))"
proof -
  let ?s0 = "shard_new Lru (small_config Lru) 0 :: (nat, nat) cache_shard"
  let ?s1 = "snd (shard_put (\<lambda>ks. ks) ?s0 1 10 60)"
  obtain r s where s: "shard_put (\<lambda>ks. ks) ?s1 2 20 70 = (r, s)" by (cases "shard_put (\<lambda>ks. ks) ?s1 2 20 70")
  have "shard_step (\<lambda>ks. ks) ?s0 ?s1"
    by (rule shard_step.put [of _ _ 1 10 60 "fst (shard_put (\<lambda>ks. ks) ?s0 1 10 60)"]) simp
  moreover have "shard_step (\<lambda>ks. ks) ?s1 s" using s by (rule shard_step.put)
  ultimately have "(shard_step (\<lambda>ks. ks))\<^sup>*\<^sup>* ?s0 s" by simp
  note acc = cache_accounting [OF this]
  have "r = Ok () \<and> map fst (cs_entries s) = [2]" using s by (auto simp: shard_eval)
  then show ?thesis using s acc by (auto simp: small_config_def)
qed

text \<open>
  A shard with the ARC policy, which the page cache uses, never evicts anything: no operation
  ever enters a key into the lists from which \<open>evict_arc\<close> chooses its victims. Once the number of
  entries has reached the limit, every insertion of another key fails with \<open>CacheFull\<close> and leaves
  the shard as it was.
\<close>

theorem arc_never_evicts:
  assumes "\<And>ks. mset (ord ks) = mset ks"
    and "(shard_step ord)\<^sup>*\<^sup>* (shard_new ArcPolicy c i) s" "0 < cc_max_entries c"
    and "length (cs_entries s) = cc_max_entries c" "k \<notin> fst ` set (cs_entries s)" "n \<le> cc_max_size c"
  shows "shard_put ord s k v n = (Err CacheFull, s)"
proof -
  have s: "shard_inv s" "cs_config s = c" "cs_policy s = ArcPolicy"
    using shard_run_inv [OF assms(2) shard_new_inv(1)] by (simp_all add: shard_new_def)
  have "ord [] = []" using assms(1) [of "[]"] by simp
  then have victim: "choose_victim ord s = (None, s)"
    using s by (simp add: choose_victim_def evict_arc_def shard_inv_def Let_def)
  obtain m where m: "cc_max_entries c = Suc m" using assms(3) by (cases "cc_max_entries c") auto
  have none: "map_of (cs_entries s) k = None" using assms(5) by (simp add: map_of_eq_None_iff)
  have "shard_evict ord b (Suc 0) s = (Err CacheFull, s)" for b
    using s m victim by (simp add: shard_evict_def)
  then show ?thesis
    using s assms(4,6) m none by (simp add: shard_put_def shard_inv_def Let_def)
qed

theorem arc_never_evicts_witness:
  "shard_put (\<lambda>ks. ks)
     (snd (shard_put (\<lambda>ks. ks) (shard_new ArcPolicy (small_config ArcPolicy) 0) (1 :: nat) (10 :: nat) 60)) 2 20 30 =
   (Err CacheFull, snd (shard_put (\<lambda>ks. ks) (shard_new ArcPolicy (small_config ArcPolicy) 0) 1 10 60))"
proof -
  let ?s0 = "shard_new ArcPolicy (small_config ArcPolicy) 0 :: (nat, nat) cache_shard"
  let ?s1 = "snd (shard_put (\<lambda>ks. ks) ?s0 1 10 60)"
  have "shard_step (\<lambda>ks. ks) ?s0 ?s1"
    by (rule shard_step.put [of _ _ 1 10 60 "fst (shard_put (\<lambda>ks. ks) ?s0 1 10 60)"]) simp
  then have run: "(shard_step (\<lambda>ks. ks))\<^sup>*\<^sup>* ?s0 ?s1" by simp
  have "length (cs_entries ?s1) = 1" "2 \<notin> fst ` set (cs_entries ?s1)"
    by (simp_all add: shard_eval)
  then show ?thesis
    using arc_never_evicts [OF _ run, of 2 30 20] by (simp add: small_config_def)
qed

text \<open>
  \<open>CacheShard::unpin\<close> on an entry that was just inserted (the cache inserts unpinned, and the
  pager unpins after every insertion) wraps the pin count around to \<open>2 ^ 64 - 1\<close>. From then on the
  entry counts as pinned, so no eviction, whatever it is asked to free, ever removes it.
\<close>

theorem unpin_after_insert_pins_forever:
  assumes "shard_inv s" "shard_lookup s key = None" "shard_put ord s key v n = (Ok (), s1)"
    and "shard_unpin s1 key = (b, s2)" "shard_evict ord' rb re s2 = (r, s3)"
  shows "\<exists>e. map_of (cs_entries s3) key = Some e \<and> unat (ce_pin_count e) = 2 ^ 64 - 1 \<and>
    ce_value e = v \<and> is_pinned e"
proof -
  have none: "map_of (cs_entries s) key = None" using assms(2) by (simp add: shard_lookup_def)
  obtain s0 where s1: "s1 = shard_insert_new s0 key v n" "shard_inv s0" "map_of (cs_entries s0) key = None"
    using assms(3)
  proof (cases rule: shard_put_cases)
    case room
    then show ?thesis using that assms(1) by blast
  next
    case (evicted s')
    note ev = evict_loop_spec [OF assms(1) evicted(3) [unfolded shard_evict_def]]
    then have "map_of (cs_entries s') key = None" using none unfolding sub_entries_def by metis
    then show ?thesis using that evicted(5) ev by blast
  qed (use none in auto)
  have inv1: "shard_inv s1" using shard_put_spec(1) [OF assms(1,3)] .
  have e1: "map_of (cs_entries s1) key = Some (cache_entry_new v n)"
    using shard_insert_new_spec(4) [OF s1(2,3), of v n] s1 by (simp add: map_add_def split: option.splits)
  let ?e = "snd (entry_unpin (cache_entry_new v n))"
  have e2: "map_of (cs_entries s2) key = Some ?e"
    using assms(4) e1 by (auto simp: shard_unpin_def Let_def case_prod_beta update_conv')
  have pin: "ce_pin_count ?e = - 1" "ce_value ?e = v"
    by (simp_all add: entry_unpin_def cache_entry_new_def)
  then have pinned: "is_pinned ?e" by (simp add: is_pinned_def word_gt_0)
  have "shard_inv s2" using shard_pin_spec(1) [OF inv1, of b s2 key] assms(4) by simp
  then have "sub_entries (cs_entries s2) (cs_entries s3)"
    using evict_loop_spec assms(5) unfolding shard_evict_def by blast
  then have "map_of (cs_entries s3) key = Some ?e"
    using e2 pinned unfolding sub_entries_def by (metis option.inject option.simps(3))
  then show ?thesis using pin pinned by (auto simp: unat_minus_one)
qed

theorem unpin_after_insert_pins_forever_witness:
  "\<exists>s e. s = snd (shard_evict (\<lambda>ks. ks) 0 1
      (snd (shard_unpin (snd (shard_put (\<lambda>ks. ks) (shard_new Fifo (small_config Fifo) 0) (1 :: nat) (10 :: nat) 60)) 1))) \<and>
     map_of (cs_entries s) 1 = Some e \<and> unat (ce_pin_count e) = 2 ^ 64 - 1"
proof -
  let ?s0 = "shard_new Fifo (small_config Fifo) 0 :: (nat, nat) cache_shard"
  let ?s1 = "snd (shard_put (\<lambda>ks. ks) ?s0 1 10 60)"
  let ?s2 = "snd (shard_unpin ?s1 1)"
  have "shard_put (\<lambda>ks. ks) ?s0 1 10 60 = (Ok (), ?s1)" by (simp add: shard_eval)
  moreover have "shard_unpin ?s1 1 = (fst (shard_unpin ?s1 1), ?s2)" by simp
  moreover have "shard_evict (\<lambda>ks. ks) 0 1 ?s2 =
      (fst (shard_evict (\<lambda>ks. ks) 0 1 ?s2), snd (shard_evict (\<lambda>ks. ks) 0 1 ?s2))" by simp
  ultimately show ?thesis
    using unpin_after_insert_pins_forever [OF shard_new_inv(1), of Fifo "small_config Fifo" 0 1 "\<lambda>ks. ks" 10 60 ?s1]
    by (fastforce simp: shard_lookup_def shard_new_def)
qed

end
