(* ===== verification/Page_Cache.thy ===== *)
theory Page_Cache
  imports Cache_Shard Page
begin

text \<open>
  The sharded cache of \<^verbatim>\<open>cache/mod.rs\<close> and the page cache of \<^verbatim>\<open>cache/page.rs\<close> on top of it. The
  shard of a key is chosen by the standard library's hasher, whose algorithm is unspecified: it is
  the parameter \<open>hash\<close>, about which nothing is assumed. The write-back task, which only exists in
  builds with the \<open>async\<close> feature and whose body writes nothing, and the hit rate, a floating point
  number of the statistics, are left out.

  The locale \<open>value_cache\<close> states what a client may rely on: a successful insertion is seen, other
  keys keep their value or are dropped, a removed key is gone. Its lemmas say how a client keeps the
  cache in agreement with the store behind it.
\<close>

section \<open>The contract of a cache\<close>

definition agrees :: "('k \<rightharpoonup> 'v) \<Rightarrow> ('k \<rightharpoonup> 'v) \<Rightarrow> bool" where
  "agrees look store \<longleftrightarrow> (\<forall>k v. look k = Some v \<longrightarrow> store k = Some v)"

locale value_cache =
  fixes lookup :: "'c \<Rightarrow> 'k \<rightharpoonup> 'v"
    and inv :: "'c \<Rightarrow> bool"
    and put :: "'c \<Rightarrow> 'k \<Rightarrow> 'v \<Rightarrow> bool \<times> 'c"
    and remove :: "'c \<Rightarrow> 'k \<Rightarrow> 'c"
  assumes put_inv: "inv c \<Longrightarrow> put c k v = (ok, c') \<Longrightarrow> inv c'"
    and put_same: "inv c \<Longrightarrow> put c k v = (ok, c') \<Longrightarrow> lookup c' k \<in> (if ok then {Some v} else {None, lookup c k})"
    and put_other: "inv c \<Longrightarrow> put c k v = (ok, c') \<Longrightarrow> j \<noteq> k \<Longrightarrow> lookup c' j \<in> {None, lookup c j}"
    and remove_inv: "inv c \<Longrightarrow> inv (remove c k)"
    and remove_same: "inv c \<Longrightarrow> lookup (remove c k) k = None"
    and remove_other: "inv c \<Longrightarrow> j \<noteq> k \<Longrightarrow> lookup (remove c k) j = lookup c j"
begin

lemma put_agrees:
  assumes "inv c" "agrees (lookup c) store" "store k = Some v" "put c k v = (ok, c')"
  shows "agrees (lookup c') store"
  unfolding agrees_def
proof (intro allI impI)
  fix j w assume w: "lookup c' j = Some w"
  have "lookup c' j = lookup c j \<or> j = k \<and> lookup c' j = Some v"
    using put_same [OF assms(1,4)] put_other [OF assms(1,4), of j] w
    by (cases "j = k") (auto split: if_splits)
  then show "store j = Some w" using w assms(2,3) unfolding agrees_def by metis
qed

lemma replace_agrees:
  assumes "inv c" "agrees (lookup c) store" "put (remove c k) k v = (ok, c')"
  shows "agrees (lookup c') (store(k \<mapsto> v))" "inv c'"
proof -
  have "agrees (lookup (remove c k)) (store(k \<mapsto> v))"
    unfolding agrees_def
  proof (intro allI impI)
    fix j w assume "lookup (remove c k) j = Some w"
    then show "(store(k \<mapsto> v)) j = Some w"
      using remove_same [OF assms(1), of k] remove_other [OF assms(1), of j k] assms(2)
      by (cases "j = k") (auto simp: agrees_def)
  qed
  then show "agrees (lookup c') (store(k \<mapsto> v))"
    using put_agrees [OF remove_inv [OF assms(1)] _ _ assms(3)] by simp
  show "inv c'" using put_inv [OF remove_inv [OF assms(1)] assms(3)] .
qed

lemma remove_agrees:
  assumes "inv c" "agrees (lookup c) store"
  shows "agrees (lookup (remove c k)) (store(k := u))"
  unfolding agrees_def
proof (intro allI impI)
  fix j w assume "lookup (remove c k) j = Some w"
  then show "(store(k := u)) j = Some w"
    using remove_same [OF assms(1), of k] remove_other [OF assms(1), of j k] assms(2)
    by (cases "j = k") (auto simp: agrees_def)
qed

end

interpretation shard_cache: value_cache shard_lookup shard_inv
  "\<lambda>s k v. case shard_put ord s k v n of (r, s') \<Rightarrow> (is_ok r, s')" "\<lambda>s k. snd (shard_invalidate s k)"
  for ord :: "'k list \<Rightarrow> 'k list" and n
proof unfold_locales
  fix c c' :: "('k, 'v) cache_shard" and k j v ok
  assume inv: "shard_inv c"
  { assume "(case shard_put ord c k v n of (r, s') \<Rightarrow> (is_ok r, s')) = (ok, c')"
    then obtain r where r: "shard_put ord c k v n = (r, c')" "ok = is_ok r"
      by (auto split: prod.splits)
    note spec = shard_put_spec [OF inv r(1)]
    show "shard_inv c'" by (rule spec)
    show "shard_lookup c' k \<in> (if ok then {Some v} else {None, shard_lookup c k})"
      using spec(4,5) r(2) by (auto simp: is_ok_iff)
    show "j \<noteq> k \<Longrightarrow> shard_lookup c' j \<in> {None, shard_lookup c j}" using spec(6) by auto }
  note inval = shard_invalidate_spec [OF inv, of k "fst (shard_invalidate c k)" "snd (shard_invalidate c k)"]
  show "shard_inv (snd (shard_invalidate c k))" "shard_lookup (snd (shard_invalidate c k)) k = None"
    "j \<noteq> k \<Longrightarrow> shard_lookup (snd (shard_invalidate c k)) j = shard_lookup c j"
    using inval by simp_all
qed

section \<open>The sharded cache\<close>

record ('k, 'v) cache =
  ch_shards :: "('k, 'v) cache_shard list"
  ch_config :: cache_config

text \<open>\<open>config.validate().unwrap()\<close> panics on an invalid configuration.\<close>

definition cache_with_config :: "cache_config \<Rightarrow> (error, ('k, 'v) cache) res" where
  "cache_with_config c =
     (case cache_config_validate c of
        Ok _ \<Rightarrow> Ok \<lparr>ch_shards = map (shard_new (cc_policy c) c) [0..<cc_shard_count c], ch_config = c\<rparr>
      | Err _ \<Rightarrow> Panic
      | Panic \<Rightarrow> Panic)"

definition shard_index :: "('k \<Rightarrow> nat) \<Rightarrow> ('k, 'v) cache \<Rightarrow> 'k \<Rightarrow> nat" where
  "shard_index hash c k = hash k mod length (ch_shards c)"

definition key_shard :: "('k \<Rightarrow> nat) \<Rightarrow> ('k, 'v) cache \<Rightarrow> 'k \<Rightarrow> ('k, 'v) cache_shard" where
  "key_shard hash c k = ch_shards c ! shard_index hash c k"

definition set_shard :: "('k \<Rightarrow> nat) \<Rightarrow> ('k, 'v) cache \<Rightarrow> 'k \<Rightarrow> ('k, 'v) cache_shard \<Rightarrow> ('k, 'v) cache" where
  "set_shard hash c k s = c\<lparr>ch_shards := (ch_shards c)[shard_index hash c k := s]\<rparr>"

definition cache_get :: "('k \<Rightarrow> nat) \<Rightarrow> ('k, 'v) cache \<Rightarrow> 'k \<Rightarrow> ('v option \<times> ('k, 'v) cache) option" where
  "cache_get hash c k =
     map_option (\<lambda>(v, s). (v, set_shard hash c k s)) (shard_get (key_shard hash c k) k)"

definition cache_put :: "('k \<Rightarrow> nat) \<Rightarrow> ('k list \<Rightarrow> 'k list) \<Rightarrow> ('k, 'v) cache \<Rightarrow> 'k \<Rightarrow> 'v \<Rightarrow> nat \<Rightarrow>
    (cache_error, unit) res \<times> ('k, 'v) cache" where
  "cache_put hash ord c k v n =
     (let (r, s) = shard_put ord (key_shard hash c k) k v n in (r, set_shard hash c k s))"

definition cache_invalidate :: "('k \<Rightarrow> nat) \<Rightarrow> ('k, 'v) cache \<Rightarrow> 'k \<Rightarrow> bool \<times> ('k, 'v) cache" where
  "cache_invalidate hash c k =
     (let (b, s) = shard_invalidate (key_shard hash c k) k in (b, set_shard hash c k s))"

definition cache_pin :: "('k \<Rightarrow> nat) \<Rightarrow> ('k, 'v) cache \<Rightarrow> 'k \<Rightarrow> bool \<times> ('k, 'v) cache" where
  "cache_pin hash c k = (let (b, s) = shard_pin (key_shard hash c k) k in (b, set_shard hash c k s))"

definition cache_unpin :: "('k \<Rightarrow> nat) \<Rightarrow> ('k, 'v) cache \<Rightarrow> 'k \<Rightarrow> bool \<times> ('k, 'v) cache" where
  "cache_unpin hash c k = (let (b, s) = shard_unpin (key_shard hash c k) k in (b, set_shard hash c k s))"

definition add_clear_result :: "clear_result \<Rightarrow> clear_result \<Rightarrow> clear_result" where
  "add_clear_result a b =
     \<lparr>cr_entries_cleared = cr_entries_cleared a + cr_entries_cleared b,
      cr_dirty_pages_written = cr_dirty_pages_written a + cr_dirty_pages_written b,
      cr_memory_freed = cr_memory_freed a + cr_memory_freed b\<rparr>"

definition cache_clear :: "('k, 'v) cache \<Rightarrow> clear_result \<times> ('k, 'v) cache" where
  "cache_clear c =
     (foldl add_clear_result \<lparr>cr_entries_cleared = 0, cr_dirty_pages_written = 0, cr_memory_freed = 0\<rparr>
        (map (\<lambda>s. fst (shard_clear s)) (ch_shards c)),
      c\<lparr>ch_shards := map (\<lambda>s. snd (shard_clear s)) (ch_shards c)\<rparr>)"

section \<open>The page cache\<close>

definition DEFAULT_MAX_BYTES :: nat where "DEFAULT_MAX_BYTES = 256 * 1024 * 1024"

record page_cache =
  pc_cache :: "(page_id, bytes) cache"
  pc_dirty_pages :: "page_id list"
  pc_config :: cache_config

definition page_cache_with_config :: "cache_config \<Rightarrow> page_cache outcome" where
  "page_cache_with_config c =
     and_then (cache_with_config c) (\<lambda>ch. Ok \<lparr>pc_cache = ch, pc_dirty_pages = [], pc_config = c\<rparr>)"

definition page_cache_config :: "nat \<Rightarrow> cache_config" where
  "page_cache_config num_cpus = (cache_config_default num_cpus)
     \<lparr>cc_max_size := DEFAULT_MAX_BYTES, cc_max_entries := DEFAULT_MAX_BYTES div PAGE_SIZE,
      cc_policy := ArcPolicy\<rparr>"

definition page_cache_new :: "nat \<Rightarrow> page_cache outcome" where
  "page_cache_new num_cpus = page_cache_with_config (page_cache_config num_cpus)"

definition pc_get :: "(page_id \<Rightarrow> nat) \<Rightarrow> page_cache \<Rightarrow> page_id \<Rightarrow> (bytes option \<times> page_cache) option" where
  "pc_get hash c p = map_option (\<lambda>(v, ch). (v, c\<lparr>pc_cache := ch\<rparr>)) (cache_get hash (pc_cache c) p)"

definition cache_error_message :: "cache_error \<Rightarrow> string" where
  "cache_error_message e =
     (case e of
        EntryTooLarge n m \<Rightarrow> ''EntryTooLarge { size: '' @ fmt_nat n @ '', max_size: '' @ fmt_nat m @ '' }''
      | CacheFull \<Rightarrow> ''CacheFull''
      | Poisoned \<Rightarrow> ''Poisoned''
      | InvalidConfig m \<Rightarrow> ''InvalidConfig('' @ [char_of (34 :: nat)] @ m @ [char_of (34 :: nat)] @ '')''
      | WriteBackFailed \<Rightarrow> ''WriteBackFailed'')"

definition pc_put :: "(page_id \<Rightarrow> nat) \<Rightarrow> (page_id list \<Rightarrow> page_id list) \<Rightarrow> page_cache \<Rightarrow> page_id \<Rightarrow> bytes \<Rightarrow>
    unit outcome \<times> page_cache" where
  "pc_put hash ord c p data =
     (if length data \<noteq> PAGE_SIZE then (Err (Validation (InvalidHeaderSize PAGE_SIZE (length data))), c)
      else (case cache_put hash ord (pc_cache c) p data PAGE_SIZE of
              (Ok _, ch) \<Rightarrow> (Ok (), c\<lparr>pc_cache := ch\<rparr>)
            | (Err e, ch) \<Rightarrow>
                (Err (Validation (ValidationGeneric (''Cache error: '' @ cache_error_message e))), c\<lparr>pc_cache := ch\<rparr>)
            | (Panic, ch) \<Rightarrow> (Panic, c\<lparr>pc_cache := ch\<rparr>)))"

definition pc_mark_dirty :: "page_cache \<Rightarrow> page_id \<Rightarrow> page_cache" where
  "pc_mark_dirty c p = c\<lparr>pc_dirty_pages := List.insert p (pc_dirty_pages c)\<rparr>"

definition pc_is_dirty :: "page_cache \<Rightarrow> page_id \<Rightarrow> bool" where
  "pc_is_dirty c p \<longleftrightarrow> p \<in> set (pc_dirty_pages c)"

definition pc_invalidate :: "(page_id \<Rightarrow> nat) \<Rightarrow> page_cache \<Rightarrow> page_id \<Rightarrow> bool \<times> page_cache" where
  "pc_invalidate hash c p =
     (let (removed, ch) = cache_invalidate hash (pc_cache c) p
      in (removed, c\<lparr>pc_cache := ch, pc_dirty_pages := removeAll p (pc_dirty_pages c)\<rparr>))"

definition pc_remove :: "(page_id \<Rightarrow> nat) \<Rightarrow> page_cache \<Rightarrow> page_id \<Rightarrow> bool \<times> page_cache" where
  "pc_remove hash c p = pc_invalidate hash c p"

definition pc_pin :: "(page_id \<Rightarrow> nat) \<Rightarrow> page_cache \<Rightarrow> page_id \<Rightarrow> bool \<times> page_cache" where
  "pc_pin hash c p = (let (b, ch) = cache_pin hash (pc_cache c) p in (b, c\<lparr>pc_cache := ch\<rparr>))"

definition pc_unpin :: "(page_id \<Rightarrow> nat) \<Rightarrow> page_cache \<Rightarrow> page_id \<Rightarrow> bool \<times> page_cache" where
  "pc_unpin hash c p = (let (b, ch) = cache_unpin hash (pc_cache c) p in (b, c\<lparr>pc_cache := ch\<rparr>))"

definition pc_clear :: "page_cache \<Rightarrow> clear_result \<times> page_cache" where
  "pc_clear c = (let (r, ch) = cache_clear (pc_cache c) in (r, c\<lparr>pc_cache := ch, pc_dirty_pages := []\<rparr>))"

definition pc_contains :: "(page_id \<Rightarrow> nat) \<Rightarrow> page_cache \<Rightarrow> page_id \<Rightarrow> (bool \<times> page_cache) option" where
  "pc_contains hash c p = map_option (\<lambda>(v, c'). (v \<noteq> None, c')) (pc_get hash c p)"

definition pc_dirty_count :: "page_cache \<Rightarrow> nat" where
  "pc_dirty_count c = length (pc_dirty_pages c)"

text \<open>\<open>flush_dirty_pages\<close>, with the pages in the order the set yields them; \<open>write_fn\<close> has its own state.\<close>

fun flush_pages :: "(page_id \<Rightarrow> nat) \<Rightarrow> ('w \<Rightarrow> page_id \<Rightarrow> bytes \<Rightarrow> unit outcome \<times> 'w) \<Rightarrow> page_id list \<Rightarrow> nat \<Rightarrow>
    page_cache \<Rightarrow> 'w \<Rightarrow> (nat outcome \<times> page_cache \<times> 'w) option" where
  "flush_pages hash write_fn [] written c w = Some (Ok written, c, w)"
| "flush_pages hash write_fn (p # ps) written c w =
     (case pc_get hash c p of
        None \<Rightarrow> None
      | Some (None, c1) \<Rightarrow> flush_pages hash write_fn ps written c1 w
      | Some (Some data, c1) \<Rightarrow>
          (case write_fn w p data of
             (Ok _, w1) \<Rightarrow>
               flush_pages hash write_fn ps (written + 1)
                 (snd (pc_unpin hash (c1\<lparr>pc_dirty_pages := removeAll p (pc_dirty_pages c1)\<rparr>) p)) w1
           | (Err e, w1) \<Rightarrow> Some (Err e, c1, w1)
           | (Panic, w1) \<Rightarrow> Some (Panic, c1, w1)))"

definition flush_dirty_pages :: "(page_id \<Rightarrow> nat) \<Rightarrow> (page_id list \<Rightarrow> page_id list) \<Rightarrow>
    ('w \<Rightarrow> page_id \<Rightarrow> bytes \<Rightarrow> unit outcome \<times> 'w) \<Rightarrow> page_cache \<Rightarrow> 'w \<Rightarrow> (nat outcome \<times> page_cache \<times> 'w) option" where
  "flush_dirty_pages hash ord write_fn c w = flush_pages hash write_fn (ord (pc_dirty_pages c)) 0 c w"

section \<open>Lemmas on the sharded cache\<close>

definition cache_inv :: "('k, 'v) cache \<Rightarrow> bool" where
  "cache_inv c \<longleftrightarrow> ch_shards c \<noteq> [] \<and> (\<forall>s \<in> set (ch_shards c). shard_inv s \<and> cs_policy s \<noteq> Lfu)"

definition cache_lookup :: "('k \<Rightarrow> nat) \<Rightarrow> ('k, 'v) cache \<Rightarrow> 'k \<rightharpoonup> 'v" where
  "cache_lookup hash c k = shard_lookup (key_shard hash c k) k"

text \<open>Every shard can take \<open>n\<close> more entries of \<open>sz\<close> bytes without evicting.\<close>

definition shard_room :: "nat \<Rightarrow> nat \<Rightarrow> ('k, 'v) cache_shard \<Rightarrow> bool" where
  "shard_room sz n s \<longleftrightarrow> st_current_entries (cs_stats s) + n \<le> cc_max_entries (cs_config s) \<and>
     st_current_size (cs_stats s) + n * sz \<le> cc_max_size (cs_config s) \<and> sz \<le> cc_max_size (cs_config s)"

definition cache_room :: "nat \<Rightarrow> nat \<Rightarrow> ('k, 'v) cache \<Rightarrow> bool" where
  "cache_room sz n c \<longleftrightarrow> (\<forall>s \<in> set (ch_shards c). shard_room sz n s)"

lemma shard_index_less: "ch_shards c \<noteq> [] \<Longrightarrow> shard_index hash c k < length (ch_shards c)"
  by (simp add: shard_index_def)

lemma key_shard_mem: "ch_shards c \<noteq> [] \<Longrightarrow> key_shard hash c k \<in> set (ch_shards c)"
  by (simp add: key_shard_def shard_index_less)

lemma key_shard_set:
  "ch_shards c \<noteq> [] \<Longrightarrow>
   key_shard hash (set_shard hash c k s) j =
     (if shard_index hash c j = shard_index hash c k then s else key_shard hash c j)"
  using shard_index_less [of c hash k]
  by (simp add: key_shard_def set_shard_def shard_index_def)

lemma key_shard_eq: "shard_index hash c j = shard_index hash c k \<Longrightarrow> key_shard hash c j = key_shard hash c k"
  by (simp add: key_shard_def)

lemma cache_lookup_set_same:
  assumes "ch_shards c \<noteq> []" "shard_lookup s = shard_lookup (key_shard hash c k)"
  shows "cache_lookup hash (set_shard hash c k s) = cache_lookup hash c"
proof
  fix j
  show "cache_lookup hash (set_shard hash c k s) j = cache_lookup hash c j"
    using assms key_shard_eq [of hash c j k]
    by (cases "shard_index hash c j = shard_index hash c k") (simp_all add: cache_lookup_def key_shard_set)
qed

lemma set_shard_all:
  assumes "\<forall>s \<in> set (ch_shards c). P s" "P s"
  shows "\<forall>s \<in> set (ch_shards (set_shard hash c k s)). P s"
  using assms set_update_subset_insert [of "ch_shards c" "shard_index hash c k" s]
  by (auto simp: set_shard_def)

lemma set_shard_inv:
  "cache_inv c \<Longrightarrow> shard_inv s \<Longrightarrow> cs_policy s \<noteq> Lfu \<Longrightarrow> cache_inv (set_shard hash c k s)"
  unfolding cache_inv_def by (intro conjI set_shard_all) (simp_all add: set_shard_def)

lemma cache_inv_shard:
  "cache_inv c \<Longrightarrow> shard_inv (key_shard hash c k) \<and> cs_policy (key_shard hash c k) \<noteq> Lfu"
  using key_shard_mem [of c hash k] by (simp add: cache_inv_def)

lemma cache_inv_shards: "cache_inv c \<Longrightarrow> ch_shards c \<noteq> []"
  by (simp add: cache_inv_def)

lemma set_shard_room: "cache_room sz n c \<Longrightarrow> shard_room sz n s \<Longrightarrow> cache_room sz n (set_shard hash c k s)"
  unfolding cache_room_def by (rule set_shard_all)

lemma key_shard_room: "cache_inv c \<Longrightarrow> cache_room sz n c \<Longrightarrow> shard_room sz n (key_shard hash c k)"
  using key_shard_mem [of c hash k] by (simp add: cache_inv_def cache_room_def)

lemma shard_room_same:
  assumes "shard_room sz n s" "st_current_entries (cs_stats s') = st_current_entries (cs_stats s)"
    "st_current_size (cs_stats s') = st_current_size (cs_stats s)" "cs_config s' = cs_config s"
  shows "shard_room sz n s'"
  using assms by (simp add: shard_room_def)

lemma cache_put_spec:
  assumes "cache_inv c" "cache_put hash ord c k v n = (r, c')"
  shows "cache_inv c'" "cache_lookup hash c' k \<in> (if is_ok r then {Some v} else {None, cache_lookup hash c k})"
    "j \<noteq> k \<Longrightarrow> cache_lookup hash c' j \<in> {None, cache_lookup hash c j}" "r \<noteq> Panic"
proof -
  let ?s = "key_shard hash c k"
  note ne = cache_inv_shards [OF assms(1)]
  obtain s where s: "shard_put ord ?s k v n = (r, s)" "c' = set_shard hash c k s"
    using assms(2) by (auto simp: cache_put_def Let_def split: prod.splits)
  note inv = cache_inv_shard [OF assms(1), of hash k]
  note spec = shard_put_spec [OF inv [THEN conjunct1] s(1)]
  show "cache_inv c'" using s set_shard_inv [OF assms(1) spec(1)] spec(3) inv by simp
  show "cache_lookup hash c' k \<in> (if is_ok r then {Some v} else {None, cache_lookup hash c k})"
    using s spec(4,5) assms(1) by (auto simp: cache_lookup_def key_shard_set [OF ne] is_ok_iff)
  show "r \<noteq> Panic" by (rule spec(7))
  show "cache_lookup hash c' j \<in> {None, cache_lookup hash c j}" if "j \<noteq> k"
  proof (cases "shard_index hash c j = shard_index hash c k")
    case True
    then show ?thesis
      using s spec(6) [OF that] assms(1) key_shard_eq [OF True] by (auto simp: cache_lookup_def key_shard_set [OF ne])
  next
    case False
    then show ?thesis using s by (simp add: cache_lookup_def key_shard_set [OF ne])
  qed
qed

lemma cache_invalidate_spec:
  assumes "cache_inv c" "cache_invalidate hash c k = (b, c')"
  shows "cache_inv c'" "cache_lookup hash c' k = None" "j \<noteq> k \<Longrightarrow> cache_lookup hash c' j = cache_lookup hash c j"
proof -
  let ?s = "key_shard hash c k"
  note ne = cache_inv_shards [OF assms(1)]
  obtain s where s: "shard_invalidate ?s k = (b, s)" "c' = set_shard hash c k s"
    using assms(2) by (auto simp: cache_invalidate_def Let_def split: prod.splits)
  note inv = cache_inv_shard [OF assms(1), of hash k]
  note spec = shard_invalidate_spec [OF inv [THEN conjunct1] s(1)]
  show "cache_inv c'" using s set_shard_inv [OF assms(1) spec(1)] spec(5) inv by simp
  show "cache_lookup hash c' k = None" using s spec(2) by (simp add: cache_lookup_def key_shard_set [OF ne])
  show "cache_lookup hash c' j = cache_lookup hash c j" if "j \<noteq> k"
    using s spec(3) [OF that] assms(1) key_shard_eq [of hash c j k]
    by (auto simp: cache_lookup_def key_shard_set [OF ne])
qed

lemma cache_get_spec:
  assumes "cache_inv c"
  obtains c' where "cache_get hash c k = Some (cache_lookup hash c k, c')" "cache_inv c'"
    "cache_lookup hash c' = cache_lookup hash c" "\<And>sz n. cache_room sz n c \<Longrightarrow> cache_room sz n c'"
proof -
  let ?s = "key_shard hash c k"
  note ne = cache_inv_shards [OF assms]
  note inv = cache_inv_shard [OF assms, of hash k]
  obtain r s where s: "shard_get ?s k = Some (r, s)"
    using inv by (cases "map_of (cs_entries ?s) k") (auto simp: shard_get_def Let_def)
  note spec = shard_get_spec [OF inv [THEN conjunct1] s]
  let ?c = "set_shard hash c k s"
  show ?thesis
  proof (rule that [of ?c])
    show "cache_get hash c k = Some (cache_lookup hash c k, ?c)"
      using s spec(2) by (simp add: cache_get_def cache_lookup_def)
    show "cache_inv ?c" using set_shard_inv [OF assms spec(1)] spec(5) inv by simp
    show "cache_lookup hash ?c = cache_lookup hash c" by (rule cache_lookup_set_same [OF ne spec(3)])
    have same: "st_current_entries (cs_stats s) = st_current_entries (cs_stats ?s)"
      "st_current_size (cs_stats s) = st_current_size (cs_stats ?s)" "cs_config s = cs_config ?s"
      using s by (auto simp: shard_get_def Let_def split: option.splits if_splits)
    show "cache_room sz n ?c" if "cache_room sz n c" for sz n
      using set_shard_room [OF that shard_room_same [OF key_shard_room [OF assms that] same]] .
  qed
qed

lemma cache_unpin_spec:
  assumes "cache_inv c" "cache_unpin hash c k = (b, c')"
  shows "cache_inv c'" "cache_lookup hash c' = cache_lookup hash c" "cache_room sz n c \<Longrightarrow> cache_room sz n c'"
proof -
  let ?s = "key_shard hash c k"
  note ne = cache_inv_shards [OF assms(1)]
  obtain s where s: "shard_unpin ?s k = (b, s)" "c' = set_shard hash c k s"
    using assms(2) by (auto simp: cache_unpin_def Let_def split: prod.splits)
  note inv = cache_inv_shard [OF assms(1), of hash k]
  have spec: "shard_inv s" "shard_lookup s = shard_lookup ?s" "cs_policy s = cs_policy ?s"
    using shard_pin_spec [OF inv [THEN conjunct1], of b s k] s by simp_all
  show "cache_inv c'" using s set_shard_inv [OF assms(1) spec(1)] spec(3) inv by simp
  show "cache_lookup hash c' = cache_lookup hash c"
    unfolding s(2) by (rule cache_lookup_set_same [OF ne spec(2)])
  have same: "st_current_entries (cs_stats s) = st_current_entries (cs_stats ?s)"
    "st_current_size (cs_stats s) = st_current_size (cs_stats ?s)" "cs_config s = cs_config ?s"
    using s(1) by (auto simp: shard_unpin_def Let_def case_prod_beta split: option.splits)
  show "cache_room sz n c'" if "cache_room sz n c"
    unfolding s(2) using set_shard_room [OF that shard_room_same [OF key_shard_room [OF assms(1) that] same]] .
qed

lemma shard_put_room:
  assumes "shard_inv s" "shard_room sz (Suc n) s"
  shows "\<exists>s'. shard_put ord s k v sz = (Ok (), s') \<and> shard_room sz n s'"
proof (cases "map_of (cs_entries s) k")
  case None
  then show ?thesis using assms
    by (auto simp: shard_put_def shard_room_def shard_insert_new_def stats_inserted_def Let_def)
next
  case (Some e)
  then show ?thesis using assms by (auto simp: shard_put_def shard_room_def)
qed

lemma shard_room_less: "shard_room sz n s \<Longrightarrow> m \<le> n \<Longrightarrow> shard_room sz m s"
  unfolding shard_room_def using mult_le_mono1 [of m n sz] by linarith

lemma cache_put_room:
  assumes "cache_inv c" "cache_room sz (Suc n) c"
  shows "\<exists>c'. cache_put hash ord c k v sz = (Ok (), c') \<and> cache_room sz n c'"
proof -
  let ?s = "key_shard hash c k"
  have "shard_room sz (Suc n) ?s" using key_shard_room assms .
  then obtain s where s: "shard_put ord ?s k v sz = (Ok (), s)" "shard_room sz n s"
    using shard_put_room [OF cache_inv_shard [OF assms(1), THEN conjunct1]] by metis
  have "cache_room sz n c"
    using assms(2) unfolding cache_room_def by (meson shard_room_less le_SucI order_refl)
  then have "cache_room sz n (set_shard hash c k s)" using s(2) by (rule set_shard_room)
  then show ?thesis using s(1) by (simp add: cache_put_def)
qed

lemma cache_invalidate_room:
  assumes "cache_inv c" "cache_room sz n c" "cache_invalidate hash c k = (b, c')"
  shows "cache_room sz n c'"
proof -
  let ?s = "key_shard hash c k"
  obtain s where s: "shard_invalidate ?s k = (b, s)" "c' = set_shard hash c k s"
    using assms(3) by (auto simp: cache_invalidate_def Let_def split: prod.splits)
  have "shard_room sz n ?s" using key_shard_room assms(1,2) .
  then have "shard_room sz n s"
    using s(1) by (auto simp: shard_invalidate_def shard_room_def stats_evicted_def split: option.splits)
  then show ?thesis using set_shard_room [OF assms(2)] s(2) by simp
qed

section \<open>The page cache meets the contract\<close>

definition pc_inv :: "page_cache \<Rightarrow> bool" where
  "pc_inv c \<longleftrightarrow> cache_inv (pc_cache c)"

definition pc_lookup :: "(page_id \<Rightarrow> nat) \<Rightarrow> page_cache \<Rightarrow> page_id \<rightharpoonup> bytes" where
  "pc_lookup hash c = cache_lookup hash (pc_cache c)"

definition pc_room :: "nat \<Rightarrow> page_cache \<Rightarrow> bool" where
  "pc_room n c \<longleftrightarrow> cache_room PAGE_SIZE n (pc_cache c)"

lemma pc_put_is_ok:
  assumes "pc_inv c" "pc_put hash ord c p d = (r, c')"
  shows "pc_inv c'" "pc_lookup hash c' p \<in> (if is_ok r then {Some d} else {None, pc_lookup hash c p})"
    "j \<noteq> p \<Longrightarrow> pc_lookup hash c' j \<in> {None, pc_lookup hash c j}"
proof -
  have "pc_inv c' \<and> pc_lookup hash c' p \<in> (if is_ok r then {Some d} else {None, pc_lookup hash c p}) \<and>
    (j \<noteq> p \<longrightarrow> pc_lookup hash c' j \<in> {None, pc_lookup hash c j})"
  proof (cases "length d = PAGE_SIZE")
    case False
    then show ?thesis using assms by (auto simp: pc_put_def)
  next
    case True
    obtain q ch where q: "cache_put hash ord (pc_cache c) p d PAGE_SIZE = (q, ch)"
      by (cases "cache_put hash ord (pc_cache c) p d PAGE_SIZE")
    note spec = cache_put_spec [OF assms(1) [unfolded pc_inv_def] q]
    have "c' = c\<lparr>pc_cache := ch\<rparr>" "is_ok r = is_ok q"
      using assms(2) True q by (auto simp: pc_put_def split: res.splits)
    then show ?thesis using spec(1,2) spec(3) [of j] by (auto simp: pc_inv_def pc_lookup_def split: if_splits)
  qed
  then show "pc_inv c'" "pc_lookup hash c' p \<in> (if is_ok r then {Some d} else {None, pc_lookup hash c p})"
    "j \<noteq> p \<Longrightarrow> pc_lookup hash c' j \<in> {None, pc_lookup hash c j}" by blast+
qed

lemma pc_put_dom:
  assumes "pc_inv c" "pc_put hash ord c p d = (r, c')"
  shows "dom (pc_lookup hash c') \<subseteq> insert p (dom (pc_lookup hash c))"
proof
  fix q assume "q \<in> dom (pc_lookup hash c')"
  then show "q \<in> insert p (dom (pc_lookup hash c))"
    using pc_put_is_ok(3) [OF assms, of q] by (cases "q = p") (auto simp: dom_def)
qed

lemma pc_remove_spec:
  assumes "pc_inv c"
  shows "pc_inv (snd (pc_remove hash c p))" "pc_lookup hash (snd (pc_remove hash c p)) p = None"
    "j \<noteq> p \<Longrightarrow> pc_lookup hash (snd (pc_remove hash c p)) j = pc_lookup hash c j"
    "pc_room n c \<Longrightarrow> pc_room n (snd (pc_remove hash c p))"
  using cache_invalidate_spec [of "pc_cache c" hash p] cache_invalidate_room [of "pc_cache c" PAGE_SIZE n hash p] assms
  by (auto simp: pc_remove_def pc_invalidate_def pc_inv_def pc_lookup_def pc_room_def Let_def split: prod.splits)

lemma pc_remove_dom: "pc_inv c \<Longrightarrow> dom (pc_lookup hash (snd (pc_remove hash c p))) \<subseteq> dom (pc_lookup hash c)"
  using pc_remove_spec(2,3) [of c] by (auto simp: dom_def) (metis option.simps(3))

interpretation pages: value_cache "pc_lookup hash" pc_inv
  "\<lambda>c p d. case pc_put hash ord c p d of (r, c') \<Rightarrow> (is_ok r, c')" "\<lambda>c p. snd (pc_remove hash c p)"
  for hash ord
proof unfold_locales
  fix c c' k j v ok
  assume inv: "pc_inv c"
  { assume "(case pc_put hash ord c k v of (r, c') \<Rightarrow> (is_ok r, c')) = (ok, c')"
    then obtain r where r: "pc_put hash ord c k v = (r, c')" "ok = is_ok r" by (auto split: prod.splits)
    note spec = pc_put_is_ok [OF inv r(1)]
    show "pc_inv c'" "pc_lookup hash c' k \<in> (if ok then {Some v} else {None, pc_lookup hash c k})"
      "j \<noteq> k \<Longrightarrow> pc_lookup hash c' j \<in> {None, pc_lookup hash c j}"
      using spec r(2) by auto }
qed (use pc_remove_spec in auto)

lemma pc_get_spec:
  assumes "pc_inv c"
  obtains c' where "pc_get hash c p = Some (pc_lookup hash c p, c')" "pc_inv c'"
    "pc_lookup hash c' = pc_lookup hash c" "\<And>n. pc_room n c \<Longrightarrow> pc_room n c'"
proof -
  obtain ch where ch: "cache_get hash (pc_cache c) p = Some (cache_lookup hash (pc_cache c) p, ch)" "cache_inv ch"
    "cache_lookup hash ch = cache_lookup hash (pc_cache c)"
    "\<And>sz n. cache_room sz n (pc_cache c) \<Longrightarrow> cache_room sz n ch"
    using cache_get_spec [OF assms [unfolded pc_inv_def]] by metis
  show ?thesis
    by (rule that [of "c\<lparr>pc_cache := ch\<rparr>"]) (use ch in \<open>auto simp: pc_get_def pc_lookup_def pc_inv_def pc_room_def\<close>)
qed

lemma pc_unpin_spec:
  assumes "pc_inv c"
  shows "pc_inv (snd (pc_unpin hash c p))" "pc_lookup hash (snd (pc_unpin hash c p)) = pc_lookup hash c"
    "pc_room n c \<Longrightarrow> pc_room n (snd (pc_unpin hash c p))"
  using cache_unpin_spec [of "pc_cache c" hash p] assms
  by (auto simp: pc_unpin_def pc_inv_def pc_lookup_def pc_room_def Let_def split: prod.splits)

lemma pc_put_room:
  assumes "pc_inv c" "pc_room (Suc n) c" "length d = PAGE_SIZE"
  shows "\<exists>c'. pc_put hash ord c p d = (Ok (), c') \<and> pc_room n c'"
  using cache_put_room [of "pc_cache c" PAGE_SIZE n hash ord p d] assms
  by (auto simp: pc_put_def pc_inv_def pc_room_def)

lemma page_cache_new_Ok:
  "page_cache_new n = (if usize_is_power_of_two n
     then Ok \<lparr>pc_cache = \<lparr>ch_shards = map (shard_new ArcPolicy (page_cache_config n)) [0..<n],
                          ch_config = page_cache_config n\<rparr>,
              pc_dirty_pages = [], pc_config = page_cache_config n\<rparr>
     else Panic)"
  by (simp add: page_cache_new_def page_cache_with_config_def cache_with_config_def cache_config_validate_def
      page_cache_config_def cache_config_default_def DEFAULT_MAX_BYTES_def PAGE_SIZE_def)

end
