(* ===== verification/Overflow_Page.thy ===== *)
theory Overflow_Page
  imports Page Node
begin

text \<open>
  \<^verbatim>\<open>btree/overflow.rs\<close>: the pages that hold values too large for a leaf, and the two encodings of
  a stored value.
\<close>

definition OVERFLOW_MAGIC :: u32 where "OVERFLOW_MAGIC = 0x4F56464C"
definition INLINE_THRESHOLD :: nat where "INLINE_THRESHOLD = 2000"
definition OVERFLOW_MAX_VALUE_SIZE :: nat where "OVERFLOW_MAX_VALUE_SIZE = 16777215"
definition OVERFLOW_DATA_SIZE :: nat where "OVERFLOW_DATA_SIZE = 16332"

record overflow_page =
  ov_magic :: u32
  ov_next_page :: u64
  ov_data :: bytes

definition overflow_new :: overflow_page where
  "overflow_new = \<lparr>ov_magic = OVERFLOW_MAGIC, ov_next_page = 0, ov_data = []\<rparr>"

definition overflow_with_data :: "bytes \<Rightarrow> u64 \<Rightarrow> overflow_page" where
  "overflow_with_data d next_page = \<lparr>ov_magic = OVERFLOW_MAGIC, ov_next_page = next_page, ov_data = d\<rparr>"

definition set_next_page :: "page_id \<Rightarrow> overflow_page \<Rightarrow> overflow_page" where
  "set_next_page p o' = o'\<lparr>ov_next_page := p\<rparr>"

definition overflow_is_last :: "overflow_page \<Rightarrow> bool" where
  "overflow_is_last o' \<longleftrightarrow> ov_next_page o' = 0"

definition overflow_validate :: "overflow_page \<Rightarrow> unit outcome" where
  "overflow_validate o' =
     (if ov_magic o' \<noteq> OVERFLOW_MAGIC then
        Err (Validation (ValidationGeneric (''Invalid overflow page magic: expected 0x'' @ fmt_hex8 OVERFLOW_MAGIC @
          '', got 0x'' @ fmt_hex8 (ov_magic o'))))
      else if OVERFLOW_DATA_SIZE < length (ov_data o') then
        Err (Validation (ValidationGeneric (''Overflow page data too large: '' @ fmt_nat (length (ov_data o')) @
          '' bytes (max '' @ fmt_nat OVERFLOW_DATA_SIZE @ '')'')))
      else Ok ())"

definition overflow_to_bytes :: "overflow_page \<Rightarrow> bytes" where
  "overflow_to_bytes o' = le32 (ov_magic o') @ le64 (ov_next_page o') @ ov_data o'"

definition overflow_from_bytes :: "bytes \<Rightarrow> overflow_page outcome" where
  "overflow_from_bytes bs =
     (if length bs < 12 then
        Err (Validation (ValidationGeneric (''Overflow page payload too short: '' @ fmt_nat (length bs) @ '' bytes (min 12)'')))
      else
        let o' = \<lparr>ov_magic = from_le (subslice 0 4 bs), ov_next_page = from_le (subslice 4 8 bs), ov_data = drop 12 bs\<rparr>
        in and_then (overflow_validate o') (\<lambda>_. Ok o'))"

definition pages_needed :: "nat \<Rightarrow> nat" where
  "pages_needed value_length =
     (if value_length = 0 then 0 else (value_length + OVERFLOW_DATA_SIZE - 1) div OVERFLOW_DATA_SIZE)"

definition should_store_inline :: "nat \<Rightarrow> bool" where
  "should_store_inline value_length \<longleftrightarrow> value_length \<le> INLINE_THRESHOLD"

datatype value_storage = InlineV bytes | OverflowV page_id

fun value_encode :: "value_storage \<Rightarrow> bytes" where
  "value_encode (InlineV v) = le16 (word_of_nat (length v)) @ v"
| "value_encode (OverflowV p) = le16 OVERFLOW_VALUE_MARKER @ le64 p"

definition value_decode :: "bytes \<Rightarrow> value_storage outcome" where
  "value_decode bs =
     (if length bs < 2 then
        Err (Validation (ValidationGeneric (''Value storage too short: '' @ fmt_nat (length bs) @ '' bytes (min 2)'')))
      else
        let value_len = (from_le (subslice 0 2 bs) :: u16) in
        if value_len = OVERFLOW_VALUE_MARKER then
          if length bs < 10 then
            Err (Validation (ValidationGeneric
              (''Overflow reference too short: '' @ fmt_nat (length bs) @ '' bytes (expected 10)'')))
          else Ok (OverflowV (from_le (subslice 2 8 bs)))
        else if length bs < 2 + unat value_len then Panic
        else Ok (InlineV (subslice 2 (unat value_len) bs)))"

fun encoded_len :: "value_storage \<Rightarrow> nat" where
  "encoded_len (InlineV v) = 2 + length v"
| "encoded_len (OverflowV p) = 10"

text \<open>The test \<open>is_overflow_value\<close> of the insert, search and delete modules.\<close>

definition is_overflow_value :: "entry \<Rightarrow> bool" where
  "is_overflow_value e \<longleftrightarrow>
     length (en_value e) = 10 \<and> (from_le (subslice 0 2 (en_value e)) :: u16) = OVERFLOW_VALUE_MARKER"

definition get_overflow_page_id :: "entry \<Rightarrow> page_id option" where
  "get_overflow_page_id e =
     (if is_overflow_value e then
        (case value_decode (en_value e) of Ok (OverflowV p) \<Rightarrow> Some p | _ \<Rightarrow> None)
      else None)"

section \<open>Lemmas\<close>

lemmas overflow_consts = OVERFLOW_MAGIC_def INLINE_THRESHOLD_def OVERFLOW_MAX_VALUE_SIZE_def OVERFLOW_DATA_SIZE_def

lemma overflow_from_to_bytes:
  "overflow_validate o' = Ok () \<Longrightarrow> overflow_from_bytes (overflow_to_bytes o') = Ok o'"
  by (cases o') (simp add: overflow_from_bytes_def overflow_to_bytes_def subslice_def Let_def)

lemma length_overflow_to_bytes: "length (overflow_to_bytes o') = 12 + length (ov_data o')"
  by (simp add: overflow_to_bytes_def)

lemma overflow_validate_Ok:
  "overflow_validate o' = Ok () \<longleftrightarrow> ov_magic o' = OVERFLOW_MAGIC \<and> length (ov_data o') \<le> OVERFLOW_DATA_SIZE"
  by (auto simp: overflow_validate_def)

lemma value_decode_overflow: "value_decode (value_encode (OverflowV p)) = Ok (OverflowV p)"
  by (simp add: value_decode_def subslice_def)

lemma overflow_reference_recognised:
  "is_overflow_value \<lparr>en_key = k, en_value = value_encode (OverflowV p), en_lsn = l\<rparr>"
  "get_overflow_page_id \<lparr>en_key = k, en_value = value_encode (OverflowV p), en_lsn = l\<rparr> = Some p"
  using value_decode_overflow [of p]
  by (simp_all add: is_overflow_value_def get_overflow_page_id_def subslice_def)

end
