(* ===== verification/Procs.thy ===== *)
theory Procs
  imports Errors
begin

text \<open>
  Fallible operations on a state that they change in place, as Rust methods with \<open>&mut self\<close> that
  return a \<open>Result\<close>: the state is returned on every path, also when the operation fails part way.
  \<open>then_do\<close> is the \<open>?\<close> operator, \<open>try_do\<close> the \<open>if let Ok(..)\<close> that ignores an error.
\<close>

type_synonym ('s, 'a) proc = "'s \<Rightarrow> 'a outcome \<times> 's"

definition ret :: "'a \<Rightarrow> ('s, 'a) proc" where
  "ret a s = (Ok a, s)"

definition raise :: "error \<Rightarrow> ('s, 'a) proc" where
  "raise e s = (Err e, s)"

definition pure_res :: "'a outcome \<Rightarrow> ('s, 'a) proc" where
  "pure_res r s = (r, s)"

definition then_do :: "('s, 'a) proc \<Rightarrow> ('a \<Rightarrow> ('s, 'b) proc) \<Rightarrow> ('s, 'b) proc" where
  "then_do m f s =
     (case m s of
        (Ok a, s') \<Rightarrow> f a s'
      | (Err e, s') \<Rightarrow> (Err e, s')
      | (Panic, s') \<Rightarrow> (Panic, s'))"

definition try_do :: "('s, 'a) proc \<Rightarrow> ('a \<Rightarrow> ('s, 'b) proc) \<Rightarrow> ('s, 'b) proc \<Rightarrow> ('s, 'b) proc" where
  "try_do m f g s =
     (case m s of
        (Ok a, s') \<Rightarrow> f a s'
      | (Err e, s') \<Rightarrow> g s'
      | (Panic, s') \<Rightarrow> (Panic, s'))"

fun for_each :: "'a list \<Rightarrow> ('a \<Rightarrow> ('s, unit) proc) \<Rightarrow> ('s, unit) proc" where
  "for_each [] f = ret ()"
| "for_each (x # xs) f = then_do (f x) (\<lambda>_. for_each xs f)"

lemma ret_apply [simp]: "ret a s = (Ok a, s)"
  by (simp add: ret_def)

lemma raise_apply [simp]: "raise e s = (Err e, s)"
  by (simp add: raise_def)

lemma pure_res_apply [simp]: "pure_res r s = (r, s)"
  by (simp add: pure_res_def)

lemma then_do_Ok: "m s = (Ok a, s') \<Longrightarrow> then_do m f s = f a s'"
  by (simp add: then_do_def)

lemma then_do_Err: "m s = (Err e, s') \<Longrightarrow> then_do m f s = (Err e, s')"
  by (simp add: then_do_def)

lemma then_do_simps [simp]:
  "then_do (ret a) f s = f a s" "then_do (raise e) f s = (Err e, s)"
  "then_do (pure_res (Ok a)) f s = f a s" "then_do (pure_res (Err e)) f s = (Err e, s)"
  "then_do (pure_res Panic) f s = (Panic, s)"
  by (simp_all add: then_do_def)

lemma then_do_OkD:
  "then_do m f s = (Ok b, s'') \<Longrightarrow> \<exists>a s'. m s = (Ok a, s') \<and> f a s' = (Ok b, s'')"
  by (auto simp: then_do_def split: prod.splits res.splits)

lemma try_do_Ok: "m s = (Ok a, s') \<Longrightarrow> try_do m f g s = f a s'"
  by (simp add: try_do_def)

lemma try_do_Err: "m s = (Err e, s') \<Longrightarrow> try_do m f g s = g s'"
  by (simp add: try_do_def)

end
