(* ===== verification/Cached_Pager.thy ===== *)
theory Cached_Pager
  imports Pager Page_Cache Overflow_Page Procs
begin

text \<open>
  The rest of \<^verbatim>\<open>pager/pager.rs\<close>: the pager with its page cache, reading and writing B+tree nodes
  through it, and the chains of overflow pages. The record \<open>cpager\<close> is \<open>Pager\<close>; its field
  \<open>cg_pager\<close> holds the parts that the theory \<open>Pager\<close> models. The prefetch queue is left out: it
  collects hints for a background loader and no result depends on it.

  The record \<open>env\<close> collects what comes from outside the sources: the CRC-32C function, the standard
  hasher, the iteration order of hash maps and the number of processors.
\<close>

record env =
  env_crc :: "bytes \<Rightarrow> u32"
  env_hash :: "page_id \<Rightarrow> nat"
  env_ord :: "page_id list \<Rightarrow> page_id list"
  env_num_cpus :: nat

record cpager =
  cg_pager :: pager
  cg_cache :: page_cache

abbreviation cg_storage :: "cpager \<Rightarrow> storage" where
  "cg_storage s \<equiv> pgr_storage (cg_pager s)"

definition set_storage :: "storage \<Rightarrow> cpager \<Rightarrow> cpager" where
  "set_storage st s = s\<lparr>cg_pager := (cg_pager s)\<lparr>pgr_storage := st\<rparr>\<rparr>"

section \<open>Pages through the cache\<close>

definition cg_cache_put :: "env \<Rightarrow> page_id \<Rightarrow> bytes \<Rightarrow> (cpager, unit) proc" where
  "cg_cache_put e p d s =
     (case pc_put (env_hash e) (env_ord e) (cg_cache s) p d of (r, c) \<Rightarrow> (r, s\<lparr>cg_cache := c\<rparr>))"

definition cg_cache_remove :: "env \<Rightarrow> page_id \<Rightarrow> (cpager, bool) proc" where
  "cg_cache_remove e p s =
     (case pc_remove (env_hash e) (cg_cache s) p of (b, c) \<Rightarrow> (Ok b, s\<lparr>cg_cache := c\<rparr>))"

definition cg_unpin_page :: "env \<Rightarrow> page_id \<Rightarrow> (cpager, bool) proc" where
  "cg_unpin_page e p s =
     (case pc_unpin (env_hash e) (cg_cache s) p of (b, c) \<Rightarrow> (Ok b, s\<lparr>cg_cache := c\<rparr>))"

text \<open>A lookup that never returns (only under the LFU policy, which the pager does not use) is \<open>Panic\<close>.\<close>

definition cg_cache_get :: "env \<Rightarrow> page_id \<Rightarrow> (cpager, bytes option) proc" where
  "cg_cache_get e p s =
     (case pc_get (env_hash e) (cg_cache s) p of
        None \<Rightarrow> (Panic, s)
      | Some (v, c) \<Rightarrow> (Ok v, s\<lparr>cg_cache := c\<rparr>))"

definition cg_read_page :: "env \<Rightarrow> page_id \<Rightarrow> nat \<Rightarrow> (cpager, bytes) proc" where
  "cg_read_page e p n s = (pager_read_page (env_crc e) (cg_pager s) p n, s)"

definition cg_read_page_raw :: "env \<Rightarrow> page_id \<Rightarrow> nat \<Rightarrow> (cpager, bytes) proc" where
  "cg_read_page_raw e p n s =
     (if n \<noteq> PAGE_SIZE then (Err (Validation (InvalidHeaderSize PAGE_SIZE n)), s)
      else (storage_read_page (cg_storage s) p n, s))"

text \<open>The two cached reads differ only in the read on a miss.\<close>

definition cached_read :: "env \<Rightarrow> (page_id \<Rightarrow> nat \<Rightarrow> (cpager, bytes) proc) \<Rightarrow> page_id \<Rightarrow> (cpager, bytes) proc" where
  "cached_read e miss p =
     then_do (cg_cache_get e p) (\<lambda>hit.
       if hit \<noteq> None then
         then_do (cg_cache_get e p) (\<lambda>v. pure_res (case v of Some d \<Rightarrow> Ok d | None \<Rightarrow> Panic))
       else
         then_do (miss p PAGE_SIZE) (\<lambda>buffer.
         then_do (cg_cache_put e p buffer) (\<lambda>_.
         then_do (cg_unpin_page e p) (\<lambda>_. ret buffer))))"

definition read_page_cached :: "env \<Rightarrow> page_id \<Rightarrow> (cpager, bytes) proc" where
  "read_page_cached e p = cached_read e (cg_read_page e) p"

definition read_page_cached_raw :: "env \<Rightarrow> page_id \<Rightarrow> (cpager, bytes) proc" where
  "read_page_cached_raw e p = cached_read e (cg_read_page_raw e) p"

definition cg_storage_write :: "page_id \<Rightarrow> bytes \<Rightarrow> (cpager, unit) proc" where
  "cg_storage_write p d s =
     (case storage_write_page (cg_storage s) p d of
        Ok st \<Rightarrow> (Ok (), set_storage st s)
      | Err x \<Rightarrow> (Err x, s)
      | Panic \<Rightarrow> (Panic, s))"

definition cg_write_page :: "env \<Rightarrow> page_id \<Rightarrow> bytes \<Rightarrow> (cpager, unit) proc" where
  "cg_write_page e p buffer =
     (if length buffer \<noteq> PAGE_SIZE then raise (Validation (InvalidHeaderSize PAGE_SIZE (length buffer)))
      else
        then_do (pure_res (validate_page_buffer (env_crc e) p buffer)) (\<lambda>_.
        then_do (cg_storage_write p buffer) (\<lambda>_.
        try_do (cg_cache_put e p buffer) ret (ret ()))))"

definition cg_write_page_raw :: "env \<Rightarrow> page_id \<Rightarrow> bytes \<Rightarrow> (cpager, unit) proc" where
  "cg_write_page_raw e p buffer =
     (if length buffer \<noteq> PAGE_SIZE then raise (Validation (InvalidHeaderSize PAGE_SIZE (length buffer)))
      else
        then_do (cg_storage_write p buffer) (\<lambda>_.
        then_do (cg_cache_remove e p) (\<lambda>_.
        then_do (cg_cache_put e p buffer) (\<lambda>_. ret ()))))"

definition cg_allocate_page :: "env \<Rightarrow> (cpager, page_id) proc" where
  "cg_allocate_page e s =
     (case pager_allocate_page (env_crc e) (cg_pager s) of (r, g) \<Rightarrow> (r, s\<lparr>cg_pager := g\<rparr>))"

definition cg_free_page :: "env \<Rightarrow> page_id \<Rightarrow> (cpager, unit) proc" where
  "cg_free_page e p s =
     (case free_page (pgr_allocator (cg_pager s)) p of
        Ok a \<Rightarrow> (case cg_cache_remove e p (s\<lparr>cg_pager := (cg_pager s)\<lparr>pgr_allocator := a\<rparr>\<rparr>) of (_, s') \<Rightarrow> (Ok (), s'))
      | Err x \<Rightarrow> (Err x, s)
      | Panic \<Rightarrow> (Panic, s))"

section \<open>B+tree nodes\<close>

definition read_btree_node :: "env \<Rightarrow> page_id \<Rightarrow> (cpager, node) proc" where
  "read_btree_node e p =
     then_do (read_page_cached_raw e p) (\<lambda>bs. pure_res (node_from_bytes bs))"

definition write_btree_node :: "env \<Rightarrow> page_id \<Rightarrow> node \<Rightarrow> (cpager, unit) proc" where
  "write_btree_node e p n =
     then_do (pure_res (node_to_bytes (env_crc e) n)) (\<lambda>bs. cg_write_page_raw e p bs)"

section \<open>Opening and closing\<close>

definition cg_create_memory :: "env \<Rightarrow> cpager outcome" where
  "cg_create_memory e =
     and_then (page_cache_new (env_num_cpus e)) (\<lambda>c.
     and_then (create_memory (env_crc e)) (\<lambda>g. Ok \<lparr>cg_pager = g, cg_cache = c\<rparr>))"

text \<open>\<open>create_file\<close> opens without truncating, so the file may have contents \<open>data\<close>.\<close>

definition cg_create_file :: "env \<Rightarrow> bytes \<Rightarrow> cpager outcome" where
  "cg_create_file e data =
     and_then (page_cache_new (env_num_cpus e)) (\<lambda>c.
     and_then (write_meta_pages (env_crc e)
        \<lparr>pgr_storage = FileStorage data, pgr_page_size = word_of_nat PAGE_SIZE,
         pgr_current_meta = initial_meta (env_crc e), pgr_allocator = allocator_new\<rparr>) (\<lambda>g.
     case write_btree_node e FIRST_DATA (LeafN (leaf_new FIRST_DATA)) \<lparr>cg_pager = g, cg_cache = c\<rparr> of
       (Ok _, s) \<Rightarrow> and_then (storage_sync (cg_storage s)) (\<lambda>_. Ok s)
     | (Err x, s) \<Rightarrow> Err x
     | (Panic, s) \<Rightarrow> Panic))"

definition cg_open_file :: "env \<Rightarrow> bytes \<Rightarrow> cpager outcome" where
  "cg_open_file e data =
     and_then (open_storage (env_crc e) (FileStorage data)) (\<lambda>g.
     and_then (page_cache_new (env_num_cpus e)) (\<lambda>c. Ok \<lparr>cg_pager = g, cg_cache = c\<rparr>))"

definition cg_close :: "(cpager, unit) proc" where
  "cg_close s =
     (case storage_sync (cg_storage s) of
        Ok _ \<Rightarrow> (Ok (), s\<lparr>cg_cache := snd (pc_clear (cg_cache s))\<rparr>)
      | Err x \<Rightarrow> (Err x, s)
      | Panic \<Rightarrow> (Panic, s))"

section \<open>Overflow pages\<close>

definition debug_page_type :: "page_type option \<Rightarrow> string" where
  "debug_page_type t =
     (case t of
        None \<Rightarrow> ''None''
      | Some pt \<Rightarrow> ''Some('' @ (case pt of Meta \<Rightarrow> ''Meta'' | BtreeInternal \<Rightarrow> ''BtreeInternal'' | BtreeLeaf \<Rightarrow> ''BtreeLeaf''
          | Freelist \<Rightarrow> ''Freelist'' | LogSegment \<Rightarrow> ''LogSegment'' | Overflow \<Rightarrow> ''Overflow'') @ '')'')"

definition read_overflow_page :: "env \<Rightarrow> page_id \<Rightarrow> (cpager, overflow_page) proc" where
  "read_overflow_page e p =
     then_do (read_page_cached e p) (\<lambda>page_bytes.
     then_do (pure_res (page_from_bytes (env_crc e) page_bytes)) (\<lambda>page.
     if page_page_type page \<noteq> Some Overflow then
       raise (Validation (ValidationGeneric (''Expected overflow page, got '' @ debug_page_type (page_page_type page))))
     else pure_res (overflow_from_bytes (pg_payload page))))"

definition write_overflow_page :: "env \<Rightarrow> page_id \<Rightarrow> overflow_page \<Rightarrow> (cpager, unit) proc" where
  "write_overflow_page e p o' =
     then_do (pure_res (overflow_validate o')) (\<lambda>_.
     then_do (pure_res (page_update_payload (env_crc e) (page_new p Overflow) (overflow_to_bytes o'))) (\<lambda>page.
     cg_write_page e p (page_to_bytes page)))"

definition allocate_overflow_page :: "env \<Rightarrow> (cpager, page_id) proc" where
  "allocate_overflow_page e =
     then_do (cg_allocate_page e) (\<lambda>p.
     then_do (write_overflow_page e p overflow_new) (\<lambda>_. ret p))"

definition link_overflow_page :: "env \<Rightarrow> page_id \<Rightarrow> page_id \<Rightarrow> (cpager, unit) proc" where
  "link_overflow_page e prev_id p =
     then_do (read_overflow_page e prev_id) (\<lambda>prev_page. write_overflow_page e prev_id (set_next_page p prev_page))"

text \<open>The loop over the chunks \<open>i .. num_pages\<close>, with the first and the previous page of the chain.\<close>

fun write_chunks :: "env \<Rightarrow> bytes list \<Rightarrow> page_id option \<Rightarrow> page_id option \<Rightarrow> (cpager, page_id option) proc" where
  "write_chunks e [] first prev = ret first"
| "write_chunks e (chunk # chunks) first prev =
     then_do (allocate_overflow_page e) (\<lambda>p.
     then_do (write_overflow_page e p (overflow_with_data chunk 0)) (\<lambda>_.
     then_do (case prev of Some prev_id \<Rightarrow> link_overflow_page e prev_id p | None \<Rightarrow> ret ()) (\<lambda>_.
     write_chunks e chunks (case prev of Some _ \<Rightarrow> first | None \<Rightarrow> Some p) (Some p))))"

definition value_chunks :: "bytes \<Rightarrow> bytes list" where
  "value_chunks val = map (\<lambda>i. subslice (i * OVERFLOW_DATA_SIZE) OVERFLOW_DATA_SIZE val) [0..<pages_needed (length val)]"

definition allocate_overflow_chain :: "env \<Rightarrow> bytes \<Rightarrow> (cpager, page_id) proc" where
  "allocate_overflow_chain e val =
     (if val = [] then
        raise (Validation (ValidationGeneric ''Cannot allocate overflow chain for empty value''))
      else
        then_do (write_chunks e (value_chunks val) None None) (\<lambda>first.
        pure_res (ok_or first (Validation (ValidationGeneric ''Failed to allocate any overflow pages'')))))"

definition circular_error :: "page_id \<Rightarrow> error" where
  "circular_error p =
     Validation (ValidationGeneric (''Circular reference detected in overflow chain at page '' @ fmt p))"

definition chain_too_long :: error where
  "chain_too_long = Validation (ValidationGeneric ''Overflow chain too long (max 2000 pages)'')"

text \<open>\<open>visited\<close> never has more than 2000 pages when the loop continues, which bounds the recursion.\<close>

function read_chain_loop :: "env \<Rightarrow> page_id list \<Rightarrow> bytes \<Rightarrow> page_id \<Rightarrow> (cpager, bytes) proc" where
  "read_chain_loop e visited buffer p =
     (if p \<in> set visited then raise (circular_error p)
      else if 2000 < length (p # visited) then raise chain_too_long
      else
        then_do (read_overflow_page e p) (\<lambda>o'.
        if overflow_is_last o' then ret (buffer @ ov_data o')
        else read_chain_loop e (p # visited) (buffer @ ov_data o') (ov_next_page o')))"
  by pat_completeness auto
termination
  by (relation "measure (\<lambda>(e, visited, buffer, p). 2000 - length visited)") auto

declare read_chain_loop.simps [simp del]

definition read_overflow_chain :: "env \<Rightarrow> page_id \<Rightarrow> (cpager, bytes) proc" where
  "read_overflow_chain e first_page_id = read_chain_loop e [] [] first_page_id"

function free_chain_loop :: "env \<Rightarrow> page_id list \<Rightarrow> page_id \<Rightarrow> (cpager, unit) proc" where
  "free_chain_loop e visited p =
     (if p \<in> set visited then raise (circular_error p)
      else if 2000 < length (p # visited) then raise chain_too_long
      else
        then_do (read_overflow_page e p) (\<lambda>o'.
        then_do (cg_free_page e p) (\<lambda>_.
        if ov_next_page o' = 0 then ret () else free_chain_loop e (p # visited) (ov_next_page o'))))"
  by pat_completeness auto
termination
  by (relation "measure (\<lambda>(e, visited, p). 2000 - length visited)") auto

declare free_chain_loop.simps [simp del]

definition free_overflow_chain :: "env \<Rightarrow> page_id \<Rightarrow> (cpager, unit) proc" where
  "free_overflow_chain e first_page_id = free_chain_loop e [] first_page_id"

section \<open>The cache agrees with the storage\<close>

definition cg_page :: "cpager \<Rightarrow> page_id \<rightharpoonup> bytes" where
  "cg_page s p = ok_of (storage_read_page (cg_storage s) p PAGE_SIZE)"

lemma cg_page_cache [simp]: "cg_page (s\<lparr>cg_cache := c\<rparr>) = cg_page s"
  by (simp add: cg_page_def fun_eq_iff)

text \<open>Pages are cached only if they can be addressed, so a write to one leaves the others alone.\<close>

definition cg_inv :: "env \<Rightarrow> cpager \<Rightarrow> bool" where
  "cg_inv e s \<longleftrightarrow> pc_inv (cg_cache s) \<and> agrees (pc_lookup (env_hash e) (cg_cache s)) (cg_page s) \<and>
     (\<forall>p. pc_lookup (env_hash e) (cg_cache s) p \<noteq> None \<longrightarrow> addressable p)"

definition cached :: "env \<Rightarrow> cpager \<Rightarrow> page_id set" where
  "cached e s = dom (pc_lookup (env_hash e) (cg_cache s))"

definition cg_room :: "nat \<Rightarrow> cpager \<Rightarrow> bool" where
  "cg_room n s \<longleftrightarrow> pc_room n (cg_cache s)"

lemma cg_page_length:
  assumes "cg_page s p = Some bs"
  shows "length bs = PAGE_SIZE"
proof -
  have "storage_read_page (cg_storage s) p PAGE_SIZE = Ok bs" using assms by (simp add: cg_page_def ok_of_Some)
  then show ?thesis
    by (cases "cg_storage s") (auto simp: file_read_page_def memory_read_page_def ok_or_def Let_def split: if_splits option.splits)
qed

lemma cg_room_less: "cg_room n s \<Longrightarrow> m \<le> n \<Longrightarrow> cg_room m s"
  unfolding cg_room_def pc_room_def cache_room_def by (meson shard_room_less)

lemma cached_read_spec:
  assumes inv: "cg_inv e s" and room: "cg_room (Suc n) s" and p: "addressable p" "cg_page s p = Some bs"
    and miss: "\<And>s'. cg_pager s' = cg_pager s \<Longrightarrow> miss p PAGE_SIZE s' = (Ok bs, s')"
  obtains s' where "cached_read e miss p s = (Ok bs, s')" "cg_pager s' = cg_pager s" "cg_inv e s'" "cg_room n s'"
    "cached e s' \<subseteq> insert p (cached e s)"
proof -
  have pci: "pc_inv (cg_cache s)" and agr: "agrees (pc_lookup (env_hash e) (cg_cache s)) (cg_page s)"
    using inv by (simp_all add: cg_inv_def)
  obtain c1 where c1: "pc_get (env_hash e) (cg_cache s) p = Some (pc_lookup (env_hash e) (cg_cache s) p, c1)"
    "pc_inv c1" "pc_lookup (env_hash e) c1 = pc_lookup (env_hash e) (cg_cache s)"
    "\<And>n. pc_room n (cg_cache s) \<Longrightarrow> pc_room n c1"
    using pc_get_spec [OF pci] by metis
  have inv1: "cg_inv e (s\<lparr>cg_cache := c1\<rparr>)"
    using inv c1(2,3) by (simp add: cg_inv_def)
  show ?thesis
  proof (cases "pc_lookup (env_hash e) (cg_cache s) p")
    case (Some d)
    then have "d = bs" using agr p(2) unfolding agrees_def by fastforce
    obtain c2 where c2: "pc_get (env_hash e) c1 p = Some (Some d, c2)" "pc_inv c2"
      "pc_lookup (env_hash e) c2 = pc_lookup (env_hash e) c1" "\<And>n. pc_room n c1 \<Longrightarrow> pc_room n c2"
      using pc_get_spec [OF c1(2)] c1(3) Some by metis
    show ?thesis
    proof (rule that [of "s\<lparr>cg_cache := c2\<rparr>"])
      show "cached_read e miss p s = (Ok bs, s\<lparr>cg_cache := c2\<rparr>)"
        using c1(1) c2(1) Some \<open>d = bs\<close>
        by (simp add: cached_read_def then_do_def cg_cache_get_def)
      show "cg_inv e (s\<lparr>cg_cache := c2\<rparr>)" using inv1 c2(2,3) by (simp add: cg_inv_def)
      show "cg_room n (s\<lparr>cg_cache := c2\<rparr>)"
        using cg_room_less [OF room, of n] c1(4) c2(4) by (simp add: cg_room_def)
      show "cached e (s\<lparr>cg_cache := c2\<rparr>) \<subseteq> insert p (cached e s)"
        using c1(3) c2(3) by (auto simp: cached_def)
    qed simp
  next
    case None
    let ?s1 = "s\<lparr>cg_cache := c1\<rparr>"
    have "pc_room (Suc n) c1" using room c1(4) by (simp add: cg_room_def)
    then obtain c2 where c2: "pc_put (env_hash e) (env_ord e) c1 p bs = (Ok (), c2)" "pc_room n c2"
      using pc_put_room [OF c1(2)] cg_page_length [OF p(2)] by metis
    define c3 where "c3 = snd (pc_unpin (env_hash e) c2 p)"
    have pc2: "pc_inv c2" using pc_put_is_ok(1) [OF c1(2) c2(1)] .
    note un = pc_unpin_spec [OF pc2, where hash = "env_hash e" and p = p, folded c3_def]
    have agr2: "agrees (pc_lookup (env_hash e) c2) (cg_page s)"
      using pages.put_agrees [of c1 "env_hash e" "cg_page s" p bs "env_ord e" True c2] c1(2,3) c2(1) agr p(2)
      by simp
    have addr: "addressable q" if "pc_lookup (env_hash e) c2 q \<noteq> None" for q
      using that pc_put_is_ok(3) [OF c1(2) c2(1), of q] c1(3) inv p(1)
      by (cases "q = p") (auto simp: cg_inv_def)
    show ?thesis
    proof (rule that [of "s\<lparr>cg_cache := c3\<rparr>"])
      show "cached_read e miss p s = (Ok bs, s\<lparr>cg_cache := c3\<rparr>)"
        using c1(1) c2(1) None miss [of ?s1]
        by (simp add: cached_read_def then_do_def cg_cache_get_def cg_cache_put_def cg_unpin_page_def c3_def
            split: prod.splits)
      show "cg_inv e (s\<lparr>cg_cache := c3\<rparr>)"
        using un agr2 addr by (simp add: cg_inv_def)
      show "cg_room n (s\<lparr>cg_cache := c3\<rparr>)" using un(3) c2(2) by (simp add: cg_room_def)
      show "cached e (s\<lparr>cg_cache := c3\<rparr>) \<subseteq> insert p (cached e s)"
        using un(2) pc_put_dom [OF c1(2) c2(1)] c1(3) by (simp add: cached_def)
    qed simp
  qed
qed

lemma set_storage_page:
  assumes "addressable p" "storage_write_page (cg_storage s) p d = Ok st"
  shows "cg_page (set_storage st s) p = Some d"
    "addressable q \<Longrightarrow> q \<noteq> p \<Longrightarrow> cg_page s q = Some x \<Longrightarrow> cg_page (set_storage st s) q = Some x"
  using assms backend.read_written [of p "cg_storage s" d st] backend.read_other [of p q "cg_storage s" d st x]
  by (auto simp: cg_page_def set_storage_def ok_of_Some)

lemma storage_write_agrees:
  assumes inv: "cg_inv e s" and p: "addressable p" and w: "storage_write_page (cg_storage s) p d = Ok st"
  shows "agrees (pc_lookup (env_hash e) (snd (pc_remove (env_hash e) (cg_cache s) p))) (cg_page (set_storage st s))"
  unfolding agrees_def
proof (intro allI impI)
  fix q v assume q: "pc_lookup (env_hash e) (snd (pc_remove (env_hash e) (cg_cache s) p)) q = Some v"
  have pci: "pc_inv (cg_cache s)" using inv by (simp add: cg_inv_def)
  have "q \<noteq> p" using q pc_remove_spec(2) [OF pci, of "env_hash e" p] by auto
  then have look: "pc_lookup (env_hash e) (cg_cache s) q = Some v"
    using q pc_remove_spec(3) [OF pci \<open>q \<noteq> p\<close>] by simp
  then have "cg_page s q = Some v" "addressable q" using inv unfolding cg_inv_def agrees_def by blast+
  then show "cg_page (set_storage st s) q = Some v" using set_storage_page(2) [OF p w] \<open>q \<noteq> p\<close> by blast
qed

lemma cg_write_page_raw_spec:
  assumes inv: "cg_inv e s" and room: "cg_room (Suc n) s" and p: "addressable p" and len: "length d = PAGE_SIZE"
  obtains s' where "cg_write_page_raw e p d s = (Ok (), s')" "cg_inv e s'" "cg_room n s'" "cg_page s' p = Some d"
    "\<And>q x. addressable q \<Longrightarrow> q \<noteq> p \<Longrightarrow> cg_page s q = Some x \<Longrightarrow> cg_page s' q = Some x"
    "pgr_allocator (cg_pager s') = pgr_allocator (cg_pager s)"
    "pgr_current_meta (cg_pager s') = pgr_current_meta (cg_pager s)" "cached e s' \<subseteq> insert p (cached e s)" "p \<in> cached e s'"
proof -
  have pci: "pc_inv (cg_cache s)" using inv by (simp add: cg_inv_def)
  obtain st where st: "storage_write_page (cg_storage s) p d = Ok st" using backend.write_total p len by blast
  define c1 where "c1 = snd (pc_remove (env_hash e) (cg_cache s) p)"
  note rem = pc_remove_spec [OF pci, where hash = "env_hash e" and p = p, folded c1_def]
  have "pc_room (Suc n) c1" using rem(4) room by (simp add: cg_room_def)
  then obtain c2 where c2: "pc_put (env_hash e) (env_ord e) c1 p d = (Ok (), c2)" "pc_room n c2"
    using pc_put_room [OF rem(1)] len by metis
  let ?s = "(set_storage st s)\<lparr>cg_cache := c2\<rparr>"
  have pg: "cg_page ?s = cg_page (set_storage st s)" by simp
  have agr: "agrees (pc_lookup (env_hash e) c2) (cg_page ?s)"
    using pages.put_agrees [of c1 "env_hash e" "cg_page (set_storage st s)" p d "env_ord e" True c2] rem(1) c2(1)
      storage_write_agrees [OF inv p st, folded c1_def] set_storage_page(1) [OF p st] pg by simp
  have addr: "addressable q" if "pc_lookup (env_hash e) c2 q \<noteq> None" for q
    using that pc_put_is_ok(3) [OF rem(1) c2(1), of q] rem(3) [of q] inv p
    by (cases "q = p") (auto simp: cg_inv_def)
  show ?thesis
  proof (rule that [of ?s])
    show "cg_write_page_raw e p d s = (Ok (), ?s)"
      using len st c2(1)
      by (simp add: cg_write_page_raw_def then_do_def cg_storage_write_def cg_cache_remove_def cg_cache_put_def c1_def
          set_storage_def case_prod_beta)
    show "cg_inv e ?s" using pc_put_is_ok(1) [OF rem(1) c2(1)] agr addr by (simp add: cg_inv_def)
    show "cg_room n ?s" using c2(2) by (simp add: cg_room_def)
    show "cg_page ?s p = Some d" using pg set_storage_page(1) [OF p st] by simp
    show "cg_page ?s q = Some x" if "addressable q" "q \<noteq> p" "cg_page s q = Some x" for q x
      using pg set_storage_page(2) [OF p st that] by simp
    show "cached e ?s \<subseteq> insert p (cached e s)"
      using pc_put_dom [OF rem(1) c2(1)] pc_remove_dom [OF pci, of "env_hash e" p, folded c1_def]
      by (auto simp: cached_def)
    show "p \<in> cached e ?s" using pc_put_is_ok(2) [OF rem(1) c2(1)] by (simp add: cached_def domI)
  qed (simp_all add: set_storage_def)
qed

section \<open>The node store\<close>

text \<open>The node a page holds, and what reading and writing nodes does to it.\<close>

definition cg_node :: "cpager \<Rightarrow> page_id \<rightharpoonup> node" where
  "cg_node s p = (case cg_page s p of None \<Rightarrow> None | Some bs \<Rightarrow> ok_of (node_from_bytes bs))"

lemma read_btree_node_spec:
  assumes "cg_inv e s" "cg_room (Suc n) s" "addressable p" "cg_node s p = Some nd"
  obtains s' where "read_btree_node e p s = (Ok nd, s')" "cg_pager s' = cg_pager s" "cg_inv e s'" "cg_room n s'"
    "cached e s' \<subseteq> insert p (cached e s)"
proof -
  obtain bs where bs: "cg_page s p = Some bs" "node_from_bytes bs = Ok nd"
    using assms(4) by (auto simp: cg_node_def ok_of_Some split: option.splits)
  have miss: "cg_read_page_raw e p PAGE_SIZE s' = (Ok bs, s')" if "cg_pager s' = cg_pager s" for s'
    using that bs(1) by (simp add: cg_read_page_raw_def cg_page_def ok_of_Some)
  obtain s' where "cached_read e (cg_read_page_raw e) p s = (Ok bs, s')" "cg_pager s' = cg_pager s"
    "cg_inv e s'" "cg_room n s'" "cached e s' \<subseteq> insert p (cached e s)"
    using cached_read_spec [OF assms(1-3) bs(1), where miss = "cg_read_page_raw e"] miss by blast
  then show ?thesis
    using that bs(2) by (simp add: read_btree_node_def read_page_cached_raw_def then_do_Ok)
qed

lemma cg_node_cong: "cg_pager s' = cg_pager s \<Longrightarrow> cg_node s' = cg_node s"
  by (simp add: cg_node_def cg_page_def fun_eq_iff)

lemma write_btree_node_spec:
  assumes "cg_inv e s" "cg_room (Suc n) s" "addressable p" "node_fits nd"
  obtains s' c where "write_btree_node e p nd s = (Ok (), s')" "cg_inv e s'" "cg_room n s'"
    "cg_node s' p = Some (with_checksum c nd)"
    "\<And>q x. addressable q \<Longrightarrow> q \<noteq> p \<Longrightarrow> cg_node s q = Some x \<Longrightarrow> cg_node s' q = Some x"
    "pgr_allocator (cg_pager s') = pgr_allocator (cg_pager s)"
    "pgr_current_meta (cg_pager s') = pgr_current_meta (cg_pager s)" "cached e s' \<subseteq> insert p (cached e s)" "p \<in> cached e s'"
proof -
  obtain bs c where bs: "node_to_bytes (env_crc e) nd = Ok bs" "length bs = PAGE_SIZE"
    "node_from_bytes bs = Ok (with_checksum c nd)"
    using node_roundtrip [OF assms(4), of "env_crc e"] by (auto simp: PAGE_SIZE_def DEFAULT_PAGE_SIZE_def)
  obtain s' where s': "cg_write_page_raw e p bs s = (Ok (), s')" "cg_inv e s'" "cg_room n s'" "cg_page s' p = Some bs"
    "\<And>q x. addressable q \<Longrightarrow> q \<noteq> p \<Longrightarrow> cg_page s q = Some x \<Longrightarrow> cg_page s' q = Some x"
    "pgr_allocator (cg_pager s') = pgr_allocator (cg_pager s)"
    "pgr_current_meta (cg_pager s') = pgr_current_meta (cg_pager s)" "cached e s' \<subseteq> insert p (cached e s)" "p \<in> cached e s'"
    by (rule cg_write_page_raw_spec [OF assms(1-3) bs(2)], rule that)
  have w: "write_btree_node e p nd s = (Ok (), s')"
    using bs(1) s'(1) by (simp add: write_btree_node_def then_do_Ok)
  have here: "cg_node s' p = Some (with_checksum c nd)" using s'(4) bs(3) by (simp add: cg_node_def)
  have other: "cg_node s' q = Some x" if "addressable q" "q \<noteq> p" "cg_node s q = Some x" for q x
    using s'(5) [OF that(1,2)] that(3) by (auto simp: cg_node_def split: option.splits)
  show ?thesis by (rule that [OF w s'(2,3) here other s'(6-9)])
qed

section \<open>A new pager\<close>

lemma page_cache_new_spec:
  assumes "page_cache_new k = Ok c"
  shows "pc_inv c" "pc_lookup hash c = Map.empty" "n \<le> 16384 \<Longrightarrow> pc_room n c"
proof -
  let ?cfg = "page_cache_config k"
  have k: "0 < k" and c: "ch_shards (pc_cache c) = map (shard_new ArcPolicy ?cfg) [0..<k]"
    using assms by (auto simp: page_cache_new_Ok usize_is_power_of_two_def split: if_splits)
  show "pc_inv c"
    using k c shard_new_inv(1) by (auto simp: pc_inv_def cache_inv_def) (simp add: shard_new_def)
  have "key_shard hash (pc_cache c) p \<in> shard_new ArcPolicy ?cfg ` {0..<k}" for p
    using key_shard_mem [of "pc_cache c" hash p] k c by auto
  then have "cs_entries (key_shard hash (pc_cache c) p) = []" for p
    using imageE [of "key_shard hash (pc_cache c) p"] by (metis shard_new_def cache_shard.select_convs(1))
  then show "pc_lookup hash c = Map.empty"
    by (simp add: pc_lookup_def cache_lookup_def shard_lookup_def fun_eq_iff)
  show "pc_room n c" if "n \<le> 16384"
    using c that
    by (auto simp: pc_room_def cache_room_def shard_room_def shard_new_def cache_stats_new_def page_cache_config_def
        DEFAULT_MAX_BYTES_def PAGE_SIZE_def)
qed

lemma cg_create_memory_spec:
  assumes "cg_create_memory e = Ok s"
  shows "cg_inv e s" "cached e s = {}" "n \<le> 16384 \<Longrightarrow> cg_room n s"
    "pgr_allocator (cg_pager s) = allocator_new"
proof -
  obtain c g where c: "page_cache_new (env_num_cpus e) = Ok c" "create_memory (env_crc e) = Ok g"
    "s = \<lparr>cg_pager = g, cg_cache = c\<rparr>"
    using assms by (auto simp: cg_create_memory_def)
  note spec = page_cache_new_spec(1,3) [OF c(1)] page_cache_new_spec(2) [OF c(1), of "env_hash e"]
  show "cg_inv e s" "cached e s = {}" "n \<le> 16384 \<Longrightarrow> cg_room n s"
    using spec c(3) by (simp_all add: cg_inv_def agrees_def cached_def cg_room_def)
  show "pgr_allocator (cg_pager s) = allocator_new"
    using c(2,3) by (auto simp: create_memory_def write_meta_pages_def Let_def)
qed

lemma cg_create_memory_total:
  assumes "usize_is_power_of_two (env_num_cpus e)"
  shows "\<exists>s. cg_create_memory e = Ok s"
proof (rule create_memory_opens [of "env_crc e"])
  fix g g' assume "create_memory (env_crc e) = Ok g"
  then show ?thesis using assms by (simp add: cg_create_memory_def page_cache_new_Ok)
qed

end
