(* ===== verification/Overflow_Chain.thy ===== *)
theory Overflow_Chain
  imports Cached_Pager
begin

text \<open>
  Large values: a value written by \<open>Pager::allocate_overflow_chain\<close> is read back by
  \<open>read_overflow_chain\<close>. The proof follows the loop of the writer: after each chunk the pages
  written so far form a chain that ends in the last page.
\<close>

section \<open>Single overflow pages\<close>

definition overflow_image :: "env \<Rightarrow> page_id \<Rightarrow> overflow_page \<Rightarrow> page" where
  "overflow_image e p o' =
     recalculate_checksums (env_crc e)
       ((page_new p Overflow)\<lparr>pg_payload := overflow_to_bytes o',
          pg_header := (pg_header (page_new p Overflow))\<lparr>ph_payload_len := word_of_nat (length (overflow_to_bytes o'))\<rparr>\<rparr>)"

definition ov_at :: "env \<Rightarrow> cpager \<Rightarrow> page_id \<Rightarrow> overflow_page \<Rightarrow> bool" where
  "ov_at e s p o' \<longleftrightarrow> overflow_validate o' = Ok () \<and> cg_page s p = Some (page_to_bytes (overflow_image e p o'))"

lemma overflow_image_valid:
  assumes "overflow_validate o' = Ok ()"
  shows "page_update_payload (env_crc e) (page_new p Overflow) (overflow_to_bytes o') = Ok (overflow_image e p o')"
    "page_validate (env_crc e) (overflow_image e p o') = Ok ()" "pg_payload (overflow_image e p o') = overflow_to_bytes o'"
    "page_page_type (overflow_image e p o') = Some Overflow" "ph_page_id (pg_header (overflow_image e p o')) = p"
proof -
  have len: "length (overflow_to_bytes o') \<le> MAX_PAYLOAD_SIZE"
    using assms by (simp add: overflow_validate_Ok length_overflow_to_bytes overflow_consts page_consts)
  then show "page_update_payload (env_crc e) (page_new p Overflow) (overflow_to_bytes o') = Ok (overflow_image e p o')"
    by (simp add: page_update_payload_def overflow_image_def)
  show "page_validate (env_crc e) (overflow_image e p o') = Ok ()"
    unfolding overflow_image_def
    by (rule recalculate_checksums_valid) (use len in \<open>simp_all add: page_new_def page_header_wf_def page_header_new_def page_type_from_u8_def\<close>)
  show "pg_payload (overflow_image e p o') = overflow_to_bytes o'"
    "page_page_type (overflow_image e p o') = Some Overflow" "ph_page_id (pg_header (overflow_image e p o')) = p"
    by (simp_all add: overflow_image_def recalculate_checksums_def page_header_update_checksum_def page_page_type_def
        get_page_type_def page_new_def page_header_new_def page_type_from_u8_def)
qed

lemma overflow_image_buffer:
  assumes "overflow_validate o' = Ok ()"
  shows "validate_page_buffer (env_crc e) p (page_to_bytes (overflow_image e p o')) = Ok ()"
  using overflow_image_valid [OF assms, of e p]
  by (simp add: validate_page_buffer_def page_validate_Ok page_header_validate_Ok Let_def)

lemma cg_write_page_spec:
  assumes inv: "cg_inv e s" and room: "cg_room (Suc n) s" and p: "addressable p" and len: "length d = PAGE_SIZE"
    and ok: "validate_page_buffer (env_crc e) p d = Ok ()"
  obtains s' where "cg_write_page e p d s = (Ok (), s')" "cg_inv e s'" "cg_room n s'" "cg_page s' p = Some d"
    "\<And>q x. addressable q \<Longrightarrow> q \<noteq> p \<Longrightarrow> cg_page s q = Some x \<Longrightarrow> cg_page s' q = Some x"
    "pgr_allocator (cg_pager s') = pgr_allocator (cg_pager s)" "cached e s' \<subseteq> insert p (cached e s)"
proof -
  let ?h = "env_hash e"
  have pci: "pc_inv (cg_cache s)" using inv by (simp add: cg_inv_def)
  obtain st where st: "storage_write_page (cg_storage s) p d = Ok st" using backend.write_total p len by blast
  obtain c where c: "pc_put ?h (env_ord e) (cg_cache s) p d = (Ok (), c)" "pc_room n c"
    using pc_put_room [OF pci] room len by (metis cg_room_def)
  note put = pc_put_is_ok [OF pci c(1)]
  let ?s = "(set_storage st s)\<lparr>cg_cache := c\<rparr>"
  have "agrees (pc_lookup ?h c) (cg_page (set_storage st s))"
    unfolding agrees_def
  proof (intro allI impI)
    fix q v assume q: "pc_lookup ?h c q = Some v"
    show "cg_page (set_storage st s) q = Some v"
    proof (cases "q = p")
      case True
      then show ?thesis using put(2) q set_storage_page(1) [OF p st] by simp
    next
      case False
      then have "pc_lookup ?h (cg_cache s) q = Some v" using put(3) [OF False] q by auto
      then have "cg_page s q = Some v" "addressable q" using inv unfolding cg_inv_def agrees_def by blast+
      then show ?thesis using set_storage_page(2) [OF p st] False by blast
    qed
  qed
  moreover have "addressable q" if "pc_lookup ?h c q \<noteq> None" for q
    using that pc_put_dom [OF pci c(1)] inv p by (auto simp: cg_inv_def dom_def)
  ultimately have "cg_inv e ?s" using put(1) by (simp add: cg_inv_def)
  moreover have "cg_write_page e p d s = (Ok (), ?s)"
    using len ok st c(1)
    by (simp add: cg_write_page_def then_do_def try_do_def cg_storage_write_def cg_cache_put_def set_storage_def)
  ultimately show ?thesis
    using that [of ?s] c(2) set_storage_page [OF p st] pc_put_dom [OF pci c(1)]
    by (simp add: cg_room_def cached_def set_storage_def)
qed

lemma write_overflow_page_spec:
  assumes "cg_inv e s" "cg_room (Suc n) s" "addressable p" "overflow_validate o' = Ok ()"
  obtains s' where "write_overflow_page e p o' s = (Ok (), s')" "cg_inv e s'" "cg_room n s'" "ov_at e s' p o'"
    "\<And>q x. addressable q \<Longrightarrow> q \<noteq> p \<Longrightarrow> cg_page s q = Some x \<Longrightarrow> cg_page s' q = Some x"
    "pgr_allocator (cg_pager s') = pgr_allocator (cg_pager s)" "cached e s' \<subseteq> insert p (cached e s)"
proof -
  have len: "length (page_to_bytes (overflow_image e p o')) = PAGE_SIZE" by simp
  obtain s' where s': "cg_write_page e p (page_to_bytes (overflow_image e p o')) s = (Ok (), s')" "cg_inv e s'"
    "cg_room n s'" "cg_page s' p = Some (page_to_bytes (overflow_image e p o'))"
    "\<And>q x. addressable q \<Longrightarrow> q \<noteq> p \<Longrightarrow> cg_page s q = Some x \<Longrightarrow> cg_page s' q = Some x"
    "pgr_allocator (cg_pager s') = pgr_allocator (cg_pager s)" "cached e s' \<subseteq> insert p (cached e s)"
    using cg_write_page_spec [OF assms(1-3) len overflow_image_buffer [OF assms(4)]] by blast
  show ?thesis
    by (rule that [of s'])
      (use s' assms(4) overflow_image_valid(1) [OF assms(4)] in \<open>simp_all add: write_overflow_page_def ov_at_def\<close>)
qed

lemma read_overflow_page_spec:
  assumes "cg_inv e s" "cg_room (Suc n) s" "addressable p" "ov_at e s p o'"
  obtains s' where "read_overflow_page e p s = (Ok o', s')" "cg_inv e s'" "cg_room n s'" "cg_pager s' = cg_pager s"
    "cached e s' \<subseteq> insert p (cached e s)"
proof -
  let ?bs = "page_to_bytes (overflow_image e p o')"
  have o': "overflow_validate o' = Ok ()" and pg: "cg_page s p = Some ?bs" using assms(4) by (simp_all add: ov_at_def)
  have miss: "cg_read_page e p PAGE_SIZE s' = (Ok ?bs, s')" if "cg_pager s' = cg_pager s" for s'
    using that pg overflow_image_buffer [OF o', of e p]
    by (simp add: cg_read_page_def pager_read_page_def cg_page_def ok_of_Some)
  obtain s' where s': "cached_read e (cg_read_page e) p s = (Ok ?bs, s')" "cg_pager s' = cg_pager s" "cg_inv e s'"
    "cg_room n s'" "cached e s' \<subseteq> insert p (cached e s)"
    using cached_read_spec [OF assms(1-3) pg, where miss = "cg_read_page e"] miss by blast
  have "read_overflow_page e p s = (Ok o', s')"
    using s'(1) page_from_to_bytes [OF overflow_image_valid(2) [OF o', of e p]] overflow_image_valid [OF o', of e p]
      overflow_from_to_bytes [OF o']
    by (simp add: read_overflow_page_def read_page_cached_def then_do_Ok)
  then show ?thesis using that s' by blast
qed

section \<open>Allocation at the frontier\<close>

definition frontier :: "env \<Rightarrow> cpager \<Rightarrow> page_id \<Rightarrow> bool" where
  "frontier e s q \<longleftrightarrow> al_free_pages (pgr_allocator (cg_pager s)) = [] \<and>
     al_last_allocated_page (pgr_allocator (cg_pager s)) = q \<and> (\<forall>p \<in> cached e s. p < q)"

lemma cg_allocate_page_spec:
  assumes "cg_inv e s" "frontier e s q" "addressable q"
  obtains s' where "cg_allocate_page e s = (Ok q, s')" "cg_inv e s'" "cg_cache s' = cg_cache s"
    "al_free_pages (pgr_allocator (cg_pager s')) = []" "al_last_allocated_page (pgr_allocator (cg_pager s')) = q + 1"
    "\<And>p x. addressable p \<Longrightarrow> p \<noteq> q \<Longrightarrow> cg_page s p = Some x \<Longrightarrow> cg_page s' p = Some x"
proof -
  let ?d = "page_to_bytes (recalculate_checksums (env_crc e) (page_new q Freelist))"
  obtain st where st: "storage_write_page (cg_storage s) q ?d = Ok st"
    using backend.write_total [OF assms(3), of ?d "cg_storage s"] by auto
  let ?g = "(cg_pager s)\<lparr>pgr_allocator := (pgr_allocator (cg_pager s))\<lparr>al_last_allocated_page := q + 1\<rparr>, pgr_storage := st\<rparr>"
  let ?s = "s\<lparr>cg_pager := ?g\<rparr>"
  have al: "cg_allocate_page e s = (Ok q, ?s)"
    using assms(2) st by (simp add: cg_allocate_page_def pager_allocate_page_def allocate_page_def frontier_def Let_def)
  have pg: "cg_page ?s = cg_page (set_storage st s)" by (simp add: cg_page_def set_storage_def fun_eq_iff)
  have q: "q \<notin> cached e s" using assms(2) by (auto simp: frontier_def)
  have "agrees (pc_lookup (env_hash e) (cg_cache s)) (cg_page ?s)"
    unfolding agrees_def pg
  proof (intro allI impI)
    fix p v assume p: "pc_lookup (env_hash e) (cg_cache s) p = Some v"
    then have "p \<noteq> q" "cg_page s p = Some v" "addressable p"
      using q assms(1) unfolding cg_inv_def agrees_def cached_def by blast+
    then show "cg_page (set_storage st s) p = Some v" using set_storage_page(2) [OF assms(3) st] by blast
  qed
  then have "cg_inv e ?s" using assms(1) by (simp add: cg_inv_def)
  then show ?thesis
    using that [of ?s] al set_storage_page(2) [OF assms(3) st] pg assms(2) by (simp add: frontier_def)
qed

section \<open>Chains\<close>

fun chain :: "env \<Rightarrow> cpager \<Rightarrow> page_id list \<Rightarrow> bytes list \<Rightarrow> bool" where
  "chain e s [] [] \<longleftrightarrow> True"
| "chain e s (p # ps) (d # ds) \<longleftrightarrow>
     ov_at e s p (overflow_with_data d (case ps of [] \<Rightarrow> 0 | q # _ \<Rightarrow> q)) \<and> chain e s ps ds"
| "chain e s _ _ \<longleftrightarrow> False"

lemma chain_length: "chain e s ps ds \<Longrightarrow> length ps = length ds"
  by (induction e s ps ds rule: chain.induct) auto

lemma chain_cong:
  assumes "chain e s ps ds" "\<And>p. p \<in> set ps \<Longrightarrow> cg_page s' p = cg_page s p"
  shows "chain e s' ps ds"
  using assms by (induction e s ps ds rule: chain.induct) (auto simp: ov_at_def)

lemma chain_last: "chain e s (ps @ [p]) (ds @ [d]) \<Longrightarrow> ov_at e s p (overflow_with_data d 0)"
proof (induction ps arbitrary: ds)
  case Nil
  then show ?case using chain_length [OF Nil] by simp
next
  case (Cons a ps)
  then show ?case using chain_length [OF Cons.prems] by (cases ds) auto
qed

lemma chain_extend:
  assumes "chain e s (ps @ [p]) (ds @ [d])" "\<And>a. a \<in> set ps \<Longrightarrow> cg_page s' a = cg_page s a"
    and "ov_at e s' p (overflow_with_data d q)" "ov_at e s' q (overflow_with_data d' 0)"
  shows "chain e s' (ps @ [p, q]) (ds @ [d, d'])"
  using assms(1,2)
proof (induction ps arbitrary: ds)
  case Nil
  then show ?case using chain_length [OF Nil(1)] assms(3,4) by simp
next
  case (Cons a ps)
  obtain b bs where ds: "ds = b # bs" using chain_length [OF Cons.prems(1)] by (cases ds) auto
  have "chain e s' (ps @ [p, q]) (bs @ [d, d'])" using Cons ds by auto
  moreover have "ov_at e s' a (overflow_with_data b (case ps @ [p, q] of [] \<Rightarrow> 0 | x # _ \<Rightarrow> x))"
    using Cons.prems ds by (cases ps) (auto simp: ov_at_def)
  ultimately show ?case using ds by simp
qed

lemma data_valid: "length d \<le> OVERFLOW_DATA_SIZE \<Longrightarrow> overflow_validate (overflow_with_data d q) = Ok ()"
  by (simp add: overflow_validate_Ok overflow_with_data_def)

lemma overflow_new_valid: "overflow_validate overflow_new = Ok ()"
  by (simp add: overflow_validate_Ok overflow_new_def)

text \<open>One page of a chain: allocated, written empty, written with its chunk.\<close>

lemma new_chunk_spec:
  assumes inv: "cg_inv e s" and fr: "frontier e s q" and q: "addressable q" "q + 1 > q"
    and room: "cg_room (Suc (Suc n)) s" and d: "length d \<le> OVERFLOW_DATA_SIZE"
  obtains s1 s2 where "allocate_overflow_page e s = (Ok q, s1)"
    "write_overflow_page e q (overflow_with_data d 0) s1 = (Ok (), s2)" "cg_inv e s2" "cg_room n s2"
    "frontier e s2 (q + 1)" "ov_at e s2 q (overflow_with_data d 0)"
    "\<And>p x. addressable p \<Longrightarrow> p \<noteq> q \<Longrightarrow> cg_page s p = Some x \<Longrightarrow> cg_page s2 p = Some x"
proof -
  obtain s0 where s0: "cg_allocate_page e s = (Ok q, s0)" "cg_inv e s0" "cg_cache s0 = cg_cache s"
    "al_free_pages (pgr_allocator (cg_pager s0)) = []" "al_last_allocated_page (pgr_allocator (cg_pager s0)) = q + 1"
    "\<And>p x. addressable p \<Longrightarrow> p \<noteq> q \<Longrightarrow> cg_page s p = Some x \<Longrightarrow> cg_page s0 p = Some x"
    using cg_allocate_page_spec [OF inv fr q(1)] by metis
  have room0: "cg_room (Suc (Suc n)) s0" using room s0(3) by (simp add: cg_room_def)
  obtain s1 where s1: "write_overflow_page e q overflow_new s0 = (Ok (), s1)" "cg_inv e s1" "cg_room (Suc n) s1"
    "\<And>p x. addressable p \<Longrightarrow> p \<noteq> q \<Longrightarrow> cg_page s0 p = Some x \<Longrightarrow> cg_page s1 p = Some x"
    "pgr_allocator (cg_pager s1) = pgr_allocator (cg_pager s0)" "cached e s1 \<subseteq> insert q (cached e s0)"
    using write_overflow_page_spec [OF s0(2) room0 q(1) overflow_new_valid] by metis
  obtain s2 where s2: "write_overflow_page e q (overflow_with_data d 0) s1 = (Ok (), s2)" "cg_inv e s2" "cg_room n s2"
    "ov_at e s2 q (overflow_with_data d 0)"
    "\<And>p x. addressable p \<Longrightarrow> p \<noteq> q \<Longrightarrow> cg_page s1 p = Some x \<Longrightarrow> cg_page s2 p = Some x"
    "pgr_allocator (cg_pager s2) = pgr_allocator (cg_pager s1)" "cached e s2 \<subseteq> insert q (cached e s1)"
    using write_overflow_page_spec [OF s1(2,3) q(1) data_valid [OF d, of 0]] by metis
  have "cached e s0 = cached e s" using s0(3) by (simp add: cached_def)
  then have "cached e s2 \<subseteq> insert q (cached e s)" using s2(7) s1(6) by blast
  moreover have "\<forall>p \<in> insert q (cached e s). p < q + 1"
    using fr q(2) by (auto simp: frontier_def intro: order.strict_trans)
  ultimately have "\<forall>p \<in> cached e s2. p < q + 1" by blast
  then have fr2: "frontier e s2 (q + 1)"
    using s0(4,5) s1(5) s2(6) by (simp add: frontier_def)
  have al: "allocate_overflow_page e s = (Ok q, s1)"
    using s0(1) s1(1) by (simp add: allocate_overflow_page_def then_do_Ok)
  have other: "cg_page s2 p = Some x" if "addressable p" "p \<noteq> q" "cg_page s p = Some x" for p x
    using s2(5) [OF that(1,2) s1(4) [OF that(1,2) s0(6) [OF that]]] .
  show ?thesis by (rule that [OF al s2(1-3) fr2 s2(4) other])
qed

lemma link_spec:
  assumes "cg_inv e s" "cg_room (Suc (Suc n)) s" "addressable p" "ov_at e s p (overflow_with_data d 0)"
    "frontier e s q" "p < q"
  obtains s' where "link_overflow_page e p r s = (Ok (), s')" "cg_inv e s'" "cg_room n s'" "frontier e s' q"
    "ov_at e s' p (overflow_with_data d r)"
    "\<And>a x. addressable a \<Longrightarrow> a \<noteq> p \<Longrightarrow> cg_page s a = Some x \<Longrightarrow> cg_page s' a = Some x"
proof -
  obtain s1 where s1: "read_overflow_page e p s = (Ok (overflow_with_data d 0), s1)" "cg_inv e s1" "cg_room (Suc n) s1"
    "cg_pager s1 = cg_pager s" "cached e s1 \<subseteq> insert p (cached e s)"
    using read_overflow_page_spec [OF assms(1-4)] by metis
  have d: "length d \<le> OVERFLOW_DATA_SIZE"
    using assms(4) by (simp add: ov_at_def overflow_validate_Ok overflow_with_data_def)
  obtain s2 where s2: "write_overflow_page e p (overflow_with_data d r) s1 = (Ok (), s2)" "cg_inv e s2" "cg_room n s2"
    "ov_at e s2 p (overflow_with_data d r)"
    "\<And>a x. addressable a \<Longrightarrow> a \<noteq> p \<Longrightarrow> cg_page s1 a = Some x \<Longrightarrow> cg_page s2 a = Some x"
    "pgr_allocator (cg_pager s2) = pgr_allocator (cg_pager s1)" "cached e s2 \<subseteq> insert p (cached e s1)"
    using write_overflow_page_spec [OF s1(2,3) assms(3) data_valid [OF d, of r]] by metis
  have "set_next_page r (overflow_with_data d 0) = overflow_with_data d r"
    by (simp add: set_next_page_def overflow_with_data_def)
  then have ln: "link_overflow_page e p r s = (Ok (), s2)"
    using s1(1) s2(1) by (simp add: link_overflow_page_def then_do_Ok)
  have "cached e s2 \<subseteq> insert p (cached e s)" using s1(5) s2(7) by blast
  then have fr: "frontier e s2 q"
    using assms(5,6) s1(4) s2(6) unfolding frontier_def by auto
  have "cg_page s1 = cg_page s" using s1(4) by (simp add: cg_page_def fun_eq_iff)
  then have other: "cg_page s2 a = Some x" if "addressable a" "a \<noteq> p" "cg_page s a = Some x" for a x
    using s2(5) [OF that(1,2)] that(3) by simp
  show ?thesis by (rule that [OF ln s2(2,3) fr s2(4) other])
qed

section \<open>The writer\<close>

definition chain_pages :: "page_id list \<Rightarrow> page_id \<Rightarrow> bool" where
  "chain_pages ps q \<longleftrightarrow> distinct ps \<and> (\<forall>p \<in> set ps. 0 < p \<and> p < q)"

lemma unat_succ: "unat (q :: page_id) + 1 < 2 ^ 64 \<Longrightarrow> unat (q + 1) = unat q + 1"
  by (simp add: unat_word_ariths)

lemma addressable_below: "p < q \<Longrightarrow> unat q \<le> 2 ^ 48 \<Longrightarrow> addressable p"
  by (simp add: addressable_def word_less_nat_alt)

lemma chain_present: "chain e s ps ds \<Longrightarrow> p \<in> set ps \<Longrightarrow> \<exists>x. cg_page s p = Some x"
  by (induction e s ps ds rule: chain.induct) (auto simp: ov_at_def)

text \<open>Linking the last page of the chain to the page that was just written.\<close>

lemma attach_spec:
  assumes inv: "cg_inv e s" "cg_room (Suc (Suc n)) s" "frontier e s (q + 1)"
    and new: "ov_at e s q (overflow_with_data d 0)"
    and ch: "chain e s ps ds" "chain_pages ps q" "addressable q" "q < q + 1"
  obtains s' where "(case if ps = [] then None else Some (last ps) of
      Some prev_id \<Rightarrow> link_overflow_page e prev_id q | None \<Rightarrow> ret ()) s = (Ok (), s')"
    "cg_inv e s'" "cg_room n s'" "frontier e s' (q + 1)" "chain e s' (ps @ [q]) (ds @ [d])"
    "\<And>a x. a < q \<Longrightarrow> a \<notin> set ps \<Longrightarrow> cg_page s a = Some x \<Longrightarrow> cg_page s' a = Some x"
proof (cases "ps = []")
  case True
  then have "ds = []" using chain_length [OF ch(1)] by simp
  then show ?thesis using that [of s] True inv new cg_room_less [OF inv(2), of n] by simp
next
  case False
  obtain pp p where ps: "ps = pp @ [p]" using False by (cases ps rule: rev_cases) auto
  obtain dd d' where ds: "ds = dd @ [d']"
    using chain_length [OF ch(1)] False by (cases ds rule: rev_cases) auto
  have below: "addressable a" if "a < q" for a
    using that addressable_below [of a q] ch(3) by (simp add: addressable_def)
  have pages: "\<And>a. a \<in> set ps \<Longrightarrow> a < q" using ch(2) by (simp add: chain_pages_def)
  have p: "p < q" "p \<noteq> q" "addressable p" "p < q + 1" using pages below ps ch(4) by (auto intro: order.strict_trans)
  obtain s' where s': "link_overflow_page e p q s = (Ok (), s')" "cg_inv e s'" "cg_room n s'"
    "frontier e s' (q + 1)" "ov_at e s' p (overflow_with_data d' q)"
    "\<And>a x. addressable a \<Longrightarrow> a \<noteq> p \<Longrightarrow> cg_page s a = Some x \<Longrightarrow> cg_page s' a = Some x"
    using link_spec [OF inv(1,2) p(3) chain_last [OF ch(1) [unfolded ps ds]] inv(3) p(4), of q] by metis
  have same: "cg_page s' a = cg_page s a" if "a \<in> set pp" for a
  proof -
    have "a \<in> set ps" "a \<noteq> p" using that ps ch(2) by (auto simp: chain_pages_def)
    then show ?thesis using s'(6) below [OF pages] chain_present [OF ch(1), of a] by fastforce
  qed
  have "ov_at e s' q (overflow_with_data d 0)"
    using new s'(6) [OF ch(3), of "page_to_bytes (overflow_image e q (overflow_with_data d 0))"] p(2)
    by (auto simp: ov_at_def)
  then have "chain e s' (ps @ [q]) (ds @ [d])"
    using chain_extend [OF ch(1) [unfolded ps ds] same s'(5)] ps ds by simp
  moreover have "cg_page s' a = Some x" if "a < q" "a \<notin> set ps" "cg_page s a = Some x" for a x
    using s'(6) [of a x] below [of a] that ps by simp
  ultimately show ?thesis using that [of s'] s'(1-4) ps by simp
qed

lemma write_chunks_spec:
  assumes "cg_inv e s" "frontier e s q" "cg_room (4 * length chunks + n) s"
    and "\<forall>d \<in> set chunks. length d \<le> OVERFLOW_DATA_SIZE" "unat q + length chunks \<le> 2 ^ 48" "0 < q"
    and "chain e s ps ds" "chain_pages ps q"
  shows "\<exists>s' qs. write_chunks e chunks (case ps of [] \<Rightarrow> None | p # _ \<Rightarrow> Some p)
       (if ps = [] then None else Some (last ps)) s =
       (Ok (case ps @ qs of [] \<Rightarrow> None | p # _ \<Rightarrow> Some p), s') \<and>
     chain e s' (ps @ qs) (ds @ chunks) \<and> cg_inv e s' \<and> cg_room n s' \<and>
     chain_pages (ps @ qs) (q + word_of_nat (length chunks)) \<and> length qs = length chunks \<and>
     (chunks \<noteq> [] \<longrightarrow> hd qs = q) \<and>
     (\<forall>a x. a < q \<longrightarrow> a \<notin> set ps \<longrightarrow> cg_page s a = Some x \<longrightarrow> cg_page s' a = Some x)"
  using assms
proof (induction chunks arbitrary: s q ps ds)
  case Nil
  then show ?case by (intro exI [of _ s] exI [of _ "[]"]) simp
next
  case (Cons d chunks)
  let ?first = "case ps of [] \<Rightarrow> None | p # _ \<Rightarrow> Some p"
  have q: "addressable q" "unat (q + 1) = unat q + 1"
    using Cons.prems(5) by (simp_all add: addressable_def unat_succ)
  then have q1: "q < q + 1" by (simp add: word_less_nat_alt)
  have d: "length d \<le> OVERFLOW_DATA_SIZE" using Cons.prems(4) by simp
  have "4 * length (d # chunks) + n = Suc (Suc (Suc (Suc (4 * length chunks + n))))" by simp
  then have room: "cg_room (Suc (Suc (Suc (Suc (4 * length chunks + n))))) s" using Cons.prems(3) by metis
  obtain s1 s2 where s2: "allocate_overflow_page e s = (Ok q, s1)"
    "write_overflow_page e q (overflow_with_data d 0) s1 = (Ok (), s2)" "cg_inv e s2"
    "cg_room (Suc (Suc (4 * length chunks + n))) s2" "frontier e s2 (q + 1)" "ov_at e s2 q (overflow_with_data d 0)"
    "\<And>p x. addressable p \<Longrightarrow> p \<noteq> q \<Longrightarrow> cg_page s p = Some x \<Longrightarrow> cg_page s2 p = Some x"
    by (rule new_chunk_spec [OF Cons.prems(1,2) q(1) q1 room d], rule that)
  have below: "addressable a" "a \<noteq> q" if "a < q" for a
    using that addressable_below [of a q] Cons.prems(5) by auto
  have pages: "\<And>p. p \<in> set ps \<Longrightarrow> p < q" using Cons.prems(8) by (simp add: chain_pages_def)
  have kept: "cg_page s2 p = cg_page s p" if "p \<in> set ps" for p
    using s2(7) below [OF pages [OF that]] chain_present [OF Cons.prems(7) that] by fastforce
  obtain s3 where s3: "(case if ps = [] then None else Some (last ps) of
      Some prev_id \<Rightarrow> link_overflow_page e prev_id q | None \<Rightarrow> ret ()) s2 = (Ok (), s3)"
    "cg_inv e s3" "cg_room (4 * length chunks + n) s3" "frontier e s3 (q + 1)" "chain e s3 (ps @ [q]) (ds @ [d])"
    "\<And>a x. a < q \<Longrightarrow> a \<notin> set ps \<Longrightarrow> cg_page s2 a = Some x \<Longrightarrow> cg_page s3 a = Some x"
    using attach_spec [OF s2(3-6) chain_cong [OF Cons.prems(7) kept] Cons.prems(8) q(1) q1] by metis
  have cp: "chain_pages (ps @ [q]) (q + 1)"
    using Cons.prems(6,8) q1 pages by (auto simp: chain_pages_def intro: order.strict_trans)
  have q0: "0 < q + 1" using Cons.prems(6) q1 by (rule order.strict_trans)
  have pr: "\<forall>d \<in> set chunks. length d \<le> OVERFLOW_DATA_SIZE" "unat (q + 1) + length chunks \<le> 2 ^ 48"
    using Cons.prems(4,5) q(2) by auto
  obtain s' qs where IH: "write_chunks e chunks (case ps @ [q] of [] \<Rightarrow> None | p # _ \<Rightarrow> Some p)
       (if ps @ [q] = [] then None else Some (last (ps @ [q]))) s3 =
       (Ok (case (ps @ [q]) @ qs of [] \<Rightarrow> None | p # _ \<Rightarrow> Some p), s')"
    "chain e s' ((ps @ [q]) @ qs) ((ds @ [d]) @ chunks)" "cg_inv e s'" "cg_room n s'"
    "chain_pages ((ps @ [q]) @ qs) (q + 1 + word_of_nat (length chunks))" "length qs = length chunks"
    "\<forall>a x. a < q + 1 \<longrightarrow> a \<notin> set (ps @ [q]) \<longrightarrow> cg_page s3 a = Some x \<longrightarrow> cg_page s' a = Some x"
    using Cons.IH [OF s3(2,4,3) pr q0 s3(5) cp] by blast
  have first: "(case if ps = [] then None else Some (last ps) of Some _ \<Rightarrow> ?first | None \<Rightarrow> Some q) =
      (case ps @ [q] of [] \<Rightarrow> None | p # _ \<Rightarrow> Some p)"
    by (cases ps) auto
  have "write_chunks e (d # chunks) ?first (if ps = [] then None else Some (last ps)) s =
      (Ok (case ps @ (q # qs) of [] \<Rightarrow> None | p # _ \<Rightarrow> Some p), s')"
    using s2(1,2) s3(1) IH(1) first by (simp add: then_do_Ok)
  moreover have "cg_page s' a = Some x" if "a < q" "a \<notin> set ps" "cg_page s a = Some x" for a x
  proof -
    have "cg_page s3 a = Some x" using s3(6) [OF that(1,2) s2(7) [OF below [OF that(1)] that(3)]] .
    moreover have "a < q + 1" "a \<notin> set (ps @ [q])" using that(1,2) q1 by (auto intro: order.strict_trans)
    ultimately show ?thesis using IH(7) by blast
  qed
  ultimately show ?case
    using IH by (intro exI [of _ s'] exI [of _ "q # qs"]) (simp add: add.assoc)
qed

section \<open>The reader\<close>

lemma read_chain_spec:
  assumes "chain e s (p # ps) (d # ds)" "cg_inv e s" "cg_room (Suc (length ps) + n) s"
    and "distinct (p # ps)" "set (p # ps) \<inter> set visited = {}" "\<forall>q \<in> set (p # ps). addressable q \<and> q \<noteq> 0"
    and "length visited + Suc (length ps) \<le> 2000"
  shows "\<exists>s'. read_chain_loop e visited buffer p s = (Ok (buffer @ concat (d # ds)), s') \<and>
    cg_pager s' = cg_pager s \<and> cg_inv e s' \<and> cg_room n s'"
  using assms
proof (induction ps arbitrary: p d ds s visited buffer)
  case Nil
  then have ds: "ds = []" using chain_length [OF Nil.prems(1)] by simp
  have ov: "ov_at e s p (overflow_with_data d 0)" using Nil.prems(1) ds by simp
  have room: "cg_room (Suc n) s" and p: "addressable p" "p \<notin> set visited" using Nil.prems by auto
  obtain s' where "read_overflow_page e p s = (Ok (overflow_with_data d 0), s')" "cg_inv e s'" "cg_room n s'"
    "cg_pager s' = cg_pager s"
    by (rule read_overflow_page_spec [OF Nil.prems(2) room p(1) ov], rule that)
  then show ?case
    using Nil.prems(7) p(2) ds
    by (subst read_chain_loop.simps) (simp add: then_do_Ok overflow_is_last_def overflow_with_data_def)
next
  case (Cons q ps)
  obtain d' ds' where ds: "ds = d' # ds'" using chain_length [OF Cons.prems(1)] by (cases ds) auto
  have ov: "ov_at e s p (overflow_with_data d q)" and rest: "chain e s (q # ps) (d' # ds')"
    using Cons.prems(1) ds by simp_all
  have room: "cg_room (Suc (Suc (length ps) + n)) s" and p: "addressable p" "p \<notin> set visited" "q \<noteq> 0"
    using Cons.prems by auto
  obtain s1 where s1: "read_overflow_page e p s = (Ok (overflow_with_data d q), s1)" "cg_inv e s1"
    "cg_room (Suc (length ps) + n) s1" "cg_pager s1 = cg_pager s"
    by (rule read_overflow_page_spec [OF Cons.prems(2) room p(1) ov], rule that)
  have "chain e s1 (q # ps) (d' # ds')"
    by (rule chain_cong [OF rest]) (simp add: cg_page_def s1(4))
  then obtain s' where s': "read_chain_loop e (p # visited) (buffer @ d) q s1 =
      (Ok ((buffer @ d) @ concat (d' # ds')), s')" "cg_pager s' = cg_pager s1" "cg_inv e s'" "cg_room n s'"
    using Cons.IH [of s1 q d' ds' "p # visited" "buffer @ d"] s1(2,3) Cons.prems(4-7) by auto
  have "read_chain_loop e visited buffer p s = (Ok (buffer @ concat (d # ds)), s')"
    using s1(1) s'(1) p(2,3) ds Cons.prems(7)
    by (subst read_chain_loop.simps) (simp add: then_do_Ok overflow_is_last_def overflow_with_data_def)
  then show ?case using s' s1(4) by simp
qed

section \<open>Cutting a value into chunks\<close>

lemma concat_chunks: "concat (map (\<lambda>i. subslice (i * k) k v) [0..<n]) = take (n * k) v"
proof (induction n)
  case (Suc n)
  have "concat (map (\<lambda>i. subslice (i * k) k v) [0..<Suc n]) = take (n * k) v @ subslice (n * k) k v"
    using Suc by simp
  also have "\<dots> = take (Suc n * k) v"
    using take_subslice_join(1) [of "n * k" v k] by (simp only: mult_Suc add.commute)
  finally show ?case .
qed simp

lemma pages_needed_covers: "n \<le> pages_needed n * OVERFLOW_DATA_SIZE"
  unfolding pages_needed_def OVERFLOW_DATA_SIZE_def by auto

lemma value_chunks_spec:
  "concat (value_chunks val) = val" "\<forall>d \<in> set (value_chunks val). length d \<le> OVERFLOW_DATA_SIZE"
  "length (value_chunks val) = pages_needed (length val)"
  using pages_needed_covers [of "length val"]
  by (simp_all add: value_chunks_def concat_chunks)

lemma pages_needed_bounds:
  assumes "0 < n" "n \<le> OVERFLOW_MAX_VALUE_SIZE"
  shows "0 < pages_needed n \<and> pages_needed n \<le> 1028"
  using assms by (auto simp: pages_needed_def overflow_consts)

section \<open>Round trip\<close>

text \<open>
  C19. A value of 1 to 16777215 bytes that \<open>Pager::allocate_overflow_chain\<close> writes is returned unchanged by
  \<open>read_overflow_chain\<close> at the page it names, and no page below the allocation frontier is changed. The free list must be
  empty, so that the chain takes new pages, which must have numbers below \<open>2^48\<close>; and the page cache must be coherent with the
  storage, hold only pages that the allocator has handed out, and have room for five times the pages of the chain. A full cache under the
  ARC policy, which never evicts, fails instead.
\<close>

theorem overflow_chain_roundtrip:
  assumes "cg_inv e s" "frontier e s q" "0 < q" "unat q + pages_needed (length val) \<le> 2 ^ 48"
    and "cg_room (5 * pages_needed (length val)) s" "0 < length val" "length val \<le> OVERFLOW_MAX_VALUE_SIZE"
  shows "\<exists>s1 s2. allocate_overflow_chain e val s = (Ok q, s1) \<and> read_overflow_chain e q s1 = (Ok val, s2) \<and>
    (\<forall>a x. a < q \<longrightarrow> cg_page s a = Some x \<longrightarrow> cg_page s2 a = Some x)"
proof -
  let ?n = "pages_needed (length val)"
  note ch = value_chunks_spec [of val]
  note np = pages_needed_bounds [OF assms(6,7)]
  have room: "cg_room (4 * length (value_chunks val) + ?n) s" using assms(5) ch(3) by (simp add: algebra_simps)
  obtain s1 qs where w: "write_chunks e (value_chunks val) None None s =
      (Ok (case qs of [] \<Rightarrow> None | p # _ \<Rightarrow> Some p), s1)"
    "chain e s1 qs (value_chunks val)" "cg_inv e s1" "cg_room ?n s1" "chain_pages qs (q + word_of_nat ?n)"
    "length qs = ?n" "hd qs = q" "\<forall>a x. a < q \<longrightarrow> cg_page s a = Some x \<longrightarrow> cg_page s1 a = Some x"
    using write_chunks_spec [OF assms(1,2) room ch(2) _ assms(3), of "[]" "[]"] assms(4) ch(3) np
    by (auto simp: chain_pages_def)
  obtain ps where qs: "qs = q # ps" using w(6,7) np by (cases qs) auto
  obtain d ds where ds: "value_chunks val = d # ds" using ch(3) np by (cases "value_chunks val") auto
  have len: "Suc (length ps) = ?n" using w(6) qs by simp
  have "unat (q + word_of_nat ?n) = unat q + ?n"
    using assms(4) np by (simp add: unat_word_ariths unat_of_nat)
  then have adr: "\<forall>a \<in> set (q # ps). addressable a \<and> a \<noteq> 0"
    using w(5) qs assms(4) by (auto simp: chain_pages_def intro!: addressable_below)
  obtain s2 where r: "read_chain_loop e [] [] q s1 = (Ok ([] @ concat (d # ds)), s2)" "cg_pager s2 = cg_pager s1"
    using read_chain_spec [of e s1 q ps d ds 0 "[]" "[]"] w(2-5) qs ds adr len np by (auto simp: chain_pages_def)
  have "allocate_overflow_chain e val s = (Ok q, s1)"
    using w(1) qs assms(6) by (auto simp: allocate_overflow_chain_def then_do_Ok)
  moreover have "read_overflow_chain e q s1 = (Ok val, s2)"
    using r(1) ch(1) ds by (simp add: read_overflow_chain_def)
  moreover have "cg_page s2 = cg_page s1" using r(2) by (simp add: cg_page_def fun_eq_iff)
  ultimately show ?thesis using w(8) by auto
qed

definition sample_env :: env where
  "sample_env = \<lparr>env_crc = (\<lambda>_. 0), env_hash = unat, env_ord = (\<lambda>ks. ks), env_num_cpus = 1\<rparr>"

theorem overflow_chain_roundtrip_witness:
  "\<exists>s s1 s2. cg_create_memory sample_env = Ok s \<and>
     allocate_overflow_chain sample_env [7, 8, 9] s = (Ok 3, s1) \<and> read_overflow_chain sample_env 3 s1 = (Ok [7, 8, 9], s2)"
proof -
  have "usize_is_power_of_two (env_num_cpus sample_env)"
    unfolding usize_is_power_of_two_def by (rule bexI [of _ 0]) (simp_all add: sample_env_def)
  then obtain s where s: "cg_create_memory sample_env = Ok s" using cg_create_memory_total by blast
  note spec = cg_create_memory_spec [OF s]
  have "frontier sample_env s 3" using spec(2,4) by (simp add: frontier_def allocator_new_def)
  moreover have "pages_needed (length [7, 8, 9 :: u8]) = 1" by (simp add: pages_needed_def overflow_consts)
  ultimately show ?thesis
    using overflow_chain_roundtrip [OF spec(1), of 3 "[7, 8, 9]"] spec(3) [of 5] s
    by (auto simp: overflow_consts)
qed

end
