(* ===== verification/Btree_Ops.thy ===== *)
theory Btree_Ops
  imports Cached_Pager
begin

text \<open>
  The node level operations of the B+tree: \<^verbatim>\<open>btree/insert.rs\<close>, \<^verbatim>\<open>btree/delete.rs\<close>,
  \<^verbatim>\<open>btree/merge.rs\<close>, \<^verbatim>\<open>btree/borrow.rs\<close> and \<^verbatim>\<open>btree/search.rs\<close>. The trait \<open>PagerTrait\<close> is used
  at its one implementation, the pager. A node that a function changes through a mutable reference
  is returned with the result.

  Floating point: the occupancy bounds \<open>(max as f64 * 0.4) as u16\<close> are the numbers they evaluate to,
  and \<open>needs_split\<close>, which compares \<open>used / 16324\<close> with \<open>0.8\<close>, is the comparison of the exact
  rational: \<open>5 * used = 65296\<close> has no integer solution, so the quotient differs from \<open>0.8\<close> by at
  least \<open>1 / 81620\<close>, far more than the rounding error of a double.
\<close>

section \<open>insert.rs\<close>

datatype insert_result = InsertSuccess | InsertSplit page_id bytes

definition needs_split :: "node_header \<Rightarrow> bool" where
  "needs_split h \<longleftrightarrow> 65296 \<le> 5 * (16324 - uint (nh_free_space h))"

fun leaf_insert_all :: "leaf_node \<Rightarrow> entry list \<Rightarrow> leaf_node outcome" where
  "leaf_insert_all n [] = Ok n"
| "leaf_insert_all n (e # es) = and_then (leaf_insert n e) (\<lambda>(n', _). leaf_insert_all n' es)"

definition split_leaf_node :: "env \<Rightarrow> leaf_node \<Rightarrow> (cpager, leaf_node \<times> bytes \<times> leaf_node) proc" where
  "split_leaf_node e node =
     (let split_point = length (lf_entries node) div 2 in
      then_do (cg_allocate_page e) (\<lambda>new_page_id.
      then_do (pure_res (leaf_insert_all (leaf_new new_page_id) (drop split_point (lf_entries node)))) (\<lambda>new_node0.
      let entries = take split_point (lf_entries node);
          h = touch_header ((lf_header node)\<lparr>nh_num_keys := word_of_nat (length entries)\<rparr>);
          node1 = node\<lparr>lf_entries := entries, lf_header := h\<rparr>
      in then_do (pure_res (leaf_calculate_free_space node1)) (\<lambda>free.
         let node2 = node1\<lparr>lf_header := h\<lparr>nh_free_space := free\<rparr>\<rparr>;
             new_node = new_node0\<lparr>lf_next_leaf := lf_next_leaf node, lf_prev_leaf := nh_node_id (lf_header node)\<rparr>
         in then_do (write_btree_node e new_page_id (LeafN new_node)) (\<lambda>_.
            case lf_entries new_node of
              [] \<Rightarrow> raise (Validation (ValidationGeneric ''Split leaf has no entries''))
            | first # _ \<Rightarrow> ret (new_node, en_key first, node2))))))"

fun internal_insert_all :: "internal_node \<Rightarrow> (bytes \<times> u64) list \<Rightarrow> internal_node outcome" where
  "internal_insert_all n [] = Ok n"
| "internal_insert_all n ((sep, child) # ps) = and_then (internal_insert n sep child) (\<lambda>n'. internal_insert_all n' ps)"

definition split_internal_node :: "env \<Rightarrow> internal_node \<Rightarrow> (cpager, internal_node \<times> bytes \<times> internal_node) proc" where
  "split_internal_node e node =
     (let split_point = length (in_separators node) div 2 in
      then_do (cg_allocate_page e) (\<lambda>new_page_id.
      if length (in_children node) < split_point + 1 then pure_res Panic
      else
      then_do (pure_res (internal_insert_all (internal_new new_page_id (nh_level (in_header node)))
         (zip (drop split_point (in_separators node)) (drop (split_point + 1) (in_children node))))) (\<lambda>new_node0.
      if in_children node = [] \<or> length (in_separators node) \<le> split_point then pure_res Panic
      else
      let new_node = set_rightmost_child new_node0 (last (in_children node));
          separator = in_separators node ! split_point;
          seps = take split_point (in_separators node);
          h = touch_header ((in_header node)\<lparr>nh_num_keys := word_of_nat (length seps)\<rparr>);
          node1 = \<lparr>in_header = h, in_separators = seps, in_children = take (split_point + 1) (in_children node)\<rparr>
      in then_do (pure_res (internal_calculate_free_space node1)) (\<lambda>free.
         then_do (write_btree_node e new_page_id (InternalN new_node)) (\<lambda>_.
         ret (new_node, separator, node1\<lparr>in_header := h\<lparr>nh_free_space := free\<rparr>\<rparr>))))))"

definition insert_into_leaf :: "env \<Rightarrow> leaf_node \<Rightarrow> entry \<Rightarrow> (cpager, insert_result \<times> leaf_node) proc" where
  "insert_into_leaf e node en =
     (if has_space (lf_header node) (serialized_size en) then
        then_do (pure_res (leaf_insert node en)) (\<lambda>(node1, is_update).
        if is_update then ret (InsertSuccess, node1)
        else if needs_split (lf_header node1) then
          then_do (split_leaf_node e node1) (\<lambda>(new_node, separator, node2).
          ret (InsertSplit (nh_node_id (lf_header new_node)) separator, node2))
        else ret (InsertSuccess, node1))
      else if needs_split (lf_header node) then
        then_do (split_leaf_node e node) (\<lambda>(new_node, separator, node1).
        then_do (if en_key en < separator then then_do (pure_res (leaf_insert node1 en)) (\<lambda>(node2, _). ret node2)
                 else ret node1) (\<lambda>node2.
        ret (InsertSplit (nh_node_id (lf_header new_node)) separator, node2)))
      else raise (Storage (PagerError ''Leaf node full and cannot split'')))"

definition insert_into_internal :: "env \<Rightarrow> internal_node \<Rightarrow> bytes \<Rightarrow> u64 \<Rightarrow> (cpager, insert_result \<times> internal_node) proc" where
  "insert_into_internal e node separator child_id =
     (if has_space (in_header node) (1 + length separator + 8) then
        then_do (pure_res (internal_insert node separator child_id)) (\<lambda>node1.
        if needs_split (in_header node1) then
          then_do (split_internal_node e node1) (\<lambda>(new_node, sep, node2).
          ret (InsertSplit (nh_node_id (in_header new_node)) sep, node2))
        else ret (InsertSuccess, node1))
      else if needs_split (in_header node) then
        then_do (split_internal_node e node) (\<lambda>(new_node, sep, node1).
        then_do (if separator < sep then pure_res (internal_insert node1 separator child_id) else ret node1) (\<lambda>node2.
        ret (InsertSplit (nh_node_id (in_header new_node)) sep, node2)))
      else raise (Storage (PagerError ''Internal node full and cannot split'')))"

definition prepare_entry_value :: "env \<Rightarrow> bytes \<Rightarrow> bytes \<Rightarrow> lsn \<Rightarrow> (cpager, entry) proc" where
  "prepare_entry_value e key val l =
     (if OVERFLOW_MAX_VALUE_SIZE < length val then
        raise (Validation (ValidationGeneric (''Value too large: '' @ fmt_nat (length val) @ '' bytes (max '' @
          fmt_nat OVERFLOW_MAX_VALUE_SIZE @ '')'')))
      else if should_store_inline (length val) then ret \<lparr>en_key = key, en_value = val, en_lsn = l\<rparr>
      else
        then_do (allocate_overflow_chain e val) (\<lambda>p.
        ret \<lparr>en_key = key, en_value = value_encode (OverflowV p), en_lsn = l\<rparr>))"

section \<open>delete.rs\<close>

datatype delete_result = DeleteSuccess | DeleteUnderfull page_id | DeleteMerged page_id

text \<open>\<open>(163 as f64 * 0.4) as u16\<close> and \<open>(816 as f64 * 0.4) as u16\<close>.\<close>

definition min_leaf_entries :: u16 where "min_leaf_entries = 65"
definition min_internal_entries :: u16 where "min_internal_entries = 326"

definition delete_from_leaf :: "leaf_node \<Rightarrow> bytes \<Rightarrow> (delete_result \<times> leaf_node) outcome" where
  "delete_from_leaf node key =
     and_then (leaf_remove node key) (\<lambda>(node1, removed).
       if removed \<noteq> None \<and> is_underfull (lf_header node1) min_leaf_entries
       then Ok (DeleteUnderfull (nh_node_id (lf_header node1)), node1)
       else Ok (DeleteSuccess, node1))"

definition delete_from_internal :: "internal_node \<Rightarrow> bytes \<Rightarrow> u64 \<Rightarrow> (delete_result \<times> internal_node) outcome" where
  "delete_from_internal node separator child_id =
     (let pos = search_pos (binary_search_by (\<lambda>probe. cmp probe separator) (in_separators node)) in
      if pos < length (in_separators node) \<and> in_separators node ! pos = separator then
        if length (in_children node) \<le> pos then Panic
        else
          let seps = vec_remove pos (in_separators node) in
          case checked_add (nh_free_space (in_header node)) (word_of_nat (1 + length separator + 8)) of
            None \<Rightarrow> Panic
          | Some free \<Rightarrow>
              let h = set_flag 2 ((in_header node)\<lparr>nh_num_keys := word_of_nat (length seps), nh_free_space := free\<rparr>);
                  node1 = \<lparr>in_header = h, in_separators = seps, in_children = vec_remove pos (in_children node)\<rparr>
              in if nh_num_keys h < min_internal_entries then Ok (DeleteUnderfull (nh_node_id h), node1)
                 else Ok (DeleteSuccess, node1)
      else Ok (DeleteSuccess, node))"

definition entries_bytes :: "leaf_node \<Rightarrow> nat" where
  "entries_bytes n = sum_list (map serialized_size (lf_entries n))"

definition merge_leaf_nodes :: "leaf_node \<Rightarrow> leaf_node \<Rightarrow> (leaf_node \<times> leaf_node) outcome" where
  "merge_leaf_nodes left right =
     (if DEFAULT_PAGE_SIZE - NODE_HEADER_SIZE < entries_bytes left + entries_bytes right then
        Err (Storage (PagerError ''Merged nodes would exceed capacity''))
      else and_then (leaf_insert_all left (lf_entries right)) (\<lambda>left1.
        Ok (left1\<lparr>lf_next_leaf := lf_next_leaf right\<rparr>, right\<lparr>lf_entries := []\<rparr>)))"

definition merge_internal_nodes :: "internal_node \<Rightarrow> internal_node \<Rightarrow> bytes \<Rightarrow> (internal_node \<times> internal_node) outcome" where
  "merge_internal_nodes left right separator =
     (case in_children right of
        [] \<Rightarrow> Panic
      | first # _ \<Rightarrow>
          and_then (internal_insert left separator first) (\<lambda>left1.
          and_then (internal_insert_all left1 (zip (in_separators right) (in_children right))) (\<lambda>left2.
          Ok (left2, right\<lparr>in_separators := [], in_children := []\<rparr>))))"

definition borrow_from_leaf_sibling :: "leaf_node \<Rightarrow> leaf_node \<Rightarrow> bool \<Rightarrow> (bytes \<times> leaf_node \<times> leaf_node) outcome" where
  "borrow_from_leaf_sibling underfull sibling is_left_sibling =
     (if is_left_sibling then
        if lf_entries sibling = [] then Err (Validation (ValidationGeneric ''Left sibling is empty''))
        else
          let en = last (lf_entries sibling) in
          and_then (leaf_insert underfull en) (\<lambda>(u, _).
          Ok (en_key en, u, sibling\<lparr>lf_entries := butlast (lf_entries sibling)\<rparr>))
      else
        case lf_entries sibling of
          [] \<Rightarrow> Err (Validation (ValidationGeneric ''Right sibling is empty''))
        | en # rest \<Rightarrow>
            and_then (leaf_insert underfull en) (\<lambda>(u, _). Ok (en_key en, u, sibling\<lparr>lf_entries := rest\<rparr>)))"

definition track_overflow_for_cleanup :: "entry \<Rightarrow> page_id list \<Rightarrow> page_id list" where
  "track_overflow_for_cleanup en cleanup_list =
     (case get_overflow_page_id en of Some p \<Rightarrow> cleanup_list @ [p] | None \<Rightarrow> cleanup_list)"

section \<open>merge.rs\<close>

datatype merge_result = MergeSuccess page_id | MergeNotNeeded | CannotMerge | TryBorrow
datatype merge_direction = RightIntoLeft | LeftIntoRight

record merge_candidates =
  mc_has_left :: bool
  mc_has_right :: bool
  mc_left_page_id :: "page_id option"
  mc_right_page_id :: "page_id option"
  mc_recommended_direction :: "merge_direction option"

definition merge_candidates_new :: merge_candidates where
  "merge_candidates_new = \<lparr>mc_has_left = False, mc_has_right = False, mc_left_page_id = None,
     mc_right_page_id = None, mc_recommended_direction = None\<rparr>"

definition can_merge :: "merge_candidates \<Rightarrow> bool" where
  "can_merge c \<longleftrightarrow> mc_has_left c \<or> mc_has_right c"

definition can_merge_leaves :: "leaf_node \<Rightarrow> leaf_node \<Rightarrow> bool" where
  "can_merge_leaves left right \<longleftrightarrow>
     entries_bytes left + entries_bytes right \<le> DEFAULT_PAGE_SIZE - NODE_HEADER_SIZE \<and>
     length (lf_entries left) + length (lf_entries right) \<le> 65535"

text \<open>Both merges end by correcting the pointer of the neighbour, if that page holds a leaf.\<close>

definition relink_leaf :: "env \<Rightarrow> u64 \<Rightarrow> (leaf_node \<Rightarrow> leaf_node) \<Rightarrow> (cpager, unit) proc" where
  "relink_leaf e p f =
     (if p = 0 then ret ()
      else try_do (read_btree_node e p)
        (\<lambda>n. case n of LeafN l \<Rightarrow> write_btree_node e p (LeafN (f l)) | InternalN _ \<Rightarrow> ret ()) (ret ()))"

definition merge_leaf_right_into_left :: "env \<Rightarrow> leaf_node \<Rightarrow> leaf_node \<Rightarrow>
    (cpager, merge_result \<times> leaf_node \<times> leaf_node) proc" where
  "merge_leaf_right_into_left e left right =
     (if \<not> can_merge_leaves left right then ret (CannotMerge, left, right)
      else
        then_do (pure_res (leaf_insert_all left (lf_entries right))) (\<lambda>left1.
        let left2 = left1\<lparr>lf_next_leaf := lf_next_leaf right\<rparr> in
        then_do (relink_leaf e (lf_next_leaf left2) (\<lambda>l. l\<lparr>lf_prev_leaf := nh_node_id (lf_header left2)\<rparr>)) (\<lambda>_.
        ret (MergeSuccess (nh_node_id (lf_header right)), left2, right\<lparr>lf_entries := []\<rparr>))))"

definition merge_leaf_left_into_right :: "env \<Rightarrow> leaf_node \<Rightarrow> leaf_node \<Rightarrow>
    (cpager, merge_result \<times> leaf_node \<times> leaf_node) proc" where
  "merge_leaf_left_into_right e left right =
     (if \<not> can_merge_leaves left right then ret (CannotMerge, left, right)
      else
        let es = lf_entries left @ lf_entries right;
            right1 = right\<lparr>lf_entries := es, lf_header := (lf_header right)\<lparr>nh_num_keys := word_of_nat (length es)\<rparr>,
                           lf_prev_leaf := lf_prev_leaf left\<rparr>
        in then_do (relink_leaf e (lf_prev_leaf right1) (\<lambda>l. l\<lparr>lf_next_leaf := nh_node_id (lf_header right1)\<rparr>)) (\<lambda>_.
           ret (MergeSuccess (nh_node_id (lf_header left)), left\<lparr>lf_entries := []\<rparr>, right1)))"

definition can_merge_internals :: "internal_node \<Rightarrow> internal_node \<Rightarrow> nat \<Rightarrow> bool" where
  "can_merge_internals left right separator_len \<longleftrightarrow>
     (let total_separators = length (in_separators left) + length (in_separators right) + 1;
          total_children = length (in_children left) + length (in_children right)
      in total_separators * (8 + separator_len) + total_children * 8 \<le> DEFAULT_PAGE_SIZE - NODE_HEADER_SIZE \<and>
         total_separators \<le> 65535)"

text \<open>The loops over the children in the two internal merges read through a placeholder that always
  fails and change nothing.\<close>

definition merge_internal_right_into_left :: "internal_node \<Rightarrow> internal_node \<Rightarrow> bytes \<Rightarrow>
    (merge_result \<times> internal_node \<times> internal_node) outcome" where
  "merge_internal_right_into_left left right separator =
     (if \<not> can_merge_internals left right (length separator) then Ok (CannotMerge, left, right)
      else case in_children right of
        [] \<Rightarrow> Panic
      | first # _ \<Rightarrow>
          and_then (internal_insert left separator first) (\<lambda>left1.
          and_then (internal_insert_all left1 (zip (in_separators right) (in_children right))) (\<lambda>left2.
          Ok (MergeSuccess (nh_node_id (in_header right)), left2, right\<lparr>in_separators := [], in_children := []\<rparr>))))"

definition merge_internal_left_into_right :: "internal_node \<Rightarrow> internal_node \<Rightarrow> bytes \<Rightarrow>
    (merge_result \<times> internal_node \<times> internal_node) outcome" where
  "merge_internal_left_into_right left right separator =
     (if \<not> can_merge_internals left right (length separator) then Ok (CannotMerge, left, right)
      else if in_children left = [] then Panic
      else
        let moved = zip (in_separators left) (in_children left);
            seps = rev (map fst moved) @ separator # in_separators right;
            children = rev (map snd moved) @ last (in_children left) # in_children right
        in Ok (MergeSuccess (nh_node_id (in_header left)), left\<lparr>in_separators := [], in_children := []\<rparr>,
               \<lparr>in_header = (in_header right)\<lparr>nh_num_keys := word_of_nat (length seps)\<rparr>,
                in_separators = seps, in_children = children\<rparr>))"

text \<open>\<open>(326 as f64 * 0.4) as u16\<close>, in \<^verbatim>\<open>merge.rs\<close> and \<^verbatim>\<open>borrow.rs\<close>.\<close>

definition min_keys :: u16 where "min_keys = 130"

definition is_node_underfull :: "u16 \<Rightarrow> u16 \<Rightarrow> bool" where
  "is_node_underfull num_keys level \<longleftrightarrow> level \<noteq> 0 \<and> num_keys < min_keys"

text \<open>\<open>if let Ok(Node::Leaf(x)) = read_node(p)\<close>: an error of the read is ignored.\<close>

definition read_leaf :: "env \<Rightarrow> page_id \<Rightarrow> (cpager, leaf_node option) proc" where
  "read_leaf e p =
     try_do (read_btree_node e p) (\<lambda>n. ret (case n of LeafN l \<Rightarrow> Some l | InternalN _ \<Rightarrow> None)) (ret None)"

definition read_internal :: "env \<Rightarrow> page_id \<Rightarrow> (cpager, internal_node option) proc" where
  "read_internal e p =
     try_do (read_btree_node e p) (\<lambda>n. ret (case n of InternalN l \<Rightarrow> Some l | LeafN _ \<Rightarrow> None)) (ret None)"

definition get_leaf_merge_candidates :: "env \<Rightarrow> leaf_node \<Rightarrow> (cpager, merge_candidates) proc" where
  "get_leaf_merge_candidates e leaf =
     (let c = merge_candidates_new
            \<lparr>mc_has_left := lf_prev_leaf leaf \<noteq> 0,
             mc_left_page_id := (if lf_prev_leaf leaf \<noteq> 0 then Some (lf_prev_leaf leaf) else None),
             mc_has_right := lf_next_leaf leaf \<noteq> 0,
             mc_right_page_id := (if lf_next_leaf leaf \<noteq> 0 then Some (lf_next_leaf leaf) else None)\<rparr>
      in if mc_has_left c \<and> mc_has_right c then
           then_do (read_leaf e (lf_prev_leaf leaf)) (\<lambda>l.
             case l of
               None \<Rightarrow> ret c
             | Some left \<Rightarrow>
                 then_do (read_leaf e (lf_next_leaf leaf)) (\<lambda>r.
                   case r of
                     None \<Rightarrow> ret c
                   | Some right \<Rightarrow>
                       ret (c\<lparr>mc_recommended_direction :=
                         Some (if length (lf_entries left) \<le> length (lf_entries right) then LeftIntoRight else RightIntoLeft)\<rparr>)))
         else if mc_has_left c then ret (c\<lparr>mc_recommended_direction := Some LeftIntoRight\<rparr>)
         else if mc_has_right c then ret (c\<lparr>mc_recommended_direction := Some RightIntoLeft\<rparr>)
         else ret c)"

fun position :: "('a \<Rightarrow> bool) \<Rightarrow> 'a list \<Rightarrow> nat option" where
  "position P [] = None"
| "position P (x # xs) = (if P x then Some 0 else map_option Suc (position P xs))"

definition get_internal_merge_candidates :: "env \<Rightarrow> internal_node \<Rightarrow> (cpager, merge_candidates) proc" where
  "get_internal_merge_candidates e node =
     (if nh_parent_page_id (in_header node) = 0 then ret merge_candidates_new
      else
        then_do (read_internal e (nh_parent_page_id (in_header node))) (\<lambda>r.
        let c = (case r of
                   None \<Rightarrow> merge_candidates_new
                 | Some parent \<Rightarrow>
                     (case position (\<lambda>c. c = nh_node_id (in_header node)) (in_children parent) of
                        None \<Rightarrow> merge_candidates_new
                      | Some pos \<Rightarrow>
                          merge_candidates_new
                            \<lparr>mc_has_left := 0 < pos,
                             mc_left_page_id := (if 0 < pos then Some (in_children parent ! (pos - 1)) else None),
                             mc_has_right := pos + 1 < length (in_children parent),
                             mc_right_page_id := (if pos + 1 < length (in_children parent)
                                                  then Some (in_children parent ! (pos + 1)) else None)\<rparr>))
        in case (mc_left_page_id c, mc_right_page_id c) of
             (Some lp, Some rp) \<Rightarrow>
               then_do (read_internal e lp) (\<lambda>l.
                 case l of
                   None \<Rightarrow> ret c
                 | Some left \<Rightarrow>
                     then_do (read_internal e rp) (\<lambda>r.
                       case r of
                         None \<Rightarrow> ret c
                       | Some right \<Rightarrow>
                           ret (c\<lparr>mc_recommended_direction :=
                             Some (if length (in_separators left) \<le> length (in_separators right)
                                   then LeftIntoRight else RightIntoLeft)\<rparr>)))
           | (Some lp, None) \<Rightarrow> ret (c\<lparr>mc_recommended_direction := Some LeftIntoRight\<rparr>)
           | (None, Some rp) \<Rightarrow> ret (c\<lparr>mc_recommended_direction := Some RightIntoLeft\<rparr>)
           | (None, None) \<Rightarrow> ret c))"

section \<open>borrow.rs\<close>

datatype borrow_result = BorrowSuccess bytes | BorrowNotPossible | BorrowNotNeeded
datatype borrow_direction = FromRight | FromLeft

record borrow_candidates =
  bc_has_left :: bool
  bc_has_right :: bool
  bc_left_page_id :: "page_id option"
  bc_right_page_id :: "page_id option"
  bc_left_excess :: nat
  bc_right_excess :: nat
  bc_recommended_direction :: "borrow_direction option"

definition borrow_candidates_new :: borrow_candidates where
  "borrow_candidates_new = \<lparr>bc_has_left = False, bc_has_right = False, bc_left_page_id = None,
     bc_right_page_id = None, bc_left_excess = 0, bc_right_excess = 0, bc_recommended_direction = None\<rparr>"

definition can_borrow :: "borrow_candidates \<Rightarrow> bool" where
  "can_borrow c \<longleftrightarrow> bc_has_left c \<and> 0 < bc_left_excess c \<or> bc_has_right c \<and> 0 < bc_right_excess c"

definition can_borrow_from_sibling :: "u16 \<Rightarrow> u16 \<Rightarrow> bool" where
  "can_borrow_from_sibling donor_num_keys borrower_num_keys \<longleftrightarrow>
     (let donor_excess = saturating_sub donor_num_keys min_keys;
          borrower_need = saturating_sub min_keys borrower_num_keys
      in 0 < donor_excess \<and> borrower_need \<le> donor_excess)"

definition borrow_from_right_leaf :: "leaf_node \<Rightarrow> leaf_node \<Rightarrow> (borrow_result \<times> leaf_node \<times> leaf_node) outcome" where
  "borrow_from_right_leaf underfull donor =
     (case lf_entries donor of
        [] \<Rightarrow> Ok (BorrowNotPossible, underfull, donor)
      | en # rest \<Rightarrow>
          if \<not> can_borrow_from_sibling (nh_num_keys (lf_header donor)) (nh_num_keys (lf_header underfull))
          then Ok (BorrowNotPossible, underfull, donor)
          else
            let donor1 = donor\<lparr>lf_entries := rest, lf_header := (lf_header donor)\<lparr>nh_num_keys := word_of_nat (length rest)\<rparr>\<rparr> in
            and_then (leaf_insert underfull en) (\<lambda>(u, _).
            case rest of
              first # _ \<Rightarrow> Ok (BorrowSuccess (en_key first), u, donor1)
            | [] \<Rightarrow> if lf_entries u = [] then Panic else Ok (BorrowSuccess (en_key (last (lf_entries u))), u, donor1)))"

definition borrow_from_left_leaf :: "leaf_node \<Rightarrow> leaf_node \<Rightarrow> (borrow_result \<times> leaf_node \<times> leaf_node) outcome" where
  "borrow_from_left_leaf underfull donor =
     (if lf_entries donor = [] then Ok (BorrowNotPossible, underfull, donor)
      else if \<not> can_borrow_from_sibling (nh_num_keys (lf_header donor)) (nh_num_keys (lf_header underfull))
      then Ok (BorrowNotPossible, underfull, donor)
      else
        let en = last (lf_entries donor); rest = butlast (lf_entries donor);
            donor1 = donor\<lparr>lf_entries := rest, lf_header := (lf_header donor)\<lparr>nh_num_keys := word_of_nat (length rest)\<rparr>\<rparr> in
        and_then (leaf_insert underfull en) (\<lambda>(u, _).
        if rest \<noteq> [] then Ok (BorrowSuccess (en_key (last rest)), u, donor1)
        else case lf_entries u of [] \<Rightarrow> Panic | first # _ \<Rightarrow> Ok (BorrowSuccess (en_key first), u, donor1)))"

definition borrow_from_right_internal :: "internal_node \<Rightarrow> internal_node \<Rightarrow> bytes \<Rightarrow>
    (borrow_result \<times> internal_node \<times> internal_node) outcome" where
  "borrow_from_right_internal underfull donor parent_separator =
     (case in_separators donor of
        [] \<Rightarrow> Ok (BorrowNotPossible, underfull, donor)
      | sep # seps \<Rightarrow>
          if \<not> can_borrow_from_sibling (nh_num_keys (in_header donor)) (nh_num_keys (in_header underfull))
          then Ok (BorrowNotPossible, underfull, donor)
          else case in_children donor of
            [] \<Rightarrow> Panic
          | child # children \<Rightarrow>
              and_then (internal_insert underfull parent_separator child) (\<lambda>u.
              Ok (BorrowSuccess sep, u,
                  \<lparr>in_header = (in_header donor)\<lparr>nh_num_keys := word_of_nat (length seps)\<rparr>,
                   in_separators = seps, in_children = children\<rparr>)))"

definition borrow_from_left_internal :: "internal_node \<Rightarrow> internal_node \<Rightarrow> bytes \<Rightarrow>
    (borrow_result \<times> internal_node \<times> internal_node) outcome" where
  "borrow_from_left_internal underfull donor parent_separator =
     (if in_separators donor = [] then Ok (BorrowNotPossible, underfull, donor)
      else if \<not> can_borrow_from_sibling (nh_num_keys (in_header donor)) (nh_num_keys (in_header underfull))
      then Ok (BorrowNotPossible, underfull, donor)
      else if in_children donor = [] then Err (Validation (ValidationGeneric ''Donor has no child''))
      else
        let seps = butlast (in_separators donor);
            useps = parent_separator # in_separators underfull
        in Ok (BorrowSuccess (last (in_separators donor)),
               \<lparr>in_header = (in_header underfull)\<lparr>nh_num_keys := word_of_nat (length useps)\<rparr>, in_separators = useps,
                in_children = last (in_children donor) # in_children underfull\<rparr>,
               \<lparr>in_header = (in_header donor)\<lparr>nh_num_keys := word_of_nat (length seps)\<rparr>, in_separators = seps,
                in_children = butlast (in_children donor)\<rparr>))"

text \<open>The recommendation at the end of both candidate functions.\<close>

definition recommend_borrow :: "borrow_candidates \<Rightarrow> borrow_candidates" where
  "recommend_borrow c =
     (if bc_has_left c \<and> bc_has_right c then
        if bc_right_excess c \<le> bc_left_excess c \<and> 0 < bc_left_excess c
        then c\<lparr>bc_recommended_direction := Some FromLeft\<rparr>
        else if 0 < bc_right_excess c then c\<lparr>bc_recommended_direction := Some FromRight\<rparr>
        else c
      else if bc_has_left c \<and> 0 < bc_left_excess c then c\<lparr>bc_recommended_direction := Some FromLeft\<rparr>
      else if bc_has_right c \<and> 0 < bc_right_excess c then c\<lparr>bc_recommended_direction := Some FromRight\<rparr>
      else c)"

definition excess :: "u16 \<Rightarrow> nat" where
  "excess num_keys = unat (saturating_sub num_keys min_keys)"

definition get_leaf_borrow_candidates :: "env \<Rightarrow> leaf_node \<Rightarrow> (cpager, borrow_candidates) proc" where
  "get_leaf_borrow_candidates e leaf =
     then_do (if lf_prev_leaf leaf \<noteq> 0 then
                then_do (read_leaf e (lf_prev_leaf leaf)) (\<lambda>l. ret (case l of
                    None \<Rightarrow> borrow_candidates_new
                  | Some left \<Rightarrow> borrow_candidates_new\<lparr>bc_has_left := True, bc_left_page_id := Some (lf_prev_leaf leaf),
                      bc_left_excess := excess (nh_num_keys (lf_header left))\<rparr>))
              else ret borrow_candidates_new) (\<lambda>c.
     then_do (if lf_next_leaf leaf \<noteq> 0 then
                then_do (read_leaf e (lf_next_leaf leaf)) (\<lambda>r. ret (case r of
                    None \<Rightarrow> c
                  | Some right \<Rightarrow> c\<lparr>bc_has_right := True, bc_right_page_id := Some (lf_next_leaf leaf),
                      bc_right_excess := excess (nh_num_keys (lf_header right))\<rparr>))
              else ret c) (\<lambda>c. ret (recommend_borrow c)))"

definition get_internal_borrow_candidates :: "env \<Rightarrow> internal_node \<Rightarrow> (cpager, borrow_candidates) proc" where
  "get_internal_borrow_candidates e node =
     (if nh_parent_page_id (in_header node) = 0 then ret borrow_candidates_new
      else
        then_do (read_internal e (nh_parent_page_id (in_header node))) (\<lambda>r.
        case r of
          None \<Rightarrow> ret (recommend_borrow borrow_candidates_new)
        | Some parent \<Rightarrow>
            (case position (\<lambda>c. c = nh_node_id (in_header node)) (in_children parent) of
               None \<Rightarrow> ret (recommend_borrow borrow_candidates_new)
             | Some pos \<Rightarrow>
                 then_do (if 0 < pos then
                            then_do (read_internal e (in_children parent ! (pos - 1))) (\<lambda>l. ret (case l of
                                None \<Rightarrow> borrow_candidates_new
                              | Some left \<Rightarrow> borrow_candidates_new\<lparr>bc_has_left := True,
                                  bc_left_page_id := Some (in_children parent ! (pos - 1)),
                                  bc_left_excess := excess (nh_num_keys (in_header left))\<rparr>))
                          else ret borrow_candidates_new) (\<lambda>c.
                 then_do (if pos + 1 < length (in_children parent) then
                            then_do (read_internal e (in_children parent ! (pos + 1))) (\<lambda>r. ret (case r of
                                None \<Rightarrow> c
                              | Some right \<Rightarrow> c\<lparr>bc_has_right := True,
                                  bc_right_page_id := Some (in_children parent ! (pos + 1)),
                                  bc_right_excess := excess (nh_num_keys (in_header right))\<rparr>))
                          else ret c) (\<lambda>c. ret (recommend_borrow c))))))"

definition decide_borrow_vs_merge :: "borrow_candidates \<Rightarrow> bool" where
  "decide_borrow_vs_merge c = can_borrow c"

end
