(* ===== verification/Btree.thy ===== *)
theory Btree
  imports Btree_Ops
begin

text \<open>
  \<^verbatim>\<open>btree/tree.rs\<close>: the B+tree over the pager, with \<^verbatim>\<open>btree/search.rs\<close> and \<^verbatim>\<open>btree/scan.rs\<close>.
  The record \<open>btree\<close> holds the pager the Rust struct borrows. The descent from the root and the walk
  along the leaves follow page numbers read from storage and need not end: they are
  \<open>partial_function\<close>s, and \<open>None\<close> is a call that never returns. The scan detector, which only
  produces prefetch hints, and the trace output are left out.
\<close>

record btree =
  bt_pager :: cpager
  bt_root_page_id :: page_id
  bt_height :: u16
  bt_leaf_count :: nat
  bt_internal_count :: nat

definition on_pager :: "(cpager, 'a) proc \<Rightarrow> (btree, 'a) proc" where
  "on_pager m t = (case m (bt_pager t) of (r, s) \<Rightarrow> (r, t\<lparr>bt_pager := s\<rparr>))"

section \<open>search.rs\<close>

datatype search_outcome =
    SearchFound bytes u64 | SearchNotFound | SearchTraverse page_id | FollowSibling page_id

fun is_found :: "search_outcome \<Rightarrow> bool" where
  "is_found (SearchFound _ _) = True"
| "is_found _ = False"

fun should_traverse :: "search_outcome \<Rightarrow> bool" where
  "should_traverse (SearchTraverse _) = True"
| "should_traverse _ = False"

fun outcome_child_id :: "search_outcome \<Rightarrow> page_id option" where
  "outcome_child_id (SearchTraverse c) = Some c"
| "outcome_child_id (FollowSibling s) = Some s"
| "outcome_child_id _ = None"

fun outcome_value :: "search_outcome \<Rightarrow> bytes option" where
  "outcome_value (SearchFound v _) = Some v"
| "outcome_value _ = None"

definition search_internal :: "internal_node \<Rightarrow> bytes \<Rightarrow> search_outcome outcome" where
  "search_internal n key = and_then (find_child n key) (\<lambda>c. Ok (SearchTraverse c))"

definition search_leaf :: "leaf_node \<Rightarrow> bytes \<Rightarrow> u64 \<Rightarrow> search_outcome" where
  "search_leaf n key snapshot_lsn =
     (case leaf_find n key of
        Some en \<Rightarrow> if en_lsn en \<le> snapshot_lsn then SearchFound (en_value en) (en_lsn en) else SearchNotFound
      | None \<Rightarrow> SearchNotFound)"

fun search_node :: "node \<Rightarrow> bytes \<Rightarrow> u64 \<Rightarrow> search_outcome outcome" where
  "search_node (InternalN n) key l = search_internal n key"
| "search_node (LeafN n) key l = Ok (search_leaf n key l)"

definition binary_search_keys :: "bytes list \<Rightarrow> bytes \<Rightarrow> nat" where
  "binary_search_keys keys key = search_pos (binary_search_by (\<lambda>probe. cmp probe key) keys)"

definition binary_search_entries :: "entry list \<Rightarrow> bytes \<Rightarrow> nat" where
  "binary_search_entries es key = search_pos (binary_search_by (\<lambda>probe. cmp (en_key probe) key) es)"

definition find_separator_position :: "bytes list \<Rightarrow> bytes \<Rightarrow> nat" where
  "find_separator_position seps sep = search_pos (binary_search_by (\<lambda>probe. cmp probe sep) seps)"

definition resolve_entry_value :: "entry \<Rightarrow> value_storage outcome" where
  "resolve_entry_value en = value_decode (en_value en)"

record search_context =
  sc_path :: "page_id list"
  sc_indices :: "nat list"

definition search_context_new :: search_context where
  "search_context_new = \<lparr>sc_path = [], sc_indices = []\<rparr>"

definition context_push :: "search_context \<Rightarrow> page_id \<Rightarrow> nat \<Rightarrow> search_context" where
  "context_push c p i = \<lparr>sc_path = sc_path c @ [p], sc_indices = sc_indices c @ [i]\<rparr>"

definition context_pop :: "search_context \<Rightarrow> ((page_id \<times> nat) option \<times> search_context) outcome" where
  "context_pop c =
     (if sc_path c = [] then Ok (None, c)
      else if sc_indices c = [] then Panic
      else Ok (Some (last (sc_path c), last (sc_indices c)),
               \<lparr>sc_path = butlast (sc_path c), sc_indices = butlast (sc_indices c)\<rparr>))"

definition context_parent :: "search_context \<Rightarrow> page_id option" where
  "context_parent c = (if 2 \<le> length (sc_path c) then Some (sc_path c ! (length (sc_path c) - 2)) else None)"

section \<open>Creating and descending\<close>

definition btree_new :: "env \<Rightarrow> cpager \<Rightarrow> page_id \<Rightarrow> btree outcome \<times> cpager" where
  "btree_new e s root =
     (case read_btree_node e root s of
        (Ok n, s') \<Rightarrow>
          (case get_node_type (node_header_of n) of
             Some ty \<Rightarrow>
               let is_leaf = (ty = LeafType \<or> ty = RootLeafType) in
               (Ok \<lparr>bt_pager = s', bt_root_page_id = root,
                    bt_height = (if is_leaf then 0 else nh_level (node_header_of n)),
                    bt_leaf_count = (if is_leaf then 1 else 0), bt_internal_count = (if is_leaf then 0 else 1)\<rparr>, s')
           | None \<Rightarrow> (Err (Validation (ValidationGeneric ''Invalid root node type'')), s'))
      | (Err x, s') \<Rightarrow> (Err x, s')
      | (Panic, s') \<Rightarrow> (Panic, s'))"

definition btree_create :: "env \<Rightarrow> cpager \<Rightarrow> btree outcome \<times> cpager" where
  "btree_create e s =
     (case then_do (cg_allocate_page e) (\<lambda>p. then_do (write_btree_node e p (LeafN (leaf_new p))) (\<lambda>_. ret p)) s of
        (Ok p, s') \<Rightarrow>
          (Ok \<lparr>bt_pager = s', bt_root_page_id = p, bt_height = 0, bt_leaf_count = 1, bt_internal_count = 0\<rparr>, s')
      | (Err x, s') \<Rightarrow> (Err x, s')
      | (Panic, s') \<Rightarrow> (Panic, s'))"

type_synonym path = "(page_id \<times> node) list"

text \<open>The loop at the head of \<open>get\<close>, \<open>put\<close>, \<open>delete\<close> and \<open>find_leaf_for_key\<close>: the pages and nodes
  read, the leaf last.\<close>

partial_function (option) descend :: "env \<Rightarrow> path \<Rightarrow> bytes \<Rightarrow> page_id \<Rightarrow> cpager \<Rightarrow> ((path \<times> leaf_node) outcome \<times> cpager) option" where
  [code]: "descend e path key p s =
     (case read_btree_node e p s of
        (Ok (InternalN n), s') \<Rightarrow>
          (case find_child n key of
             Ok child \<Rightarrow> descend e (path @ [(p, InternalN n)]) key child s'
           | Err x \<Rightarrow> Some (Err x, s')
           | Panic \<Rightarrow> Some (Panic, s'))
      | (Ok (LeafN l), s') \<Rightarrow> Some (Ok (path @ [(p, LeafN l)], l), s')
      | (Err x, s') \<Rightarrow> Some (Err x, s')
      | (Panic, s') \<Rightarrow> Some (Panic, s'))"

section \<open>Point reads\<close>

definition read_entry :: "env \<Rightarrow> lsn \<Rightarrow> entry option \<Rightarrow> (cpager, bytes option) proc" where
  "read_entry e snapshot_lsn found =
     (case found of
        None \<Rightarrow> ret None
      | Some en \<Rightarrow>
          if en_lsn en \<le> snapshot_lsn then
            if is_overflow_value en then
              then_do (pure_res (value_decode (en_value en))) (\<lambda>v.
                case v of
                  OverflowV p \<Rightarrow> then_do (read_overflow_chain e p) (\<lambda>d. ret (Some d))
                | InlineV _ \<Rightarrow> ret (Some (en_value en)))
            else ret (Some (en_value en))
          else ret None)"

definition get_with_pages :: "env \<Rightarrow> bytes \<Rightarrow> lsn \<Rightarrow> btree \<Rightarrow> ((bytes option \<times> page_id set) outcome \<times> btree) option" where
  "get_with_pages e key snapshot_lsn t =
     (case descend e [] key (bt_root_page_id t) (bt_pager t) of
        None \<Rightarrow> None
      | Some (Ok (path, leaf), s) \<Rightarrow>
          Some (on_pager (then_do (read_entry e snapshot_lsn (leaf_find leaf key)) (\<lambda>r. ret (r, fst ` set path)))
                  (t\<lparr>bt_pager := s\<rparr>))
      | Some (Err x, s) \<Rightarrow> Some (Err x, t\<lparr>bt_pager := s\<rparr>)
      | Some (Panic, s) \<Rightarrow> Some (Panic, t\<lparr>bt_pager := s\<rparr>))"

definition btree_get :: "env \<Rightarrow> bytes \<Rightarrow> lsn \<Rightarrow> btree \<Rightarrow> (bytes option outcome \<times> btree) option" where
  "btree_get e key snapshot_lsn t =
     map_option (\<lambda>(r, t'). (and_then r (\<lambda>(v, _). Ok v), t')) (get_with_pages e key snapshot_lsn t)"

section \<open>Insertion\<close>

fun set_is_root :: "u8 \<Rightarrow> u64 \<Rightarrow> node \<Rightarrow> node" where
  "set_is_root r parent (InternalN n) =
     InternalN (n\<lparr>in_header := (in_header n)\<lparr>nh_is_root := r, nh_parent_page_id := parent\<rparr>\<rparr>)"
| "set_is_root r parent (LeafN n) =
     LeafN (n\<lparr>lf_header := (lf_header n)\<lparr>nh_is_root := r, nh_parent_page_id := parent\<rparr>\<rparr>)"

definition grow_tree :: "env \<Rightarrow> bytes \<Rightarrow> page_id \<Rightarrow> (btree, unit) proc" where
  "grow_tree e separator right_child t =
     then_do (on_pager (cg_allocate_page e)) (\<lambda>new_root_id.
     then_do (pure_res (case checked_add (bt_height t) 1 of Some h \<Rightarrow> Ok h | None \<Rightarrow> Panic)) (\<lambda>height.
     let r = internal_new new_root_id height;
         new_root = r\<lparr>in_children := [bt_root_page_id t, right_child], in_separators := [separator],
                      in_header := (in_header r)\<lparr>nh_num_keys := 1\<rparr>\<rparr>
     in then_do (on_pager (read_btree_node e (bt_root_page_id t))) (\<lambda>old_root.
        then_do (on_pager (write_btree_node e (bt_root_page_id t) (set_is_root 0 new_root_id old_root))) (\<lambda>_.
        then_do (on_pager (write_btree_node e new_root_id (InternalN new_root))) (\<lambda>_.
        (\<lambda>t'. (Ok (), t'\<lparr>bt_root_page_id := new_root_id, bt_height := height,
                         bt_internal_count := bt_internal_count t' + 1\<rparr>)))))) ) t"

text \<open>\<open>while let Some((page_id, node)) = path.pop()\<close>; the path is given from its end.\<close>

fun propagate_split_loop :: "env \<Rightarrow> path \<Rightarrow> bytes \<Rightarrow> page_id \<Rightarrow> (btree, unit) proc" where
  "propagate_split_loop e [] separator new_child_id = ret ()"
| "propagate_split_loop e ((p, LeafN l) # path) separator new_child_id = grow_tree e separator new_child_id"
| "propagate_split_loop e ((p, InternalN n) # path) separator new_child_id =
     then_do (on_pager (insert_into_internal e n separator new_child_id)) (\<lambda>(r, n').
     then_do (on_pager (write_btree_node e p (InternalN n'))) (\<lambda>_.
       case r of
         InsertSuccess \<Rightarrow> ret ()
       | InsertSplit new_page_id new_sep \<Rightarrow> propagate_split_loop e path new_sep new_page_id))"

definition propagate_split :: "env \<Rightarrow> path \<Rightarrow> bytes \<Rightarrow> page_id \<Rightarrow> (btree, unit) proc" where
  "propagate_split e path separator new_child_id = propagate_split_loop e (rev path) separator new_child_id"

text \<open>What \<open>put\<close> does at the leaf it reached.\<close>

definition put_at_leaf :: "env \<Rightarrow> entry \<Rightarrow> path \<Rightarrow> leaf_node \<Rightarrow> (btree, unit) proc" where
  "put_at_leaf e en path leaf =
     then_do (on_pager (insert_into_leaf e leaf en)) (\<lambda>(r, leaf').
     then_do (on_pager (write_btree_node e (fst (last path)) (LeafN leaf'))) (\<lambda>_.
       case r of
         InsertSuccess \<Rightarrow> ret ()
       | InsertSplit new_page_id separator \<Rightarrow> propagate_split e path separator new_page_id))"

definition put_from_root :: "env \<Rightarrow> entry \<Rightarrow> bytes \<Rightarrow> btree \<Rightarrow> (unit outcome \<times> btree) option" where
  "put_from_root e en key t =
     (case descend e [] key (bt_root_page_id t) (bt_pager t) of
        None \<Rightarrow> None
      | Some (Ok (path, leaf), s) \<Rightarrow> Some (put_at_leaf e en path leaf (t\<lparr>bt_pager := s\<rparr>))
      | Some (Err x, s) \<Rightarrow> Some (Err x, t\<lparr>bt_pager := s\<rparr>)
      | Some (Panic, s) \<Rightarrow> Some (Panic, t\<lparr>bt_pager := s\<rparr>))"

definition btree_put :: "env \<Rightarrow> bytes \<Rightarrow> bytes \<Rightarrow> lsn \<Rightarrow> btree \<Rightarrow> (unit outcome \<times> btree) option" where
  "btree_put e key val l t =
     (case on_pager (then_do (prepare_entry_value e key val l) (\<lambda>en.
              then_do (read_btree_node e (bt_root_page_id t)) (\<lambda>root. ret (en, root)))) t of
        (Ok (en, root), t1) \<Rightarrow>
          (case root of
             LeafN leaf \<Rightarrow>
               if lf_entries leaf = [] then
                 Some (then_do (pure_res (leaf_insert leaf en)) (\<lambda>(leaf', _).
                       on_pager (write_btree_node e (bt_root_page_id t) (LeafN leaf'))) t1)
               else put_from_root e en key t1
           | InternalN _ \<Rightarrow> put_from_root e en key t1)
      | (Err x, t1) \<Rightarrow> Some (Err x, t1)
      | (Panic, t1) \<Rightarrow> Some (Panic, t1))"

section \<open>Deletion\<close>

text \<open>\<open>borrow_with\<close> and \<open>merge_with\<close> are the two arms of \<open>handle_leaf_underflow\<close> that they stand
  for, applied to the sibling the candidates name; the result tells whether the handler returned.\<close>

definition borrow_with :: "env \<Rightarrow> page_id \<Rightarrow> leaf_node \<Rightarrow> page_id option \<Rightarrow>
    (leaf_node \<Rightarrow> leaf_node \<Rightarrow> (borrow_result \<times> leaf_node \<times> leaf_node) outcome) \<Rightarrow> (cpager, bool) proc" where
  "borrow_with e p underfull donor_page_id f =
     (case donor_page_id of
        None \<Rightarrow> ret False
      | Some d \<Rightarrow>
          try_do (read_btree_node e d)
            (\<lambda>n. case n of
               InternalN _ \<Rightarrow> ret False
             | LeafN donor \<Rightarrow>
                 (case f underfull donor of
                    Ok (BorrowSuccess _, underfull1, donor1) \<Rightarrow>
                      then_do (write_btree_node e p (LeafN underfull1)) (\<lambda>_.
                      then_do (write_btree_node e d (LeafN donor1)) (\<lambda>_. ret True))
                  | Panic \<Rightarrow> pure_res Panic
                  | _ \<Rightarrow> ret False))
            (ret False))"

definition try_borrow_leaf :: "env \<Rightarrow> page_id \<Rightarrow> leaf_node \<Rightarrow> (cpager, bool) proc" where
  "try_borrow_leaf e p underfull =
     try_do (get_leaf_borrow_candidates e underfull)
       (\<lambda>c. if can_borrow c then
              (case bc_recommended_direction c of
                 Some FromRight \<Rightarrow> borrow_with e p underfull (bc_right_page_id c) borrow_from_right_leaf
               | Some FromLeft \<Rightarrow> borrow_with e p underfull (bc_left_page_id c) borrow_from_left_leaf
               | None \<Rightarrow> ret False)
            else ret False)
       (ret False)"

text \<open>\<open>while let Some((page_id, node)) = path.pop()\<close>; the path is given from its end.\<close>

fun propagate_merge_loop :: "env \<Rightarrow> path \<Rightarrow> page_id \<Rightarrow> (cpager, unit) proc" where
  "propagate_merge_loop e [] freed_page_id = ret ()"
| "propagate_merge_loop e ((p, LeafN l) # path) freed_page_id = ret ()"
| "propagate_merge_loop e ((p, InternalN n) # path) freed_page_id =
     (case position (\<lambda>c. c = freed_page_id) (in_children n) of
        Some pos \<Rightarrow>
          if 0 < pos then
            if length (in_separators n) \<le> pos - 1 then pure_res Panic
            else
              let seps = vec_remove (pos - 1) (in_separators n) in
              write_btree_node e p (InternalN
                \<lparr>in_header = (in_header n)\<lparr>nh_num_keys := word_of_nat (length seps)\<rparr>, in_separators = seps,
                 in_children = vec_remove pos (in_children n)\<rparr>)
          else propagate_merge_loop e path freed_page_id
      | None \<Rightarrow> propagate_merge_loop e path freed_page_id)"

definition propagate_merge :: "env \<Rightarrow> path \<Rightarrow> page_id \<Rightarrow> (cpager, unit) proc" where
  "propagate_merge e path freed_page_id = propagate_merge_loop e (rev path) freed_page_id"

definition merge_with :: "env \<Rightarrow> path \<Rightarrow> page_id option \<Rightarrow>
    (leaf_node \<Rightarrow> (cpager, merge_result \<times> leaf_node) proc) \<Rightarrow> (cpager, unit) proc" where
  "merge_with e path sibling_page_id f =
     (case sibling_page_id of
        None \<Rightarrow> ret ()
      | Some p \<Rightarrow>
          try_do (read_btree_node e p)
            (\<lambda>n. case n of
               InternalN _ \<Rightarrow> ret ()
             | LeafN sibling \<Rightarrow>
                 try_do (f sibling)
                   (\<lambda>(r, sibling1).
                      case r of
                        MergeSuccess freed_page_id \<Rightarrow>
                          then_do (write_btree_node e p (LeafN sibling1)) (\<lambda>_. propagate_merge e path freed_page_id)
                      | _ \<Rightarrow> ret ())
                   (ret ()))
            (ret ()))"

definition try_merge_leaf :: "env \<Rightarrow> leaf_node \<Rightarrow> path \<Rightarrow> (cpager, unit) proc" where
  "try_merge_leaf e underfull path =
     try_do (get_leaf_merge_candidates e underfull)
       (\<lambda>c. if can_merge c then
              (case mc_recommended_direction c of
                 Some RightIntoLeft \<Rightarrow>
                   merge_with e path (mc_left_page_id c)
                     (\<lambda>sibling. then_do (merge_leaf_right_into_left e sibling underfull) (\<lambda>(r, l, _). ret (r, l)))
               | Some LeftIntoRight \<Rightarrow>
                   merge_with e path (mc_right_page_id c)
                     (\<lambda>sibling. then_do (merge_leaf_left_into_right e underfull sibling) (\<lambda>(r, _, s). ret (r, s)))
               | None \<Rightarrow> ret ())
            else ret ())
       (ret ())"

definition handle_leaf_underflow :: "env \<Rightarrow> page_id \<Rightarrow> leaf_node \<Rightarrow> path \<Rightarrow> (cpager, unit) proc" where
  "handle_leaf_underflow e p underfull path =
     then_do (try_borrow_leaf e p underfull) (\<lambda>returned.
     if returned then ret () else try_merge_leaf e underfull path)"

definition delete_at_leaf :: "env \<Rightarrow> bytes \<Rightarrow> path \<Rightarrow> leaf_node \<Rightarrow> (cpager, unit) proc" where
  "delete_at_leaf e key path leaf =
     then_do (pure_res (delete_from_leaf leaf key)) (\<lambda>(r, leaf1).
     then_do (write_btree_node e (fst (last path)) (LeafN leaf1)) (\<lambda>_.
       case r of
         DeleteSuccess \<Rightarrow> ret ()
       | _ \<Rightarrow> handle_leaf_underflow e (fst (last path)) leaf1 path))"

definition btree_delete :: "env \<Rightarrow> bytes \<Rightarrow> lsn \<Rightarrow> btree \<Rightarrow> (unit outcome \<times> btree) option" where
  "btree_delete e key l t =
     (case descend e [] key (bt_root_page_id t) (bt_pager t) of
        None \<Rightarrow> None
      | Some (Ok (path, leaf), s) \<Rightarrow> Some (on_pager (delete_at_leaf e key path leaf) (t\<lparr>bt_pager := s\<rparr>))
      | Some (Err x, s) \<Rightarrow> Some (Err x, t\<lparr>bt_pager := s\<rparr>)
      | Some (Panic, s) \<Rightarrow> Some (Panic, t\<lparr>bt_pager := s\<rparr>))"

section \<open>Statistics and verification\<close>

record tree_stats =
  ts_height :: u16
  ts_leaf_count :: nat
  ts_internal_count :: nat
  ts_root_page_id :: page_id

definition btree_statistics :: "btree \<Rightarrow> tree_stats" where
  "btree_statistics t = \<lparr>ts_height = bt_height t, ts_leaf_count = bt_leaf_count t,
     ts_internal_count = bt_internal_count t, ts_root_page_id = bt_root_page_id t\<rparr>"

definition btree_verify :: "env \<Rightarrow> (btree, unit) proc" where
  "btree_verify e t = on_pager (then_do (read_btree_node e (bt_root_page_id t)) (\<lambda>n. pure_res (node_validate n))) t"

end
