(* ===== verification/Btree_Scan.thy ===== *)
theory Btree_Scan
  imports Btree "HOL-Library.Multiset"
begin

text \<open>
  Range scans: \<^verbatim>\<open>btree/scan.rs\<close> and the scan of \<^verbatim>\<open>btree/tree.rs\<close>. The walk along the leaves follows
  the \<open>next_leaf\<close> pointers read from storage and need not end, so it is a \<open>partial_function\<close> and
  \<open>None\<close> is a scan that never returns.
\<close>

section \<open>scan.rs\<close>

datatype scan_direction = Forward | Backward

record scan_item =
  si_key :: bytes
  si_value :: bytes
  si_lsn :: lsn

definition scan_item_new :: "bytes \<Rightarrow> bytes \<Rightarrow> lsn \<Rightarrow> scan_item" where
  "scan_item_new k v l = \<lparr>si_key = k, si_value = v, si_lsn = l\<rparr>"

record scan_iter =
  it_entries :: "scan_item list"
  it_end_key :: "bytes option"
  it_snapshot_lsn :: lsn
  it_direction :: scan_direction

definition scan_iter_new :: "scan_item list \<Rightarrow> bytes option \<Rightarrow> lsn \<Rightarrow> scan_direction \<Rightarrow> scan_iter" where
  "scan_iter_new es end_key l d =
     \<lparr>it_entries = es, it_end_key = end_key, it_snapshot_lsn = l, it_direction = d\<rparr>"

definition scan_iter_forward :: "scan_item list \<Rightarrow> bytes option \<Rightarrow> lsn \<Rightarrow> scan_iter" where
  "scan_iter_forward es end_key l = scan_iter_new es end_key l Forward"

definition scan_iter_backward :: "scan_item list \<Rightarrow> bytes option \<Rightarrow> lsn \<Rightarrow> scan_iter" where
  "scan_iter_backward es start_key l = scan_iter_new (rev es) start_key l Backward"

definition should_continue :: "scan_iter \<Rightarrow> bytes \<Rightarrow> bool" where
  "should_continue it key \<longleftrightarrow>
     (case it_end_key it of
        None \<Rightarrow> True
      | Some e \<Rightarrow> (case it_direction it of Forward \<Rightarrow> key < e | Backward \<Rightarrow> e < key))"

fun next_item :: "scan_iter \<Rightarrow> scan_item list \<Rightarrow> scan_item option \<times> scan_item list" where
  "next_item it [] = (None, [])"
| "next_item it (x # xs) =
     (if should_continue it (si_key x) \<and> si_lsn x \<le> it_snapshot_lsn it then (Some x, xs)
      else if \<not> should_continue it (si_key x) then (None, xs)
      else next_item it xs)"

definition scan_iter_next :: "scan_iter \<Rightarrow> scan_item option \<times> scan_iter" where
  "scan_iter_next it = (case next_item it (it_entries it) of (r, xs) \<Rightarrow> (r, it\<lparr>it_entries := xs\<rparr>))"

record scan_state =
  ss_current_page :: page_id
  ss_current_index :: nat
  ss_start_key :: "bytes option"
  ss_end_key :: "bytes option"
  ss_snapshot_lsn :: lsn
  ss_direction :: scan_direction
  ss_started :: bool
  ss_ended :: bool

definition scan_state_new :: "page_id \<Rightarrow> bytes option \<Rightarrow> bytes option \<Rightarrow> lsn \<Rightarrow> scan_direction \<Rightarrow> scan_state" where
  "scan_state_new p st en l d =
     \<lparr>ss_current_page = p, ss_current_index = 0, ss_start_key = st, ss_end_key = en, ss_snapshot_lsn = l,
      ss_direction = d, ss_started = False, ss_ended = False\<rparr>"

definition scan_state_forward :: "page_id \<Rightarrow> bytes option \<Rightarrow> bytes option \<Rightarrow> lsn \<Rightarrow> scan_state" where
  "scan_state_forward p st en l = scan_state_new p st en l Forward"

definition scan_state_backward :: "page_id \<Rightarrow> bytes option \<Rightarrow> bytes option \<Rightarrow> lsn \<Rightarrow> scan_state" where
  "scan_state_backward p st en l = scan_state_new p st en l Backward"

definition advance_page :: "scan_state \<Rightarrow> page_id \<Rightarrow> scan_state" where
  "advance_page s p = s\<lparr>ss_current_page := p, ss_current_index := 0\<rparr>"

definition retreat_page :: "scan_state \<Rightarrow> page_id \<Rightarrow> scan_state" where
  "retreat_page s p = s\<lparr>ss_current_page := p, ss_current_index := 2 ^ 64 - 1\<rparr>"

definition mark_started :: "scan_state \<Rightarrow> scan_state" where
  "mark_started s = s\<lparr>ss_started := True\<rparr>"

definition mark_ended :: "scan_state \<Rightarrow> scan_state" where
  "mark_ended s = s\<lparr>ss_ended := True\<rparr>"

definition is_active :: "scan_state \<Rightarrow> bool" where
  "is_active s \<longleftrightarrow> ss_started s \<and> \<not> ss_ended s"

definition is_in_range :: "scan_state \<Rightarrow> bytes \<Rightarrow> bool" where
  "is_in_range s key \<longleftrightarrow>
     (case ss_start_key s of
        None \<Rightarrow> True
      | Some st \<Rightarrow> \<not> (ss_direction s = Forward \<and> key < st) \<and> \<not> (ss_direction s = Backward \<and> st < key)) \<and>
     (case ss_end_key s of
        None \<Rightarrow> True
      | Some en \<Rightarrow> \<not> (ss_direction s = Forward \<and> en \<le> key) \<and> \<not> (ss_direction s = Backward \<and> key \<le> en))"

definition filter_by_snapshot :: "scan_item list \<Rightarrow> lsn \<Rightarrow> scan_item list" where
  "filter_by_snapshot items l = filter (\<lambda>i. si_lsn i \<le> l) items"

text \<open>The inner loop of \<open>merge_sorted_items\<close>: the index of the smallest first key, the leftmost of
  equal ones; \<open>i\<close> counts the iterators seen, \<open>best\<close> is \<open>smallest_index\<close> with \<open>smallest_key\<close>.\<close>

fun smallest_head :: "nat \<Rightarrow> (nat \<times> bytes) option \<Rightarrow> scan_item list list \<Rightarrow> (nat \<times> bytes) option" where
  "smallest_head i best [] = best"
| "smallest_head i best ([] # its) = smallest_head (Suc i) best its"
| "smallest_head i best ((x # xs) # its) =
     smallest_head (Suc i)
       (case best of
          None \<Rightarrow> Some (i, si_key x)
        | Some (j, k) \<Rightarrow> if si_key x < k then Some (i, si_key x) else best) its"

lemma smallest_head_in:
  "smallest_head i best its = Some (j, k) \<Longrightarrow>
     best = Some (j, k) \<or> i \<le> j \<and> j < i + length its \<and> its ! (j - i) \<noteq> [] \<and> si_key (hd (its ! (j - i))) = k"
proof (induction i best its rule: smallest_head.induct)
  case (1 i best)
  then show ?case by simp
next
  case (2 i best its)
  then show ?case by (auto simp: Suc_diff_le nth_Cons')
next
  case (3 i best x xs its)
  then show ?case by (auto simp: Suc_diff_le nth_Cons' split: option.splits if_splits prod.splits)
qed

lemma sum_length_pop:
  "j < length its \<Longrightarrow> its ! j = x # xs \<Longrightarrow> sum_list (map length its) = Suc (sum_list (map length (its[j := xs])))"
  by (induction its arbitrary: j) (auto split: nat.splits)

function merge_loop :: "scan_item list list \<Rightarrow> scan_item list" where
  "merge_loop its =
     (case smallest_head 0 None its of
        None \<Rightarrow> []
      | Some (j, _) \<Rightarrow>
          (case its ! j of
             [] \<Rightarrow> []
           | x # xs \<Rightarrow> x # merge_loop (its[j := xs])))"
  by pat_completeness auto
termination
  by (relation "measure (\<lambda>its. sum_list (map length its))")
     (auto dest!: smallest_head_in sum_length_pop)

declare merge_loop.simps [simp del]

fun merge_sorted_items :: "scan_item list list \<Rightarrow> scan_item list" where
  "merge_sorted_items [] = []"
| "merge_sorted_items [v] = v"
| "merge_sorted_items vs = merge_loop vs"

section \<open>The scan of the tree\<close>

definition find_leaf_for_key :: "env \<Rightarrow> bytes \<Rightarrow> btree \<Rightarrow> (page_id outcome \<times> btree) option" where
  "find_leaf_for_key e key t =
     map_option (\<lambda>(r, s). (and_then r (\<lambda>(path, _). Ok (fst (last path))), t\<lparr>bt_pager := s\<rparr>))
       (descend e [] key (bt_root_page_id t) (bt_pager t))"

partial_function (option) descend_left :: "env \<Rightarrow> page_id \<Rightarrow> cpager \<Rightarrow> (page_id outcome \<times> cpager) option" where
  [code]: "descend_left e p s =
     (case read_btree_node e p s of
        (Ok (InternalN n), s') \<Rightarrow>
          (case in_children n of
             [] \<Rightarrow> Some (Err (Validation (ValidationGeneric ''Internal node has no children'')), s')
           | leftmost # _ \<Rightarrow> descend_left e leftmost s')
      | (Ok (LeafN l), s') \<Rightarrow> Some (Ok p, s')
      | (Err x, s') \<Rightarrow> Some (Err x, s')
      | (Panic, s') \<Rightarrow> Some (Panic, s'))"

definition find_leftmost_leaf :: "env \<Rightarrow> btree \<Rightarrow> (page_id outcome \<times> btree) option" where
  "find_leftmost_leaf e t =
     map_option (\<lambda>(r, s). (r, t\<lparr>bt_pager := s\<rparr>)) (descend_left e (bt_root_page_id t) (bt_pager t))"

text \<open>The loop over the entries of one leaf.\<close>

fun scan_entries :: "bytes option \<Rightarrow> bytes option \<Rightarrow> lsn \<Rightarrow> entry list \<Rightarrow> scan_item list" where
  "scan_entries st en l [] = []"
| "scan_entries st en l (x # xs) =
     (if (case st of Some k \<Rightarrow> en_key x < k | None \<Rightarrow> False) then scan_entries st en l xs
      else if (case en of Some k \<Rightarrow> k \<le> en_key x | None \<Rightarrow> False) then []
      else if en_lsn x \<le> l then scan_item_new (en_key x) (en_value x) (en_lsn x) # scan_entries st en l xs
      else scan_entries st en l xs)"

text \<open>The loop over the leaves. The assignment that stops the scan at the end key is overwritten by
  the one to \<open>next_leaf\<close> after the loop over the entries.\<close>

partial_function (option) scan_leaves :: "env \<Rightarrow> bytes option \<Rightarrow> bytes option \<Rightarrow> lsn \<Rightarrow> scan_item list \<Rightarrow>
    page_id set \<Rightarrow> page_id \<Rightarrow> cpager \<Rightarrow> ((scan_item list \<times> page_id set) outcome \<times> cpager) option" where
  [code]: "scan_leaves e st en l items pages p s =
     (if p = 0 then Some (Ok (items, pages), s)
      else
        (case read_btree_node e p s of
           (Ok (LeafN leaf), s') \<Rightarrow>
             scan_leaves e st en l (items @ scan_entries st en l (lf_entries leaf)) (insert p pages) (lf_next_leaf leaf) s'
         | (Ok (InternalN n), s') \<Rightarrow> Some (Ok (items, insert p pages), s')
         | (Err x, s') \<Rightarrow> Some (Err x, s')
         | (Panic, s') \<Rightarrow> Some (Panic, s')))"

definition scan_with_pages :: "env \<Rightarrow> bytes option \<Rightarrow> bytes option \<Rightarrow> lsn \<Rightarrow> btree \<Rightarrow>
    ((scan_item list \<times> page_id set) outcome \<times> btree) option" where
  "scan_with_pages e st en l t =
     (case (case st of Some k \<Rightarrow> find_leaf_for_key e k t | None \<Rightarrow> find_leftmost_leaf e t) of
        None \<Rightarrow> None
      | Some (Ok p, t') \<Rightarrow>
          map_option (\<lambda>(r, s). (r, t'\<lparr>bt_pager := s\<rparr>)) (scan_leaves e st en l [] {} p (bt_pager t'))
      | Some (Err x, t') \<Rightarrow> Some (Err x, t')
      | Some (Panic, t') \<Rightarrow> Some (Panic, t'))"

definition btree_scan :: "env \<Rightarrow> bytes option \<Rightarrow> bytes option \<Rightarrow> lsn \<Rightarrow> btree \<Rightarrow> (scan_iter outcome \<times> btree) option" where
  "btree_scan e st en l t =
     map_option (\<lambda>(r, t'). (and_then r (\<lambda>(items, _). Ok (scan_iter_forward items en l)), t'))
       (scan_with_pages e st en l t)"

end
