(* ===== verification/Btree_Correct.thy ===== *)
theory Btree_Correct
  imports Btree_Scan Overflow_Chain
begin

text \<open>
  What the B+tree of \<^verbatim>\<open>btree/tree.rs\<close> does on well-formed trees, and what it does to them. A
  \<open>ptree\<close> is the tree that the pages reached from a root hold; \<open>stored\<close> says that the storage holds
  it, \<open>routed\<close> that every entry is in the leaf its key is routed to. The content of the tree is the map
  of the entries of its leaves.
\<close>

section \<open>Trees on pages\<close>

datatype ptree = PLeaf page_id leaf_node | PNode page_id internal_node "ptree list"

fun root_of :: "ptree \<Rightarrow> page_id" where
  "root_of (PLeaf p l) = p"
| "root_of (PNode p n ts) = p"

fun entries_of :: "ptree \<Rightarrow> entry list" where
  "entries_of (PLeaf p l) = lf_entries l"
| "entries_of (PNode p n ts) = concat (map entries_of ts)"

fun pages_of :: "ptree \<Rightarrow> page_id list" where
  "pages_of (PLeaf p l) = [p]"
| "pages_of (PNode p n ts) = p # concat (map pages_of ts)"

fun stored :: "(page_id \<rightharpoonup> node) \<Rightarrow> ptree \<Rightarrow> bool" where
  "stored ns (PLeaf p l) \<longleftrightarrow> addressable p \<and> ns p = Some (LeafN l)"
| "stored ns (PNode p n ts) \<longleftrightarrow> addressable p \<and> ns p = Some (InternalN n) \<and> in_children n = map root_of ts \<and>
     (\<forall>t \<in> set ts. stored ns t)"

fun routed :: "ptree \<Rightarrow> bool" where
  "routed (PLeaf p l) \<longleftrightarrow> ascending en_key (lf_entries l)"
| "routed (PNode p n ts) \<longleftrightarrow> ascending id (in_separators n) \<and> length ts = Suc (length (in_separators n)) \<and>
     (\<forall>t \<in> set ts. routed t) \<and> (\<forall>i < length ts. \<forall>x \<in> set (entries_of (ts ! i)). children_of n (en_key x) = i)"

fun depth :: "ptree \<Rightarrow> nat" where
  "depth (PLeaf p l) = 1"
| "depth (PNode p n ts) = Suc (Max (set (map depth ts)))"

lemma size_nth [termination_simp]: "i < length ts \<Longrightarrow> size (ts ! i) < Suc (size_list size ts)"
  by (metis le_imp_less_Suc less_or_eq_imp_le nth_mem size_list_estimation')

fun leaf_at :: "ptree \<Rightarrow> bytes \<Rightarrow> page_id \<times> leaf_node" where
  "leaf_at (PLeaf p l) key = (p, l)"
| "leaf_at (PNode p n ts) key =
     (if children_of n key < length ts then leaf_at (ts ! children_of n key) key else (0, leaf_new 0))"

fun route :: "ptree \<Rightarrow> bytes \<Rightarrow> path" where
  "route (PLeaf p l) key = [(p, LeafN l)]"
| "route (PNode p n ts) key =
     (p, InternalN n) # (if children_of n key < length ts then route (ts ! children_of n key) key else [])"

definition contents :: "ptree \<Rightarrow> bytes \<rightharpoonup> entry" where
  "contents t = key_map en_key (entries_of t)"

lemma children_of_le: "children_of n key \<le> length (in_separators n)"
  by (simp add: children_of_def)

lemma routed_child: "routed (PNode p n ts) \<Longrightarrow> children_of n key < length ts"
  using children_of_le [of n key] by simp

lemma children_of_mono:
  assumes "children_of n a < children_of n b"
  shows "a < b"
proof (rule ccontr)
  assume "\<not> a < b"
  then have "filter (\<lambda>s. s \<le> b) (in_separators n) = filter (\<lambda>s. s \<le> b) (filter (\<lambda>s. s \<le> a) (in_separators n))"
    by (auto intro: filter_cong)
  then have "children_of n b \<le> children_of n a" unfolding children_of_def by (metis length_filter_le)
  with assms show False by simp
qed

lemma routed_key:
  assumes "routed (PNode p n ts)" "x \<in> set (entries_of (PNode p n ts))"
  shows "x \<in> set (entries_of (ts ! children_of n (en_key x)))"
proof -
  obtain t where "t \<in> set ts" "x \<in> set (entries_of t)" using assms(2) by auto
  then obtain i where i: "i < length ts" "x \<in> set (entries_of (ts ! i))" by (auto simp: in_set_conv_nth)
  then have "children_of n (en_key x) = i" using assms(1) by simp
  with i(2) show ?thesis by simp
qed

text \<open>The entries of a routed tree ascend, and the leaf a key is routed to decides it.\<close>

lemma ascending_concat:
  assumes "\<And>xs. xs \<in> set xss \<Longrightarrow> ascending key xs"
    and "\<And>i j x y. i < j \<Longrightarrow> j < length xss \<Longrightarrow> x \<in> set (xss ! i) \<Longrightarrow> y \<in> set (xss ! j) \<Longrightarrow> key x < key y"
  shows "ascending key (concat xss)"
  using assms
proof (induction xss)
  case (Cons xs xss)
  have "ascending key (concat xss)"
  proof (rule Cons.IH)
    show "ascending key ys" if "ys \<in> set xss" for ys using Cons.prems(1) that by simp
    show "key x < key y" if "i < j" "j < length xss" "x \<in> set (xss ! i)" "y \<in> set (xss ! j)" for i j x y
      using Cons.prems(2) [of "Suc i" "Suc j" x y] that by simp
  qed
  moreover have "key x < key y" if "x \<in> set xs" "ys \<in> set xss" "y \<in> set ys" for x y ys
  proof -
    from that(2) obtain j where "j < length xss" "xss ! j = ys" unfolding in_set_conv_nth by metis
    then show ?thesis using Cons.prems(2) [of 0 "Suc j" x y] that by simp
  qed
  ultimately show ?case using Cons.prems(1) by (auto simp: ascending_append)
qed simp

lemma routed_ascending: "routed t \<Longrightarrow> ascending en_key (entries_of t)"
proof (induction t)
  case (PNode p n ts)
  have "ascending en_key (concat (map entries_of ts))"
  proof (rule ascending_concat)
    show "ascending en_key xs" if "xs \<in> set (map entries_of ts)" for xs using that PNode by auto
    show "en_key x < en_key y" if "i < j" "j < length (map entries_of ts)" "x \<in> set (map entries_of ts ! i)"
      "y \<in> set (map entries_of ts ! j)" for i j x y
    proof -
      have "children_of n (en_key x) = i" "children_of n (en_key y) = j" using that PNode.prems by auto
      with that(1) show ?thesis by (intro children_of_mono [of n]) simp
    qed
  qed
  then show ?case by simp
qed simp

lemma contents_Some: "routed t \<Longrightarrow> contents t k = Some x \<longleftrightarrow> x \<in> set (entries_of t) \<and> en_key x = k"
  unfolding contents_def by (rule key_map_Some [OF routed_ascending])

lemma contents_child:
  assumes "routed (PNode p n ts)"
  shows "contents (PNode p n ts) k = contents (ts ! children_of n k) k"
proof -
  have c: "children_of n k < length ts" and "routed (ts ! children_of n k)"
    using routed_child [OF assms, of k] assms by auto
  then have "contents (ts ! children_of n k) k = Some x \<longleftrightarrow> contents (PNode p n ts) k = Some x" for x
    using routed_key [OF assms, of x] assms nth_mem [OF c] by (auto simp: contents_Some simp del: routed.simps)
  then show ?thesis by (metis option.exhaust)
qed

lemma contents_leaf_at: "routed t \<Longrightarrow> contents t k = leaf_map (snd (leaf_at t k)) k"
proof (induction t k rule: leaf_at.induct)
  case (1 p l key)
  then show ?case by (simp add: contents_def leaf_map_def)
next
  case (2 p n ts key)
  then show ?case using contents_child [OF 2(2), of key] routed_child [OF 2(2), of key] by simp
qed

lemma leaf_at_ascending: "routed t \<Longrightarrow> ascending en_key (lf_entries (snd (leaf_at t k)))"
proof (induction t k rule: leaf_at.induct)
  case (2 p n ts key)
  then show ?case using routed_child [OF 2(2), of key] by simp
qed simp

lemma stored_cong:
  assumes "stored ns t" "\<And>p. p \<in> set (pages_of t) \<Longrightarrow> ns' p = ns p"
  shows "stored ns' t"
  using assms by (induction t) auto

lemma stored_addressable: "stored ns t \<Longrightarrow> p \<in> set (pages_of t) \<Longrightarrow> addressable p \<and> ns p \<noteq> None"
  by (induction t) auto

lemma leaf_at_stored: "stored ns t \<Longrightarrow> routed t \<Longrightarrow> leaf_at t k = (p, l) \<Longrightarrow> addressable p \<and> ns p = Some (LeafN l)"
proof (induction t k rule: leaf_at.induct)
  case (2 p n ts key)
  then show ?case using routed_child [OF 2(3), of key] by simp
qed simp

lemma depth_child: "t \<in> set ts \<Longrightarrow> depth t < depth (PNode p n ts)"
  by (simp add: less_Suc_eq_le)

lemma last_route: "routed t \<Longrightarrow> route t k \<noteq> [] \<and> last (route t k) = (fst (leaf_at t k), LeafN (snd (leaf_at t k)))"
proof (induction t k rule: leaf_at.induct)
  case (2 p n ts key)
  then show ?case using routed_child [OF 2(2), of key] by simp
qed simp

lemma leaf_at_page: "routed t \<Longrightarrow> fst (leaf_at t k) \<in> set (pages_of t)"
proof (induction t k rule: leaf_at.induct)
  case (2 p n ts key)
  then show ?case using routed_child [OF 2(2), of key] nth_mem [of "children_of n key" ts] by auto
qed simp

section \<open>Descending\<close>

lemma descend_spec:
  assumes "stored (cg_node s) t" "routed t" "cg_inv e s" "cg_room (depth t + m) s"
  obtains s' where "descend e path key (root_of t) s = Some (Ok (path @ route t key, snd (leaf_at t key)), s')"
    "cg_pager s' = cg_pager s" "cg_inv e s'" "cg_room m s'" "cached e s' \<subseteq> set (map fst (route t key)) \<union> cached e s"
  using assms
proof (induction t key arbitrary: path s thesis rule: leaf_at.induct)
  case (1 p l key)
  have st: "addressable p" "cg_node s p = Some (LeafN l)" and room: "cg_room (Suc m) s" using 1 by simp_all
  obtain s' where "read_btree_node e p s = (Ok (LeafN l), s')" "cg_pager s' = cg_pager s" "cg_inv e s'" "cg_room m s'"
    "cached e s' \<subseteq> insert p (cached e s)"
    by (rule read_btree_node_spec [OF 1(4) room st], rule that)
  then show ?case by (intro 1(1)) (subst descend.simps, auto)
next
  case (2 p n ts key)
  let ?i = "children_of n key"
  have i: "?i < length ts" using routed_child [OF 2(4), of key] .
  have st: "addressable p" "cg_node s p = Some (InternalN n)" "in_children n = map root_of ts" using 2 by simp_all
  have d: "depth (ts ! ?i) + m \<le> Max (set (map depth ts)) + m" using i by simp
  have room: "cg_room (Suc (Max (set (map depth ts)) + m)) s" using 2(6) by simp
  obtain s1 where s1: "read_btree_node e p s = (Ok (InternalN n), s1)" "cg_pager s1 = cg_pager s" "cg_inv e s1"
    "cg_room (Max (set (map depth ts)) + m) s1" "cached e s1 \<subseteq> insert p (cached e s)"
    by (rule read_btree_node_spec [OF 2(5) room st(1,2)], rule that)
  have child: "find_child n key = Ok (root_of (ts ! ?i))"
    using find_child_position [of n key] 2(4) st(3) i by (simp add: index_child_def)
  have "stored (cg_node s1) (ts ! ?i)" "routed (ts ! ?i)"
    using 2(3,4) i cg_node_cong [OF s1(2)] by auto
  then obtain s' where s': "descend e (path @ [(p, InternalN n)]) key (root_of (ts ! ?i)) s1 =
      Some (Ok ((path @ [(p, InternalN n)]) @ route (ts ! ?i) key, snd (leaf_at (ts ! ?i) key)), s')"
    "cg_pager s' = cg_pager s1" "cg_inv e s'" "cg_room m s'"
    "cached e s' \<subseteq> set (map fst (route (ts ! ?i) key)) \<union> cached e s1"
    using 2(1) [OF i _ _ _ s1(3) cg_room_less [OF s1(4) d]] by metis
  show ?case
  proof (rule 2(2))
    show "descend e path key (root_of (PNode p n ts)) s =
        Some (Ok (path @ route (PNode p n ts) key, snd (leaf_at (PNode p n ts) key)), s')"
      using s1(1) child s'(1) i by (subst descend.simps) simp
    show "cached e s' \<subseteq> set (map fst (route (PNode p n ts) key)) \<union> cached e s" using s'(5) s1(5) i by auto
  qed (use s' s1(2) in simp_all)
qed

section \<open>Replacing the leaf of a key\<close>

fun update_leaf :: "ptree \<Rightarrow> bytes \<Rightarrow> leaf_node \<Rightarrow> ptree" where
  "update_leaf (PLeaf p l) key l' = PLeaf p l'"
| "update_leaf (PNode p n ts) key l' =
     PNode p n (if children_of n key < length ts
                then ts[children_of n key := update_leaf (ts ! children_of n key) key l'] else ts)"

lemma concat_list_update_same: "i < length ts \<Longrightarrow> f x = f (ts ! i) \<Longrightarrow> map f (ts[i := x]) = map f ts"
  by (metis list_update_id map_update)

lemma update_leaf_pages [simp]: "pages_of (update_leaf t key l') = pages_of t" "root_of (update_leaf t key l') = root_of t"
proof (induction t key l' rule: update_leaf.induct)
  case (2 p n ts key l')
  { case 1
    show ?case using 2(1) by (simp add: concat_list_update_same [of _ _ pages_of])
  next
    case 2
    show ?case by simp }
qed simp_all

lemma update_leaf_depth [simp]: "depth (update_leaf t key l') = depth t"
proof (induction t key l' rule: update_leaf.induct)
  case (2 p n ts key l')
  have "map depth (ts[children_of n key := update_leaf (ts ! children_of n key) key l']) = map depth ts"
    if "children_of n key < length ts"
    using that 2 by (intro concat_list_update_same) simp_all
  then have "depth ` set (ts[children_of n key := update_leaf (ts ! children_of n key) key l']) = depth ` set ts"
    if "children_of n key < length ts"
    using that by (metis list.set_map)
  then show ?case by simp
qed simp

lemma update_leaf_entries:
  assumes "x \<in> set (entries_of (update_leaf t key l'))" "routed t" "\<forall>y \<in> set (lf_entries l'). y \<in> set (lf_entries (snd (leaf_at t key))) \<or> en_key y = key"
  shows "x \<in> set (entries_of t) \<or> en_key x = key"
  using assms
proof (induction t key l' rule: update_leaf.induct)
  case (2 p n ts key l')
  note i = routed_child [OF 2(3), of key]
  then obtain u where u: "u \<in> set (ts[children_of n key := update_leaf (ts ! children_of n key) key l'])"
    "x \<in> set (entries_of u)" using 2(2) by auto
  then consider "u = update_leaf (ts ! children_of n key) key l'" | "u \<in> set ts"
    using set_update_subset_insert by fastforce
  then show ?case
  proof cases
    case 1
    then show ?thesis using 2(1) [OF i] 2(3,4) u(2) i by auto
  next
    case 2
    then show ?thesis using u(2) by auto
  qed
qed auto

lemma update_leaf_routed:
  assumes "routed t" "ascending en_key (lf_entries l')"
    and "\<forall>y \<in> set (lf_entries l'). y \<in> set (lf_entries (snd (leaf_at t key))) \<or> en_key y = key"
  shows "routed (update_leaf t key l')"
  using assms
proof (induction t key l' rule: update_leaf.induct)
  case (2 p n ts key l')
  let ?i = "children_of n key"
  let ?u = "update_leaf (ts ! ?i) key l'"
  note i = routed_child [OF 2(2), of key]
  have sub: "routed (ts ! ?i)" "\<forall>y \<in> set (lf_entries l'). y \<in> set (lf_entries (snd (leaf_at (ts ! ?i) key))) \<or> en_key y = key"
    using 2(2,4) i by auto
  have ru: "routed ?u" using 2(1) [OF i sub(1) 2(3) sub(2)] .
  have "children_of n (en_key x) = j" if "j < length ts" "x \<in> set (entries_of (ts[?i := ?u] ! j))" for j x
  proof (cases "j = ?i")
    case True
    then have "x \<in> set (entries_of (ts ! ?i)) \<or> en_key x = key"
      using update_leaf_entries [OF _ sub] that(2) i by simp
    then show ?thesis
    proof
      assume "x \<in> set (entries_of (ts ! ?i))"
      then show ?thesis using 2(2) i True by simp
    qed (simp add: True)
  next
    case False
    then show ?thesis using that 2(2) by simp
  qed
  moreover have "\<forall>u \<in> set (ts[?i := ?u]). routed u"
    using set_update_subset_insert [of ts ?i ?u] ru 2(2) by auto
  ultimately show ?case using 2(2) i by simp
qed simp

lemma update_leaf_contents:
  assumes "routed t" "routed (update_leaf t key l')" "leaf_map l' = (leaf_map (snd (leaf_at t key)))(key := v)"
  shows "contents (update_leaf t key l') = (contents t)(key := v)"
proof
  fix k
  show "contents (update_leaf t key l') k = ((contents t)(key := v)) k"
    using assms
  proof (induction t key l' rule: update_leaf.induct)
    case (1 p l key l')
    then show ?case by (simp add: contents_def leaf_map_def)
  next
    case (2 p n ts key l')
    let ?i = "children_of n key"
    note i = routed_child [OF 2(2), of key]
    let ?us = "ts[?i := update_leaf (ts ! ?i) key l']"
    have c: "contents (update_leaf (PNode p n ts) key l') k = contents (?us ! children_of n k) k"
      using contents_child [of p n ?us k] 2(3) i by simp
    show ?case
    proof (cases "children_of n k = ?i")
      case True
      have "routed (ts ! ?i)" "routed (update_leaf (ts ! ?i) key l')"
        using 2(2,3) i by (auto simp: set_update_memI)
      then have "contents (update_leaf (ts ! ?i) key l') k = ((contents (ts ! ?i))(key := v)) k"
        using 2(1) [OF i] 2(4) i by simp
      then show ?thesis using c True i contents_child [OF 2(2), of k] by simp
    next
      case False
      then show ?thesis using c contents_child [OF 2(2), of k] by auto
    qed
  qed
qed

lemma distinct_concat_disjoint:
  assumes "distinct (concat xss)" "i < length xss" "j < length xss" "i \<noteq> j" "x \<in> set (xss ! i)"
  shows "x \<notin> set (xss ! j)"
  using assms
proof (induction xss arbitrary: i j)
  case (Cons xs xss)
  have dj: "set xs \<inter> set (concat xss) = {}" using Cons.prems(1) by simp
  show ?case
  proof (cases "i = 0 \<or> j = 0")
    case True
    then show ?thesis
      using dj Cons.prems(2-5) nth_mem [of "i - 1" xss] nth_mem [of "j - 1" xss] by (fastforce simp: nth_Cons')
  next
    case False
    then obtain a b where "i = Suc a" "j = Suc b" by (auto simp: gr0_conv_Suc)
    then show ?thesis using Cons.IH [of a b] Cons.prems by simp
  qed
qed simp

lemma update_leaf_stored:
  assumes "stored ns t" "routed t" "distinct (pages_of t)"
    and "ns' (fst (leaf_at t key)) = Some (LeafN l')" "\<And>q. q \<in> set (pages_of t) \<Longrightarrow> q \<noteq> fst (leaf_at t key) \<Longrightarrow> ns' q = ns q"
  shows "stored ns' (update_leaf t key l')"
  using assms
proof (induction t key l' rule: update_leaf.induct)
  case (2 p n ts key l')
  let ?i = "children_of n key"
  let ?u = "update_leaf (ts ! ?i) key l'"
  note i = routed_child [OF 2(3), of key]
  have ri: "routed (ts ! ?i)" and si: "stored ns (ts ! ?i)" using 2(2,3) i by auto
  have leaf: "fst (leaf_at (ts ! ?i) key) \<in> set (pages_of (ts ! ?i))" by (rule leaf_at_page [OF ri])
  have dist: "distinct (concat (map pages_of ts))" and p: "p \<noteq> fst (leaf_at (ts ! ?i) key)"
    using 2(4) leaf nth_mem [OF i] by auto
  have same: "ns' q = ns q" if "j < length ts" "q \<in> set (pages_of (ts ! j))" "q \<noteq> fst (leaf_at (ts ! ?i) key)" for j q
  proof -
    have "q \<in> set (pages_of (PNode p n ts))" using that(1,2) by (auto intro!: bexI [of _ "ts ! j"])
    then show ?thesis using 2(6) that(3) i by simp
  qed
  have "distinct (pages_of (ts ! ?i))" using dist i by (metis distinct_concat_iff length_map nth_map nth_mem)
  then have u: "stored ns' ?u"
    using 2(1) [OF i si ri] 2(5) i same [OF i] by simp
  have "stored ns' (ts[?i := ?u] ! j)" if j: "j < length ts" for j
  proof (cases "j = ?i")
    case False
    have "q \<noteq> fst (leaf_at (ts ! ?i) key)" if "q \<in> set (pages_of (ts ! j))" for q
      using distinct_concat_disjoint [OF dist, of ?i j] leaf that i j False by auto
    moreover have "stored ns (ts ! j)" using 2(2) j by simp
    ultimately have "stored ns' (ts ! j)" using same [OF j] stored_cong [of ns "ts ! j" ns'] by blast
    then show ?thesis using False by simp
  qed (simp add: u i)
  then have "\<forall>t \<in> set (ts[?i := ?u]). stored ns' t" by (simp add: all_set_conv_all_nth)
  moreover have "map root_of (ts[?i := ?u]) = map root_of ts" using i by (intro concat_list_update_same) simp_all
  moreover have "ns' p = ns p" using 2(6) [of p] p i by simp
  ultimately show ?case using 2(2) i by simp
qed simp

section \<open>What a leaf operation leaves behind\<close>

text \<open>\<open>leaf_update l l' key v\<close>: the leaf \<open>l'\<close> can be written and differs from \<open>l\<close> only at \<open>key\<close>.\<close>

definition leaf_update :: "leaf_node \<Rightarrow> leaf_node \<Rightarrow> bytes \<Rightarrow> entry option \<Rightarrow> bool" where
  "leaf_update l l' key v \<longleftrightarrow> node_fits (LeafN l') \<and> ascending en_key (lf_entries l') \<and>
     leaf_map l' = (leaf_map l)(key := v) \<and> lf_next_leaf l' = lf_next_leaf l \<and> lf_prev_leaf l' = lf_prev_leaf l"

definition checksummed :: "u32 \<Rightarrow> leaf_node \<Rightarrow> leaf_node" where
  "checksummed c l = l\<lparr>lf_header := (lf_header l)\<lparr>nh_checksum := c\<rparr>\<rparr>"

lemma checksummed_simps [simp]:
  "lf_entries (checksummed c l) = lf_entries l"
  "leaf_map (checksummed c l) = leaf_map l" "lf_next_leaf (checksummed c l) = lf_next_leaf l"
  "lf_prev_leaf (checksummed c l) = lf_prev_leaf l"
  by (simp_all add: checksummed_def leaf_map_def)

lemma key_map_entries:
  assumes "ascending en_key xs" "ascending en_key ys" "key_map en_key ys = (key_map en_key xs)(key := v)"
    and "\<And>x. v = Some x \<Longrightarrow> en_key x = key" "y \<in> set ys"
  shows "y \<in> set xs \<or> en_key y = key"
proof -
  have "key_map en_key ys (en_key y) = Some y" using key_map_Some [OF assms(2)] assms(5) by blast
  then show ?thesis using assms(3) key_map_Some [OF assms(1)] by (metis fun_upd_apply)
qed

lemma node_fits_entries:
  assumes "node_fits (LeafN l)" "leaf_inv l" "leaf_ordered l'" "leaf_used l' \<le> LEAF_CAPACITY"
    and "leaf_map l' = (leaf_map l)(key := v)" "\<And>x. v = Some x \<Longrightarrow> entry_fits x \<and> en_key x = key"
    and "node_header_wf (lf_header l') = node_header_wf (lf_header l)" "nh_node_type (lf_header l') = nh_node_type (lf_header l)"
  shows "node_fits (LeafN l')"
proof -
  have asc: "ascending en_key (lf_entries l')" "ascending en_key (lf_entries l)"
    using assms(2,3) by (simp_all add: leaf_inv_def leaf_ordered_def)
  have "entry_fits y" if "y \<in> set (lf_entries l')" for y
  proof -
    have "leaf_map l' (en_key y) = Some y" using key_map_Some [OF asc(1)] that by (simp add: leaf_map_def)
    then have "v = Some y \<or> leaf_map l (en_key y) = Some y" using assms(5) by (metis fun_upd_apply)
    then show ?thesis using assms(1,6) key_map_Some [OF asc(2)] by (auto simp: leaf_map_def)
  qed
  moreover have "unat (nh_num_keys (lf_header l')) = length (lf_entries l')"
    using assms(3,4) leaf_entry_count [of l'] by (simp add: leaf_ordered_def unat_of_nat page_size_defs)
  ultimately show ?thesis using assms(1,4,7,8) by (simp add: get_node_type_def)
qed

lemma leaf_insert_type: "leaf_insert n e = Ok (n', b) \<Longrightarrow> nh_node_type (lf_header n') = nh_node_type (lf_header n)"
  by (auto simp: leaf_insert_def Let_def touch_header_def increment_generation_def set_flag_def split: if_splits)

lemma leaf_insert_is_root: "leaf_insert n e = Ok (n', b) \<Longrightarrow> nh_is_root (lf_header n') = nh_is_root (lf_header n)"
  by (auto simp: leaf_insert_def Let_def split: if_splits)

lemma leaf_insert_used: "leaf_insert n e = Ok (n', False) \<Longrightarrow> leaf_used n' = leaf_used n + serialized_size e"
  by (auto simp: leaf_insert_def Let_def leaf_used_def sum_list_vec_insert split: if_splits)

lemma leaf_remove_type: "leaf_remove n k = Ok (n', b) \<Longrightarrow> nh_node_type (lf_header n') = nh_node_type (lf_header n)"
  by (auto simp: leaf_remove_def Let_def touch_header_def increment_generation_def set_flag_def split: option.splits if_splits)

lemma no_split:
  assumes "leaf_inv l" "leaf_used l \<le> 13043"
  shows "\<not> needs_split (lf_header l)"
proof -
  have "int (unat (nh_free_space (lf_header l))) = 16308 - int (leaf_used l)"
    using assms(1) leaf_size_bounds(2) [OF assms(1)] by (simp add: leaf_inv_def page_size_defs)
  then show ?thesis using assms(2) unfolding needs_split_def uint_nat by simp
qed

lemma leaf_insert_leaf_update:
  assumes "leaf_inv l" "node_fits (LeafN l)" "entry_fits en" "leaf_used l + serialized_size en \<le> 13043"
  shows "\<exists>l' b. leaf_insert l en = Ok (l', b) \<and> leaf_update l l' (en_key en) (Some en) \<and>
    (b \<or> \<not> needs_split (lf_header l'))"
proof (cases "leaf_map l (en_key en)")
  case None
  have cap: "leaf_used l + serialized_size en \<le> LEAF_CAPACITY" using assms(4) by (simp add: page_size_defs)
  obtain l' where l': "leaf_insert l en = Ok (l', False)" "leaf_inv l'" "leaf_map l' = (leaf_map l)(en_key en \<mapsto> en)"
    "lf_next_leaf l' = lf_next_leaf l" "lf_prev_leaf l' = lf_prev_leaf l"
    "node_header_wf (lf_header l') = node_header_wf (lf_header l)"
    using leaf_insert_new_inv [OF assms(1) None cap] by blast
  have used: "leaf_used l' = leaf_used l + serialized_size en"
    using leaf_insert_used [OF l'(1)] .
  have "node_fits (LeafN l')"
    using node_fits_entries [OF assms(2,1) _ _ l'(3) _ l'(6) leaf_insert_type [OF l'(1)]] l'(2) assms(3)
    by (simp add: leaf_inv_def)
  moreover have "\<not> needs_split (lf_header l')" using no_split [OF l'(2)] used assms(4) by simp
  ultimately show ?thesis using l' by (auto simp: leaf_update_def leaf_inv_def leaf_ordered_def)
next
  case (Some old)
  have cap: "leaf_used l + serialized_size en \<le> LEAF_CAPACITY" using assms(4) by (simp add: page_size_defs)
  obtain l' where l': "leaf_insert l en = Ok (l', True)" "leaf_ordered l'" "leaf_map l' = (leaf_map l)(en_key en \<mapsto> en)"
    "lf_next_leaf l' = lf_next_leaf l" "lf_prev_leaf l' = lf_prev_leaf l"
    "node_header_wf (lf_header l') = node_header_wf (lf_header l)"
    "leaf_used l' + serialized_size old = leaf_used l + serialized_size en"
    using leaf_insert_update_order [OF assms(1) Some cap] by blast
  have "leaf_used l' \<le> LEAF_CAPACITY" using l'(7) cap by simp
  then have "node_fits (LeafN l')"
    using node_fits_entries [OF assms(2,1) l'(2) _ l'(3) _ l'(6) leaf_insert_type [OF l'(1)]] assms(3) by simp
  then show ?thesis using l' by (auto simp: leaf_update_def leaf_ordered_def)
qed

lemma insert_into_leaf_spec:
  assumes "leaf_inv l" "node_fits (LeafN l)" "entry_fits en" "leaf_used l + serialized_size en \<le> 13043"
  shows "\<exists>l'. leaf_update l l' (en_key en) (Some en) \<and> (\<exists>is_update. leaf_insert l en = Ok (l', is_update)) \<and>
    (\<forall>s. insert_into_leaf e l en s = (Ok (InsertSuccess, l'), s))"
proof -
  obtain l' is_update where l': "leaf_insert l en = Ok (l', is_update)" "leaf_update l l' (en_key en) (Some en)"
    "is_update \<or> \<not> needs_split (lf_header l')"
    using leaf_insert_leaf_update [OF assms] by blast
  have "has_space (lf_header l) (serialized_size en)"
    using leaf_size_bounds(1) [OF assms(1)] assms(4) by (simp add: page_size_defs)
  with l' show ?thesis by (auto simp: insert_into_leaf_def)
qed

lemma leaf_remove_leaf_update:
  assumes "leaf_inv l" "node_fits (LeafN l)"
  shows "\<exists>l'. leaf_remove l key = Ok (l', leaf_map l key) \<and> leaf_update l l' key None \<and> leaf_inv l'"
proof -
  obtain l' where l': "leaf_remove l key = Ok (l', leaf_map l key)" "leaf_inv l'" "leaf_map l' = (leaf_map l)(key := None)"
    "lf_next_leaf l' = lf_next_leaf l" "lf_prev_leaf l' = lf_prev_leaf l"
    "node_header_wf (lf_header l') = node_header_wf (lf_header l)"
    using leaf_remove_correct_lemma [OF assms(1)] by blast
  have "node_fits (LeafN l')"
    using node_fits_entries [OF assms(2,1) _ _ l'(3) _ l'(6) leaf_remove_type [OF l'(1)]] l'(2) by (simp add: leaf_inv_def)
  then show ?thesis using l' by (auto simp: leaf_update_def leaf_inv_def leaf_ordered_def)
qed

lemma removed_count:
  assumes "leaf_inv l" "leaf_remove l key = Ok (l', leaf_map l key)" "leaf_map l key \<noteq> None" "leaf_inv l'"
    and "is_underfull (lf_header l') min_leaf_entries"
  shows "length (lf_entries l) \<le> 65"
proof -
  have asc: "ascending en_key (lf_entries l)" using assms(1) by (simp add: leaf_inv_def leaf_ordered_def)
  have "length (lf_entries l) = Suc (length (lf_entries l'))"
  proof (cases "search_by_key en_key key (lf_entries l)")
    case (NotFound i)
    then show ?thesis using bsearch.NotFound_notin [OF asc] assms(3) by (simp add: leaf_map_def key_map_None)
  next
    case (Found i)
    then have "i < length (lf_entries l)" using bsearch.search_Found [OF asc] by simp
    then show ?thesis
      using Found assms(2) by (auto simp: leaf_remove_def search_by_key_def Let_def split: option.splits if_splits)
  qed
  moreover have "unat (nh_num_keys (lf_header l')) < 65"
    using assms(5) by (simp add: is_underfull_def min_leaf_entries_def word_less_nat_alt)
  ultimately show ?thesis using leaf_inv_count [OF assms(4)] by simp
qed

section \<open>Writing the leaf of a key\<close>

lemma write_leaf_spec:
  assumes inv: "cg_inv e s" and room: "cg_room (Suc m) s" and t: "stored (cg_node s) t" "routed t" "distinct (pages_of t)"
    and up: "leaf_update (snd (leaf_at t key)) l' key v" "\<And>x. v = Some x \<Longrightarrow> en_key x = key"
  obtains s' t' where "write_btree_node e (fst (leaf_at t key)) (LeafN l') s = (Ok (), s')" "cg_inv e s'" "cg_room m s'"
    "stored (cg_node s') t'" "routed t'" "pages_of t' = pages_of t" "root_of t' = root_of t" "depth t' = depth t"
    "contents t' = (contents t)(key := v)"
proof -
  obtain p l where pl: "leaf_at t key = (p, l)" by fastforce
  have p: "addressable p" using leaf_at_stored [OF t(1,2) pl] by simp
  have fits: "node_fits (LeafN l')" using up(1) by (simp add: leaf_update_def)
  obtain s' c where s': "write_btree_node e p (LeafN l') s = (Ok (), s')" "cg_inv e s'" "cg_room m s'"
    "cg_node s' p = Some (with_checksum c (LeafN l'))"
    "\<And>q x. addressable q \<Longrightarrow> q \<noteq> p \<Longrightarrow> cg_node s q = Some x \<Longrightarrow> cg_node s' q = Some x"
    by (rule write_btree_node_spec [OF inv room p fits], rule that)
  let ?l = "checksummed c l'"
  have asc: "ascending en_key (lf_entries l)" "ascending en_key (lf_entries ?l)"
    using leaf_at_ascending [OF t(2), of key] pl up(1) by (simp_all add: leaf_update_def)
  have "\<forall>y \<in> set (lf_entries ?l). y \<in> set (lf_entries (snd (leaf_at t key))) \<or> en_key y = key"
    using key_map_entries [OF asc _ up(2)] up(1) pl by (simp add: leaf_update_def leaf_map_def)
  then have r: "routed (update_leaf t key ?l)" using update_leaf_routed [OF t(2) asc(2)] by blast
  have c: "contents (update_leaf t key ?l) = (contents t)(key := v)"
    using update_leaf_contents [OF t(2) r] up(1) by (simp add: leaf_update_def)
  have st: "stored (cg_node s') (update_leaf t key ?l)"
  proof (rule update_leaf_stored [OF t])
    show "cg_node s' (fst (leaf_at t key)) = Some (LeafN ?l)" using s'(4) pl by (simp add: checksummed_def)
    show "cg_node s' q = cg_node s q" if "q \<in> set (pages_of t)" "q \<noteq> fst (leaf_at t key)" for q
      using s'(5) [of q] stored_addressable [OF t(1) that(1)] that(2) pl by auto
  qed
  show ?thesis by (rule that [OF _ s'(2,3) st r _ _ _ c]) (simp_all add: s'(1) pl)
qed

section \<open>Lookup, insertion and deletion on a well-formed tree\<close>

text \<open>\<open>btree_rep e b t m\<close>: the tree object \<open>b\<close> holds the routed tree \<open>t\<close>, the cache is coherent, and it
  has room for the pages of one descent and \<open>m\<close> more in every shard. \<open>holds_value\<close> is the value an
  entry stands for, read from \<open>k\<close> overflow pages when the entry refers to a chain.\<close>

definition btree_rep :: "env \<Rightarrow> btree \<Rightarrow> ptree \<Rightarrow> nat \<Rightarrow> bool" where
  "btree_rep e b t m \<longleftrightarrow> stored (cg_node (bt_pager b)) t \<and> routed t \<and> distinct (pages_of t) \<and>
     root_of t = bt_root_page_id b \<and> cg_inv e (bt_pager b) \<and> cg_room (depth t + m) (bt_pager b)"

definition holds_value :: "env \<Rightarrow> cpager \<Rightarrow> entry \<Rightarrow> nat \<Rightarrow> bytes \<Rightarrow> bool" where
  "holds_value e s en k v \<longleftrightarrow>
     (if is_overflow_value en then
        \<exists>p ps d ds. en_value en = value_encode (OverflowV p) \<and> chain e s (p # ps) (d # ds) \<and> distinct (p # ps) \<and>
          (\<forall>q \<in> set (p # ps). addressable q \<and> q \<noteq> 0) \<and> Suc (length ps) \<le> k \<and> Suc (length ps) \<le> 2000 \<and> v = concat (d # ds)
      else v = en_value en)"

definition visible_value :: "env \<Rightarrow> cpager \<Rightarrow> nat \<Rightarrow> lsn \<Rightarrow> entry option \<Rightarrow> bytes option \<Rightarrow> bool" where
  "visible_value e s k l x r \<longleftrightarrow>
     (case x of
        None \<Rightarrow> r = None
      | Some en \<Rightarrow> if en_lsn en \<le> l then \<exists>v. holds_value e s en k v \<and> r = Some v else r = None)"

lemma read_entry_spec:
  assumes "visible_value e s k l x r" "cg_inv e s" "cg_room k s"
  shows "\<exists>s'. read_entry e l x s = (Ok r, s') \<and> cg_pager s' = cg_pager s \<and> cg_inv e s'"
proof (cases "\<exists>en. x = Some en \<and> en_lsn en \<le> l \<and> is_overflow_value en")
  case True
  then obtain en where en: "x = Some en" "en_lsn en \<le> l" "is_overflow_value en" by blast
  then obtain p ps d ds where c: "en_value en = value_encode (OverflowV p)" "chain e s (p # ps) (d # ds)" "distinct (p # ps)"
    "\<forall>q \<in> set (p # ps). addressable q \<and> q \<noteq> 0" "Suc (length ps) \<le> k" "Suc (length ps) \<le> 2000" "r = Some (concat (d # ds))"
    using assms(1) by (auto simp: visible_value_def holds_value_def)
  have "cg_room (Suc (length ps) + 0) s" using cg_room_less [OF assms(3) c(5)] by simp
  then obtain s' where "read_chain_loop e [] [] p s = (Ok ([] @ concat (d # ds)), s')" "cg_pager s' = cg_pager s" "cg_inv e s'"
    using read_chain_spec [OF c(2) assms(2) _ c(3) _ c(4), of 0 "[]" "[]"] c(6) by auto
  then show ?thesis
    using en c(1,7) value_decode_overflow [of p] by (simp add: read_entry_def read_overflow_chain_def then_do_Ok)
next
  case False
  then show ?thesis
    using assms by (auto simp: read_entry_def visible_value_def holds_value_def split: option.splits if_splits)
qed

fun root_node :: "ptree \<Rightarrow> node" where
  "root_node (PLeaf p l) = LeafN l"
| "root_node (PNode p n ts) = InternalN n"

lemma root_node_stored: "stored ns t \<Longrightarrow> addressable (root_of t) \<and> ns (root_of t) = Some (root_node t)"
  by (cases t) simp_all

lemma chain_pager: "cg_pager s' = cg_pager s \<Longrightarrow> chain e s' ps ds = chain e s ps ds"
  using chain_cong [of e s ps ds s'] chain_cong [of e s' ps ds s] by (auto simp: cg_page_def)

lemma visible_value_pager: "cg_pager s' = cg_pager s \<Longrightarrow> visible_value e s' k l x r = visible_value e s k l x r"
  unfolding visible_value_def holds_value_def using chain_pager [of s' s e] by presburger

lemma rep_leaf_at:
  assumes "btree_rep e b t m"
  shows "ascending en_key (lf_entries (snd (leaf_at t key)))" "leaf_find (snd (leaf_at t key)) key = contents t key"
  using assms leaf_at_ascending [of t key] leaf_find_map [of "snd (leaf_at t key)" key] contents_leaf_at [of t key]
  by (simp_all add: btree_rep_def)

lemma rep_descend:
  assumes "btree_rep e b t m"
  obtains s' where "descend e [] key (bt_root_page_id b) (bt_pager b) = Some (Ok (route t key, snd (leaf_at t key)), s')"
    "cg_pager s' = cg_pager (bt_pager b)" "cg_inv e s'" "cg_room m s'" "stored (cg_node s') t"
proof -
  have r: "stored (cg_node (bt_pager b)) t" "routed t" "cg_inv e (bt_pager b)" "cg_room (depth t + m) (bt_pager b)"
    "root_of t = bt_root_page_id b" using assms by (simp_all add: btree_rep_def)
  obtain s' where s': "descend e [] key (root_of t) (bt_pager b) = Some (Ok ([] @ route t key, snd (leaf_at t key)), s')"
    "cg_pager s' = cg_pager (bt_pager b)" "cg_inv e s'" "cg_room m s'"
    by (rule descend_spec [OF r(1-4), where path = "[]" and key = key], rule that)
  show ?thesis
    by (rule that [OF _ s'(2-4)]) (use s'(1) r(1,5) cg_node_cong [OF s'(2)] in simp_all)
qed

text \<open>A new pager in memory that holds one node.\<close>

lemma sample_pager:
  assumes "node_fits nd"
  obtains s c where "cg_inv sample_env s" "cg_room 100 s" "cg_node s 3 = Some (with_checksum c nd)" "3 \<in> cached sample_env s"
proof -
  have "usize_is_power_of_two (env_num_cpus sample_env)"
    unfolding usize_is_power_of_two_def by (rule bexI [of _ 0]) (simp_all add: sample_env_def)
  then obtain s where s: "cg_create_memory sample_env = Ok s" using cg_create_memory_total by blast
  note spec = cg_create_memory_spec [OF s]
  have three: "addressable 3" by (simp add: addressable_def)
  show ?thesis
    by (rule write_btree_node_spec [OF spec(1) spec(3) three assms, of 100], simp, rule that)
qed

definition sample_btree :: "cpager \<Rightarrow> btree" where
  "sample_btree s = \<lparr>bt_pager = s, bt_root_page_id = 3, bt_height = 0, bt_leaf_count = 1, bt_internal_count = 0\<rparr>"

lemma leaf_new_fits: "node_fits (LeafN (leaf_new p))"
  using leaf_new_inv [of p]
  by (simp add: leaf_inv_count leaf_used_def) (simp add: leaf_new_def Let_def get_node_type_def node_header_new_def page_size_defs
      node_type_from_u8_def)

lemma checksummed_inv [simp]: "leaf_inv (checksummed c l) = leaf_inv l" "leaf_used (checksummed c l) = leaf_used l"
  "node_fits (LeafN (checksummed c l)) = node_fits (LeafN l)"
  by (simp_all add: leaf_inv_def leaf_ordered_def leaf_used_def checksummed_def)

lemma sample_leaf:
  assumes "node_fits (LeafN l)" "ascending en_key (lf_entries l)"
  obtains s c where "btree_rep sample_env (sample_btree s) (PLeaf 3 (checksummed c l)) 99"
proof -
  obtain s c where s: "cg_inv sample_env s" "cg_room 100 s" "cg_node s 3 = Some (with_checksum c (LeafN l))"
    by (rule sample_pager [OF assms(1)], rule that)
  have "btree_rep sample_env (sample_btree s) (PLeaf 3 (checksummed c l)) 99"
    using s assms(2) by (simp add: btree_rep_def sample_btree_def checksummed_def addressable_def)
  then show ?thesis by (rule that)
qed

definition sample_entry :: entry where
  "sample_entry = \<lparr>en_key = [1], en_value = [7, 8], en_lsn = 5\<rparr>"

text \<open>A leaf with one entry.\<close>

lemma sample_entry_leaf:
  obtains l where "node_fits (LeafN l)" "leaf_inv l" "leaf_map l = [[1] \<mapsto> sample_entry]" "lf_next_leaf l = 0" "lf_prev_leaf l = 0"
    "nh_is_root (lf_header l) = 0"
proof -
  let ?l = "leaf_new 3"
  have new: "lf_entries ?l = []" "lf_next_leaf ?l = 0" "lf_prev_leaf ?l = 0" by (simp_all add: leaf_new_def Let_def)
  have emp: "leaf_map ?l = Map.empty" by (simp add: leaf_map_def key_map_def new)
  have used: "leaf_used ?l + serialized_size sample_entry \<le> 13043" "leaf_used ?l + serialized_size sample_entry \<le> LEAF_CAPACITY"
    by (simp_all add: leaf_used_def new serialized_size_def sample_entry_def page_size_defs)
  have "entry_fits sample_entry" by (simp add: entry_fits_def sample_entry_def MAX_KEY_LENGTH_def MAX_INLINE_VALUE_LENGTH_def)
  then obtain l b where l: "leaf_insert ?l sample_entry = Ok (l, b)" "leaf_update ?l l (en_key sample_entry) (Some sample_entry)"
    using leaf_insert_leaf_update [OF _ leaf_new_fits _ used(1)] leaf_new_inv [of 3] by blast
  moreover have "leaf_inv l"
    using leaf_insert_new_inv [OF _ _ used(2)] leaf_new_inv [of 3] l(1) emp by auto
  moreover have "nh_is_root (lf_header l) = 0"
    using leaf_insert_is_root [OF l(1)] by (simp add: leaf_new_def Let_def node_header_new_def)
  ultimately show ?thesis using that [of l] new emp by (simp add: leaf_update_def sample_entry_def)
qed

text \<open>
  C20. Looking up a key. On a well-formed tree \<open>BTree::get\<close> returns, and returns the value of the
  entry the tree holds for the key when that entry is not newer than the snapshot, through the
  overflow chain if it refers to one, and nothing otherwise; the storage is not changed.
\<close>

theorem btree_get_correct:
  assumes "btree_rep e b t k" "visible_value e (bt_pager b) k l (contents t key) r"
  shows "\<exists>b'. btree_get e key l b = Some (Ok r, b') \<and> cg_pager (bt_pager b') = cg_pager (bt_pager b) \<and>
    cg_inv e (bt_pager b') \<and> bt_root_page_id b' = bt_root_page_id b"
proof -
  obtain s where s: "descend e [] key (bt_root_page_id b) (bt_pager b) = Some (Ok (route t key, snd (leaf_at t key)), s)"
    "cg_pager s = cg_pager (bt_pager b)" "cg_inv e s" "cg_room k s"
    by (rule rep_descend [OF assms(1)], rule that)
  obtain s' where s': "read_entry e l (contents t key) s = (Ok r, s')" "cg_pager s' = cg_pager s" "cg_inv e s'"
    using read_entry_spec [OF _ s(3,4)] assms(2) visible_value_pager [OF s(2)] by blast
  have "btree_get e key l b = Some (Ok r, b\<lparr>bt_pager := s'\<rparr>)"
    using s(1) s'(1) rep_leaf_at(2) [OF assms(1), of key]
    by (simp add: btree_get_def get_with_pages_def on_pager_def then_do_Ok)
  then show ?thesis using s' s(2) by simp
qed

theorem btree_get_correct_witness:
  "\<exists>b b'. btree_get sample_env [1] 6 b = Some (Ok (Some [7, 8]), b')"
proof -
  obtain l where l: "node_fits (LeafN l)" "leaf_inv l" "leaf_map l = [[1] \<mapsto> sample_entry]"
    by (rule sample_entry_leaf, rule that)
  obtain s c where s: "btree_rep sample_env (sample_btree s) (PLeaf 3 (checksummed c l)) 99"
    using sample_leaf [OF l(1)] l(2) by (metis leaf_inv_def leaf_ordered_def)
  have "contents (PLeaf 3 (checksummed c l)) = leaf_map l" by (simp add: contents_def leaf_map_def)
  then have "visible_value sample_env (bt_pager (sample_btree s)) 99 6 (contents (PLeaf 3 (checksummed c l)) [1]) (Some [7, 8])"
    using l(3) by (simp add: visible_value_def holds_value_def sample_entry_def is_overflow_value_def)
  from btree_get_correct [OF s this] show ?thesis by blast
qed

lemma btree_rep_stored:
  assumes "btree_rep e b t m" "stored (cg_node s) t'" "routed t'" "pages_of t' = pages_of t" "root_of t' = root_of t"
    "cg_inv e s" "cg_room (depth t' + n) s"
  shows "btree_rep e (b\<lparr>bt_pager := s\<rparr>) t' n"
  using assms by (simp add: btree_rep_def)

lemma put_at_leaf_spec:
  assumes up: "insert_into_leaf e (snd (leaf_at t key)) en s = (Ok (InsertSuccess, l'), s)"
      "leaf_update (snd (leaf_at t key)) l' key (Some en)" "en_key en = key"
    and s: "cg_inv e s" "cg_room (Suc m) s" "stored (cg_node s) t" "routed t" "distinct (pages_of t)"
  shows "\<exists>s' t'. put_at_leaf e en (route t key) (snd (leaf_at t key)) (b\<lparr>bt_pager := s\<rparr>) = (Ok (), b\<lparr>bt_pager := s'\<rparr>) \<and>
    cg_inv e s' \<and> cg_room m s' \<and> stored (cg_node s') t' \<and> routed t' \<and> pages_of t' = pages_of t \<and> root_of t' = root_of t \<and>
    depth t' = depth t \<and> contents t' = (contents t)(key \<mapsto> en)"
proof -
  obtain s' t' where w: "write_btree_node e (fst (leaf_at t key)) (LeafN l') s = (Ok (), s')" "cg_inv e s'" "cg_room m s'"
    "stored (cg_node s') t'" "routed t'" "pages_of t' = pages_of t" "root_of t' = root_of t" "depth t' = depth t"
    "contents t' = (contents t)(key := Some en)"
    using write_leaf_spec [OF s up(2)] up(3) by (metis option.inject)
  have "put_at_leaf e en (route t key) (snd (leaf_at t key)) (b\<lparr>bt_pager := s\<rparr>) = (Ok (), b\<lparr>bt_pager := s'\<rparr>)"
    using up(1) w(1) last_route [OF s(4), of key] by (simp add: put_at_leaf_def on_pager_def then_do_def)
  then show ?thesis using w by blast
qed

text \<open>An insertion of an inline value reads the root, then inserts into an empty root leaf or descends.\<close>

lemma btree_put_reads_root:
  assumes "btree_rep e b t (Suc n)" "length val \<le> INLINE_THRESHOLD"
  obtains s where "cg_inv e s" "cg_room (depth t + n) s" "stored (cg_node s) t"
    "btree_put e key val l b = (case root_node t of
      LeafN leaf \<Rightarrow> if lf_entries leaf = [] then
         Some (then_do (pure_res (leaf_insert leaf \<lparr>en_key = key, en_value = val, en_lsn = l\<rparr>)) (\<lambda>(leaf', _).
           on_pager (write_btree_node e (bt_root_page_id b) (LeafN leaf'))) (b\<lparr>bt_pager := s\<rparr>))
         else put_from_root e \<lparr>en_key = key, en_value = val, en_lsn = l\<rparr> key (b\<lparr>bt_pager := s\<rparr>)
    | InternalN _ \<Rightarrow> put_from_root e \<lparr>en_key = key, en_value = val, en_lsn = l\<rparr> key (b\<lparr>bt_pager := s\<rparr>))"
proof -
  have r: "stored (cg_node (bt_pager b)) t" "root_of t = bt_root_page_id b" "cg_inv e (bt_pager b)"
    "cg_room (Suc (depth t + n)) (bt_pager b)"
    using assms(1) by (simp_all add: btree_rep_def)
  have root: "addressable (bt_root_page_id b)" "cg_node (bt_pager b) (bt_root_page_id b) = Some (root_node t)"
    using root_node_stored [OF r(1)] r(2) by simp_all
  obtain s where s: "read_btree_node e (bt_root_page_id b) (bt_pager b) = (Ok (root_node t), s)"
    "cg_pager s = cg_pager (bt_pager b)" "cg_inv e s" "cg_room (depth t + n) s"
    by (rule read_btree_node_spec [OF r(3,4) root], rule that)
  show thesis
  proof (rule that [of s])
    show "stored (cg_node s) t" using r(1) cg_node_cong [OF s(2)] by simp
  qed (use s assms(2) in \<open>simp_all add: btree_put_def on_pager_def prepare_entry_value_def should_store_inline_def
    overflow_consts MAX_KEY_LENGTH_def MAX_INLINE_VALUE_LENGTH_def then_do_def\<close>)
qed

text \<open>
  C21. Inserting without a split. On a well-formed tree, with a coherent page cache that has room for the pages of the descent, when the leaf the key is routed to is
  consistent and stays below the split threshold, \<open>BTree::put\<close> of a key of at most 255 bytes and a
  value of at most 2000 bytes, which is stored inline, returns successfully, and the tree then represents the old
  content with the key mapped to the new entry.
\<close>

theorem btree_put_correct:
  assumes "btree_rep e b t (depth t + m + 2)" "leaf_inv (snd (leaf_at t key))" "node_fits (LeafN (snd (leaf_at t key)))"
    and "length key \<le> MAX_KEY_LENGTH" "length val \<le> INLINE_THRESHOLD"
    and "leaf_used (snd (leaf_at t key)) + serialized_size \<lparr>en_key = key, en_value = val, en_lsn = l\<rparr> \<le> 13043"
  shows "\<exists>b' t'. btree_put e key val l b = Some (Ok (), b') \<and> btree_rep e b' t' m \<and>
    contents t' = (contents t)(key \<mapsto> \<lparr>en_key = key, en_value = val, en_lsn = l\<rparr>)"
proof -
  let ?en = "\<lparr>en_key = key, en_value = val, en_lsn = l\<rparr>" and ?l = "snd (leaf_at t key)"
  have r: "stored (cg_node (bt_pager b)) t" "routed t" "distinct (pages_of t)" "root_of t = bt_root_page_id b"
    using assms(1) by (simp_all add: btree_rep_def)
  obtain l' where l': "leaf_update ?l l' key (Some ?en)" "\<exists>is_update. leaf_insert ?l ?en = Ok (l', is_update)"
    "insert_into_leaf e ?l ?en s = (Ok (InsertSuccess, l'), s)" for s
    using insert_into_leaf_spec [OF assms(2,3), of ?en e] assms(4-6) by (auto simp: entry_fits_def overflow_consts MAX_KEY_LENGTH_def MAX_INLINE_VALUE_LENGTH_def)
  obtain s1 where s1: "cg_inv e s1" "cg_room (depth t + Suc (depth t + m)) s1" "stored (cg_node s1) t"
    and put: "btree_put e key val l b = (case root_node t of
      LeafN leaf \<Rightarrow> if lf_entries leaf = [] then
         Some (then_do (pure_res (leaf_insert leaf ?en)) (\<lambda>(leaf', _).
           on_pager (write_btree_node e (bt_root_page_id b) (LeafN leaf'))) (b\<lparr>bt_pager := s1\<rparr>))
         else put_from_root e ?en key (b\<lparr>bt_pager := s1\<rparr>)
    | InternalN _ \<Rightarrow> put_from_root e ?en key (b\<lparr>bt_pager := s1\<rparr>))"
    using btree_put_reads_root [OF _ assms(5), of e b t "Suc (depth t + m)" key l] assms(1) by auto
  show ?thesis
  proof (cases "\<exists>leaf. root_node t = LeafN leaf \<and> lf_entries leaf = []")
    case True
    then obtain p leaf where t: "t = PLeaf p leaf" "lf_entries leaf = []" by (cases t) auto
    have "cg_room (Suc (depth t + m)) s1" by (rule cg_room_less [OF s1(2)]) simp
    then obtain s' t' where w: "write_btree_node e p (LeafN l') s1 = (Ok (), s')" "cg_inv e s'" "cg_room (depth t + m) s'"
      "stored (cg_node s') t'" "routed t'" "pages_of t' = pages_of t" "root_of t' = root_of t" "depth t' = depth t"
      "contents t' = (contents t)(key := Some ?en)"
      using write_leaf_spec [OF s1(1) _ s1(3) r(2,3) l'(1)] t(1) by auto
    have "btree_put e key val l b = Some (Ok (), b\<lparr>bt_pager := s'\<rparr>)"
      using put t r(4) l'(2) w(1) by (auto simp: then_do_Ok on_pager_def)
    moreover have "btree_rep e (b\<lparr>bt_pager := s'\<rparr>) t' m"
      using btree_rep_stored [OF assms(1) w(4-7,2)] w(3,8) by simp
    ultimately show ?thesis using w(9) by blast
  next
    case False
    have rep1: "btree_rep e (b\<lparr>bt_pager := s1\<rparr>) t (Suc (depth t + m))"
      using r(1-4) s1 by (simp add: btree_rep_def)
    obtain s2 where s2: "descend e [] key (bt_root_page_id b) s1 = Some (Ok (route t key, ?l), s2)"
      "cg_inv e s2" "cg_room (Suc (depth t + m)) s2" "stored (cg_node s2) t"
      using rep_descend [OF rep1, of key] by auto
    obtain s' t' where w: "put_at_leaf e ?en (route t key) ?l (b\<lparr>bt_pager := s2\<rparr>) = (Ok (), b\<lparr>bt_pager := s'\<rparr>)"
      "cg_inv e s'" "cg_room (depth t + m) s'" "stored (cg_node s') t'" "routed t'" "pages_of t' = pages_of t"
      "root_of t' = root_of t" "depth t' = depth t" "contents t' = (contents t)(key \<mapsto> ?en)"
      using put_at_leaf_spec [OF l'(3,1) _ s2(2-4) r(2,3), of b] by auto
    have "btree_put e key val l b = Some (Ok (), b\<lparr>bt_pager := s'\<rparr>)"
      using put False w(1) s2(1) by (auto simp: put_from_root_def split: node.splits)
    moreover have "btree_rep e (b\<lparr>bt_pager := s'\<rparr>) t' m"
      using btree_rep_stored [OF assms(1) w(4-7,2)] w(3,8) by simp
    ultimately show ?thesis using w(9) by blast
  qed
qed

theorem btree_put_correct_witness:
  "\<exists>b b' t'. btree_put sample_env [1] [7, 8] 5 b = Some (Ok (), b') \<and> btree_rep sample_env b' t' 96 \<and>
     contents t' = [[1] \<mapsto> sample_entry]"
proof -
  have new: "lf_entries (leaf_new 3) = []" by (simp add: leaf_new_def Let_def)
  then obtain s c where s: "btree_rep sample_env (sample_btree s) (PLeaf 3 (checksummed c (leaf_new 3))) 99"
    using sample_leaf [OF leaf_new_fits, of 3] by auto
  let ?t = "PLeaf 3 (checksummed c (leaf_new 3))"
  have "contents ?t = Map.empty" by (simp add: contents_def key_map_def new)
  then show ?thesis
    using btree_put_correct [of sample_env "sample_btree s" ?t 96 "[1]" "[7, 8]" 5] s leaf_new_inv [of 3] leaf_new_fits [of 3]
    by (auto simp: new leaf_used_def serialized_size_def MAX_KEY_LENGTH_def overflow_consts sample_entry_def simp del: node_fits.simps)
qed

text \<open>A leaf without neighbours is left underfull.\<close>

lemma no_siblings:
  assumes "lf_prev_leaf l = 0" "lf_next_leaf l = 0"
  shows "handle_leaf_underflow e p l path s = (Ok (), s)"
  using assms
  by (simp add: handle_leaf_underflow_def try_borrow_leaf_def try_merge_leaf_def get_leaf_borrow_candidates_def
      get_leaf_merge_candidates_def then_do_def try_do_def recommend_borrow_def borrow_candidates_new_def can_borrow_def
      merge_candidates_new_def can_merge_def)

text \<open>
  C22. Deleting without rebalancing. On a well-formed tree whose leaf for the key is consistent,
  \<open>BTree::delete\<close> returns successfully and the tree then represents the old content without the key,
  when the key is absent, when the leaf has more than 65 entries, or when it has no neighbour.
\<close>

theorem btree_delete_correct:
  assumes "btree_rep e b t (depth t + m + 1)" "leaf_inv (snd (leaf_at t key))" "node_fits (LeafN (snd (leaf_at t key)))"
    and "contents t key = None \<or> 65 < length (lf_entries (snd (leaf_at t key))) \<or>
      lf_prev_leaf (snd (leaf_at t key)) = 0 \<and> lf_next_leaf (snd (leaf_at t key)) = 0"
  shows "\<exists>b' t'. btree_delete e key l b = Some (Ok (), b') \<and> btree_rep e b' t' m \<and> contents t' = (contents t)(key := None)"
proof -
  let ?l = "snd (leaf_at t key)"
  have r: "routed t" "distinct (pages_of t)" using assms(1) by (simp_all add: btree_rep_def)
  obtain s where s: "descend e [] key (bt_root_page_id b) (bt_pager b) = Some (Ok (route t key, ?l), s)"
    "cg_inv e s" "cg_room (Suc (depth t + m)) s" "stored (cg_node s) t"
    using rep_descend [OF assms(1), of key] by auto
  obtain l' where l': "leaf_remove ?l key = Ok (l', leaf_map ?l key)" "leaf_update ?l l' key None" "leaf_inv l'"
    using leaf_remove_leaf_update [OF assms(2,3)] by blast
  obtain s' t' where w: "write_btree_node e (fst (leaf_at t key)) (LeafN l') s = (Ok (), s')" "cg_inv e s'"
    "cg_room (depth t + m) s'" "stored (cg_node s') t'" "routed t'" "pages_of t' = pages_of t" "root_of t' = root_of t"
    "depth t' = depth t" "contents t' = (contents t)(key := None)"
    using write_leaf_spec [OF s(2-4) r l'(2)] by (metis option.distinct(1))
  have "delete_at_leaf e key (route t key) ?l s = (Ok (), s')"
  proof (cases "leaf_map ?l key \<noteq> None \<and> is_underfull (lf_header l') min_leaf_entries")
    case False
    then have "delete_from_leaf ?l key = Ok (DeleteSuccess, l')" using l'(1) by (auto simp: delete_from_leaf_def)
    then show ?thesis using w(1) last_route [OF r(1), of key] by (simp add: delete_at_leaf_def then_do_def)
  next
    case True
    then have "delete_from_leaf ?l key = Ok (DeleteUnderfull (nh_node_id (lf_header l')), l')"
      using l'(1) by (auto simp: delete_from_leaf_def)
    moreover have "lf_prev_leaf l' = 0" "lf_next_leaf l' = 0"
      using removed_count [OF assms(2) l'(1) _ l'(3)] True assms(4) contents_leaf_at [OF r(1), of key] l'(2)
      by (auto simp: leaf_update_def)
    ultimately show ?thesis
      using w(1) last_route [OF r(1), of key] by (simp add: delete_at_leaf_def then_do_def no_siblings)
  qed
  then have "btree_delete e key l b = Some (Ok (), b\<lparr>bt_pager := s'\<rparr>)"
    using s(1) by (simp add: btree_delete_def on_pager_def)
  moreover have "btree_rep e (b\<lparr>bt_pager := s'\<rparr>) t' m"
    using btree_rep_stored [OF assms(1) w(4-7,2)] w(3,8) by simp
  ultimately show ?thesis using w(9) by blast
qed

theorem btree_delete_correct_witness:
  "\<exists>b b' t'. btree_delete sample_env [1] 6 b = Some (Ok (), b') \<and> btree_rep sample_env b' t' 97 \<and> contents t' = Map.empty"
proof -
  obtain l where l: "node_fits (LeafN l)" "leaf_inv l" "leaf_map l = [[1] \<mapsto> sample_entry]" "lf_next_leaf l = 0" "lf_prev_leaf l = 0"
    by (rule sample_entry_leaf, rule that)
  obtain s c where s: "btree_rep sample_env (sample_btree s) (PLeaf 3 (checksummed c l)) 99"
    using sample_leaf [OF l(1)] l(2) by (metis leaf_inv_def leaf_ordered_def)
  let ?t = "PLeaf 3 (checksummed c l)"
  have "contents ?t = leaf_map l" by (simp add: contents_def leaf_map_def)
  then show ?thesis
    using btree_delete_correct [of sample_env "sample_btree s" ?t 97 "[1]" 6] s l
    by (auto simp del: node_fits.simps)
qed

section \<open>When a lookup returns\<close>

text \<open>A page in the cache is read without changing what the cache holds.\<close>

lemma read_hit:
  assumes "cg_inv e s" "p \<in> cached e s"
  obtains bs s' where "cg_page s p = Some bs" "read_btree_node e p s = (node_from_bytes bs, s')" "cg_pager s' = cg_pager s"
    "cg_inv e s'" "cached e s' = cached e s"
proof -
  have pci: "pc_inv (cg_cache s)" and agr: "agrees (pc_lookup (env_hash e) (cg_cache s)) (cg_page s)"
    using assms(1) by (simp_all add: cg_inv_def)
  obtain bs where bs: "pc_lookup (env_hash e) (cg_cache s) p = Some bs" using assms(2) by (auto simp: cached_def)
  obtain c1 where c1: "pc_get (env_hash e) (cg_cache s) p = Some (Some bs, c1)"
    "pc_inv c1" "pc_lookup (env_hash e) c1 = pc_lookup (env_hash e) (cg_cache s)"
    using pc_get_spec [OF pci] bs by metis
  obtain c2 where c2: "pc_get (env_hash e) c1 p = Some (Some bs, c2)" "pc_inv c2"
    "pc_lookup (env_hash e) c2 = pc_lookup (env_hash e) c1"
    using pc_get_spec [OF c1(2)] c1(3) bs by metis
  show ?thesis
  proof (rule that [of bs "s\<lparr>cg_cache := c2\<rparr>"])
    show "cg_page s p = Some bs" using agr bs unfolding agrees_def by fastforce
    have "cached_read e (cg_read_page_raw e) p s = (Ok bs, s\<lparr>cg_cache := c2\<rparr>)"
      using c1(1) c2(1) by (simp add: cached_read_def then_do_def cg_cache_get_def)
    then show "read_btree_node e p s = (node_from_bytes bs, s\<lparr>cg_cache := c2\<rparr>)"
      by (simp add: read_btree_node_def read_page_cached_raw_def then_do_def)
    show "cg_inv e (s\<lparr>cg_cache := c2\<rparr>)" "cached e (s\<lparr>cg_cache := c2\<rparr>) = cached e s"
      using assms(1) c1(3) c2(2,3) by (simp_all add: cg_inv_def cached_def)
  qed simp
qed

text \<open>One step of the descent, and \<open>k\<close> of them; \<open>None\<close> when the descent ends before.\<close>

definition hop :: "cpager \<Rightarrow> bytes \<Rightarrow> page_id \<Rightarrow> page_id option" where
  "hop s key p = (case cg_node s p of Some (InternalN n) \<Rightarrow> ok_of (find_child n key) | _ \<Rightarrow> None)"

fun hops :: "cpager \<Rightarrow> bytes \<Rightarrow> nat \<Rightarrow> page_id \<Rightarrow> page_id option" where
  "hops s key 0 p = Some p"
| "hops s key (Suc k) p = (case hop s key p of None \<Rightarrow> None | Some q \<Rightarrow> hops s key k q)"

definition resident :: "env \<Rightarrow> cpager \<Rightarrow> bytes \<Rightarrow> page_id set \<Rightarrow> bool" where
  "resident e s key S \<longleftrightarrow> cg_inv e s \<and> S \<subseteq> cached e s \<and> (\<forall>p \<in> S. \<forall>q. hop s key p = Some q \<longrightarrow> q \<in> S)"

lemma hop_cong: "cg_pager s' = cg_pager s \<Longrightarrow> hop s' key p = hop s key p"
  using cg_node_cong [of s' s] by (simp add: hop_def)

lemma hops_cong: "cg_pager s' = cg_pager s \<Longrightarrow> hops s' key k p = hops s key k p"
proof (induction k arbitrary: p)
  case (Suc k)
  then show ?case using hop_cong [OF Suc.prems, of key p] by (simp split: option.splits)
qed simp

definition descend_body :: "env \<Rightarrow> path \<Rightarrow> bytes \<Rightarrow> page_id \<Rightarrow> cpager \<Rightarrow>
    (path \<Rightarrow> page_id \<Rightarrow> cpager \<Rightarrow> ((path \<times> leaf_node) outcome \<times> cpager) option) \<Rightarrow> ((path \<times> leaf_node) outcome \<times> cpager) option" where
  "descend_body e path key p s f =
     (case read_btree_node e p s of
        (Ok (InternalN n), s') \<Rightarrow>
          (case find_child n key of
             Ok child \<Rightarrow> f (path @ [(p, InternalN n)]) child s'
           | Err x \<Rightarrow> Some (Err x, s')
           | Panic \<Rightarrow> Some (Panic, s'))
      | (Ok (LeafN l), s') \<Rightarrow> Some (Ok (path @ [(p, LeafN l)], l), s')
      | (Err x, s') \<Rightarrow> Some (Err x, s')
      | (Panic, s') \<Rightarrow> Some (Panic, s'))"

lemma descend_unfold: "descend e path key p s = descend_body e path key p s (\<lambda>path'. descend e path' key)"
  by (subst descend.simps) (simp add: descend_body_def)

lemma descend_last:
  assumes "resident e s key S" "p \<in> S" "hop s key p = None"
  shows "descend_body e path key p s f \<noteq> None"
proof -
  have inv: "cg_inv e s" "p \<in> cached e s" using assms(1,2) by (auto simp: resident_def)
  obtain bs s' where s': "cg_page s p = Some bs" "read_btree_node e p s = (node_from_bytes bs, s')"
    by (rule read_hit [OF inv], rule that)
  then have "hop s key p = (case ok_of (node_from_bytes bs) of Some (InternalN n) \<Rightarrow> ok_of (find_child n key) | _ \<Rightarrow> None)"
    by (simp add: hop_def cg_node_def)
  then show ?thesis
    using assms(3) s'(2) by (cases "node_from_bytes bs") (auto simp: descend_body_def split: node.splits res.splits)
qed

lemma descend_hop:
  assumes "resident e s key S" "p \<in> S" "hop s key p = Some q"
  obtains path' s' where "resident e s' key S" "cg_pager s' = cg_pager s" "q \<in> S"
    "\<And>f. descend_body e path key p s f = f path' q s'"
proof -
  have inv: "cg_inv e s" "p \<in> cached e s" using assms(1,2) by (auto simp: resident_def)
  obtain bs s' where s': "cg_page s p = Some bs" "read_btree_node e p s = (node_from_bytes bs, s')" "cg_pager s' = cg_pager s"
    "cg_inv e s'" "cached e s' = cached e s"
    by (rule read_hit [OF inv], rule that)
  have "resident e s' key S" using assms(1) s'(4,5) hop_cong [OF s'(3)] by (simp add: resident_def)
  moreover obtain n where "node_from_bytes bs = Ok (InternalN n)" "find_child n key = Ok q"
    using assms(3) s'(1) by (auto simp: hop_def cg_node_def ok_of_Some split: option.splits node.splits)
  moreover have "q \<in> S" using assms by (simp add: resident_def)
  ultimately show ?thesis using that [of s' "path @ [(p, InternalN n)]"] s'(2,3) by (simp add: descend_body_def)
qed

lemma descend_returns:
  assumes "resident e s key S" "p \<in> S" "hops s key k p = None"
  shows "descend e path key p s \<noteq> None"
  using assms
proof (induction k arbitrary: path p s)
  case (Suc k)
  show ?case
  proof (cases "hop s key p")
    case None
    then show ?thesis by (subst descend_unfold) (rule descend_last [OF Suc.prems(1,2)])
  next
    case (Some q)
    obtain path' s' where s': "resident e s' key S" "cg_pager s' = cg_pager s" "q \<in> S"
      "\<And>f. descend_body e path key p s f = f path' q s'"
      by (rule descend_hop [OF Suc.prems(1,2) Some], rule that)
    have "hops s' key k q = None" using Suc.prems(3) Some hops_cong [OF s'(2)] by simp
    then show ?thesis by (subst descend_unfold, subst s'(4)) (rule Suc.IH [OF s'(1,3)])
  qed
qed simp

lemma descend_ends:
  "descend e path key p s = Some r \<Longrightarrow> resident e s key S \<Longrightarrow> p \<in> S \<Longrightarrow> \<exists>k. hops s key k p = None"
proof (induction rule: descend.raw_induct [rotated, consumes 1, case_names step])
  case (step f e path key p s r)
  have body: "descend_body e path key p s (\<lambda>path'. f e path' key) = Some r" using step(2) by (simp add: descend_body_def)
  show ?case
  proof (cases "hop s key p")
    case None
    then show ?thesis by (intro exI [of _ 1]) simp
  next
    case (Some q)
    obtain path' s' where s': "resident e s' key S" "cg_pager s' = cg_pager s" "q \<in> S"
      "\<And>f. descend_body e path key p s f = f path' q s'"
      by (rule descend_hop [OF step(3,4) Some], rule that)
    have "f e path' key q s' = Some r" using body unfolding s'(4) .
    then obtain k where "hops s' key k q = None" using step(1) s'(1,3) by blast
    then show ?thesis using Some hops_cong [OF s'(2)] by (intro exI [of _ "Suc k"]) simp
  qed
qed

text \<open>
  C23. When a lookup returns. For a coherent cache that holds every page the descent can reach,
  \<open>BTree::get\<close> returns if and only if following the children chosen for the key from the root
  ends, at a leaf or at a page that cannot be read; on a cycle of child pointers it runs for ever.
\<close>

theorem btree_get_returns_iff:
  assumes "resident e (bt_pager b) key S" "bt_root_page_id b \<in> S"
  shows "btree_get e key l b \<noteq> None \<longleftrightarrow> (\<exists>k. hops (bt_pager b) key k (bt_root_page_id b) = None)"
proof -
  have "btree_get e key l b \<noteq> None \<longleftrightarrow> descend e [] key (bt_root_page_id b) (bt_pager b) \<noteq> None"
    by (cases "descend e [] key (bt_root_page_id b) (bt_pager b)")
      (simp_all add: btree_get_def get_with_pages_def split: prod.split res.split)
  moreover have "descend e [] key (bt_root_page_id b) (bt_pager b) \<noteq> None \<longleftrightarrow> (\<exists>k. hops (bt_pager b) key k (bt_root_page_id b) = None)"
    using descend_returns [OF assms, of _ "[]"] descend_ends [of e "[]" key "bt_root_page_id b" "bt_pager b" _ S] assms
    by (cases "descend e [] key (bt_root_page_id b) (bt_pager b)") auto
  ultimately show ?thesis by simp
qed

theorem btree_get_returns_iff_witness:
  "\<exists>b. bt_root_page_id b = 3 \<and> hop (bt_pager b) [1] 3 = Some 3 \<and> btree_get sample_env [1] 6 b = None"
proof -
  let ?n = "(internal_new 3 1)\<lparr>in_children := [3]\<rparr>"
  have n: "in_separators (internal_new 3 1) = []" by (simp add: internal_new_def Let_def)
  have fits: "node_fits (InternalN ?n)"
    using node_header_new_wf [of InternalType 1 3]
    by (simp add: internal_new_def Let_def get_node_type_def node_header_new_def page_size_defs
        node_type_from_u8_def internal_used_def)
  obtain s c where s: "cg_inv sample_env s" "cg_room 100 s" "cg_node s 3 = Some (with_checksum c (InternalN ?n))"
    "3 \<in> cached sample_env s"
    by (rule sample_pager [OF fits], rule that)
  have hop: "hop s [1] 3 = Some 3"
    using s(3) by (simp add: hop_def find_child_def n binary_search_by_def index_child_def)
  then have "resident sample_env s [1] {3}" using s(1,4) by (simp add: resident_def)
  moreover have "hops s [1] k 3 = Some 3" for k by (induction k) (simp_all add: hop)
  ultimately have "btree_get sample_env [1] 6 (sample_btree s) = None"
    using btree_get_returns_iff [of sample_env "sample_btree s" "[1]" "{3}" 6] by (simp add: sample_btree_def del: not_None_eq)
  then show ?thesis using hop by (intro exI [of _ "sample_btree s"]) (simp add: sample_btree_def)
qed

end
