(* ===== verification/Scan_Correct.thy ===== *)
theory Scan_Correct
  imports Btree_Correct
begin

text \<open>
  The range scan of \<^verbatim>\<open>btree/tree.rs\<close> on a well-formed tree whose leaves are linked in order, and the
  functions of \<^verbatim>\<open>btree/scan.rs\<close>: the iterator and the merge of sorted results.
\<close>

section \<open>The leaves in order\<close>

fun leaves_of :: "ptree \<Rightarrow> (page_id \<times> leaf_node) list" where
  "leaves_of (PLeaf p l) = [(p, l)]"
| "leaves_of (PNode p n ts) = concat (map leaves_of ts)"

abbreviation leaf_entries :: "(page_id \<times> leaf_node) list \<Rightarrow> entry list" where
  "leaf_entries ls \<equiv> concat (map (\<lambda>x. lf_entries (snd x)) ls)"

text \<open>Each leaf names the next one, the last one page 0.\<close>

fun linked :: "(page_id \<times> leaf_node) list \<Rightarrow> bool" where
  "linked [] \<longleftrightarrow> True"
| "linked ((p, l) # ls) \<longleftrightarrow> p \<noteq> 0 \<and> lf_next_leaf l = (case ls of [] \<Rightarrow> 0 | (q, m) # _ \<Rightarrow> q) \<and> linked ls"

lemma linked_append: "linked (xs @ ys) \<Longrightarrow> linked ys"
  by (induction xs) auto

lemma entries_leaves: "entries_of t = leaf_entries (leaves_of t)"
proof (induction t)
  case (PNode p n ts)
  then have "map entries_of ts = map (\<lambda>t. leaf_entries (leaves_of t)) ts" by (simp only: map_eq_conv) blast
  moreover have "concat (map (\<lambda>t. leaf_entries (leaves_of t)) us) = leaf_entries (concat (map leaves_of us))" for us
    by (induction us) simp_all
  ultimately show ?case unfolding entries_of.simps leaves_of.simps by (simp only:)
qed simp

lemma leaves_stored:
  assumes "stored ns t" "(p, l) \<in> set (leaves_of t)"
  shows "addressable p \<and> ns p = Some (LeafN l)"
  using assms by (induction t) auto

lemma leaves_ascending:
  assumes "routed t" "(p, l) \<in> set (leaves_of t)"
  shows "ascending en_key (lf_entries l)"
  using assms by (induction t) auto

lemma leaves_nonempty: "routed t \<Longrightarrow> leaves_of t \<noteq> []"
proof (induction t)
  case (PNode p n ts)
  then have "ts \<noteq> []" by auto
  then show ?case using PNode by (cases ts) auto
qed simp

text \<open>The leaf of a key, and what is left of it.\<close>

lemma leaf_at_split:
  assumes "routed t"
  obtains xs ys where "leaves_of t = xs @ leaf_at t k # ys" "\<And>x. x \<in> set (leaf_entries xs) \<Longrightarrow> en_key x < k"
  using assms
proof (induction t k arbitrary: thesis rule: leaf_at.induct)
  case (1 p l key)
  show ?case by (rule 1(1) [of "[]" "[]"]) simp_all
next
  case (2 p n ts key)
  let ?i = "children_of n key"
  note i = routed_child [OF 2(3), of key]
  have "routed (ts ! ?i)" using 2(3) i by simp
  then obtain xs ys where xs: "leaves_of (ts ! ?i) = xs @ leaf_at (ts ! ?i) key # ys"
    "\<And>x. x \<in> set (leaf_entries xs) \<Longrightarrow> en_key x < key"
    using 2(1) [OF i] by blast
  let ?pre = "concat (map leaves_of (take ?i ts))"
  have "leaves_of (PNode p n ts) = ?pre @ leaves_of (ts ! ?i) @ concat (map leaves_of (drop (Suc ?i) ts))"
    by (subst id_take_nth_drop [OF i]) simp
  then have eq: "leaves_of (PNode p n ts) = (?pre @ xs) @ leaf_at (PNode p n ts) key # (ys @ concat (map leaves_of (drop (Suc ?i) ts)))"
    using xs(1) i by simp
  have less: "en_key x < key" if x: "x \<in> set (leaf_entries ?pre)" for x
  proof -
    have "x \<in> set (concat (map entries_of (take ?i ts)))"
      using x entries_leaves by (auto simp: set_concat)
    then obtain t where t: "t \<in> set (take ?i ts)" "x \<in> set (entries_of t)" by auto
    then obtain j where j: "j < ?i" "ts ! j = t" using i by (auto simp: in_set_conv_nth)
    then have "children_of n (en_key x) = j" using 2(3) t(2) i by auto
    then show ?thesis using children_of_mono j(1) by metis
  qed
  have "en_key x < key" if "x \<in> set (leaf_entries (?pre @ xs))" for x
  proof -
    have "x \<in> set (leaf_entries ?pre) \<or> x \<in> set (leaf_entries xs)" using that by (simp only: map_append concat_append set_append Un_iff)
    then show ?thesis using less xs(2) by blast
  qed
  then show ?case using 2(2) [OF eq] by blast
qed

section \<open>The walk along the leaves\<close>

definition in_range :: "bytes option \<Rightarrow> bytes option \<Rightarrow> bytes \<Rightarrow> bool" where
  "in_range st en k \<longleftrightarrow> (case st of None \<Rightarrow> True | Some a \<Rightarrow> a \<le> k) \<and> (case en of None \<Rightarrow> True | Some b \<Rightarrow> k < b)"

definition range_items :: "bytes option \<Rightarrow> bytes option \<Rightarrow> lsn \<Rightarrow> entry list \<Rightarrow> scan_item list" where
  "range_items st en l xs =
     map (\<lambda>x. scan_item_new (en_key x) (en_value x) (en_lsn x)) (filter (\<lambda>x. in_range st en (en_key x) \<and> en_lsn x \<le> l) xs)"

lemma range_items_append: "range_items st en l (xs @ ys) = range_items st en l xs @ range_items st en l ys"
  by (simp add: range_items_def)

lemma range_items_Nil: "(\<And>x. x \<in> set xs \<Longrightarrow> \<not> in_range st en (en_key x)) \<Longrightarrow> range_items st en l xs = []"
  by (auto simp: range_items_def filter_empty_conv)

text \<open>The loop over one leaf leaves at the first key past the end; the keys ascend, so nothing is missed.\<close>

lemma scan_entries_range: "ascending en_key xs \<Longrightarrow> scan_entries st en l xs = range_items st en l xs"
proof (induction xs)
  case (Cons x xs)
  show ?case
  proof (cases "case en of Some k \<Rightarrow> k \<le> en_key x | None \<Rightarrow> False")
    case True
    then obtain k where k: "en = Some k" "k \<le> en_key x" by (auto split: option.splits)
    have "range_items st en l (x # xs) = []" "range_items st en l xs = []"
      by (rule range_items_Nil, use Cons.prems k in \<open>force simp: in_range_def\<close>)+
    then show ?thesis using Cons True by simp
  next
    case False
    then show ?thesis
      using Cons by (auto simp: range_items_def in_range_def not_le split: option.splits)
  qed
qed (simp add: range_items_def)

lemma scan_leaves_spec:
  assumes "linked ls" "\<And>p l. (p, l) \<in> set ls \<Longrightarrow> addressable p \<and> cg_node s p = Some (LeafN l) \<and> ascending en_key (lf_entries l)"
    and "cg_inv e s" "cg_room (length ls + m) s"
  shows "\<exists>s'. scan_leaves e st en l items pages (case ls of [] \<Rightarrow> 0 | (p, _) # _ \<Rightarrow> p) s =
      Some (Ok (items @ range_items st en l (leaf_entries ls), fst ` set ls \<union> pages), s') \<and>
    cg_pager s' = cg_pager s \<and> cg_inv e s' \<and> cg_room m s'"
  using assms
proof (induction ls arbitrary: items pages s)
  case Nil
  then show ?case by (subst scan_leaves.simps) (simp add: range_items_def)
next
  case (Cons x ls)
  obtain p lf where x: "x = (p, lf)" by fastforce
  have p: "addressable p" "cg_node s p = Some (LeafN lf)" "ascending en_key (lf_entries lf)" "p \<noteq> 0"
    "lf_next_leaf lf = (case ls of [] \<Rightarrow> 0 | (q, m) # _ \<Rightarrow> q)" "linked ls"
    using Cons.prems(1,2) x by auto
  have room: "cg_room (Suc (length ls + m)) s" using Cons.prems(4) by simp
  obtain s1 where s1: "read_btree_node e p s = (Ok (LeafN lf), s1)" "cg_pager s1 = cg_pager s" "cg_inv e s1"
    "cg_room (length ls + m) s1"
    by (rule read_btree_node_spec [OF Cons.prems(3) room p(1,2)], rule that)
  have "addressable q \<and> cg_node s1 q = Some (LeafN k) \<and> ascending en_key (lf_entries k)" if "(q, k) \<in> set ls" for q k
    using Cons.prems(2) [of q k] that cg_node_cong [OF s1(2)] by simp
  from Cons.IH [OF p(6) this s1(3,4), where items = "items @ range_items st en l (lf_entries lf)" and pages = "insert p pages"]
  obtain s' where s': "scan_leaves e st en l (items @ range_items st en l (lf_entries lf)) (insert p pages) (lf_next_leaf lf) s1 =
      Some (Ok ((items @ range_items st en l (lf_entries lf)) @ range_items st en l (leaf_entries ls), fst ` set ls \<union> insert p pages), s')"
    "cg_pager s' = cg_pager s1" "cg_inv e s'" "cg_room m s'"
    using p(5) by (auto simp: case_prod_beta')
  have "scan_leaves e st en l items pages p s =
      Some (Ok (items @ range_items st en l (leaf_entries ((p, lf) # ls)), fst ` set ((p, lf) # ls) \<union> pages), s')"
    using s1(1) s'(1) p(3,4) by (subst scan_leaves.simps) (simp add: scan_entries_range range_items_append)
  then show ?case using s' s1(2) x by simp
qed

section \<open>The iterator\<close>

lemma next_item_length: "next_item it xs = (Some x, ys) \<Longrightarrow> length ys < length xs"
  by (induction it xs rule: next_item.induct) (auto split: if_splits)

function collect :: "scan_iter \<Rightarrow> scan_item list" where
  "collect it = (case scan_iter_next it of (None, _) \<Rightarrow> [] | (Some x, it') \<Rightarrow> x # collect it')"
  by pat_completeness auto
termination
  by (relation "measure (\<lambda>it. length (it_entries it))")
     (auto simp: scan_iter_next_def dest: next_item_length split: prod.splits)

declare collect.simps [simp del]

lemma collect_all:
  assumes "\<And>x. x \<in> set xs \<Longrightarrow> should_continue (scan_iter_forward [] en l) (si_key x) \<and> si_lsn x \<le> l"
  shows "collect (scan_iter_forward xs en l) = xs"
  using assms
proof (induction xs)
  case Nil
  then show ?case by (subst collect.simps) (simp add: scan_iter_next_def scan_iter_forward_def scan_iter_new_def)
next
  case (Cons x xs)
  have "scan_iter_next (scan_iter_forward (x # xs) en l) = (Some x, scan_iter_forward xs en l)"
    using Cons.prems [of x]
    by (simp add: scan_iter_next_def scan_iter_forward_def scan_iter_new_def should_continue_def split: option.splits)
  then show ?case using Cons by (subst collect.simps) simp
qed

lemma collect_range: "collect (scan_iter_forward (range_items st en l xs) en l) = range_items st en l xs"
  by (rule collect_all)
     (auto simp: range_items_def in_range_def scan_item_new_def should_continue_def scan_iter_forward_def scan_iter_new_def
       split: option.splits)

section \<open>The whole scan\<close>

lemma descend_left_spec:
  assumes "stored (cg_node s) t" "routed t" "cg_inv e s" "cg_room (depth t + m) s"
  obtains s' where "descend_left e (root_of t) s = Some (Ok (fst (hd (leaves_of t))), s')"
    "cg_pager s' = cg_pager s" "cg_inv e s'" "cg_room m s'"
  using assms
proof (induction t arbitrary: s thesis)
  case (PLeaf p l)
  have st: "addressable p" "cg_node s p = Some (LeafN l)" and room: "cg_room (Suc m) s" using PLeaf by simp_all
  obtain s' where "read_btree_node e p s = (Ok (LeafN l), s')" "cg_pager s' = cg_pager s" "cg_inv e s'" "cg_room m s'"
    by (rule read_btree_node_spec [OF PLeaf(4) room st], rule that)
  then show ?case by (intro PLeaf(1)) (subst descend_left.simps, auto)
next
  case (PNode p n ts)
  obtain u us where ts: "ts = u # us" using PNode.prems(3) by (cases ts) auto
  have st: "addressable p" "cg_node s p = Some (InternalN n)" "in_children n = map root_of ts" using PNode by simp_all
  have d: "depth u + m \<le> Max (set (map depth ts)) + m" using ts by simp
  have room: "cg_room (Suc (Max (set (map depth ts)) + m)) s" using PNode.prems(5) by simp
  obtain s1 where s1: "read_btree_node e p s = (Ok (InternalN n), s1)" "cg_pager s1 = cg_pager s" "cg_inv e s1"
    "cg_room (Max (set (map depth ts)) + m) s1"
    by (rule read_btree_node_spec [OF PNode.prems(4) room st(1,2)], rule that)
  have u: "stored (cg_node s1) u" "routed u" using PNode.prems(2,3) ts cg_node_cong [OF s1(2)] by auto
  obtain s' where s': "descend_left e (root_of u) s1 = Some (Ok (fst (hd (leaves_of u))), s')" "cg_pager s' = cg_pager s1"
    "cg_inv e s'" "cg_room m s'"
    using PNode.IH [of u s1] ts u s1(3) cg_room_less [OF s1(4) d] by auto
  have "hd (leaves_of (PNode p n ts)) = hd (leaves_of u)" using ts leaves_nonempty [OF u(2)] by simp
  then show ?case
    using s1(1,2) s' st(3) ts by (intro PNode.prems(1)) (subst descend_left.simps, auto)
qed

text \<open>The leaf a scan starts at: everything before it is out of range.\<close>

lemma start_leaf:
  assumes "btree_rep e b t (length (leaves_of t) + m)"
  obtains s xs q lf ys where "leaves_of t = xs @ (q, lf) # ys" "range_items st en l (leaf_entries xs) = []"
    "(case st of Some k \<Rightarrow> find_leaf_for_key e k b | None \<Rightarrow> find_leftmost_leaf e b) = Some (Ok q, b\<lparr>bt_pager := s\<rparr>)"
    "cg_pager s = cg_pager (bt_pager b)" "cg_inv e s" "cg_room (length (leaves_of t) + m) s"
proof (cases st)
  case None
  have r: "stored (cg_node (bt_pager b)) t" "routed t" "cg_inv e (bt_pager b)"
    "cg_room (depth t + (length (leaves_of t) + m)) (bt_pager b)" "root_of t = bt_root_page_id b"
    using assms by (simp_all add: btree_rep_def)
  obtain s where s: "descend_left e (root_of t) (bt_pager b) = Some (Ok (fst (hd (leaves_of t))), s)"
    "cg_pager s = cg_pager (bt_pager b)" "cg_inv e s" "cg_room (length (leaves_of t) + m) s"
    by (rule descend_left_spec [OF r(1-4)], rule that)
  obtain q lf ys where "leaves_of t = (q, lf) # ys" using leaves_nonempty [OF r(2)] by (cases "leaves_of t") auto
  then show ?thesis
    using that [of "[]" q lf ys s] s r(5) None by (simp add: find_leftmost_leaf_def range_items_def)
next
  case (Some k)
  have r: "routed t" using assms by (simp add: btree_rep_def)
  obtain s where s: "descend e [] k (bt_root_page_id b) (bt_pager b) = Some (Ok (route t k, snd (leaf_at t k)), s)"
    "cg_pager s = cg_pager (bt_pager b)" "cg_inv e s" "cg_room (length (leaves_of t) + m) s"
    by (rule rep_descend [OF assms], rule that)
  obtain xs ys where xs: "leaves_of t = xs @ leaf_at t k # ys" "\<And>x. x \<in> set (leaf_entries xs) \<Longrightarrow> en_key x < k"
    by (rule leaf_at_split [OF r], rule that)
  have "range_items st en l (leaf_entries xs) = []"
    by (rule range_items_Nil) (use xs(2) Some in \<open>fastforce simp: in_range_def\<close>)
  then show ?thesis
    using that [of xs "fst (leaf_at t k)" "snd (leaf_at t k)" ys s] xs(1) s last_route [OF r, of k] Some
    by (simp add: find_leaf_for_key_def)
qed

text \<open>
  C24. A range scan. On a well-formed tree whose leaves are linked in order, \<open>BTree::scan\<close> returns,
  and the iterator it returns yields exactly the entries of the tree with start \<open>\<le>\<close> key < end that
  are not newer than the snapshot, in ascending key order and with their stored values.
\<close>

theorem btree_scan_correct:
  assumes "btree_rep e b t (length (leaves_of t) + m)" "linked (leaves_of t)"
  shows "\<exists>it b'. btree_scan e st en l b = Some (Ok it, b') \<and> cg_pager (bt_pager b') = cg_pager (bt_pager b) \<and>
    collect it = range_items st en l (entries_of t) \<and> sorted_wrt (\<lambda>x y. si_key x < si_key y) (collect it)"
proof -
  have r: "stored (cg_node (bt_pager b)) t" "routed t" using assms by (simp_all add: btree_rep_def)
  obtain s xs q lf ys where s: "leaves_of t = xs @ (q, lf) # ys" "range_items st en l (leaf_entries xs) = []"
    "(case st of Some k \<Rightarrow> find_leaf_for_key e k b | None \<Rightarrow> find_leftmost_leaf e b) = Some (Ok q, b\<lparr>bt_pager := s\<rparr>)"
    "cg_pager s = cg_pager (bt_pager b)" "cg_inv e s" "cg_room (length (leaves_of t) + m) s"
    by (rule start_leaf [OF assms(1), where st = st and en = en and l = l], rule that)
  let ?ls = "(q, lf) # ys"
  have ls: "addressable p \<and> cg_node s p = Some (LeafN k) \<and> ascending en_key (lf_entries k)" if "(p, k) \<in> set ?ls" for p k
    using that leaves_stored [OF r(1)] leaves_ascending [OF r(2)] s(1) cg_node_cong [OF s(4)] by auto
  have room: "cg_room (length ?ls + m) s" by (rule cg_room_less [OF s(6)]) (simp add: s(1))
  have link: "linked ?ls" using assms(2) s(1) linked_append by metis
  obtain s' where s': "scan_leaves e st en l [] {} q s = Some (Ok (range_items st en l (leaf_entries ?ls), fst ` set ?ls), s')"
    "cg_pager s' = cg_pager s"
    using scan_leaves_spec [OF link ls s(5) room, where items = "[]" and pages = "{}" and st = st and en = en and l = l] by auto
  have items: "range_items st en l (leaf_entries ?ls) = range_items st en l (entries_of t)"
    using s(2) by (simp add: entries_leaves s(1) range_items_append)
  have "btree_scan e st en l b = Some (Ok (scan_iter_forward (range_items st en l (entries_of t)) en l), b\<lparr>bt_pager := s'\<rparr>)"
    using s(3) s'(1) items by (simp add: btree_scan_def scan_with_pages_def)
  moreover have "sorted_wrt (\<lambda>x y. si_key x < si_key y) (range_items st en l (entries_of t))"
    using routed_ascending [OF r(2)]
    by (auto simp: range_items_def scan_item_new_def ascending_def sorted_wrt_map sorted_wrt_filter)
  ultimately show ?thesis using s(4) s'(2) by (simp add: collect_range)
qed

lemma singleton_list: "set xs = {x} \<Longrightarrow> distinct xs \<Longrightarrow> xs = [x]"
  by (cases xs rule: remdups_adj.cases) auto

theorem btree_scan_correct_witness:
  "\<exists>b b' it. btree_scan sample_env (Some [0]) (Some [2]) 6 b = Some (Ok it, b') \<and>
     collect it = [scan_item_new [1] [7, 8] 5]"
proof -
  obtain l where l: "node_fits (LeafN l)" "leaf_inv l" "leaf_map l = [[1] \<mapsto> sample_entry]" "lf_next_leaf l = 0"
    by (rule sample_entry_leaf, rule that)
  have asc: "ascending en_key (lf_entries l)" using l(2) by (simp add: leaf_inv_def leaf_ordered_def)
  obtain s c where s: "btree_rep sample_env (sample_btree s) (PLeaf 3 (checksummed c l)) 99"
    by (rule sample_leaf [OF l(1) asc], rule that)
  let ?t = "PLeaf 3 (checksummed c l)"
  have "set (lf_entries l) = {sample_entry}"
  proof -
    have "x \<in> set (lf_entries l) \<longleftrightarrow> leaf_map l (en_key x) = Some x" for x
      using key_map_Some [OF asc, of "en_key x" x] by (simp add: leaf_map_def)
    moreover have "leaf_map l (en_key x) = Some x \<longleftrightarrow> x = sample_entry" for x
      unfolding l(3) by (cases "en_key x = [1]") (auto, simp_all add: sample_entry_def)
    ultimately show ?thesis by blast
  qed
  moreover have "distinct (lf_entries l)" using ascending_distinct [OF asc] by (simp add: distinct_map)
  ultimately have "lf_entries l = [sample_entry]" by (rule singleton_list)
  then have items: "range_items (Some [0]) (Some [2]) 6 (entries_of ?t) = [scan_item_new [1] [7, 8] 5]"
    by (simp add: range_items_def in_range_def sample_entry_def)
  have "btree_rep sample_env (sample_btree s) ?t (length (leaves_of ?t) + 98)" "linked (leaves_of ?t)" using s l(4) by simp_all
  from btree_scan_correct [OF this, of "Some [0]" "Some [2]" 6] items show ?thesis by metis
qed

end
