(* ===== verification/Btree_Split.thy ===== *)
theory Btree_Split
  imports Scan_Correct
begin

text \<open>
  What a split of a leaf does to the tree. \<open>propagate_split\<close> pops the leaf itself first, so it grows a
  new root over the old one and the new leaf, wherever in the tree the leaf was.
\<close>

lemma propagate_split_leaf:
  "propagate_split e (path @ [(p, LeafN l)]) separator q = grow_tree e separator q"
  by (simp add: propagate_split_def)

definition new_root :: "page_id \<Rightarrow> u16 \<Rightarrow> page_id \<Rightarrow> bytes \<Rightarrow> page_id \<Rightarrow> internal_node" where
  "new_root r height old separator q =
     (internal_new r height)\<lparr>in_children := [old, q], in_separators := [separator],
        in_header := (in_header (internal_new r height))\<lparr>nh_num_keys := 1\<rparr>\<rparr>"

lemma new_root_simps [simp]:
  "in_children (new_root r h old separator q) = [old, q]" "in_separators (new_root r h old separator q) = [separator]"
  by (simp_all add: new_root_def)

lemma new_root_fits: "length separator \<le> MAX_KEY_LENGTH \<Longrightarrow> node_fits (InternalN (new_root r h old separator q))"
  by (simp add: new_root_def internal_new_def Let_def get_node_type_def node_header_new_def page_size_defs
      node_type_from_u8_def internal_used_def separator_size_def MAX_KEY_LENGTH_def node_header_wf_iff)

lemma grow_tree_spec:
  assumes inv: "cg_inv e (bt_pager b)" and fr: "frontier e (bt_pager b) r" and room: "cg_room (m + 3) (bt_pager b)"
    and r: "addressable r" "addressable (bt_root_page_id b)" "r \<noteq> bt_root_page_id b"
    and old: "cg_node (bt_pager b) (bt_root_page_id b) = Some old" "node_fits (set_is_root 0 r old)"
    and h: "bt_height b < 65535" and sep: "length separator \<le> MAX_KEY_LENGTH"
  obtains b' c c' where "grow_tree e separator q b = (Ok (), b')" "bt_root_page_id b' = r"
    "cg_inv e (bt_pager b')" "cg_room m (bt_pager b')"
    "cg_node (bt_pager b') r = Some (with_checksum c (InternalN (new_root r (bt_height b + 1) (bt_root_page_id b) separator q)))"
    "cg_node (bt_pager b') (bt_root_page_id b) = Some (with_checksum c' (set_is_root 0 r old))"
    "\<And>p x. addressable p \<Longrightarrow> p \<noteq> r \<Longrightarrow> p \<noteq> bt_root_page_id b \<Longrightarrow> cg_node (bt_pager b) p = Some x \<Longrightarrow>
       cg_node (bt_pager b') p = Some x"
proof -
  let ?root = "bt_root_page_id b"
  obtain s0 where s0: "cg_allocate_page e (bt_pager b) = (Ok r, s0)" "cg_inv e s0" "cg_cache s0 = cg_cache (bt_pager b)"
    "\<And>p x. addressable p \<Longrightarrow> p \<noteq> r \<Longrightarrow> cg_page (bt_pager b) p = Some x \<Longrightarrow> cg_page s0 p = Some x"
    by (rule cg_allocate_page_spec [OF inv fr r(1)], rule that)
  have n0: "cg_node s0 p = Some x" if "addressable p" "p \<noteq> r" "cg_node (bt_pager b) p = Some x" for p x
    using s0(4) [OF that(1,2)] that(3) by (auto simp: cg_node_def split: option.splits)
  have room0: "cg_room (Suc (Suc (Suc m))) s0" using room s0(3) by (simp add: cg_room_def numeral_3_eq_3)
  have old0: "cg_node s0 ?root = Some old" using n0 [OF r(2) _ old(1)] r(3) by simp
  obtain s1 where s1: "read_btree_node e ?root s0 = (Ok old, s1)" "cg_pager s1 = cg_pager s0" "cg_inv e s1" "cg_room (Suc (Suc m)) s1"
    by (rule read_btree_node_spec [OF s0(2) room0 r(2) old0], rule that)
  obtain s2 c' where s2: "write_btree_node e ?root (set_is_root 0 r old) s1 = (Ok (), s2)" "cg_inv e s2" "cg_room (Suc m) s2"
    "cg_node s2 ?root = Some (with_checksum c' (set_is_root 0 r old))"
    "\<And>p x. addressable p \<Longrightarrow> p \<noteq> ?root \<Longrightarrow> cg_node s1 p = Some x \<Longrightarrow> cg_node s2 p = Some x"
    by (rule write_btree_node_spec [OF s1(3,4) r(2) old(2)], rule that)
  let ?n = "new_root r (bt_height b + 1) ?root separator q"
  obtain s3 c where s3: "write_btree_node e r (InternalN ?n) s2 = (Ok (), s3)" "cg_inv e s3" "cg_room m s3"
    "cg_node s3 r = Some (with_checksum c (InternalN ?n))"
    "\<And>p x. addressable p \<Longrightarrow> p \<noteq> r \<Longrightarrow> cg_node s2 p = Some x \<Longrightarrow> cg_node s3 p = Some x"
    by (rule write_btree_node_spec [OF s2(2,3) r(1) new_root_fits [OF sep]], rule that)
  have height: "checked_add (bt_height b) 1 = Some (bt_height b + 1)"
    using h by (simp add: checked_add_def word_less_nat_alt)
  let ?b = "b\<lparr>bt_pager := s3, bt_root_page_id := r, bt_height := bt_height b + 1, bt_internal_count := bt_internal_count b + 1\<rparr>"
  have g: "grow_tree e separator q b = (Ok (), ?b)"
    using s0(1) s1(1) s2(1) s3(1) height by (simp add: grow_tree_def on_pager_def then_do_def Let_def new_root_def)
  have other: "cg_node s3 p = Some x" if "addressable p" "p \<noteq> r" "p \<noteq> ?root" "cg_node (bt_pager b) p = Some x" for p x
    using s3(5) [OF that(1,2) s2(5) [OF that(1,3)]] n0 [OF that(1,2,4)] cg_node_cong [OF s1(2)] by simp
  show ?thesis
    by (rule that [of ?b c c']) (use g s3(2-4) s3(5) [OF r(2) _ s2(4)] r(3) other in simp_all)
qed

text \<open>
  A split hides the keys to its right. After a leaf was split, wherever it is in the tree,
  \<open>propagate_split\<close> makes a new root whose children are the old root and the new leaf: a key that is
  not below the separator and not in the new leaf is no longer found, also when the old tree holds it.
\<close>

theorem split_hides_later_keys:
  assumes "cg_inv e (bt_pager b)" "frontier e (bt_pager b) r" "cg_room 5 (bt_pager b)"
    and "addressable r" "addressable (bt_root_page_id b)" "r \<noteq> bt_root_page_id b"
    and "cg_node (bt_pager b) (bt_root_page_id b) = Some old" "node_fits (set_is_root 0 r old)"
    and "bt_height b < 65535" "length separator \<le> MAX_KEY_LENGTH"
    and "addressable q" "q \<noteq> r" "q \<noteq> bt_root_page_id b" "cg_node (bt_pager b) q = Some (LeafN new_leaf)"
    and "ascending en_key (lf_entries new_leaf)" "separator \<le> key" "leaf_map new_leaf key = None"
  shows "\<exists>b' b''. propagate_split e (path @ [(p, LeafN leaf)]) separator q b = (Ok (), b') \<and>
    bt_root_page_id b' = r \<and> btree_get e key l b' = Some (Ok None, b'')"
proof -
  let ?n = "new_root r (bt_height b + 1) (bt_root_page_id b) separator q"
  have room: "cg_room (2 + 3) (bt_pager b)" using assms(3) by simp
  obtain b' c c' where g: "grow_tree e separator q b = (Ok (), b')" "bt_root_page_id b' = r" "cg_inv e (bt_pager b')"
    "cg_room 2 (bt_pager b')" "cg_node (bt_pager b') r = Some (with_checksum c (InternalN ?n))"
    "cg_node (bt_pager b') (bt_root_page_id b) = Some (with_checksum c' (set_is_root 0 r old))"
    "\<And>p x. addressable p \<Longrightarrow> p \<noteq> r \<Longrightarrow> p \<noteq> bt_root_page_id b \<Longrightarrow> cg_node (bt_pager b) p = Some x \<Longrightarrow>
       cg_node (bt_pager b') p = Some x"
    by (rule grow_tree_spec [OF assms(1,2) room assms(4-10), where q = q], rule that)
  have root: "cg_node (bt_pager b') r = Some (InternalN (?n\<lparr>in_header := (in_header ?n)\<lparr>nh_checksum := c\<rparr>\<rparr>))" using g(5) by simp
  have leaf: "cg_node (bt_pager b') q = Some (LeafN new_leaf)" using g(7) [OF assms(11-14)] .
  have "cg_room (Suc 1) (bt_pager b')" using g(4) by (simp add: numeral_2_eq_2)
  then obtain s1 where s1: "read_btree_node e r (bt_pager b') = (Ok (InternalN (?n\<lparr>in_header := (in_header ?n)\<lparr>nh_checksum := c\<rparr>\<rparr>)), s1)"
    "cg_pager s1 = cg_pager (bt_pager b')" "cg_inv e s1" "cg_room 1 s1"
    using read_btree_node_spec [OF g(3) _ assms(4) root] by metis
  have "cg_node s1 q = Some (LeafN new_leaf)" "cg_room (Suc 0) s1" using leaf cg_node_cong [OF s1(2)] s1(4) by simp_all
  then obtain s2 where s2: "read_btree_node e q s1 = (Ok (LeafN new_leaf), s2)"
    using read_btree_node_spec [OF s1(3) _ assms(11)] by metis
  have "find_child (?n\<lparr>in_header := (in_header ?n)\<lparr>nh_checksum := c\<rparr>\<rparr>) key = Ok q"
    using assms(16) by (subst find_child_position) (simp_all add: children_of_def index_child_def)
  then have "descend e [] key r (bt_pager b') = Some (Ok ([(r, InternalN (?n\<lparr>in_header := (in_header ?n)\<lparr>nh_checksum := c\<rparr>\<rparr>)), (q, LeafN new_leaf)], new_leaf), s2)"
    using s1(1) s2 by (subst descend.simps, simp) (subst descend.simps, simp)
  then have "btree_get e key l b' = Some (Ok None, b'\<lparr>bt_pager := s2\<rparr>)"
    using g(2) assms(17) leaf_find_map [OF assms(15), of key]
    by (simp add: btree_get_def get_with_pages_def on_pager_def read_entry_def)
  then show ?thesis using g(1,2) by (auto simp: propagate_split_leaf)
qed

text \<open>A pager with two leaves: page 3 with one entry, page 4 empty.\<close>

lemma sample_two_leaves:
  assumes "node_fits (LeafN l)"
  obtains s c c' where "cg_inv sample_env s" "cg_room 10 s" "frontier sample_env s 5"
    "cg_node s 3 = Some (LeafN (checksummed c l))" "cg_node s 4 = Some (LeafN (checksummed c' (leaf_new 4)))"
proof -
  have "usize_is_power_of_two (env_num_cpus sample_env)"
    unfolding usize_is_power_of_two_def by (rule bexI [of _ 0]) (simp_all add: sample_env_def)
  then obtain s where s: "cg_create_memory sample_env = Ok s" using cg_create_memory_total by blast
  note spec = cg_create_memory_spec [OF s]
  have adr: "addressable 3" "addressable 4" by (simp_all add: addressable_def)
  have f3: "frontier sample_env s 3" using spec(2,4) by (simp add: frontier_def allocator_new_def)
  obtain s1 where s1: "cg_inv sample_env s1" "cg_cache s1 = cg_cache s" "al_free_pages (pgr_allocator (cg_pager s1)) = []"
    "al_last_allocated_page (pgr_allocator (cg_pager s1)) = 3 + 1"
    using cg_allocate_page_spec [OF spec(1) f3 adr(1)] by metis
  have emp: "cached sample_env s1 = {}" using spec(2) s1(2) by (simp add: cached_def)
  have f4: "frontier sample_env s1 4" using s1(3,4) emp by (simp add: frontier_def)
  obtain s2 where s2: "cg_inv sample_env s2" "cg_cache s2 = cg_cache s1" "al_free_pages (pgr_allocator (cg_pager s2)) = []"
    "al_last_allocated_page (pgr_allocator (cg_pager s2)) = 4 + 1"
    using cg_allocate_page_spec [OF s1(1) f4 adr(2)] by metis
  have room2: "cg_room (Suc 11) s2" using spec(3) [of 12] s1(2) s2(2) by (simp add: cg_room_def)
  obtain s3 c where s3: "cg_inv sample_env s3" "cg_room 11 s3" "cg_node s3 3 = Some (with_checksum c (LeafN l))"
    "pgr_allocator (cg_pager s3) = pgr_allocator (cg_pager s2)" "cached sample_env s3 \<subseteq> insert 3 (cached sample_env s2)"
    by (rule write_btree_node_spec [OF s2(1) room2 adr(1) assms], rule that)
  have room3: "cg_room (Suc 10) s3" using s3(2) by simp
  obtain s4 c' where s4: "cg_inv sample_env s4" "cg_room 10 s4" "cg_node s4 4 = Some (with_checksum c' (LeafN (leaf_new 4)))"
    "\<And>q x. addressable q \<Longrightarrow> q \<noteq> 4 \<Longrightarrow> cg_node s3 q = Some x \<Longrightarrow> cg_node s4 q = Some x"
    "pgr_allocator (cg_pager s4) = pgr_allocator (cg_pager s3)" "cached sample_env s4 \<subseteq> insert 4 (cached sample_env s3)"
    by (rule write_btree_node_spec [OF s3(1) room3 adr(2) leaf_new_fits], rule that)
  have "cached sample_env s4 \<subseteq> {3, 4}" using s4(6) s3(5) s2(2) emp by (auto simp: cached_def)
  then have "frontier sample_env s4 5" using s2(3,4) s3(4) s4(5) by (auto simp: frontier_def)
  then show ?thesis using that [OF s4(1,2)] s4(3) s4(4) [OF adr(1) _ s3(3)] by (simp add: checksummed_def)
qed

theorem split_hides_later_keys_witness:
  "\<exists>b t b' b'' path leaf. btree_rep sample_env b t 4 \<and> contents t [1] = Some sample_entry \<and>
     propagate_split sample_env (path @ [(3, LeafN leaf)]) [0] 4 b = (Ok (), b') \<and> btree_get sample_env [1] 6 b' = Some (Ok None, b'')"
proof -
  obtain l where l: "node_fits (LeafN l)" "leaf_inv l" "leaf_map l = [[1] \<mapsto> sample_entry]"
    "nh_is_root (lf_header l) = 0"
    by (rule sample_entry_leaf, rule that)
  obtain s c c' where s: "cg_inv sample_env s" "cg_room 10 s" "frontier sample_env s 5"
    "cg_node s 3 = Some (LeafN (checksummed c l))" "cg_node s 4 = Some (LeafN (checksummed c' (leaf_new 4)))"
    by (rule sample_two_leaves [OF l(1)], rule that)
  let ?b = "sample_btree s" and ?t = "PLeaf 3 (checksummed c l)"
  have adr: "addressable 3" "addressable 4" "addressable 5" by (simp_all add: addressable_def)
  have asc: "ascending en_key (lf_entries l)" using l(2) by (simp add: leaf_inv_def leaf_ordered_def)
  have room: "cg_room 5 s" by (rule cg_room_less [OF s(2)]) simp
  have rep: "btree_rep sample_env ?b ?t 4"
    using s(1,4) room asc adr by (simp add: btree_rep_def sample_btree_def)
  have "contents ?t = leaf_map l" by (simp add: contents_def leaf_map_def)
  then have cont: "contents ?t [1] = Some sample_entry" using l(3) by simp
  have fits: "node_fits (set_is_root 0 5 (LeafN (checksummed c l)))" 
    using l(1,4) by (auto simp: checksummed_def node_header_wf_iff leaf_used_def get_node_type_def)
  have "\<exists>b' b''. propagate_split sample_env ([] @ [(3, LeafN l)]) [0] 4 ?b = (Ok (), b') \<and>
    bt_root_page_id b' = 5 \<and> btree_get sample_env [1] 6 b' = Some (Ok None, b'')"
    by (rule split_hides_later_keys [where r = 5 and old = "LeafN (checksummed c l)" and new_leaf = "checksummed c' (leaf_new 4)"])
      (use s room adr fits in \<open>simp_all add: sample_btree_def MAX_KEY_LENGTH_def leaf_map_def key_map_def leaf_new_def Let_def\<close>)
  then show ?thesis using rep cont by (metis append_Nil)
qed

end
