(* ===== verification/Snap.thy ===== *)
theory Snap
  imports Btree_Split Txn "HOL-Library.AList"
begin

text \<open>
  Snapshots: \<^verbatim>\<open>snap/concurrency.rs\<close>, \<^verbatim>\<open>snap/registry.rs\<close>, \<^verbatim>\<open>snap/snapshot.rs\<close>, \<^verbatim>\<open>snap/visibility.rs\<close>,
  \<^verbatim>\<open>snap/cleanup.rs\<close> and \<^verbatim>\<open>snap/validation.rs\<close>. A \<open>HashMap\<close> is an association list with distinct keys,
  changed by \<open>AList.update\<close> and \<open>AList.delete\<close>; where the code iterates over one, the order is the
  parameter \<open>ord\<close>. The locks protect single calls, which are the steps of the model; a poisoned lock is
  not modelled. The count of live handles that \<open>Arc\<close> keeps inside a snapshot is left out.
\<close>

section \<open>concurrency.rs\<close>

record registry_data =
  rd_snapshots :: "(txn_id \<times> page_id) list"
  rd_current_txn_id :: txn_id
  rd_ref_counts :: "(txn_id \<times> nat) list"

definition concurrency_with_txn_id :: "page_id \<Rightarrow> txn_id \<Rightarrow> registry_data" where
  "concurrency_with_txn_id genesis_page_id current =
     \<lparr>rd_snapshots = [(current, genesis_page_id)], rd_current_txn_id = current, rd_ref_counts = []\<rparr>"

definition concurrency_new :: "page_id \<Rightarrow> registry_data" where
  "concurrency_new genesis_page_id = concurrency_with_txn_id genesis_page_id TXN_INITIAL"

definition rd_get_root :: "registry_data \<Rightarrow> txn_id \<Rightarrow> page_id option" where
  "rd_get_root d t = map_of (rd_snapshots d) t"

definition has_snapshot :: "registry_data \<Rightarrow> txn_id \<Rightarrow> bool" where
  "has_snapshot d t \<longleftrightarrow> rd_get_root d t \<noteq> None"

definition get_latest_snapshot :: "registry_data \<Rightarrow> (txn_id \<times> page_id) option" where
  "get_latest_snapshot d = map_option (\<lambda>p. (rd_current_txn_id d, p)) (rd_get_root d (rd_current_txn_id d))"

definition get_ref_count :: "registry_data \<Rightarrow> txn_id \<Rightarrow> nat" where
  "get_ref_count d t = (case map_of (rd_ref_counts d) t of Some c \<Rightarrow> c | None \<Rightarrow> 0)"

definition increment_ref_count :: "registry_data \<Rightarrow> txn_id \<Rightarrow> nat \<times> registry_data" where
  "increment_ref_count d t =
     (let c = get_ref_count d t + 1 in (c, d\<lparr>rd_ref_counts := AList.update t c (rd_ref_counts d)\<rparr>))"

definition decrement_ref_count :: "registry_data \<Rightarrow> txn_id \<Rightarrow> nat option \<times> registry_data" where
  "decrement_ref_count d t =
     (case map_of (rd_ref_counts d) t of
        None \<Rightarrow> (None, d)
      | Some n \<Rightarrow>
          let c = n - 1 in
          if c = 0 then (Some 0, d\<lparr>rd_ref_counts := AList.delete t (rd_ref_counts d)\<rparr>)
          else (Some c, d\<lparr>rd_ref_counts := AList.update t c (rd_ref_counts d)\<rparr>))"

text \<open>\<open>SnapshotConcurrency::register\<close> starts with no references, \<open>RegistryData::register\<close> with one.\<close>

definition register_with :: "nat \<Rightarrow> registry_data \<Rightarrow> txn_id \<Rightarrow> page_id \<Rightarrow> registry_data" where
  "register_with refs d t p =
     d\<lparr>rd_snapshots := AList.update t p (rd_snapshots d), rd_ref_counts := AList.update t refs (rd_ref_counts d),
       rd_current_txn_id := (if rd_current_txn_id d < t then t else rd_current_txn_id d)\<rparr>"

definition concurrency_register :: "registry_data \<Rightarrow> txn_id \<Rightarrow> page_id \<Rightarrow> registry_data" where
  "concurrency_register = register_with 0"

definition rd_register :: "registry_data \<Rightarrow> txn_id \<Rightarrow> page_id \<Rightarrow> registry_data" where
  "rd_register = register_with 1"

definition rd_remove :: "registry_data \<Rightarrow> txn_id \<Rightarrow> page_id option \<times> registry_data" where
  "rd_remove d t =
     (map_of (rd_snapshots d) t,
      d\<lparr>rd_snapshots := AList.delete t (rd_snapshots d), rd_ref_counts := AList.delete t (rd_ref_counts d)\<rparr>)"

section \<open>snapshot.rs\<close>

record snapshot =
  sn_txn_id :: txn_id
  sn_root_page_id :: page_id

definition snapshot_new :: "txn_id \<Rightarrow> page_id \<Rightarrow> snapshot" where
  "snapshot_new t p = \<lparr>sn_txn_id = t, sn_root_page_id = p\<rparr>"

definition is_genesis :: "snapshot \<Rightarrow> bool" where
  "is_genesis s \<longleftrightarrow> sn_txn_id s = TXN_INITIAL"

definition is_newer_than :: "snapshot \<Rightarrow> snapshot \<Rightarrow> bool" where
  "is_newer_than s other \<longleftrightarrow> sn_txn_id other < sn_txn_id s"

definition is_older_than :: "snapshot \<Rightarrow> snapshot \<Rightarrow> bool" where
  "is_older_than s other \<longleftrightarrow> sn_txn_id s < sn_txn_id other"

section \<open>registry.rs\<close>

record snap_registry =
  sr_data :: registry_data
  sr_pager :: cpager

definition registry_with_txn_id :: "cpager \<Rightarrow> page_id \<Rightarrow> txn_id \<Rightarrow> snap_registry" where
  "registry_with_txn_id g p t = \<lparr>sr_data = concurrency_with_txn_id p t, sr_pager = g\<rparr>"

definition registry_with_genesis :: "cpager \<Rightarrow> page_id \<Rightarrow> snap_registry" where
  "registry_with_genesis g p = registry_with_txn_id g p TXN_INITIAL"

definition registry_new :: "cpager \<Rightarrow> snap_registry" where
  "registry_new g = \<lparr>sr_data = concurrency_new FIRST_DATA, sr_pager = g\<rparr>"

definition register_snapshot :: "txn_id \<Rightarrow> page_id \<Rightarrow> (registry_data, unit) proc" where
  "register_snapshot t p d =
     (if \<not> is_data_page p then (Err (Validation (InvalidChildPageId p)), d)
      else if has_snapshot d t then
        (Err (Validation (ValidationGeneric (''Snapshot already exists for txn_id '' @ fmt_nat (unat t)))), d)
      else if t \<le> rd_current_txn_id d then
        (Err (Validation (ValidationGeneric (''txn_id '' @ fmt_nat (unat t) @ '' is not greater than current '' @
           fmt_nat (unat (rd_current_txn_id d))))), d)
      else (Ok (), concurrency_register d t p))"

definition take_snapshot :: "(registry_data, snapshot) proc" where
  "take_snapshot d =
     (case get_latest_snapshot d of
        None \<Rightarrow> (Err (Transaction (SnapshotNotFound 0)), d)
      | Some (t, p) \<Rightarrow> (Ok (snapshot_new t p), snd (increment_ref_count d t)))"

definition take_snapshot_at :: "txn_id \<Rightarrow> (registry_data, snapshot) proc" where
  "take_snapshot_at t d =
     (case rd_get_root d t of
        None \<Rightarrow> (Err (Transaction (SnapshotNotFound t)), d)
      | Some p \<Rightarrow> (Ok (snapshot_new t p), snd (increment_ref_count d t)))"

record snapshot_stats =
  st_snapshot_count :: nat
  st_current_txn_id :: u64
  st_active_snapshots :: nat
  st_oldest_active_txn :: "u64 option"

definition registry_get_stats :: "registry_data \<Rightarrow> snapshot_stats" where
  "registry_get_stats d =
     (let active = map fst (filter (\<lambda>(t, c). 0 < c) (rd_ref_counts d)) in
      \<lparr>st_snapshot_count = length (rd_snapshots d), st_current_txn_id = rd_current_txn_id d,
       st_active_snapshots = length active,
       st_oldest_active_txn = (if active = [] then None else Some (Min (set active)))\<rparr>)"

definition on_registry_pager :: "(cpager, 'a) proc \<Rightarrow> (snap_registry, 'a) proc" where
  "on_registry_pager m r = (case m (sr_pager r) of (x, g) \<Rightarrow> (x, r\<lparr>sr_pager := g\<rparr>))"

definition registry_close :: "(snap_registry, unit) proc" where
  "registry_close = on_registry_pager cg_close"

definition registry_commit_transaction :: "env \<Rightarrow> txn_id \<Rightarrow> page_id \<Rightarrow> (snap_registry, unit) proc" where
  "registry_commit_transaction e t p r =
     (case commit_transaction (env_crc e) (cg_pager (sr_pager r)) t p of
        Ok g \<Rightarrow> (Ok (), r\<lparr>sr_pager := (sr_pager r)\<lparr>cg_pager := g\<rparr>\<rparr>)
      | Err x \<Rightarrow> (Err x, r)
      | Panic \<Rightarrow> (Panic, r))"

text \<open>A tree operation that may not return, run on a tree opened over the registry's pager; \<open>k\<close> says
  what the caller makes of its result and of the tree.\<close>

definition on_tree :: "env \<Rightarrow> page_id \<Rightarrow> (btree \<Rightarrow> ('a outcome \<times> btree) option) \<Rightarrow> ('a \<Rightarrow> btree \<Rightarrow> 'b) \<Rightarrow>
    snap_registry \<Rightarrow> ('b outcome \<times> snap_registry) option" where
  "on_tree e root f k r =
     (case btree_new e (sr_pager r) root of
        (Ok b, _) \<Rightarrow> map_option (\<lambda>(x, b'). (and_then x (\<lambda>a. Ok (k a b')), r\<lparr>sr_pager := bt_pager b'\<rparr>)) (f b)
      | (Err x, g) \<Rightarrow> Some (Err x, r\<lparr>sr_pager := g\<rparr>)
      | (Panic, g) \<Rightarrow> Some (Panic, r\<lparr>sr_pager := g\<rparr>))"

definition with_btree :: "env \<Rightarrow> page_id \<Rightarrow> (btree \<Rightarrow> ('a outcome \<times> btree) option) \<Rightarrow> snap_registry \<Rightarrow>
    ('a outcome \<times> snap_registry) option" where
  "with_btree e root f r = on_tree e root f (\<lambda>a _. a) r"

definition apply_mutations :: "env \<Rightarrow> (btree \<Rightarrow> (unit outcome \<times> btree) option) \<Rightarrow> snap_registry \<Rightarrow>
    (page_id outcome \<times> snap_registry) option" where
  "apply_mutations e f r =
     (case get_latest_snapshot (sr_data r) of
        None \<Rightarrow> Some (Err (Transaction (SnapshotNotFound 0)), r)
      | Some (_, root) \<Rightarrow> on_tree e root f (\<lambda>_ b. bt_root_page_id b) r)"

section \<open>visibility.rs\<close>

type_synonym commit_timestamps = "(txn_id \<times> u64) list"

definition record_commit :: "commit_timestamps \<Rightarrow> txn_id \<Rightarrow> u64 \<Rightarrow> commit_timestamps" where
  "record_commit ts t ms = AList.update t ms ts"

definition get_commit_time :: "commit_timestamps \<Rightarrow> txn_id \<Rightarrow> u64 option" where
  "get_commit_time ts t = map_of ts t"

definition has_committed :: "commit_timestamps \<Rightarrow> txn_id \<Rightarrow> bool" where
  "has_committed ts t \<longleftrightarrow> get_commit_time ts t \<noteq> None"

text \<open>\<open>max_by_key\<close> returns the last of several maximal elements, \<open>min_by_key\<close> the first.\<close>

fun max_by_key :: "('a \<Rightarrow> 'k::linorder) \<Rightarrow> 'a list \<Rightarrow> 'a option" where
  "max_by_key f [] = None"
| "max_by_key f (x # xs) = (case max_by_key f xs of None \<Rightarrow> Some x | Some y \<Rightarrow> if f x \<le> f y then Some y else Some x)"

fun min_by_key :: "('a \<Rightarrow> 'k::linorder) \<Rightarrow> 'a list \<Rightarrow> 'a option" where
  "min_by_key f [] = None"
| "min_by_key f (x # xs) = (case min_by_key f xs of None \<Rightarrow> Some x | Some y \<Rightarrow> if f x \<le> f y then Some x else Some y)"

definition get_txn_at_or_before :: "(commit_timestamps \<Rightarrow> commit_timestamps) \<Rightarrow> commit_timestamps \<Rightarrow> u64 \<Rightarrow> txn_id option" where
  "get_txn_at_or_before ord ts ms = map_option fst (max_by_key snd (filter (\<lambda>(_, t). t \<le> ms) (ord ts)))"

definition get_txn_after :: "(commit_timestamps \<Rightarrow> commit_timestamps) \<Rightarrow> commit_timestamps \<Rightarrow> u64 \<Rightarrow> txn_id option" where
  "get_txn_after ord ts ms = map_option fst (min_by_key snd (filter (\<lambda>(_, t). ms < t) (ord ts)))"

definition cleanup_old :: "commit_timestamps \<Rightarrow> txn_id \<Rightarrow> commit_timestamps" where
  "cleanup_old ts min_txn_id = filter (\<lambda>(t, _). min_txn_id \<le> t) ts"

definition is_txn_visible :: "commit_timestamps \<Rightarrow> txn_id \<Rightarrow> txn_id \<Rightarrow> bool" where
  "is_txn_visible ts snapshot_txn_id t \<longleftrightarrow> t \<le> snapshot_txn_id \<and> has_committed ts t"

definition is_write_visible :: "commit_timestamps \<Rightarrow> txn_id \<Rightarrow> txn_id \<Rightarrow> bool" where
  "is_write_visible ts snapshot_txn_id writer = is_txn_visible ts snapshot_txn_id writer"

definition get_snapshot_at_time :: "(commit_timestamps \<Rightarrow> commit_timestamps) \<Rightarrow> commit_timestamps \<Rightarrow> u64 \<Rightarrow> txn_id option" where
  "get_snapshot_at_time ord ts ms = get_txn_at_or_before ord ts ms"

section \<open>cleanup.rs\<close>

record cleanup_config =
  cl_min_snapshots_to_keep :: nat
  cl_min_txn_id_gap :: u64
  cl_aggressive :: bool

definition cleanup_config_default :: cleanup_config where
  "cleanup_config_default = \<lparr>cl_min_snapshots_to_keep = 2, cl_min_txn_id_gap = 10, cl_aggressive = False\<rparr>"

definition cleanup_conservative :: cleanup_config where
  "cleanup_conservative = \<lparr>cl_min_snapshots_to_keep = 10, cl_min_txn_id_gap = 100, cl_aggressive = False\<rparr>"

definition cleanup_aggressive :: cleanup_config where
  "cleanup_aggressive = \<lparr>cl_min_snapshots_to_keep = 1, cl_min_txn_id_gap = 1, cl_aggressive = True\<rparr>"

definition cleanup_custom :: "nat \<Rightarrow> u64 \<Rightarrow> cleanup_config" where
  "cleanup_custom n gap = \<lparr>cl_min_snapshots_to_keep = n, cl_min_txn_id_gap = gap, cl_aggressive = False\<rparr>"

definition refs_of :: "(txn_id \<times> nat) list \<Rightarrow> txn_id \<Rightarrow> nat" where
  "refs_of ref_counts t = (case map_of ref_counts t of Some c \<Rightarrow> c | None \<Rightarrow> 0)"

definition should_keep_snapshot :: "cleanup_config \<Rightarrow> txn_id \<Rightarrow> (txn_id \<times> page_id) list \<Rightarrow> (txn_id \<times> nat) list \<Rightarrow> txn_id \<Rightarrow> bool" where
  "should_keep_snapshot cfg t snapshots ref_counts current \<longleftrightarrow>
     t = TXN_INITIAL \<or> 0 < refs_of ref_counts t \<or> length snapshots \<le> cl_min_snapshots_to_keep cfg \<or>
     saturating_sub current t < cl_min_txn_id_gap cfg"

definition identify_cleanup_candidates :: "(txn_id list \<Rightarrow> txn_id list) \<Rightarrow> cleanup_config \<Rightarrow> (txn_id \<times> page_id) list \<Rightarrow>
    (txn_id \<times> nat) list \<Rightarrow> txn_id \<Rightarrow> txn_id list" where
  "identify_cleanup_candidates ord cfg snapshots ref_counts current =
     filter (\<lambda>t. \<not> should_keep_snapshot cfg t snapshots ref_counts current) (ord (map fst snapshots))"

definition cleanup_count :: "(txn_id list \<Rightarrow> txn_id list) \<Rightarrow> cleanup_config \<Rightarrow> (txn_id \<times> page_id) list \<Rightarrow>
    (txn_id \<times> nat) list \<Rightarrow> txn_id \<Rightarrow> nat" where
  "cleanup_count ord cfg snapshots ref_counts current = length (identify_cleanup_candidates ord cfg snapshots ref_counts current)"

definition can_cleanup_snapshot :: "txn_id \<Rightarrow> (txn_id \<times> nat) list \<Rightarrow> bool" where
  "can_cleanup_snapshot t ref_counts \<longleftrightarrow> t \<noteq> TXN_INITIAL \<and> \<not> 0 < refs_of ref_counts t"

record cleanup_stats =
  cu_total_snapshots :: nat
  cu_active_snapshots :: nat
  cu_cleanup_candidates :: nat
  cu_oldest_candidate :: "txn_id option"
  cu_newest_candidate :: "txn_id option"

definition cleanup_stats_of :: "(txn_id list \<Rightarrow> txn_id list) \<Rightarrow> cleanup_config \<Rightarrow> (txn_id \<times> page_id) list \<Rightarrow>
    (txn_id \<times> nat) list \<Rightarrow> txn_id \<Rightarrow> cleanup_stats" where
  "cleanup_stats_of ord cfg snapshots ref_counts current =
     (let c = identify_cleanup_candidates ord cfg snapshots ref_counts current in
      \<lparr>cu_total_snapshots = length snapshots, cu_active_snapshots = length ref_counts, cu_cleanup_candidates = length c,
       cu_oldest_candidate = (if c = [] then None else Some (hd c)),
       cu_newest_candidate = (if c = [] then None else Some (last c))\<rparr>)"

section \<open>validation.rs\<close>

definition validate_genesis_exists :: "(txn_id \<times> page_id) list \<Rightarrow> unit outcome" where
  "validate_genesis_exists snapshots =
     (case map_of snapshots TXN_INITIAL of
        None \<Rightarrow> Err (Validation (ValidationGeneric ''Genesis snapshot (txn_id 0) does not exist''))
      | Some p \<Rightarrow> if is_data_page p then Ok () else Err (Validation (InvalidChildPageId p)))"

fun validate_page_ids :: "(txn_id \<times> page_id) list \<Rightarrow> unit outcome" where
  "validate_page_ids [] = Ok ()"
| "validate_page_ids ((t, p) # rest) =
     (if is_data_page p then validate_page_ids rest
      else Err (Validation (ValidationGeneric (''Invalid page ID '' @ fmt_nat (unat p) @ '' for txn_id '' @
             fmt_nat (unat t) @ '' (must be >= 2)''))))"

definition validate_monotonic_current :: "(txn_id \<times> page_id) list \<Rightarrow> txn_id \<Rightarrow> unit outcome" where
  "validate_monotonic_current snapshots current =
     (if snapshots = [] then Err (Validation (ValidationGeneric ''Snapshot registry is empty''))
      else
        let m = Max (set (map fst snapshots)) in
        if current \<noteq> m then
          Err (Validation (ValidationGeneric (''Current txn_id '' @ fmt_nat (unat current) @
            '' is not equal to maximum txn_id '' @ fmt_nat (unat m))))
        else Ok ())"

text \<open>The checks for duplicates and for the order of a \<open>HashMap\<close> always succeed.\<close>

definition validate_registry :: "((txn_id \<times> page_id) list \<Rightarrow> (txn_id \<times> page_id) list) \<Rightarrow> (txn_id \<times> page_id) list \<Rightarrow> txn_id \<Rightarrow> unit outcome" where
  "validate_registry ord snapshots current =
     and_then (validate_genesis_exists snapshots) (\<lambda>_.
     and_then (validate_page_ids (ord snapshots)) (\<lambda>_.
     validate_monotonic_current snapshots current))"

definition validate_snapshot_entry :: "txn_id \<Rightarrow> page_id \<Rightarrow> unit outcome" where
  "validate_snapshot_entry t p =
     (if \<not> is_data_page p then Err (Validation (InvalidChildPageId p))
      else if t \<noteq> TXN_INITIAL \<and> \<not> txn_is_valid t then
        Err (Validation (ValidationGeneric (''Invalid txn_id '' @ fmt_nat (unat t))))
      else Ok ())"

definition is_corrupted :: "((txn_id \<times> page_id) list \<Rightarrow> (txn_id \<times> page_id) list) \<Rightarrow> (txn_id \<times> page_id) list \<Rightarrow> txn_id \<Rightarrow> bool" where
  "is_corrupted ord snapshots current \<longleftrightarrow> \<not> is_ok (validate_registry ord snapshots current)"


section \<open>Runs of the registry\<close>

text \<open>One call of the registry, whether it succeeds or not.\<close>

inductive registry_step :: "registry_data \<Rightarrow> registry_data \<Rightarrow> bool" where
  register: "register_snapshot t p d = (x, d') \<Longrightarrow> registry_step d d'"
| snapshot: "take_snapshot d = (x, d') \<Longrightarrow> registry_step d d'"
| snapshot_at: "take_snapshot_at t d = (x, d') \<Longrightarrow> registry_step d d'"
| increment: "increment_ref_count d t = (n, d') \<Longrightarrow> registry_step d d'"
| decrement: "decrement_ref_count d t = (m, d') \<Longrightarrow> registry_step d d'"

definition registry_data_inv :: "registry_data \<Rightarrow> bool" where
  "registry_data_inv d \<longleftrightarrow> rd_get_root d TXN_INITIAL \<noteq> None \<and> has_snapshot d (rd_current_txn_id d) \<and>
     (\<forall>t \<in> fst ` set (rd_snapshots d). t \<le> rd_current_txn_id d) \<and>
     (\<forall>p \<in> snd ` set (rd_snapshots d). is_data_page p)"

lemma concurrency_new_inv [inv_rules]: "registry_data_inv (concurrency_new FIRST_DATA)"
  by (simp add: registry_data_inv_def concurrency_new_def concurrency_with_txn_id_def rd_get_root_def
      has_snapshot_def is_data_page_def FIRST_DATA_def)

lemma ref_counts_only:
  "increment_ref_count d t = (n, d') \<Longrightarrow> rd_snapshots d' = rd_snapshots d \<and> rd_current_txn_id d' = rd_current_txn_id d"
  "decrement_ref_count d t = (m, d') \<Longrightarrow> rd_snapshots d' = rd_snapshots d \<and> rd_current_txn_id d' = rd_current_txn_id d"
  "take_snapshot d = (x, d') \<Longrightarrow> rd_snapshots d' = rd_snapshots d \<and> rd_current_txn_id d' = rd_current_txn_id d"
  "take_snapshot_at t d = (y, d') \<Longrightarrow> rd_snapshots d' = rd_snapshots d \<and> rd_current_txn_id d' = rd_current_txn_id d"
  by (auto simp: increment_ref_count_def decrement_ref_count_def take_snapshot_def take_snapshot_at_def Let_def
      split: option.splits if_splits)

lemma register_snapshot_cases:
  assumes "register_snapshot t p d = (x, d')"
  shows "d' = d \<or> (is_data_page p \<and> rd_get_root d t = None \<and> rd_current_txn_id d < t \<and> x = Ok () \<and>
     d' = concurrency_register d t p)"
  using assms by (auto simp: register_snapshot_def has_snapshot_def not_le split: if_splits)

text \<open>What a step leaves of the snapshots: nothing changes, or one newer snapshot is added.\<close>

lemma registry_step_cases:
  assumes "registry_step d d'"
  obtains "rd_snapshots d' = rd_snapshots d" "rd_current_txn_id d' = rd_current_txn_id d"
  | t p where "is_data_page p" "rd_get_root d t = None" "rd_current_txn_id d < t"
      "rd_snapshots d' = AList.update t p (rd_snapshots d)" "rd_current_txn_id d' = t"
  using assms
proof (cases rule: registry_step.cases)
  case (register t p x)
  then show thesis
    using register_snapshot_cases [of t p d x d'] that
    by (auto simp: concurrency_register_def register_with_def)
qed (use ref_counts_only that in metis)+

lemma set_update_subset: "set (AList.update k v xs) \<subseteq> insert (k, v) (set xs)"
  by (induction xs) auto

lemma registry_step_inv:
  assumes "registry_step d d'" "registry_data_inv d"
  shows "registry_data_inv d'"
  using assms(1)
proof (cases rule: registry_step_cases)
  case 1
  with assms(2) show ?thesis by (simp add: registry_data_inv_def rd_get_root_def has_snapshot_def)
next
  case (2 t p)
  have "set (rd_snapshots d') \<subseteq> insert (t, p) (set (rd_snapshots d))"
    using set_update_subset 2(4) by metis
  then show ?thesis
    using assms(2) 2 by (fastforce simp: registry_data_inv_def rd_get_root_def has_snapshot_def update_conv')
qed

lemma registry_step_monotone:
  assumes "registry_step d d'"
  shows "rd_current_txn_id d \<le> rd_current_txn_id d' \<and> map_of (rd_snapshots d) \<subseteq>\<^sub>m map_of (rd_snapshots d')"
  using assms by (cases rule: registry_step_cases) (auto simp: rd_get_root_def map_le_def update_conv')

lemma registry_run_monotone:
  "registry_step\<^sup>*\<^sup>* d d' \<Longrightarrow>
     rd_current_txn_id d \<le> rd_current_txn_id d' \<and> map_of (rd_snapshots d) \<subseteq>\<^sub>m map_of (rd_snapshots d')"
  by (induction rule: rtranclp_induct) (auto dest: registry_step_monotone intro: map_le_trans)

lemma registry_run_inv: "registry_step\<^sup>*\<^sup>* d d' \<Longrightarrow> registry_data_inv d \<Longrightarrow> registry_data_inv d'"
  by (induction rule: rtranclp_induct) (auto intro: registry_step_inv)

lemma validate_page_ids_Ok: "\<forall>p \<in> snd ` set xs. is_data_page p \<Longrightarrow> validate_page_ids xs = Ok ()"
  by (induction xs rule: validate_page_ids.induct) auto

lemma current_is_max:
  assumes "registry_data_inv d"
  shows "Max (fst ` set (rd_snapshots d)) = rd_current_txn_id d"
  using assms by (intro Max_eqI) (auto simp: registry_data_inv_def has_snapshot_def rd_get_root_def dest!: map_of_SomeD intro: rev_image_eqI)

lemma registry_inv_validates:
  assumes "registry_data_inv d" "set (ord (rd_snapshots d)) = set (rd_snapshots d)"
  shows "validate_registry ord (rd_snapshots d) (rd_current_txn_id d) = Ok ()"
proof -
  obtain p where p: "map_of (rd_snapshots d) TXN_INITIAL = Some p"
    using assms(1) by (auto simp: registry_data_inv_def rd_get_root_def)
  then have "is_data_page p"
    using assms(1) by (force simp: registry_data_inv_def dest: map_of_SomeD)
  moreover have "validate_page_ids (ord (rd_snapshots d)) = Ok ()"
    using assms by (simp add: validate_page_ids_Ok registry_data_inv_def)
  moreover have "rd_snapshots d \<noteq> []" using p by auto
  ultimately show ?thesis
    using p current_is_max [OF assms(1)]
    by (simp add: validate_registry_def validate_genesis_exists_def validate_monotonic_current_def)
qed

text \<open>C25. From a registry made by \<open>SnapshotRegistry::new\<close>, after any calls of \<open>register_snapshot\<close>, \<open>snapshot\<close>,
  \<open>snapshot_at\<close> and the reference counting, successful or not, the validator accepts the registry, the
  latest snapshot exists and is the one with the greatest transaction id, the genesis snapshot still has its
  root, and further calls neither move the current id back nor change the root of a registered snapshot.\<close>

theorem snap_registry_invariant:
  assumes "registry_step\<^sup>*\<^sup>* (concurrency_new FIRST_DATA) d" and "registry_step\<^sup>*\<^sup>* d d'"
    and "set (ord (rd_snapshots d)) = set (rd_snapshots d)"
  shows "validate_registry ord (rd_snapshots d) (rd_current_txn_id d) = Ok () \<and>
    (\<exists>p. get_latest_snapshot d = Some (Max (fst ` set (rd_snapshots d)), p)) \<and>
    rd_get_root d TXN_INITIAL = Some FIRST_DATA \<and> rd_current_txn_id d \<le> rd_current_txn_id d' \<and>
    (\<forall>t p. rd_get_root d t = Some p \<longrightarrow> rd_get_root d' t = Some p)"
proof -
  have inv: "registry_data_inv d" by (rule registry_run_inv [OF assms(1) concurrency_new_inv])
  have "map_of (rd_snapshots d) TXN_INITIAL = Some FIRST_DATA"
    using registry_run_monotone [OF assms(1)]
    by (auto simp: map_le_def concurrency_new_def concurrency_with_txn_id_def)
  with inv registry_run_monotone [OF assms(2)] show ?thesis
    using registry_inv_validates [of d ord, OF inv assms(3)] current_is_max [OF inv]
    by (auto simp: get_latest_snapshot_def registry_data_inv_def has_snapshot_def rd_get_root_def map_le_def dom_def)
qed

theorem snap_registry_invariant_witness:
  "\<exists>(d :: registry_data) (d' :: registry_data). rd_current_txn_id d = 1 \<and> rd_current_txn_id d' = 7 \<and> rd_get_root d' 1 = Some 10 \<and>
     validate_registry id (rd_snapshots d) 1 = Ok ()"
proof -
  define d where "d = snd (register_snapshot 1 10 (concurrency_new FIRST_DATA))"
  define d' where "d' = snd (register_snapshot 7 3 d)"
  note defs = register_snapshot_def concurrency_new_def concurrency_with_txn_id_def concurrency_register_def
    register_with_def has_snapshot_def rd_get_root_def is_data_page_def FIRST_DATA_def TXN_INITIAL_def
  have d: "d = \<lparr>rd_snapshots = [(0, 2), (1, 10)], rd_current_txn_id = 1, rd_ref_counts = [(1, 0)]\<rparr>"
    by (simp add: d_def defs)
  have "registry_step (concurrency_new FIRST_DATA) d" "registry_step d d'"
    unfolding d_def d'_def by (rule registry_step.register, rule prod.collapse [symmetric])+
  then have "registry_step\<^sup>*\<^sup>* (concurrency_new FIRST_DATA) d" "registry_step\<^sup>*\<^sup>* d d'" by blast+
  from snap_registry_invariant [OF this, of id]
  have "validate_registry id (rd_snapshots d) 1 = Ok ()" "rd_get_root d' 1 = Some 10"
    by (simp_all add: d rd_get_root_def)
  moreover have "(1 :: u64) < 7" by (simp add: word_less_nat_alt)
  then have "rd_current_txn_id d' = 7" by (simp add: d'_def d defs not_le [symmetric])
  moreover have "rd_current_txn_id d = 1" by (simp add: d)
  ultimately show ?thesis by blast
qed

text \<open>Cleanup never proposes the genesis snapshot or one that is referenced, and proposes none while the
  registry holds no more than the configured minimum.\<close>

lemma cleanup_candidates_safe:
  assumes "t \<in> set (identify_cleanup_candidates ord cfg snapshots ref_counts current)"
  shows "can_cleanup_snapshot t ref_counts \<and> cl_min_snapshots_to_keep cfg < length snapshots \<and>
    cl_min_txn_id_gap cfg \<le> saturating_sub current t"
  using assms by (auto simp: identify_cleanup_candidates_def should_keep_snapshot_def can_cleanup_snapshot_def)

end
