(* ===== verification/Query_Cache.thy ===== *)
theory Query_Cache
  imports Page_Cache Node
begin

text \<open>
  \<^verbatim>\<open>cache/query.rs\<close> and \<^verbatim>\<open>cache/node.rs\<close>: the caches of query results and of decoded nodes, both over the
  sharded cache of the theory \<open>Page_Cache\<close>. The standard hasher is a parameter: \<open>hash\<close> on the keys of the
  cache and \<open>param_hash\<close> on the byte slices fed to it for a query key. The channel to the invalidation
  thread is a queue of messages; one iteration of the thread is \<open>invalidation_step\<close>. The statistics that
  clones of a query cache share through an \<open>Arc\<close> are a record the operations return.
\<close>

section \<open>Keys and results\<close>

datatype query_type = PointGetQ | RangeScanQ | CountQ | CustomQ u8

datatype query_result = PointGetR "bytes option" | RangeScanR "(bytes \<times> bytes) list" | CountR nat | EmptyR

text \<open>\<open>size_of::<usize>()\<close> is 8.\<close>

fun query_result_size :: "query_result \<Rightarrow> nat" where
  "query_result_size (PointGetR None) = 0"
| "query_result_size (PointGetR (Some v)) = length v"
| "query_result_size (RangeScanR kvs) = sum_list (map (\<lambda>(k, v). length k + length v) kvs)"
| "query_result_size (CountR _) = 8"
| "query_result_size EmptyR = 0"

record cached_result =
  qr_result :: query_result
  qr_result_lsn :: lsn
  qr_elapsed :: nat
  qr_size :: nat
  qr_page_dependencies :: "page_id set"

definition cached_result_new :: "query_result \<Rightarrow> lsn \<Rightarrow> page_id set \<Rightarrow> cached_result" where
  "cached_result_new r l ps =
     \<lparr>qr_result = r, qr_result_lsn = l, qr_elapsed = 0, qr_size = query_result_size r, qr_page_dependencies = ps\<rparr>"

definition is_expired :: "cached_result \<Rightarrow> nat \<Rightarrow> bool" where
  "is_expired c ttl = False"

record query_key =
  qk_query_type :: query_type
  qk_parameters_hash :: u64
  qk_snapshot_lsn :: lsn

definition query_key_new :: "query_type \<Rightarrow> u64 \<Rightarrow> lsn \<Rightarrow> query_key" where
  "query_key_new t h l = \<lparr>qk_query_type = t, qk_parameters_hash = h, qk_snapshot_lsn = l\<rparr>"

definition point_get :: "(bytes list \<Rightarrow> u64) \<Rightarrow> bytes \<Rightarrow> lsn \<Rightarrow> query_key" where
  "point_get param_hash key l = query_key_new PointGetQ (param_hash [key]) l"

definition range_scan :: "(bytes list \<Rightarrow> u64) \<Rightarrow> bytes option \<Rightarrow> bytes option \<Rightarrow> lsn \<Rightarrow> query_key" where
  "range_scan param_hash start stop l = query_key_new RangeScanQ (param_hash (map the (filter (\<lambda>x. x \<noteq> None) [start, stop]))) l"

record page_invalidation =
  pi_pages :: "page_id list"
  pi_lsn :: lsn

record query_cache_stats =
  qs_hits :: u64
  qs_misses :: u64
  qs_evictions :: u64
  qs_invalidations :: u64
  qs_expirations :: u64
  qs_current_entries :: nat
  qs_current_size :: nat

definition query_cache_stats_default :: query_cache_stats where
  "query_cache_stats_default = \<lparr>qs_hits = 0, qs_misses = 0, qs_evictions = 0, qs_invalidations = 0, qs_expirations = 0,
     qs_current_entries = 0, qs_current_size = 0\<rparr>"

section \<open>The query cache\<close>

definition QUERY_MAX_BYTES :: nat where "QUERY_MAX_BYTES = 32 * 1024 * 1024"
definition DEFAULT_TTL_SECS :: nat where "DEFAULT_TTL_SECS = 5"

record query_cache =
  qc_cache :: "(query_key, cached_result) cache"
  qc_config :: cache_config
  qc_ttl :: nat
  qc_invalidations :: "page_invalidation list"
  qc_stats :: query_cache_stats

definition query_cache_with_config :: "cache_config \<Rightarrow> query_cache outcome" where
  "query_cache_with_config c =
     and_then (cache_with_config c) (\<lambda>ch.
       Ok \<lparr>qc_cache = ch, qc_config = c,
           qc_ttl = (case cc_ttl_ms c of Some t \<Rightarrow> t | None \<Rightarrow> DEFAULT_TTL_SECS * 1000),
           qc_invalidations = [], qc_stats = query_cache_stats_default\<rparr>)"

definition query_cache_config :: "nat \<Rightarrow> cache_config" where
  "query_cache_config num_cpus = (cache_config_default num_cpus)
     \<lparr>cc_max_size := QUERY_MAX_BYTES, cc_max_entries := QUERY_MAX_BYTES div 1024, cc_policy := Lru,
      cc_ttl_ms := Some (DEFAULT_TTL_SECS * 1000)\<rparr>"

definition query_cache_new :: "nat \<Rightarrow> query_cache outcome" where
  "query_cache_new num_cpus = query_cache_with_config (query_cache_config num_cpus)"

definition count_miss :: "query_cache_stats \<Rightarrow> query_cache_stats" where
  "count_miss t = t\<lparr>qs_misses := qs_misses t + 1\<rparr>"

definition qc_get :: "(query_key \<Rightarrow> nat) \<Rightarrow> query_cache \<Rightarrow> query_key \<Rightarrow> lsn \<Rightarrow> (query_result option \<times> query_cache) option" where
  "qc_get hash c key snapshot_lsn =
     (case cache_get hash (qc_cache c) key of
        None \<Rightarrow> None
      | Some (None, ch) \<Rightarrow> Some (None, c\<lparr>qc_cache := ch, qc_stats := count_miss (qc_stats c)\<rparr>)
      | Some (Some r, ch) \<Rightarrow>
          Some (if is_expired r (qc_ttl c) then
                  (None, c\<lparr>qc_cache := snd (cache_invalidate hash ch key),
                    qc_stats := count_miss ((qc_stats c)\<lparr>qs_expirations := qs_expirations (qc_stats c) + 1\<rparr>)\<rparr>)
                else if snapshot_lsn < qr_result_lsn r then
                  (None, c\<lparr>qc_cache := ch, qc_stats := count_miss (qc_stats c)\<rparr>)
                else
                  (Some (qr_result r), c\<lparr>qc_cache := ch, qc_stats := (qc_stats c)\<lparr>qs_hits := qs_hits (qc_stats c) + 1\<rparr>\<rparr>)))"

definition total_entries :: "('k, 'v) cache \<Rightarrow> nat" where
  "total_entries c = sum_list (map (\<lambda>s. st_current_entries (cs_stats s)) (ch_shards c))"

definition total_size :: "('k, 'v) cache \<Rightarrow> nat" where
  "total_size c = sum_list (map (\<lambda>s. st_current_size (cs_stats s)) (ch_shards c))"

definition refresh_stats :: "query_cache \<Rightarrow> query_cache" where
  "refresh_stats c = c\<lparr>qc_stats := (qc_stats c)\<lparr>qs_current_entries := total_entries (qc_cache c),
     qs_current_size := total_size (qc_cache c)\<rparr>\<rparr>"

definition qc_put :: "(query_key \<Rightarrow> nat) \<Rightarrow> (query_key list \<Rightarrow> query_key list) \<Rightarrow> query_cache \<Rightarrow> query_key \<Rightarrow> query_result \<Rightarrow>
    lsn \<Rightarrow> page_id set \<Rightarrow> (cache_error, unit) res \<times> query_cache" where
  "qc_put hash ord c key r l ps =
     (let cached = cached_result_new r l ps in
      if cc_max_size (qc_config c) < qr_size cached then
        (Err (EntryTooLarge (qr_size cached) (cc_max_size (qc_config c))), c)
      else case cache_put hash ord (qc_cache c) key cached (qr_size cached) of
        (Ok _, ch) \<Rightarrow> (Ok (), refresh_stats (c\<lparr>qc_cache := ch\<rparr>))
      | (x, ch) \<Rightarrow> (x, c\<lparr>qc_cache := ch\<rparr>))"

text \<open>\<open>cache_invalidate\<close> removes nothing: the count it adds is the constant 0.\<close>

definition qc_invalidate :: "query_cache \<Rightarrow> page_id list \<Rightarrow> nat \<times> query_cache" where
  "qc_invalidate c ps = (0, refresh_stats (c\<lparr>qc_stats := (qc_stats c)\<lparr>qs_invalidations := qs_invalidations (qc_stats c) + 0\<rparr>\<rparr>))"

definition send_invalidation :: "query_cache \<Rightarrow> page_invalidation \<Rightarrow> query_cache" where
  "send_invalidation c m = c\<lparr>qc_invalidations := qc_invalidations c @ [m]\<rparr>"

definition qc_get_stats :: "query_cache \<Rightarrow> query_cache_stats \<times> query_cache" where
  "qc_get_stats c = (let c' = refresh_stats c in (qc_stats c', c'))"

definition qc_clear :: "query_cache \<Rightarrow> query_cache" where
  "qc_clear c = c\<lparr>qc_cache := snd (cache_clear (qc_cache c)),
     qc_stats := (qc_stats c)\<lparr>qs_current_entries := 0, qs_current_size := 0\<rparr>\<rparr>"

text \<open>One message of \<open>invalidation_loop\<close>: only a counter changes.\<close>

definition invalidation_step :: "query_cache \<Rightarrow> query_cache" where
  "invalidation_step c =
     (case qc_invalidations c of
        [] \<Rightarrow> c
      | m # ms \<Rightarrow> c\<lparr>qc_invalidations := ms,
          qc_stats := (qc_stats c)\<lparr>qs_invalidations := qs_invalidations (qc_stats c) + word_of_nat (length (pi_pages m))\<rparr>\<rparr>)"

text \<open>\<open>Clone\<close> makes a new cache and shares only the channel and the statistics.\<close>

definition query_cache_clone :: "query_cache \<Rightarrow> query_cache outcome" where
  "query_cache_clone c = and_then (cache_with_config (qc_config c)) (\<lambda>ch. Ok (c\<lparr>qc_cache := ch\<rparr>))"

text \<open>What an operation on a clone changes in the cache it was cloned from.\<close>

definition share_back :: "query_cache \<Rightarrow> query_cache \<Rightarrow> query_cache" where
  "share_back c cl = c\<lparr>qc_invalidations := qc_invalidations cl, qc_stats := qc_stats cl\<rparr>"

section \<open>The node cache\<close>

definition NODE_MAX_BYTES :: nat where "NODE_MAX_BYTES = 64 * 1024 * 1024"

record node_key =
  nk_page_id :: page_id
  nk_lsn :: lsn

definition node_key_new :: "page_id \<Rightarrow> lsn \<Rightarrow> node_key" where
  "node_key_new p l = \<lparr>nk_page_id = p, nk_lsn = l\<rparr>"

record node_cache =
  nc_cache :: "(node_key, node) cache"
  nc_config :: cache_config
  nc_page_versions :: "(page_id \<times> node_key list) list"

definition node_cache_with_config :: "cache_config \<Rightarrow> node_cache outcome" where
  "node_cache_with_config c =
     and_then (cache_with_config c) (\<lambda>ch. Ok \<lparr>nc_cache = ch, nc_config = c, nc_page_versions = []\<rparr>)"

definition node_cache_config :: "nat \<Rightarrow> cache_config" where
  "node_cache_config num_cpus = (cache_config_default num_cpus)
     \<lparr>cc_max_size := NODE_MAX_BYTES, cc_max_entries := NODE_MAX_BYTES div 4096, cc_policy := ArcPolicy\<rparr>"

definition node_cache_new :: "nat \<Rightarrow> node_cache outcome" where
  "node_cache_new num_cpus = node_cache_with_config (node_cache_config num_cpus)"

definition nc_get :: "(node_key \<Rightarrow> nat) \<Rightarrow> node_cache \<Rightarrow> page_id \<Rightarrow> lsn \<Rightarrow> (node option \<times> node_cache) option" where
  "nc_get hash c p l = map_option (\<lambda>(v, ch). (v, c\<lparr>nc_cache := ch\<rparr>)) (cache_get hash (nc_cache c) (node_key_new p l))"

text \<open>\<open>size_of::<Node>()\<close> is the parameter \<open>base\<close>.\<close>

fun estimate_node_size :: "nat \<Rightarrow> node \<Rightarrow> nat" where
  "estimate_node_size base (InternalN n) = base + sum_list (map length (in_separators n)) + length (in_children n) * 8"
| "estimate_node_size base (LeafN n) = base + sum_list (map (\<lambda>en. length (en_key en) + length (en_value en)) (lf_entries n))"

definition page_versions_of :: "node_cache \<Rightarrow> page_id \<Rightarrow> node_key list" where
  "page_versions_of c p = (case map_of (nc_page_versions c) p of Some ks \<Rightarrow> ks | None \<Rightarrow> [])"

definition nc_put :: "nat \<Rightarrow> (node_key \<Rightarrow> nat) \<Rightarrow> (node_key list \<Rightarrow> node_key list) \<Rightarrow> node_cache \<Rightarrow> page_id \<Rightarrow> lsn \<Rightarrow> node \<Rightarrow>
    (cache_error, unit) res \<times> node_cache" where
  "nc_put base hash ord c p l nd =
     (let key = node_key_new p l in
      case cache_put hash ord (nc_cache c) key nd (estimate_node_size base nd) of
        (Ok _, ch) \<Rightarrow>
          (Ok (), c\<lparr>nc_cache := ch, nc_page_versions := AList.update p (List.insert key (page_versions_of c p)) (nc_page_versions c)\<rparr>)
      | (x, ch) \<Rightarrow> (x, c\<lparr>nc_cache := ch\<rparr>))"

definition nc_invalidate :: "(node_key \<Rightarrow> nat) \<Rightarrow> node_cache \<Rightarrow> page_id \<Rightarrow> nat \<times> node_cache" where
  "nc_invalidate hash c p =
     (length (page_versions_of c p),
      c\<lparr>nc_page_versions := AList.delete p (nc_page_versions c),
        nc_cache := foldl (\<lambda>ch k. snd (cache_invalidate hash ch k)) (nc_cache c) (page_versions_of c p)\<rparr>)"

definition nc_pin :: "(node_key \<Rightarrow> nat) \<Rightarrow> node_cache \<Rightarrow> page_id \<Rightarrow> lsn \<Rightarrow> bool \<times> node_cache" where
  "nc_pin hash c p l = (let (b, ch) = cache_pin hash (nc_cache c) (node_key_new p l) in (b, c\<lparr>nc_cache := ch\<rparr>))"

definition nc_unpin :: "(node_key \<Rightarrow> nat) \<Rightarrow> node_cache \<Rightarrow> page_id \<Rightarrow> lsn \<Rightarrow> bool \<times> node_cache" where
  "nc_unpin hash c p l = (let (b, ch) = cache_unpin hash (nc_cache c) (node_key_new p l) in (b, c\<lparr>nc_cache := ch\<rparr>))"

definition nc_clear :: "node_cache \<Rightarrow> clear_result \<times> node_cache" where
  "nc_clear c = (let (r, ch) = cache_clear (nc_cache c) in (r, c\<lparr>nc_cache := ch, nc_page_versions := []\<rparr>))"

definition version_count :: "node_cache \<Rightarrow> page_id \<Rightarrow> nat" where
  "version_count c p = length (page_versions_of c p)"

definition node_cache_clone :: "node_cache \<Rightarrow> node_cache outcome" where
  "node_cache_clone c = and_then (cache_with_config (nc_config c)) (\<lambda>ch. Ok (c\<lparr>nc_cache := ch\<rparr>))"

section \<open>A clone of a query cache never hits\<close>

lemma power_of_two_pos: "usize_is_power_of_two n \<Longrightarrow> 0 < n"
  by (auto simp: usize_is_power_of_two_def)

lemma cache_with_config_Ok:
  "cache_with_config c = Ok ch \<longleftrightarrow> cache_config_validate c = Ok () \<and>
     ch = \<lparr>ch_shards = map (shard_new (cc_policy c) c) [0..<cc_shard_count c], ch_config = c\<rparr>"
  by (auto simp: cache_with_config_def split: res.splits)

lemma validate_shards: "cache_config_validate c = Ok () \<Longrightarrow> 0 < cc_shard_count c"
  by (auto simp: cache_config_validate_def dest: power_of_two_pos split: if_splits)

lemma set_key_shard [simp]: "set_shard hash c k (key_shard hash c k) = c"
  by (simp add: set_shard_def key_shard_def)

lemma fresh_cache_get:
  assumes "cache_with_config c = Ok ch"
  shows "cache_get hash ch k = Some (None, ch)"
proof -
  have "ch_shards ch \<noteq> []" using assms validate_shards by (auto simp: cache_with_config_Ok)
  then have "key_shard hash ch k \<in> set (ch_shards ch)" by (rule key_shard_mem)
  then have "cs_entries (key_shard hash ch k) = []" using assms by (auto simp: cache_with_config_Ok shard_new_def)
  then show ?thesis by (simp add: cache_get_def shard_get_def)
qed

lemma clone_misses:
  assumes "query_cache_clone c = Ok cl"
  shows "qc_get hash cl key l = Some (None, cl\<lparr>qc_stats := count_miss (qc_stats c)\<rparr>)"
  using assms by (auto simp: query_cache_clone_def qc_get_def fresh_cache_get)

lemma clone_total:
  "query_cache_with_config cfg = Ok c \<Longrightarrow> \<exists>cl. query_cache_clone c = Ok cl"
  by (auto simp: query_cache_with_config_def query_cache_clone_def)

text \<open>Storing into a clone changes only its own cache and the shared statistics.\<close>

lemma qc_put_shared:
  "qc_put hash ord c key r l ps = (x, c') \<Longrightarrow>
     qc_config c' = qc_config c \<and> qc_ttl c' = qc_ttl c \<and> qc_invalidations c' = qc_invalidations c"
  by (auto simp: qc_put_def Let_def refresh_stats_def split: if_splits prod.splits res.splits)

end
