(* ===== verification/Db.thy ===== *)
theory Db
  imports Snap Query_Cache Wal
begin

text \<open>
  \<^verbatim>\<open>db/mod.rs\<close>, \<^verbatim>\<open>db/config.rs\<close>, \<^verbatim>\<open>txn/write_txn.rs\<close> and \<^verbatim>\<open>txn/read_txn.rs\<close>: the public database handle and
  its transactions, over the snapshot registry, the log and the query cache. Every method takes the lock of
  the handle for the time of the call, so calls are the steps of the model; a poisoned lock is not modelled.
  An operation on a tree may not return (\<open>None\<close>), see the theory \<open>Btree\<close>. The contents of the database
  file and of the log when the handle is opened are arguments. Console output is left out.

  The record \<open>db_env\<close> adds to \<open>env\<close> the standard hasher on query keys and on query parameters, and the
  iteration order of the maps of the query cache.
\<close>

section \<open>config.rs\<close>

record db_config =
  dc_enable_wal :: bool
  dc_cache_size_pages :: nat
  dc_sync_on_commit :: bool
  dc_auto_checkpoint_interval_bytes :: u64

definition db_config_default :: db_config where
  "db_config_default = \<lparr>dc_enable_wal = True, dc_cache_size_pages = 1000, dc_sync_on_commit = True,
     dc_auto_checkpoint_interval_bytes = 0\<rparr>"

definition build_enable_wal :: "bool \<Rightarrow> db_config \<Rightarrow> db_config" where
  "build_enable_wal b c = c\<lparr>dc_enable_wal := b\<rparr>"

definition build_cache_size_pages :: "nat \<Rightarrow> db_config \<Rightarrow> db_config" where
  "build_cache_size_pages n c = c\<lparr>dc_cache_size_pages := n\<rparr>"

definition build_sync_on_commit :: "bool \<Rightarrow> db_config \<Rightarrow> db_config" where
  "build_sync_on_commit b c = c\<lparr>dc_sync_on_commit := b\<rparr>"

definition build_auto_checkpoint_interval_bytes :: "u64 \<Rightarrow> db_config \<Rightarrow> db_config" where
  "build_auto_checkpoint_interval_bytes n c = c\<lparr>dc_auto_checkpoint_interval_bytes := n\<rparr>"

section \<open>The handle\<close>

record db_env =
  de_env :: env
  de_query_hash :: "query_key \<Rightarrow> nat"
  de_query_ord :: "query_key list \<Rightarrow> query_key list"
  de_param_hash :: "bytes list \<Rightarrow> u64"

record db =
  db_registry :: snap_registry
  db_wal :: "wal option"
  db_path :: "string option"
  db_is_closed :: bool
  db_current_txn_id :: txn_id
  db_config :: db_config
  db_query_cache :: query_cache

text \<open>\<open>data\<close> and \<open>wal_data\<close> are the files at the path and at the path of the log, if they exist.\<close>

definition db_open_with_config :: "db_env \<Rightarrow> string \<Rightarrow> db_config \<Rightarrow> bytes option \<Rightarrow> bytes option \<Rightarrow> db outcome" where
  "db_open_with_config de path config data wal_data =
     and_then (case data of Some d \<Rightarrow> cg_open_file (de_env de) d | None \<Rightarrow> cg_create_file (de_env de) []) (\<lambda>g.
     and_then (if dc_enable_wal config then
                 (case (data, wal_data) of
                    (Some _, Some l) \<Rightarrow> and_then (wal_open (env_crc (de_env de)) l) (\<lambda>w. Ok (Some w))
                  | _ \<Rightarrow> Ok (Some wal_create))
               else Ok None) (\<lambda>w.
     and_then (query_cache_new (env_num_cpus (de_env de))) (\<lambda>qc.
     Ok \<lparr>db_registry = registry_with_txn_id g (pager_root_page_id (cg_pager g)) (pager_committed_txn_id (cg_pager g)),
         db_wal = w, db_path = Some path, db_is_closed = False,
         db_current_txn_id = pager_committed_txn_id (cg_pager g), db_config = config, db_query_cache = qc\<rparr>)))"

definition db_open :: "db_env \<Rightarrow> string \<Rightarrow> bytes option \<Rightarrow> bytes option \<Rightarrow> db outcome" where
  "db_open de path data wal_data = db_open_with_config de path db_config_default data wal_data"

definition db_memory :: "db_env \<Rightarrow> db outcome" where
  "db_memory de =
     and_then (cg_create_memory (de_env de)) (\<lambda>g.
     and_then (query_cache_new (env_num_cpus (de_env de))) (\<lambda>qc.
     Ok \<lparr>db_registry = registry_with_genesis g (pager_root_page_id (cg_pager g)), db_wal = None, db_path = None,
         db_is_closed = False, db_current_txn_id = pager_committed_txn_id (cg_pager g),
         db_config = db_config_default, db_query_cache = qc\<rparr>))"

definition closed_error :: error where
  "closed_error = Transaction DatabaseClosed"

definition on_registry_data :: "(registry_data, 'a) proc \<Rightarrow> (db, 'a) proc" where
  "on_registry_data m d =
     (case m (sr_data (db_registry d)) of (x, rd) \<Rightarrow> (x, d\<lparr>db_registry := (db_registry d)\<lparr>sr_data := rd\<rparr>\<rparr>))"

definition on_registry :: "(snap_registry, 'a) proc \<Rightarrow> (db, 'a) proc" where
  "on_registry m d = (case m (db_registry d) of (x, r) \<Rightarrow> (x, d\<lparr>db_registry := r\<rparr>))"

record read_txn =
  rt_txn_id :: txn_id
  rt_root_page_id :: page_id

record write_txn =
  wt_ctx :: txn_context
  wt_original_root_page_id :: "page_id option"

definition read_txn_new :: "txn_id \<Rightarrow> page_id \<Rightarrow> read_txn" where
  "read_txn_new t p = \<lparr>rt_txn_id = t, rt_root_page_id = p\<rparr>"

definition write_txn_new :: "u64 \<Rightarrow> txn_id \<Rightarrow> write_txn" where
  "write_txn_new now t = \<lparr>wt_ctx = context_new now t, wt_original_root_page_id = None\<rparr>"

definition db_snapshot :: "(db, snapshot) proc" where
  "db_snapshot d = (if db_is_closed d then (Err closed_error, d) else on_registry_data take_snapshot d)"

definition db_snapshot_at :: "txn_id \<Rightarrow> (db, snapshot) proc" where
  "db_snapshot_at t d = (if db_is_closed d then (Err closed_error, d) else on_registry_data (take_snapshot_at t) d)"

definition begin_read :: "(db, read_txn) proc" where
  "begin_read d =
     (if db_is_closed d then (Err closed_error, d)
      else then_do (on_registry_data take_snapshot) (\<lambda>s. ret (read_txn_new (sn_txn_id s) (sn_root_page_id s))) d)"

text \<open>The time at which the context is created is the argument \<open>now\<close>.\<close>

definition begin_write :: "u64 \<Rightarrow> (db, write_txn) proc" where
  "begin_write now d =
     (if db_is_closed d then (Err closed_error, d)
      else case txn_next (db_current_txn_id d) of
        None \<Rightarrow> (Err (Transaction (TransactionGeneric ''Transaction ID overflow'')), d)
      | Some t \<Rightarrow> (Ok (write_txn_new now t), d\<lparr>db_current_txn_id := t\<rparr>))"

definition db_close :: "(db, unit) proc" where
  "db_close d =
     (if db_is_closed d then (Ok (), d)
      else then_do (on_registry registry_close) (\<lambda>_. (\<lambda>d. (Ok (), d\<lparr>db_is_closed := True\<rparr>)))
             (d\<lparr>db_wal := map_option wal_close (db_wal d)\<rparr>))"

definition db_sync :: "(db, unit) proc" where
  "db_sync d = (if db_is_closed d then (Err closed_error, d) else (storage_sync (cg_storage (sr_pager (db_registry d))), d))"

definition get_snapshot_root :: "db \<Rightarrow> txn_id \<Rightarrow> page_id option" where
  "get_snapshot_root d t = rd_get_root (sr_data (db_registry d)) t"

record db_stats =
  ds_path :: "string option"
  ds_current_txn_id :: u64
  ds_is_in_memory :: bool
  ds_wal_enabled :: bool
  ds_snapshot_stats :: snapshot_stats
  ds_query_cache_stats :: query_cache_stats

definition db_get_stats :: "db \<Rightarrow> db_stats \<times> db" where
  "db_get_stats d =
     (let (qs, qc) = qc_get_stats (db_query_cache d) in
      (\<lparr>ds_path = db_path d, ds_current_txn_id = db_current_txn_id d, ds_is_in_memory = (db_path d = None),
        ds_wal_enabled = (db_wal d \<noteq> None), ds_snapshot_stats = registry_get_stats (sr_data (db_registry d)),
        ds_query_cache_stats = qs\<rparr>, d\<lparr>db_query_cache := qc\<rparr>))"

text \<open>The snapshot is registered in memory before the meta page is written; a failed write leaves it registered.\<close>

definition db_register_snapshot :: "db_env \<Rightarrow> txn_id \<Rightarrow> page_id \<Rightarrow> (db, unit) proc" where
  "db_register_snapshot de t p =
     then_do (on_registry_data (register_snapshot t p)) (\<lambda>_. on_registry (registry_commit_transaction (de_env de) t p))"

definition db_apply_mutations :: "db_env \<Rightarrow> (btree \<Rightarrow> (unit outcome \<times> btree) option) \<Rightarrow> db \<Rightarrow> (page_id outcome \<times> db) option" where
  "db_apply_mutations de f d = map_option (\<lambda>(x, r). (x, d\<lparr>db_registry := r\<rparr>)) (apply_mutations (de_env de) f (db_registry d))"

definition db_with_btree :: "db_env \<Rightarrow> page_id \<Rightarrow> (btree \<Rightarrow> ('a outcome \<times> btree) option) \<Rightarrow> db \<Rightarrow> ('a outcome \<times> db) option" where
  "db_with_btree de root f d = map_option (\<lambda>(x, r). (x, d\<lparr>db_registry := r\<rparr>)) (with_btree (de_env de) root f (db_registry d))"

text \<open>An operation on \<open>Db::query_cache()\<close>, which is a clone.\<close>

definition on_query_cache :: "(query_cache \<Rightarrow> ('a \<times> query_cache) option) \<Rightarrow> db \<Rightarrow> ('a outcome \<times> db) option" where
  "on_query_cache f d =
     (case query_cache_clone (db_query_cache d) of
        Ok cl \<Rightarrow> map_option (\<lambda>(a, cl'). (Ok a, d\<lparr>db_query_cache := share_back (db_query_cache d) cl'\<rparr>)) (f cl)
      | Err x \<Rightarrow> Some (Err x, d)
      | Panic \<Rightarrow> Some (Panic, d))"

section \<open>write_txn.rs\<close>

definition wtxn_get :: "db_env \<Rightarrow> write_txn \<Rightarrow> bytes \<Rightarrow> db \<Rightarrow> (bytes option outcome \<times> db) option" where
  "wtxn_get de w key d =
     (case find_mutation (wt_ctx w) key of
        Some m \<Rightarrow> Some (Ok (get_value m), d)
      | None \<Rightarrow>
          let root = (case get_snapshot_root d (db_current_txn_id d) of Some p \<Rightarrow> p | None \<Rightarrow> FIRST_DATA)
          in db_with_btree de root (btree_get (de_env de) key (db_current_txn_id d)) d)"

definition wtxn_put :: "write_txn \<Rightarrow> bytes \<Rightarrow> bytes \<Rightarrow> write_txn outcome" where
  "wtxn_put w key val = and_then (context_put (wt_ctx w) key val) (\<lambda>c. Ok (w\<lparr>wt_ctx := c\<rparr>))"

definition wtxn_delete :: "write_txn \<Rightarrow> bytes \<Rightarrow> write_txn outcome" where
  "wtxn_delete w key = and_then (context_delete (wt_ctx w) key) (\<lambda>c. Ok (w\<lparr>wt_ctx := c\<rparr>))"

fun to_wal_mutation :: "mutation \<Rightarrow> wal_mutation" where
  "to_wal_mutation (Put k v) = WalPut k v"
| "to_wal_mutation (Delete k) = WalDelete k"

text \<open>The closure that \<open>prepare\<close> runs on the log.\<close>

definition log_mutations :: "db_env \<Rightarrow> txn_context \<Rightarrow> (db, unit) proc" where
  "log_mutations de c d =
     (case db_wal d of
        None \<Rightarrow> (Ok (), d)
      | Some w \<Rightarrow>
          (case append_commit_record (env_crc (de_env de)) w
                  (wal_commit_record_new (tc_txn_id c) 0 (map to_wal_mutation (tc_mutations c))) of
             Ok (w', _) \<Rightarrow> (Ok (), d\<lparr>db_wal := Some (if wl_sync_needed w' then wal_sync w' else w')\<rparr>)
           | Err x \<Rightarrow> (Err x, d)
           | Panic \<Rightarrow> (Panic, d)))"

definition wtxn_prepare :: "db_env \<Rightarrow> write_txn \<Rightarrow> db \<Rightarrow> unit outcome \<times> write_txn \<times> db" where
  "wtxn_prepare de w d =
     (if \<not> has_mutations (wt_ctx w) then (Ok (), w, d)
      else
        let w1 = w\<lparr>wt_original_root_page_id := get_snapshot_root d (db_current_txn_id d)\<rparr> in
        case context_transition transition_to_preparing (wt_ctx w1) of
          Ok c \<Rightarrow> (case log_mutations de c d of (x, d') \<Rightarrow> (x, w1\<lparr>wt_ctx := c\<rparr>, d'))
        | Err x \<Rightarrow> (Err x, w1, d)
        | Panic \<Rightarrow> (Panic, w1, d))"

fun apply_each :: "env \<Rightarrow> lsn \<Rightarrow> mutation list \<Rightarrow> btree \<Rightarrow> (unit outcome \<times> btree) option" where
  "apply_each e l [] b = Some (Ok (), b)"
| "apply_each e l (m # ms) b =
     (case (case m of Put k v \<Rightarrow> btree_put e k v l b | Delete k \<Rightarrow> btree_delete e k l b) of
        Some (Ok _, b') \<Rightarrow> apply_each e l ms b'
      | x \<Rightarrow> x)"

text \<open>From the point where the mutations are taken out of the context.\<close>

definition commit_mutations :: "db_env \<Rightarrow> write_txn \<Rightarrow> db \<Rightarrow> (unit outcome \<times> db) option" where
  "commit_mutations de w d =
     (let t = tc_txn_id (wt_ctx w) in
      case db_apply_mutations de (apply_each (de_env de) t (tc_mutations (wt_ctx w))) d of
        None \<Rightarrow> None
      | Some (Err x, d1) \<Rightarrow> Some (Err x, d1)
      | Some (Panic, d1) \<Rightarrow> Some (Panic, d1)
      | Some (Ok root_id, d1) \<Rightarrow>
          (case db_register_snapshot de t root_id d1 of
             (Ok _, d2) \<Rightarrow>
               (case on_query_cache (\<lambda>c. Some ((), send_invalidation c \<lparr>pi_pages = [root_id], pi_lsn = t\<rparr>)) d2 of
                  Some (Panic, d3) \<Rightarrow> Some (Panic, d3)
                | Some (_, d3) \<Rightarrow>
                    Some (and_then (context_transition transition_to_committed ((wt_ctx w)\<lparr>tc_mutations := []\<rparr>)) (\<lambda>_. Ok ()), d3)
                | None \<Rightarrow> None)
           | (x, d2) \<Rightarrow> Some (x, d2)))"

definition wtxn_commit :: "db_env \<Rightarrow> write_txn \<Rightarrow> db \<Rightarrow> (unit outcome \<times> db) option" where
  "wtxn_commit de w d =
     (case (if tc_state (wt_ctx w) = Preparing then (Ok (), w, d) else wtxn_prepare de w d) of
        (Ok _, w1, d1) \<Rightarrow>
          if \<not> has_mutations (wt_ctx w1) then
            Some (and_then (context_transition transition_to_committed (wt_ctx w1)) (\<lambda>_. Ok ()), d1)
          else commit_mutations de w1 d1
      | (x, w1, d1) \<Rightarrow> Some (x, d1))"

text \<open>\<open>abort\<close> ignores the result of the transition and has no effect on the database.\<close>

definition wtxn_abort :: "write_txn \<Rightarrow> write_txn" where
  "wtxn_abort w = w\<lparr>wt_ctx := context_clear
     (case context_transition transition_to_aborted (wt_ctx w) of Ok c \<Rightarrow> c | _ \<Rightarrow> wt_ctx w)\<rparr>"

section \<open>read_txn.rs\<close>

text \<open>Both reads try the query cache, run the query on a miss and store its result; \<open>pick\<close> takes the
  answer out of a cached result and \<open>pack\<close> makes one.\<close>

definition cached_query :: "db_env \<Rightarrow> query_key \<Rightarrow> lsn \<Rightarrow> (query_result \<Rightarrow> 'a) \<Rightarrow> ('a \<Rightarrow> query_result) \<Rightarrow>
    (db \<Rightarrow> (('a \<times> page_id set) outcome \<times> db) option) \<Rightarrow> db \<Rightarrow> ('a outcome \<times> db) option" where
  "cached_query de key l pick pack run d =
     (case on_query_cache (\<lambda>c. qc_get (de_query_hash de) c key l) d of
        None \<Rightarrow> None
      | Some (Panic, d1) \<Rightarrow> Some (Panic, d1)
      | Some (Ok (Some r), d1) \<Rightarrow> Some (Ok (pick r), d1)
      | Some (_, d1) \<Rightarrow>
          (case run d1 of
             Some (Ok (a, ps), d2) \<Rightarrow>
               (case on_query_cache (\<lambda>c. Some (qc_put (de_query_hash de) (de_query_ord de) c key (pack a) l ps)) d2 of
                  None \<Rightarrow> None
                | Some (Panic, d3) \<Rightarrow> Some (Panic, d3)
                | Some (_, d3) \<Rightarrow> Some (Ok a, d3))
           | Some (Err x, d2) \<Rightarrow> Some (Err x, d2)
           | Some (Panic, d2) \<Rightarrow> Some (Panic, d2)
           | None \<Rightarrow> None))"

definition read_txn_get :: "db_env \<Rightarrow> read_txn \<Rightarrow> bytes \<Rightarrow> db \<Rightarrow> (bytes option outcome \<times> db) option" where
  "read_txn_get de t key =
     (let l = rt_txn_id t in
      cached_query de (point_get (de_param_hash de) key l) l
        (\<lambda>r. case r of PointGetR v \<Rightarrow> v | _ \<Rightarrow> None) PointGetR
        (db_with_btree de (rt_root_page_id t) (get_with_pages (de_env de) key l)))"

definition items_of :: "scan_item list \<Rightarrow> (bytes \<times> bytes) list" where
  "items_of = map (\<lambda>it. (si_key it, si_value it))"

definition read_txn_scan :: "db_env \<Rightarrow> read_txn \<Rightarrow> bytes \<Rightarrow> db \<Rightarrow> ((bytes \<times> bytes) list outcome \<times> db) option" where
  "read_txn_scan de t prefix =
     (let l = rt_txn_id t; stop = prefix @ [0xFF] in
      cached_query de (range_scan (de_param_hash de) (Some prefix) (Some stop) l) l
        (\<lambda>r. case r of RangeScanR kvs \<Rightarrow> kvs | _ \<Rightarrow> []) RangeScanR
        (db_with_btree de (rt_root_page_id t) (\<lambda>b. map_option (\<lambda>(x, b'). (and_then x (\<lambda>(items, ps). Ok (items_of items, ps)), b'))
           (scan_with_pages (de_env de) (Some prefix) (Some stop) l b))))"

end
