(* ===== verification/Db_Correct.thy ===== *)
theory Db_Correct
  imports Db
begin

text \<open>
  The database from opening to reading: a transaction that is committed is visible to later read
  transactions and survives reopening the file. The theory follows the tree as long as it is one leaf, the
  state every database is in until the first leaf splits (what happens then is in the theory \<open>Btree_Split\<close>).
\<close>

section \<open>A pager whose tree is one leaf\<close>

text \<open>\<open>leaf_store e s p l n\<close>: page \<open>p\<close> of the pager \<open>s\<close> holds the leaf \<open>l\<close>, which has no neighbours; the
  cache agrees with the storage, a file, holds no meta page and has room for \<open>n\<close> more pages in every shard.\<close>

definition file_based :: "storage \<Rightarrow> bool" where
  "file_based st \<longleftrightarrow> (\<exists>data. st = FileStorage data)"

definition leaf_store :: "env \<Rightarrow> cpager \<Rightarrow> page_id \<Rightarrow> leaf_node \<Rightarrow> nat \<Rightarrow> bool" where
  "leaf_store e s p l n \<longleftrightarrow> cg_inv e s \<and> cg_room n s \<and> addressable p \<and> p \<noteq> META_A \<and> p \<noteq> META_B \<and>
     cg_node s p = Some (LeafN l) \<and> leaf_inv l \<and> node_fits (LeafN l) \<and> lf_prev_leaf l = 0 \<and> lf_next_leaf l = 0 \<and>
     META_A \<notin> cached e s \<and> META_B \<notin> cached e s \<and> file_based (cg_storage s)"

lemma write_keeps_file: "storage_write_page st p d = Ok st' \<Longrightarrow> file_based st \<Longrightarrow> file_based st'"
  by (cases st) (auto simp: file_based_def)

lemma write_btree_node_file:
  "write_btree_node e p nd s = (Ok x, s') \<Longrightarrow> file_based (cg_storage s) \<Longrightarrow> file_based (cg_storage s')"
  by (auto simp: write_btree_node_def cg_write_page_raw_def cg_storage_write_def cg_cache_remove_def cg_cache_put_def set_storage_def
      split: if_splits res.splits prod.splits dest!: then_do_OkD) (rule write_keeps_file)

lemma read_leaf_store:
  assumes "leaf_store e s p l (Suc n)"
  obtains s' where "read_btree_node e p s = (Ok (LeafN l), s')" "cg_pager s' = cg_pager s" "leaf_store e s' p l n"
proof -
  have r: "cg_inv e s" "cg_room (Suc n) s" "addressable p" "cg_node s p = Some (LeafN l)"
    using assms by (simp_all add: leaf_store_def)
  obtain s' where s': "read_btree_node e p s = (Ok (LeafN l), s')" "cg_pager s' = cg_pager s" "cg_inv e s'" "cg_room n s'"
    "cached e s' \<subseteq> insert p (cached e s)" by (rule read_btree_node_spec [OF r], rule that)
  have "leaf_store e s' p l n"
    using assms s'(3-5) cg_node_cong [OF s'(2)] by (auto simp: leaf_store_def s'(2) simp del: node_fits.simps)
  with s'(1,2) show ?thesis by (rule that)
qed

lemma write_leaf_store:
  assumes "leaf_store e s p l (Suc n)" "leaf_inv l'" "node_fits (LeafN l')" "lf_prev_leaf l' = 0" "lf_next_leaf l' = 0"
  obtains s' c where "write_btree_node e p (LeafN l') s = (Ok (), s')" "leaf_store e s' p (checksummed c l') n"
    "pgr_current_meta (cg_pager s') = pgr_current_meta (cg_pager s)"
proof -
  have r: "cg_inv e s" "cg_room (Suc n) s" "addressable p" using assms by (simp_all add: leaf_store_def)
  obtain s' c where s': "write_btree_node e p (LeafN l') s = (Ok (), s')" "cg_inv e s'" "cg_room n s'"
    "cg_node s' p = Some (with_checksum c (LeafN l'))" "cached e s' \<subseteq> insert p (cached e s)"
    "pgr_current_meta (cg_pager s') = pgr_current_meta (cg_pager s)"
    by (rule write_btree_node_spec [OF r assms(3)], rule that)
  have "leaf_store e s' p (checksummed c l') n"
    using assms s'(2-5) write_btree_node_file [OF s'(1)]
    by (auto simp: leaf_store_def checksummed_def [symmetric] simp del: node_fits.simps)
  with s'(1) show ?thesis using s'(6) by (rule that)
qed

lemma descend_leaf_store:
  assumes "leaf_store e s p l (Suc n)"
  obtains s' where "descend e [] key p s = Some (Ok ([(p, LeafN l)], l), s')" "cg_pager s' = cg_pager s" "leaf_store e s' p l n"
proof -
  obtain s' where "read_btree_node e p s = (Ok (LeafN l), s')" "cg_pager s' = cg_pager s" "leaf_store e s' p l n"
    by (rule read_leaf_store [OF assms], rule that)
  then show ?thesis by (intro that [of s']) (subst descend.simps, simp_all)
qed

section \<open>One mutation\<close>

text \<open>The tree operation a mutation stands for, with the entry it stores.\<close>

definition entry_of :: "lsn \<Rightarrow> mutation \<Rightarrow> entry option" where
  "entry_of l m = map_option (\<lambda>v. \<lparr>en_key = get_key m, en_value = v, en_lsn = l\<rparr>) (get_value m)"

definition mutation_need :: "mutation \<Rightarrow> nat" where
  "mutation_need m = (case m of Put k v \<Rightarrow> serialized_size \<lparr>en_key = k, en_value = v, en_lsn = 0\<rparr> | Delete k \<Rightarrow> 0)"

lemma put_leaf_store:
  assumes "leaf_store e (bt_pager b) (bt_root_page_id b) l (n + 3)" "leaf_map l key = None"
    and "length key \<le> MAX_KEY_LENGTH" "length val \<le> INLINE_THRESHOLD"
    and "leaf_used l + serialized_size \<lparr>en_key = key, en_value = val, en_lsn = t\<rparr> \<le> 13043"
  obtains s l' where "btree_put e key val t b = Some (Ok (), b\<lparr>bt_pager := s\<rparr>)" "leaf_store e s (bt_root_page_id b) l' n"
    "leaf_map l' = (leaf_map l)(key \<mapsto> \<lparr>en_key = key, en_value = val, en_lsn = t\<rparr>)"
    "leaf_used l' = leaf_used l + serialized_size \<lparr>en_key = key, en_value = val, en_lsn = t\<rparr>"
    "pgr_current_meta (cg_pager s) = pgr_current_meta (cg_pager (bt_pager b))"
proof -
  let ?en = "\<lparr>en_key = key, en_value = val, en_lsn = t\<rparr>" and ?p = "bt_root_page_id b"
  have inv: "leaf_inv l" "node_fits (LeafN l)" "lf_prev_leaf l = 0" "lf_next_leaf l = 0"
    using assms(1) by (simp_all add: leaf_store_def del: node_fits.simps)
  obtain l' where l': "leaf_update l l' key (Some ?en)" "\<exists>is_update. leaf_insert l ?en = Ok (l', is_update)"
    "insert_into_leaf e l ?en s = (Ok (InsertSuccess, l'), s)" for s
    using insert_into_leaf_spec [OF inv(1,2), of ?en e] assms(3-5)
    by (auto simp: entry_fits_def overflow_consts MAX_KEY_LENGTH_def MAX_INLINE_VALUE_LENGTH_def)
  have "leaf_used l + serialized_size ?en \<le> LEAF_CAPACITY" using assms(5) by (simp add: page_size_defs)
  then have ins: "leaf_insert l ?en = Ok (l', False)" "leaf_inv l'"
    using leaf_insert_new_inv [OF inv(1), of ?en] assms(2) l'(2) by auto
  have ok: "node_fits (LeafN l')" "lf_prev_leaf l' = 0" "lf_next_leaf l' = 0" "leaf_map l' = (leaf_map l)(key \<mapsto> ?en)"
    using l'(1) inv(3,4) by (simp_all add: leaf_update_def del: node_fits.simps)
  have s0: "leaf_store e (bt_pager b) ?p l (Suc (Suc (Suc n)))" using assms(1) by (simp add: numeral_3_eq_3)
  obtain s1 where s1: "read_btree_node e ?p (bt_pager b) = (Ok (LeafN l), s1)" "cg_pager s1 = cg_pager (bt_pager b)"
    "leaf_store e s1 ?p l (Suc (Suc n))" by (rule read_leaf_store [OF s0], rule that)
  obtain s2 where s2: "descend e [] key ?p s1 = Some (Ok ([(?p, LeafN l)], l), s2)" "cg_pager s2 = cg_pager s1"
    "leaf_store e s2 ?p l (Suc n)" by (rule descend_leaf_store [OF s1(3)], rule that)
  define s3 where "s3 = (if lf_entries l = [] then s1 else s2)"
  have "leaf_store e s1 ?p l (Suc n)" using s1(3) by (auto simp: leaf_store_def intro: cg_room_less)
  then have s3: "leaf_store e s3 ?p l (Suc n)" "cg_pager s3 = cg_pager (bt_pager b)" using s1(2) s2 by (simp_all add: s3_def)
  obtain s4 c where s4: "write_btree_node e ?p (LeafN l') s3 = (Ok (), s4)" "leaf_store e s4 ?p (checksummed c l') n"
    "pgr_current_meta (cg_pager s4) = pgr_current_meta (cg_pager s3)"
    by (rule write_leaf_store [OF s3(1) ins(2) ok(1-3)], rule that)
  have "btree_put e key val t b = Some (Ok (), b\<lparr>bt_pager := s4\<rparr>)"
    using s1(1) s2(1) s4(1) l'(3) ins(1) assms(4)
    by (simp add: btree_put_def on_pager_def prepare_entry_value_def should_store_inline_def then_do_def
        put_from_root_def put_at_leaf_def s3_def overflow_consts split: if_splits)
  then show ?thesis
    by (rule that [OF _ s4(2)]) (use ok(4) leaf_insert_used [OF ins(1)] s4(3) s3(2) in simp_all)
qed

lemma sum_list_vec_remove_le: "sum_list (map f (vec_remove i xs)) \<le> (sum_list (map f xs) :: nat)"
proof -
  have "sum_list (map f xs) = sum_list (map f (take i xs)) + sum_list (map f (drop i xs))"
    by (metis append_take_drop_id map_append sum_list_append)
  moreover have "sum_list (map f (drop (Suc i) xs)) \<le> sum_list (map f (drop i xs))"
    by (cases "drop i xs") (auto simp: drop_Suc tl_drop [symmetric])
  ultimately show ?thesis by (simp add: vec_remove_def)
qed

lemma leaf_remove_used: "leaf_remove n k = Ok (n', x) \<Longrightarrow> leaf_used n' \<le> leaf_used n"
  by (auto simp: leaf_remove_def Let_def leaf_used_def sum_list_vec_remove_le split: option.splits if_splits)

lemma delete_leaf_store:
  assumes "leaf_store e (bt_pager b) (bt_root_page_id b) l (n + 3)"
  obtains s l' where "btree_delete e key t b = Some (Ok (), b\<lparr>bt_pager := s\<rparr>)" "leaf_store e s (bt_root_page_id b) l' n"
    "leaf_map l' = (leaf_map l)(key := None)" "leaf_used l' \<le> leaf_used l"
    "pgr_current_meta (cg_pager s) = pgr_current_meta (cg_pager (bt_pager b))"
proof -
  let ?p = "bt_root_page_id b"
  have inv: "leaf_inv l" "node_fits (LeafN l)" "lf_prev_leaf l = 0" "lf_next_leaf l = 0"
    using assms(1) by (simp_all add: leaf_store_def del: node_fits.simps)
  obtain l' where l': "leaf_remove l key = Ok (l', leaf_map l key)" "leaf_update l l' key None" "leaf_inv l'"
    using leaf_remove_leaf_update [OF inv(1,2)] by blast
  have ok: "node_fits (LeafN l')" "lf_prev_leaf l' = 0" "lf_next_leaf l' = 0" "leaf_map l' = (leaf_map l)(key := None)"
    using l'(2) inv(3,4) by (simp_all add: leaf_update_def del: node_fits.simps)
  have s0: "leaf_store e (bt_pager b) ?p l (Suc (Suc n))"
    using assms(1) by (auto simp: leaf_store_def intro: cg_room_less)
  obtain s1 where s1: "descend e [] key ?p (bt_pager b) = Some (Ok ([(?p, LeafN l)], l), s1)" "cg_pager s1 = cg_pager (bt_pager b)"
    "leaf_store e s1 ?p l (Suc n)" by (rule descend_leaf_store [OF s0], rule that)
  obtain s2 c where s2: "write_btree_node e ?p (LeafN l') s1 = (Ok (), s2)" "leaf_store e s2 ?p (checksummed c l') n"
    "pgr_current_meta (cg_pager s2) = pgr_current_meta (cg_pager s1)"
    by (rule write_leaf_store [OF s1(3) l'(3) ok(1-3)], rule that)
  have "\<exists>r. delete_from_leaf l key = Ok (r, l')" using l'(1) by (auto simp: delete_from_leaf_def)
  then have "delete_at_leaf e key [(?p, LeafN l)] l s1 = (Ok (), s2)"
    using s2(1) no_siblings [OF ok(2,3)] by (auto simp: delete_at_leaf_def then_do_def split: delete_result.splits)
  then have "btree_delete e key t b = Some (Ok (), b\<lparr>bt_pager := s2\<rparr>)"
    using s1(1) by (simp add: btree_delete_def on_pager_def)
  then show ?thesis
    by (rule that [OF _ s2(2)]) (use ok(4) leaf_remove_used [OF l'(1)] s2(3) s1(2) in simp_all)
qed

section \<open>The mutations of a transaction\<close>

definition leaf_apply :: "lsn \<Rightarrow> (bytes \<rightharpoonup> entry) \<Rightarrow> mutation \<Rightarrow> (bytes \<rightharpoonup> entry)" where
  "leaf_apply t f m = f(get_key m := entry_of t m)"

text \<open>Mutations the leaf \<open>l\<close> has space for, each key once and puts only of keys it does not hold.\<close>

definition leaf_takes :: "leaf_node \<Rightarrow> mutation list \<Rightarrow> bool" where
  "leaf_takes l ms \<longleftrightarrow> distinct (map get_key ms) \<and> leaf_used l + sum_list (map mutation_need ms) \<le> 13043 \<and>
     (\<forall>m \<in> set ms. length (get_key m) \<le> MAX_KEY_LENGTH \<and>
        (\<forall>v. get_value m = Some v \<longrightarrow> length v \<le> INLINE_THRESHOLD \<and> leaf_map l (get_key m) = None))"

lemma leaf_takes_Cons:
  assumes "leaf_takes l (m # ms)" "leaf_used l' \<le> leaf_used l + mutation_need m" "leaf_map l' = leaf_apply t (leaf_map l) m"
  shows "leaf_takes l' ms"
proof -
  have "get_key m \<notin> get_key ` set ms" using assms(1) by (simp add: leaf_takes_def)
  then have "get_key x \<noteq> get_key m" if "x \<in> set ms" for x using that by (metis image_eqI)
  then have "leaf_map l' (get_key x) = leaf_map l (get_key x)" if "x \<in> set ms" for x
    using assms(3) that by (simp add: leaf_apply_def)
  then show ?thesis using assms(1,2) by (simp add: leaf_takes_def)
qed

lemma apply_leaf_store:
  assumes "leaf_store e (bt_pager b) (bt_root_page_id b) l (n + 3)" "leaf_takes l [m]"
  obtains s l' where
    "(case m of Put k v \<Rightarrow> btree_put e k v t b | Delete k \<Rightarrow> btree_delete e k t b) = Some (Ok (), b\<lparr>bt_pager := s\<rparr>)"
    "leaf_store e s (bt_root_page_id b) l' n" "leaf_map l' = leaf_apply t (leaf_map l) m"
    "leaf_used l' \<le> leaf_used l + mutation_need m" "pgr_current_meta (cg_pager s) = pgr_current_meta (cg_pager (bt_pager b))"
proof (cases m)
  case (Put k v)
  then have c: "leaf_map l k = None" "length k \<le> MAX_KEY_LENGTH" "length v \<le> INLINE_THRESHOLD"
    "leaf_used l + serialized_size \<lparr>en_key = k, en_value = v, en_lsn = t\<rparr> \<le> 13043"
    using assms(2) by (simp_all add: leaf_takes_def mutation_need_def serialized_size_def)
  obtain s l' where s: "btree_put e k v t b = Some (Ok (), b\<lparr>bt_pager := s\<rparr>)" "leaf_store e s (bt_root_page_id b) l' n"
    "leaf_map l' = (leaf_map l)(k \<mapsto> \<lparr>en_key = k, en_value = v, en_lsn = t\<rparr>)"
    "leaf_used l' = leaf_used l + serialized_size \<lparr>en_key = k, en_value = v, en_lsn = t\<rparr>"
    "pgr_current_meta (cg_pager s) = pgr_current_meta (cg_pager (bt_pager b))"
    by (rule put_leaf_store [OF assms(1) c], rule that)
  show ?thesis
    by (rule that [OF _ s(2) _ _ s(5)])
      (use s Put in \<open>simp_all add: leaf_apply_def entry_of_def mutation_need_def serialized_size_def\<close>)
next
  case (Delete k)
  obtain s l' where s: "btree_delete e k t b = Some (Ok (), b\<lparr>bt_pager := s\<rparr>)" "leaf_store e s (bt_root_page_id b) l' n"
    "leaf_map l' = (leaf_map l)(k := None)" "leaf_used l' \<le> leaf_used l"
    "pgr_current_meta (cg_pager s) = pgr_current_meta (cg_pager (bt_pager b))"
    by (rule delete_leaf_store [OF assms(1)], rule that)
  show ?thesis
    by (rule that [OF _ s(2) _ _ s(5)]) (use s Delete in \<open>simp_all add: leaf_apply_def entry_of_def\<close>)
qed

lemma apply_each_leaf_store:
  assumes "leaf_store e (bt_pager b) (bt_root_page_id b) l (n + 3 * length ms)" "leaf_takes l ms"
  shows "\<exists>s l'. apply_each e t ms b = Some (Ok (), b\<lparr>bt_pager := s\<rparr>) \<and> leaf_store e s (bt_root_page_id b) l' n \<and>
    leaf_map l' = foldl (leaf_apply t) (leaf_map l) ms \<and> leaf_used l' \<le> leaf_used l + sum_list (map mutation_need ms) \<and>
    pgr_current_meta (cg_pager s) = pgr_current_meta (cg_pager (bt_pager b))"
  using assms
proof (induction ms arbitrary: b l)
  case Nil
  then show ?case by (intro exI [of _ "bt_pager b"] exI [of _ l]) simp
next
  case (Cons m ms)
  have "leaf_takes l [m]" using Cons.prems(2) by (simp add: leaf_takes_def)
  moreover have "leaf_store e (bt_pager b) (bt_root_page_id b) l (n + 3 * length ms + 3)"
    using Cons.prems(1) by (simp add: algebra_simps)
  ultimately obtain s l' where s:
    "(case m of Put k v \<Rightarrow> btree_put e k v t b | Delete k \<Rightarrow> btree_delete e k t b) = Some (Ok (), b\<lparr>bt_pager := s\<rparr>)"
    "leaf_store e s (bt_root_page_id b) l' (n + 3 * length ms)" "leaf_map l' = leaf_apply t (leaf_map l) m"
    "leaf_used l' \<le> leaf_used l + mutation_need m" "pgr_current_meta (cg_pager s) = pgr_current_meta (cg_pager (bt_pager b))"
    by (metis apply_leaf_store)
  have "leaf_takes l' ms" by (rule leaf_takes_Cons [OF Cons.prems(2) s(4,3)])
  with Cons.IH [of "b\<lparr>bt_pager := s\<rparr>" l'] s show ?case by fastforce
qed

text \<open>What a reader sees of a leaf, and which entries it can read at a snapshot.\<close>

definition leaf_view :: "(bytes \<rightharpoonup> entry) \<Rightarrow> (bytes \<rightharpoonup> bytes)" where
  "leaf_view f k = map_option en_value (f k)"

definition readable_at :: "lsn \<Rightarrow> (bytes \<rightharpoonup> entry) \<Rightarrow> bool" where
  "readable_at t f \<longleftrightarrow> (\<forall>k en. f k = Some en \<longrightarrow> en_lsn en \<le> t \<and> \<not> is_overflow_value en)"

definition plain_value :: "mutation \<Rightarrow> bool" where
  "plain_value m \<longleftrightarrow> (\<forall>en. entry_of 0 m = Some en \<longrightarrow> \<not> is_overflow_value en)"

lemma leaf_view_apply: "leaf_view (leaf_apply t f m) = apply_mutation (leaf_view f) m"
  by (auto simp: leaf_view_def leaf_apply_def entry_of_def apply_mutation_key fun_eq_iff option.map_comp o_def option.map_ident)

lemma leaf_view_foldl: "leaf_view (foldl (leaf_apply t) f ms) = foldl apply_mutation (leaf_view f) ms"
  by (induction ms arbitrary: f) (simp_all add: leaf_view_apply)

lemma readable_foldl:
  "readable_at t0 f \<Longrightarrow> t0 \<le> t \<Longrightarrow> \<forall>m \<in> set ms. plain_value m \<Longrightarrow> readable_at t (foldl (leaf_apply t) f ms)"
proof (induction ms arbitrary: f t0)
  case Nil
  then show ?case by (fastforce simp: readable_at_def)
next
  case (Cons m ms)
  have "readable_at t (leaf_apply t f m)"
    using Cons.prems by (fastforce simp: readable_at_def leaf_apply_def entry_of_def plain_value_def is_overflow_value_def)
  then show ?case using Cons by simp
qed

text \<open>What a reader at a snapshot sees of a leaf, and that its values are not references to overflow chains.\<close>

definition view_at :: "lsn \<Rightarrow> (bytes \<rightharpoonup> entry) \<Rightarrow> (bytes \<rightharpoonup> bytes)" where
  "view_at t f k = (case f k of None \<Rightarrow> None | Some en \<Rightarrow> if en_lsn en \<le> t then Some (en_value en) else None)"

definition plain_map :: "(bytes \<rightharpoonup> entry) \<Rightarrow> bool" where
  "plain_map f \<longleftrightarrow> (\<forall>k en. f k = Some en \<longrightarrow> \<not> is_overflow_value en)"

lemma readable_view: "readable_at t f \<Longrightarrow> plain_map f \<and> view_at t f = leaf_view f"
  by (auto simp: readable_at_def plain_map_def view_at_def leaf_view_def fun_eq_iff split: option.splits)

lemma get_leaf_store:
  assumes "leaf_store e (bt_pager b) (bt_root_page_id b) l (Suc n)" "plain_map (leaf_map l)"
  obtains s where "get_with_pages e key t b = Some (Ok (view_at t (leaf_map l) key, {bt_root_page_id b}), b\<lparr>bt_pager := s\<rparr>)"
    "cg_pager s = cg_pager (bt_pager b)" "leaf_store e s (bt_root_page_id b) l n"
proof -
  obtain s where s: "descend e [] key (bt_root_page_id b) (bt_pager b) = Some (Ok ([(bt_root_page_id b, LeafN l)], l), s)"
    "cg_pager s = cg_pager (bt_pager b)" "leaf_store e s (bt_root_page_id b) l n"
    by (rule descend_leaf_store [OF assms(1)], rule that)
  have "leaf_find l key = leaf_map l key"
    using assms(1) by (intro leaf_find_map) (simp add: leaf_store_def leaf_inv_def leaf_ordered_def)
  then have "read_entry e t (leaf_find l key) s = (Ok (view_at t (leaf_map l) key), s)"
    using assms(2) by (auto simp: read_entry_def view_at_def plain_map_def split: option.splits)
  with s(1) have "get_with_pages e key t b = Some (Ok (view_at t (leaf_map l) key, {bt_root_page_id b}), b\<lparr>bt_pager := s\<rparr>)"
    by (simp add: get_with_pages_def on_pager_def then_do_def)
  then show ?thesis using s(2,3) by (rule that)
qed

text \<open>
  A reader from before a commit: the entries of the commit are too new for it, but what the commit deleted is gone from
  the leaf.
\<close>

lemma view_at_earlier:
  assumes "t0 < t" "distinct (map get_key ms)" "\<forall>m \<in> set ms. get_value m \<noteq> None \<longrightarrow> f (get_key m) = None"
  shows "view_at t0 (foldl (leaf_apply t) f ms) = foldl apply_mutation (view_at t0 f) (filter (\<lambda>m. get_value m = None) ms)"
  using assms(2,3)
proof (induction ms arbitrary: f)
  case (Cons m ms)
  have "get_key m \<notin> get_key ` set ms" using Cons.prems(1) by simp
  then have "get_key x \<noteq> get_key m" if "x \<in> set ms" for x using that by (metis image_eqI)
  then have "\<forall>x \<in> set ms. get_value x \<noteq> None \<longrightarrow> leaf_apply t f m (get_key x) = None"
    using Cons.prems(2) by (simp add: leaf_apply_def)
  then have "view_at t0 (foldl (leaf_apply t) (leaf_apply t f m) ms)
      = foldl apply_mutation (view_at t0 (leaf_apply t f m)) (filter (\<lambda>m. get_value m = None) ms)"
    using Cons by simp
  moreover have "view_at t0 (leaf_apply t f m) = (if get_value m = None then apply_mutation (view_at t0 f) m else view_at t0 f)"
    using Cons.prems(2) assms(1)
    by (auto simp: view_at_def leaf_apply_def entry_of_def apply_mutation_key fun_eq_iff split: option.splits)
  ultimately show ?case by simp
qed simp

section \<open>The meta pages\<close>

lemma commit_transaction_pages:
  obtains g' where "commit_transaction crc g t root = Ok g'"
    "pgr_current_meta g' = update_root_page_id crc (update_committed_txn_id crc (pgr_current_meta g) t) root"
    "storage_read_page (pgr_storage g') META_A PAGE_SIZE = Ok (meta_image crc (pgr_current_meta g'))"
    "storage_read_page (pgr_storage g') META_B PAGE_SIZE = Ok (meta_image crc (pgr_current_meta g'))"
    "\<And>q c. addressable q \<Longrightarrow> q \<noteq> META_A \<Longrightarrow> q \<noteq> META_B \<Longrightarrow> storage_read_page (pgr_storage g) q PAGE_SIZE = Ok c \<Longrightarrow>
       storage_read_page (pgr_storage g') q PAGE_SIZE = Ok c"
    "file_based (pgr_storage g) \<Longrightarrow> file_based (pgr_storage g')"
proof -
  let ?m = "update_root_page_id crc (update_committed_txn_id crc (pgr_current_meta g) t) root"
  let ?img = "meta_image crc ?m"
  have ids: "META_A \<noteq> META_B" by (rule meta_ids_distinct)
  obtain s1 s2 where s: "storage_write_page (pgr_storage g) META_A ?img = Ok s1" "storage_write_page s1 META_B ?img = Ok s2"
    "storage_read_page s2 META_A PAGE_SIZE = Ok ?img" "storage_read_page s2 META_B PAGE_SIZE = Ok ?img"
    "\<And>q c. addressable q \<Longrightarrow> q \<noteq> META_A \<Longrightarrow> q \<noteq> META_B \<Longrightarrow> storage_read_page (pgr_storage g) q PAGE_SIZE = Ok c \<Longrightarrow>
       storage_read_page s2 q PAGE_SIZE = Ok c"
    by (rule backend.write_two [OF meta_pages_addressable ids length_page_to_bytes length_page_to_bytes], rule that)
  have file_kept: "file_based (pgr_storage g) \<Longrightarrow> file_based s2" by (rule write_keeps_file [OF s(2) write_keeps_file [OF s(1)]])
  show ?thesis
    by (rule that [of "g\<lparr>pgr_current_meta := ?m, pgr_storage := s2\<rparr>"])
      (use s file_kept in \<open>simp_all add: commit_transaction_def write_meta_pages_def storage_sync_def Let_def\<close>)
qed

lemma leaf_store_commit:
  assumes "leaf_store e s p l n" "file_based (pgr_storage g)"
    and "\<And>q c. addressable q \<Longrightarrow> q \<noteq> META_A \<Longrightarrow> q \<noteq> META_B \<Longrightarrow> storage_read_page (cg_storage s) q PAGE_SIZE = Ok c \<Longrightarrow>
       storage_read_page (pgr_storage g) q PAGE_SIZE = Ok c"
  shows "leaf_store e (s\<lparr>cg_pager := g\<rparr>) p l n"
proof -
  let ?s = "s\<lparr>cg_pager := g\<rparr>"
  have page: "cg_page ?s q = Some c" if "cg_page s q = Some c" "addressable q" "q \<noteq> META_A" "q \<noteq> META_B" for q c
    using assms(3) that by (simp add: cg_page_def ok_of_Some)
  have lk: "pc_lookup (env_hash e) (cg_cache s) q = Some c \<Longrightarrow> addressable q \<and> q \<noteq> META_A \<and> q \<noteq> META_B \<and> cg_page s q = Some c" for q c
    using assms(1) by (fastforce simp: leaf_store_def cg_inv_def agrees_def cached_def)
  have "cg_inv e ?s"
    using assms(1) lk page by (fastforce simp: leaf_store_def cg_inv_def agrees_def)
  moreover have "cg_node ?s p = Some (LeafN l)"
    using assms(1) page by (auto simp: leaf_store_def cg_node_def split: option.splits)
  ultimately show ?thesis using assms(1,2) by (simp add: leaf_store_def cg_room_def cached_def del: node_fits.simps)
qed

section \<open>The database handle\<close>

text \<open>A database whose latest snapshot is the leaf \<open>l\<close> on page \<open>p\<close>; under \<open>db_leaf\<close> the snapshot can read every
  entry of the leaf.\<close>

definition db_base :: "db_env \<Rightarrow> db \<Rightarrow> page_id \<Rightarrow> leaf_node \<Rightarrow> nat \<Rightarrow> bool" where
  "db_base de d p l n \<longleftrightarrow>
     (let rd = sr_data (db_registry d) in
      \<not> db_is_closed d \<and> leaf_store (de_env de) (sr_pager (db_registry d)) p l n \<and> is_data_page p \<and>
      get_latest_snapshot rd = Some (rd_current_txn_id rd, p) \<and>
      (\<forall>t. has_snapshot rd t \<longrightarrow> t \<le> rd_current_txn_id rd) \<and> rd_current_txn_id rd \<le> db_current_txn_id d \<and>
      (\<exists>cl. query_cache_clone (db_query_cache d) = Ok cl))"

abbreviation latest_txn :: "db \<Rightarrow> txn_id" where
  "latest_txn d \<equiv> rd_current_txn_id (sr_data (db_registry d))"

definition db_leaf :: "db_env \<Rightarrow> db \<Rightarrow> page_id \<Rightarrow> leaf_node \<Rightarrow> nat \<Rightarrow> bool" where
  "db_leaf de d p l n \<longleftrightarrow> db_base de d p l n \<and> readable_at (latest_txn d) (leaf_map l)"

lemma clone_share_back:
  "qc_config cl' = qc_config cl \<Longrightarrow> query_cache_clone c = Ok cl \<Longrightarrow> \<exists>cl2. query_cache_clone (share_back c cl') = Ok cl2"
  by (auto simp: query_cache_clone_def share_back_def)

lemma btree_new_leaf_store:
  assumes "leaf_store e s p l (Suc n)"
  obtains s' b where "btree_new e s p = (Ok b, s')" "bt_pager b = s'" "bt_root_page_id b = p" "cg_pager s' = cg_pager s"
    "leaf_store e s' p l n"
proof -
  obtain s' where s': "read_btree_node e p s = (Ok (LeafN l), s')" "cg_pager s' = cg_pager s" "leaf_store e s' p l n"
    by (rule read_leaf_store [OF assms], rule that)
  have "\<exists>ty. get_node_type (lf_header l) = Some ty" using assms by (auto simp: leaf_store_def)
  then obtain b where "btree_new e s p = (Ok b, s')" "bt_pager b = s'" "bt_root_page_id b = p"
    using s'(1) by (auto simp: btree_new_def Let_def)
  then show ?thesis using that s' by blast
qed

lemma begin_read_leaf:
  assumes "db_leaf de d p l n"
  obtains d' where "begin_read d = (Ok \<lparr>rt_txn_id = latest_txn d, rt_root_page_id = p\<rparr>, d')" "db_leaf de d' p l n"
    "latest_txn d' = latest_txn d" "db_wal d' = db_wal d" "db_current_txn_id d' = db_current_txn_id d"
proof -
  define rd where "rd = sr_data (db_registry d)"
  define rd' where "rd' = snd (increment_ref_count rd (rd_current_txn_id rd))"
  define d' where "d' = d\<lparr>db_registry := (db_registry d)\<lparr>sr_data := rd'\<rparr>\<rparr>"
  have same: "rd_snapshots rd' = rd_snapshots rd" "rd_current_txn_id rd' = rd_current_txn_id rd"
    by (simp_all add: rd'_def increment_ref_count_def Let_def)
  have "take_snapshot rd = (Ok (snapshot_new (rd_current_txn_id rd) p), rd')"
    using assms by (simp add: db_leaf_def db_base_def Let_def rd_def rd'_def take_snapshot_def)
  then have "begin_read d = (Ok \<lparr>rt_txn_id = latest_txn d, rt_root_page_id = p\<rparr>, d')"
    using assms
    by (simp add: begin_read_def db_leaf_def db_base_def Let_def rd_def d'_def on_registry_data_def then_do_def snapshot_new_def read_txn_new_def)
  moreover have "db_leaf de d' p l n"
    using assms same by (simp add: db_leaf_def db_base_def Let_def d'_def rd_def get_latest_snapshot_def has_snapshot_def rd_get_root_def)
  ultimately show ?thesis by (rule that) (simp_all add: d'_def same rd_def)
qed

lemma on_query_cache_Ok:
  assumes "query_cache_clone (db_query_cache d) = Ok cl" "f cl = Some (a, cl')" "qc_config cl' = qc_config cl"
  obtains d' where "on_query_cache f d = Some (Ok a, d')" "db_registry d' = db_registry d" "db_is_closed d' = db_is_closed d"
    "db_current_txn_id d' = db_current_txn_id d" "db_wal d' = db_wal d" "\<exists>cl2. query_cache_clone (db_query_cache d') = Ok cl2"
  by (rule that [of "d\<lparr>db_query_cache := share_back (db_query_cache d) cl'\<rparr>"])
    (use assms clone_share_back [OF assms(3)] in \<open>simp_all add: on_query_cache_def\<close>)

text \<open>A cached query always runs, because the cache it asks is a new clone.\<close>

lemma cached_query_runs:
  assumes "query_cache_clone (db_query_cache d) = Ok cl"
    and run: "\<And>d1. db_registry d1 = db_registry d \<Longrightarrow> \<exists>r. run d1 = Some (Ok (a, ps), d1\<lparr>db_registry := r\<rparr>)"
  shows "\<exists>d'. cached_query de key t pick pack run d = Some (Ok a, d')"
proof -
  have miss: "qc_get (de_query_hash de) cl key t = Some (None, cl\<lparr>qc_stats := count_miss (qc_stats (db_query_cache d))\<rparr>)"
    by (rule clone_misses [OF assms(1)])
  obtain d1 where d1: "on_query_cache (\<lambda>c. qc_get (de_query_hash de) c key t) d = Some (Ok None, d1)" "db_registry d1 = db_registry d"
    "\<exists>cl2. query_cache_clone (db_query_cache d1) = Ok cl2"
    by (rule on_query_cache_Ok [OF assms(1), where f = "\<lambda>c. qc_get (de_query_hash de) c key t", OF miss], simp, rule that)
  obtain r cl2 where r: "run d1 = Some (Ok (a, ps), d1\<lparr>db_registry := r\<rparr>)"
    and cl2: "query_cache_clone (db_query_cache (d1\<lparr>db_registry := r\<rparr>)) = Ok cl2"
    using run [OF d1(2)] d1(3) by auto
  obtain x c' where put: "qc_put (de_query_hash de) (de_query_ord de) cl2 key (pack a) t ps = (x, c')" by force
  obtain d3 where "on_query_cache (\<lambda>c. Some (qc_put (de_query_hash de) (de_query_ord de) c key (pack a) t ps)) (d1\<lparr>db_registry := r\<rparr>)
      = Some (Ok x, d3)"
    using cl2 put by (simp add: on_query_cache_def)
  then show ?thesis using d1(1) r by (simp add: cached_query_def)
qed

lemma read_txn_get_leaf:
  assumes "db_leaf de d p l (Suc (Suc n))"
  shows "\<exists>d'. read_txn_get de \<lparr>rt_txn_id = t, rt_root_page_id = p\<rparr> key d = Some (Ok (view_at t (leaf_map l) key), d')"
proof -
  have plain: "plain_map (leaf_map l)" using assms readable_view by (auto simp: db_leaf_def)
  let ?e = "de_env de" and ?s = "sr_pager (db_registry d)"
  have st: "leaf_store ?e ?s p l (Suc (Suc n))" using assms by (simp add: db_leaf_def db_base_def Let_def)
  obtain s1 b where b: "btree_new ?e ?s p = (Ok b, s1)" "bt_pager b = s1" "bt_root_page_id b = p" "leaf_store ?e s1 p l (Suc n)"
    by (rule btree_new_leaf_store [OF st], rule that)
  have st1: "leaf_store ?e (bt_pager b) (bt_root_page_id b) l (Suc n)" using b by simp
  obtain s2 where s2: "get_with_pages ?e key t b = Some (Ok (view_at t (leaf_map l) key, {bt_root_page_id b}), b\<lparr>bt_pager := s2\<rparr>)"
    by (rule get_leaf_store [OF st1 plain], rule that)
  have run: "\<exists>r. db_with_btree de p (get_with_pages ?e key t) d1 = Some (Ok (view_at t (leaf_map l) key, {p}), d1\<lparr>db_registry := r\<rparr>)"
    if "db_registry d1 = db_registry d" for d1
    using that b s2 by (intro exI [of _ "(db_registry d)\<lparr>sr_pager := s2\<rparr>"]) (simp add: db_with_btree_def with_btree_def on_tree_def)
  obtain cl where "query_cache_clone (db_query_cache d) = Ok cl" using assms by (auto simp: db_leaf_def db_base_def Let_def)
  from cached_query_runs [OF this run] show ?thesis by (simp add: read_txn_get_def Let_def)
qed

text \<open>What every read transaction of a database sees.\<close>

definition db_reads :: "db_env \<Rightarrow> db \<Rightarrow> (bytes \<rightharpoonup> bytes) \<Rightarrow> bool" where
  "db_reads de d f \<longleftrightarrow> (\<forall>key. \<exists>rt d1 d2. begin_read d = (Ok rt, d1) \<and> read_txn_get de rt key d1 = Some (Ok (f key), d2))"

lemma db_leaf_reads:
  assumes "db_leaf de d p l (Suc (Suc n))"
  shows "db_reads de d (leaf_view (leaf_map l))"
proof -
  obtain d' where d': "begin_read d = (Ok \<lparr>rt_txn_id = latest_txn d, rt_root_page_id = p\<rparr>, d')" "db_leaf de d' p l (Suc (Suc n))"
    by (rule begin_read_leaf [OF assms], rule that)
  have "readable_at (latest_txn d) (leaf_map l)" using assms by (simp add: db_leaf_def db_base_def Let_def)
  with readable_view have "view_at (latest_txn d) (leaf_map l) = leaf_view (leaf_map l)" by blast
  with read_txn_get_leaf [OF d'(2), of "latest_txn d"] d'(1) show ?thesis by (auto simp: db_reads_def)
qed

section \<open>Committing\<close>

text \<open>A log that takes one more record.\<close>

definition wal_ready :: "db \<Rightarrow> bool" where
  "wal_ready d \<longleftrightarrow> (\<forall>w. db_wal d = Some w \<longrightarrow> wal_inv w \<and> wl_current_lsn w \<noteq> - 1)"

lemma valid_mutation_fits: "mutation_validate m = Ok () \<Longrightarrow> mutation_fits (to_wal_mutation m)"
  by (cases m) (auto simp: mutation_validate_def mutation_fits_def MAX_KEY_SIZE_def MAX_VALUE_SIZE_def split: if_splits)

lemma log_mutations_Ok:
  assumes "context_inv c" "wal_ready d"
    and "length (payload_image (wal_commit_record_new (tc_txn_id c) 0 (map to_wal_mutation (tc_mutations c)))) < 2 ^ 32"
  obtains w where "log_mutations de c d = (Ok (), d\<lparr>db_wal := w\<rparr>)" "db_wal d = None \<Longrightarrow> w = None"
proof (cases "db_wal d")
  case None
  then show ?thesis by (intro that [of None]) (simp_all add: log_mutations_def)
next
  case (Some w)
  let ?r = "wal_commit_record_new (tc_txn_id c) 0 (map to_wal_mutation (tc_mutations c))"
  have "record_fits ?r"
    using assms(1) valid_mutation_fits
    by (auto simp: record_fits_def wal_commit_record_new_def context_inv_def MAX_OPERATIONS_PER_COMMIT_def)
  then obtain w' l where "append_commit_record (env_crc (de_env de)) w ?r = Ok (w', l)"
    using append_commit [of w ?r "env_crc (de_env de)"] assms(2,3) Some by (auto simp: wal_ready_def)
  then have "\<exists>x. log_mutations de c d = (Ok (), d\<lparr>db_wal := x\<rparr>)"
    using Some by (intro exI [of _ "Some (if wl_sync_needed w' then wal_sync w' else w')"]) (simp add: log_mutations_def)
  then show ?thesis using that Some by (metis option.distinct(1))
qed

lemma prepare_Ok:
  assumes "context_inv c" "wal_ready d" "tc_state c = Active" "tc_mutations c \<noteq> []"
    and "length (payload_image (wal_commit_record_new (tc_txn_id c) 0 (map to_wal_mutation (tc_mutations c)))) < 2 ^ 32"
  obtains w o' where "wtxn_prepare de \<lparr>wt_ctx = c, wt_original_root_page_id = x\<rparr> d =
    (Ok (), \<lparr>wt_ctx = c\<lparr>tc_state := Preparing\<rparr>, wt_original_root_page_id = o'\<rparr>, d\<lparr>db_wal := w\<rparr>)" "db_wal d = None \<Longrightarrow> w = None"
proof -
  let ?c = "c\<lparr>tc_state := Preparing\<rparr>"
  have hm: "has_mutations c" using assms(1,4) by (simp add: has_mutations_def context_inv_def)
  have inv: "context_inv ?c" using assms(1) by (simp add: context_inv_def)
  have small: "length (payload_image (wal_commit_record_new (tc_txn_id ?c) 0 (map to_wal_mutation (tc_mutations ?c)))) < 2 ^ 32"
    using assms(5) by simp
  obtain w where w: "log_mutations de ?c d = (Ok (), d\<lparr>db_wal := w\<rparr>)" "db_wal d = None \<Longrightarrow> w = None"
    by (rule log_mutations_Ok [OF inv assms(2) small], rule that)
  have "context_transition transition_to_preparing c = Ok ?c"
    using assms(3) by (simp add: context_transition_Ok transitions_Ok)
  with w(1) hm show ?thesis
    by (intro that [of "get_snapshot_root d (db_current_txn_id d)" w, OF _ w(2)]) (simp_all add: wtxn_prepare_def Let_def)
qed

lemma takes_payload:
  assumes "leaf_takes l ms" "length ms \<le> 10000"
  shows "length (payload_image (wal_commit_record_new t 0 (map to_wal_mutation ms))) < 2 ^ 32"
proof -
  have "length (op_image (to_wal_mutation m)) \<le> 3000" if "m \<in> set ms" for m
    using assms(1) that by (cases m) (auto simp: leaf_takes_def length_op_image MAX_KEY_LENGTH_def overflow_consts)
  then have "sum_list (map (\<lambda>m. length (op_image (to_wal_mutation m))) ms) \<le> sum_list (map (\<lambda>_. 3000) ms)"
    by (intro sum_list_mono) simp
  also have "\<dots> \<le> 3000 * 10000" using assms(2) by (simp add: sum_list_triv)
  finally show ?thesis
    by (simp add: payload_image_def wal_commit_record_new_def length_concat o_def COMMIT_HEADER_SIZE_def)
qed

lemma apply_mutations_leaf:
  assumes "db_base de d p l (n + 3 * length ms + 1)" "leaf_takes l ms"
  obtains s l' where "db_apply_mutations de (apply_each (de_env de) t ms) d =
      Some (Ok p, d\<lparr>db_registry := (db_registry d)\<lparr>sr_pager := s\<rparr>\<rparr>)"
    "leaf_store (de_env de) s p l' n" "leaf_map l' = foldl (leaf_apply t) (leaf_map l) ms"
    "leaf_used l' \<le> leaf_used l + sum_list (map mutation_need ms)"
    "pgr_current_meta (cg_pager s) = pgr_current_meta (cg_pager (sr_pager (db_registry d)))"
proof -
  let ?e = "de_env de" and ?s = "sr_pager (db_registry d)"
  have st: "leaf_store ?e ?s p l (Suc (n + 3 * length ms))" using assms by (simp add: db_base_def Let_def)
  obtain s1 b where b: "btree_new ?e ?s p = (Ok b, s1)" "bt_pager b = s1" "bt_root_page_id b = p" "cg_pager s1 = cg_pager ?s"
    "leaf_store ?e s1 p l (n + 3 * length ms)" by (rule btree_new_leaf_store [OF st], rule that)
  have "leaf_store ?e (bt_pager b) (bt_root_page_id b) l (n + 3 * length ms)" using b by simp
  from apply_each_leaf_store [OF this assms(2), of t] obtain s l' where s:
    "apply_each ?e t ms b = Some (Ok (), b\<lparr>bt_pager := s\<rparr>)" "leaf_store ?e s p l' n"
    "leaf_map l' = foldl (leaf_apply t) (leaf_map l) ms" "leaf_used l' \<le> leaf_used l + sum_list (map mutation_need ms)"
    "pgr_current_meta (cg_pager s) = pgr_current_meta (cg_pager (bt_pager b))" using b(3) by auto
  have "db_apply_mutations de (apply_each ?e t ms) d = Some (Ok p, d\<lparr>db_registry := (db_registry d)\<lparr>sr_pager := s\<rparr>\<rparr>)"
    using assms(1) b s(1) by (simp add: db_apply_mutations_def apply_mutations_def on_tree_def db_base_def Let_def)
  then show ?thesis using s(2-5) b(2,4) by (intro that [of s l']) simp_all
qed

text \<open>Registering the snapshot of a transaction newer than the latest one: the meta pages are written and
  the registry has a new latest snapshot.\<close>

lemma register_leaf:
  assumes "db_base de d p l n0" "leaf_store (de_env de) s p l' n" "latest_txn d < t" "t \<le> db_current_txn_id d"
    and "readable_at t (leaf_map l')"
  obtains d' g where "db_register_snapshot de t p (d\<lparr>db_registry := (db_registry d)\<lparr>sr_pager := s\<rparr>\<rparr>) = (Ok (), d')"
    "db_leaf de d' p l' n" "latest_txn d' = t" "db_current_txn_id d' = db_current_txn_id d"
    "commit_transaction (env_crc (de_env de)) (cg_pager s) t p = Ok g" "cg_pager (sr_pager (db_registry d')) = g"
proof -
  let ?e = "de_env de" and ?rd = "sr_data (db_registry d)"
  have d: "is_data_page p" "\<not> has_snapshot ?rd t" "\<not> t \<le> rd_current_txn_id ?rd" "\<forall>u. has_snapshot ?rd u \<longrightarrow> u \<le> rd_current_txn_id ?rd"
    "\<exists>cl. query_cache_clone (db_query_cache d) = Ok cl" "\<not> db_is_closed d"
    using assms(1,3) by (auto simp: db_leaf_def db_base_def Let_def)
  define rd where "rd = concurrency_register ?rd t p"
  have reg: "register_snapshot t p ?rd = (Ok (), rd)" using d(1-3) by (simp add: register_snapshot_def rd_def)
  have rd: "get_latest_snapshot rd = Some (t, p)" "rd_current_txn_id rd = t" "\<And>u. has_snapshot rd u \<longleftrightarrow> u = t \<or> has_snapshot ?rd u"
    using assms(3) by (auto simp: rd_def concurrency_register_def register_with_def get_latest_snapshot_def rd_get_root_def
        has_snapshot_def update_conv')
  obtain g where g: "commit_transaction (env_crc ?e) (cg_pager s) t p = Ok g"
    "\<And>q c. addressable q \<Longrightarrow> q \<noteq> META_A \<Longrightarrow> q \<noteq> META_B \<Longrightarrow> storage_read_page (cg_storage s) q PAGE_SIZE = Ok c \<Longrightarrow>
       storage_read_page (pgr_storage g) q PAGE_SIZE = Ok c" "file_based (cg_storage s) \<Longrightarrow> file_based (pgr_storage g)"
    by (rule commit_transaction_pages, rule that)
  have "file_based (pgr_storage g)" by (rule g(3)) (use assms(2) in \<open>simp add: leaf_store_def\<close>)
  then have st: "leaf_store ?e (s\<lparr>cg_pager := g\<rparr>) p l' n" by (rule leaf_store_commit [OF assms(2)]) (rule g(2))
  define d' where "d' = d\<lparr>db_registry := \<lparr>sr_data = rd, sr_pager = s\<lparr>cg_pager := g\<rparr>\<rparr>\<rparr>"
  have "db_register_snapshot de t p (d\<lparr>db_registry := (db_registry d)\<lparr>sr_pager := s\<rparr>\<rparr>) = (Ok (), d')"
    using reg g(1)
    by (simp add: db_register_snapshot_def then_do_def on_registry_data_def on_registry_def registry_commit_transaction_def d'_def)
  moreover have "u \<le> t" if "has_snapshot rd u" for u
    using rd(3) [of u] that d(4) assms(3) by auto
  then have "db_leaf de d' p l' n"
    using d st rd(1,2) assms(4,5) by (simp add: db_leaf_def db_base_def Let_def d'_def)
  ultimately show ?thesis by (rule that [OF _ _ _ _ g(1)]) (simp_all add: d'_def rd(2))
qed

text \<open>The whole commit.\<close>

lemma commit_leaf:
  assumes "db_base de d p l (n + 3 * length (tc_mutations c) + 1)" "wal_ready d"
    and "context_inv c" "tc_state c = Active" "tc_mutations c \<noteq> []" "leaf_takes l (tc_mutations c)"
    and "\<forall>m \<in> set (tc_mutations c). plain_value m" "latest_txn d < tc_txn_id c" "tc_txn_id c \<le> db_current_txn_id d"
    and "readable_at r (leaf_map l)" "r \<le> tc_txn_id c"
  obtains d' l' g and s :: cpager where "wtxn_commit de \<lparr>wt_ctx = c, wt_original_root_page_id = x\<rparr> d = Some (Ok (), d')"
    "db_leaf de d' p l' n" "leaf_map l' = foldl (leaf_apply (tc_txn_id c)) (leaf_map l) (tc_mutations c)"
    "latest_txn d' = tc_txn_id c" "db_current_txn_id d' = db_current_txn_id d"
    "commit_transaction (env_crc (de_env de)) (cg_pager s) (tc_txn_id c) p = Ok g" "cg_pager (sr_pager (db_registry d')) = g"
    "pgr_current_meta (cg_pager s) = pgr_current_meta (cg_pager (sr_pager (db_registry d)))"
proof -
  let ?t = "tc_txn_id c" and ?ms = "tc_mutations c" and ?e = "de_env de"
  have inv: "length ?ms \<le> 10000" "has_mutations c"
    using assms(3,5) by (simp_all add: context_inv_def MAX_OPERATIONS_PER_COMMIT_def has_mutations_def)
  obtain w o' where prep: "wtxn_prepare de \<lparr>wt_ctx = c, wt_original_root_page_id = x\<rparr> d =
      (Ok (), \<lparr>wt_ctx = c\<lparr>tc_state := Preparing\<rparr>, wt_original_root_page_id = o'\<rparr>, d\<lparr>db_wal := w\<rparr>)"
    by (rule prepare_Ok [OF assms(3,2,4,5) takes_payload [OF assms(6) inv(1)]], rule that)
  let ?d = "d\<lparr>db_wal := w\<rparr>"
  have dl: "db_base de ?d p l (n + 3 * length ?ms + 1)" using assms(1) by (simp add: db_base_def Let_def)
  obtain s l' where s: "db_apply_mutations de (apply_each ?e ?t ?ms) ?d = Some (Ok p, ?d\<lparr>db_registry := (db_registry ?d)\<lparr>sr_pager := s\<rparr>\<rparr>)"
    "leaf_store ?e s p l' n" "leaf_map l' = foldl (leaf_apply ?t) (leaf_map l) ?ms"
    "pgr_current_meta (cg_pager s) = pgr_current_meta (cg_pager (sr_pager (db_registry ?d)))"
    by (rule apply_mutations_leaf [OF dl assms(6)], rule that)
  have rdb: "readable_at ?t (leaf_map l')" using readable_foldl [OF assms(10,11,7)] s(3) by simp
  have lt: "latest_txn ?d < ?t" "?t \<le> db_current_txn_id ?d" using assms(8,9) by simp_all
  obtain d2 g where d2: "db_register_snapshot de ?t p (?d\<lparr>db_registry := (db_registry ?d)\<lparr>sr_pager := s\<rparr>\<rparr>) = (Ok (), d2)"
    "db_leaf de d2 p l' n" "latest_txn d2 = ?t" "db_current_txn_id d2 = db_current_txn_id ?d"
    "commit_transaction (env_crc ?e) (cg_pager s) ?t p = Ok g" "cg_pager (sr_pager (db_registry d2)) = g"
    by (rule register_leaf [OF dl s(2) lt rdb], rule that)
  obtain cl where cl: "query_cache_clone (db_query_cache d2) = Ok cl" using d2(2) by (auto simp: db_leaf_def db_base_def Let_def)
  define f where "f = (\<lambda>q. Some ((), send_invalidation q \<lparr>pi_pages = [p], pi_lsn = ?t\<rparr>))"
  obtain d3 where d3: "on_query_cache f d2 = Some (Ok (), d3)" "db_registry d3 = db_registry d2" "db_is_closed d3 = db_is_closed d2"
    "db_current_txn_id d3 = db_current_txn_id d2" "\<exists>cl2. query_cache_clone (db_query_cache d3) = Ok cl2"
    by (rule on_query_cache_Ok [OF cl, of f "()" "send_invalidation cl \<lparr>pi_pages = [p], pi_lsn = ?t\<rparr>"])
      (simp_all add: f_def send_invalidation_def that)
  have "wtxn_commit de \<lparr>wt_ctx = c, wt_original_root_page_id = x\<rparr> d = Some (Ok (), d3)"
    using prep inv(2) assms(4) s(1) d2(1) d3(1)
    by (simp add: wtxn_commit_def commit_mutations_def Let_def has_mutations_def f_def context_transition_def
        transition_to_committed_def validate_commit_def)
  then show ?thesis
    by (rule that [OF _ _ s(3) _ _ d2(5)]) (use d2 d3 s(4) in \<open>simp_all add: db_leaf_def db_base_def Let_def\<close>)
qed

section \<open>A new database file\<close>

lemma create_file_leaf:
  assumes "usize_is_power_of_two (env_num_cpus e)" "n < 16384"
  obtains s c where "cg_create_file e [] = Ok s" "leaf_store e s FIRST_DATA (checksummed c (leaf_new FIRST_DATA)) n"
    "pgr_current_meta (cg_pager s) = initial_meta (env_crc e)"
proof -
  let ?g = "\<lparr>pgr_storage = FileStorage [], pgr_page_size = word_of_nat PAGE_SIZE,
      pgr_current_meta = initial_meta (env_crc e), pgr_allocator = allocator_new\<rparr>"
  obtain st where st: "write_meta_pages (env_crc e) ?g = Ok (?g\<lparr>pgr_storage := st\<rparr>)"
    by (rule write_meta_pages_spec [of "env_crc e" ?g], rule that)
  have fb: "file_based st"
    using st by (auto simp: write_meta_pages_def Let_def file_based_def)
  obtain c where c: "page_cache_new (env_num_cpus e) = Ok c" using assms(1) by (simp add: page_cache_new_Ok)
  let ?s = "\<lparr>cg_pager = ?g\<lparr>pgr_storage := st\<rparr>, cg_cache = c\<rparr>"
  note spec = page_cache_new_spec(1,3) [OF c] page_cache_new_spec(2) [OF c, of "env_hash e"]
  have s0: "cg_inv e ?s" "cg_room (Suc n) ?s" "cached e ?s = {}"
    using spec assms(2) by (simp_all add: cg_inv_def agrees_def cached_def cg_room_def)
  have two: "addressable FIRST_DATA" "FIRST_DATA \<noteq> META_A" "FIRST_DATA \<noteq> META_B"
    by (simp_all add: addressable_def FIRST_DATA_def META_A_def META_B_def)
  obtain s k where s: "write_btree_node e FIRST_DATA (LeafN (leaf_new FIRST_DATA)) ?s = (Ok (), s)" "cg_inv e s" "cg_room n s"
    "cg_node s FIRST_DATA = Some (with_checksum k (LeafN (leaf_new FIRST_DATA)))"
    "pgr_current_meta (cg_pager s) = pgr_current_meta (cg_pager ?s)" "cached e s \<subseteq> insert FIRST_DATA (cached e ?s)"
    by (rule write_btree_node_spec [OF s0(1,2) two(1) leaf_new_fits], rule that)
  have "cg_create_file e [] = Ok s" using c st s(1) by (simp add: cg_create_file_def storage_sync_def)
  moreover have "lf_prev_leaf (leaf_new FIRST_DATA) = 0" "lf_next_leaf (leaf_new FIRST_DATA) = 0"
    by (simp_all add: leaf_new_def Let_def)
  then have "leaf_store e s FIRST_DATA (checksummed k (leaf_new FIRST_DATA)) n"
    using s two s0(3) leaf_new_inv [of FIRST_DATA] leaf_new_fits [of FIRST_DATA] write_btree_node_file [OF s(1)] fb
    by (auto simp: leaf_store_def checksummed_def [symmetric] simp del: node_fits.simps)
  ultimately show ?thesis using s(5) by (intro that) simp_all
qed

section \<open>Write transactions\<close>

text \<open>The calls of \<open>put\<close> and \<open>delete\<close> that buffer a list of mutations.\<close>

fun buffer_all :: "mutation list \<Rightarrow> write_txn \<Rightarrow> write_txn outcome" where
  "buffer_all [] w = Ok w"
| "buffer_all (m # ms) w =
     and_then (case m of Put k v \<Rightarrow> wtxn_put w k v | Delete k \<Rightarrow> wtxn_delete w k) (buffer_all ms)"

lemma buffer_all_Ok:
  assumes "buffer_all ms w = Ok w'" "context_inv (wt_ctx w)" "tc_state (wt_ctx w) = Active"
  shows "context_inv (wt_ctx w') \<and> tc_state (wt_ctx w') = Active \<and> tc_mutations (wt_ctx w') = tc_mutations (wt_ctx w) @ ms \<and>
    tc_txn_id (wt_ctx w') = tc_txn_id (wt_ctx w)"
  using assms
proof (induction ms arbitrary: w)
  case Nil
  then show ?case by simp
next
  case (Cons m ms)
  then obtain w1 where w1: "(case m of Put k v \<Rightarrow> wtxn_put w k v | Delete k \<Rightarrow> wtxn_delete w k) = Ok w1" "buffer_all ms w1 = Ok w'"
    by (auto simp: and_then_Ok)
  then have "context_inv (wt_ctx w1)" "tc_state (wt_ctx w1) = Active" "tc_mutations (wt_ctx w1) = tc_mutations (wt_ctx w) @ [m]"
    "tc_txn_id (wt_ctx w1) = tc_txn_id (wt_ctx w)"
    using Cons.prems(2,3)
    by (auto simp: wtxn_put_def wtxn_delete_def context_put_Ok context_delete_Ok context_inv_def and_then_Ok split: mutation.splits)
  with Cons.IH [OF w1(2)] show ?case by simp
qed

lemma begin_write_Ok:
  assumes "begin_write now d = (Ok w, d1)"
  shows "d1 = d\<lparr>db_current_txn_id := db_current_txn_id d + 1\<rparr>" "db_current_txn_id d < db_current_txn_id d + 1"
    "w = write_txn_new now (db_current_txn_id d + 1)"
proof -
  have n: "txn_next (db_current_txn_id d) = Some (db_current_txn_id d + 1)" "db_current_txn_id d \<noteq> - 1"
    and w: "w = write_txn_new now (db_current_txn_id d + 1)" "d1 = d\<lparr>db_current_txn_id := db_current_txn_id d + 1\<rparr>"
    using assms by (auto simp: begin_write_def txn_next_def checked_add_one_Some split: if_splits option.splits)
  show "d1 = d\<lparr>db_current_txn_id := db_current_txn_id d + 1\<rparr>" "w = write_txn_new now (db_current_txn_id d + 1)" by fact+
  show "db_current_txn_id d < db_current_txn_id d + 1"
    using n by (auto simp: txn_next_def checked_add_def word_less_nat_alt unat_word_ariths split: if_splits)
qed

lemma txn_commit_leaf:
  assumes "db_base de d p l (n + 3 * length ms + 1)" "wal_ready d" "begin_write now d = (Ok w, d1)" "buffer_all ms w = Ok w'"
    and "ms \<noteq> []" "leaf_takes l ms" "\<forall>m \<in> set ms. plain_value m" "readable_at r (leaf_map l)" "r \<le> db_current_txn_id d"
  obtains d2 l' g and s :: cpager where "wtxn_commit de w' d1 = Some (Ok (), d2)" "db_leaf de d2 p l' n"
    "leaf_view (leaf_map l') = foldl apply_mutation (leaf_view (leaf_map l)) ms" "latest_txn d2 = db_current_txn_id d + 1"
    "commit_transaction (env_crc (de_env de)) (cg_pager s) (db_current_txn_id d + 1) p = Ok g" "cg_pager (sr_pager (db_registry d2)) = g"
    "pgr_current_meta (cg_pager s) = pgr_current_meta (cg_pager (sr_pager (db_registry d)))"
    "leaf_map l' = foldl (leaf_apply (db_current_txn_id d + 1)) (leaf_map l) ms"
proof -
  let ?t = "db_current_txn_id d + 1"
  note bw = begin_write_Ok [OF assms(3)]
  have "context_inv (wt_ctx w)" "tc_state (wt_ctx w) = Active" "tc_mutations (wt_ctx w) = []" "tc_txn_id (wt_ctx w) = ?t"
    using bw(3) context_new_inv by (simp_all add: write_txn_new_def) (simp_all add: context_new_def)
  with buffer_all_Ok [OF assms(4)]
  have c: "context_inv (wt_ctx w')" "tc_state (wt_ctx w') = Active" "tc_mutations (wt_ctx w') = ms" "tc_txn_id (wt_ctx w') = ?t"
    by simp_all
  have d1: "db_base de d1 p l (n + 3 * length (tc_mutations (wt_ctx w')) + 1)" "wal_ready d1" "latest_txn d1 < tc_txn_id (wt_ctx w')"
    "tc_txn_id (wt_ctx w') \<le> db_current_txn_id d1"
    using assms(1,2) bw(1,2) c(3,4) by (auto simp: db_base_def Let_def wal_ready_def)
  have r: "r \<le> tc_txn_id (wt_ctx w')" using assms(9) bw(2) c(4) by simp
  have ms: "tc_mutations (wt_ctx w') \<noteq> []" "leaf_takes l (tc_mutations (wt_ctx w'))" "\<forall>m \<in> set (tc_mutations (wt_ctx w')). plain_value m"
    using assms(5-7) c(3) by simp_all
  have "\<lparr>wt_ctx = wt_ctx w', wt_original_root_page_id = wt_original_root_page_id w'\<rparr> = w'" by simp
  then obtain d2 l' g and s :: cpager where q: "wtxn_commit de w' d1 = Some (Ok (), d2)"
    "db_leaf de d2 p l' n" "leaf_map l' = foldl (leaf_apply (tc_txn_id (wt_ctx w'))) (leaf_map l) (tc_mutations (wt_ctx w'))"
    "latest_txn d2 = tc_txn_id (wt_ctx w')"
    "commit_transaction (env_crc (de_env de)) (cg_pager s) (tc_txn_id (wt_ctx w')) p = Ok g" "cg_pager (sr_pager (db_registry d2)) = g"
    "pgr_current_meta (cg_pager s) = pgr_current_meta (cg_pager (sr_pager (db_registry d1)))"
    using commit_leaf [OF d1(1,2) c(1,2) ms d1(3,4) assms(8) r, of "wt_original_root_page_id w'"] by metis
  have g: "commit_transaction (env_crc (de_env de)) (cg_pager s) ?t p = Ok g" using q(5) c(4) by simp
  show ?thesis
    by (rule that [OF _ q(2) _ _ g q(6)]) (use q(1,3,4,7) c bw(1) in \<open>simp_all add: leaf_view_foldl\<close>)
qed

text \<open>A new database: an empty leaf.\<close>

lemma query_cache_new_clone:
  assumes "usize_is_power_of_two k"
  shows "\<exists>c cl. query_cache_new k = Ok c \<and> query_cache_clone c = Ok cl"
proof -
  have "cache_config_validate (query_cache_config k) = Ok ()"
    using assms by (simp add: cache_config_validate_def query_cache_config_def cache_config_default_def QUERY_MAX_BYTES_def DEFAULT_TTL_SECS_def)
  then have "\<exists>ch :: (query_key, cached_result) cache. cache_with_config (query_cache_config k) = Ok ch"
    by (simp add: cache_with_config_Ok)
  then obtain c where c: "query_cache_new k = Ok c" by (auto simp: query_cache_new_def query_cache_with_config_def)
  then show ?thesis using clone_total [of "query_cache_config k" c] by (simp add: query_cache_new_def)
qed

lemma open_new_leaf:
  assumes "usize_is_power_of_two (env_num_cpus (de_env de))" "n < 16384"
  obtains d c where "db_open_with_config de path cfg None wal_data = Ok d"
    "db_leaf de d FIRST_DATA (checksummed c (leaf_new FIRST_DATA)) n" "wal_ready d" "db_current_txn_id d = 0"
    "pgr_current_meta (cg_pager (sr_pager (db_registry d))) = initial_meta (env_crc (de_env de))"
    "\<not> dc_enable_wal cfg \<Longrightarrow> db_wal d = None"
proof -
  let ?e = "de_env de"
  obtain s c where s: "cg_create_file ?e [] = Ok s" "leaf_store ?e s FIRST_DATA (checksummed c (leaf_new FIRST_DATA)) n"
    "pgr_current_meta (cg_pager s) = initial_meta (env_crc ?e)" by (rule create_file_leaf [OF assms], rule that)
  obtain qc cl where qc: "query_cache_new (env_num_cpus ?e) = Ok qc" "query_cache_clone qc = Ok cl"
    using query_cache_new_clone [OF assms(1)] by blast
  have meta: "pager_root_page_id (cg_pager s) = FIRST_DATA" "pager_committed_txn_id (cg_pager s) = 0"
    using s(3) initial_meta_facts(3) [of "env_crc ?e"]
    by (simp_all add: pager_root_page_id_def pager_committed_txn_id_def)
      (simp add: initial_meta_def update_committed_txn_id_def meta_state_refresh_def meta_state_new_def meta_update_checksum_def meta_payload_new_def)
  define d where "d = \<lparr>db_registry = registry_with_txn_id s FIRST_DATA 0, db_wal = (if dc_enable_wal cfg then Some wal_create else None),
    db_path = Some path, db_is_closed = False, db_current_txn_id = 0, db_config = cfg, db_query_cache = qc\<rparr>"
  have op: "db_open_with_config de path cfg None wal_data = Ok d"
    using s(1) qc(1) meta by (simp add: db_open_with_config_def d_def)
  have "readable_at 0 (leaf_map (leaf_new FIRST_DATA))"
    by (simp add: readable_at_def leaf_map_def key_map_def leaf_new_def Let_def)
  then have dl: "db_leaf de d FIRST_DATA (checksummed c (leaf_new FIRST_DATA)) n"
    using s(2) qc(2)
    by (auto simp: db_leaf_def db_base_def Let_def d_def registry_with_txn_id_def concurrency_with_txn_id_def get_latest_snapshot_def rd_get_root_def
        has_snapshot_def is_data_page_def FIRST_DATA_def split: if_splits)
  have "wal_ready d" using wal_create_inv by (simp add: wal_ready_def d_def) (simp add: wal_create_def)
  with op dl show ?thesis by (rule that) (use s(3) in \<open>simp_all add: d_def registry_with_txn_id_def\<close>)
qed

text \<open>C3. Commit and read. Let a database be in the state of a single leaf with room in the page cache and let its log be able to
  take a record. A write transaction that buffers mutations the leaf has space for, touching each key once,
  with keys of at most 255 bytes, putting only keys that the leaf does not hold, with inline values that do not look like
  references to overflow pages, commits successfully. Reads on the state before the commit see the old contents, read transactions begun
  after it see the old contents changed by the mutations in order. A read transaction begun before the commit that
  reads after it sees none of the puts, but it no longer finds the keys that the commit deleted.\<close>

theorem db_commit_then_read:
  assumes "db_leaf de d p l (n + 3 * length ms + 3)" "wal_ready d" "begin_read d = (Ok rt, d0)"
    and "begin_write now d0 = (Ok w, d1)" "buffer_all ms w = Ok w'" "ms \<noteq> []"
    and "leaf_takes l ms" "\<forall>m \<in> set ms. plain_value m"
  shows "db_reads de d1 (leaf_view (leaf_map l)) \<and>
    (\<exists>d2. wtxn_commit de w' d1 = Some (Ok (), d2) \<and> db_reads de d2 (foldl apply_mutation (leaf_view (leaf_map l)) ms) \<and>
       latest_txn d2 = tc_txn_id (wt_ctx w') \<and>
       (\<forall>key. \<exists>d3. read_txn_get de rt key d2 =
          Some (Ok (foldl apply_mutation (leaf_view (leaf_map l)) (filter (\<lambda>m. get_value m = None) ms) key), d3)))"
proof -
  obtain d' where d': "begin_read d = (Ok \<lparr>rt_txn_id = latest_txn d, rt_root_page_id = p\<rparr>, d')" "db_leaf de d' p l (n + 3 * length ms + 3)"
      "latest_txn d' = latest_txn d" "db_wal d' = db_wal d"
    by (rule begin_read_leaf [OF assms(1)], rule that)
  have rt: "rt = \<lparr>rt_txn_id = latest_txn d, rt_root_page_id = p\<rparr>" "d' = d0" using d'(1) assms(3) by simp_all
  note dl0 = d'(2-4) [unfolded rt(2)]
  have ready: "wal_ready d0" using assms(2) dl0(3) by (simp add: wal_ready_def)
  have "db_leaf de d1 p l (Suc (Suc (Suc (n + 3 * length ms))))"
    using dl0(1) begin_write_Ok [OF assms(4)] by (auto simp: db_leaf_def db_base_def Let_def numeral_3_eq_3)
  from db_leaf_reads [OF this] have before: "db_reads de d1 (leaf_view (leaf_map l))" .
  have dl: "db_base de d0 p l (Suc (Suc n) + 3 * length ms + 1)" "readable_at (latest_txn d0) (leaf_map l)"
      "latest_txn d0 \<le> db_current_txn_id d0"
    using dl0(1) by (simp_all add: db_leaf_def algebra_simps numeral_3_eq_3) (simp add: db_base_def Let_def)
  obtain d2 l' where d2: "wtxn_commit de w' d1 = Some (Ok (), d2)" "db_leaf de d2 p l' (Suc (Suc n))"
    "leaf_view (leaf_map l') = foldl apply_mutation (leaf_view (leaf_map l)) ms" "latest_txn d2 = db_current_txn_id d0 + 1"
    "leaf_map l' = foldl (leaf_apply (db_current_txn_id d0 + 1)) (leaf_map l) ms"
    by (rule txn_commit_leaf [OF dl(1) ready assms(4-8) dl(2,3)], rule that)
  have "context_inv (wt_ctx w) \<and> tc_state (wt_ctx w) = Active \<and> tc_txn_id (wt_ctx w) = db_current_txn_id d0 + 1"
    using begin_write_Ok(3) [OF assms(4)] context_new_inv by (simp add: write_txn_new_def) (simp add: context_new_def)
  with buffer_all_Ok [OF assms(5)] d2(4) have latest: "latest_txn d2 = tc_txn_id (wt_ctx w')" by simp
  have "latest_txn d < db_current_txn_id d0 + 1" using dl(3) dl0(2) begin_write_Ok(2) [OF assms(4)] by simp
  then have "view_at (latest_txn d) (leaf_map l') =
      foldl apply_mutation (view_at (latest_txn d) (leaf_map l)) (filter (\<lambda>m. get_value m = None) ms)"
    unfolding d2(5) using assms(7) by (intro view_at_earlier) (auto simp: leaf_takes_def)
  also have "view_at (latest_txn d) (leaf_map l) = leaf_view (leaf_map l)" using readable_view [OF dl(2)] dl0(2) by simp
  finally have "\<exists>d3. read_txn_get de rt key d2 =
      Some (Ok (foldl apply_mutation (leaf_view (leaf_map l)) (filter (\<lambda>m. get_value m = None) ms) key), d3)" for key
    using read_txn_get_leaf [OF d2(2), of "latest_txn d" key] by (simp add: rt(1))
  with before d2(1) db_leaf_reads [OF d2(2)] d2(3) latest show ?thesis by simp
qed

text \<open>
  C10. Read your writes. Let the database be a single leaf at page 2, the root of a new database, with room in the page cache. Inside a
  write transaction \<open>WriteTxn::get\<close> returns what the key holds after the buffered mutations are applied in
  order to the committed contents, whatever the mutations are. The page matters: the code asks for the snapshot of the running
  transaction, which does not exist before its commit, and then reads the tree at page 2.
\<close>

theorem wtxn_reads_own_writes:
  assumes "db_leaf de d FIRST_DATA l (Suc (Suc n))" "begin_write now d = (Ok w, d1)" "buffer_all ms w = Ok w'"
  shows "\<exists>d2. wtxn_get de w' key d1 = Some (Ok (foldl apply_mutation (leaf_view (leaf_map l)) ms key), d2)"
proof -
  let ?e = "de_env de" and ?s = "sr_pager (db_registry d)" and ?t = "db_current_txn_id d + 1"
  note bw = begin_write_Ok [OF assms(2)]
  have "context_inv (wt_ctx w)" "tc_state (wt_ctx w) = Active" "tc_mutations (wt_ctx w) = []"
    using bw(3) context_new_inv by (simp_all add: write_txn_new_def) (simp_all add: context_new_def)
  with buffer_all_Ok [OF assms(3)] have ms: "tc_mutations (wt_ctx w') = ms" by simp
  have st: "leaf_store ?e ?s FIRST_DATA l (Suc (Suc n))" and rd: "readable_at (latest_txn d) (leaf_map l)"
    and le: "latest_txn d \<le> db_current_txn_id d" and snaps: "\<forall>t. has_snapshot (sr_data (db_registry d)) t \<longrightarrow> t \<le> latest_txn d"
    using assms(1) by (simp_all add: db_leaf_def db_base_def Let_def)
  have "readable_at ?t (leaf_map l)" using rd le bw(2) by (fastforce simp: readable_at_def)
  from readable_view [OF this] have view: "plain_map (leaf_map l)" "view_at ?t (leaf_map l) = leaf_view (leaf_map l)" by auto
  have "\<not> has_snapshot (sr_data (db_registry d)) ?t" using snaps le bw(2) by (meson less_le_trans not_less)
  then have root: "get_snapshot_root d1 ?t = None" by (simp add: get_snapshot_root_def has_snapshot_def bw(1))
  obtain s1 b where b: "btree_new ?e ?s FIRST_DATA = (Ok b, s1)" "bt_pager b = s1" "bt_root_page_id b = FIRST_DATA" "leaf_store ?e s1 FIRST_DATA l (Suc n)"
    by (rule btree_new_leaf_store [OF st], rule that)
  have st1: "leaf_store ?e (bt_pager b) (bt_root_page_id b) l (Suc n)" using b by simp
  obtain s2 where "get_with_pages ?e key ?t b = Some (Ok (view_at ?t (leaf_map l) key, {bt_root_page_id b}), b\<lparr>bt_pager := s2\<rparr>)"
    by (rule get_leaf_store [OF st1 view(1)], rule that)
  then have "\<exists>d2. db_with_btree de FIRST_DATA (btree_get ?e key ?t) d1 = Some (Ok (leaf_view (leaf_map l) key), d2)"
    using b view(2) by (simp add: db_with_btree_def with_btree_def on_tree_def btree_get_def bw(1))
  then show ?thesis
    using find_last_mutation [of "leaf_view (leaf_map l)" ms key] ms root
    by (auto simp: wtxn_get_def find_mutation_def bw(1) split: option.splits)
qed

definition sample_db_env :: db_env where
  "sample_db_env = \<lparr>de_env = sample_env, de_query_hash = (\<lambda>_. 0), de_query_ord = id, de_param_hash = (\<lambda>_. 0)\<rparr>"

definition sample_mutations :: "mutation list" where
  "sample_mutations = [Put [1] [7, 8], Delete [9]]"

lemma sample_db:
  obtains d c w d1 w' where "db_leaf sample_db_env d FIRST_DATA (checksummed c (leaf_new FIRST_DATA)) 100" "wal_ready d"
    "db_current_txn_id d = 0" "pgr_current_meta (cg_pager (sr_pager (db_registry d))) = initial_meta (env_crc sample_env)"
    "begin_write 0 d = (Ok w, d1)" "buffer_all sample_mutations w = Ok w'"
proof -
  have cpus: "usize_is_power_of_two (env_num_cpus (de_env sample_db_env))"
    unfolding usize_is_power_of_two_def by (rule bexI [of _ 0]) (simp_all add: sample_env_def sample_db_env_def)
  have "(100 :: nat) < 16384" by simp
  from cpus this obtain d c where d: "db_leaf sample_db_env d FIRST_DATA (checksummed c (leaf_new FIRST_DATA)) 100" "wal_ready d"
    "db_current_txn_id d = 0" "pgr_current_meta (cg_pager (sr_pager (db_registry d))) = initial_meta (env_crc (de_env sample_db_env))"
    using open_new_leaf by metis
  have "txn_next 0 = Some 1" by (simp add: txn_next_def checked_add_def)
  then have b: "begin_write 0 d = (Ok (write_txn_new 0 1), d\<lparr>db_current_txn_id := 1\<rparr>)"
    using d(1,3) by (simp add: begin_write_def db_leaf_def db_base_def Let_def)
  have "\<exists>w'. buffer_all sample_mutations (write_txn_new 0 1) = Ok w'"
    by (simp add: sample_mutations_def write_txn_new_def context_new_def wtxn_put_def wtxn_delete_def context_put_def context_delete_def
        validate_mutation_def MAX_KEY_SIZE_def MAX_VALUE_SIZE_def MAX_OPERATIONS_PER_COMMIT_def)
  with d b show ?thesis using that by (auto simp: sample_db_env_def)
qed

lemma sample_fits:
  "leaf_takes (checksummed c (leaf_new FIRST_DATA)) sample_mutations" "\<forall>m \<in> set sample_mutations. plain_value m"
  "leaf_view (leaf_map (checksummed c (leaf_new FIRST_DATA))) = Map.empty" "sample_mutations \<noteq> []" "length sample_mutations = 2"
  by (auto simp: sample_mutations_def leaf_takes_def leaf_used_def mutation_need_def serialized_size_def leaf_map_def key_map_def
      leaf_new_def Let_def MAX_KEY_LENGTH_def overflow_consts plain_value_def entry_of_def is_overflow_value_def leaf_view_def)

theorem db_commit_then_read_witness:
  "\<exists>d rt d0 w d1 w' d2 d3. begin_read d = (Ok rt, d0) \<and> begin_write 0 d0 = (Ok w, d1) \<and> buffer_all [Put [1] [7, 8], Delete [9]] w = Ok w' \<and>
     wtxn_commit sample_db_env w' d1 = Some (Ok (), d2) \<and> db_reads sample_db_env d2 [[1] \<mapsto> [7, 8]] \<and>
     read_txn_get sample_db_env rt [1] d2 = Some (Ok None, d3)"
proof -
  obtain d c w d1 w' where d: "db_leaf sample_db_env d FIRST_DATA (checksummed c (leaf_new FIRST_DATA)) 100" "wal_ready d"
    "db_current_txn_id d = 0" "begin_write 0 d = (Ok w, d1)" "buffer_all sample_mutations w = Ok w'" by (rule sample_db, rule that)
  have dl: "db_leaf sample_db_env d FIRST_DATA (checksummed c (leaf_new FIRST_DATA)) (91 + 3 * length sample_mutations + 3)"
    using d(1) by (simp add: sample_fits)
  obtain rt d0 where r: "begin_read d = (Ok rt, d0)" "db_leaf sample_db_env d0 FIRST_DATA (checksummed c (leaf_new FIRST_DATA)) 100"
      "db_current_txn_id d0 = 0"
    by (rule begin_read_leaf [OF d(1)]) (auto simp: d(3) intro: that)
  have "txn_next 0 = Some 1" by (simp add: txn_next_def checked_add_def)
  then have w: "begin_write 0 d0 = (Ok w, d0\<lparr>db_current_txn_id := 1\<rparr>)"
    using r(2,3) begin_write_Ok(3) [OF d(4)] d(3) by (simp add: begin_write_def db_leaf_def db_base_def Let_def)
  note both = db_commit_then_read [OF dl d(2) r(1) w d(5) sample_fits(4,1,2), unfolded sample_fits(3)]
  then obtain d2 where d2: "wtxn_commit sample_db_env w' (d0\<lparr>db_current_txn_id := 1\<rparr>) = Some (Ok (), d2)"
    "db_reads sample_db_env d2 (foldl apply_mutation Map.empty sample_mutations)"
    "\<exists>d3. read_txn_get sample_db_env rt [1] d2 =
      Some (Ok (foldl apply_mutation Map.empty (filter (\<lambda>m. get_value m = None) sample_mutations) [1]), d3)" by blast
  moreover have "foldl apply_mutation Map.empty sample_mutations = [[1] \<mapsto> [7, 8]]"
      "foldl apply_mutation Map.empty (filter (\<lambda>m. get_value m = None) sample_mutations) [1] = None" by (auto simp: sample_mutations_def)
  ultimately show ?thesis using r(1) w d(5) unfolding sample_mutations_def by metis
qed

theorem wtxn_reads_own_writes_witness:
  "\<exists>d w d1 w' d2 d3. begin_write 0 d = (Ok w, d1) \<and> buffer_all [Put [1] [7, 8], Delete [9]] w = Ok w' \<and>
     wtxn_get sample_db_env w' [1] d1 = Some (Ok (Some [7, 8]), d2) \<and> wtxn_get sample_db_env w' [3] d1 = Some (Ok None, d3)"
proof -
  obtain d c w d1 w' where d: "db_leaf sample_db_env d FIRST_DATA (checksummed c (leaf_new FIRST_DATA)) 100"
    "begin_write 0 d = (Ok w, d1)" "buffer_all sample_mutations w = Ok w'" by (rule sample_db, rule that)
  have dl: "db_leaf sample_db_env d FIRST_DATA (checksummed c (leaf_new FIRST_DATA)) (Suc (Suc 98))" using d(1) by simp
  note own = wtxn_reads_own_writes [OF dl d(2,3), unfolded sample_fits(3)]
  have "foldl apply_mutation Map.empty sample_mutations [1] = Some [7, 8]" "foldl apply_mutation Map.empty sample_mutations [3] = None"
    by (simp_all add: sample_mutations_def)
  with own [of "[1]"] own [of "[3]"] d(2,3) show ?thesis unfolding sample_mutations_def by metis
qed

section \<open>Reopening\<close>

lemma open_storage_keeps: "open_storage crc st = Ok g \<Longrightarrow> pgr_storage g = st"
  by (auto simp: open_storage_def ok_or_def split: if_splits option.splits)

lemma open_file_leaf:
  assumes "usize_is_power_of_two (env_num_cpus e)" "leaf_store e s p l n0" "cg_storage s = FileStorage data" "n \<le> 16384"
    and "open_storage (env_crc e) (FileStorage data) = Ok g"
  obtains s' where "cg_open_file e data = Ok s'" "leaf_store e s' p l n" "cg_pager s' = g"
proof -
  obtain c where c: "page_cache_new (env_num_cpus e) = Ok c" using assms(1) by (simp add: page_cache_new_Ok)
  note spec = page_cache_new_spec(1,3) [OF c] page_cache_new_spec(2) [OF c, of "env_hash e"]
  let ?s = "\<lparr>cg_pager = g, cg_cache = c\<rparr>"
  have "cg_inv e ?s" "cg_room n ?s" "cached e ?s = {}"
    using spec assms(4) by (simp_all add: cg_inv_def agrees_def cached_def cg_room_def)
  moreover have st: "cg_storage ?s = cg_storage s" using open_storage_keeps [OF assms(5)] assms(3) by simp
  then have "cg_node ?s p = cg_node s p" by (simp add: cg_node_def cg_page_def)
  ultimately have "leaf_store e ?s p l n" using assms(2) st by (simp add: leaf_store_def del: node_fits.simps)
  then show ?thesis using c assms(5) by (intro that [of ?s]) (simp_all add: cg_open_file_def)
qed

lemma reopen_leaf:
  assumes "usize_is_power_of_two (env_num_cpus (de_env de))" "db_leaf de d p l n0" "n \<le> 16384"
    and "cg_storage (sr_pager (db_registry d)) = FileStorage data"
    and "open_storage (env_crc (de_env de)) (FileStorage data) = Ok g" "pager_root_page_id g = p" "pager_committed_txn_id g = latest_txn d"
    and "\<And>b. wal_data = Some b \<Longrightarrow> is_ok (wal_open (env_crc (de_env de)) b)"
  obtains d' where "db_open_with_config de path cfg (Some data) wal_data = Ok d'" "db_leaf de d' p l n"
proof -
  let ?e = "de_env de" and ?t = "latest_txn d"
  have d: "leaf_store ?e (sr_pager (db_registry d)) p l n0" "is_data_page p" "readable_at ?t (leaf_map l)"
    using assms(2) by (simp_all add: db_leaf_def db_base_def Let_def)
  obtain s where s: "cg_open_file ?e data = Ok s" "leaf_store ?e s p l n" "cg_pager s = g"
    by (rule open_file_leaf [OF assms(1) d(1) assms(4,3,5)], rule that)
  obtain qc cl where qc: "query_cache_new (env_num_cpus ?e) = Ok qc" "query_cache_clone qc = Ok cl"
    using query_cache_new_clone [OF assms(1)] by blast
  have "\<exists>w. (if dc_enable_wal cfg then
                 (case (Some data, wal_data) of
                    (Some _, Some b) \<Rightarrow> and_then (wal_open (env_crc ?e) b) (\<lambda>w. Ok (Some w))
                  | _ \<Rightarrow> Ok (Some wal_create))
               else Ok None) = Ok w"
    using assms(8) by (auto simp: is_ok_iff split: option.splits)
  then obtain w where w: "db_open_with_config de path cfg (Some data) wal_data = Ok
      \<lparr>db_registry = registry_with_txn_id s p ?t, db_wal = w, db_path = Some path, db_is_closed = False,
       db_current_txn_id = ?t, db_config = cfg, db_query_cache = qc\<rparr>"
    using s(1,3) qc(1) assms(6,7) by (auto simp: db_open_with_config_def)
  show ?thesis
    by (rule that [OF w])
      (use s(2) d(2,3) qc(2) in \<open>auto simp: db_leaf_def db_base_def Let_def registry_with_txn_id_def concurrency_with_txn_id_def
        get_latest_snapshot_def rd_get_root_def has_snapshot_def split: if_splits\<close>)
qed

lemma committed_file_reopens:
  assumes "db_leaf de d p l (n + 3 * length ms + 1)" "wal_ready d"
    and "begin_write now d = (Ok w, d1)" "buffer_all ms w = Ok w'" "ms \<noteq> []"
    and "leaf_takes l ms" "\<forall>m \<in> set ms. plain_value m"
    and "meta_state_wf (pgr_current_meta (cg_pager (sr_pager (db_registry d))))"
    and "unat (mp_page_size (ms_meta (pgr_current_meta (cg_pager (sr_pager (db_registry d)))))) = PAGE_SIZE"
    and "db_current_txn_id d + 1 \<le> 1000000000000" "p \<le> 1000000000" "usize_is_power_of_two (env_num_cpus (de_env de))"
  shows "\<exists>d2 data. wtxn_commit de w' d1 = Some (Ok (), d2) \<and> cg_storage (sr_pager (db_registry d2)) = FileStorage data \<and>
    (\<forall>path cfg wal_data. (\<forall>b. wal_data = Some b \<longrightarrow> is_ok (wal_open (env_crc (de_env de)) b)) \<longrightarrow>
       (\<exists>d3. db_open_with_config de path cfg (Some data) wal_data = Ok d3 \<and>
          db_reads de d3 (foldl apply_mutation (leaf_view (leaf_map l)) ms)))"
proof -
  let ?crc = "env_crc (de_env de)" and ?t = "db_current_txn_id d + 1"
  have db: "db_base de d p l (n + 3 * length ms + 1)" and rd: "readable_at (latest_txn d) (leaf_map l)"
    and le: "latest_txn d \<le> db_current_txn_id d"
    using assms(1) by (simp_all add: db_leaf_def) (simp add: db_base_def Let_def)
  obtain d2 l' g and s :: cpager where d2: "wtxn_commit de w' d1 = Some (Ok (), d2)" "db_leaf de d2 p l' n"
    "leaf_view (leaf_map l') = foldl apply_mutation (leaf_view (leaf_map l)) ms" "latest_txn d2 = ?t"
    "commit_transaction ?crc (cg_pager s) ?t p = Ok g" "cg_pager (sr_pager (db_registry d2)) = g"
    "pgr_current_meta (cg_pager s) = pgr_current_meta (cg_pager (sr_pager (db_registry d)))"
    by (rule txn_commit_leaf [OF db assms(2-7) rd le], rule that)
  let ?m = "update_root_page_id ?crc (update_committed_txn_id ?crc (pgr_current_meta (cg_pager s)) ?t) p"
  have g: "pgr_current_meta g = ?m" "storage_read_page (pgr_storage g) META_A PAGE_SIZE = Ok (meta_image ?crc ?m)"
    "storage_read_page (pgr_storage g) META_B PAGE_SIZE = Ok (meta_image ?crc ?m)"
    by (rule commit_transaction_pages [of ?crc "cg_pager s" ?t p], use d2(5) in simp)+
  have wf: "meta_state_wf ?m" unfolding d2(7) using assms(8) by (intro inv_rules)
  have fields: "mp_committed_txn_id (ms_meta ?m) = ?t" "mp_root_page_id (ms_meta ?m) = p" "unat (mp_page_size (ms_meta ?m)) = PAGE_SIZE"
    using assms(9) d2(7)
    by (simp_all add: update_root_page_id_def update_committed_txn_id_def meta_state_refresh_def meta_update_checksum_def)
  have "\<not> is_torn_write ?m" using assms(10,11) fields by (auto simp: is_torn_write_def)
  then obtain g' where g': "open_storage ?crc (pgr_storage g) = Ok g'" "ms_meta (pgr_current_meta g') = ms_meta ?m"
    using open_written_meta [OF wf _ fields(3) g(2,3)] by metis
  have ids: "pager_root_page_id g' = p" "pager_committed_txn_id g' = latest_txn d2"
    using g'(2) fields d2(4) by (simp_all add: pager_root_page_id_def pager_committed_txn_id_def)
  obtain data where data: "cg_storage (sr_pager (db_registry d2)) = FileStorage data"
    using d2(2) by (auto simp: db_leaf_def db_base_def Let_def leaf_store_def file_based_def)
  have st: "open_storage ?crc (FileStorage data) = Ok g'" using g'(1) d2(6) data by simp
  have "\<exists>d3. db_open_with_config de path cfg (Some data) wal_data = Ok d3 \<and> db_reads de d3 (leaf_view (leaf_map l'))"
    if log: "\<forall>b. wal_data = Some b \<longrightarrow> is_ok (wal_open ?crc b)" for path cfg wal_data
  proof -
    have two: "Suc (Suc 0) \<le> 16384" by simp
    have log': "\<And>b. wal_data = Some b \<Longrightarrow> is_ok (wal_open ?crc b)" using log by blast
    obtain d3 where "db_open_with_config de path cfg (Some data) wal_data = Ok d3" "db_leaf de d3 p l' (Suc (Suc 0))"
      by (rule reopen_leaf [OF assms(12) d2(2) two data st ids log', of wal_data path cfg], assumption, rule that)
    then show ?thesis using db_leaf_reads by blast
  qed
  then show ?thesis using d2(1,3) data by auto
qed

text \<open>C4. Durability. Let a database be in the state of a single leaf, with the conditions of a successful commit: each key is touched once,
  keys have at most 255 bytes, only keys that the leaf does not hold are put, with inline values, and the leaf, the page cache
  and the log have room. After the commit the file holds everything a new handle needs: opening the file that the commit leaves
  behind, with any configuration and no log or a log that can be opened, succeeds, and its read transactions see
  the committed contents. The meta page must be well formed, the ids must be in the range that \<open>is_torn_write\<close> takes for
  plausible, and the number of processors a power of two.\<close>

theorem db_commit_survives_reopen:
  assumes "db_leaf de d p l (n + 3 * length ms + 1)" "wal_ready d"
    and "begin_write now d = (Ok w, d1)" "buffer_all ms w = Ok w'" "ms \<noteq> []"
    and "leaf_takes l ms" "\<forall>m \<in> set ms. plain_value m"
    and "meta_state_wf (pgr_current_meta (cg_pager (sr_pager (db_registry d))))"
    and "unat (mp_page_size (ms_meta (pgr_current_meta (cg_pager (sr_pager (db_registry d)))))) = PAGE_SIZE"
    and "db_current_txn_id d + 1 \<le> 1000000000000" "p \<le> 1000000000" "usize_is_power_of_two (env_num_cpus (de_env de))"
  shows "\<exists>d2 data. wtxn_commit de w' d1 = Some (Ok (), d2) \<and> cg_storage (sr_pager (db_registry d2)) = FileStorage data \<and>
    (\<forall>path cfg wal_data. (\<forall>b. wal_data = Some b \<longrightarrow> is_ok (wal_open (env_crc (de_env de)) b)) \<longrightarrow>
       (\<exists>d3. db_open_with_config de path cfg (Some data) wal_data = Ok d3 \<and>
          db_reads de d3 (foldl apply_mutation (leaf_view (leaf_map l)) ms)))"
  by (rule committed_file_reopens [OF assms])

theorem db_commit_survives_reopen_witness:
  "\<exists>d w d1 w' d2 data d3. begin_write 0 d = (Ok w, d1) \<and> buffer_all [Put [1] [7, 8], Delete [9]] w = Ok w' \<and>
     wtxn_commit sample_db_env w' d1 = Some (Ok (), d2) \<and> cg_storage (sr_pager (db_registry d2)) = FileStorage data \<and>
     db_open sample_db_env ''db'' (Some data) None = Ok d3 \<and> db_reads sample_db_env d3 [[1] \<mapsto> [7, 8]]"
proof -
  obtain d c w d1 w' where d: "db_leaf sample_db_env d FIRST_DATA (checksummed c (leaf_new FIRST_DATA)) 100" "wal_ready d"
    "db_current_txn_id d = 0" "pgr_current_meta (cg_pager (sr_pager (db_registry d))) = initial_meta (env_crc sample_env)"
    "begin_write 0 d = (Ok w, d1)" "buffer_all sample_mutations w = Ok w'" by (rule sample_db, rule that)
  have dl: "db_leaf sample_db_env d FIRST_DATA (checksummed c (leaf_new FIRST_DATA)) (93 + 3 * length sample_mutations + 1)"
    using d(1) by (simp add: sample_fits)
  have cpus: "usize_is_power_of_two (env_num_cpus (de_env sample_db_env))"
    unfolding usize_is_power_of_two_def by (rule bexI [of _ 0]) (simp_all add: sample_env_def sample_db_env_def)
  have ids: "db_current_txn_id d + 1 \<le> 1000000000000" "FIRST_DATA \<le> 1000000000"
    by (simp_all add: d(3) FIRST_DATA_def word_le_nat_alt)
  have "\<exists>d2 data. wtxn_commit sample_db_env w' d1 = Some (Ok (), d2) \<and> cg_storage (sr_pager (db_registry d2)) = FileStorage data \<and>
    (\<forall>path cfg wal_data. (\<forall>b. wal_data = Some b \<longrightarrow> is_ok (wal_open (env_crc (de_env sample_db_env)) b)) \<longrightarrow>
       (\<exists>d3. db_open_with_config sample_db_env path cfg (Some data) wal_data = Ok d3 \<and>
          db_reads sample_db_env d3 (foldl apply_mutation Map.empty sample_mutations)))"
    using db_commit_survives_reopen [OF dl d(2,5,6) sample_fits(4,1,2) _ _ ids cpus, unfolded sample_fits(3)]
      initial_meta_facts [of "env_crc sample_env"] d(4) by simp
  then obtain d2 data d3 where "wtxn_commit sample_db_env w' d1 = Some (Ok (), d2)" "cg_storage (sr_pager (db_registry d2)) = FileStorage data"
    "db_open sample_db_env ''db'' (Some data) None = Ok d3" "db_reads sample_db_env d3 (foldl apply_mutation Map.empty sample_mutations)"
    unfolding db_open_def by (metis option.distinct(1))
  moreover have "foldl apply_mutation Map.empty sample_mutations = [[1] \<mapsto> [7, 8]]" by (auto simp: sample_mutations_def)
  ultimately show ?thesis using d(5,6) unfolding sample_mutations_def by metis
qed

end
