(* ===== verification/Db_Errors.thy ===== *)
theory Db_Errors
  imports Db_Correct
begin

text \<open>
  How the database handle fails: a commit that fails half way leaves its first mutations in the tree, an
  in-memory database has no root node, and a transaction without mutations cannot be committed.
\<close>

section \<open>A commit that fails half way\<close>

lemma put_oversized:
  assumes "OVERFLOW_MAX_VALUE_SIZE < length val"
  shows "\<exists>x. btree_put e key val t b = Some (Err x, b)"
  using assms by (simp add: btree_put_def on_pager_def prepare_entry_value_def then_do_def)

lemma apply_then_fail:
  assumes "db_base de d p l (n + 4)" "leaf_takes l [Put k v]" "OVERFLOW_MAX_VALUE_SIZE < length big"
  obtains s l' x where "db_apply_mutations de (apply_each (de_env de) t [Put k v, Put k2 big]) d =
      Some (Err x, d\<lparr>db_registry := (db_registry d)\<lparr>sr_pager := s\<rparr>\<rparr>)"
    "leaf_store (de_env de) s p l' n" "leaf_map l' = (leaf_map l)(k \<mapsto> \<lparr>en_key = k, en_value = v, en_lsn = t\<rparr>)"
    "leaf_used l' \<le> leaf_used l + mutation_need (Put k v)"
proof -
  let ?e = "de_env de" and ?s = "sr_pager (db_registry d)"
  have four: "Suc (n + 3) = n + 4" by simp
  have st: "leaf_store ?e ?s p l (Suc (n + 3))" unfolding four using assms(1) by (simp add: db_base_def Let_def)
  obtain s1 b where b: "btree_new ?e ?s p = (Ok b, s1)" "bt_pager b = s1" "bt_root_page_id b = p" "leaf_store ?e s1 p l (n + 3)"
    by (rule btree_new_leaf_store [OF st], rule that)
  have st1: "leaf_store ?e (bt_pager b) (bt_root_page_id b) l (n + 3)" using b by simp
  obtain s l' where s: "(case Put k v of Put k v \<Rightarrow> btree_put ?e k v t b | Delete k \<Rightarrow> btree_delete ?e k t b) = Some (Ok (), b\<lparr>bt_pager := s\<rparr>)"
    "leaf_store ?e s (bt_root_page_id b) l' n" "leaf_map l' = leaf_apply t (leaf_map l) (Put k v)"
    "leaf_used l' \<le> leaf_used l + mutation_need (Put k v)" by (rule apply_leaf_store [OF st1 assms(2)], rule that)
  obtain x where x: "btree_put ?e k2 big t (b\<lparr>bt_pager := s\<rparr>) = Some (Err x, b\<lparr>bt_pager := s\<rparr>)"
    using put_oversized [OF assms(3)] by blast
  have "apply_each ?e t [Put k v, Put k2 big] b = Some (Err x, b\<lparr>bt_pager := s\<rparr>)" using s(1) x by simp
  then have "db_apply_mutations de (apply_each ?e t [Put k v, Put k2 big]) d =
      Some (Err x, d\<lparr>db_registry := (db_registry d)\<lparr>sr_pager := s\<rparr>\<rparr>)"
    using assms(1) b by (simp add: db_apply_mutations_def apply_mutations_def on_tree_def db_base_def Let_def)
  then show ?thesis by (rule that) (use s b(3) in \<open>simp_all add: leaf_apply_def entry_of_def\<close>)
qed

lemma failed_commit:
  assumes "db_leaf de d p l (n + 4)" "wal_ready d" "begin_write now d = (Ok w, d1)"
    and "buffer_all [Put k v, Put k2 big] w = Ok w'" "OVERFLOW_MAX_VALUE_SIZE < length big"
    and "leaf_takes l [Put k v]" "plain_value (Put k v)"
  obtains x d2 l' where "wtxn_commit de w' d1 = Some (Err x, d2)" "db_base de d2 p l' n"
    "leaf_view (leaf_map l') = (leaf_view (leaf_map l))(k \<mapsto> v)" "readable_at (db_current_txn_id d2) (leaf_map l')"
    "leaf_used l' \<le> leaf_used l + mutation_need (Put k v)" "db_wal d = None \<Longrightarrow> db_wal d2 = None"
proof -
  let ?t = "db_current_txn_id d + 1" and ?ms = "[Put k v, Put k2 big]"
  note bw = begin_write_Ok [OF assms(3)]
  have "context_inv (wt_ctx w)" "tc_state (wt_ctx w) = Active" "tc_mutations (wt_ctx w) = []" "tc_txn_id (wt_ctx w) = ?t"
    using bw(3) context_new_inv by (simp_all add: write_txn_new_def) (simp_all add: context_new_def)
  with buffer_all_Ok [OF assms(4)]
  have c: "context_inv (wt_ctx w')" "tc_state (wt_ctx w') = Active" "tc_mutations (wt_ctx w') = ?ms" "tc_txn_id (wt_ctx w') = ?t"
    by simp_all
  have w': "\<lparr>wt_ctx = wt_ctx w', wt_original_root_page_id = wt_original_root_page_id w'\<rparr> = w'" by simp
  have small: "length (payload_image (wal_commit_record_new (tc_txn_id (wt_ctx w')) 0 (map to_wal_mutation (tc_mutations (wt_ctx w'))))) < 2 ^ 32"
    using c(1) unfolding c(3)
    by (auto simp: payload_image_def wal_commit_record_new_def length_op_image COMMIT_HEADER_SIZE_def context_inv_def c(3)
        mutation_validate_def MAX_KEY_SIZE_def MAX_VALUE_SIZE_def split: if_splits)
  have ready: "wal_ready d1" "tc_mutations (wt_ctx w') \<noteq> []" using assms(2) bw(1) c(3) by (simp_all add: wal_ready_def)
  obtain wl o' where prep: "wtxn_prepare de \<lparr>wt_ctx = wt_ctx w', wt_original_root_page_id = wt_original_root_page_id w'\<rparr> d1 =
      (Ok (), \<lparr>wt_ctx = (wt_ctx w')\<lparr>tc_state := Preparing\<rparr>, wt_original_root_page_id = o'\<rparr>, d1\<lparr>db_wal := wl\<rparr>)" "db_wal d1 = None \<Longrightarrow> wl = None"
    by (rule prepare_Ok [OF c(1) ready(1) c(2) ready(2) small], rule that)
  have base: "db_base de (d1\<lparr>db_wal := wl\<rparr>) p l (n + 4)" using assms(1) bw(1,2) by (auto simp: db_leaf_def db_base_def Let_def)
  obtain s l' x where s: "db_apply_mutations de (apply_each (de_env de) ?t ?ms) (d1\<lparr>db_wal := wl\<rparr>) =
      Some (Err x, d1\<lparr>db_wal := wl, db_registry := (db_registry d1)\<lparr>sr_pager := s\<rparr>\<rparr>)"
    "leaf_store (de_env de) s p l' n" "leaf_map l' = (leaf_map l)(k \<mapsto> \<lparr>en_key = k, en_value = v, en_lsn = ?t\<rparr>)"
    "leaf_used l' \<le> leaf_used l + mutation_need (Put k v)"
    by (rule apply_then_fail [OF base assms(6,5), of ?t k2]) (simp add: that)
  define d2 where "d2 = d1\<lparr>db_wal := wl, db_registry := (db_registry d1)\<lparr>sr_pager := s\<rparr>\<rparr>"
  have hm: "has_mutations ((wt_ctx w')\<lparr>tc_state := Preparing\<rparr>)" using c(1,3) by (simp add: has_mutations_def context_inv_def)
  have "wtxn_commit de w' d1 = Some (Err x, d2)"
    using prep(1) [unfolded w'] c(2-4) hm s(1) by (simp add: wtxn_commit_def commit_mutations_def Let_def d2_def)
  moreover have "db_base de d2 p l' n" using base s(2) by (simp add: db_base_def Let_def d2_def)
  moreover have "leaf_view (leaf_map l') = (leaf_view (leaf_map l))(k \<mapsto> v)" by (auto simp: s(3) leaf_view_def)
  moreover have rd: "readable_at (latest_txn d) (leaf_map l)" "latest_txn d \<le> ?t"
    using assms(1) bw(2) by (auto simp: db_leaf_def db_base_def Let_def)
  then have "readable_at ?t (leaf_map l')"
    using readable_foldl [OF rd, of "[Put k v]"] assms(7) by (simp add: s(3) leaf_apply_def entry_of_def)
  then have "readable_at (db_current_txn_id d2) (leaf_map l')" using bw(1) by (simp add: d2_def)
  ultimately show ?thesis using s(4) by (rule that) (use prep(2) bw(1) in \<open>simp add: d2_def\<close>)
qed

text \<open>C26. A failed commit is not undone. A transaction puts a small value and then a value of 16 MiB: its context accepts
  both, since the limit there is 16777216 bytes, but the tree refuses the second with its limit of 16777215 after the
  first is written. The commit fails, yet once any later transaction commits, its readers see the first value too.\<close>

theorem failed_commit_leaks:
  assumes "db_leaf de d p l (n + 3 * length ms + 7)" "wal_ready d" "begin_write now d = (Ok w, d1)"
    and "buffer_all [Put k v, Put k2 big] w = Ok w'" "length big = 16777216"
    and "leaf_takes l (Put k v # ms)" "\<forall>m \<in> set (Put k v # ms). plain_value m" "ms \<noteq> []"
  shows "\<exists>x d2. wtxn_commit de w' d1 = Some (Err x, d2) \<and> (db_wal d = None \<longrightarrow> wal_ready d2) \<and>
    (\<forall>now2 w2 d3 w3. wal_ready d2 \<longrightarrow> begin_write now2 d2 = (Ok w2, d3) \<longrightarrow> buffer_all ms w2 = Ok w3 \<longrightarrow>
       (\<exists>d4. wtxn_commit de w3 d3 = Some (Ok (), d4) \<and>
          db_reads de d4 (foldl apply_mutation ((leaf_view (leaf_map l))(k \<mapsto> v)) ms)))"
proof -
  have eq: "n + 3 * length ms + 7 = Suc (Suc n) + 3 * length ms + 1 + 4" by simp
  have dl: "db_leaf de d p l (Suc (Suc n) + 3 * length ms + 1 + 4)" by (rule assms(1) [unfolded eq])
  have first: "leaf_takes l [Put k v]" "plain_value (Put k v)" using assms(6,7) by (simp_all add: leaf_takes_def)
  have big: "OVERFLOW_MAX_VALUE_SIZE < length big" using assms(5) by (simp add: overflow_consts)
  obtain x d2 l' where d2: "wtxn_commit de w' d1 = Some (Err x, d2)" "db_base de d2 p l' (Suc (Suc n) + 3 * length ms + 1)"
    "leaf_view (leaf_map l') = (leaf_view (leaf_map l))(k \<mapsto> v)" "readable_at (db_current_txn_id d2) (leaf_map l')"
    "leaf_used l' \<le> leaf_used l + mutation_need (Put k v)" "db_wal d = None \<Longrightarrow> db_wal d2 = None"
    by (rule failed_commit [OF dl assms(2-4) big first], rule that)
  have "k \<notin> get_key ` set ms" using assms(6) by (simp add: leaf_takes_def)
  moreover have "leaf_map l' q = None \<longleftrightarrow> q \<noteq> k \<and> leaf_map l q = None" for q
    using fun_cong [OF d2(3), of q] by (auto simp: leaf_view_def split: if_splits)
  ultimately have takes: "leaf_takes l' ms" using assms(6) d2(5) by (auto simp: leaf_takes_def)
  have plain: "\<forall>m \<in> set ms. plain_value m" using assms(7) by simp
  have "\<exists>d4. wtxn_commit de w3 d3 = Some (Ok (), d4) \<and> db_reads de d4 (foldl apply_mutation ((leaf_view (leaf_map l))(k \<mapsto> v)) ms)"
    if next_txn: "wal_ready d2" "begin_write now2 d2 = (Ok w2, d3)" "buffer_all ms w2 = Ok w3" for now2 w2 d3 w3
  proof -
    obtain d4 l2 where d4: "wtxn_commit de w3 d3 = Some (Ok (), d4)" "db_leaf de d4 p l2 (Suc (Suc n))"
      "leaf_view (leaf_map l2) = foldl apply_mutation (leaf_view (leaf_map l')) ms"
      by (rule txn_commit_leaf [OF d2(2) next_txn assms(8) takes plain d2(4) order_refl], rule that)
    then show ?thesis using db_leaf_reads [OF d4(2)] d2(3) by auto
  qed
  moreover have "db_wal d = None \<longrightarrow> wal_ready d2" using d2(6) by (simp add: wal_ready_def)
  ultimately show ?thesis using d2(1) by (intro exI [of _ x] exI [of _ d2]) simp
qed

lemma query_cache_frame:
  "on_query_cache f d = Some (x, d') \<Longrightarrow> db_is_closed d' = db_is_closed d \<and> db_current_txn_id d' = db_current_txn_id d"
  by (auto simp: on_query_cache_def split: res.splits)

lemma register_frame:
  "db_register_snapshot de t p d = (x, d') \<Longrightarrow> db_is_closed d' = db_is_closed d \<and> db_current_txn_id d' = db_current_txn_id d"
  by (auto simp: db_register_snapshot_def then_do_def on_registry_data_def on_registry_def split: res.splits prod.splits)

lemma prepare_frame:
  "wtxn_prepare de w d = (x, w', d') \<Longrightarrow> db_is_closed d' = db_is_closed d \<and> db_current_txn_id d' = db_current_txn_id d"
  by (auto simp: wtxn_prepare_def log_mutations_def Let_def split: if_splits res.splits option.splits prod.splits)

lemma commit_frame:
  assumes "wtxn_commit de w d = Some (x, d')"
  shows "db_is_closed d' = db_is_closed d \<and> db_current_txn_id d' = db_current_txn_id d"
proof -
  have "commit_mutations de w1 d1 = Some (y, d2) \<Longrightarrow> db_is_closed d2 = db_is_closed d1 \<and> db_current_txn_id d2 = db_current_txn_id d1"
    for w1 d1 y d2
    by (auto simp: commit_mutations_def db_apply_mutations_def Let_def split: option.splits prod.splits res.splits
        dest!: query_cache_frame register_frame)
  then show ?thesis
    using assms by (auto simp: wtxn_commit_def split: if_splits prod.splits res.splits dest!: prepare_frame)
qed

lemma sample_next_write:
  assumes "db_is_closed d = False" "db_current_txn_id d \<noteq> - 1"
  shows "\<exists>w d'. begin_write 0 d = (Ok w, d') \<and> w = write_txn_new 0 (db_current_txn_id d + 1)"
proof -
  have "txn_next (db_current_txn_id d) = Some (db_current_txn_id d + 1)"
    using assms(2) by (simp add: txn_next_def checked_add_one_Some)
  then show ?thesis using assms(1) by (simp add: begin_write_def)
qed

lemma sample_buffer:
  "length big = 16777216 \<Longrightarrow> \<exists>w'. buffer_all [Put [1] [7], Put [2] big] (write_txn_new 0 t) = Ok w'"
  "\<exists>w'. buffer_all [Put [3] [9]] (write_txn_new 0 t) = Ok w'"
  by (simp_all add: write_txn_new_def context_new_def wtxn_put_def context_put_def validate_mutation_def MAX_KEY_SIZE_def
      MAX_VALUE_SIZE_def MAX_OPERATIONS_PER_COMMIT_def)

lemma sample_oversized:
  obtains d c w d1 w' big where "db_leaf sample_db_env d FIRST_DATA (checksummed c (leaf_new FIRST_DATA)) 100" "wal_ready d"
    "begin_write 0 d = (Ok w, d1)" "buffer_all [Put [1] [7], Put [2] big] w = Ok w'" "length big = 16777216" "db_wal d = None"
    "db_current_txn_id d = 0"
proof -
  let ?cfg = "build_enable_wal False db_config_default"
  have cpus: "usize_is_power_of_two (env_num_cpus (de_env sample_db_env))" and n: "(100 :: nat) < 16384"
    unfolding usize_is_power_of_two_def by (rule bexI [of _ 0]) (simp_all add: sample_env_def sample_db_env_def)
  obtain d c where d: "db_leaf sample_db_env d FIRST_DATA (checksummed c (leaf_new FIRST_DATA)) 100" "wal_ready d"
    "db_current_txn_id d = 0" "\<not> dc_enable_wal ?cfg \<Longrightarrow> db_wal d = None"
    by (rule open_new_leaf [OF cpus n, of "''db''" ?cfg None], rule that)
  have no_wal: "db_wal d = None" by (rule d(4)) (simp add: build_enable_wal_def)
  have "db_is_closed d = False" using d(1) by (simp add: db_leaf_def db_base_def Let_def)
  then obtain d1 where b: "begin_write 0 d = (Ok (write_txn_new 0 1), d1)"
    using sample_next_write [of d] d(3) by auto
  obtain big :: bytes where len: "length big = 16777216" using Ex_list_of_length by blast
  obtain w' where "buffer_all [Put [1] [7], Put [2] big] (write_txn_new 0 1) = Ok w'"
    using sample_buffer(1) [OF len, of 1] by blast
  then show ?thesis by (rule that [OF d(1,2) b _ len no_wal d(3)])
qed

theorem failed_commit_leaks_witness:
  "\<exists>d w d1 w' big x d2 w2 d3 w3 d4. length big = 16777216 \<and> begin_write 0 d = (Ok w, d1) \<and>
     buffer_all [Put [1] [7], Put [2] big] w = Ok w' \<and> wtxn_commit sample_db_env w' d1 = Some (Err x, d2) \<and>
     begin_write 0 d2 = (Ok w2, d3) \<and> buffer_all [Put [3] [9]] w2 = Ok w3 \<and>
     wtxn_commit sample_db_env w3 d3 = Some (Ok (), d4) \<and> db_reads sample_db_env d4 [[1] \<mapsto> [7], [3] \<mapsto> [9]]"
proof -
  obtain d c w d1 w' big where d: "db_leaf sample_db_env d FIRST_DATA (checksummed c (leaf_new FIRST_DATA)) 100" "wal_ready d"
    "begin_write 0 d = (Ok w, d1)" "buffer_all [Put [1] [7], Put [2] big] w = Ok w'" "length big = 16777216" "db_wal d = None"
    "db_current_txn_id d = 0" by (rule sample_oversized, rule that)
  have dl: "db_leaf sample_db_env d FIRST_DATA (checksummed c (leaf_new FIRST_DATA)) (90 + 3 * length [Put [3] [9]] + 7)"
    using d(1) by simp
  have takes: "leaf_takes (checksummed c (leaf_new FIRST_DATA)) [Put [1] [7], Put [3] [9]]"
    "\<forall>m \<in> set [Put [1] [7], Put [3] [9]]. plain_value m" "[Put [3] [9]] \<noteq> []"
    by (auto simp: leaf_takes_def leaf_used_def mutation_need_def serialized_size_def leaf_map_def key_map_def
        leaf_new_def Let_def MAX_KEY_LENGTH_def overflow_consts plain_value_def entry_of_def is_overflow_value_def)
  obtain x d2 where d2: "wtxn_commit sample_db_env w' d1 = Some (Err x, d2)" "wal_ready d2"
    and later: "\<And>w2 d3 w3. begin_write 0 d2 = (Ok w2, d3) \<Longrightarrow> buffer_all [Put [3] [9]] w2 = Ok w3 \<Longrightarrow>
      \<exists>d4. wtxn_commit sample_db_env w3 d3 = Some (Ok (), d4) \<and> db_reads sample_db_env d4 (foldl apply_mutation [[1] \<mapsto> [7]] [Put [3] [9]])"
    using failed_commit_leaks [OF dl d(2-5) takes, unfolded sample_fits(3)] d(6) by blast
  have "db_is_closed d2 = False" "db_current_txn_id d2 \<noteq> - 1"
    using commit_frame [OF d2(1)] begin_write_Ok(1) [OF d(3)] d(1,7) by (simp_all add: db_leaf_def db_base_def Let_def)
  then obtain w2 d3 where w2: "begin_write 0 d2 = (Ok w2, d3)" "w2 = write_txn_new 0 (db_current_txn_id d2 + 1)"
    using sample_next_write by blast
  then obtain w3 where w3: "buffer_all [Put [3] [9]] w2 = Ok w3" using sample_buffer(2) by blast
  from later [OF w2(1) w3] obtain d4 where "wtxn_commit sample_db_env w3 d3 = Some (Ok (), d4)"
    "db_reads sample_db_env d4 [[1] \<mapsto> [7], [3] \<mapsto> [9]]" by auto
  with d(3-5) d2(1) w2(1) w3 show ?thesis by blast
qed

section \<open>The in-memory database\<close>

lemma create_memory_size:
  assumes "create_memory crc = Ok g"
  obtains data where "pgr_storage g = MemoryStorage data" "length data = 2 * PAGE_SIZE" "pager_root_page_id g = FIRST_DATA"
    "pager_committed_txn_id g = 0"
proof -
  have off: "checked_mul META_A (word_of_nat PAGE_SIZE) = Some 0" "checked_mul META_B (word_of_nat PAGE_SIZE) = Some (word_of_nat PAGE_SIZE)"
    by (simp_all add: checked_mul_def META_A_def META_B_def PAGE_SIZE_def)
  have "\<exists>data. pgr_storage g = MemoryStorage data \<and> length data = 2 * PAGE_SIZE"
    using assms off
    by (auto simp: create_memory_def write_meta_pages_def Let_def memory_write_page_def ok_or_def length_splice split: if_splits)
      (auto simp: PAGE_SIZE_def grow_def)
  moreover have "pgr_current_meta g = initial_meta crc"
    using assms by (auto simp: create_memory_def write_meta_pages_def Let_def)
  then have "pager_root_page_id g = FIRST_DATA" "pager_committed_txn_id g = 0"
    using initial_meta_facts(3) [of crc]
    by (simp_all add: pager_root_page_id_def pager_committed_txn_id_def)
      (simp add: initial_meta_def update_committed_txn_id_def meta_state_refresh_def meta_state_new_def meta_update_checksum_def meta_payload_new_def)
  ultimately show ?thesis using that by blast
qed

definition missing_root :: error where
  "missing_root = Io (FileTooSmall '':memory:'' 32768 49152)"

lemma memory_root_missing:
  assumes "cg_create_memory e = Ok s"
  shows "btree_new e s FIRST_DATA = (Err missing_root, s)"
proof -
  obtain c g where cg: "page_cache_new (env_num_cpus e) = Ok c" "create_memory (env_crc e) = Ok g" "s = \<lparr>cg_pager = g, cg_cache = c\<rparr>"
    using assms by (auto simp: cg_create_memory_def)
  obtain data where data: "pgr_storage g = MemoryStorage data" "length data = 2 * PAGE_SIZE"
    by (rule create_memory_size [OF cg(2)], rule that)
  have "storage_read_page (cg_storage s) FIRST_DATA PAGE_SIZE = Err missing_root"
    using data by (simp add: cg(3) memory_read_page_def checked_mul_def ok_or_def FIRST_DATA_def PAGE_SIZE_def missing_root_def)
  moreover obtain a where a: "cache_with_config (page_cache_config (env_num_cpus e)) = Ok a" "pc_cache c = a"
    using cg(1) by (auto simp: page_cache_new_def page_cache_with_config_def)
  then have "cg_cache_get e FIRST_DATA s = (Ok None, s)"
    using fresh_cache_get [OF a(1), of "env_hash e" FIRST_DATA] by (simp add: cg_cache_get_def pc_get_def cg(3))
  ultimately have "read_btree_node e FIRST_DATA s = (Err missing_root, s)"
    by (simp add: read_btree_node_def read_page_cached_raw_def cached_read_def then_do_def cg_read_page_raw_def)
  then show ?thesis by (simp add: btree_new_def)
qed

lemma memory_db_state:
  assumes "db_memory de = Ok d"
  shows "btree_new (de_env de) (sr_pager (db_registry d)) FIRST_DATA = (Err missing_root, sr_pager (db_registry d))"
    "get_latest_snapshot (sr_data (db_registry d)) = Some (0, FIRST_DATA)" "rd_current_txn_id (sr_data (db_registry d)) = 0"
    "\<not> db_is_closed d" "db_wal d = None" "\<exists>cl. query_cache_clone (db_query_cache d) = Ok cl"
proof -
  obtain g qc where g: "cg_create_memory (de_env de) = Ok g" "query_cache_new (env_num_cpus (de_env de)) = Ok qc"
    "db_registry d = registry_with_genesis g (pager_root_page_id (cg_pager g))" "db_wal d = None" "\<not> db_is_closed d" "db_query_cache d = qc"
    using assms by (auto simp: db_memory_def)
  have root: "pager_root_page_id (cg_pager g) = FIRST_DATA"
    using g(1) create_memory_size by (auto simp: cg_create_memory_def)
  show "btree_new (de_env de) (sr_pager (db_registry d)) FIRST_DATA = (Err missing_root, sr_pager (db_registry d))"
    using memory_root_missing [OF g(1)] by (simp add: g(3) registry_with_genesis_def registry_with_txn_id_def)
  show "get_latest_snapshot (sr_data (db_registry d)) = Some (0, FIRST_DATA)" "rd_current_txn_id (sr_data (db_registry d)) = 0"
    by (simp_all add: g(3) root registry_with_genesis_def registry_with_txn_id_def concurrency_with_txn_id_def get_latest_snapshot_def
        rd_get_root_def TXN_INITIAL_def)
  show "\<not> db_is_closed d" "db_wal d = None" by fact+
  show "\<exists>cl. query_cache_clone (db_query_cache d) = Ok cl"
    using g(2,6) clone_total by (simp add: query_cache_new_def)
qed

lemma memory_get_fails:
  assumes "query_cache_clone (db_query_cache d) = Ok cl"
    and "btree_new (de_env de) (sr_pager (db_registry d)) p = (Err x, sr_pager (db_registry d))"
  shows "\<exists>d'. read_txn_get de \<lparr>rt_txn_id = t, rt_root_page_id = p\<rparr> key d = Some (Err x, d')"
proof -
  let ?k = "point_get (de_param_hash de) key t"
  have "on_query_cache (\<lambda>c. qc_get (de_query_hash de) c ?k t) d =
      Some (Ok None, d\<lparr>db_query_cache := share_back (db_query_cache d) (cl\<lparr>qc_stats := count_miss (qc_stats (db_query_cache d))\<rparr>)\<rparr>)"
    using assms(1) clone_misses [OF assms(1), of "de_query_hash de" ?k t] by (simp add: on_query_cache_def)
  then show ?thesis
    using assms(2) by (simp add: read_txn_get_def Let_def cached_query_def db_with_btree_def with_btree_def on_tree_def)
qed

text \<open>The in-memory database cannot be used. \<open>Pager::create_memory\<close> writes the two meta pages but, unlike
  \<open>create_file\<close>, no root leaf, so page 2 is past the end of the storage: on a handle from \<open>Db::memory\<close> every read
  fails, and so does the commit of every transaction with a mutation.\<close>

theorem memory_db_unusable:
  assumes "db_memory de = Ok d"
  shows "(\<exists>rt d1. begin_read d = (Ok rt, d1) \<and> (\<forall>key. \<exists>d2. read_txn_get de rt key d1 = Some (Err missing_root, d2))) \<and>
    (\<forall>now w d1 ms w'. begin_write now d = (Ok w, d1) \<longrightarrow> buffer_all ms w = Ok w' \<longrightarrow> ms \<noteq> [] \<longrightarrow>
       (\<exists>d2. wtxn_commit de w' d1 = Some (Err missing_root, d2)))"
proof -
  note st = memory_db_state [OF assms]
  define d1 where "d1 = d\<lparr>db_registry := (db_registry d)\<lparr>sr_data := snd (increment_ref_count (sr_data (db_registry d)) 0)\<rparr>\<rparr>"
  have "begin_read d = (Ok \<lparr>rt_txn_id = 0, rt_root_page_id = FIRST_DATA\<rparr>, d1)"
    using st(2,4) by (simp add: begin_read_def on_registry_data_def take_snapshot_def then_do_def snapshot_new_def read_txn_new_def d1_def)
  moreover have "\<exists>d2. read_txn_get de \<lparr>rt_txn_id = 0, rt_root_page_id = FIRST_DATA\<rparr> key d1 = Some (Err missing_root, d2)" for key
    using st(6) memory_get_fails [of d1 _ de FIRST_DATA missing_root 0 key] st(1) by (auto simp: d1_def)
  moreover have "\<exists>d2. wtxn_commit de w' d2' = Some (Err missing_root, d2)"
    if w: "begin_write now d = (Ok w, d2')" "buffer_all ms w = Ok w'" "ms \<noteq> []" for now w d2' ms w'
  proof -
    note bw = begin_write_Ok [OF w(1)]
    have "context_inv (wt_ctx w)" "tc_state (wt_ctx w) = Active"
      using bw(3) context_new_inv by (simp_all add: write_txn_new_def) (simp add: context_new_def)
    with buffer_all_Ok [OF w(2)] w(3) have c: "context_inv (wt_ctx w')" "tc_state (wt_ctx w') = Active" "tc_mutations (wt_ctx w') \<noteq> []"
      by simp_all
    then have "has_mutations (wt_ctx w')" by (simp add: has_mutations_def context_inv_def)
    then show ?thesis
      using c(2) st(1,2,5) bw(1)
      by (simp add: wtxn_commit_def wtxn_prepare_def context_transition_def transition_to_preparing_def validate_prepare_def
          log_mutations_def Let_def has_mutations_def commit_mutations_def db_apply_mutations_def apply_mutations_def on_tree_def)
  qed
  ultimately show ?thesis by blast
qed

theorem memory_db_unusable_witness:
  "\<exists>d rt d1 d2 w d3 w' d4. db_memory sample_db_env = Ok d \<and> begin_read d = (Ok rt, d1) \<and>
     read_txn_get sample_db_env rt [1] d1 = Some (Err missing_root, d2) \<and> begin_write 0 d = (Ok w, d3) \<and>
     buffer_all [Put [3] [9]] w = Ok w' \<and> wtxn_commit sample_db_env w' d3 = Some (Err missing_root, d4)"
proof -
  have cpus: "usize_is_power_of_two (env_num_cpus (de_env sample_db_env))"
    unfolding usize_is_power_of_two_def by (rule bexI [of _ 0]) (simp_all add: sample_env_def sample_db_env_def)
  then obtain d where d: "db_memory sample_db_env = Ok d"
    using cg_create_memory_total query_cache_new_clone by (fastforce simp: db_memory_def)
  have "db_current_txn_id d = 0"
    using d create_memory_size by (auto simp: db_memory_def cg_create_memory_def)
  with memory_db_state(4) [OF d] obtain d3 where w: "begin_write 0 d = (Ok (write_txn_new 0 1), d3)"
    using sample_next_write [of d] by auto
  from memory_db_unusable [OF d] sample_buffer(2) [of 1] w d show ?thesis by blast
qed

section \<open>A transaction without mutations\<close>

text \<open>\<open>prepare\<close> returns early without entering the state \<open>Preparing\<close>, and \<open>commit\<close> then asks for the
  transition to \<open>Committed\<close>, which only that state allows.\<close>

lemma empty_commit_fails:
  assumes "begin_write now d = (Ok w, d1)"
  shows "\<exists>x. wtxn_commit de w d1 = Some (Err x, d1)"
  using begin_write_Ok(3) [OF assms]
  by (simp add: wtxn_commit_def wtxn_prepare_def write_txn_new_def context_new_def has_mutations_def context_transition_def
      transition_to_committed_def validate_commit_def)

end
