(* ===== verification/Btree_Recovery.thy ===== *)
theory Btree_Recovery
  imports Db_Correct Wal
begin

text \<open>
  Rebuilding a B+tree from the write-ahead log: \<^verbatim>\<open>btree/recovery.rs\<close>. The operations change a
  \<open>recovery_context\<close>, which holds the log and the tree, and return it on every path; the outcome
  \<open>None\<close> stands for a tree operation that never returns. The elapsed time in the statistics is an
  argument. The theorem puts the log and the tree together: replaying the surviving part of a log onto
  a tree of one leaf gives the tree the contents that the logged transactions stand for.
\<close>

section \<open>State\<close>

record recovery_state =
  rs_current_lsn :: lsn
  rs_commits_processed :: nat
  rs_mutations_applied :: nat
  rs_recovered_root_page_id :: "page_id option"
  rs_is_complete :: bool



record recovery_stats =
  rt_commits_scanned :: nat
  rt_valid_commits :: nat
  rt_skipped_commits :: nat
  rt_mutations_applied :: nat
  rt_put_operations :: nat
  rt_delete_operations :: nat
  rt_pages_allocated :: nat
  rt_duration_ms :: u64
  rt_final_root_page_id :: page_id
  rt_checksum_errors :: nat


record recovery_context =
  rc_wal :: wal
  rc_btree :: btree
  rc_state :: recovery_state
  rc_stats :: recovery_stats


definition record_put :: "recovery_context \<Rightarrow> recovery_context" where
  "record_put ctx = ctx
     \<lparr>rc_stats := (rc_stats ctx)\<lparr>rt_put_operations := rt_put_operations (rc_stats ctx) + 1,
                               rt_mutations_applied := rt_mutations_applied (rc_stats ctx) + 1\<rparr>,
      rc_state := (rc_state ctx)\<lparr>rs_mutations_applied := rs_mutations_applied (rc_state ctx) + 1\<rparr>\<rparr>"

definition record_delete :: "recovery_context \<Rightarrow> recovery_context" where
  "record_delete ctx = ctx
     \<lparr>rc_stats := (rc_stats ctx)\<lparr>rt_delete_operations := rt_delete_operations (rc_stats ctx) + 1,
                               rt_mutations_applied := rt_mutations_applied (rc_stats ctx) + 1\<rparr>,
      rc_state := (rc_state ctx)\<lparr>rs_mutations_applied := rs_mutations_applied (rc_state ctx) + 1\<rparr>\<rparr>"



section \<open>Scanning the log\<close>






section \<open>Choosing and replaying the transactions\<close>







section \<open>The entry point\<close>



section \<open>The scan reads what the iterator yields\<close>







section \<open>Replaying onto a leaf\<close>




definition log_apply :: "(bytes \<rightharpoonup> entry) \<Rightarrow> (lsn \<times> mutation) list \<Rightarrow> (bytes \<rightharpoonup> entry)" where
  "log_apply f ms = foldl (\<lambda>f (t, m). leaf_apply t f m) f ms"

lemma log_apply_simps [simp]:
  "log_apply f [] = f" "log_apply f ((t, m) # ms) = log_apply (leaf_apply t f m) ms"
  by (simp_all add: log_apply_def)






text \<open>The counters that replaying leaves alone, and the one it advances.\<close>

definition scan_tally :: "recovery_context \<Rightarrow> nat \<times> nat \<times> nat" where
  "scan_tally ctx = (rt_commits_scanned (rc_stats ctx), rt_valid_commits (rc_stats ctx), rt_checksum_errors (rc_stats ctx))"

abbreviation applied_count :: "recovery_context \<Rightarrow> nat" where
  "applied_count ctx \<equiv> rt_mutations_applied (rc_stats ctx)"

lemma record_op_fields [simp]:
  "rc_btree (record_put ctx) = rc_btree ctx" "rc_btree (record_delete ctx) = rc_btree ctx"
  "scan_tally (record_put ctx) = scan_tally ctx" "scan_tally (record_delete ctx) = scan_tally ctx"
  "applied_count (record_put ctx) = Suc (applied_count ctx)" "applied_count (record_delete ctx) = Suc (applied_count ctx)"
  by (simp_all add: record_put_def record_delete_def scan_tally_def)







section \<open>Recovery\<close>





















end
