(* ===== verification/Delta.thy ===== *)
theory Delta
  imports Ids Errors "HOL-Library.Multiset"
begin

text \<open>
  The delta layer (\<^verbatim>\<open>btree/delta.rs\<close>), the buffer of a transaction's uncommitted changes, and the version
  chains of \<^verbatim>\<open>btree/version.rs\<close>. A \<open>HashMap\<close> is an association list with distinct keys; the serializer sorts
  it by key, so the order of iteration does not show. The average size in the statistics, a floating point
  number, is left out.
\<close>

section \<open>delta.rs\<close>

definition DELTA_MAX_KEY_SIZE :: nat where "DELTA_MAX_KEY_SIZE = 255"
definition DELTA_MAX_VALUE_SIZE :: nat where "DELTA_MAX_VALUE_SIZE = 16777215"
definition MAX_OPERATIONS_PER_TXN :: nat where "MAX_OPERATIONS_PER_TXN = 100000"
definition MAX_DELTA_SIZE :: nat where "MAX_DELTA_SIZE = 16777216"
definition MUTATION_OVERHEAD :: nat where "MUTATION_OVERHEAD = 32"
definition MUTATION_TYPE_PUT :: u8 where "MUTATION_TYPE_PUT = 1"
definition MUTATION_TYPE_DELETE :: u8 where "MUTATION_TYPE_DELETE = 2"

lemmas delta_consts = DELTA_MAX_KEY_SIZE_def DELTA_MAX_VALUE_SIZE_def MAX_OPERATIONS_PER_TXN_def MAX_DELTA_SIZE_def
  MUTATION_OVERHEAD_def MUTATION_TYPE_PUT_def MUTATION_TYPE_DELETE_def

datatype mutation_entry = PutEntry bytes bytes lsn nat | DeleteEntry bytes lsn nat

fun me_key :: "mutation_entry \<Rightarrow> bytes" where
  "me_key (PutEntry key _ _ _) = key"
| "me_key (DeleteEntry key _ _) = key"

fun me_size :: "mutation_entry \<Rightarrow> nat" where
  "me_size (PutEntry _ _ _ n) = n"
| "me_size (DeleteEntry _ _ n) = n"

fun me_lsn :: "mutation_entry \<Rightarrow> lsn" where
  "me_lsn (PutEntry _ _ l _) = l"
| "me_lsn (DeleteEntry _ l _) = l"

fun me_is_put :: "mutation_entry \<Rightarrow> bool" where
  "me_is_put (PutEntry _ _ _ _) = True"
| "me_is_put (DeleteEntry _ _ _) = False"

definition me_is_delete :: "mutation_entry \<Rightarrow> bool" where
  "me_is_delete e \<longleftrightarrow> \<not> me_is_put e"

record delta_layer =
  dl_mutations :: "(bytes \<times> mutation_entry) list"
  dl_size :: nat
  dl_operation_count :: nat

definition delta_new :: delta_layer where
  "delta_new = \<lparr>dl_mutations = [], dl_size = 0, dl_operation_count = 0\<rparr>"

text \<open>The end of both recording functions: the old entry of the key gives way to the new one.\<close>

definition replace_entry :: "mutation_entry \<Rightarrow> delta_layer \<Rightarrow> delta_layer outcome" where
  "replace_entry e d =
     (case map_of (dl_mutations d) (me_key e) of
        Some old \<Rightarrow>
          if dl_size d < me_size old then Panic
          else Ok (d\<lparr>dl_mutations := AList.update (me_key e) e (AList.delete (me_key e) (dl_mutations d)),
                     dl_size := dl_size d - me_size old + me_size e\<rparr>)
      | None \<Rightarrow>
          Ok (d\<lparr>dl_mutations := AList.update (me_key e) e (dl_mutations d),
                dl_size := dl_size d + me_size e, dl_operation_count := dl_operation_count d + 1\<rparr>))"

definition too_many_operations :: "delta_layer \<Rightarrow> error" where
  "too_many_operations d =
     Validation (TooManyOperations (word_of_nat (dl_operation_count d)) (word_of_nat MAX_OPERATIONS_PER_TXN))"

definition delta_record_put :: "bytes \<Rightarrow> bytes \<Rightarrow> lsn \<Rightarrow> delta_layer \<Rightarrow> delta_layer outcome" where
  "delta_record_put key val l d =
     (if DELTA_MAX_KEY_SIZE < length key then Err (SizeLimit (KeyTooLarge (length key) DELTA_MAX_KEY_SIZE))
      else if DELTA_MAX_VALUE_SIZE < length val then Err (SizeLimit (ValueTooLarge (length val) DELTA_MAX_VALUE_SIZE))
      else if MAX_OPERATIONS_PER_TXN \<le> dl_operation_count d then Err (too_many_operations d)
      else
        let mutation_size = length key + length val + MUTATION_OVERHEAD in
        if MAX_DELTA_SIZE < dl_size d + mutation_size
        then Err (SizeLimit (BufferTooSmall (dl_size d + mutation_size) MAX_DELTA_SIZE))
        else replace_entry (PutEntry key val l mutation_size) d)"

definition delta_record_delete :: "bytes \<Rightarrow> lsn \<Rightarrow> delta_layer \<Rightarrow> delta_layer outcome" where
  "delta_record_delete key l d =
     (if DELTA_MAX_KEY_SIZE < length key then Err (SizeLimit (KeyTooLarge (length key) DELTA_MAX_KEY_SIZE))
      else if MAX_OPERATIONS_PER_TXN \<le> dl_operation_count d then Err (too_many_operations d)
      else replace_entry (DeleteEntry key l (length key + MUTATION_OVERHEAD)) d)"

definition delta_get :: "delta_layer \<Rightarrow> bytes \<Rightarrow> mutation_entry option" where
  "delta_get d key = map_of (dl_mutations d) key"

definition delta_contains :: "delta_layer \<Rightarrow> bytes \<Rightarrow> bool" where
  "delta_contains d key \<longleftrightarrow> delta_get d key \<noteq> None"

record delta_stats =
  ds_mutation_count :: nat
  ds_put_count :: nat
  ds_delete_count :: nat
  ds_total_size :: nat
  ds_largest_mutation :: nat

definition delta_get_stats :: "delta_layer \<Rightarrow> delta_stats" where
  "delta_get_stats d =
     (let entries = map snd (dl_mutations d);
          put_count = length (filter me_is_put entries);
          delete_count = length (filter me_is_delete entries)
      in \<lparr>ds_mutation_count = put_count + delete_count, ds_put_count = put_count, ds_delete_count = delete_count,
          ds_total_size = dl_size d, ds_largest_mutation = foldl max 0 (map me_size entries)\<rparr>)"

fun serialize_entry :: "bytes \<times> mutation_entry \<Rightarrow> bytes" where
  "serialize_entry (key, PutEntry _ val _ _) =
     [MUTATION_TYPE_PUT, word_of_nat (length key)] @ key @ le32 (word_of_nat (length val)) @ val"
| "serialize_entry (key, DeleteEntry _ _ _) =
     [MUTATION_TYPE_DELETE, word_of_nat (length key)] @ key @ le32 0"

definition delta_serialize :: "delta_layer \<Rightarrow> bytes" where
  "delta_serialize d =
     le32 (word_of_nat (length (dl_mutations d))) @ concat (map serialize_entry (sort_key fst (dl_mutations d)))"

definition read_exact :: "nat \<Rightarrow> bytes \<Rightarrow> (bytes \<times> bytes) outcome" where
  "read_exact n cursor = (if length cursor < n then Err (Io IncompleteKey) else Ok (take n cursor, drop n cursor))"

text \<open>An entry as the deserializer builds it, put into the layer.\<close>

definition insert_entry :: "mutation_entry \<Rightarrow> delta_layer \<Rightarrow> delta_layer" where
  "insert_entry e d = d\<lparr>dl_mutations := AList.update (me_key e) e (dl_mutations d),
     dl_size := dl_size d + me_size e, dl_operation_count := dl_operation_count d + 1\<rparr>"

fun deserialize_entries :: "nat \<Rightarrow> bytes \<Rightarrow> delta_layer \<Rightarrow> delta_layer outcome" where
  "deserialize_entries 0 cursor d = Ok d"
| "deserialize_entries (Suc k) cursor d =
     and_then (read_exact 1 cursor) (\<lambda>(type_byte, cursor).
     and_then (read_exact 1 cursor) (\<lambda>(key_len_byte, cursor).
     and_then (read_exact (unat (hd key_len_byte)) cursor) (\<lambda>(key, cursor).
     and_then (read_exact 4 cursor) (\<lambda>(value_len_bytes, cursor).
       let mutation_type = hd type_byte; key_len = unat (hd key_len_byte);
           value_len = unat (from_le value_len_bytes :: u32) in
       if mutation_type = MUTATION_TYPE_PUT then
         and_then (read_exact value_len cursor) (\<lambda>(val, cursor).
           deserialize_entries k cursor
             (insert_entry (PutEntry key val LSN_INITIAL (key_len + value_len + MUTATION_OVERHEAD)) d))
       else if mutation_type = MUTATION_TYPE_DELETE then
         (if value_len \<noteq> 0 then Err (Validation VDeleteHasValue)
          else deserialize_entries k cursor (insert_entry (DeleteEntry key LSN_INITIAL (key_len + MUTATION_OVERHEAD)) d))
       else Err (Validation (InvalidOperationType mutation_type))))))"

definition delta_deserialize :: "bytes \<Rightarrow> delta_layer outcome" where
  "delta_deserialize bs =
     and_then (read_exact 4 bs) (\<lambda>(op_count_bytes, cursor).
       deserialize_entries (unat (from_le op_count_bytes :: u32)) cursor delta_new)"

definition delta_clear :: "delta_layer \<Rightarrow> delta_layer" where
  "delta_clear d = d\<lparr>dl_mutations := [], dl_size := 0, dl_operation_count := 0\<rparr>"

section \<open>version.rs\<close>

record btree_versioned_value =
  vv_value :: bytes
  vv_lsn :: lsn
  vv_is_tombstone :: bool


definition version_tombstone :: "lsn \<Rightarrow> btree_versioned_value" where
  "version_tombstone l = \<lparr>vv_value = [], vv_lsn = l, vv_is_tombstone = True\<rparr>"

definition btree_version_is_visible :: "lsn \<Rightarrow> btree_versioned_value \<Rightarrow> bool" where
  "btree_version_is_visible snapshot_lsn v \<longleftrightarrow> vv_lsn v \<le> snapshot_lsn"

text \<open>A chain is the list of its versions, from the newest to the oldest.\<close>

type_synonym btree_version_chain = "btree_versioned_value list"

definition chain_add_version :: "btree_versioned_value \<Rightarrow> btree_version_chain \<Rightarrow> btree_version_chain" where
  "chain_add_version v vs = (let vs' = v # vs in if 10 < length vs' then take 10 vs' else vs')"

definition btree_chain_resolve :: "lsn \<Rightarrow> btree_version_chain \<Rightarrow> btree_versioned_value option" where
  "btree_chain_resolve snapshot_lsn vs = find (btree_version_is_visible snapshot_lsn) vs"

definition btree_chain_latest :: "btree_version_chain \<Rightarrow> btree_versioned_value option" where
  "btree_chain_latest vs = (case vs of [] \<Rightarrow> None | v # _ \<Rightarrow> Some v)"

definition chain_reclaim_old :: "lsn \<Rightarrow> btree_version_chain \<Rightarrow> nat \<times> btree_version_chain" where
  "chain_reclaim_old oldest_lsn vs =
     (let kept = filter (\<lambda>v. oldest_lsn \<le> vv_lsn v) vs in (length vs - length kept, kept))"

type_synonym version_store = "(bytes \<times> btree_version_chain) list"

definition store_add_version :: "bytes \<Rightarrow> btree_versioned_value \<Rightarrow> version_store \<Rightarrow> version_store" where
  "store_add_version key v s =
     AList.update key (chain_add_version v (case map_of s key of Some c \<Rightarrow> c | None \<Rightarrow> [])) s"

definition store_resolve :: "bytes \<Rightarrow> lsn \<Rightarrow> version_store \<Rightarrow> btree_versioned_value option" where
  "store_resolve key snapshot_lsn s = (case map_of s key of None \<Rightarrow> None | Some c \<Rightarrow> btree_chain_resolve snapshot_lsn c)"

definition store_latest :: "bytes \<Rightarrow> version_store \<Rightarrow> btree_versioned_value option" where
  "store_latest key s = (case map_of s key of None \<Rightarrow> None | Some c \<Rightarrow> btree_chain_latest c)"

definition store_exists :: "bytes \<Rightarrow> lsn \<Rightarrow> version_store \<Rightarrow> bool" where
  "store_exists key snapshot_lsn s =
     (case store_resolve key snapshot_lsn s of Some v \<Rightarrow> \<not> vv_is_tombstone v | None \<Rightarrow> False)"

definition store_delete :: "bytes \<Rightarrow> lsn \<Rightarrow> version_store \<Rightarrow> version_store" where
  "store_delete key l s = store_add_version key (version_tombstone l) s"

definition store_remove_chain :: "bytes \<Rightarrow> version_store \<Rightarrow> bool \<times> version_store" where
  "store_remove_chain key s = (map_of s key \<noteq> None, AList.delete key s)"

definition store_reclaim_all :: "lsn \<Rightarrow> version_store \<Rightarrow> nat \<times> version_store" where
  "store_reclaim_all oldest_lsn s =
     (sum_list (map (\<lambda>(_, c). fst (chain_reclaim_old oldest_lsn c)) s),
      map (\<lambda>(k, c). (k, snd (chain_reclaim_old oldest_lsn c))) s)"

section \<open>Association lists\<close>

lemma alist_update_new: "k \<notin> fst ` set al \<Longrightarrow> AList.update k v al = al @ [(k, v)]"
  by (induction al) auto

lemma alist_delete_entry:
  fixes f :: "'k \<times> 'v \<Rightarrow> nat"
  assumes "distinct (map fst al)" "map_of al k = Some v"
  shows "sum_list (map f al) = f (k, v) + sum_list (map f (AList.delete k al)) \<and> length al = Suc (length (AList.delete k al))"
  using assms
proof (induction al)
  case (Cons x al)
  have "AList.delete (fst x) al = al" if "fst x \<notin> fst ` set al"
    using that by (induction al) (auto simp: AList.delete_eq)
  with Cons show ?case by (cases x) (auto simp: AList.delete_eq split: if_splits)
qed simp

section \<open>The delta layer\<close>

fun entry_wf :: "bytes \<Rightarrow> mutation_entry \<Rightarrow> bool" where
  "entry_wf k (PutEntry key val l n) \<longleftrightarrow>
     key = k \<and> length k \<le> DELTA_MAX_KEY_SIZE \<and> length val \<le> DELTA_MAX_VALUE_SIZE \<and> n = length k + length val + MUTATION_OVERHEAD"
| "entry_wf k (DeleteEntry key l n) \<longleftrightarrow> key = k \<and> length k \<le> DELTA_MAX_KEY_SIZE \<and> n = length k + MUTATION_OVERHEAD"

definition delta_inv :: "delta_layer \<Rightarrow> bool" where
  "delta_inv d \<longleftrightarrow> distinct (map fst (dl_mutations d)) \<and> (\<forall>(k, e) \<in> set (dl_mutations d). entry_wf k e) \<and>
     dl_size d = sum_list (map (me_size \<circ> snd) (dl_mutations d)) \<and>
     dl_operation_count d = length (dl_mutations d) \<and> dl_operation_count d \<le> MAX_OPERATIONS_PER_TXN"

lemma delta_new_inv [inv_rules]: "delta_inv delta_new"
  by (simp add: delta_inv_def delta_new_def)

lemma replace_entry_spec:
  assumes "delta_inv d" "entry_wf (me_key e) e" "dl_operation_count d < MAX_OPERATIONS_PER_TXN"
  shows "\<exists>d'. replace_entry e d = Ok d' \<and> delta_inv d' \<and> map_of (dl_mutations d') = (map_of (dl_mutations d))(me_key e \<mapsto> e)"
proof (cases "map_of (dl_mutations d) (me_key e)")
  case None
  then have new: "me_key e \<notin> fst ` set (dl_mutations d)" by (simp add: map_of_eq_None_iff)
  have "map_of (dl_mutations d @ [(me_key e, e)]) = (map_of (dl_mutations d))(me_key e \<mapsto> e)"
    by (simp add: alist_update_new [OF new, symmetric] update_conv')
  with assms None new show ?thesis
    by (auto simp: replace_entry_def delta_inv_def alist_update_new [OF new])
next
  case (Some old)
  let ?al = "AList.delete (me_key e) (dl_mutations d)"
  have new: "me_key e \<notin> fst ` set ?al" by (auto simp: AList.delete_eq)
  have d: "distinct (map fst (dl_mutations d))" using assms(1) by (simp add: delta_inv_def)
  note split = alist_delete_entry [OF d Some, of "me_size \<circ> snd"]
  have "set ?al \<subseteq> set (dl_mutations d)" "distinct (map fst ?al)"
    using d by (auto simp: AList.delete_eq distinct_map inj_on_def)
  moreover have "map_of (?al @ [(me_key e, e)]) = (map_of (dl_mutations d))(me_key e \<mapsto> e)"
    by (simp add: alist_update_new [OF new, symmetric] update_conv' delete_conv')
  ultimately show ?thesis
    using assms split Some new
    by (auto simp: replace_entry_def delta_inv_def alist_update_new [OF new])
qed

text \<open>A recorded operation, and what a sequence of them leaves for a key: the last operation wins.\<close>

datatype delta_op = RecordPut bytes bytes lsn | RecordDelete bytes lsn

fun delta_record :: "delta_op \<Rightarrow> delta_layer \<Rightarrow> delta_layer outcome" where
  "delta_record (RecordPut key val l) d = delta_record_put key val l d"
| "delta_record (RecordDelete key l) d = delta_record_delete key l d"

fun delta_record_all :: "delta_op list \<Rightarrow> delta_layer \<Rightarrow> delta_layer outcome" where
  "delta_record_all [] d = Ok d"
| "delta_record_all (x # xs) d = and_then (delta_record x d) (delta_record_all xs)"

fun op_effect :: "delta_op \<Rightarrow> (bytes \<rightharpoonup> bytes option) \<Rightarrow> (bytes \<rightharpoonup> bytes option)" where
  "op_effect (RecordPut key val l) f = f(key \<mapsto> Some val)"
| "op_effect (RecordDelete key l) f = f(key \<mapsto> None)"

fun entry_value :: "mutation_entry \<Rightarrow> bytes option" where
  "entry_value (PutEntry _ val _ _) = Some val"
| "entry_value (DeleteEntry _ _ _) = None"

definition delta_view :: "delta_layer \<Rightarrow> (bytes \<rightharpoonup> bytes option)" where
  "delta_view d key = map_option entry_value (delta_get d key)"

lemma delta_view_new: "delta_view delta_new = Map.empty"
  by (simp add: delta_view_def delta_get_def delta_new_def fun_eq_iff)

lemma delta_record_spec:
  assumes "delta_record x d = Ok d'" "delta_inv d"
  shows "delta_inv d' \<and> delta_view d' = op_effect x (delta_view d)"
proof -
  obtain e where e: "replace_entry e d = Ok d'" "entry_wf (me_key e) e" "dl_operation_count d < MAX_OPERATIONS_PER_TXN"
    "op_effect x = (\<lambda>f. f(me_key e \<mapsto> entry_value e))"
    using assms(1) by (cases x) (auto simp: delta_record_put_def delta_record_delete_def Let_def fun_eq_iff split: if_splits)
  with replace_entry_spec [OF assms(2) e(2,3)] show ?thesis
    by (auto simp: delta_view_def delta_get_def fun_eq_iff)
qed

lemma delta_record_all_spec:
  "delta_record_all xs d = Ok d' \<Longrightarrow> delta_inv d \<Longrightarrow> delta_inv d' \<and> delta_view d' = fold op_effect xs (delta_view d)"
proof (induction xs arbitrary: d)
  case (Cons x xs)
  then obtain d1 where "delta_record x d = Ok d1" "delta_record_all xs d1 = Ok d'" by (auto simp: and_then_split)
  with Cons.IH [of d1] delta_record_spec [of x d d1] Cons.prems(2) show ?case by simp
qed simp

section \<open>Serialization\<close>

fun reset_lsn :: "mutation_entry \<Rightarrow> mutation_entry" where
  "reset_lsn (PutEntry key val l n) = PutEntry key val LSN_INITIAL n"
| "reset_lsn (DeleteEntry key l n) = DeleteEntry key LSN_INITIAL n"

lemma reset_lsn_fields [simp]:
  "me_key (reset_lsn e) = me_key e" "me_size (reset_lsn e) = me_size e" "entry_value (reset_lsn e) = entry_value e"
  by (cases e; simp)+

lemma entry_wf_reset [simp]: "entry_wf k (reset_lsn e) = entry_wf k e"
  by (cases e) simp_all

lemma entry_wf_key: "entry_wf k e \<Longrightarrow> me_key e = k"
  by (cases e) simp_all

lemma read_exact_append [simp]: "length xs = n \<Longrightarrow> read_exact n (xs @ ys) = Ok (xs, ys)"
  by (auto simp: read_exact_def)

lemma read_exact_one [simp]: "read_exact (Suc 0) (x # ys) = Ok ([x], ys)"
  by (simp add: read_exact_def)

lemma deserialize_entry:
  assumes "entry_wf k e"
  shows "deserialize_entries (Suc n) (serialize_entry (k, e) @ rest) d = deserialize_entries n rest (insert_entry (reset_lsn e) d)"
proof -
  have len: "unat (word_of_nat (length k) :: u8) = length k"
    using assms by (cases e) (simp_all add: unat_of_nat delta_consts)
  show ?thesis
  proof (cases e)
    case (PutEntry key val l sz)
    then have "unat (word_of_nat (length val) :: u32) = length val"
      using assms by (simp add: unat_of_nat delta_consts)
    with PutEntry assms len show ?thesis
      by (simp add: Let_def from_le_le32 length_le)
  next
    case (DeleteEntry key l sz)
    with assms len show ?thesis
      by (simp add: Let_def from_le_le32 length_le MUTATION_TYPE_PUT_def MUTATION_TYPE_DELETE_def)
  qed
qed

lemma deserialize_concat:
  "\<forall>(k, e) \<in> set es. entry_wf k e \<Longrightarrow>
   deserialize_entries (length es) (concat (map serialize_entry es)) d = Ok (fold (insert_entry \<circ> reset_lsn \<circ> snd) es d)"
proof (induction es arbitrary: d)
  case (Cons x es)
  obtain k e where x: "x = (k, e)" by (cases x)
  with Cons deserialize_entry [of k e "length es" "concat (map serialize_entry es)"] show ?case by simp
qed simp

lemma insert_fold_new:
  assumes "\<forall>(k, e) \<in> set es. entry_wf k e" "distinct (map fst es)" "fst ` set es \<inter> fst ` set (dl_mutations d) = {}"
  shows "fold (insert_entry \<circ> reset_lsn \<circ> snd) es d =
    d\<lparr>dl_mutations := dl_mutations d @ map (apsnd reset_lsn) es, dl_size := dl_size d + sum_list (map (me_size \<circ> snd) es),
      dl_operation_count := dl_operation_count d + length es\<rparr>"
  using assms
proof (induction es arbitrary: d)
  case (Cons x es)
  obtain k e where x: "x = (k, e)" by (cases x)
  have "me_key e = k" "k \<notin> fst ` set (dl_mutations d)" using Cons.prems by (auto simp: x dest: entry_wf_key)
  then have ins: "insert_entry (reset_lsn e) d = d\<lparr>dl_mutations := dl_mutations d @ [(k, reset_lsn e)],
      dl_size := dl_size d + me_size e, dl_operation_count := dl_operation_count d + 1\<rparr>"
    by (simp add: insert_entry_def alist_update_new)
  have "fst ` set es \<inter> fst ` set (dl_mutations (insert_entry (reset_lsn e) d)) = {}"
    using Cons.prems(2,3) by (auto simp: ins x)
  with Cons.IH [of "insert_entry (reset_lsn e) d"] Cons.prems show ?case by (simp add: x ins)
qed simp

text \<open>
  A delta layer survives its serialization. Recording any operations in a new layer, serializing
  it and deserializing the bytes gives back a layer in which every key has the last value recorded
  for it or is marked as deleted, with the same total size and number of operations; only the
  log sequence numbers are reset.
\<close>

theorem delta_roundtrip:
  assumes "delta_record_all xs delta_new = Ok d"
  shows "\<exists>d'. delta_deserialize (delta_serialize d) = Ok d' \<and> delta_inv d' \<and> delta_view d' = fold op_effect xs Map.empty \<and>
    dl_size d' = dl_size d \<and> dl_operation_count d' = dl_operation_count d"
proof -
  have inv: "delta_inv d" and view: "delta_view d = fold op_effect xs Map.empty"
    using delta_record_all_spec [OF assms delta_new_inv] by (simp_all add: delta_view_new)
  let ?es = "sort_key fst (dl_mutations d)"
  let ?d = "\<lparr>dl_mutations = map (apsnd reset_lsn) ?es, dl_size = dl_size d, dl_operation_count = dl_operation_count d\<rparr>"
  have perm: "mset ?es = mset (dl_mutations d)" by simp
  have dist: "distinct (map fst ?es)" using inv by (metis delta_inv_def mset_eq_imp_distinct_iff mset_map perm)
  have sum: "sum_list (map (me_size \<circ> snd) ?es) = dl_size d"
    using inv by (metis delta_inv_def mset_map perm sum_mset_sum_list)
  have "unat (word_of_nat (length (dl_mutations d)) :: u32) = length ?es"
    using inv by (simp add: delta_inv_def unat_of_nat delta_consts)
  then have "delta_deserialize (delta_serialize d) = Ok ?d"
    using insert_fold_new [of ?es delta_new] deserialize_concat [of ?es delta_new] inv dist sum
    by (simp add: delta_deserialize_def delta_serialize_def length_le from_le_le32 delta_inv_def delta_new_def)
  moreover have "map_of ?es = map_of (dl_mutations d)"
    using inv dist perm by (metis delta_inv_def map_of_inject_set set_mset_mset)
  then have "delta_view ?d = delta_view d"
    by (simp add: delta_view_def delta_get_def fun_eq_iff apsnd_def map_prod_def map_of_map option.map_comp o_def)
  moreover have "delta_inv ?d"
    using inv dist sum by (auto simp: delta_inv_def o_def)
  ultimately show ?thesis using view by (intro exI [of _ ?d]) simp
qed

theorem delta_roundtrip_witness:
  "\<exists>d d'. delta_record_all [RecordPut [1] [7, 8] 5, RecordDelete [1] 5, RecordPut [2] [] 5] delta_new = Ok d \<and>
     delta_deserialize (delta_serialize d) = Ok d' \<and> delta_view d' = [[1] \<mapsto> None, [2] \<mapsto> Some []]"
proof -
  let ?xs = "[RecordPut [1] [7, 8] 5, RecordDelete [1] 5, RecordPut [2] [] 5]"
  have "\<exists>d. delta_record_all ?xs delta_new = Ok d"
    by (simp add: delta_new_def delta_record_put_def delta_record_delete_def replace_entry_def delta_consts Let_def)
  then obtain d where d: "delta_record_all ?xs delta_new = Ok d" by blast
  from delta_roundtrip [OF this] have "\<exists>d'. delta_deserialize (delta_serialize d) = Ok d' \<and> delta_view d' = fold op_effect ?xs Map.empty"
    by blast
  moreover have "fold op_effect ?xs Map.empty = [[1] \<mapsto> None, [2] \<mapsto> Some []]" by (auto simp: fun_eq_iff)
  ultimately show ?thesis using d by metis
qed

section \<open>Version chains\<close>



lemma find_SomeD: "find P xs = Some x \<Longrightarrow> \<exists>ys zs. xs = ys @ x # zs \<and> P x \<and> (\<forall>y \<in> set ys. \<not> P y)"
proof (induction xs)
  case (Cons a xs)
  show ?case
  proof (cases "P a")
    case True
    with Cons.prems show ?thesis by (intro exI [of _ "[]"] exI [of _ xs]) simp
  next
    case False
    with Cons obtain ys zs where "xs = ys @ x # zs" "P x" "\<forall>y \<in> set ys. \<not> P y" by auto
    with False show ?thesis by (intro exI [of _ "a # ys"] exI [of _ zs]) simp
  qed
qed simp



lemma find_None_set: "find P xs = None \<longleftrightarrow> (\<forall>x \<in> set xs. \<not> P x)"
  by (auto simp: find_None_iff)




text \<open>Reclaiming keeps no version from before the oldest snapshot, not even the one that snapshot sees.\<close>

lemma reclaim_hides:
  "t < oldest \<Longrightarrow> btree_chain_resolve t (snd (chain_reclaim_old oldest vs)) = None"
  "btree_chain_resolve oldest (snd (chain_reclaim_old oldest vs)) = Some v \<Longrightarrow> vv_lsn v = oldest"
proof -
  show "t < oldest \<Longrightarrow> btree_chain_resolve t (snd (chain_reclaim_old oldest vs)) = None"
    by (auto simp: btree_chain_resolve_def chain_reclaim_old_def find_None_set btree_version_is_visible_def Let_def)
  assume "btree_chain_resolve oldest (snd (chain_reclaim_old oldest vs)) = Some v"
  then obtain ys zs where s: "filter (\<lambda>v. oldest \<le> vv_lsn v) vs = ys @ v # zs" "vv_lsn v \<le> oldest"
    by (auto simp: btree_chain_resolve_def chain_reclaim_old_def btree_version_is_visible_def Let_def dest!: find_SomeD)
  have "v \<in> set (filter (\<lambda>v. oldest \<le> vv_lsn v) vs)" unfolding s(1) by simp
  with s(2) show "vv_lsn v = oldest" by simp
qed

end
