(* ===== verification/Step_Runs.thy ===== *)
theory Step_Runs
  imports Main
begin

text \<open>
  Runs of a component: a list of events, each a step that changes the state. The locale \<open>kept_by_steps\<close> is the contract of an
  invariant that every admitted event keeps; along a run of admitted events it then holds at the end and at every state in
  between. \<open>kept_by_all\<close> is the case in which every event is admitted. The components interpret them for
  their own step functions and invariants.
\<close>

locale kept_by_steps =
  fixes step :: "'e \<Rightarrow> 's \<Rightarrow> 's"
    and inv :: "'s \<Rightarrow> bool"
    and admitted :: "'e \<Rightarrow> bool"
  assumes step_keeps: "inv s \<Longrightarrow> admitted e \<Longrightarrow> inv (step e s)"
begin

lemma run_keeps: "inv s \<Longrightarrow> \<forall>e \<in> set es. admitted e \<Longrightarrow> inv (fold step es s)"
  by (induction es arbitrary: s) (simp_all add: step_keeps)

lemma prefix_keeps:
  assumes "inv s" "\<forall>e \<in> set es. admitted e"
  shows "inv (fold step (take n es) s)"
  using assms by (intro run_keeps) (auto dest: in_set_takeD)

end

locale kept_by_all =
  fixes step :: "'e \<Rightarrow> 's \<Rightarrow> 's"
    and inv :: "'s \<Rightarrow> bool"
  assumes every_step_keeps: "inv s \<Longrightarrow> inv (step e s)"

sublocale kept_by_all \<subseteq> kept_by_steps step inv "\<lambda>_. True"
  by unfold_locales (rule every_step_keeps)

context kept_by_all
begin

lemma every_run_keeps: "inv s \<Longrightarrow> inv (fold step es s)"
  by (rule run_keeps) simp_all

end

end
