(* ===== verification/Circuit_Breaker.thy ===== *)
theory Circuit_Breaker
  imports Prelude Step_Runs
begin

text \<open>
  The circuit breaker of \<^verbatim>\<open>degradation/circuit_breaker.rs\<close>. An \<open>Instant\<close> is the number of nanoseconds since
  some fixed moment, a \<open>Duration\<close> a number of nanoseconds; \<open>elapsed\<close> saturates at zero, as the
  subtraction of naturals does. Every reading of the clock is an argument, so nothing is assumed
  of the time that passes between two of them. The atomic counters wrap. A call runs to its end before
  the next one starts: calls that overlap in several threads are outside the model, and so is a
  poisoned lock.
\<close>

section \<open>State\<close>

type_synonym instant = nat
type_synonym duration = nat

definition duration_from_secs :: "nat \<Rightarrow> duration" where
  "duration_from_secs n = n * 1000000000"

datatype circuit_state = CircuitClosed | CircuitOpened | CircuitHalfOpen

datatype circuit_open_error = CircuitOpenError (retry_after: duration)

datatype 'e circuit_breaker_error = CircuitOpen circuit_open_error | OperationError 'e

record circuit_breaker =
  cb_state :: u8
  cb_failure_count :: u32
  cb_success_count :: u32
  cb_last_failure_time :: "instant option"
  cb_last_success_time :: "instant option"
  cb_open_threshold :: u32
  cb_half_open_attempts :: u32
  cb_timeout :: duration

definition STATE_CLOSED :: u8 where "STATE_CLOSED = 0"
definition STATE_OPEN :: u8 where "STATE_OPEN = 1"
definition STATE_HALF_OPEN :: u8 where "STATE_HALF_OPEN = 2"

lemmas state_codes = STATE_CLOSED_def STATE_OPEN_def STATE_HALF_OPEN_def

section \<open>Operations\<close>

definition breaker_new :: "u32 \<Rightarrow> u32 \<Rightarrow> duration \<Rightarrow> circuit_breaker" where
  "breaker_new open_threshold half_open_attempts timeout =
     \<lparr>cb_state = STATE_CLOSED, cb_failure_count = 0, cb_success_count = 0,
      cb_last_failure_time = None, cb_last_success_time = None,
      cb_open_threshold = open_threshold, cb_half_open_attempts = half_open_attempts, cb_timeout = timeout\<rparr>"

definition breaker_default_config :: circuit_breaker where
  "breaker_default_config = breaker_new 5 3 (duration_from_secs 60)"

definition breaker_state :: "circuit_breaker \<Rightarrow> circuit_state" where
  "breaker_state b =
     (if cb_state b = STATE_CLOSED then CircuitClosed
      else if cb_state b = STATE_OPEN then CircuitOpened
      else if cb_state b = STATE_HALF_OPEN then CircuitHalfOpen
      else CircuitClosed)"

primrec circuit_state_code :: "circuit_state \<Rightarrow> u8" where
  "circuit_state_code CircuitClosed = STATE_CLOSED"
| "circuit_state_code CircuitOpened = STATE_OPEN"
| "circuit_state_code CircuitHalfOpen = STATE_HALF_OPEN"

definition set_breaker_state :: "circuit_state \<Rightarrow> circuit_breaker \<Rightarrow> circuit_breaker" where
  "set_breaker_state new_state b = b\<lparr>cb_state := circuit_state_code new_state\<rparr>"

definition check_open_timeout :: "circuit_breaker \<Rightarrow> instant \<Rightarrow> bool" where
  "check_open_timeout b now =
     (case cb_last_failure_time b of Some t \<Rightarrow> cb_timeout b \<le> now - t | None \<Rightarrow> False)"

definition record_success :: "instant \<Rightarrow> circuit_breaker \<Rightarrow> circuit_breaker" where
  "record_success now b =
     b\<lparr>cb_success_count := cb_success_count b + 1, cb_failure_count := 0, cb_last_success_time := Some now\<rparr>"

definition record_failure :: "instant \<Rightarrow> circuit_breaker \<Rightarrow> circuit_breaker" where
  "record_failure now b =
     b\<lparr>cb_failure_count := cb_failure_count b + 1, cb_success_count := 0, cb_last_failure_time := Some now\<rparr>"

definition breaker_reset :: "circuit_breaker \<Rightarrow> circuit_breaker" where
  "breaker_reset b =
     (set_breaker_state CircuitClosed b)
       \<lparr>cb_failure_count := 0, cb_success_count := 0, cb_last_failure_time := None, cb_last_success_time := None\<rparr>"

text \<open>The timeout test and the computation of the remaining time each read the clock.\<close>

definition allow_request :: "instant \<Rightarrow> instant \<Rightarrow> circuit_breaker \<Rightarrow> (circuit_open_error + unit) \<times> circuit_breaker" where
  "allow_request now now' b =
     (case breaker_state b of
        CircuitClosed \<Rightarrow> (Inr (), b)
      | CircuitOpened \<Rightarrow>
          if check_open_timeout b now then (Inr (), (set_breaker_state CircuitHalfOpen b)\<lparr>cb_success_count := 0\<rparr>)
          else
            (case cb_last_failure_time b of
               Some t \<Rightarrow> (Inl (CircuitOpenError (cb_timeout b - (now' - t))), b)
             | None \<Rightarrow> (Inl (CircuitOpenError 0), b))
      | CircuitHalfOpen \<Rightarrow> (Inr (), b))"

definition after_success :: "instant \<Rightarrow> circuit_breaker \<Rightarrow> circuit_breaker" where
  "after_success now b =
     (let b = record_success now b in
      if breaker_state b = CircuitHalfOpen \<and> cb_half_open_attempts b \<le> cb_success_count b
      then set_breaker_state CircuitClosed b else b)"

definition after_failure :: "instant \<Rightarrow> circuit_breaker \<Rightarrow> circuit_breaker" where
  "after_failure now b =
     (let b = record_failure now b in
      if cb_open_threshold b \<le> cb_failure_count b then set_breaker_state CircuitOpened b
      else if breaker_state b = CircuitHalfOpen then set_breaker_state CircuitOpened b else b)"

text \<open>
  The operation is a function on the state \<open>w\<close> of the world, so that running it and not running it
  differ. A call reads the clock up to three times: twice before the operation, once after it.
\<close>

record clock_readings =
  ck_check :: instant
  ck_retry :: instant
  ck_done :: instant

definition circuit_breaker_call ::
  "clock_readings \<Rightarrow> ('w \<Rightarrow> ('e + 't) \<times> 'w) \<Rightarrow> circuit_breaker \<Rightarrow> 'w \<Rightarrow> ('e circuit_breaker_error + 't) \<times> circuit_breaker \<times> 'w" where
  "circuit_breaker_call c operation b w =
     (case allow_request (ck_check c) (ck_retry c) b of
        (Inl err, b) \<Rightarrow> (Inl (CircuitOpen err), b, w)
      | (Inr _, b) \<Rightarrow>
          (case operation w of
             (Inr result, w) \<Rightarrow> (Inr result, after_success (ck_done c) b, w)
           | (Inl err, w) \<Rightarrow> (Inl (OperationError err), after_failure (ck_done c) b, w)))"

text \<open>A sequence of calls, each with its clock readings and its operation.\<close>

primrec breaker_calls ::
  "(clock_readings \<times> ('w \<Rightarrow> ('e + 't) \<times> 'w)) list \<Rightarrow> circuit_breaker \<Rightarrow> 'w \<Rightarrow> ('e circuit_breaker_error + 't) list \<times> circuit_breaker \<times> 'w" where
  "breaker_calls [] b w = ([], b, w)"
| "breaker_calls (c # cs) b w =
     (case circuit_breaker_call (fst c) (snd c) b w of
        (r, b, w) \<Rightarrow> (case breaker_calls cs b w of (rs, b, w) \<Rightarrow> (r # rs, b, w)))"

section \<open>The states a breaker can be in\<close>

definition breaker_wf :: "circuit_breaker \<Rightarrow> bool" where
  "breaker_wf b \<longleftrightarrow>
     cb_state b \<in> {STATE_CLOSED, STATE_OPEN, STATE_HALF_OPEN}
   \<and> (breaker_state b = CircuitClosed \<longrightarrow> cb_failure_count b = 0 \<or> cb_failure_count b < cb_open_threshold b)
   \<and> (breaker_state b = CircuitOpened \<longrightarrow> cb_last_failure_time b \<noteq> None \<and> cb_success_count b = 0)
   \<and> (breaker_state b = CircuitHalfOpen \<longrightarrow> cb_success_count b = 0 \<or> cb_success_count b < cb_half_open_attempts b)"

text \<open>What the public interface lets a program do with a breaker, in any order.\<close>

datatype ('w, 'e, 't) breaker_event =
    BreakerCall clock_readings "'w \<Rightarrow> ('e + 't) \<times> 'w"
  | BreakerAllow instant instant
  | BreakerReset

primrec breaker_step :: "('w, 'e, 't) breaker_event \<Rightarrow> circuit_breaker \<times> 'w \<Rightarrow> circuit_breaker \<times> 'w" where
  "breaker_step (BreakerCall c operation) s = snd (circuit_breaker_call c operation (fst s) (snd s))"
| "breaker_step (BreakerAllow now now') s = (snd (allow_request now now' (fst s)), snd s)"
| "breaker_step BreakerReset s = (breaker_reset (fst s), snd s)"

lemma state_of_code [simp]: "breaker_state (set_breaker_state s b) = s"
  by (cases s) (simp_all add: breaker_state_def set_breaker_state_def state_codes)

lemma set_breaker_state_fields [simp]:
  "cb_state (set_breaker_state s b) = circuit_state_code s"
  "cb_failure_count (set_breaker_state s b) = cb_failure_count b"
  "cb_success_count (set_breaker_state s b) = cb_success_count b"
  "cb_last_failure_time (set_breaker_state s b) = cb_last_failure_time b"
  "cb_open_threshold (set_breaker_state s b) = cb_open_threshold b"
  "cb_half_open_attempts (set_breaker_state s b) = cb_half_open_attempts b"
  "cb_timeout (set_breaker_state s b) = cb_timeout b"
  by (simp_all add: set_breaker_state_def)

lemma record_fields [simp]:
  "cb_state (record_success now b) = cb_state b"
  "cb_failure_count (record_success now b) = 0"
  "cb_success_count (record_success now b) = cb_success_count b + 1"
  "cb_open_threshold (record_success now b) = cb_open_threshold b"
  "cb_half_open_attempts (record_success now b) = cb_half_open_attempts b"
  "cb_state (record_failure now b) = cb_state b"
  "cb_failure_count (record_failure now b) = cb_failure_count b + 1"
  "cb_success_count (record_failure now b) = 0"
  "cb_last_failure_time (record_failure now b) = Some now"
  "cb_open_threshold (record_failure now b) = cb_open_threshold b"
  by (simp_all add: record_success_def record_failure_def)

lemma breaker_state_other_fields [simp]:
  "breaker_state (b\<lparr>cb_success_count := n\<rparr>) = breaker_state b"
  "breaker_state (record_success now b) = breaker_state b"
  "breaker_state (record_failure now b) = breaker_state b"
  by (simp_all add: breaker_state_def)

lemma breaker_state_code:
  "cb_state b \<in> {STATE_CLOSED, STATE_OPEN, STATE_HALF_OPEN} \<longleftrightarrow> cb_state b = circuit_state_code (breaker_state b)"
  by (auto simp: breaker_state_def state_codes)

lemma breaker_new_wf [inv_rules]: "breaker_wf (breaker_new k a d)"
  by (simp add: breaker_wf_def breaker_new_def breaker_state_def state_codes)

lemma breaker_reset_wf [inv_rules]: "breaker_wf (breaker_reset b)"
  by (simp add: breaker_wf_def breaker_reset_def breaker_state_def set_breaker_state_def state_codes)

lemma allow_request_wf:
  assumes "breaker_wf b" "allow_request now now' b = (r, b')"
  shows "breaker_wf b' \<and> (r = Inr u \<longrightarrow> breaker_state b' \<noteq> CircuitOpened)"
  using assms
  by (auto simp: allow_request_def breaker_wf_def breaker_state_code split: circuit_state.splits if_splits option.splits)

lemma after_success_wf [inv_rules]:
  assumes "breaker_wf b" "breaker_state b \<noteq> CircuitOpened"
  shows "breaker_wf (after_success now b)"
  using assms
  by (cases "breaker_state b") (auto simp: after_success_def Let_def breaker_wf_def breaker_state_code)

lemma after_failure_wf [inv_rules]:
  assumes "breaker_wf b" "breaker_state b \<noteq> CircuitOpened"
  shows "breaker_wf (after_failure now b)"
  using assms
  by (cases "breaker_state b") (auto simp: after_failure_def Let_def breaker_wf_def breaker_state_code)

lemma call_wf:
  assumes "breaker_wf b"
  shows "breaker_wf (fst (snd (circuit_breaker_call c operation b w)))"
proof -
  obtain r b' where a: "allow_request (ck_check c) (ck_retry c) b = (r, b')"
    by (rule prod.exhaust)
  from allow_request_wf [OF assms a, of "()"] show ?thesis
    by (auto simp: circuit_breaker_call_def a inv_rules split: sum.splits prod.splits)
qed

lemma breaker_step_wf: "breaker_wf (fst s) \<Longrightarrow> breaker_wf (fst (breaker_step v s))"
  by (cases v) (auto simp: call_wf breaker_reset_wf intro: allow_request_wf [THEN conjunct1] prod.collapse [symmetric])

interpretation breaker_runs: kept_by_all breaker_step "\<lambda>s. breaker_wf (fst s)"
  by unfold_locales (rule breaker_step_wf)

text \<open>
  Whatever sequence of calls, admission checks and resets a program makes on a new breaker, with
  any clock and any outcomes of the operations: the state byte is one of the three codes; a closed
  breaker has counted fewer failures in a row than its threshold (or none); an open one knows when
  the last failure was; and a half-open one has seen fewer successes than it needs to close.
\<close>

theorem breaker_stays_wf:
  "breaker_wf (fst (fold breaker_step es (breaker_new k a d, w)))"
  by (rule breaker_runs.every_run_keeps) (simp add: breaker_new_wf)

section \<open>Tripping, blocking and recovering\<close>

definition always_fails :: "('w \<Rightarrow> ('e + 't) \<times> 'w) \<Rightarrow> bool" where
  "always_fails operation \<longleftrightarrow> (\<forall>w. \<exists>err w'. operation w = (Inl err, w'))"

definition always_succeeds :: "('w \<Rightarrow> ('e + 't) \<times> 'w) \<Rightarrow> bool" where
  "always_succeeds operation \<longleftrightarrow> (\<forall>w. \<exists>x w'. operation w = (Inr x, w'))"

lemma always_failsE:
  assumes "always_fails operation"
  obtains err w' where "operation w = (Inl err, w')"
  using assms unfolding always_fails_def by blast

lemma always_succeedsE:
  assumes "always_succeeds operation"
  obtains x w' where "operation w = (Inr x, w')"
  using assms unfolding always_succeeds_def by blast

lemma unat_succ_below: "(x :: u32) < y \<Longrightarrow> unat (x + 1) = Suc (unat x)"
  using unat_less [of y] by (simp add: unat_word_ariths word_less_nat_alt)

lemma call_fails_closed:
  assumes "always_fails operation" "breaker_state b = CircuitClosed"
  obtains err w' where "circuit_breaker_call c operation b w = (Inl (OperationError err), after_failure (ck_done c) b, w')"
proof -
  obtain err w' where "operation w = (Inl err, w')"
    by (rule always_failsE [OF assms(1)])
  with assms(2) show thesis
    by (intro that) (simp add: circuit_breaker_call_def allow_request_def)
qed

lemma call_fails_not_closed:
  assumes "always_fails operation" "breaker_state b \<noteq> CircuitClosed" "circuit_breaker_call c operation b w = (r, b', w')"
  shows "breaker_state b' \<noteq> CircuitClosed"
proof -
  obtain err v where "operation w = (Inl err, v)"
    by (rule always_failsE [OF assms(1)])
  with assms(2,3) show ?thesis
    by (auto simp: circuit_breaker_call_def allow_request_def after_failure_def Let_def
        split: circuit_state.splits if_splits option.splits)
qed

lemma calls_fail_not_closed:
  "list_all (always_fails \<circ> snd) cs \<Longrightarrow> breaker_state b \<noteq> CircuitClosed \<Longrightarrow>
   breaker_calls cs b w = (rs, b', w') \<Longrightarrow> breaker_state b' \<noteq> CircuitClosed"
  by (induction cs arbitrary: b w rs) (auto split: prod.splits dest: call_fails_not_closed)

lemma calls_fail_closed:
  assumes "list_all (always_fails \<circ> snd) cs" "breaker_state b = CircuitClosed"
    "cb_failure_count b < cb_open_threshold b" "breaker_calls cs b w = (rs, b', w')"
  shows "breaker_state b' = CircuitClosed \<longleftrightarrow> unat (cb_failure_count b) + length cs < unat (cb_open_threshold b)"
  using assms
proof (induction cs arbitrary: b w rs)
  case Nil
  then show ?case
    by (simp add: word_less_nat_alt)
next
  case (Cons c cs)
  have fails: "always_fails (snd c)"
    using Cons.prems(1) by simp
  obtain err v
    where call: "circuit_breaker_call (fst c) (snd c) b w = (Inl (OperationError err), after_failure (ck_done (fst c)) b, v)"
    by (rule call_fails_closed [OF fails Cons.prems(2)])
  let ?b = "after_failure (ck_done (fst c)) b"
  from Cons.prems(4) call obtain rs' where rest: "breaker_calls cs ?b v = (rs', b', w')"
    by (auto split: prod.splits)
  note next_count = unat_succ_below [OF Cons.prems(3)]
  show ?case
  proof (cases "cb_open_threshold b \<le> cb_failure_count b + 1")
    case True
    then have "breaker_state ?b \<noteq> CircuitClosed"
      by (simp add: after_failure_def Let_def)
    with calls_fail_not_closed [OF _ _ rest] Cons.prems(1) have "breaker_state b' \<noteq> CircuitClosed"
      by (simp add: o_def)
    with True next_count show ?thesis
      by (simp add: word_le_nat_alt)
  next
    case False
    with Cons.prems(2) have b: "?b = record_failure (ck_done (fst c)) b"
      by (simp add: after_failure_def Let_def)
    with Cons.IH [OF _ _ _ rest] Cons.prems(1,2) False next_count show ?thesis
      by simp
  qed
qed

text \<open>
  While every operation fails, the circuit is closed exactly as long as fewer calls than the
  threshold have been made: it opens with the call that reaches the threshold, no sooner, and no
  clock closes it again. This holds for every threshold of at least one.
\<close>

theorem circuit_trips_at_threshold:
  assumes "0 < k" "list_all (always_fails \<circ> snd) cs" "breaker_calls cs (breaker_new k a d) w = (rs, b, w')"
  shows "breaker_state b = CircuitClosed \<longleftrightarrow> length cs < unat k"
  using calls_fail_closed [OF assms(2) _ _ assms(3)] assms(1)
  by (simp add: breaker_new_def breaker_state_def)

definition sample_readings :: clock_readings where
  "sample_readings = \<lparr>ck_check = 0, ck_retry = 0, ck_done = 0\<rparr>"

theorem circuit_trips_at_threshold_witness:
  "breaker_state (fst (snd (breaker_calls (replicate 2 (sample_readings, \<lambda>w :: nat. (Inl () :: unit + unit, Suc w))) (breaker_new 2 1 5) 0)))
     \<noteq> CircuitClosed"
proof -
  let ?cs = "replicate 2 (sample_readings, \<lambda>w :: nat. (Inl () :: unit + unit, Suc w))"
  obtain rs b w' where run: "breaker_calls ?cs (breaker_new 2 1 5) 0 = (rs, b, w')"
    by (rule prod_cases3)
  have fails: "list_all (always_fails \<circ> snd) ?cs"
    by (simp add: numeral_2_eq_2 always_fails_def)
  have "breaker_state b = CircuitClosed \<longleftrightarrow> length ?cs < unat (2 :: u32)"
    by (rule circuit_trips_at_threshold [OF _ fails run]) simp
  then show ?thesis
    by (simp only: run snd_conv fst_conv) simp
qed

lemma open_circuit_blocks:
  assumes "breaker_state b = CircuitOpened" "cb_last_failure_time b = Some t" "ck_check c - t < cb_timeout b"
  shows "circuit_breaker_call c operation b w =
           (Inl (CircuitOpen (CircuitOpenError (cb_timeout b - (ck_retry c - t)))), b, w)"
  using assms by (simp add: circuit_breaker_call_def allow_request_def check_open_timeout_def)

lemma calls_half_open:
  assumes "list_all (always_succeeds \<circ> snd) cs" "cs \<noteq> []" "breaker_state b = CircuitHalfOpen"
    "cb_success_count b = 0 \<or> cb_success_count b < cb_half_open_attempts b"
    "max (Suc (unat (cb_success_count b))) (unat (cb_half_open_attempts b)) = unat (cb_success_count b) + length cs"
    "breaker_calls cs b w = (rs, b', w')"
  shows "list_all (Not \<circ> isl) rs \<and> breaker_state b' = CircuitClosed"
  using assms
proof (induction cs arbitrary: b w rs)
  case (Cons c cs)
  have succeeds: "always_succeeds (snd c)"
    using Cons.prems(1) by simp
  obtain x v where op: "snd c w = (Inr x, v)"
    by (rule always_succeedsE [OF succeeds])
  let ?b = "after_success (ck_done (fst c)) b"
  have call: "circuit_breaker_call (fst c) (snd c) b w = (Inr x, ?b, v)"
    using Cons.prems(3) op by (simp add: circuit_breaker_call_def allow_request_def)
  with Cons.prems(6) obtain rs' where rest: "breaker_calls cs ?b v = (rs', b', w')" "rs = Inr x # rs'"
    by (auto split: prod.splits)
  have next_count: "unat (cb_success_count b + 1) = Suc (unat (cb_success_count b))"
    using Cons.prems(4) by (auto simp: unat_succ_below)
  show ?case
  proof (cases cs)
    case Nil
    with Cons.prems(5) next_count have "cb_half_open_attempts b \<le> cb_success_count b + 1"
      by (simp add: word_le_nat_alt)
    with Nil rest Cons.prems(3) show ?thesis
      by (auto simp: after_success_def Let_def)
  next
    case (Cons c' cs')
    with Cons.prems(5) next_count have more: "cb_success_count b + 1 < cb_half_open_attempts b"
      by (simp add: word_less_nat_alt)
    then have b: "?b = record_success (ck_done (fst c)) b"
      by (auto simp: after_success_def Let_def)
    from Cons.IH [OF _ _ _ _ _ rest(1)] Cons.prems(1,3,5) more next_count Cons rest(2) show ?thesis
      by (simp add: b)
  qed
qed simp

text \<open>
  C27. An open circuit recovers. Once the timeout has passed since the last failure, as many successful
  calls in a row as the breaker asks for (at least one) all reach the operation and all return its
  result, and the last of them closes the circuit. Only the first of them has to find the timeout
  over; the clock of the others does not matter.
\<close>

theorem circuit_recovers:
  assumes "breaker_state b = CircuitOpened" "cb_last_failure_time b = Some t"
    and "list_all (always_succeeds \<circ> snd) (c # cs)" "t + cb_timeout b \<le> ck_check (fst c)"
    and "length (c # cs) = max 1 (unat (cb_half_open_attempts b))" "breaker_calls (c # cs) b w = (rs, b', w')"
  shows "list_all (Not \<circ> isl) rs \<and> breaker_state b' = CircuitClosed"
proof -
  let ?h = "(set_breaker_state CircuitHalfOpen b)\<lparr>cb_success_count := 0\<rparr>"
  have "cb_timeout b \<le> ck_check (fst c) - t"
    using assms(4) by simp
  then have "circuit_breaker_call (fst c) (snd c) b w = circuit_breaker_call (fst c) (snd c) ?h w"
    using assms(1,2) by (simp add: circuit_breaker_call_def allow_request_def check_open_timeout_def)
  then have run: "breaker_calls (c # cs) ?h w = (rs, b', w')"
    using assms(6) by simp
  show ?thesis
    by (rule calls_half_open [OF assms(3) _ _ _ _ run]) (use assms(5) in simp_all)
qed

definition tripped_breaker :: circuit_breaker where
  "tripped_breaker = after_failure 7 (breaker_new 1 1 5)"

theorem circuit_recovers_witness:
  "breaker_state (fst (snd (breaker_calls [(sample_readings\<lparr>ck_check := 12\<rparr>, \<lambda>w :: nat. (Inr () :: unit + unit, Suc w))] tripped_breaker 0)))
     = CircuitClosed"
proof -
  let ?c = "(sample_readings\<lparr>ck_check := 12\<rparr>, \<lambda>w :: nat. (Inr () :: unit + unit, Suc w))"
  obtain rs b' w' where run: "breaker_calls [?c] tripped_breaker 0 = (rs, b', w')"
    by (rule prod_cases3)
  have tripped: "breaker_state tripped_breaker = CircuitOpened" "cb_last_failure_time tripped_breaker = Some 7"
    "cb_timeout tripped_breaker = 5" "cb_half_open_attempts tripped_breaker = 1"
    by (simp_all add: tripped_breaker_def after_failure_def breaker_new_def record_failure_def set_breaker_state_def
        breaker_state_def state_codes)
  have "breaker_state b' = CircuitClosed"
    by (rule circuit_recovers [OF tripped(1,2) _ _ _ run, THEN conjunct2])
      (simp_all add: tripped always_succeeds_def sample_readings_def)
  then show ?thesis
    by (simp only: run snd_conv fst_conv)
qed

end
