(* ===== verification/Replication.thy ===== *)
theory Replication
  imports Txn
begin

text \<open>
  The replication protocol: the errors of \<^verbatim>\<open>replication/error.rs\<close>, the configuration of
  \<^verbatim>\<open>replication/config.rs\<close>, the connection states of \<^verbatim>\<open>replication/state.rs\<close> and the messages of
  \<^verbatim>\<open>replication/protocol.rs\<close> with their wire format. A reader is the list of the bytes not yet
  read. The \<open>DefaultHasher\<close> of the standard library, whose algorithm is not specified, is the parameter \<open>hash64\<close>;
  the parser of socket addresses is the parameter \<open>parse_addr\<close>, which returns the message of a
  parse error. An \<open>Instant\<close> is a number of nanoseconds.
\<close>

section \<open>error.rs\<close>

datatype io_kind = UnexpectedEof | InvalidData | InvalidInput | OtherKind

datatype io_failure = IoFailure io_kind string

datatype replication_error =
    ReplIo io_failure
  | ReplConfig string
  | ProtocolVersionMismatch u16 u16
  | InvalidMessage string
  | ReplChecksumError
  | SequenceError u64 u64
  | ConnectionLost string
  | ConnectionTimeout u64
  | HandshakeFailed string
  | AuthenticationFailed string
  | LsnNotFound u64
  | BufferOverflow u64 u64
  | LagExceeded u64 u64
  | BootstrapFailed string
  | MaxReconnectAttemptsExceeded u32
  | ReplicaNotFound u64
  | PrimaryNotAvailable string
  | NetworkPartition string
  | ReplCorruptedData string

fun repl_is_retryable :: "replication_error \<Rightarrow> bool" where
  "repl_is_retryable (ConnectionLost _) = True"
| "repl_is_retryable (ConnectionTimeout _) = True"
| "repl_is_retryable (ReplIo _) = True"
| "repl_is_retryable (NetworkPartition _) = True"
| "repl_is_retryable _ = False"

fun repl_is_terminal :: "replication_error \<Rightarrow> bool" where
  "repl_is_terminal (AuthenticationFailed _) = True"
| "repl_is_terminal (MaxReconnectAttemptsExceeded _) = True"
| "repl_is_terminal (ReplCorruptedData _) = True"
| "repl_is_terminal _ = False"

type_synonym 'a io_result = "(io_failure, 'a) res"
type_synonym 'a repl_result = "(replication_error, 'a) res"

fun repl_of_io :: "'a io_result \<Rightarrow> 'a repl_result" where
  "repl_of_io (Ok a) = Ok a"
| "repl_of_io (Err e) = Err (ReplIo e)"
| "repl_of_io Panic = Panic"

fun io_message :: "io_failure \<Rightarrow> string" where
  "io_message (IoFailure _ msg) = msg"

fun repl_error_display :: "replication_error \<Rightarrow> string" where
  "repl_error_display (ReplIo e) = ''I/O error: '' @ io_message e"
| "repl_error_display (ReplConfig m) = ''Configuration error: '' @ m"
| "repl_error_display (ProtocolVersionMismatch e a) = ''Protocol version mismatch: expected '' @ fmt e @ '', got '' @ fmt a"
| "repl_error_display (InvalidMessage m) = ''Invalid message format: '' @ m"
| "repl_error_display ReplChecksumError = ''Checksum validation failed''"
| "repl_error_display (SequenceError e a) = ''Sequence error: expected '' @ fmt e @ '', got '' @ fmt a"
| "repl_error_display (ConnectionLost r) = ''Connection lost: '' @ r"
| "repl_error_display (ConnectionTimeout t) = ''Connection timeout after '' @ fmt t @ ''ms''"
| "repl_error_display (HandshakeFailed r) = ''Handshake failed: '' @ r"
| "repl_error_display (AuthenticationFailed r) = ''Authentication failed: '' @ r"
| "repl_error_display (LsnNotFound l) = ''LSN '' @ fmt l @ '' not found on primary''"
| "repl_error_display (BufferOverflow n c) = ''Replication buffer overflow: '' @ fmt n @ '' bytes exceeds capacity '' @ fmt c"
| "repl_error_display (LagExceeded l t) = ''Replication lag '' @ fmt l @ ''ms exceeds target '' @ fmt t @ ''ms''"
| "repl_error_display (BootstrapFailed r) = ''Bootstrap failed: '' @ r"
| "repl_error_display (MaxReconnectAttemptsExceeded n) = ''Maximum reconnect attempts exceeded: '' @ fmt n"
| "repl_error_display (ReplicaNotFound i) = ''Replica '' @ fmt i @ '' not found''"
| "repl_error_display (PrimaryNotAvailable r) = ''Primary not available: '' @ r"
| "repl_error_display (NetworkPartition d) = ''Network partition detected: '' @ d"
| "repl_error_display (ReplCorruptedData d) = ''Corrupted data: '' @ d"

section \<open>mod.rs and config.rs\<close>

definition PROTOCOL_VERSION :: u16 where "PROTOCOL_VERSION = 1"
definition DEFAULT_BUFFER_SIZE :: u64 where "DEFAULT_BUFFER_SIZE = 100 * 1024 * 1024"
definition DEFAULT_HEARTBEAT_INTERVAL_SECS :: u64 where "DEFAULT_HEARTBEAT_INTERVAL_SECS = 5"
definition DEFAULT_LAG_TARGET_MS :: u64 where "DEFAULT_LAG_TARGET_MS = 100"
definition DEFAULT_RECONNECT_INTERVAL_MS :: u64 where "DEFAULT_RECONNECT_INTERVAL_MS = 1000"
definition MAX_RECONNECT_ATTEMPTS :: u32 where "MAX_RECONNECT_ATTEMPTS = 10"
definition BUFFER_HIGH_WATERMARK_PCT :: u64 where "BUFFER_HIGH_WATERMARK_PCT = 80"
definition BUFFER_LOW_WATERMARK_PCT :: u64 where "BUFFER_LOW_WATERMARK_PCT = 60"

datatype replication_role = PrimaryRole | ReplicaRole

record primary_config =
  pc_listen_address :: string
  pc_max_replicas :: u32
  pc_replication_buffer_size :: u64

record replica_config =
  rcf_primary_address :: string
  rcf_replication_lag_target_ms :: u64
  rcf_reconnect_interval_ms :: u64
  rcf_bootstrap_on_start :: bool

record replication_config =
  rpc_role :: replication_role
  rpc_primary_config :: "primary_config option"
  rpc_replica_config :: "replica_config option"

definition replication_config_primary :: "string \<Rightarrow> u32 \<Rightarrow> replication_config" where
  "replication_config_primary listen_address max_replicas =
     \<lparr>rpc_role = PrimaryRole,
      rpc_primary_config = Some \<lparr>pc_listen_address = listen_address, pc_max_replicas = max_replicas,
                                 pc_replication_buffer_size = DEFAULT_BUFFER_SIZE\<rparr>,
      rpc_replica_config = None\<rparr>"

definition replication_config_replica :: "string \<Rightarrow> replication_config" where
  "replication_config_replica primary_address =
     \<lparr>rpc_role = ReplicaRole, rpc_primary_config = None,
      rpc_replica_config = Some \<lparr>rcf_primary_address = primary_address, rcf_replication_lag_target_ms = DEFAULT_LAG_TARGET_MS,
                                 rcf_reconnect_interval_ms = DEFAULT_RECONNECT_INTERVAL_MS, rcf_bootstrap_on_start = False\<rparr>\<rparr>"

definition MIN_BUFFER :: u64 where "MIN_BUFFER = 1024 * 1024"
definition MAX_BUFFER :: u64 where "MAX_BUFFER = 10 * 1024 * 1024 * 1024"

definition split_count :: "char \<Rightarrow> string \<Rightarrow> nat" where
  "split_count c s = Suc (length (filter ((=) c) s))"

definition primary_config_validate :: "(string \<Rightarrow> string option) \<Rightarrow> primary_config \<Rightarrow> (string, unit) res" where
  "primary_config_validate parse_addr c =
     (let address_error = (case parse_addr (pc_listen_address c) of
          Some e \<Rightarrow> if split_count CHR '':'' (pc_listen_address c) \<noteq> 2 then Some (''Invalid listen_address format: '' @ e) else None
        | None \<Rightarrow> None)
      in case address_error of
        Some e \<Rightarrow> Err e
      | None \<Rightarrow>
          if \<not> (1 \<le> pc_max_replicas c \<and> pc_max_replicas c \<le> 100)
          then Err (''max_replicas must be between 1 and 100, got '' @ fmt (pc_max_replicas c))
          else if \<not> (MIN_BUFFER \<le> pc_replication_buffer_size c \<and> pc_replication_buffer_size c \<le> MAX_BUFFER)
          then Err (''replication_buffer_size must be between '' @ fmt MIN_BUFFER @ '' and '' @ fmt MAX_BUFFER @
                    '' bytes, got '' @ fmt (pc_replication_buffer_size c))
          else Ok ())"

text \<open>The multiplications panic on overflow.\<close>

definition watermark :: "u64 \<Rightarrow> primary_config \<Rightarrow> (string, u64) res" where
  "watermark pct c = (case checked_mul (pc_replication_buffer_size c) pct of Some x \<Rightarrow> Ok (x div 100) | None \<Rightarrow> Panic)"

definition high_watermark :: "primary_config \<Rightarrow> (string, u64) res" where
  "high_watermark = watermark BUFFER_HIGH_WATERMARK_PCT"

definition low_watermark :: "primary_config \<Rightarrow> (string, u64) res" where
  "low_watermark = watermark BUFFER_LOW_WATERMARK_PCT"

definition replica_config_validate :: "replica_config \<Rightarrow> (string, unit) res" where
  "replica_config_validate c =
     (if rcf_primary_address c = [] then Err ''primary_address cannot be empty''
      else if CHR '':'' \<notin> set (rcf_primary_address c)
      then Err ''primary_address must include port (e.g., 'primary.example.com:7233')''
      else if \<not> (10 \<le> rcf_replication_lag_target_ms c \<and> rcf_replication_lag_target_ms c \<le> 60000)
      then Err (''replication_lag_target_ms must be between 10 and 60000, got '' @ fmt (rcf_replication_lag_target_ms c))
      else if \<not> (100 \<le> rcf_reconnect_interval_ms c \<and> rcf_reconnect_interval_ms c \<le> 60000)
      then Err (''reconnect_interval_ms must be between 100 and 60000, got '' @ fmt (rcf_reconnect_interval_ms c))
      else Ok ())"

definition replication_config_validate :: "(string \<Rightarrow> string option) \<Rightarrow> replication_config \<Rightarrow> (string, unit) res" where
  "replication_config_validate parse_addr c =
     (case rpc_role c of
        PrimaryRole \<Rightarrow>
          (case rpc_primary_config c of
             None \<Rightarrow> Err ''Primary config missing for Primary role''
           | Some p \<Rightarrow> primary_config_validate parse_addr p)
      | ReplicaRole \<Rightarrow>
          (case rpc_replica_config c of
             None \<Rightarrow> Err ''Replica config missing for Replica role''
           | Some r \<Rightarrow> replica_config_validate r))"

definition backoff_delay :: "replica_config \<Rightarrow> u32 \<Rightarrow> (string, u64) res" where
  "backoff_delay c attempt =
     (case checked_mul (rcf_reconnect_interval_ms c) (2 ^ unat (min attempt 10)) of
        Some delay \<Rightarrow> Ok (min delay 60000)
      | None \<Rightarrow> Panic)"

section \<open>state.rs\<close>

datatype connection_state = Disconnected | Connecting | Connected | Catchup | Bootstrapping | ConnError

definition conn_is_connected :: "connection_state \<Rightarrow> bool" where
  "conn_is_connected s \<longleftrightarrow> s \<in> {Connected, Catchup}"

definition conn_can_send :: "connection_state \<Rightarrow> bool" where
  "conn_can_send s \<longleftrightarrow> s \<in> {Connected, Catchup}"

definition conn_can_receive :: "connection_state \<Rightarrow> bool" where
  "conn_can_receive s \<longleftrightarrow> s \<in> {Connected, Catchup}"

definition conn_needs_reconnect :: "connection_state \<Rightarrow> bool" where
  "conn_needs_reconnect s \<longleftrightarrow> s \<in> {Disconnected, ConnError}"

definition conn_is_terminal :: "connection_state \<Rightarrow> bool" where
  "conn_is_terminal s \<longleftrightarrow> s = ConnError"

record replica_info =
  ri_replica_id :: u64
  ri_connected :: bool
  ri_last_ack_sequence :: u64
  ri_replication_lag_ms :: u64
  ri_connect_time :: "nat option"
  ri_last_heartbeat :: "nat option"
  ri_state :: connection_state
  ri_bytes_sent :: u64
  ri_messages_sent :: u64
  ri_error_count :: u64

definition replica_info_new :: "u64 \<Rightarrow> replica_info" where
  "replica_info_new replica_id = \<lparr>ri_replica_id = replica_id, ri_connected = False, ri_last_ack_sequence = 0,
     ri_replication_lag_ms = 0, ri_connect_time = None, ri_last_heartbeat = None, ri_state = Disconnected,
     ri_bytes_sent = 0, ri_messages_sent = 0, ri_error_count = 0\<rparr>"

definition info_mark_connected :: "nat \<Rightarrow> replica_info \<Rightarrow> replica_info" where
  "info_mark_connected now r = r\<lparr>ri_connected := True, ri_state := Connected, ri_connect_time := Some now, ri_error_count := 0\<rparr>"

definition info_mark_disconnected :: "replica_info \<Rightarrow> replica_info" where
  "info_mark_disconnected r = r\<lparr>ri_connected := False, ri_state := Disconnected, ri_connect_time := None, ri_last_heartbeat := None\<rparr>"

definition info_mark_catchup :: "replica_info \<Rightarrow> replica_info" where
  "info_mark_catchup r = r\<lparr>ri_state := Catchup\<rparr>"

definition info_mark_error :: "replica_info \<Rightarrow> replica_info" where
  "info_mark_error r = r\<lparr>ri_connected := False, ri_state := ConnError\<rparr>"

definition update_ack_sequence :: "u64 \<Rightarrow> replica_info \<Rightarrow> replica_info" where
  "update_ack_sequence s r = r\<lparr>ri_last_ack_sequence := s\<rparr>"

definition update_lag :: "u64 \<Rightarrow> replica_info \<Rightarrow> replica_info" where
  "update_lag lag_ms r = r\<lparr>ri_replication_lag_ms := lag_ms\<rparr>"

definition record_heartbeat :: "nat \<Rightarrow> replica_info \<Rightarrow> replica_info" where
  "record_heartbeat now r = r\<lparr>ri_last_heartbeat := Some now\<rparr>"

definition record_bytes_sent :: "u64 \<Rightarrow> replica_info \<Rightarrow> replica_info repl_result" where
  "record_bytes_sent n r =
     (case checked_add (ri_bytes_sent r) n of Some x \<Rightarrow> Ok (r\<lparr>ri_bytes_sent := x\<rparr>) | None \<Rightarrow> Panic)"

definition record_message_sent :: "replica_info \<Rightarrow> replica_info repl_result" where
  "record_message_sent r =
     (case checked_add (ri_messages_sent r) 1 of Some x \<Rightarrow> Ok (r\<lparr>ri_messages_sent := x\<rparr>) | None \<Rightarrow> Panic)"

definition record_error :: "replica_info \<Rightarrow> replica_info repl_result" where
  "record_error r =
     (case checked_add (ri_error_count r) 1 of Some x \<Rightarrow> Ok (r\<lparr>ri_error_count := x\<rparr>) | None \<Rightarrow> Panic)"

definition info_heartbeat_timeout :: "nat \<Rightarrow> u64 \<Rightarrow> replica_info \<Rightarrow> bool" where
  "info_heartbeat_timeout now timeout_secs r =
     (case ri_last_heartbeat r of Some t \<Rightarrow> unat timeout_secs < (now - t) div 1000000000 | None \<Rightarrow> True)"

definition lag_exceeds_target :: "u64 \<Rightarrow> replica_info \<Rightarrow> bool" where
  "lag_exceeds_target target_ms r \<longleftrightarrow> target_ms < ri_replication_lag_ms r"

section \<open>protocol.rs\<close>

datatype message_type = Heartbeat | CommitRecordMsg | SnapshotMsg | ErrorMsg | ConnectMsg | AcceptMsg | AckMsg

definition message_type_from_u16 :: "u16 \<Rightarrow> message_type option" where
  "message_type_from_u16 v =
     (if v = 0 then Some Heartbeat else if v = 1 then Some CommitRecordMsg else if v = 2 then Some SnapshotMsg
      else if v = 3 then Some ErrorMsg else if v = 4 then Some ConnectMsg else if v = 5 then Some AcceptMsg
      else if v = 6 then Some AckMsg else None)"

fun message_type_as_u16 :: "message_type \<Rightarrow> u16" where
  "message_type_as_u16 Heartbeat = 0"
| "message_type_as_u16 CommitRecordMsg = 1"
| "message_type_as_u16 SnapshotMsg = 2"
| "message_type_as_u16 ErrorMsg = 3"
| "message_type_as_u16 ConnectMsg = 4"
| "message_type_as_u16 AcceptMsg = 5"
| "message_type_as_u16 AckMsg = 6"

definition requires_payload :: "message_type \<Rightarrow> bool" where
  "requires_payload t \<longleftrightarrow> t \<in> {CommitRecordMsg, SnapshotMsg, ErrorMsg}"

definition is_always_allowed :: "message_type \<Rightarrow> bool" where
  "is_always_allowed t \<longleftrightarrow> t \<in> {Heartbeat, ErrorMsg}"

record replication_message =
  rm_version :: u16
  rm_message_type :: message_type
  rm_sequence :: u64
  rm_commit_record :: "commit_record option"
  rm_lsn :: "u64 option"
  rm_payload :: "bytes option"
  rm_checksum :: u64

definition plain_message :: "message_type \<Rightarrow> u64 \<Rightarrow> replication_message" where
  "plain_message t sequence = \<lparr>rm_version = PROTOCOL_VERSION, rm_message_type = t, rm_sequence = sequence,
     rm_commit_record = None, rm_lsn = None, rm_payload = None, rm_checksum = 0\<rparr>"

definition msg_heartbeat :: "u64 \<Rightarrow> replication_message" where
  "msg_heartbeat sequence = plain_message Heartbeat sequence"

definition msg_ack :: "u64 \<Rightarrow> replication_message" where
  "msg_ack sequence = plain_message AckMsg sequence"

definition record_checksum :: "commit_record \<Rightarrow> u64" where
  "record_checksum r = ucast (cr_checksum r) XOR (cr_txn_id r * 31 + cr_root_page_id r)"

definition msg_commit_record :: "u64 \<Rightarrow> commit_record \<Rightarrow> replication_message" where
  "msg_commit_record sequence r =
     (plain_message CommitRecordMsg sequence)\<lparr>rm_commit_record := Some r, rm_checksum := record_checksum r\<rparr>"

definition msg_commit_record_bytes :: "u64 \<Rightarrow> u64 \<Rightarrow> bytes \<Rightarrow> u64 \<Rightarrow> replication_message" where
  "msg_commit_record_bytes sequence l record_bytes chk =
     (plain_message CommitRecordMsg sequence)\<lparr>rm_lsn := Some l, rm_payload := Some record_bytes, rm_checksum := chk\<rparr>"

definition msg_connect :: "u64 \<Rightarrow> u64 \<Rightarrow> replication_message" where
  "msg_connect replica_id start_lsn = (plain_message ConnectMsg replica_id)\<lparr>rm_lsn := Some start_lsn\<rparr>"

definition msg_accept :: "u64 \<Rightarrow> u16 \<Rightarrow> replication_message" where
  "msg_accept current_lsn protocol_version =
     (plain_message AcceptMsg current_lsn)\<lparr>rm_version := protocol_version, rm_lsn := Some current_lsn\<rparr>"

definition msg_snapshot :: "(bytes \<Rightarrow> u64) \<Rightarrow> u64 \<Rightarrow> bytes \<Rightarrow> replication_message" where
  "msg_snapshot hash64 sequence snapshot_data =
     (plain_message SnapshotMsg sequence)\<lparr>rm_payload := Some snapshot_data, rm_checksum := hash64 snapshot_data\<rparr>"

definition msg_error :: "bytes \<Rightarrow> replication_message" where
  "msg_error message = (plain_message ErrorMsg 0)\<lparr>rm_payload := Some message\<rparr>"

definition msg_validate_checksum :: "replication_message \<Rightarrow> bool" where
  "msg_validate_checksum m =
     (if rm_message_type m = CommitRecordMsg
      then (case rm_commit_record m of Some r \<Rightarrow> rm_checksum m = record_checksum r | None \<Rightarrow> False)
      else True)"

fun repl_serialize_mutation :: "mutation \<Rightarrow> bytes" where
  "repl_serialize_mutation (Put key val) =
     [0] @ le32 (word_of_nat (length key)) @ key @ le32 (word_of_nat (length val)) @ val"
| "repl_serialize_mutation (Delete key) = [1] @ le32 (word_of_nat (length key)) @ key"

definition serialize_commit_record :: "commit_record \<Rightarrow> bytes" where
  "serialize_commit_record r =
     le64 (cr_txn_id r) @ le64 (cr_root_page_id r) @ le32 (cr_checksum r) @
     le32 (word_of_nat (length (cr_mutations r))) @ concat (map repl_serialize_mutation (cr_mutations r))"

definition payload_bytes :: "replication_message \<Rightarrow> bytes" where
  "payload_bytes m =
     (case rm_message_type m of
        CommitRecordMsg \<Rightarrow>
          (case rm_payload m of
             Some p \<Rightarrow> p
           | None \<Rightarrow> (case rm_commit_record m of Some r \<Rightarrow> serialize_commit_record r | None \<Rightarrow> []))
      | SnapshotMsg \<Rightarrow> (case rm_payload m of Some p \<Rightarrow> p | None \<Rightarrow> [])
      | ErrorMsg \<Rightarrow> (case rm_payload m of Some p \<Rightarrow> p | None \<Rightarrow> [])
      | _ \<Rightarrow> [])"

definition msg_serialize :: "replication_message \<Rightarrow> bytes" where
  "msg_serialize m =
     le16 (rm_version m) @ le16 (message_type_as_u16 (rm_message_type m)) @ le64 (rm_sequence m) @ le64 (rm_checksum m) @
     le32 (word_of_nat (length (payload_bytes m))) @ payload_bytes m"

definition read_bytes :: "nat \<Rightarrow> bytes \<Rightarrow> (bytes \<times> bytes) io_result" where
  "read_bytes n bs =
     (if length bs < n then Err (IoFailure UnexpectedEof ''failed to fill whole buffer'') else Ok (take n bs, drop n bs))"

definition read_word :: "nat \<Rightarrow> bytes \<Rightarrow> ('a::len word \<times> bytes) io_result" where
  "read_word n bs = and_then (read_bytes n bs) (\<lambda>(x, rest). Ok (from_le x, rest))"

definition repl_deserialize_mutation :: "bytes \<Rightarrow> (mutation \<times> bytes) io_result" where
  "repl_deserialize_mutation bs =
     and_then (read_word 1 bs) (\<lambda>(variant :: u8, bs).
       if variant = 0 then
         and_then (read_word 4 bs) (\<lambda>(key_len :: u32, bs).
         and_then (read_bytes (unat key_len) bs) (\<lambda>(key, bs).
         and_then (read_word 4 bs) (\<lambda>(value_len :: u32, bs).
         and_then (read_bytes (unat value_len) bs) (\<lambda>(val, bs). Ok (Put key val, bs)))))
       else if variant = 1 then
         and_then (read_word 4 bs) (\<lambda>(key_len :: u32, bs).
         and_then (read_bytes (unat key_len) bs) (\<lambda>(key, bs). Ok (Delete key, bs)))
       else Err (IoFailure InvalidData ''Invalid mutation variant''))"

fun repl_deserialize_mutations :: "nat \<Rightarrow> bytes \<Rightarrow> (mutation list \<times> bytes) io_result" where
  "repl_deserialize_mutations 0 bs = Ok ([], bs)"
| "repl_deserialize_mutations (Suc n) bs =
     and_then (repl_deserialize_mutation bs) (\<lambda>(m, bs).
     and_then (repl_deserialize_mutations n bs) (\<lambda>(ms, bs). Ok (m # ms, bs)))"

definition deserialize_commit_record :: "bytes \<Rightarrow> commit_record io_result" where
  "deserialize_commit_record bs =
     and_then (read_word 8 bs) (\<lambda>(txn_id, bs).
     and_then (read_word 8 bs) (\<lambda>(root_page_id, bs).
     and_then (read_word 4 bs) (\<lambda>(chk, bs).
     and_then (read_word 4 bs) (\<lambda>(mutation_count :: u32, bs).
     and_then (repl_deserialize_mutations (unat mutation_count) bs) (\<lambda>(mutations, bs).
       Ok \<lparr>cr_txn_id = txn_id, cr_root_page_id = root_page_id, cr_mutations = mutations, cr_checksum = chk\<rparr>)))))"

definition msg_deserialize :: "bytes \<Rightarrow> replication_message io_result" where
  "msg_deserialize bs =
     and_then (read_word 2 bs) (\<lambda>(version, bs).
     and_then (read_word 2 bs) (\<lambda>(message_type :: u16, bs).
     and_then (read_word 8 bs) (\<lambda>(sequence, bs).
     and_then (read_word 8 bs) (\<lambda>(chk, bs).
     and_then (read_word 4 bs) (\<lambda>(payload_length :: u32, bs).
       case message_type_from_u16 message_type of
         None \<Rightarrow> Err (IoFailure InvalidData ''Invalid message type'')
       | Some t \<Rightarrow>
           and_then
             (if payload_length \<noteq> 0 then
                and_then (read_bytes (unat payload_length) bs) (\<lambda>(buf, bs).
                  if t = CommitRecordMsg then and_then (deserialize_commit_record buf) (\<lambda>r. Ok (None, Some r))
                  else Ok (Some buf, None))
              else Ok (None, None))
             (\<lambda>(payload, commit_record).
               Ok \<lparr>rm_version = version, rm_message_type = t, rm_sequence = sequence, rm_commit_record = commit_record,
                   rm_lsn = None, rm_payload = payload, rm_checksum = chk\<rparr>))))))"

section \<open>The wire format is readable\<close>

lemma read_bytes_append [simp]: "length xs = n \<Longrightarrow> read_bytes n (xs @ ys) = Ok (xs, ys)"
  by (auto simp: read_bytes_def)

lemma read_bytes_all [simp]: "length xs = n \<Longrightarrow> read_bytes n xs = Ok (xs, [])"
  by (auto simp: read_bytes_def)

lemma read_word_append [simp]:
  "read_word 2 (le16 a @ ys) = Ok (a, ys)" "read_word 4 (le32 b @ ys) = Ok (b, ys)" "read_word 8 (le64 c @ ys) = Ok (c, ys)"
  "read_word 4 (le32 b) = Ok (b, [])"
  by (simp_all add: read_word_def)

lemma read_byte [simp]: "read_word (Suc 0) (x # ys) = Ok (x :: u8, ys)"
  by (simp add: read_word_def read_bytes_def from_le_byte)

fun wire_mutation :: "mutation \<Rightarrow> bool" where
  "wire_mutation (Put key val) \<longleftrightarrow> length key < 2 ^ 32 \<and> length val < 2 ^ 32"
| "wire_mutation (Delete key) \<longleftrightarrow> length key < 2 ^ 32"

definition wire_record :: "commit_record \<Rightarrow> bool" where
  "wire_record r \<longleftrightarrow> length (cr_mutations r) < 2 ^ 32 \<and> (\<forall>m \<in> set (cr_mutations r). wire_mutation m) \<and>
     length (serialize_commit_record r) < 2 ^ 32"

lemma repl_deserialize_mutation_image:
  "wire_mutation m \<Longrightarrow> repl_deserialize_mutation (repl_serialize_mutation m @ rest) = Ok (m, rest)"
  by (cases m) (simp_all add: repl_deserialize_mutation_def unat_of_nat)

lemma repl_deserialize_mutations_image:
  "\<forall>m \<in> set ms. wire_mutation m \<Longrightarrow>
   repl_deserialize_mutations (length ms) (concat (map repl_serialize_mutation ms) @ rest) = Ok (ms, rest)"
  by (induction ms) (simp_all add: repl_deserialize_mutation_image)

lemma commit_record_image: "wire_record r \<Longrightarrow> deserialize_commit_record (serialize_commit_record r) = Ok r"
  using repl_deserialize_mutations_image [of "cr_mutations r" "[]"]
  by (simp add: wire_record_def deserialize_commit_record_def serialize_commit_record_def unat_of_nat)

lemma serialize_commit_record_nonempty: "serialize_commit_record r \<noteq> []"
  using length_le(3) [of "cr_txn_id r"] by (auto simp: serialize_commit_record_def simp del: length_le)

lemma message_type_from_as [simp]: "message_type_from_u16 (message_type_as_u16 t) = Some t"
  by (cases t) (simp_all add: message_type_from_u16_def)

text \<open>
  Messages as the constructors build them: a commit record travels in its own field, only snapshots and errors
  carry a payload, and it is not empty.
\<close>

definition wire_message :: "replication_message \<Rightarrow> bool" where
  "wire_message m \<longleftrightarrow>
     (case rm_message_type m of
        CommitRecordMsg \<Rightarrow> rm_payload m = None \<and> (\<exists>r. rm_commit_record m = Some r \<and> wire_record r)
      | SnapshotMsg \<Rightarrow> rm_commit_record m = None \<and> (\<exists>p. rm_payload m = Some p \<and> p \<noteq> [] \<and> length p < 2 ^ 32)
      | ErrorMsg \<Rightarrow> rm_commit_record m = None \<and> (\<exists>p. rm_payload m = Some p \<and> p \<noteq> [] \<and> length p < 2 ^ 32)
      | _ \<Rightarrow> rm_commit_record m = None \<and> rm_payload m = None)"

lemma word_of_nat_nonzero:
  assumes "0 < n" "n < 2 ^ 32"
  shows "(word_of_nat n :: u32) \<noteq> 0"
proof
  assume "(word_of_nat n :: u32) = 0"
  then have "unat (word_of_nat n :: u32) = 0" by simp
  with assms show False by (simp add: unat_of_nat)
qed

lemma msg_deserialize_header:
  assumes "length p < 2 ^ 32"
  shows "msg_deserialize (le16 v @ le16 (message_type_as_u16 t) @ le64 s @ le64 c @ le32 (word_of_nat (length p)) @ p) =
    and_then (if p \<noteq> [] then
                if t = CommitRecordMsg then and_then (deserialize_commit_record p) (\<lambda>r. Ok (None, Some r)) else Ok (Some p, None)
              else Ok (None, None))
      (\<lambda>(payload, commit_record).
        Ok \<lparr>rm_version = v, rm_message_type = t, rm_sequence = s, rm_commit_record = commit_record,
            rm_lsn = None, rm_payload = payload, rm_checksum = c\<rparr>)"
proof -
  have "unat (word_of_nat (length p) :: u32) = length p" using assms by (simp add: unat_of_nat)
  moreover have "(word_of_nat (length p) :: u32) = 0 \<longleftrightarrow> p = []"
    using word_of_nat_nonzero [OF _ assms] by auto
  ultimately show ?thesis by (simp add: msg_deserialize_def)
qed

lemma message_image:
  assumes "wire_message m"
  shows "msg_deserialize (msg_serialize m) = Ok (m\<lparr>rm_lsn := None\<rparr>)" "length (payload_bytes m) < 2 ^ 32"
proof -
  show len: "length (payload_bytes m) < 2 ^ 32"
    using assms by (auto simp: wire_message_def payload_bytes_def wire_record_def split: message_type.splits)
  show "msg_deserialize (msg_serialize m) = Ok (m\<lparr>rm_lsn := None\<rparr>)"
    unfolding msg_serialize_def msg_deserialize_header [OF len] using assms
    by (cases m; cases "rm_message_type m")
      (auto simp: wire_message_def payload_bytes_def commit_record_image serialize_commit_record_nonempty)
qed

end
