(* ===== verification/Replication_Stream.thy ===== *)
theory Replication_Stream
  imports Replication
begin

text \<open>
  The handlers of \<^verbatim>\<open>replication/handlers.rs\<close>, the frames of \<^verbatim>\<open>replication/frame.rs\<close> and
  \<open>ReplicaConnection::receive_message\<close> of \<^verbatim>\<open>replication/publisher.rs\<close>. A stream is the list of the bytes that were
  written and not yet read. The theorems say that a message on the stream is read back as it was written
  and that a snapshot of any size is cut into frames and put together again.
\<close>

section \<open>handlers.rs\<close>

fun message_type_name :: "message_type \<Rightarrow> string" where
  "message_type_name Heartbeat = ''Heartbeat''"
| "message_type_name CommitRecordMsg = ''CommitRecord''"
| "message_type_name SnapshotMsg = ''Snapshot''"
| "message_type_name ErrorMsg = ''Error''"
| "message_type_name ConnectMsg = ''Connect''"
| "message_type_name AcceptMsg = ''Accept''"
| "message_type_name AckMsg = ''Ack''"

definition expect_type :: "message_type \<Rightarrow> replication_message \<Rightarrow> unit repl_result" where
  "expect_type t m =
     (if rm_message_type m \<noteq> t
      then Err (InvalidMessage (''Expected '' @ message_type_name t @ '', got '' @ message_type_name (rm_message_type m)))
      else Ok ())"

record handshake_handler =
  hs_supported_versions :: "u16 list"
  hs_max_retries :: u32

definition handshake_with_versions :: "u16 list \<Rightarrow> handshake_handler" where
  "handshake_with_versions vs = \<lparr>hs_supported_versions = vs, hs_max_retries = 3\<rparr>"

definition handshake_new :: handshake_handler where
  "handshake_new = handshake_with_versions [PROTOCOL_VERSION]"

definition handle_request :: "handshake_handler \<Rightarrow> u16 \<Rightarrow> replication_message repl_result" where
  "handle_request h version =
     (if version \<notin> set (hs_supported_versions h) then Err (ProtocolVersionMismatch PROTOCOL_VERSION version)
      else Ok (msg_heartbeat 0))"

definition negotiate_version :: "handshake_handler \<Rightarrow> u16 \<Rightarrow> u16 repl_result" where
  "negotiate_version h client_version =
     (if client_version \<notin> set (hs_supported_versions h) then Err (ProtocolVersionMismatch PROTOCOL_VERSION client_version)
      else Ok (Max (set (hs_supported_versions h))))"

record heartbeat_handler =
  hb_interval_secs :: u64
  hb_timeout_secs :: u64
  hb_last_heartbeat :: nat

definition heartbeat_with_interval :: "nat \<Rightarrow> u64 \<Rightarrow> u64 \<Rightarrow> heartbeat_handler" where
  "heartbeat_with_interval now interval timeout =
     \<lparr>hb_interval_secs = interval, hb_timeout_secs = timeout, hb_last_heartbeat = now\<rparr>"

definition heartbeat_new :: "nat \<Rightarrow> heartbeat_handler" where
  "heartbeat_new now = heartbeat_with_interval now DEFAULT_HEARTBEAT_INTERVAL_SECS (DEFAULT_HEARTBEAT_INTERVAL_SECS * 3)"

definition heartbeat_handle :: "nat \<Rightarrow> replication_message \<Rightarrow> heartbeat_handler \<Rightarrow> heartbeat_handler repl_result" where
  "heartbeat_handle now m h = and_then (expect_type Heartbeat m) (\<lambda>_. Ok (h\<lparr>hb_last_heartbeat := now\<rparr>))"

definition should_send_heartbeat :: "nat \<Rightarrow> heartbeat_handler \<Rightarrow> bool" where
  "should_send_heartbeat now h \<longleftrightarrow> unat (hb_interval_secs h) * 1000000000 \<le> now - hb_last_heartbeat h"

definition heartbeat_is_timeout :: "nat \<Rightarrow> heartbeat_handler \<Rightarrow> bool" where
  "heartbeat_is_timeout now h \<longleftrightarrow> unat (hb_timeout_secs h) * 1000000000 \<le> now - hb_last_heartbeat h"

definition heartbeat_reset :: "nat \<Rightarrow> heartbeat_handler \<Rightarrow> heartbeat_handler" where
  "heartbeat_reset now h = h\<lparr>hb_last_heartbeat := now\<rparr>"

record commit_record_handler =
  ch_buffer_size :: nat
  ch_pending_records :: "commit_record list"
  ch_sequence :: u64

definition commit_handler_with_size :: "nat \<Rightarrow> commit_record_handler" where
  "commit_handler_with_size n = \<lparr>ch_buffer_size = n, ch_pending_records = [], ch_sequence = 0\<rparr>"

definition commit_handler_new :: commit_record_handler where
  "commit_handler_new = commit_handler_with_size 1000"

definition buffer_record :: "commit_record \<Rightarrow> commit_record_handler \<Rightarrow> commit_record_handler repl_result" where
  "buffer_record r h =
     (if ch_buffer_size h \<le> length (ch_pending_records h)
      then Err (BufferOverflow (word_of_nat (ch_buffer_size h)) (word_of_nat (ch_buffer_size h)))
      else Ok (h\<lparr>ch_pending_records := ch_pending_records h @ [r]\<rparr>))"

definition commit_handle_message :: "replication_message \<Rightarrow> commit_record_handler \<Rightarrow> (commit_record \<times> commit_record_handler) repl_result" where
  "commit_handle_message m h =
     and_then (expect_type CommitRecordMsg m) (\<lambda>_.
       case rm_commit_record m of
         None \<Rightarrow> Err (ReplCorruptedData ''Missing commit record in message'')
       | Some r \<Rightarrow>
           if \<not> msg_validate_checksum m then Err ReplChecksumError
           else Ok (r, h\<lparr>ch_sequence := rm_sequence m\<rparr>))"

definition commit_create_message :: "commit_record \<Rightarrow> commit_record_handler \<Rightarrow> (replication_message \<times> commit_record_handler) repl_result" where
  "commit_create_message r h =
     (case checked_add (ch_sequence h) 1 of
        Some s \<Rightarrow> Ok (msg_commit_record (ch_sequence h) r, h\<lparr>ch_sequence := s\<rparr>)
      | None \<Rightarrow> Panic)"

definition commit_handler_is_full :: "commit_record_handler \<Rightarrow> bool" where
  "commit_handler_is_full h \<longleftrightarrow> ch_buffer_size h \<le> length (ch_pending_records h)"

definition commit_handler_clear :: "commit_record_handler \<Rightarrow> commit_record_handler" where
  "commit_handler_clear h = h\<lparr>ch_pending_records := []\<rparr>"

record snapshot_handler =
  sh_chunk_size :: nat
  sh_pending_chunks :: "bytes list"
  sh_sequence :: u64

definition snapshot_handler_with_size :: "nat \<Rightarrow> snapshot_handler" where
  "snapshot_handler_with_size n = \<lparr>sh_chunk_size = n, sh_pending_chunks = [], sh_sequence = 0\<rparr>"

definition snapshot_handler_new :: snapshot_handler where
  "snapshot_handler_new = snapshot_handler_with_size (1024 * 1024)"

definition handle_chunk :: "replication_message \<Rightarrow> bytes repl_result" where
  "handle_chunk m = and_then (expect_type SnapshotMsg m) (\<lambda>_. Ok [])"

fun snapshot_messages :: "(bytes \<Rightarrow> u64) \<Rightarrow> bytes list \<Rightarrow> snapshot_handler \<Rightarrow> (replication_message list \<times> snapshot_handler) repl_result" where
  "snapshot_messages hash64 [] h = Ok ([], h)"
| "snapshot_messages hash64 (c # cs) h =
     (case checked_add (sh_sequence h) 1 of
        Some s \<Rightarrow>
          and_then (snapshot_messages hash64 cs (h\<lparr>sh_sequence := s\<rparr>)) (\<lambda>(ms, h').
            Ok (msg_snapshot hash64 (sh_sequence h) c # ms, h'))
      | None \<Rightarrow> Panic)"

definition snapshot_create_messages ::
  "(bytes \<Rightarrow> u64) \<Rightarrow> bytes \<Rightarrow> snapshot_handler \<Rightarrow> (replication_message list \<times> snapshot_handler) repl_result" where
  "snapshot_create_messages hash64 snapshot_data h =
     (if sh_chunk_size h = 0 then Panic else snapshot_messages hash64 (chunks_of (sh_chunk_size h) snapshot_data) h)"

record error_handler =
  eh_error_count :: u32
  eh_max_errors :: u32

definition error_handler_with_max :: "u32 \<Rightarrow> error_handler" where
  "error_handler_with_max n = \<lparr>eh_error_count = 0, eh_max_errors = n\<rparr>"

definition error_handler_new :: error_handler where
  "error_handler_new = error_handler_with_max 10"

definition error_handle_message :: "replication_message \<Rightarrow> error_handler \<Rightarrow> unit repl_result \<times> error_handler" where
  "error_handle_message m h =
     (case expect_type ErrorMsg m of
        Ok _ \<Rightarrow>
          (case checked_add (eh_error_count h) 1 of
             None \<Rightarrow> (Panic, h)
           | Some n \<Rightarrow>
               (if eh_max_errors h \<le> n
                then Err (InvalidMessage (''Error threshold exceeded: '' @ fmt n @ '' errors'')) else Ok (),
                h\<lparr>eh_error_count := n\<rparr>))
      | Err e \<Rightarrow> (Err e, h)
      | Panic \<Rightarrow> (Panic, h))"

definition error_create_message :: "u64 \<Rightarrow> bytes \<Rightarrow> replication_message" where
  "error_create_message sequence message = (msg_error message)\<lparr>rm_sequence := sequence\<rparr>"

definition error_threshold_exceeded :: "error_handler \<Rightarrow> bool" where
  "error_threshold_exceeded h \<longleftrightarrow> eh_max_errors h \<le> eh_error_count h"

section \<open>receive_message\<close>

definition receive_message :: "bytes \<Rightarrow> (replication_message \<times> bytes) repl_result" where
  "receive_message stream =
     and_then (repl_of_io (read_bytes 24 stream)) (\<lambda>(header, stream).
       let payload_len = unat (from_le (subslice 20 4 header) :: u32) in
       and_then (if 0 < payload_len then repl_of_io (read_bytes payload_len stream) else Ok ([], stream)) (\<lambda>(payload, stream).
         case msg_deserialize (header @ payload) of
           Ok m \<Rightarrow> Ok (m, stream)
         | Err e \<Rightarrow> Err (InvalidMessage (''Failed to deserialize message: '' @ io_message e))
         | Panic \<Rightarrow> Panic))"

section \<open>frame.rs\<close>

definition FRAME_MAGIC :: u32 where "FRAME_MAGIC = 0x4E535444"
definition FRAME_HEADER_SIZE :: nat where "FRAME_HEADER_SIZE = 24"
definition FRAME_MAX_PAYLOAD_SIZE :: nat where "FRAME_MAX_PAYLOAD_SIZE = 100 * 1024 * 1024"
definition SNAPSHOT_CHUNK_SIZE :: nat where "SNAPSHOT_CHUNK_SIZE = 1024 * 1024"

record frame_header =
  fh_magic :: u32
  fh_version :: u16
  fh_message_type :: message_type
  fh_sequence :: u64
  fh_payload_length :: u32
  fh_checksum :: u32

definition frame_header_new :: "u16 \<Rightarrow> message_type \<Rightarrow> u64 \<Rightarrow> u32 \<Rightarrow> u32 \<Rightarrow> frame_header" where
  "frame_header_new version t sequence payload_length chk =
     \<lparr>fh_magic = FRAME_MAGIC, fh_version = version, fh_message_type = t, fh_sequence = sequence,
      fh_payload_length = payload_length, fh_checksum = chk\<rparr>"

definition frame_header_to_bytes :: "frame_header \<Rightarrow> bytes" where
  "frame_header_to_bytes h =
     le32 (fh_magic h) @ le16 (fh_version h) @ le16 (message_type_as_u16 (fh_message_type h)) @
     le64 (fh_sequence h) @ le32 (fh_payload_length h) @ le32 (fh_checksum h)"

definition frame_header_from_bytes :: "bytes \<Rightarrow> frame_header io_result" where
  "frame_header_from_bytes bs =
     (if length bs < FRAME_HEADER_SIZE then Err (IoFailure UnexpectedEof ''Insufficient data for frame header'')
      else
        and_then (read_word 4 bs) (\<lambda>(magic, bs).
        and_then (read_word 2 bs) (\<lambda>(version, bs).
        and_then (read_word 2 bs) (\<lambda>(message_type :: u16, bs).
        and_then (read_word 8 bs) (\<lambda>(sequence, bs).
        and_then (read_word 4 bs) (\<lambda>(payload_length, bs).
        and_then (read_word 4 bs) (\<lambda>(chk, bs).
          if magic \<noteq> FRAME_MAGIC
          then Err (IoFailure InvalidData (''Invalid magic number: expected 0x'' @ fmt_hex8 FRAME_MAGIC @ '', got 0x'' @ fmt_hex8 magic))
          else case message_type_from_u16 message_type of
            None \<Rightarrow> Err (IoFailure InvalidData ''Invalid message type'')
          | Some t \<Rightarrow> Ok \<lparr>fh_magic = magic, fh_version = version, fh_message_type = t, fh_sequence = sequence,
                         fh_payload_length = payload_length, fh_checksum = chk\<rparr>)))))))"

definition frame_total_size :: "frame_header \<Rightarrow> nat" where
  "frame_total_size h = FRAME_HEADER_SIZE + unat (fh_payload_length h)"

definition frame_validate_version :: "frame_header \<Rightarrow> unit io_result" where
  "frame_validate_version h =
     (if fh_version h \<noteq> PROTOCOL_VERSION
      then Err (IoFailure InvalidData (''Protocol version mismatch: expected '' @ fmt PROTOCOL_VERSION @ '', got '' @ fmt (fh_version h)))
      else Ok ())"

definition write_frame :: "(bytes \<Rightarrow> u32) \<Rightarrow> frame_header \<Rightarrow> bytes \<Rightarrow> bytes \<Rightarrow> bytes io_result" where
  "write_frame crc h payload written =
     (if length payload \<noteq> unat (fh_payload_length h)
      then Err (IoFailure InvalidInput (''Payload length mismatch: header says '' @ fmt (fh_payload_length h) @
             '', actual '' @ fmt_nat (length payload)))
      else if crc payload \<noteq> fh_checksum h
      then Err (IoFailure InvalidData (''Checksum mismatch: expected 0x'' @ fmt_hex8 (fh_checksum h) @
             '', calculated 0x'' @ fmt_hex8 (crc payload)))
      else Ok (written @ frame_header_to_bytes h @ payload))"

definition read_frame :: "(bytes \<Rightarrow> u32) \<Rightarrow> bytes \<Rightarrow> ((frame_header \<times> bytes) \<times> bytes) io_result" where
  "read_frame crc stream =
     and_then (read_bytes FRAME_HEADER_SIZE stream) (\<lambda>(header_bytes, stream).
     and_then (frame_header_from_bytes header_bytes) (\<lambda>h.
     and_then (frame_validate_version h) (\<lambda>_.
       let payload_length = unat (fh_payload_length h) in
       if FRAME_MAX_PAYLOAD_SIZE < payload_length
       then Err (IoFailure InvalidData (''Payload too large: '' @ fmt_nat payload_length @ '' bytes (max '' @
              fmt_nat FRAME_MAX_PAYLOAD_SIZE @ '')''))
       else
         and_then (read_bytes payload_length stream) (\<lambda>(payload, stream).
           if crc payload \<noteq> fh_checksum h
           then Err (IoFailure InvalidData (''Checksum validation failed: expected 0x'' @ fmt_hex8 (fh_checksum h) @
                  '', calculated 0x'' @ fmt_hex8 (crc payload)))
           else Ok ((h, payload), stream)))))"

fun chunk_frames :: "(bytes \<Rightarrow> u32) \<Rightarrow> message_type \<Rightarrow> u64 \<Rightarrow> nat \<Rightarrow> bytes list \<Rightarrow> (frame_header \<times> bytes) list io_result" where
  "chunk_frames crc t sequence i [] = Ok []"
| "chunk_frames crc t sequence i (c # cs) =
     (case checked_add sequence (word_of_nat i) of
        None \<Rightarrow> Panic
      | Some s \<Rightarrow>
          and_then (chunk_frames crc t sequence (Suc i) cs) (\<lambda>fs.
            Ok ((frame_header_new PROTOCOL_VERSION t s (word_of_nat (length c)) (crc c), c) # fs)))"

definition chunk_payload :: "(bytes \<Rightarrow> u32) \<Rightarrow> bytes \<Rightarrow> message_type \<Rightarrow> u64 \<Rightarrow> (frame_header \<times> bytes) list io_result" where
  "chunk_payload crc payload t sequence = chunk_frames crc t sequence 0 (chunks_of SNAPSHOT_CHUNK_SIZE payload)"

definition reassemble_payload :: "(frame_header \<times> bytes) list \<Rightarrow> (bytes \<times> nat) io_result" where
  "reassemble_payload frames =
     (case frames of
        [] \<Rightarrow> Ok ([], 0)
      | (h, _) # _ \<Rightarrow>
          if list_all (\<lambda>f. fh_message_type (fst f) = fh_message_type h) frames
          then Ok (concat (map snd frames), length frames)
          else Err (IoFailure InvalidData ''Message type mismatch in chunked frames''))"

section \<open>Receiving what was sent\<close>

lemma receive_message_image:
  assumes "wire_message m"
  shows "receive_message (msg_serialize m @ rest) = Ok (m\<lparr>rm_lsn := None\<rparr>, rest)"
proof -
  let ?p = "payload_bytes m"
  let ?pre = "le16 (rm_version m) @ le16 (message_type_as_u16 (rm_message_type m)) @ le64 (rm_sequence m) @ le64 (rm_checksum m)"
  let ?hdr = "?pre @ le32 (word_of_nat (length ?p))"
  have ser: "msg_serialize m = ?hdr @ ?p" by (simp add: msg_serialize_def)
  have len: "length ?hdr = 24" "length ?pre = 20" by simp_all
  have "subslice 20 4 ?hdr = le32 (word_of_nat (length ?p))"
    unfolding subslice_def by (subst drop_append) (simp add: len(2))
  then have plen: "unat (from_le (subslice 20 4 ?hdr) :: u32) = length ?p"
    using message_image(2) [OF assms] by (simp only: from_le_le32) (simp add: unat_of_nat)
  have read: "read_bytes 24 (?hdr @ ?p @ rest) = Ok (?hdr, ?p @ rest)" by (rule read_bytes_append [OF len(1)])
  have "receive_message (?hdr @ ?p @ rest) = Ok (m\<lparr>rm_lsn := None\<rparr>, rest)"
    unfolding receive_message_def read using message_image(1) [OF assms] unfolding ser
    by (simp only: repl_of_io.simps and_then.simps prod.case plen Let_def) auto
  then show ?thesis by (simp only: ser append_assoc)
qed

text \<open>The message that a handler creates for a commit record is one that a handler accepts: it gives the record and its sequence number.\<close>

lemma created_commit_handled:
  assumes "commit_create_message r h = Ok (m, h')"
  shows "commit_handle_message m g = Ok (r, g\<lparr>ch_sequence := ch_sequence h\<rparr>) \<and> ch_sequence h' = ch_sequence h + 1"
  using assms
  by (auto simp: commit_create_message_def commit_handle_message_def expect_type_def msg_validate_checksum_def msg_commit_record_def
      plain_message_def checked_add_one_Some and_then_split split: option.splits)

section \<open>Snapshots in frames\<close>

lemma length_frame_header [simp]: "length (frame_header_to_bytes h) = FRAME_HEADER_SIZE"
  by (simp add: frame_header_to_bytes_def FRAME_HEADER_SIZE_def)

lemma frame_header_image: "fh_magic h = FRAME_MAGIC \<Longrightarrow> frame_header_from_bytes (frame_header_to_bytes h) = Ok h"
  unfolding frame_header_from_bytes_def length_frame_header
  by (cases h) (simp add: frame_header_to_bytes_def)

definition good_frame :: "(bytes \<Rightarrow> u32) \<Rightarrow> frame_header \<times> bytes \<Rightarrow> bool" where
  "good_frame crc f \<longleftrightarrow> fh_magic (fst f) = FRAME_MAGIC \<and> fh_version (fst f) = PROTOCOL_VERSION \<and>
     unat (fh_payload_length (fst f)) = length (snd f) \<and> length (snd f) \<le> FRAME_MAX_PAYLOAD_SIZE \<and> crc (snd f) = fh_checksum (fst f)"

lemma frame_image:
  assumes "good_frame crc f"
  shows "write_frame crc (fst f) (snd f) w = Ok (w @ frame_header_to_bytes (fst f) @ snd f)"
    "read_frame crc (frame_header_to_bytes (fst f) @ snd f @ rest) = Ok (f, rest)"
  using assms
  by (simp_all add: good_frame_def write_frame_def read_frame_def frame_header_image frame_validate_version_def Let_def)

fun write_frames :: "(bytes \<Rightarrow> u32) \<Rightarrow> (frame_header \<times> bytes) list \<Rightarrow> bytes \<Rightarrow> bytes io_result" where
  "write_frames crc [] w = Ok w"
| "write_frames crc (f # fs) w = and_then (write_frame crc (fst f) (snd f) w) (write_frames crc fs)"

fun read_frames :: "(bytes \<Rightarrow> u32) \<Rightarrow> nat \<Rightarrow> bytes \<Rightarrow> ((frame_header \<times> bytes) list \<times> bytes) io_result" where
  "read_frames crc 0 stream = Ok ([], stream)"
| "read_frames crc (Suc n) stream =
     and_then (read_frame crc stream) (\<lambda>(f, stream).
     and_then (read_frames crc n stream) (\<lambda>(fs, stream). Ok (f # fs, stream)))"

definition frame_bytes :: "(frame_header \<times> bytes) list \<Rightarrow> bytes" where
  "frame_bytes fs = concat (map (\<lambda>f. frame_header_to_bytes (fst f) @ snd f) fs)"

lemma frames_image:
  "\<forall>f \<in> set fs. good_frame crc f \<Longrightarrow>
     write_frames crc fs w = Ok (w @ frame_bytes fs) \<and> read_frames crc (length fs) (frame_bytes fs @ rest) = Ok (fs, rest)"
  by (induction fs arbitrary: w) (simp_all add: frame_image frame_bytes_def)

lemma chunk_frames_good:
  assumes "\<forall>c \<in> set cs. length c \<le> SNAPSHOT_CHUNK_SIZE" "unat s + i + length cs \<le> 2 ^ 64"
  shows "\<exists>fs. chunk_frames crc t s i cs = Ok fs \<and> map snd fs = cs \<and> (\<forall>f \<in> set fs. good_frame crc f \<and> fh_message_type (fst f) = t)"
  using assms
proof (induction cs arbitrary: i)
  case (Cons c cs)
  obtain fs where fs: "chunk_frames crc t s (Suc i) cs = Ok fs" "map snd fs = cs"
    "\<forall>f \<in> set fs. good_frame crc f \<and> fh_message_type (fst f) = t"
    using Cons.IH [of "Suc i"] Cons.prems by auto
  have "unat (word_of_nat i :: u64) = i" using Cons.prems(2) by (simp add: unat_of_nat)
  then have "checked_add s (word_of_nat i) \<noteq> None" using Cons.prems(2) by (simp add: checked_add_def)
  then obtain x where x: "checked_add s (word_of_nat i) = Some x" by blast
  have "length c \<le> SNAPSHOT_CHUNK_SIZE" using Cons.prems(1) by simp
  then have "good_frame crc (frame_header_new PROTOCOL_VERSION t x (word_of_nat (length c)) (crc c), c)"
    by (simp add: good_frame_def frame_header_new_def unat_of_nat SNAPSHOT_CHUNK_SIZE_def FRAME_MAX_PAYLOAD_SIZE_def)
  with fs x show ?case by (auto simp: frame_header_new_def)
qed simp

text \<open>
  C31. A snapshot survives the transfer in frames. Any payload is cut into frames of at most a megabyte, all of
  which the writer accepts; reading the written bytes gives back the same frames, leaving alone what
  follows, and putting the frames together gives the payload and their number.
\<close>

theorem snapshot_transfer_roundtrip:
  assumes "unat s + length (chunks_of SNAPSHOT_CHUNK_SIZE p) \<le> 2 ^ 64"
  shows "\<exists>fs stream. chunk_payload crc p t s = Ok fs \<and> write_frames crc fs [] = Ok stream \<and>
    read_frames crc (length fs) (stream @ rest) = Ok (fs, rest) \<and> reassemble_payload fs = Ok (p, length fs)"
proof -
  have "unat s + 0 + length (chunks_of SNAPSHOT_CHUNK_SIZE p) \<le> 2 ^ 64" using assms by simp
  moreover have "\<forall>c \<in> set (chunks_of SNAPSHOT_CHUNK_SIZE p). length c \<le> SNAPSHOT_CHUNK_SIZE" by (simp add: chunks_of_length)
  ultimately obtain fs where fs: "chunk_payload crc p t s = Ok fs" "map snd fs = chunks_of SNAPSHOT_CHUNK_SIZE p"
    "\<forall>f \<in> set fs. good_frame crc f \<and> fh_message_type (fst f) = t"
    using chunk_frames_good unfolding chunk_payload_def by blast
  have "concat (map snd fs) = p" unfolding fs(2) by (rule concat_chunks_of) (simp add: SNAPSHOT_CHUNK_SIZE_def)
  moreover have "list_all (\<lambda>f. fh_message_type (fst f) = t) fs" using fs(3) by (simp add: list_all_iff)
  ultimately have "reassemble_payload fs = Ok (p, length fs)"
    using fs(3) by (cases fs) (auto simp: reassemble_payload_def split: prod.splits)
  with fs(1,3) frames_image [of fs crc "[]" rest] show ?thesis by auto
qed

theorem snapshot_transfer_roundtrip_witness:
  "\<exists>fs stream. chunk_payload crc32c_bitwise [1, 2, 3] SnapshotMsg 5 = Ok fs \<and> write_frames crc32c_bitwise fs [] = Ok stream \<and>
     read_frames crc32c_bitwise (length fs) (stream @ [9]) = Ok (fs, [9]) \<and> reassemble_payload fs = Ok ([1, 2, 3], length fs)"
proof -
  have "unat (5 :: u64) + length (chunks_of SNAPSHOT_CHUNK_SIZE [1, 2, 3 :: u8]) \<le> 2 ^ 64"
    by (simp add: chunks_of.simps SNAPSHOT_CHUNK_SIZE_def)
  from snapshot_transfer_roundtrip [OF this] show ?thesis .
qed

section \<open>Negotiation\<close>

text \<open>The negotiated version does not depend on the client: it is the newest the server knows.\<close>

lemma negotiate_ignores_client:
  "negotiate_version (handshake_with_versions [1, 2]) 1 = Ok 2"
  by (simp add: negotiate_version_def handshake_with_versions_def)

text \<open>With a validated configuration the back-off never overflows and stays within a minute.\<close>

lemma backoff_product:
  assumes "b \<le> (60000 :: u64)"
  shows "checked_mul b (2 ^ unat (min attempt (10 :: u32))) = Some (b * 2 ^ unat (min attempt 10))"
proof -
  have "unat b \<le> 60000" using assms by (simp add: word_le_nat_alt)
  moreover have exp: "unat (min attempt 10) \<le> 10" by (simp add: min_def word_le_nat_alt)
  have "unat (2 ^ k :: u64) \<le> 2 ^ k" for k
  proof -
    have "unat (word_of_nat (2 ^ k) :: u64) \<le> 2 ^ k" by (simp only: unat_of_nat mod_less_eq_dividend)
    then show ?thesis by simp
  qed
  then have "unat (2 ^ unat (min attempt 10) :: u64) \<le> 2 ^ 10"
    by (rule order_trans) (rule power_increasing [OF exp], simp)
  ultimately have "unat b * unat (2 ^ unat (min attempt 10) :: u64) \<le> 60000 * 2 ^ 10"
    by (rule mult_le_mono)
  then show ?thesis by (simp add: checked_mul_def)
qed

lemma backoff_delay_bounded:
  assumes "replica_config_validate c = Ok ()"
  shows "\<exists>d. backoff_delay c attempt = Ok d \<and> d \<le> 60000"
proof -
  have "rcf_reconnect_interval_ms c \<le> 60000" using assms by (auto simp: replica_config_validate_def split: if_splits)
  from backoff_product [OF this] show ?thesis by (simp add: backoff_delay_def min_def)
qed

end
