(* ===== verification/Publisher.thy ===== *)
theory Publisher
  imports Replication_Stream Step_Runs
begin

text \<open>
  The publisher of the primary: \<^verbatim>\<open>replication/publisher.rs\<close>. Commit records are numbered, kept in a bounded buffer
  until every replica has acknowledged them, and queued for each connected replica; a buffer that fills
  up puts the publisher under backpressure. The asynchronous tasks are steps on the state of the publisher:
  accepting a connection, a heartbeat round, bytes arriving from a replica, a published record. The connection map is an association
  list in the order in which a round visits it. The JSON encoding of a record is the
  parameter \<open>to_json\<close>, the hash of the standard library the parameter \<open>hash64\<close>; clock readings and the results of socket
  operations are arguments. Byte counts are natural numbers.
\<close>

section \<open>Buffer\<close>

datatype backpressure_state = BpNormal | BpApplying | BpRelieving

record buffered_record =
  bf_lsn :: u64
  bf_sequence :: u64
  bf_record_bytes :: bytes
  bf_checksum :: u64
  bf_timestamp :: nat

definition buffered_record_new :: "nat \<Rightarrow> u64 \<Rightarrow> u64 \<Rightarrow> bytes \<Rightarrow> u64 \<Rightarrow> buffered_record" where
  "buffered_record_new now l sequence record_bytes chk =
     \<lparr>bf_lsn = l, bf_sequence = sequence, bf_record_bytes = record_bytes, bf_checksum = chk, bf_timestamp = now\<rparr>"

definition buffered_size :: "buffered_record \<Rightarrow> nat" where
  "buffered_size r = length (bf_record_bytes r)"

record replication_buffer =
  rb_records :: "buffered_record list"
  rb_max_size :: nat
  rb_current_size :: nat
  rb_low_watermark :: nat
  rb_high_watermark :: nat

definition replication_buffer_new :: "nat \<Rightarrow> u64 \<Rightarrow> u64 \<Rightarrow> replication_buffer" where
  "replication_buffer_new max_size low_pct high_pct =
     \<lparr>rb_records = [], rb_max_size = max_size, rb_current_size = 0,
      rb_low_watermark = max_size * unat low_pct div 100, rb_high_watermark = max_size * unat high_pct div 100\<rparr>"

definition buffer_from_config :: "primary_config \<Rightarrow> (string, replication_buffer) res" where
  "buffer_from_config c =
     and_then (low_watermark c) (\<lambda>low. and_then (high_watermark c) (\<lambda>high.
       Ok \<lparr>rb_records = [], rb_max_size = unat (pc_replication_buffer_size c), rb_current_size = 0,
           rb_low_watermark = unat low, rb_high_watermark = unat high\<rparr>))"

definition buffer_push :: "buffered_record \<Rightarrow> replication_buffer \<Rightarrow> replication_buffer repl_result" where
  "buffer_push r b =
     (if rb_max_size b < rb_current_size b + buffered_size r
      then Err (BufferOverflow (word_of_nat (rb_current_size b + buffered_size r)) (word_of_nat (rb_max_size b)))
      else Ok (b\<lparr>rb_records := rb_records b @ [r], rb_current_size := rb_current_size b + buffered_size r\<rparr>))"

definition buffer_pop_front :: "replication_buffer \<Rightarrow> (buffered_record option \<times> replication_buffer)" where
  "buffer_pop_front b =
     (case rb_records b of
        [] \<Rightarrow> (None, b)
      | r # rs \<Rightarrow> (Some r, b\<lparr>rb_records := rs, rb_current_size := rb_current_size b - buffered_size r\<rparr>))"

function release_up_to :: "u64 \<Rightarrow> replication_buffer \<Rightarrow> replication_buffer" where
  "release_up_to min_ack b =
     (case rb_records b of
        [] \<Rightarrow> b
      | r # _ \<Rightarrow> if bf_sequence r \<le> min_ack then release_up_to min_ack (snd (buffer_pop_front b)) else b)"
  by pat_completeness auto

termination
  by (relation "measure (\<lambda>(_, b). length (rb_records b))") (auto simp: buffer_pop_front_def)

declare release_up_to.simps [simp del]

definition should_apply_backpressure :: "replication_buffer \<Rightarrow> bool" where
  "should_apply_backpressure b \<longleftrightarrow> rb_high_watermark b \<le> rb_current_size b"

definition should_relieve_backpressure :: "replication_buffer \<Rightarrow> bool" where
  "should_relieve_backpressure b \<longleftrightarrow> rb_current_size b < rb_low_watermark b"

definition get_min_sequence :: "(u64 \<times> u64) list \<Rightarrow> u64 option" where
  "get_min_sequence acks = (if acks = [] then None else Some (Min (snd ` set acks)))"

definition records_after :: "u64 \<Rightarrow> replication_buffer \<Rightarrow> buffered_record list" where
  "records_after sequence b = filter (\<lambda>r. sequence < bf_sequence r) (rb_records b)"

definition oldest_sequence :: "replication_buffer \<Rightarrow> u64 option" where
  "oldest_sequence b = (case rb_records b of [] \<Rightarrow> None | r # _ \<Rightarrow> Some (bf_sequence r))"

definition newest_sequence :: "replication_buffer \<Rightarrow> u64 option" where
  "newest_sequence b = (if rb_records b = [] then None else Some (bf_sequence (last (rb_records b))))"

definition buffer_clear :: "replication_buffer \<Rightarrow> replication_buffer" where
  "buffer_clear b = b\<lparr>rb_records := [], rb_current_size := 0\<rparr>"

section \<open>Connections\<close>

text \<open>Of the socket, the bytes written to it.\<close>

record replica_connection =
  cn_replica_id :: u64
  cn_socket :: bytes
  cn_state :: connection_state
  cn_send_sequence :: u64
  cn_last_ack_sequence :: u64
  cn_last_heartbeat_sent :: nat
  cn_last_ack_received :: nat
  cn_write_buffer :: bytes
  cn_compression_enabled :: bool

definition replica_connection_new :: "nat \<Rightarrow> u64 \<Rightarrow> replica_connection" where
  "replica_connection_new now replica_id =
     \<lparr>cn_replica_id = replica_id, cn_socket = [], cn_state = Connecting, cn_send_sequence = 0, cn_last_ack_sequence = 0,
      cn_last_heartbeat_sent = now, cn_last_ack_received = now, cn_write_buffer = [], cn_compression_enabled = False\<rparr>"

definition cn_heartbeat_timeout :: "nat \<Rightarrow> u64 \<Rightarrow> replica_connection \<Rightarrow> bool" where
  "cn_heartbeat_timeout now timeout_secs c \<longleftrightarrow> unat timeout_secs < (now - cn_last_ack_received c) div 1000000000"

definition update_ack :: "nat \<Rightarrow> u64 \<Rightarrow> replica_connection \<Rightarrow> replica_connection" where
  "update_ack now sequence c = c\<lparr>cn_last_ack_sequence := max sequence (cn_last_ack_sequence c), cn_last_ack_received := now\<rparr>"

definition queue_message :: "replication_message \<Rightarrow> replica_connection \<Rightarrow> replica_connection" where
  "queue_message m c = c\<lparr>cn_write_buffer := cn_write_buffer c @ msg_serialize m\<rparr>"

text \<open>Flushing: the socket takes all the bytes, or fails after some of them, or fails in its own flush.\<close>

datatype flush_outcome = Flushed | WriteFailed nat | FlushFailed

fun cn_flush :: "flush_outcome \<Rightarrow> replica_connection \<Rightarrow> bool \<times> replica_connection" where
  "cn_flush (WriteFailed k) c =
     (if cn_write_buffer c = [] then (True, c) else (False, c\<lparr>cn_socket := cn_socket c @ take k (cn_write_buffer c)\<rparr>))"
| "cn_flush fo c = (fo = Flushed, c\<lparr>cn_socket := cn_socket c @ cn_write_buffer c, cn_write_buffer := []\<rparr>)"

definition send_message :: "replication_message \<Rightarrow> replica_connection \<Rightarrow> replica_connection" where
  "send_message m c = c\<lparr>cn_socket := cn_socket c @ msg_serialize m\<rparr>"

definition mark_state :: "connection_state \<Rightarrow> replica_connection \<Rightarrow> replica_connection" where
  "mark_state s c = c\<lparr>cn_state := s\<rparr>"

section \<open>Publisher\<close>

record publisher =
  pb_config :: primary_config
  pb_buffer :: replication_buffer
  pb_replicas :: "(u64 \<times> replica_connection) list"
  pb_running :: bool
  pb_current_lsn :: u64
  pb_sequence_counter :: u64
  pb_backpressure :: backpressure_state
  pb_replica_acks :: "(u64 \<times> u64) list"

text \<open>\<open>start\<close> up to the background tasks, when the listener could be bound.\<close>

definition publisher_start :: "(string \<Rightarrow> string option) \<Rightarrow> primary_config \<Rightarrow> u64 \<Rightarrow> publisher repl_result" where
  "publisher_start parse_addr config current_lsn =
     (case primary_config_validate parse_addr config of
        Err e \<Rightarrow> Err (ReplConfig e)
      | Panic \<Rightarrow> Panic
      | Ok _ \<Rightarrow>
          (case parse_addr (pc_listen_address config) of
             Some e \<Rightarrow> Err (ReplConfig (''Invalid listen address: '' @ e))
           | None \<Rightarrow>
               (case buffer_from_config config of
                  Ok b \<Rightarrow> Ok \<lparr>pb_config = config, pb_buffer = b, pb_replicas = [], pb_running = True, pb_current_lsn = current_lsn,
                             pb_sequence_counter = 0, pb_backpressure = BpNormal, pb_replica_acks = []\<rparr>
                | Err e \<Rightarrow> Err (ReplConfig e)
                | Panic \<Rightarrow> Panic)))"

text \<open>One round of the heartbeat task over the connections, which takes the sequence numbers as it goes.\<close>

fun heartbeat_round :: "nat \<Rightarrow> u64 \<Rightarrow> (u64 \<times> replica_connection) list \<Rightarrow> u64 \<times> (u64 \<times> replica_connection) list" where
  "heartbeat_round now sequence [] = (sequence, [])"
| "heartbeat_round now sequence ((i, c) # cs) =
     (if \<not> conn_can_send (cn_state c)
      then (case heartbeat_round now sequence cs of (s, cs') \<Rightarrow> (s, (i, c) # cs'))
      else
        let c1 = (queue_message (msg_heartbeat sequence) c)\<lparr>cn_last_heartbeat_sent := now\<rparr>;
            c2 = (if cn_heartbeat_timeout now 5 c1 then mark_state Disconnected c1 else c1)
        in case heartbeat_round now (sequence + 1) cs of (s, cs') \<Rightarrow> (s, (i, c2) # cs'))"

definition heartbeat_tick :: "nat \<Rightarrow> publisher \<Rightarrow> publisher" where
  "heartbeat_tick now p =
     (case heartbeat_round now (pb_sequence_counter p) (pb_replicas p) of
        (s, cs) \<Rightarrow> p\<lparr>pb_sequence_counter := s, pb_replicas := cs\<rparr>)"

text \<open>One accepted socket; the task numbers the sockets, refused ones too.\<close>

definition accept_replica :: "nat \<Rightarrow> u64 \<Rightarrow> publisher \<Rightarrow> publisher" where
  "accept_replica now replica_id p =
     (if unat (pc_max_replicas (pb_config p)) \<le> length (pb_replicas p) then p
      else p\<lparr>pb_replicas := AList.update replica_id (mark_state Connected (replica_connection_new now replica_id)) (pb_replicas p),
             pb_replica_acks := AList.update replica_id 0 (pb_replica_acks p)\<rparr>)"

definition release_buffered_records :: "publisher \<Rightarrow> publisher" where
  "release_buffered_records p =
     (case get_min_sequence (pb_replica_acks p) of
        None \<Rightarrow> p
      | Some min_seq \<Rightarrow>
          let b = release_up_to min_seq (pb_buffer p) in
          p\<lparr>pb_buffer := b,
            pb_backpressure := (if should_relieve_backpressure b then BpRelieving else pb_backpressure p)\<rparr>)"

definition track_replica_position :: "nat \<Rightarrow> u64 \<Rightarrow> u64 \<Rightarrow> publisher \<Rightarrow> publisher" where
  "track_replica_position now replica_id ack_sequence p =
     (let p = p\<lparr>pb_replica_acks := AList.update replica_id ack_sequence (pb_replica_acks p)\<rparr>;
          p = (case map_of (pb_replicas p) replica_id of
                 Some c \<Rightarrow> p\<lparr>pb_replicas := AList.update replica_id (update_ack now ack_sequence c) (pb_replicas p)\<rparr>
               | None \<Rightarrow> p)
      in release_buffered_records p)"

text \<open>
  One turn of the connection handler: a flush, then a read that returns a number of bytes, fails or times
  out. The flag of the result is false when the handler ends.
\<close>

datatype read_outcome = ReadBytes nat | ReadFailed | ReadTimeout

definition handle_replica_turn :: "u64 \<Rightarrow> flush_outcome \<Rightarrow> read_outcome \<Rightarrow> publisher \<Rightarrow> bool \<times> publisher" where
  "handle_replica_turn replica_id fo ro p =
     (if \<not> pb_running p then (False, p)
      else
        case map_of (pb_replicas p) replica_id of
          None \<Rightarrow> (False, p)
        | Some c \<Rightarrow>
            if \<not> conn_can_send (cn_state c) then (True, p)
            else
              let (ok, c) = cn_flush fo c;
                  c = (if ok then c else mark_state Disconnected c);
                  p = p\<lparr>pb_replicas := AList.update replica_id c (pb_replicas p)\<rparr>;
                  closed = (False, p\<lparr>pb_replicas := AList.update replica_id (mark_state Disconnected c) (pb_replicas p)\<rparr>)
              in (case ro of
                    ReadBytes n \<Rightarrow>
                      if 0 < n
                      then (True, release_buffered_records
                                    (p\<lparr>pb_replica_acks := AList.update replica_id (cn_send_sequence c) (pb_replica_acks p)\<rparr>))
                      else closed
                  | ReadFailed \<Rightarrow> closed
                  | ReadTimeout \<Rightarrow> (True, p)))"

fun queue_record :: "u64 \<Rightarrow> commit_record \<Rightarrow> (u64 \<times> replica_connection) list \<Rightarrow> (u64 \<times> replica_connection) list repl_result" where
  "queue_record sequence r [] = Ok []"
| "queue_record sequence r ((i, c) # cs) =
     (if \<not> conn_can_send (cn_state c)
      then and_then (queue_record sequence r cs) (\<lambda>cs'. Ok ((i, c) # cs'))
      else
        case checked_add sequence 1 of
          None \<Rightarrow> Panic
        | Some s \<Rightarrow>
            and_then (queue_record sequence r cs) (\<lambda>cs'.
              Ok ((i, queue_message (msg_commit_record sequence r) (c\<lparr>cn_send_sequence := s\<rparr>)) # cs')))"

definition publish ::
  "(commit_record \<Rightarrow> (string, bytes) res) \<Rightarrow> (bytes \<Rightarrow> u64) \<Rightarrow> nat \<Rightarrow> commit_record \<Rightarrow> publisher \<Rightarrow> unit repl_result \<times> publisher" where
  "publish to_json hash64 now record p =
     (if pb_backpressure p = BpApplying
      then (Err (BufferOverflow (word_of_nat (rb_current_size (pb_buffer p))) (pc_replication_buffer_size (pb_config p))), p)
      else
        case to_json record of
          Err e \<Rightarrow> (Err (InvalidMessage (''Failed to serialize: '' @ e)), p)
        | Panic \<Rightarrow> (Panic, p)
        | Ok record_bytes \<Rightarrow>
            let sequence = pb_sequence_counter p; p1 = p\<lparr>pb_sequence_counter := sequence + 1\<rparr> in
            (case buffer_push (buffered_record_new now (cr_txn_id record) sequence record_bytes (hash64 record_bytes)) (pb_buffer p1) of
               Err e \<Rightarrow> (Err e, p1)
             | Panic \<Rightarrow> (Panic, p1)
             | Ok b \<Rightarrow>
                 let p2 = p1\<lparr>pb_buffer := b, pb_backpressure := (if should_apply_backpressure b then BpApplying else pb_backpressure p1)\<rparr> in
                 (case queue_record sequence record (pb_replicas p2) of
                    Ok cs \<Rightarrow> (Ok (), p2\<lparr>pb_replicas := cs\<rparr>)
                  | Err e \<Rightarrow> (Err e, p2)
                  | Panic \<Rightarrow> (Panic, p2))))"

definition publisher_shutdown :: "publisher \<Rightarrow> publisher" where
  "publisher_shutdown p = p\<lparr>pb_running := False, pb_replicas := map (apsnd (mark_state Disconnected)) (pb_replicas p),
     pb_buffer := buffer_clear (pb_buffer p)\<rparr>"

section \<open>What the publisher keeps\<close>

text \<open>The steps of the publisher and its tasks.\<close>

datatype publisher_event =
    PubPublish nat commit_record
  | PubTrack nat u64 u64
  | PubTurn u64 flush_outcome read_outcome
  | PubAccept nat u64
  | PubHeartbeat nat
  | PubShutdown

fun publisher_step ::
  "(commit_record \<Rightarrow> (string, bytes) res) \<Rightarrow> (bytes \<Rightarrow> u64) \<Rightarrow> publisher_event \<Rightarrow> publisher \<Rightarrow> publisher" where
  "publisher_step to_json hash64 (PubPublish now r) p = snd (publish to_json hash64 now r p)"
| "publisher_step to_json hash64 (PubTrack now i a) p = track_replica_position now i a p"
| "publisher_step to_json hash64 (PubTurn i fo ro) p = snd (handle_replica_turn i fo ro p)"
| "publisher_step to_json hash64 (PubAccept now i) p = accept_replica now i p"
| "publisher_step to_json hash64 (PubHeartbeat now) p = heartbeat_tick now p"
| "publisher_step to_json hash64 PubShutdown p = publisher_shutdown p"

definition buffer_wf :: "replication_buffer \<Rightarrow> bool" where
  "buffer_wf b \<longleftrightarrow> rb_current_size b = sum_list (map buffered_size (rb_records b)) \<and> rb_current_size b \<le> rb_max_size b \<and>
     0 < rb_low_watermark b \<and> rb_low_watermark b \<le> rb_high_watermark b \<and> rb_high_watermark b \<le> rb_max_size b"

definition publisher_inv :: "publisher \<Rightarrow> bool" where
  "publisher_inv p \<longleftrightarrow> buffer_wf (pb_buffer p) \<and>
     (pb_backpressure p \<noteq> BpApplying \<longrightarrow> rb_current_size (pb_buffer p) < rb_high_watermark (pb_buffer p))"

lemma release_up_to_spec:
  assumes "buffer_wf b"
  shows "buffer_wf (release_up_to m b) \<and> rb_records (release_up_to m b) = dropWhile (\<lambda>r. bf_sequence r \<le> m) (rb_records b) \<and>
    rb_high_watermark (release_up_to m b) = rb_high_watermark b \<and> rb_low_watermark (release_up_to m b) = rb_low_watermark b \<and>
    rb_current_size (release_up_to m b) \<le> rb_current_size b"
  using assms
proof (induction m b rule: release_up_to.induct)
  case (1 m b)
  show ?case
  proof (cases "rb_records b")
    case Nil
    with 1(2) show ?thesis by (simp add: release_up_to.simps [of m b])
  next
    case (Cons r rs)
    have "buffer_wf (snd (buffer_pop_front b))" using 1(2) Cons by (auto simp: buffer_wf_def buffer_pop_front_def)
    with 1 Cons show ?thesis
      by (auto simp: release_up_to.simps [of m b] buffer_pop_front_def intro: order_trans)
  qed
qed

lemma release_buffered_spec:
  assumes "publisher_inv p"
  shows "publisher_inv (release_buffered_records p)"
proof (cases "get_min_sequence (pb_replica_acks p)")
  case (Some m)
  note spec = release_up_to_spec [of "pb_buffer p" m]
  from assms spec Some show ?thesis
    by (auto simp: release_buffered_records_def publisher_inv_def should_relieve_backpressure_def Let_def buffer_wf_def)
qed (use assms in \<open>simp add: release_buffered_records_def\<close>)

lemma publisher_inv_cong:
  "pb_buffer p' = pb_buffer p \<Longrightarrow> pb_backpressure p' = pb_backpressure p \<Longrightarrow> publisher_inv p' = publisher_inv p"
  by (simp add: publisher_inv_def)

lemma publish_inv:
  assumes "publisher_inv p"
  shows "publisher_inv (snd (publish to_json hash64 now r p))"
proof -
  have push: "buffer_wf b" if "buffer_push x (pb_buffer p) = Ok b" for b x
    using that assms by (auto simp: buffer_push_def publisher_inv_def buffer_wf_def split: if_splits)
  show ?thesis
    using assms push
    by (auto simp: publish_def Let_def publisher_inv_def should_apply_backpressure_def not_le split: res.splits)
qed

lemma publisher_step_inv:
  assumes "publisher_inv p"
  shows "publisher_inv (publisher_step to_json hash64 e p)"
proof (cases e)
  case (PubPublish now r)
  with assms show ?thesis by (simp add: publish_inv)
next
  case (PubTrack now i a)
  let ?p = "p\<lparr>pb_replica_acks := AList.update i a (pb_replica_acks p)\<rparr>"
  have "publisher_inv ?p" "\<And>cs. publisher_inv (?p\<lparr>pb_replicas := cs\<rparr>)"
    using assms by (simp_all add: publisher_inv_def)
  then show ?thesis
    by (auto simp: PubTrack track_replica_position_def Let_def intro: release_buffered_spec split: option.splits)
next
  case (PubTurn i fo ro)
  have "publisher_inv (p\<lparr>pb_replicas := cs, pb_replica_acks := as\<rparr>)" "publisher_inv (p\<lparr>pb_replicas := cs\<rparr>)" for cs as
    using assms by (simp_all add: publisher_inv_def)
  then show ?thesis
    using assms by (auto simp: PubTurn handle_replica_turn_def Let_def intro: release_buffered_spec
        split: option.splits prod.splits read_outcome.splits)
next
  case PubShutdown
  with assms show ?thesis
    by (simp add: publisher_shutdown_def publisher_inv_def buffer_wf_def buffer_clear_def)
qed (use assms in \<open>auto simp: heartbeat_tick_def accept_replica_def publisher_inv_def split: prod.splits\<close>)

interpretation pub_runs: kept_by_all "publisher_step to_json hash64" publisher_inv for to_json hash64
  by unfold_locales (rule publisher_step_inv)

lemma watermark_bounds:
  assumes "primary_config_validate parse_addr c = Ok ()" "unat pct \<le> 100" "watermark pct c = Ok w"
  shows "unat w = unat (pc_replication_buffer_size c) * unat pct div 100" "1024 * 1024 \<le> unat (pc_replication_buffer_size c)"
proof -
  obtain x where x: "checked_mul (pc_replication_buffer_size c) pct = Some x" "w = x div 100"
    using assms(3) by (auto simp: watermark_def split: option.splits)
  then have "unat x = unat (pc_replication_buffer_size c) * unat pct"
    by (auto simp: checked_mul_def unat_word_ariths split: if_splits)
  with x(2) show "unat w = unat (pc_replication_buffer_size c) * unat pct div 100" by (simp add: unat_div)
  show "1024 * 1024 \<le> unat (pc_replication_buffer_size c)"
    using assms(1) by (auto simp: primary_config_validate_def MIN_BUFFER_def word_le_nat_alt Let_def split: option.splits if_splits)
qed

lemma publisher_start_inv:
  assumes "publisher_start parse_addr c l = Ok p"
  shows "publisher_inv p"
proof -
  obtain low high where wm: "primary_config_validate parse_addr c = Ok ()" "low_watermark c = Ok low" "high_watermark c = Ok high"
    and p: "pb_backpressure p = BpNormal" "pb_buffer p = \<lparr>rb_records = [], rb_max_size = unat (pc_replication_buffer_size c),
       rb_current_size = 0, rb_low_watermark = unat low, rb_high_watermark = unat high\<rparr>"
    using assms by (auto simp: publisher_start_def buffer_from_config_def and_then_split split: res.splits option.splits)
  define n where "n = unat (pc_replication_buffer_size c)"
  have w: "unat low = n * 60 div 100" "unat high = n * 80 div 100" and n: "1024 * 1024 \<le> n"
    using watermark_bounds [OF wm(1), of BUFFER_LOW_WATERMARK_PCT low] watermark_bounds [OF wm(1), of BUFFER_HIGH_WATERMARK_PCT high] wm(2,3)
    by (simp_all add: BUFFER_LOW_WATERMARK_PCT_def BUFFER_HIGH_WATERMARK_PCT_def low_watermark_def high_watermark_def n_def)
  have "0 < n * 60 div 100" using n by (simp add: div_greater_zero_iff)
  moreover have "n * 60 div 100 \<le> n * 80 div 100" "n * 80 div 100 \<le> n * 100 div 100" by (rule div_le_mono, simp)+
  ultimately have "0 < unat low" "unat low \<le> unat high" "unat high \<le> n" unfolding w by simp_all
  then show ?thesis by (simp add: publisher_inv_def buffer_wf_def p n_def)
qed

text \<open>
  C29. The replication buffer is bounded. From a started publisher, along every sequence of published records,
  acknowledgements, received bytes, new connections, heartbeats and shutdowns, the recorded usage is the sum of the sizes of the
  buffered records and never exceeds the capacity, and as long as no backpressure is applied it is
  below the high watermark.
\<close>

theorem publisher_buffer_bounded:
  assumes "publisher_start parse_addr c l = Ok p"
  shows "publisher_inv (fold (publisher_step to_json hash64) es p)"
  by (rule pub_runs.every_run_keeps) (rule publisher_start_inv [OF assms])

definition sample_config :: primary_config where
  "sample_config = \<lparr>pc_listen_address = ''0.0.0.0:7233'', pc_max_replicas = 3, pc_replication_buffer_size = 2000000\<rparr>"

lemma sample_publisher:
  obtains p where "publisher_start (\<lambda>_. None) sample_config 0 = Ok p"
    "pb_replicas p = []" "pb_replica_acks p = []" "pb_sequence_counter p = 0" "pb_backpressure p = BpNormal"
proof -
  have "\<exists>p. publisher_start (\<lambda>_. None) sample_config 0 = Ok p \<and> pb_replicas p = [] \<and> pb_replica_acks p = [] \<and>
      pb_sequence_counter p = 0 \<and> pb_backpressure p = BpNormal"
    by (simp add: publisher_start_def primary_config_validate_def sample_config_def MIN_BUFFER_def MAX_BUFFER_def Let_def
        buffer_from_config_def low_watermark_def high_watermark_def watermark_def checked_mul_def
        BUFFER_LOW_WATERMARK_PCT_def BUFFER_HIGH_WATERMARK_PCT_def)
  then show ?thesis using that by blast
qed

theorem publisher_buffer_bounded_witness:
  "\<exists>p. publisher_start (\<lambda>_. None) sample_config 0 = Ok p \<and>
     publisher_inv (fold (publisher_step (\<lambda>_. Ok [1, 2]) (\<lambda>_. 0)) [PubAccept 0 1, PubPublish 0 (commit_record_new (\<lambda>_ _. 0) 1 2 []), PubTrack 0 1 0] p)"
  by (rule sample_publisher, intro exI conjI, assumption, rule publisher_buffer_bounded)

section \<open>Release and delivery\<close>

lemma release_up_to_records:
  "rb_records (release_up_to m b) = dropWhile (\<lambda>r. bf_sequence r \<le> m) (rb_records b)"
proof (induction m b rule: release_up_to.induct)
  case (1 m b)
  then show ?case by (cases "rb_records b") (auto simp: release_up_to.simps [of m b] buffer_pop_front_def)
qed

lemma release_only_acked:
  assumes "r \<in> set (rb_records (pb_buffer p))" "r \<notin> set (rb_records (pb_buffer (release_buffered_records p)))"
    "(i, a) \<in> set (pb_replica_acks p)"
  shows "bf_sequence r \<le> a"
proof -
  let ?m = "Min (snd ` set (pb_replica_acks p))" and ?rs = "rb_records (pb_buffer p)"
  have "get_min_sequence (pb_replica_acks p) = Some ?m" using assms(3) by (auto simp: get_min_sequence_def)
  with assms(2) have "r \<notin> set (dropWhile (\<lambda>r. bf_sequence r \<le> ?m) ?rs)"
    by (simp add: release_buffered_records_def Let_def release_up_to_records)
  with assms(1) have "r \<in> set (takeWhile (\<lambda>r. bf_sequence r \<le> ?m) ?rs)"
    by (metis Un_iff set_append takeWhile_dropWhile_id)
  then have "bf_sequence r \<le> ?m" by (auto dest: set_takeWhileD)
  moreover have "?m \<le> a" using assms(3) by (intro Min_le) force+
  ultimately show ?thesis by (rule order_trans)
qed

lemma release_needs_acks:
  assumes "r \<in> set (rb_records (pb_buffer p))" "r \<notin> set (rb_records (pb_buffer (release_buffered_records p)))"
  shows "pb_replica_acks p \<noteq> []"
  using assms by (auto simp: release_buffered_records_def get_min_sequence_def Let_def)

lemma release_keeps_acks [simp]: "pb_replica_acks (release_buffered_records p) = pb_replica_acks p"
  by (simp add: release_buffered_records_def Let_def split: option.splits)

lemma publish_keeps_records:
  "set (rb_records (pb_buffer p)) \<subseteq> set (rb_records (pb_buffer (snd (publish to_json hash64 now r p))))"
  by (auto simp: publish_def Let_def buffer_push_def split: res.splits if_splits)

text \<open>
  C30. A buffered record is dropped only when every tracked replica has acknowledged it, or by the shutdown. If a step of the
  publisher takes a record out of the buffer, then the step is the shutdown, which empties the buffer, or there are tracked replicas and
  the position recorded for each of them after the step is at least the sequence number of the record.
\<close>

theorem released_records_acked:
  assumes "r \<in> set (rb_records (pb_buffer p))" "r \<notin> set (rb_records (pb_buffer (publisher_step to_json hash64 e p)))"
  shows "e = PubShutdown \<or> pb_replica_acks (publisher_step to_json hash64 e p) \<noteq> [] \<and>
    (\<forall>(i, a) \<in> set (pb_replica_acks (publisher_step to_json hash64 e p)). bf_sequence r \<le> a)"
proof (cases e)
  case (PubPublish now x)
  with assms publish_keeps_records show ?thesis by fastforce
next
  case (PubTrack now j s)
  then obtain q where "publisher_step to_json hash64 e p = release_buffered_records q" "pb_buffer q = pb_buffer p"
    by (auto simp: track_replica_position_def Let_def split: option.splits)
  with assms release_only_acked [of r q] release_needs_acks [of r q] show ?thesis by auto
next
  case (PubTurn j fo ro)
  have "pb_buffer (publisher_step to_json hash64 e p) = pb_buffer p \<or>
      (\<exists>q. publisher_step to_json hash64 e p = release_buffered_records q \<and> pb_buffer q = pb_buffer p)"
    by (auto simp: PubTurn handle_replica_turn_def Let_def split: option.splits prod.splits read_outcome.splits)
  then show ?thesis
  proof
    assume "\<exists>q. publisher_step to_json hash64 e p = release_buffered_records q \<and> pb_buffer q = pb_buffer p"
    then obtain q where q: "publisher_step to_json hash64 e p = release_buffered_records q" "pb_buffer q = pb_buffer p" by blast
    with assms release_only_acked [of r q] release_needs_acks [of r q] show ?thesis by auto
  qed (use assms in simp)
qed (use assms in \<open>auto simp: heartbeat_tick_def accept_replica_def split: prod.splits if_splits\<close>)

definition queue_if_sendable :: "u64 \<Rightarrow> commit_record \<Rightarrow> replica_connection \<Rightarrow> replica_connection" where
  "queue_if_sendable s r c =
     (if conn_can_send (cn_state c)
      then c\<lparr>cn_send_sequence := s + 1, cn_write_buffer := cn_write_buffer c @ msg_serialize (msg_commit_record s r)\<rparr>
      else c)"

lemma queue_record_ok:
  assumes "s < - 1"
  shows "queue_record s r cs = Ok (map (apsnd (queue_if_sendable s r)) cs)"
proof -
  have "checked_add s 1 = Some (s + 1)" using assms by (simp add: checked_add_one_Some)
  then show ?thesis by (induction cs) (auto simp: queue_if_sendable_def queue_message_def)
qed

text \<open>
  What publishing does. Without backpressure, for a record that encodes and fits into the buffer, and with a counter
  below its maximum, \<open>publish\<close> succeeds: the record is appended to the buffer under the next sequence number, the message with this
  record is appended to what is to be sent to each connection that can send, the other
  connections are left alone, and backpressure starts when the high watermark is reached.
\<close>

theorem publish_delivers:
  assumes "pb_backpressure p \<noteq> BpApplying" "to_json r = Ok bs" "pb_sequence_counter p < - 1"
    "rb_current_size (pb_buffer p) + length bs \<le> rb_max_size (pb_buffer p)"
  shows "\<exists>p'. publish to_json hash64 now r p = (Ok (), p') \<and>
    rb_records (pb_buffer p') = rb_records (pb_buffer p) @
      [\<lparr>bf_lsn = cr_txn_id r, bf_sequence = pb_sequence_counter p, bf_record_bytes = bs, bf_checksum = hash64 bs, bf_timestamp = now\<rparr>] \<and>
    pb_sequence_counter p' = pb_sequence_counter p + 1 \<and>
    pb_replicas p' = map (apsnd (queue_if_sendable (pb_sequence_counter p) r)) (pb_replicas p) \<and>
    (pb_backpressure p' = BpApplying \<longleftrightarrow> rb_high_watermark (pb_buffer p) \<le> rb_current_size (pb_buffer p) + length bs)"
  using assms by (simp add: publish_def Let_def buffer_push_def buffered_record_new_def buffered_size_def queue_record_ok
      should_apply_backpressure_def)

definition idle_publisher :: publisher where
  "idle_publisher = \<lparr>pb_config = sample_config, pb_buffer = replication_buffer_new 10 60 80,
     pb_replicas = [(1, mark_state Connected (replica_connection_new 0 1))], pb_running = True, pb_current_lsn = 0,
     pb_sequence_counter = 5, pb_backpressure = BpNormal, pb_replica_acks = [(1, 0)]\<rparr>"

theorem publish_delivers_witness:
  "\<exists>p'. publish (\<lambda>_. Ok [7, 7]) (\<lambda>_. 0) 3 (commit_record_new (\<lambda>_ _. 0) 1 2 []) idle_publisher = (Ok (), p') \<and>
     pb_sequence_counter p' = 6 \<and> pb_backpressure p' \<noteq> BpApplying"
  using publish_delivers [of idle_publisher "\<lambda>_. Ok [7, 7]" "commit_record_new (\<lambda>_ _. 0) 1 2 []" "[7, 7]" "\<lambda>_. 0" 3]
  by (auto simp: idle_publisher_def replication_buffer_new_def)

definition loaded_publisher :: publisher where
  "loaded_publisher = idle_publisher\<lparr>pb_replicas := [], pb_buffer := (pb_buffer idle_publisher)
     \<lparr>rb_records := [buffered_record_new 0 1 4 [7, 7] 0, buffered_record_new 0 2 9 [7] 0], rb_current_size := 3\<rparr>\<rparr>"

theorem released_records_acked_witness:
  "bf_sequence (buffered_record_new 0 1 4 [7, 7] 0) \<le> 8 \<and>
   map bf_sequence (rb_records (pb_buffer (publisher_step (\<lambda>_. Ok []) (\<lambda>_. 0) (PubTrack 4 1 8) loaded_publisher))) = [9]"
proof -
  have 1: "rb_records (pb_buffer (publisher_step (\<lambda>_. Ok []) (\<lambda>_. 0) (PubTrack 4 1 8) loaded_publisher)) =
      [buffered_record_new 0 2 9 [7] 0]"
    "pb_replica_acks (publisher_step (\<lambda>_. Ok []) (\<lambda>_. 0) (PubTrack 4 1 8) loaded_publisher) = [(1, 8)]"
    by (simp_all add: loaded_publisher_def idle_publisher_def track_replica_position_def release_buffered_records_def
        get_min_sequence_def release_up_to_records Let_def buffered_record_new_def)
  have "bf_sequence (buffered_record_new 0 1 4 [7, 7] 0) \<le> 8"
    using released_records_acked [of "buffered_record_new 0 1 4 [7, 7] 0" loaded_publisher "\<lambda>_. Ok []" "\<lambda>_. 0" "PubTrack 4 1 8"] 1
    by (simp add: loaded_publisher_def buffered_record_new_def)
  with 1 show ?thesis by (simp add: buffered_record_new_def)
qed

section \<open>Backpressure without acknowledgements\<close>

lemma set_alist_update: "set (AList.update k v al) \<subseteq> insert (k, v) (set al)"
  by (induction al) auto

definition unnumbered :: "publisher \<Rightarrow> bool" where
  "unnumbered p \<longleftrightarrow> (\<forall>(i, a) \<in> set (pb_replica_acks p). a = 0) \<and> (\<forall>s \<in> set (map (cn_send_sequence \<circ> snd) (pb_replicas p)). s = 0)"

definition later_bytes :: "publisher \<Rightarrow> nat" where
  "later_bytes p = sum_list (map buffered_size (filter (\<lambda>r. bf_sequence r \<noteq> 0) (rb_records (pb_buffer p))))"

definition held_back :: "publisher \<Rightarrow> bool" where
  "held_back p \<longleftrightarrow> publisher_inv p \<and> pb_backpressure p = BpApplying \<and> rb_low_watermark (pb_buffer p) \<le> later_bytes p \<and> unnumbered p"

lemma filter_dropWhile_zero:
  "filter (\<lambda>r. bf_sequence r \<noteq> 0) (dropWhile (\<lambda>r. bf_sequence r = 0) rs) = filter (\<lambda>r. bf_sequence r \<noteq> 0) rs"
  by (induction rs) auto

lemma sum_list_filter_le: "sum_list (map f (filter P xs)) \<le> (sum_list (map f xs) :: nat)"
  by (induction xs) auto

lemma release_held_back:
  assumes "held_back p"
  shows "held_back (release_buffered_records p)"
proof (cases "get_min_sequence (pb_replica_acks p)")
  case (Some m)
  then have "m \<in> snd ` set (pb_replica_acks p)" by (auto simp: get_min_sequence_def intro: Min_in split: if_splits)
  with assms have m: "m = 0" by (auto simp: held_back_def unnumbered_def)
  let ?b = "release_up_to 0 (pb_buffer p)"
  have wf: "buffer_wf (pb_buffer p)" using assms by (simp add: held_back_def publisher_inv_def)
  note spec = release_up_to_spec [OF wf, of 0]
  have "later_bytes p \<le> rb_current_size ?b"
    using spec sum_list_filter_le [of buffered_size "\<lambda>r. bf_sequence r \<noteq> 0" "rb_records ?b"]
    by (simp add: later_bytes_def buffer_wf_def filter_dropWhile_zero)
  then have "\<not> should_relieve_backpressure ?b" using spec assms by (simp add: should_relieve_backpressure_def held_back_def)
  with Some m have "release_buffered_records p = p\<lparr>pb_buffer := ?b\<rparr>"
    by (simp add: release_buffered_records_def Let_def)
  with spec assms show ?thesis
    by (auto simp: held_back_def publisher_inv_def later_bytes_def unnumbered_def filter_dropWhile_zero)
qed (use assms in \<open>simp add: release_buffered_records_def\<close>)

lemma heartbeat_round_numbers:
  "heartbeat_round now s cs = (s', cs') \<Longrightarrow> map (cn_send_sequence \<circ> snd) cs' = map (cn_send_sequence \<circ> snd) cs"
  by (induction cs arbitrary: s s' cs')
    (auto simp: Let_def queue_message_def mark_state_def split: if_splits prod.splits)

lemma cn_flush_number: "cn_flush fo c = (ok, c') \<Longrightarrow> cn_send_sequence c' = cn_send_sequence c"
  by (cases fo) (auto split: if_splits)

lemma held_back_update:
  assumes "held_back p" "cn_send_sequence c = 0"
  shows "held_back (p\<lparr>pb_replicas := AList.update i c (pb_replicas p)\<rparr>)"
    "held_back (p\<lparr>pb_replicas := AList.update i c (pb_replicas p), pb_replica_acks := AList.update j 0 (pb_replica_acks p)\<rparr>)"
  using assms set_alist_update [of i c "pb_replicas p"] set_alist_update [of j 0 "pb_replica_acks p"]
  by (auto simp: held_back_def unnumbered_def publisher_inv_def later_bytes_def)

lemma turn_held_back:
  assumes "held_back p"
  shows "held_back (snd (handle_replica_turn i fo ro p))"
proof (cases "map_of (pb_replicas p) i")
  case (Some c)
  then have 0: "cn_send_sequence c = 0" using assms by (force simp: held_back_def unnumbered_def dest: map_of_SomeD)
  obtain ok c1 where f: "cn_flush fo c = (ok, c1)" by force
  define c' where "c' = (if ok then c1 else mark_state Disconnected c1)"
  have c': "cn_send_sequence c' = 0" "cn_send_sequence (mark_state Disconnected c') = 0"
    using cn_flush_number [OF f] 0 by (simp_all add: c'_def mark_state_def)
  show ?thesis
    using assms c'(1) release_held_back [OF held_back_update(2) [OF assms c'(1), of i i]] held_back_update(1) [OF assms c'(2), of i]
      held_back_update(1) [OF assms c'(1), of i]
    by (cases ok) (auto simp: handle_replica_turn_def Some Let_def f c'_def split: read_outcome.splits)
qed (use assms in \<open>simp add: handle_replica_turn_def\<close>)

fun automatic :: "publisher_event \<Rightarrow> bool" where
  "automatic (PubTrack now i a) = False"
| "automatic PubShutdown = False"
| "automatic _ = True"

lemma step_held_back:
  assumes "held_back p" "automatic e"
  shows "held_back (publisher_step to_json hash64 e p)"
proof (cases e)
  case (PubPublish now r)
  with assms show ?thesis by (simp add: publish_def held_back_def)
next
  case (PubTurn i fo ro)
  with assms show ?thesis by (simp add: turn_held_back)
next
  case (PubAccept now i)
  with assms held_back_update(2) show ?thesis
    by (auto simp: accept_replica_def mark_state_def replica_connection_new_def)
next
  case (PubHeartbeat now)
  obtain s cs where "heartbeat_round now (pb_sequence_counter p) (pb_replicas p) = (s, cs)" by force
  with assms heartbeat_round_numbers [OF this] show ?thesis
    by (simp add: PubHeartbeat heartbeat_tick_def held_back_def unnumbered_def publisher_inv_def later_bytes_def)
qed (use assms in simp_all)

interpretation held_runs: kept_by_steps "publisher_step to_json hash64" held_back automatic for to_json hash64
  by unfold_locales (rule step_held_back)

text \<open>
  Backpressure that sets in before a replica connects never ends by itself. When no replica is known and the records after the
  first fill the buffer to the low watermark, then whatever records are offered, replicas connect, answer, fail or close, and
  heartbeats go out, every later \<open>publish\<close> is refused: a replica that connects is tracked at position 0, its acknowledgements
  are counted at the sequence number it was last sent, and nothing is sent any more. Only an explicit call of \<open>track_replica_position\<close>,
  which no task makes, gets the publisher out of this state.
\<close>

theorem backpressure_never_relieved:
  assumes "publisher_inv p" "pb_backpressure p = BpApplying" "pb_replicas p = []" "pb_replica_acks p = []"
    "rb_low_watermark (pb_buffer p) \<le> later_bytes p" "\<forall>e \<in> set es. automatic e"
  shows "\<exists>n. fst (publish to_json hash64 now r (fold (publisher_step to_json hash64) es p)) = Err (BufferOverflow n
    (pc_replication_buffer_size (pb_config (fold (publisher_step to_json hash64) es p))))"
proof -
  have "held_back p" using assms by (simp add: held_back_def unnumbered_def)
  then have "held_back (fold (publisher_step to_json hash64) es p)" using assms(6) by (rule held_runs.run_keeps)
  then show ?thesis by (simp add: held_back_def publish_def)
qed

definition full_publisher :: publisher where
  "full_publisher = idle_publisher\<lparr>pb_replicas := [], pb_replica_acks := [], pb_backpressure := BpApplying, pb_buffer := (pb_buffer idle_publisher)
     \<lparr>rb_records := [buffered_record_new 0 1 0 [7] 0, buffered_record_new 0 2 9 [7, 7, 7, 7, 7, 7, 7, 7] 0], rb_current_size := 9\<rparr>\<rparr>"

theorem backpressure_never_relieved_witness:
  "\<exists>n m. fst (publish (\<lambda>_. Ok []) (\<lambda>_. 0) 5 (commit_record_new (\<lambda>_ _. 0) 1 2 [])
     (fold (publisher_step (\<lambda>_. Ok []) (\<lambda>_. 0)) [PubAccept 0 1, PubHeartbeat 1, PubTurn 1 Flushed (ReadBytes 24)] full_publisher)) =
     Err (BufferOverflow n m)"
proof -
  have "publisher_inv full_publisher" "pb_backpressure full_publisher = BpApplying" "pb_replicas full_publisher = []"
    "pb_replica_acks full_publisher = []" "rb_low_watermark (pb_buffer full_publisher) \<le> later_bytes full_publisher"
    by (simp_all add: publisher_inv_def buffer_wf_def full_publisher_def idle_publisher_def replication_buffer_new_def
        buffered_record_new_def buffered_size_def later_bytes_def)
  from backpressure_never_relieved [OF this, of "[PubAccept 0 1, PubHeartbeat 1, PubTurn 1 Flushed (ReadBytes 24)]"]
  show ?thesis by (simp only: set_simps ball_simps automatic.simps simp_thms) blast
qed

end
