(* ===== verification/Subscriber.thy ===== *)
theory Subscriber
  imports Replication_Stream Step_Runs
begin

text \<open>
  The subscriber of a replica: \<^verbatim>\<open>replication/subscriber.rs\<close>. Its four asynchronous tasks are functions for one turn each, with
  the clock, the outcome of connecting, of reading a header and of writing an acknowledgement as arguments. The channel of
  received records is the queue of its receiver, \<open>None\<close> when the receiver is gone; the events are recorded in the order in which they
  are emitted. The apply task listens on a channel of its own to which nobody sends.
\<close>

section \<open>State\<close>

datatype subscriber_event =
    SubConnected
  | SubDisconnected string
  | BootstrapProgress u32 u32
  | BootstrapComplete
  | LagWarning u64 u64
  | SubError string

record bootstrap_state =
  bs_snapshot_lsn :: u64
  bs_chunks_received :: u32
  bs_total_chunks :: u32
  bs_checksum :: u64

definition bootstrap_state_new :: "u64 \<Rightarrow> u32 \<Rightarrow> bootstrap_state" where
  "bootstrap_state_new snapshot_lsn total_chunks =
     \<lparr>bs_snapshot_lsn = snapshot_lsn, bs_chunks_received = 0, bs_total_chunks = total_chunks, bs_checksum = 0\<rparr>"

definition bootstrap_is_complete :: "bootstrap_state \<Rightarrow> bool" where
  "bootstrap_is_complete b \<longleftrightarrow> 0 < bs_total_chunks b \<and> bs_total_chunks b \<le> bs_chunks_received b"

definition add_chunk :: "u64 \<Rightarrow> bootstrap_state \<Rightarrow> bootstrap_state repl_result" where
  "add_chunk chunk_checksum b =
     (case checked_add (bs_chunks_received b) 1 of
        Some n \<Rightarrow> Ok (b\<lparr>bs_chunks_received := n, bs_checksum := bs_checksum b + chunk_checksum\<rparr>)
      | None \<Rightarrow> Panic)"

record reconnect_state =
  rs_attempt :: u32
  rs_max_attempts :: u32
  rs_base_delay_ms :: u64
  rs_max_delay_ms :: u64
  rs_last_attempt :: "nat option"

definition reconnect_state_new :: "u64 \<Rightarrow> u32 \<Rightarrow> reconnect_state" where
  "reconnect_state_new base_delay_ms max_attempts =
     \<lparr>rs_attempt = 0, rs_max_attempts = max_attempts, rs_base_delay_ms = base_delay_ms, rs_max_delay_ms = 60000, rs_last_attempt = None\<rparr>"

definition saturating_mul :: "'a::len word \<Rightarrow> 'a word \<Rightarrow> 'a word" where
  "saturating_mul x y = (case checked_mul x y of Some z \<Rightarrow> z | None \<Rightarrow> - 1)"

text \<open>
  The tenth of the capped delay is computed in floating point; for delays up to the maximum of a minute the result is the integer quotient.
\<close>

definition calculate_delay :: "reconnect_state \<Rightarrow> u64 repl_result" where
  "calculate_delay r =
     (case checked_mul (rs_base_delay_ms r) (2 ^ unat (min (rs_attempt r) 10)) of
        None \<Rightarrow> Panic
      | Some exponential \<Rightarrow>
          let capped = min exponential (rs_max_delay_ms r);
              jitter = ((ucast (rs_attempt r) :: u64) * 9 + 1) mod 10;
              jitter_amount = capped div 10
          in Ok (saturating_add capped (saturating_mul jitter_amount jitter div 10)))"

definition reconnect_increment :: "nat \<Rightarrow> reconnect_state \<Rightarrow> reconnect_state repl_result" where
  "reconnect_increment now r =
     (case checked_add (rs_attempt r) 1 of
        Some n \<Rightarrow> Ok (r\<lparr>rs_attempt := n, rs_last_attempt := Some now\<rparr>)
      | None \<Rightarrow> Panic)"

definition reconnect_reset :: "reconnect_state \<Rightarrow> reconnect_state" where
  "reconnect_reset r = r\<lparr>rs_attempt := 0, rs_last_attempt := None\<rparr>"

definition is_max_exceeded :: "reconnect_state \<Rightarrow> bool" where
  "is_max_exceeded r \<longleftrightarrow> rs_max_attempts r \<le> rs_attempt r"

text \<open>Of the socket, the bytes written to it; the two read and write buffers of the connection stay empty.\<close>

record sub_connection =
  sc_socket :: bytes
  sc_primary_id :: u64
  sc_protocol_version :: u16
  sc_current_primary_lsn :: u64
  sc_receive_sequence :: u64
  sc_last_received :: nat
  sc_last_heartbeat :: nat

definition sub_connection_new :: "nat \<Rightarrow> u64 \<Rightarrow> u16 \<Rightarrow> sub_connection" where
  "sub_connection_new now primary_id version =
     \<lparr>sc_socket = [], sc_primary_id = primary_id, sc_protocol_version = version, sc_current_primary_lsn = 0, sc_receive_sequence = 0,
      sc_last_received = now, sc_last_heartbeat = now\<rparr>"

definition sc_heartbeat_timeout :: "nat \<Rightarrow> u64 \<Rightarrow> sub_connection \<Rightarrow> bool" where
  "sc_heartbeat_timeout now timeout_secs c \<longleftrightarrow> unat timeout_secs * 1000000000 < now - sc_last_heartbeat c"

definition update_primary_lsn :: "nat \<Rightarrow> u64 \<Rightarrow> sub_connection \<Rightarrow> sub_connection" where
  "update_primary_lsn now l c = c\<lparr>sc_current_primary_lsn := l, sc_last_heartbeat := now\<rparr>"

definition replication_lag_ms :: "u64 \<Rightarrow> sub_connection \<Rightarrow> u64" where
  "replication_lag_ms applied_lsn c =
     (if applied_lsn < sc_current_primary_lsn c then sc_current_primary_lsn c - applied_lsn else 0)"

record subscriber =
  sb_config :: replica_config
  sb_connection :: "sub_connection option"
  sb_state :: connection_state
  sb_applied_lsn :: u64
  sb_running :: bool
  sb_events :: "subscriber_event list"
  sb_apply_queue :: "commit_record list option"
  sb_bootstrap :: "bootstrap_state option"
  sb_reconnect :: reconnect_state

text \<open>Both receivers that \<open>new\<close> creates are dropped when it returns.\<close>

definition subscriber_new :: "replica_config \<Rightarrow> subscriber repl_result" where
  "subscriber_new config =
     (case replica_config_validate config of
        Err e \<Rightarrow> Err (ReplConfig e)
      | Panic \<Rightarrow> Panic
      | Ok _ \<Rightarrow> Ok \<lparr>sb_config = config, sb_connection = None, sb_state = Disconnected, sb_applied_lsn = 0, sb_running = False,
                    sb_events = [], sb_apply_queue = None, sb_bootstrap = None,
                    sb_reconnect = reconnect_state_new (rcf_reconnect_interval_ms config) MAX_RECONNECT_ATTEMPTS\<rparr>)"

definition sub_emit :: "subscriber_event \<Rightarrow> subscriber \<Rightarrow> subscriber" where
  "sub_emit e s = s\<lparr>sb_events := sb_events s @ [e]\<rparr>"

section \<open>Connecting\<close>

datatype connect_outcome = ConnectTimeout | ConnectFailed string | NodelayFailed io_failure | SocketReady

definition HANDSHAKE_TIMEOUT_SECS :: u64 where "HANDSHAKE_TIMEOUT_SECS = 10"
definition HEARTBEAT_TIMEOUT_MULTIPLIER :: u64 where "HEARTBEAT_TIMEOUT_MULTIPLIER = 3"
definition BOOTSTRAP_TIMEOUT_SECS :: u64 where "BOOTSTRAP_TIMEOUT_SECS = 300"

definition perform_handshake :: "u16 repl_result" where
  "perform_handshake = Ok PROTOCOL_VERSION"

definition sub_connect :: "nat \<Rightarrow> connect_outcome \<Rightarrow> subscriber \<Rightarrow> unit repl_result \<times> subscriber" where
  "sub_connect now co s =
     (let s = s\<lparr>sb_state := Connecting\<rparr> in
      case co of
        ConnectTimeout \<Rightarrow> (Err (ConnectionTimeout (HANDSHAKE_TIMEOUT_SECS * 1000)), s)
      | ConnectFailed e \<Rightarrow> (Err (ConnectionLost (''Failed to connect: '' @ e)), s)
      | NodelayFailed e \<Rightarrow> (Err (ReplIo e), s)
      | SocketReady \<Rightarrow>
          (case perform_handshake of
             Ok version \<Rightarrow>
               (Ok (), sub_emit SubConnected
                  (s\<lparr>sb_connection := Some (sub_connection_new now 0 version), sb_state := Connected,
                     sb_reconnect := reconnect_reset (sb_reconnect s)\<rparr>))
           | Err e \<Rightarrow> (Err e, s)
           | Panic \<Rightarrow> (Panic, s)))"

definition sub_start :: "nat \<Rightarrow> connect_outcome \<Rightarrow> subscriber \<Rightarrow> unit repl_result \<times> subscriber" where
  "sub_start now co s = sub_connect now co (s\<lparr>sb_running := True\<rparr>)"

text \<open>One turn of the reconnect task; the flag is false when the task ends.\<close>

definition reconnect_turn :: "nat \<Rightarrow> connect_outcome \<Rightarrow> subscriber \<Rightarrow> bool repl_result \<times> subscriber" where
  "reconnect_turn now co s =
     (if \<not> sb_running s then (Ok False, s)
      else if conn_is_connected (sb_state s) then (Ok True, s)
      else if conn_is_terminal (sb_state s) then (Ok False, s)
      else
        case calculate_delay (sb_reconnect s) of
          Err e \<Rightarrow> (Err e, s)
        | Panic \<Rightarrow> (Panic, s)
        | Ok _ \<Rightarrow>
            (case reconnect_increment now (sb_reconnect s) of
               Err e \<Rightarrow> (Err e, s)
             | Panic \<Rightarrow> (Panic, s)
             | Ok r \<Rightarrow>
                 let s = s\<lparr>sb_reconnect := r\<rparr> in
                 if is_max_exceeded r
                 then (Ok False, sub_emit (SubError ''Maximum reconnection attempts exceeded'') (s\<lparr>sb_state := ConnError\<rparr>))
                 else
                   case sub_connect now co s of
                     (Ok _, s) \<Rightarrow> (Ok True, s)
                   | (Err e, s) \<Rightarrow> (Ok True, sub_emit (SubDisconnected (''Reconnection attempt failed: '' @ repl_error_display e)) s)
                   | (Panic, s) \<Rightarrow> (Panic, s)))"

fun reconnect_loop :: "(nat \<times> connect_outcome) list \<Rightarrow> subscriber \<Rightarrow> bool repl_result \<times> subscriber" where
  "reconnect_loop [] s = (Ok True, s)"
| "reconnect_loop ((now, co) # cos) s =
     (case reconnect_turn now co s of
        (Ok True, s) \<Rightarrow> reconnect_loop cos s
      | r \<Rightarrow> r)"

section \<open>Receiving\<close>

definition send_ack :: "(nat \<times> string) option \<Rightarrow> sub_connection \<Rightarrow> subscriber \<Rightarrow> unit repl_result \<times> subscriber" where
  "send_ack failure c s =
     (let ack = msg_serialize (msg_heartbeat (sb_applied_lsn s)) in
      case failure of
        None \<Rightarrow> (Ok (), s\<lparr>sb_connection := Some (c\<lparr>sc_socket := sc_socket c @ ack\<rparr>)\<rparr>)
      | Some (k, e) \<Rightarrow>
          (Err (ConnectionLost (''Failed to send ack: '' @ e)), s\<lparr>sb_connection := Some (c\<lparr>sc_socket := sc_socket c @ take k ack\<rparr>)\<rparr>))"

definition apply_snapshot :: "bootstrap_state \<Rightarrow> unit repl_result" where
  "apply_snapshot b = Ok ()"

definition handle_snapshot_chunk :: "subscriber \<Rightarrow> unit repl_result \<times> subscriber" where
  "handle_snapshot_chunk s =
     (let s = s\<lparr>sb_state := Bootstrapping\<rparr>;
          b = (case sb_bootstrap s of None \<Rightarrow> bootstrap_state_new 0 100 | Some b \<Rightarrow> b)
      in case add_chunk 0 b of
           Err e \<Rightarrow> (Err e, s\<lparr>sb_bootstrap := Some b\<rparr>)
         | Panic \<Rightarrow> (Panic, s\<lparr>sb_bootstrap := Some b\<rparr>)
         | Ok b \<Rightarrow>
             let s = sub_emit (BootstrapProgress (bs_chunks_received b) (bs_total_chunks b)) (s\<lparr>sb_bootstrap := Some b\<rparr>) in
             if bootstrap_is_complete b
             then
               (case apply_snapshot b of
                  Ok _ \<Rightarrow>
                    (Ok (), sub_emit BootstrapComplete
                       (s\<lparr>sb_applied_lsn := bs_snapshot_lsn b, sb_bootstrap := None, sb_state := Connected\<rparr>))
                | Err e \<Rightarrow> (Err e, s)
                | Panic \<Rightarrow> (Panic, s))
             else (Ok (), s))"

text \<open>What the receive task does with a message of each type.\<close>

fun sub_dispatch ::
  "(u32 \<Rightarrow> bytes \<Rightarrow> u32) \<Rightarrow> nat \<Rightarrow> (nat \<times> string) option \<Rightarrow> message_type \<Rightarrow> sub_connection \<Rightarrow> subscriber \<Rightarrow> unit repl_result \<times> subscriber" where
  "sub_dispatch crc_append now failure Heartbeat c s =
     (let c = c\<lparr>sc_last_heartbeat := now\<rparr>;
          lag = replication_lag_ms (sb_applied_lsn s) c;
          s = (if rcf_replication_lag_target_ms (sb_config s) < lag
               then sub_emit (LagWarning lag (rcf_replication_lag_target_ms (sb_config s))) s else s)
      in send_ack failure c s)"
| "sub_dispatch crc_append now failure CommitRecordMsg c s =
     (case sb_apply_queue s of
        None \<Rightarrow> (Err (ConnectionLost ''Apply queue closed''), s)
      | Some q \<Rightarrow>
          if 1000 \<le> length q then (Err (ConnectionLost ''Apply queue full''), s)
          else send_ack failure c (s\<lparr>sb_apply_queue := Some (q @ [commit_record_new crc_append 0 0 []])\<rparr>))"
| "sub_dispatch crc_append now failure SnapshotMsg c s = handle_snapshot_chunk s"
| "sub_dispatch crc_append now failure ErrorMsg c s = (Err (ConnectionLost ''Received error from primary''), s)"
| "sub_dispatch crc_append now failure t c s =
     (Err (InvalidMessage (''Unexpected message type: '' @ message_type_name t)), s)"

datatype header_outcome = HeaderTimeout | HeaderFailed string | HeaderRead bytes

text \<open>One turn of the receive task; the header that was read is not looked at.\<close>

definition receive_turn ::
  "(u32 \<Rightarrow> bytes \<Rightarrow> u32) \<Rightarrow> nat \<Rightarrow> header_outcome \<Rightarrow> (nat \<times> string) option \<Rightarrow> subscriber \<Rightarrow> bool repl_result \<times> subscriber" where
  "receive_turn crc_append now ho failure s =
     (if \<not> sb_running s \<or> \<not> conn_is_connected (sb_state s) then (Ok False, s)
      else
        case sb_connection s of
          None \<Rightarrow> (Err (ConnectionLost ''No active connection''), s)
        | Some c \<Rightarrow>
            (case ho of
               HeaderTimeout \<Rightarrow> (Err (ConnectionTimeout 5000), s)
             | HeaderFailed e \<Rightarrow> (Err (ConnectionLost (''Failed to read header: '' @ e)), s)
             | HeaderRead header \<Rightarrow>
                 let c = c\<lparr>sc_last_received := now, sc_receive_sequence := 0\<rparr> in
                 (case sub_dispatch crc_append now failure Heartbeat c (s\<lparr>sb_connection := Some c\<rparr>) of
                    (Ok _, s) \<Rightarrow> (Ok True, s)
                  | (Err e, s) \<Rightarrow> (Err e, s)
                  | (Panic, s) \<Rightarrow> (Panic, s))))"

text \<open>The spawned task around it, which reports an error and gives the connection up.\<close>

definition receive_task ::
  "(u32 \<Rightarrow> bytes \<Rightarrow> u32) \<Rightarrow> nat \<Rightarrow> header_outcome \<Rightarrow> (nat \<times> string) option \<Rightarrow> subscriber \<Rightarrow> subscriber" where
  "receive_task crc_append now ho failure s =
     (case receive_turn crc_append now ho failure s of
        (Err e, s) \<Rightarrow> sub_emit (SubDisconnected (repl_error_display e)) (s\<lparr>sb_state := Disconnected\<rparr>)
      | (_, s) \<Rightarrow> s)"

text \<open>The body of the apply task for a record that it gets.\<close>

definition apply_record :: "(u32 \<Rightarrow> bytes \<Rightarrow> u32) \<Rightarrow> commit_record \<Rightarrow> subscriber \<Rightarrow> unit repl_result \<times> subscriber" where
  "apply_record crc_append r s =
     (if \<not> commit_record_verify crc_append r then (Err ReplChecksumError, s)
      else (Ok (), s\<lparr>sb_applied_lsn := cr_txn_id r\<rparr>))"

definition sub_heartbeat_turn :: "nat \<Rightarrow> subscriber \<Rightarrow> subscriber" where
  "sub_heartbeat_turn now s =
     (if \<not> sb_running s \<or> \<not> conn_is_connected (sb_state s) then s
      else
        case sb_connection s of
          Some c \<Rightarrow>
            if sc_heartbeat_timeout now HEARTBEAT_TIMEOUT_MULTIPLIER c
            then sub_emit (SubDisconnected ''Heartbeat timeout'') (s\<lparr>sb_state := Disconnected\<rparr>)
            else s
        | None \<Rightarrow> s)"

text \<open>\<open>bootstrap\<close>: the reconnection, and the result for the states seen by the polls within the time limit.\<close>

fun bootstrap_wait :: "connection_state list \<Rightarrow> unit repl_result" where
  "bootstrap_wait [] = Err (ConnectionTimeout (BOOTSTRAP_TIMEOUT_SECS * 1000))"
| "bootstrap_wait (st # sts) =
     (if st = Connected then Ok ()
      else if conn_is_terminal st then Err (BootstrapFailed ''Entered error state during bootstrap'')
      else bootstrap_wait sts)"

definition bootstrap_begin :: "nat \<Rightarrow> connect_outcome \<Rightarrow> subscriber \<Rightarrow> unit repl_result \<times> subscriber" where
  "bootstrap_begin now co s = sub_connect now co (s\<lparr>sb_state := Bootstrapping, sb_connection := None\<rparr>)"

definition sub_shutdown :: "subscriber \<Rightarrow> subscriber" where
  "sub_shutdown s = s\<lparr>sb_running := False, sb_connection := None, sb_state := Disconnected\<rparr>"

section \<open>What a replica applies\<close>

datatype sub_step =
    SubStart nat connect_outcome
  | SubReceive nat header_outcome "(nat \<times> string) option"
  | SubBeat nat
  | SubReconnect nat connect_outcome
  | SubBootstrap nat connect_outcome
  | SubShutdown

fun subscriber_step :: "(u32 \<Rightarrow> bytes \<Rightarrow> u32) \<Rightarrow> sub_step \<Rightarrow> subscriber \<Rightarrow> subscriber" where
  "subscriber_step crc_append (SubStart now co) s = snd (sub_start now co s)"
| "subscriber_step crc_append (SubReceive now ho failure) s = receive_task crc_append now ho failure s"
| "subscriber_step crc_append (SubBeat now) s = sub_heartbeat_turn now s"
| "subscriber_step crc_append (SubReconnect now co) s = snd (reconnect_turn now co s)"
| "subscriber_step crc_append (SubBootstrap now co) s = snd (bootstrap_begin now co s)"
| "subscriber_step crc_append SubShutdown s = sub_shutdown s"

definition replica_idle :: "subscriber \<Rightarrow> bool" where
  "replica_idle s \<longleftrightarrow> sb_applied_lsn s = 0 \<and> sb_apply_queue s = None \<and> sb_bootstrap s = None \<and>
     (\<forall>c. sb_connection s = Some c \<longrightarrow> sc_current_primary_lsn c = 0) \<and>
     (\<forall>lag target. LagWarning lag target \<notin> set (sb_events s)) \<and> BootstrapComplete \<notin> set (sb_events s)"

lemma sub_connect_idle: "replica_idle s \<Longrightarrow> replica_idle (snd (sub_connect now co s))"
  by (auto simp: sub_connect_def replica_idle_def sub_emit_def sub_connection_new_def perform_handshake_def Let_def split: connect_outcome.splits)

lemma sub_dispatch_idle:
  assumes "replica_idle s" "sc_current_primary_lsn c = 0"
  shows "replica_idle (snd (sub_dispatch crc_append now failure Heartbeat c s))"
  using assms by (auto simp: replica_idle_def replication_lag_ms_def send_ack_def Let_def split: option.splits)

lemma receive_task_idle:
  assumes "replica_idle s"
  shows "replica_idle (receive_task crc_append now ho failure s)"
proof -
  have turn: "replica_idle (snd (receive_turn crc_append now ho failure s))"
  proof (cases "sb_connection s")
    case (Some c)
    let ?c = "c\<lparr>sc_last_received := now, sc_receive_sequence := 0\<rparr>"
    have "replica_idle (s\<lparr>sb_connection := Some ?c\<rparr>)" "sc_current_primary_lsn ?c = 0"
      using assms Some by (auto simp: replica_idle_def)
    note dispatched = sub_dispatch_idle [OF this, of crc_append now failure]
    show ?thesis
      using assms dispatched
      by (auto simp: receive_turn_def Some Let_def simp del: sub_dispatch.simps split: header_outcome.splits prod.splits res.splits)
  qed (use assms in \<open>simp add: receive_turn_def\<close>)
  have "replica_idle (sub_emit (SubDisconnected m) (q\<lparr>sb_state := Disconnected\<rparr>))" if "replica_idle q" for q m
    using that by (auto simp: replica_idle_def sub_emit_def)
  with turn show ?thesis by (auto simp: receive_task_def split: prod.splits res.splits)
qed

lemma reconnect_turn_idle:
  assumes "replica_idle s"
  shows "replica_idle (snd (reconnect_turn now co s))"
proof -
  have up: "replica_idle (s\<lparr>sb_reconnect := r\<rparr>)" "replica_idle (sub_emit (SubError m) (s\<lparr>sb_reconnect := r, sb_state := ConnError\<rparr>))" for r m
    using assms by (auto simp: replica_idle_def sub_emit_def)
  have "replica_idle q \<Longrightarrow> replica_idle (sub_emit (SubDisconnected m) q)" for q m
    by (auto simp: replica_idle_def sub_emit_def)
  with assms up sub_connect_idle [OF up(1)] show ?thesis
    by (auto simp: reconnect_turn_def Let_def split: res.splits prod.splits)
      (metis snd_conv)+
qed

lemma subscriber_step_idle: "replica_idle s \<Longrightarrow> replica_idle (subscriber_step crc_append e s)"
proof (cases e)
  case (SubStart now co)
  moreover assume "replica_idle s"
  then have "replica_idle (s\<lparr>sb_running := True\<rparr>)" by (simp add: replica_idle_def)
  ultimately show ?thesis by (simp add: sub_start_def sub_connect_idle)
next
  case (SubBootstrap now co)
  moreover assume "replica_idle s"
  then have "replica_idle (s\<lparr>sb_state := Bootstrapping, sb_connection := None\<rparr>)" by (simp add: replica_idle_def)
  ultimately show ?thesis by (simp add: bootstrap_begin_def sub_connect_idle)
next
  case (SubBeat now)
  moreover assume "replica_idle s"
  ultimately show ?thesis by (auto simp: sub_heartbeat_turn_def replica_idle_def sub_emit_def split: option.splits)
next
  case SubShutdown
  moreover assume "replica_idle s"
  ultimately show ?thesis by (simp add: sub_shutdown_def replica_idle_def)
qed (simp_all add: receive_task_idle reconnect_turn_idle)

interpretation sub_runs: kept_by_all "subscriber_step crc_append" replica_idle for crc_append
  by unfold_locales (rule subscriber_step_idle)

text \<open>
  C32. A replica applies nothing. Whatever the primary sends and however connecting, reading and writing turn out, along every run of a
  new subscriber the applied position stays 0, no record reaches the apply queue, no snapshot is
  begun or completed, the position of the primary stays unknown, and no lag warning is given: the receive task takes every
  24 bytes for a heartbeat.
\<close>

theorem replica_applies_nothing:
  assumes "subscriber_new config = Ok s"
  shows "replica_idle (fold (subscriber_step crc_append) es s)"
proof -
  have "replica_idle s" using assms by (auto simp: subscriber_new_def replica_idle_def split: res.splits)
  then show ?thesis by (rule sub_runs.every_run_keeps)
qed

definition sample_replica_config :: replica_config where
  "sample_replica_config = \<lparr>rcf_primary_address = ''p:1'', rcf_replication_lag_target_ms = 100, rcf_reconnect_interval_ms = 1000,
     rcf_bootstrap_on_start = False\<rparr>"

lemma sample_subscriber: "\<exists>s. subscriber_new sample_replica_config = Ok s"
  by (simp add: subscriber_new_def replica_config_validate_def sample_replica_config_def)

theorem replica_applies_nothing_witness:
  "\<exists>s. subscriber_new sample_replica_config = Ok s \<and>
     replica_idle (fold (subscriber_step (\<lambda>_ _. 0)) [SubStart 0 SocketReady, SubReceive 1 (HeaderRead (replicate 24 2)) None] s)"
  using sample_subscriber replica_applies_nothing by blast

section \<open>Reconnection\<close>

definition reconnecting :: "subscriber \<Rightarrow> bool" where
  "reconnecting s \<longleftrightarrow> sb_running s \<and> sb_state s \<in> {Disconnected, Connecting, Bootstrapping} \<and>
     rs_base_delay_ms (sb_reconnect s) \<le> 60000 \<and> rs_attempt (sb_reconnect s) < rs_max_attempts (sb_reconnect s)"

definition attempts_left :: "subscriber \<Rightarrow> nat" where
  "attempts_left s = unat (rs_max_attempts (sb_reconnect s)) - unat (rs_attempt (sb_reconnect s))"

lemma reconnect_steps:
  assumes "reconnecting s"
  obtains d where "calculate_delay (sb_reconnect s) = Ok d"
    "reconnect_increment now (sb_reconnect s) =
       Ok ((sb_reconnect s)\<lparr>rs_attempt := rs_attempt (sb_reconnect s) + 1, rs_last_attempt := Some now\<rparr>)"
    "unat (rs_attempt (sb_reconnect s) + 1) = unat (rs_attempt (sb_reconnect s)) + 1"
proof -
  let ?r = "sb_reconnect s"
  have lt: "rs_attempt ?r < rs_max_attempts ?r" using assms by (simp add: reconnecting_def)
  then have "rs_attempt ?r \<noteq> - 1" by (metis linorder_not_less word_order.extremum)
  then have add: "checked_add (rs_attempt ?r) 1 = Some (rs_attempt ?r + 1)" by (simp add: checked_add_one_Some)
  have "\<exists>d. calculate_delay ?r = Ok d"
    using backoff_product [of "rs_base_delay_ms ?r" "rs_attempt ?r"] assms by (simp add: calculate_delay_def reconnecting_def Let_def)
  moreover have "unat (rs_attempt ?r + 1) = unat (rs_attempt ?r) + 1" using checked_add_Some [OF add] by simp
  ultimately show ?thesis using that add by (auto simp: reconnect_increment_def)
qed

definition attempted :: "nat \<Rightarrow> subscriber \<Rightarrow> subscriber" where
  "attempted now s = s\<lparr>sb_reconnect := (sb_reconnect s)\<lparr>rs_attempt := rs_attempt (sb_reconnect s) + 1, rs_last_attempt := Some now\<rparr>\<rparr>"

lemma reconnect_turn_eq:
  assumes "reconnecting s"
  shows "reconnect_turn now co s =
    (if attempts_left s = 1
     then (Ok False, sub_emit (SubError ''Maximum reconnection attempts exceeded'') ((attempted now s)\<lparr>sb_state := ConnError\<rparr>))
     else case sub_connect now co (attempted now s) of
         (Ok _, s) \<Rightarrow> (Ok True, s)
       | (Err e, s) \<Rightarrow> (Ok True, sub_emit (SubDisconnected (''Reconnection attempt failed: '' @ repl_error_display e)) s)
       | (Panic, s) \<Rightarrow> (Panic, s))"
proof -
  obtain d where d: "calculate_delay (sb_reconnect s) = Ok d"
    "reconnect_increment now (sb_reconnect s) =
       Ok ((sb_reconnect s)\<lparr>rs_attempt := rs_attempt (sb_reconnect s) + 1, rs_last_attempt := Some now\<rparr>)"
    "unat (rs_attempt (sb_reconnect s) + 1) = unat (rs_attempt (sb_reconnect s)) + 1"
    by (rule reconnect_steps [OF assms])
  have "rs_max_attempts (sb_reconnect s) \<le> rs_attempt (sb_reconnect s) + 1 \<longleftrightarrow> attempts_left s = 1"
    using assms d(3) by (auto simp: reconnecting_def attempts_left_def word_less_nat_alt word_le_nat_alt)
  moreover have "sb_running s" "\<not> conn_is_connected (sb_state s)" "\<not> conn_is_terminal (sb_state s)"
    using assms by (auto simp: reconnecting_def conn_is_connected_def conn_is_terminal_def)
  ultimately show ?thesis
    by (simp add: reconnect_turn_def d Let_def is_max_exceeded_def attempted_def)
qed

lemma reconnecting_attempted:
  assumes "reconnecting s" "1 < attempts_left s"
  shows "reconnecting ((attempted now s)\<lparr>sb_state := Connecting, sb_events := es\<rparr>)"
    "attempts_left ((attempted now s)\<lparr>sb_state := Connecting, sb_events := es\<rparr>) = attempts_left s - 1"
proof -
  have "unat (rs_attempt (sb_reconnect s) + 1) = unat (rs_attempt (sb_reconnect s)) + 1"
    by (rule reconnect_steps [OF assms(1)])
  with assms show "reconnecting ((attempted now s)\<lparr>sb_state := Connecting, sb_events := es\<rparr>)"
    "attempts_left ((attempted now s)\<lparr>sb_state := Connecting, sb_events := es\<rparr>) = attempts_left s - 1"
    by (auto simp: reconnecting_def attempts_left_def attempted_def word_less_nat_alt)
qed

lemma reconnect_failed_turn:
  assumes "reconnecting s" "co \<noteq> SocketReady" "1 < attempts_left s"
  obtains s' where "reconnect_turn now co s = (Ok True, s')" "reconnecting s'" "attempts_left s' = attempts_left s - 1"
proof -
  obtain es where "reconnect_turn now co s = (Ok True, (attempted now s)\<lparr>sb_state := Connecting, sb_events := es\<rparr>)"
    using assms(2,3) by (cases co) (auto simp: reconnect_turn_eq [OF assms(1)] sub_connect_def sub_emit_def)
  with reconnecting_attempted [OF assms(1,3)] that show ?thesis by blast
qed

lemma reconnect_failed_run:
  assumes "reconnecting s" "\<forall>(now, co) \<in> set cos. co \<noteq> SocketReady" "length cos < attempts_left s"
  shows "\<exists>s'. reconnecting s' \<and> attempts_left s' = attempts_left s - length cos \<and>
    (\<forall>rest. reconnect_loop (cos @ rest) s = reconnect_loop rest s')"
  using assms
proof (induction cos arbitrary: s)
  case Nil
  then show ?case by auto
next
  case (Cons x cos)
  obtain now co where x: "x = (now, co)" by force
  obtain s1 where s1: "reconnect_turn now co s = (Ok True, s1)" "reconnecting s1" "attempts_left s1 = attempts_left s - 1"
    by (rule reconnect_failed_turn [OF Cons.prems(1), of co now]) (use Cons.prems x in auto)
  have "\<exists>s'. reconnecting s' \<and> attempts_left s' = attempts_left s1 - length cos \<and>
      (\<forall>rest. reconnect_loop (cos @ rest) s1 = reconnect_loop rest s')"
    by (rule Cons.IH [OF s1(2)]) (use Cons.prems s1(3) in auto)
  with s1 x show ?case by auto
qed

text \<open>
  Reconnection is bounded and recovers. After a failed first connection of a subscriber with a valid configuration, fewer than nine
  failing attempts followed by one that succeeds make it connected, with a fresh connection and the attempts
  reset; after nine failing attempts the next turn ends the task in the error state without trying again.
\<close>

theorem reconnect_bounded:
  assumes "subscriber_new config = Ok s0" "sub_start t0 co0 s0 = (Err e, s)" "\<forall>(now, co) \<in> set cos. co \<noteq> SocketReady"
  shows "(length cos < 9 \<longrightarrow> (\<exists>s'. reconnect_loop (cos @ [(now, SocketReady)]) s = (Ok True, s') \<and> sb_state s' = Connected \<and>
      sb_connection s' = Some (sub_connection_new now 0 PROTOCOL_VERSION) \<and> rs_attempt (sb_reconnect s') = 0)) \<and>
    (length cos = 9 \<longrightarrow> (\<exists>s'. reconnect_loop (cos @ (now, co) # rest) s = (Ok False, s') \<and> sb_state s' = ConnError))"
proof -
  have "reconnecting s \<and> attempts_left s = 10"
    using assms(1,2) by (auto simp: subscriber_new_def sub_start_def sub_connect_def reconnecting_def attempts_left_def
        reconnect_state_new_def MAX_RECONNECT_ATTEMPTS_def perform_handshake_def Let_def replica_config_validate_def
        split: res.splits connect_outcome.splits if_splits)
  then have r: "reconnecting s" and left: "attempts_left s = 10" by simp_all
  have run: "length cos < 10 \<Longrightarrow> \<exists>s'. reconnecting s' \<and> attempts_left s' = 10 - length cos \<and>
      (\<forall>rest. reconnect_loop (cos @ rest) s = reconnect_loop rest s')"
    using reconnect_failed_run [OF r assms(3)] left by simp
  have "length cos < 9 \<Longrightarrow> \<exists>s'. reconnect_loop (cos @ [(now, SocketReady)]) s = (Ok True, s') \<and> sb_state s' = Connected \<and>
      sb_connection s' = Some (sub_connection_new now 0 PROTOCOL_VERSION) \<and> rs_attempt (sb_reconnect s') = 0"
    using run by (auto simp: reconnect_turn_eq sub_connect_def perform_handshake_def Let_def sub_emit_def reconnect_reset_def)
  moreover have "length cos = 9 \<Longrightarrow> \<exists>s'. reconnect_loop (cos @ (now, co) # rest) s = (Ok False, s') \<and> sb_state s' = ConnError"
    using run by (auto simp: reconnect_turn_eq sub_emit_def)
  ultimately show ?thesis by blast
qed

theorem reconnect_bounded_witness:
  "\<exists>s0 s e. subscriber_new sample_replica_config = Ok s0 \<and> sub_start 0 ConnectTimeout s0 = (Err e, s) \<and>
     (\<exists>s'. reconnect_loop (replicate 3 (5, ConnectTimeout) @ [(7, SocketReady)]) s = (Ok True, s') \<and> sb_state s' = Connected) \<and>
     (\<exists>s'. reconnect_loop (replicate 9 (5, ConnectTimeout) @ [(7, SocketReady)]) s = (Ok False, s') \<and> sb_state s' = ConnError)"
proof -
  obtain s0 where s0: "subscriber_new sample_replica_config = Ok s0" using sample_subscriber by blast
  obtain e s where s: "sub_start 0 ConnectTimeout s0 = (Err e, s)" by (simp add: sub_start_def sub_connect_def Let_def)
  have "\<forall>(now, co) \<in> set (replicate n (5 :: nat, ConnectTimeout)). co \<noteq> SocketReady" for n by auto
  note runs = reconnect_bounded [OF s0 s this, of 3 7] reconnect_bounded [OF s0 s this, of 9 7 SocketReady "[]"]
  then show ?thesis using s0 s by (intro exI [of _ s0] exI [of _ s] exI [of _ e]) auto
qed

end
