(* ===== verification/Failover.thy ===== *)
theory Failover
  imports Errors Ids "HOL-Library.AList"
begin

text \<open>
  Primary and replicas of the disaster recovery module: \<^verbatim>\<open>recovery/replication.rs\<close> and
  \<^verbatim>\<open>recovery/failover.rs\<close>. Hash maps are association lists in the order in which an iteration visits them, so a theorem
  about all of them covers every order. Identifiers are 128 bit numbers; the generator of identifiers, the clock (in
  nanoseconds) and the texts of identifiers and errors are arguments.
\<close>

section \<open>replication.rs\<close>

datatype replication_mode = AsyncMode | SyncMode | SemiSyncMode

fun replication_mode_display :: "replication_mode \<Rightarrow> string" where
  "replication_mode_display AsyncMode = ''async''"
| "replication_mode_display SyncMode = ''sync''"
| "replication_mode_display SemiSyncMode = ''semi_sync''"

datatype node_role = PrimaryNode | ReplicaNode | StandbyNode

fun node_role_display :: "node_role \<Rightarrow> string" where
  "node_role_display PrimaryNode = ''primary''"
| "node_role_display ReplicaNode = ''replica''"
| "node_role_display StandbyNode = ''standby''"

datatype replica_status = StConnecting | InSync | Lagging | StDisconnected | StFailed

fun replica_status_display :: "replica_status \<Rightarrow> string" where
  "replica_status_display StConnecting = ''connecting''"
| "replica_status_display InSync = ''in_sync''"
| "replica_status_display Lagging = ''lagging''"
| "replica_status_display StDisconnected = ''disconnected''"
| "replica_status_display StFailed = ''failed''"

record replica_node =
  rn_id :: uuid
  rn_address :: string
  rn_status :: replica_status
  rn_mode :: replication_mode
  rn_current_lsn :: lsn
  rn_lsn_lag :: u64
  rn_time_lag_secs :: u64
  rn_last_contact :: int
  rn_connected_at :: "int option"
  rn_bytes_sent :: u64
  rn_bytes_received :: u64
  rn_errors :: u64

definition replica_node_new :: "int \<Rightarrow> uuid \<Rightarrow> string \<Rightarrow> replication_mode \<Rightarrow> replica_node" where
  "replica_node_new now i address mode =
     \<lparr>rn_id = i, rn_address = address, rn_status = StConnecting, rn_mode = mode, rn_current_lsn = LSN_INITIAL, rn_lsn_lag = 0,
      rn_time_lag_secs = 0, rn_last_contact = now, rn_connected_at = None, rn_bytes_sent = 0, rn_bytes_received = 0, rn_errors = 0\<rparr>"

definition rn_update_status :: "int \<Rightarrow> replica_status \<Rightarrow> replica_node \<Rightarrow> replica_node" where
  "rn_update_status now status r =
     (let r = r\<lparr>rn_status := status\<rparr> in
      if status = InSync \<and> rn_connected_at r = None then r\<lparr>rn_connected_at := Some now\<rparr> else r)"

definition rn_update_lsn :: "int \<Rightarrow> lsn \<Rightarrow> lsn \<Rightarrow> replica_node \<Rightarrow> replica_node" where
  "rn_update_lsn now primary_lsn replica_lsn r =
     (let lag = saturating_sub primary_lsn replica_lsn;
          r = r\<lparr>rn_current_lsn := replica_lsn, rn_lsn_lag := lag\<rparr>;
          r = (if 1000 < lag then r\<lparr>rn_status := Lagging\<rparr>
               else if rn_status r = Lagging then r\<lparr>rn_status := InSync\<rparr> else r)
      in r\<lparr>rn_last_contact := now\<rparr>)"

definition rn_update_time_lag :: "u64 \<Rightarrow> replica_node \<Rightarrow> replica_node" where
  "rn_update_time_lag lag_secs r = r\<lparr>rn_time_lag_secs := lag_secs\<rparr>"

definition rn_record_error :: "replica_node \<Rightarrow> replica_node outcome" where
  "rn_record_error r = (case checked_add (rn_errors r) 1 of Some n \<Rightarrow> Ok (r\<lparr>rn_errors := n\<rparr>) | None \<Rightarrow> Panic)"

definition rn_is_healthy :: "replica_node \<Rightarrow> bool" where
  "rn_is_healthy r \<longleftrightarrow> rn_status r \<in> {InSync, Lagging} \<and> rn_lsn_lag r < 10000"

datatype stream_message =
    LogRecord lsn bytes
  | HeartbeatAt lsn int
  | AckOf lsn uuid
  | StatusUpdate uuid lsn

text \<open>
  Of the channel, the messages sent on it, when there is one. The failover manager that \<open>enable_failover\<close> stores is never read and is left out.
\<close>

record replication_manager =
  mg_role :: node_role
  mg_mode :: replication_mode
  mg_primary_address :: "string option"
  mg_replicas :: "(uuid \<times> replica_node) list"
  mg_current_lsn :: lsn
  mg_tx :: "stream_message list option"

definition new_primary :: replication_manager where
  "new_primary = \<lparr>mg_role = PrimaryNode, mg_mode = AsyncMode, mg_primary_address = None, mg_replicas = [], mg_current_lsn = LSN_INITIAL, mg_tx = None\<rparr>"

definition new_replica :: "string \<Rightarrow> replication_manager" where
  "new_replica primary_address =
     \<lparr>mg_role = ReplicaNode, mg_mode = AsyncMode, mg_primary_address = Some primary_address, mg_replicas = [], mg_current_lsn = LSN_INITIAL, mg_tx = None\<rparr>"

definition set_mode :: "replication_mode \<Rightarrow> replication_manager \<Rightarrow> replication_manager" where
  "set_mode mode m = m\<lparr>mg_mode := mode\<rparr>"

definition mg_send :: "stream_message \<Rightarrow> replication_manager \<Rightarrow> replication_manager" where
  "mg_send x m = m\<lparr>mg_tx := map_option (\<lambda>q. q @ [x]) (mg_tx m)\<rparr>"

definition mg_update_lsn :: "int \<Rightarrow> lsn \<Rightarrow> replication_manager \<Rightarrow> replication_manager" where
  "mg_update_lsn now l m =
     (let m = m\<lparr>mg_current_lsn := l\<rparr> in if mg_role m = PrimaryNode then mg_send (HeartbeatAt l now) m else m)"

definition add_replica ::
  "int \<Rightarrow> uuid \<Rightarrow> string \<Rightarrow> replication_mode \<Rightarrow> replication_manager \<Rightarrow> (uuid \<times> replication_manager) outcome" where
  "add_replica now fresh address mode m =
     (if mg_role m \<noteq> PrimaryNode then Err (Io (InternalError ''Only primary can add replicas''))
      else Ok (fresh, m\<lparr>mg_replicas :=
        AList.update fresh (rn_update_status now StConnecting (replica_node_new now fresh address mode)) (mg_replicas m)\<rparr>))"

definition remove_replica :: "(uuid \<Rightarrow> string) \<Rightarrow> uuid \<Rightarrow> replication_manager \<Rightarrow> replication_manager outcome" where
  "remove_replica show_uuid i m =
     (if mg_role m \<noteq> PrimaryNode then Err (Io (InternalError ''Only primary can remove replicas''))
      else case map_of (mg_replicas m) i of
             None \<Rightarrow> Err (Io (FileNotFound (show_uuid i)))
           | Some _ \<Rightarrow> Ok (m\<lparr>mg_replicas := AList.delete i (mg_replicas m)\<rparr>))"

definition get_replica :: "uuid \<Rightarrow> replication_manager \<Rightarrow> replica_node option" where
  "get_replica i m = map_of (mg_replicas m) i"

definition replicas :: "replication_manager \<Rightarrow> replica_node list" where
  "replicas m = map snd (mg_replicas m)"

definition healthy_replicas :: "replication_manager \<Rightarrow> replica_node list" where
  "healthy_replicas m = filter rn_is_healthy (replicas m)"

definition on_replica ::
  "(uuid \<Rightarrow> string) \<Rightarrow> uuid \<Rightarrow> (replica_node \<Rightarrow> replica_node) \<Rightarrow> replication_manager \<Rightarrow> replication_manager outcome" where
  "on_replica show_uuid i f m =
     (case map_of (mg_replicas m) i of
        None \<Rightarrow> Err (Io (FileNotFound (show_uuid i)))
      | Some r \<Rightarrow> Ok (m\<lparr>mg_replicas := AList.update i (f r) (mg_replicas m)\<rparr>))"

definition update_replica_status ::
  "(uuid \<Rightarrow> string) \<Rightarrow> int \<Rightarrow> uuid \<Rightarrow> replica_status \<Rightarrow> replication_manager \<Rightarrow> replication_manager outcome" where
  "update_replica_status show_uuid now i status m = on_replica show_uuid i (rn_update_status now status) m"

definition process_replica_ack ::
  "(uuid \<Rightarrow> string) \<Rightarrow> int \<Rightarrow> uuid \<Rightarrow> lsn \<Rightarrow> replication_manager \<Rightarrow> replication_manager outcome" where
  "process_replica_ack show_uuid now i l m = on_replica show_uuid i (rn_update_lsn now (mg_current_lsn m) l) m"

definition send_to_replicas :: "lsn \<Rightarrow> bytes \<Rightarrow> replication_manager \<Rightarrow> replication_manager" where
  "send_to_replicas l payload m = (if mg_role m \<noteq> PrimaryNode then m else mg_send (LogRecord l payload) m)"

definition wait_for_acks :: "lsn \<Rightarrow> replication_manager \<Rightarrow> unit outcome" where
  "wait_for_acks l m =
     (case mg_mode m of
        AsyncMode \<Rightarrow> Ok ()
      | SyncMode \<Rightarrow>
          if healthy_replicas m = [] \<and> mg_replicas m \<noteq> []
          then Err (Io (InternalError ''No healthy replicas available for sync replication'')) else Ok ()
      | SemiSyncMode \<Rightarrow>
          if healthy_replicas m = [] \<and> mg_replicas m \<noteq> []
          then Err (Io (InternalError ''No healthy replicas available for semi-sync replication'')) else Ok ())"

definition start_replication :: "replication_manager \<Rightarrow> unit outcome" where
  "start_replication m =
     (if mg_role m \<noteq> ReplicaNode then Err (Io (InternalError ''Only replica can start replication''))
      else case mg_primary_address m of
             None \<Rightarrow> Err (Io (InternalError ''Primary address not set''))
           | Some _ \<Rightarrow> Ok ())"

text \<open>\<open>Iterator::sum\<close> on \<open>u64\<close>, which panics on overflow.\<close>

fun sum_u64 :: "u64 list \<Rightarrow> u64 \<Rightarrow> u64 outcome" where
  "sum_u64 [] acc = Ok acc"
| "sum_u64 (x # xs) acc = (case checked_add acc x of Some s \<Rightarrow> sum_u64 xs s | None \<Rightarrow> Panic)"

definition lag_stats :: "replication_manager \<Rightarrow> (u64 \<times> u64 \<times> u64) outcome" where
  "lag_stats m =
     (let rs = replicas m in
      if rs = [] then Ok (0, 0, 0)
      else and_then (sum_u64 (map rn_lsn_lag rs) 0) (\<lambda>total.
        Ok (Max (rn_lsn_lag ` set rs), total div word_of_nat (length rs), Max (rn_time_lag_secs ` set rs))))"

definition throughput_stats :: "replication_manager \<Rightarrow> (u64 \<times> u64) outcome" where
  "throughput_stats m =
     (let rs = replicas m in
      if rs = [] then Ok (0, 0)
      else and_then (sum_u64 (map rn_bytes_sent rs) 0) (\<lambda>sent.
           and_then (sum_u64 (map rn_bytes_received rs) 0) (\<lambda>received. Ok (sent, received))))"

definition mg_is_healthy :: "replication_manager \<Rightarrow> bool" where
  "mg_is_healthy m =
     (case mg_role m of
        PrimaryNode \<Rightarrow> if mg_replicas m = [] then True else 0 < length (healthy_replicas m)
      | ReplicaNode \<Rightarrow> True
      | StandbyNode \<Rightarrow> False)"

section \<open>failover.rs\<close>

datatype failover_mode = FoAutomatic | FoManual | FoPlanned

fun failover_mode_display :: "failover_mode \<Rightarrow> string" where
  "failover_mode_display FoAutomatic = ''automatic''"
| "failover_mode_display FoManual = ''manual''"
| "failover_mode_display FoPlanned = ''planned''"

datatype failover_status =
    FoMonitoring | DetectingFailure | ConfirmingFailure | ElectingNewPrimary | PromotingReplica | UpdatingRouting | FoCompleted | FoFailed

fun failover_status_display :: "failover_status \<Rightarrow> string" where
  "failover_status_display FoMonitoring = ''monitoring''"
| "failover_status_display DetectingFailure = ''detecting_failure''"
| "failover_status_display ConfirmingFailure = ''confirming_failure''"
| "failover_status_display ElectingNewPrimary = ''electing_new_primary''"
| "failover_status_display PromotingReplica = ''promoting_replica''"
| "failover_status_display UpdatingRouting = ''updating_routing''"
| "failover_status_display FoCompleted = ''completed''"
| "failover_status_display FoFailed = ''failed''"

record failover =
  fo_id :: uuid
  fo_mode :: failover_mode
  fo_status :: failover_status
  fo_old_primary_id :: "uuid option"
  fo_new_primary_id :: "uuid option"
  fo_triggered_at :: int
  fo_completed_at :: "int option"
  fo_downtime_secs :: u64
  fo_data_loss_bytes :: u64
  fo_reason :: string
  fo_error :: "string option"

definition failover_new :: "uuid \<Rightarrow> int \<Rightarrow> failover_mode \<Rightarrow> string \<Rightarrow> failover" where
  "failover_new fresh now mode reason =
     \<lparr>fo_id = fresh, fo_mode = mode, fo_status = FoMonitoring, fo_old_primary_id = None, fo_new_primary_id = None, fo_triggered_at = now,
      fo_completed_at = None, fo_downtime_secs = 0, fo_data_loss_bytes = 0, fo_reason = reason, fo_error = None\<rparr>"

definition fo_update_status :: "int \<Rightarrow> failover_status \<Rightarrow> failover \<Rightarrow> failover" where
  "fo_update_status now status f =
     (if status = FoCompleted
      then f\<lparr>fo_status := status, fo_completed_at := Some now,
             fo_downtime_secs := word_of_nat (nat (now - fo_triggered_at f) div 1000000000)\<rparr>
      else f\<lparr>fo_status := status\<rparr>)"

definition set_primaries :: "uuid \<Rightarrow> uuid \<Rightarrow> failover \<Rightarrow> failover" where
  "set_primaries old_id new_id f = f\<lparr>fo_old_primary_id := Some old_id, fo_new_primary_id := Some new_id\<rparr>"

definition mark_failed :: "int \<Rightarrow> string \<Rightarrow> failover \<Rightarrow> failover" where
  "mark_failed now msg f = f\<lparr>fo_status := FoFailed, fo_error := Some msg, fo_completed_at := Some now\<rparr>"

definition failover_duration :: "failover \<Rightarrow> nat option" where
  "failover_duration f = map_option (\<lambda>end_at. nat (end_at - fo_triggered_at f)) (fo_completed_at f)"

record heartbeat =
  ht_node_id :: uuid
  ht_lsn :: lsn
  ht_timestamp :: int
  ht_role :: node_role

definition is_stale :: "int \<Rightarrow> nat \<Rightarrow> heartbeat \<Rightarrow> bool" where
  "is_stale now timeout h \<longleftrightarrow> timeout < nat (now - ht_timestamp h)"

record failover_manager =
  fm_mode :: failover_mode
  fm_heartbeat_interval :: nat
  fm_missed_threshold :: nat
  fm_current_failover :: "failover option"
  fm_failover_history :: "failover list"
  fm_heartbeats :: "(uuid \<times> heartbeat) list"
  fm_replication :: "replication_manager option"
  fm_node_id :: uuid
  fm_is_primary :: bool

definition failover_manager_with_config :: "uuid \<Rightarrow> nat \<Rightarrow> nat \<Rightarrow> failover_manager" where
  "failover_manager_with_config fresh heartbeat_interval missed_threshold =
     \<lparr>fm_mode = FoAutomatic, fm_heartbeat_interval = heartbeat_interval, fm_missed_threshold = missed_threshold, fm_current_failover = None,
      fm_failover_history = [], fm_heartbeats = [], fm_replication = None, fm_node_id = fresh, fm_is_primary = False\<rparr>"

definition failover_manager_new :: "uuid \<Rightarrow> failover_manager" where
  "failover_manager_new fresh = failover_manager_with_config fresh 5000000000 6"

definition failover_manager_with_mode :: "uuid \<Rightarrow> failover_mode \<Rightarrow> failover_manager" where
  "failover_manager_with_mode fresh mode = (failover_manager_new fresh)\<lparr>fm_mode := mode\<rparr>"

definition set_replication :: "replication_manager \<Rightarrow> failover_manager \<Rightarrow> failover_manager" where
  "set_replication r m = m\<lparr>fm_replication := Some r\<rparr>"

definition set_node_id :: "uuid \<Rightarrow> failover_manager \<Rightarrow> failover_manager" where
  "set_node_id i m = m\<lparr>fm_node_id := i\<rparr>"

definition set_primary :: "bool \<Rightarrow> failover_manager \<Rightarrow> failover_manager" where
  "set_primary b m = m\<lparr>fm_is_primary := b\<rparr>"

definition process_heartbeat :: "heartbeat \<Rightarrow> failover_manager \<Rightarrow> failover_manager" where
  "process_heartbeat h m = m\<lparr>fm_heartbeats := AList.update (ht_node_id h) h (fm_heartbeats m)\<rparr>"

text \<open>\<open>Duration * u32\<close>, which panics when the seconds no longer fit into 64 bits.\<close>

definition duration_mul :: "nat \<Rightarrow> u32 \<Rightarrow> nat outcome" where
  "duration_mul d k = (if d * unat k < 2 ^ 64 * 1000000000 then Ok (d * unat k) else Panic)"

definition confirm_primary_failure :: "int \<Rightarrow> failover_manager \<Rightarrow> bool outcome" where
  "confirm_primary_failure now m =
     (case checked_mul (word_of_nat (fm_missed_threshold m) :: u32) 2 of
        None \<Rightarrow> Panic
      | Some k \<Rightarrow> and_then (duration_mul (fm_heartbeat_interval m) k) (\<lambda>timeout.
          Ok (\<not> list_ex (\<lambda>(_, h). ht_role h = PrimaryNode \<and> \<not> is_stale now timeout h) (fm_heartbeats m))))"

definition replica_silent :: "int \<Rightarrow> nat \<Rightarrow> failover_manager \<Rightarrow> replica_node \<Rightarrow> bool" where
  "replica_silent now timeout m r =
     (case map_of (fm_heartbeats m) (rn_id r) of Some h \<Rightarrow> is_stale now timeout h | None \<Rightarrow> False)"

definition detect_primary_failure :: "int \<Rightarrow> failover_manager \<Rightarrow> bool outcome" where
  "detect_primary_failure now m =
     (if fm_is_primary m then Ok False
      else and_then (duration_mul (fm_heartbeat_interval m) (word_of_nat (fm_missed_threshold m))) (\<lambda>timeout.
        case fm_replication m of
          None \<Rightarrow> Ok False
        | Some rm \<Rightarrow>
            if list_ex (replica_silent now timeout m) (replicas rm) then confirm_primary_failure now m else Ok False))"

text \<open>\<open>max_by_key\<close>, which keeps the last of the greatest elements.\<close>

fun max_replica_by_lsn :: "replica_node list \<Rightarrow> replica_node option" where
  "max_replica_by_lsn [] = None"
| "max_replica_by_lsn (r # rs) =
     (case max_replica_by_lsn rs of
        None \<Rightarrow> Some r
      | Some b \<Rightarrow> if rn_current_lsn b < rn_current_lsn r then Some r else Some b)"

definition elect_new_primary :: "failover_manager \<Rightarrow> replica_node outcome" where
  "elect_new_primary m =
     (case fm_replication m of
        None \<Rightarrow> Err (Io (InternalError ''Replication manager not set''))
      | Some rm \<Rightarrow>
          if healthy_replicas rm = [] then Err (Io (InternalError ''No healthy replicas available''))
          else case max_replica_by_lsn (healthy_replicas rm) of
                 None \<Rightarrow> Err (Io (InternalError ''Failed to elect new primary''))
               | Some r \<Rightarrow> Ok r)"

definition promote_replica :: "replica_node \<Rightarrow> failover_manager \<Rightarrow> unit outcome \<times> failover_manager" where
  "promote_replica r m = (Ok (), m\<lparr>fm_is_primary := True\<rparr>)"

definition perform_failover :: "int \<Rightarrow> failover \<Rightarrow> failover_manager \<Rightarrow> unit outcome \<times> failover \<times> failover_manager" where
  "perform_failover now f m =
     (let f = fo_update_status now ElectingNewPrimary f in
      case elect_new_primary m of
        Err e \<Rightarrow> (Err e, f, m)
      | Panic \<Rightarrow> (Panic, f, m)
      | Ok r \<Rightarrow>
          let f = fo_update_status now PromotingReplica f in
          (case promote_replica r m of
             (Ok _, m) \<Rightarrow> (Ok (), set_primaries (fm_node_id m) (rn_id r) (fo_update_status now UpdatingRouting f), m)
           | (Err e, m) \<Rightarrow> (Err e, f, m)
           | (Panic, m) \<Rightarrow> (Panic, f, m)))"

text \<open>Both ways to start a failover, with the mode, the first status and the reason.\<close>

definition run_failover ::
  "(error \<Rightarrow> string) \<Rightarrow> uuid \<Rightarrow> int \<Rightarrow> int \<Rightarrow> failover_mode \<Rightarrow> failover_status \<Rightarrow> string \<Rightarrow> failover_manager \<Rightarrow> uuid outcome \<times> failover_manager" where
  "run_failover show_error fresh now done_at mode status reason m =
     (let f = fo_update_status now status (failover_new fresh now mode reason);
          m = m\<lparr>fm_current_failover := Some f\<rparr>;
          (result, f, m) = perform_failover now f m
      in case result of
           Panic \<Rightarrow> (Panic, m)
         | _ \<Rightarrow>
             let f = (case result of Err e \<Rightarrow> mark_failed done_at (show_error e) f | _ \<Rightarrow> fo_update_status done_at FoCompleted f)
             in (Ok fresh, m\<lparr>fm_failover_history := fm_failover_history m @ [f], fm_current_failover := None\<rparr>))"

definition initiate_failover ::
  "(error \<Rightarrow> string) \<Rightarrow> uuid \<Rightarrow> int \<Rightarrow> int \<Rightarrow> failover_manager \<Rightarrow> uuid outcome \<times> failover_manager" where
  "initiate_failover show_error fresh now done_at m =
     run_failover show_error fresh now done_at (fm_mode m) DetectingFailure ''Primary failure detected'' m"

definition trigger_manual_failover ::
  "(error \<Rightarrow> string) \<Rightarrow> uuid \<Rightarrow> int \<Rightarrow> int \<Rightarrow> string \<Rightarrow> failover_manager \<Rightarrow> uuid outcome \<times> failover_manager" where
  "trigger_manual_failover show_error fresh now done_at reason m =
     run_failover show_error fresh now done_at FoManual ElectingNewPrimary reason m"

definition failover_stats :: "failover_manager \<Rightarrow> (nat \<times> u64 \<times> u64) outcome" where
  "failover_stats m =
     and_then (sum_u64 (map fo_downtime_secs (fm_failover_history m)) 0) (\<lambda>downtime.
     and_then (sum_u64 (map fo_data_loss_bytes (fm_failover_history m)) 0) (\<lambda>loss.
       Ok (length (fm_failover_history m), downtime, loss)))"

definition clear_history :: "nat \<Rightarrow> failover_manager \<Rightarrow> failover_manager" where
  "clear_history keep_last_n m =
     (if keep_last_n < length (fm_failover_history m)
      then m\<lparr>fm_failover_history := drop (length (fm_failover_history m) - keep_last_n) (fm_failover_history m)\<rparr>
      else m)"

section \<open>Election and detection\<close>

lemma max_replica_by_lsn_None [simp]: "max_replica_by_lsn rs = None \<longleftrightarrow> rs = []"
  by (cases rs) (auto split: option.splits)

lemma max_replica_by_lsn_max:
  "max_replica_by_lsn rs = Some b \<Longrightarrow> b \<in> set rs \<and> (\<forall>r \<in> set rs. rn_current_lsn r \<le> rn_current_lsn b)"
  by (induction rs arbitrary: b) (auto split: option.splits if_splits)

text \<open>
  C33. Failover elects the most advanced healthy replica. With a replication manager set, \<open>initiate_failover\<close> always returns its
  identifier and adds one entry to the history. If no replica is healthy, the entry is a failure with a reason and the node keeps its
  role. Otherwise the entry is completed, names a healthy replica such that no healthy replica has a
  greater log position, and the node that ran the failover takes the role of the primary, whichever replica was elected.
\<close>

theorem failover_elects_freshest:
  assumes "fm_replication m = Some rm"
  shows "\<exists>f m'. initiate_failover show_error fresh now done_at m = (Ok fresh, m') \<and>
    fm_failover_history m' = fm_failover_history m @ [f] \<and> fo_id f = fresh \<and> fm_current_failover m' = None \<and>
    (healthy_replicas rm = [] \<longrightarrow> fo_status f = FoFailed \<and> fo_new_primary_id f = None \<and> fm_is_primary m' = fm_is_primary m \<and>
       fo_error f = Some (show_error (Io (InternalError ''No healthy replicas available'')))) \<and>
    (healthy_replicas rm \<noteq> [] \<longrightarrow> fo_status f = FoCompleted \<and> fm_is_primary m' \<and>
       (\<exists>b \<in> set (healthy_replicas rm). fo_new_primary_id f = Some (rn_id b) \<and>
          (\<forall>r \<in> set (healthy_replicas rm). rn_current_lsn r \<le> rn_current_lsn b)))"
proof (cases "healthy_replicas rm = []")
  case True
  then show ?thesis
    by (simp add: initiate_failover_def run_failover_def perform_failover_def elect_new_primary_def assms Let_def
        fo_update_status_def failover_new_def mark_failed_def)
next
  case False
  then obtain b where b: "max_replica_by_lsn (healthy_replicas rm) = Some b"
    by (metis max_replica_by_lsn_None not_None_eq)
  with max_replica_by_lsn_max [OF b] show ?thesis
    by (auto simp: initiate_failover_def run_failover_def perform_failover_def elect_new_primary_def assms Let_def
        fo_update_status_def failover_new_def promote_replica_def set_primaries_def)
qed

text \<open>
  A failure of the primary is reported only after silence. If \<open>detect_primary_failure\<close> reports one, the node is
  not the primary itself, some known replica has not been heard of for longer than the threshold, and no heartbeat of
  a primary is younger than twice that time.
\<close>

theorem failure_only_after_silence:
  assumes "detect_primary_failure now m = Ok True"
  shows "\<not> fm_is_primary m \<and>
    (\<exists>rm. fm_replication m = Some rm \<and> (\<exists>r \<in> set (replicas rm). replica_silent now (fm_heartbeat_interval m * unat (word_of_nat (fm_missed_threshold m) :: u32)) m r)) \<and>
    (\<forall>(i, h) \<in> set (fm_heartbeats m). ht_role h = PrimaryNode \<longrightarrow>
       is_stale now (fm_heartbeat_interval m * (2 * unat (word_of_nat (fm_missed_threshold m) :: u32))) h)"
proof -
  let ?k = "word_of_nat (fm_missed_threshold m) :: u32"
  obtain timeout rm where t: "\<not> fm_is_primary m" "duration_mul (fm_heartbeat_interval m) ?k = Ok timeout" "fm_replication m = Some rm"
    "list_ex (replica_silent now timeout m) (replicas rm)" "confirm_primary_failure now m = Ok True"
    using assms by (auto simp: detect_primary_failure_def and_then_split split: if_splits option.splits)
  obtain k2 timeout2 where k2: "checked_mul ?k 2 = Some k2" "duration_mul (fm_heartbeat_interval m) k2 = Ok timeout2"
    "\<not> list_ex (\<lambda>(_, h). ht_role h = PrimaryNode \<and> \<not> is_stale now timeout2 h) (fm_heartbeats m)"
    using t(5) by (auto simp: confirm_primary_failure_def and_then_split split: option.splits)
  have "unat k2 = 2 * unat ?k" using k2(1) by (auto simp: checked_mul_def unat_word_ariths split: if_splits)
  then have "timeout = fm_heartbeat_interval m * unat ?k" "timeout2 = fm_heartbeat_interval m * (2 * unat ?k)"
    using t(2) k2(2) by (auto simp: duration_mul_def split: if_splits)
  with t k2(3) show ?thesis by (fastforce simp: list_ex_iff)
qed

definition sample_primary :: replication_manager where
  "sample_primary = new_primary\<lparr>mg_replicas :=
     [(1, (replica_node_new 0 1 ''a:1'' AsyncMode)\<lparr>rn_status := InSync, rn_current_lsn := 7\<rparr>),
      (2, (replica_node_new 0 2 ''b:1'' AsyncMode)\<lparr>rn_status := InSync, rn_current_lsn := 9\<rparr>),
      (3, (replica_node_new 0 3 ''c:1'' AsyncMode)\<lparr>rn_current_lsn := 12\<rparr>)]\<rparr>"

definition sample_manager :: failover_manager where
  "sample_manager = (process_heartbeat \<lparr>ht_node_id = 1, ht_lsn = 7, ht_timestamp = 0, ht_role = ReplicaNode\<rparr> (failover_manager_new 8))
     \<lparr>fm_replication := Some sample_primary\<rparr>"

theorem failover_elects_freshest_witness:
  "\<exists>f m'. initiate_failover (\<lambda>_. []) 5 0 1 sample_manager = (Ok 5, m') \<and> fm_is_primary m' \<and>
     fm_failover_history m' = [f] \<and> fo_new_primary_id f = Some 2"
proof -
  have healthy: "healthy_replicas sample_primary =
      [(replica_node_new 0 1 ''a:1'' AsyncMode)\<lparr>rn_status := InSync, rn_current_lsn := 7\<rparr>,
       (replica_node_new 0 2 ''b:1'' AsyncMode)\<lparr>rn_status := InSync, rn_current_lsn := 9\<rparr>]"
    by (simp add: healthy_replicas_def replicas_def sample_primary_def rn_is_healthy_def replica_node_new_def)
  have "fm_replication sample_manager = Some sample_primary" "fm_failover_history sample_manager = []"
    by (simp_all add: sample_manager_def process_heartbeat_def failover_manager_new_def failover_manager_with_config_def)
  with failover_elects_freshest [OF this(1), of "\<lambda>_. []" 5 0 1] show ?thesis
    by (auto simp: healthy replica_node_new_def)
qed

theorem failure_only_after_silence_witness:
  "detect_primary_failure 100000000000 sample_manager = Ok True \<and> \<not> fm_is_primary sample_manager"
proof -
  have "detect_primary_failure 100000000000 sample_manager = Ok True"
    by (simp add: detect_primary_failure_def sample_manager_def process_heartbeat_def failover_manager_new_def
        failover_manager_with_config_def duration_mul_def replica_silent_def is_stale_def replicas_def sample_primary_def
        replica_node_new_def confirm_primary_failure_def checked_mul_def)
  with failure_only_after_silence [OF this] show ?thesis by blast
qed

text \<open>Synchronous replication does not wait: it succeeds although no replica has reached the position.\<close>

lemma sync_does_not_wait:
  "wait_for_acks 1000 (set_mode SyncMode sample_primary) = Ok () \<and> (\<forall>r \<in> set (replicas sample_primary). rn_current_lsn r < 1000)"
  by (simp add: wait_for_acks_def set_mode_def sample_primary_def healthy_replicas_def replicas_def rn_is_healthy_def replica_node_new_def)

end
