(* ===== verification/Floats.thy ===== *)
theory Floats
  imports Complex_Main
begin

text \<open>
  Floating point numbers as far as the components compare them: not a number, an infinity or a rational. A comparison with
  what is not a number is false. Arithmetic, which rounds, is left to arguments of the definitions that need it.
\<close>

datatype float_value = FloatNan | FloatNegInf | FloatNum rat | FloatPosInf

fun float_less :: "float_value \<Rightarrow> float_value \<Rightarrow> bool" where
  "float_less FloatNan y = False"
| "float_less x FloatNan = False"
| "float_less (FloatNum p) (FloatNum q) = (p < q)"
| "float_less FloatNegInf y = (y \<noteq> FloatNegInf)"
| "float_less FloatPosInf y = False"
| "float_less (FloatNum p) y = (y = FloatPosInf)"

fun float_less_eq :: "float_value \<Rightarrow> float_value \<Rightarrow> bool" where
  "float_less_eq FloatNan y = False"
| "float_less_eq x FloatNan = False"
| "float_less_eq (FloatNum p) (FloatNum q) = (p \<le> q)"
| "float_less_eq FloatNegInf y = True"
| "float_less_eq FloatPosInf y = (y = FloatPosInf)"
| "float_less_eq (FloatNum p) y = (y = FloatPosInf)"

lemma float_less_eq_iff:
  "float_less_eq x y \<longleftrightarrow> float_less x y \<or> (x = y \<and> x \<noteq> FloatNan)"
  by (cases x; cases y) auto

end
