(* ===== verification/Events.thy ===== *)
theory Events
  imports Errors Floats
begin

text \<open>
  The event store: \<^verbatim>\<open>events/types.rs\<close> and \<^verbatim>\<open>events/storage.rs\<close>. Time stamps are integers, of which only the order is
  used; a hash map of strings is an association list. The text of a floating point number is the argument \<open>show_float\<close>. The map of the store is a
  partial function, and the order in which an iteration visits its keys is an argument of the query.
\<close>

section \<open>Event types\<close>

definition MAX_EVENT_PAYLOAD_SIZE :: u32 where "MAX_EVENT_PAYLOAD_SIZE = 1048576"

datatype event_type =
    EtAgentSessionStarted | EtAgentSessionEnded | EtAgentOperation | EtReviewNote | EtReviewSummary | EtPerfSample
  | EtPerfRegression | EtDebugSession | EtDebugSnapshot | EtVcsCommit | EtVcsBranch

fun event_type_code :: "event_type \<Rightarrow> u16" where
  "event_type_code EtAgentSessionStarted = 0x1000"
| "event_type_code EtAgentSessionEnded = 0x1001"
| "event_type_code EtAgentOperation = 0x1002"
| "event_type_code EtReviewNote = 0x2000"
| "event_type_code EtReviewSummary = 0x2001"
| "event_type_code EtPerfSample = 0x3000"
| "event_type_code EtPerfRegression = 0x3001"
| "event_type_code EtDebugSession = 0x4000"
| "event_type_code EtDebugSnapshot = 0x4001"
| "event_type_code EtVcsCommit = 0x5000"
| "event_type_code EtVcsBranch = 0x5001"

definition event_category :: "event_type \<Rightarrow> u8" where
  "event_category t = ucast (drop_bit 12 (event_type_code t))"

definition event_type_from_raw :: "u16 \<Rightarrow> event_type option" where
  "event_type_from_raw v =
     (if v = 0x1000 then Some EtAgentSessionStarted
      else if v = 0x1001 then Some EtAgentSessionEnded
      else if v = 0x1002 then Some EtAgentOperation
      else if v = 0x2000 then Some EtReviewNote
      else if v = 0x2001 then Some EtReviewSummary
      else if v = 0x3000 then Some EtPerfSample
      else if v = 0x3001 then Some EtPerfRegression
      else if v = 0x4000 then Some EtDebugSession
      else if v = 0x4001 then Some EtDebugSnapshot
      else if v = 0x5000 then Some EtVcsCommit
      else if v = 0x5001 then Some EtVcsBranch
      else None)"

datatype event_visibility = VisPrivate | VisTeam | VisPublic

fun visibility_code :: "event_visibility \<Rightarrow> u8" where
  "visibility_code VisPrivate = 0"
| "visibility_code VisTeam = 1"
| "visibility_code VisPublic = 2"

instantiation event_visibility :: linorder
begin

definition less_eq_event_visibility :: "event_visibility \<Rightarrow> event_visibility \<Rightarrow> bool" where
  "less_eq_event_visibility a b \<longleftrightarrow> visibility_code a \<le> visibility_code b"

definition less_event_visibility :: "event_visibility \<Rightarrow> event_visibility \<Rightarrow> bool" where
  "less_event_visibility a b \<longleftrightarrow> visibility_code a < visibility_code b"

instance
proof
  fix a b c :: event_visibility
  show "a < b \<longleftrightarrow> a \<le> b \<and> \<not> b \<le> a" by (auto simp: less_eq_event_visibility_def less_event_visibility_def)
  show "a \<le> a" by (simp add: less_eq_event_visibility_def)
  show "a \<le> b \<Longrightarrow> b \<le> c \<Longrightarrow> a \<le> c" by (simp add: less_eq_event_visibility_def)
  show "a \<le> b \<Longrightarrow> b \<le> a \<Longrightarrow> a = b" by (cases a; cases b) (simp_all add: less_eq_event_visibility_def word_le_nat_alt)
  show "a \<le> b \<or> b \<le> a" by (auto simp: less_eq_event_visibility_def)
qed

end

definition visibility_from_raw :: "u8 \<Rightarrow> event_visibility option" where
  "visibility_from_raw v = (if v = 0 then Some VisPrivate else if v = 1 then Some VisTeam else if v = 2 then Some VisPublic else None)"

record event_header =
  eh_event_id :: u64
  eh_event_type :: event_type
  eh_timestamp :: int
  eh_actor_id :: u64
  eh_session_id :: "u64 option"
  eh_visibility :: event_visibility
  eh_payload_len :: u32

definition event_header_validate :: "event_header \<Rightarrow> unit outcome" where
  "event_header_validate h =
     (if MAX_EVENT_PAYLOAD_SIZE < eh_payload_len h
      then Err (Validation (PayloadLengthInvalid (eh_payload_len h) MAX_EVENT_PAYLOAD_SIZE))
      else Ok ())"

definition event_header_new :: "event_type \<Rightarrow> int \<Rightarrow> u64 \<Rightarrow> u64 option \<Rightarrow> event_visibility \<Rightarrow> u32 \<Rightarrow> event_header" where
  "event_header_new t timestamp actor_id session_id visibility payload_len =
     \<lparr>eh_event_id = 0, eh_event_type = t, eh_timestamp = timestamp, eh_actor_id = actor_id, eh_session_id = session_id,
      eh_visibility = visibility, eh_payload_len = payload_len\<rparr>"

section \<open>Payloads\<close>

type_synonym string_map = "(string \<times> string) list"

definition invalid :: "string \<Rightarrow> 'a outcome" where
  "invalid msg = Err (Validation (ValidationGeneric msg))"

text \<open>A sequence of checks, each with the message of its failure; the first that fails counts.\<close>

fun checks :: "(bool \<times> string) list \<Rightarrow> unit outcome" where
  "checks [] = Ok ()"
| "checks ((bad, msg) # cs) = (if bad then invalid msg else checks cs)"

record agent_session_started =
  as_agent_id :: u64
  as_agent_version :: string
  as_session_purpose :: string
  as_metadata :: string_map

definition agent_session_started_validate :: "agent_session_started \<Rightarrow> unit outcome" where
  "agent_session_started_validate p = checks
     [(as_agent_version p = [], ''agent_version cannot be empty''),
      (as_session_purpose p = [], ''session_purpose cannot be empty''),
      (list_ex (\<lambda>(k, _). k = []) (as_metadata p), ''metadata keys cannot be empty'')]"

record agent_operation =
  ao_operation_type :: string
  ao_operation_id :: u64
  ao_target_type :: string
  ao_target_id :: string
  ao_status :: string
  ao_duration_ns :: "int option"
  ao_metadata :: string_map

definition agent_operation_validate :: "agent_operation \<Rightarrow> unit outcome" where
  "agent_operation_validate p = checks
     [(ao_operation_type p = [], ''operation_type cannot be empty''),
      (ao_target_type p = [], ''target_type cannot be empty''),
      (ao_target_id p = [], ''target_id cannot be empty''),
      (ao_status p = [], ''status cannot be empty'')]"

record agent_session_ended =
  ae_agent_id :: u64
  ae_session_id :: u64
  ae_reason :: string
  ae_metadata :: string_map

definition agent_session_ended_validate :: "agent_session_ended \<Rightarrow> unit outcome" where
  "agent_session_ended_validate p = checks
     [(ae_reason p = [], ''reason cannot be empty'')]"

record review_note =
  rv_author :: u64
  rv_target_type :: string
  rv_target_id :: string
  rv_note_text :: string
  rv_visibility :: event_visibility
  rv_references :: "string list"
  rv_created_at :: int

definition review_note_validate :: "review_note \<Rightarrow> unit outcome" where
  "review_note_validate p = checks
     [(rv_note_text p = [], ''note_text cannot be empty''),
      (rv_target_type p \<notin> {''commit'', ''file'', ''symbol'', ''pr''}, ''target_type must be one of: commit, file, symbol, pr (got: '' @ rv_target_type p @ '')'')]"

record review_summary =
  rw_generator_id :: u64
  rw_target_type :: string
  rw_target_id :: string
  rw_summary_text :: string
  rw_confidence :: float_value
  rw_model_id :: string
  rw_prompt_hash :: "string option"
  rw_created_at :: int

definition review_summary_validate :: "(float_value \<Rightarrow> string) \<Rightarrow> review_summary \<Rightarrow> unit outcome" where
  "review_summary_validate show_float p = checks
     [(rw_summary_text p = [], ''summary_text cannot be empty''),
      (float_less (rw_confidence p) (FloatNum 0) \<or> float_less (FloatNum 1) (rw_confidence p),
       ''confidence must be in range [0.0, 1.0] (got: '' @ show_float (rw_confidence p) @ '')'')]"

record time_window =
  tw_start :: int
  tw_end :: int

definition time_window_validate :: "time_window \<Rightarrow> unit outcome" where
  "time_window_validate p = checks
     [(tw_end p < tw_start p, ''time window start must be <= end'')]"

record correlation_hints =
  ci_commit_range :: "string option"
  ci_session_ids :: "u64 list"

record perf_sample =
  ps_metric_name :: string
  ps_dimensions :: string_map
  ps_value :: float_value
  ps_unit :: string
  ps_timestamp_window :: time_window
  ps_correlation_hints :: correlation_hints

definition perf_sample_validate :: "perf_sample \<Rightarrow> unit outcome" where
  "perf_sample_validate p =
     and_then (checks [(ps_metric_name p = [], ''metric_name cannot be empty''), (ps_unit p = [], ''unit cannot be empty'')])
       (\<lambda>_. time_window_validate (ps_timestamp_window p))"

record perf_regression =
  pg_metric_name :: string
  pg_baseline_value :: float_value
  pg_current_value :: float_value
  pg_regression_percent :: float_value
  pg_severity :: string
  pg_detected_at :: int
  pg_likely_cause :: "string option"
  pg_correlated_commits :: "string list"

definition perf_regression_validate :: "perf_regression \<Rightarrow> unit outcome" where
  "perf_regression_validate p = checks
     [(float_less_eq (pg_regression_percent p) (FloatNum 0), ''regression_percent must be > 0''),
      (pg_severity p \<notin> {''minor'', ''moderate'', ''severe''}, ''severity must be one of: minor, moderate, severe (got: '' @ pg_severity p @ '')'')]"

record breakpoint =
  bp_file_path :: string
  bp_line :: u32
  bp_condition :: "string option"
  bp_hit_count :: u32

definition breakpoint_validate :: "breakpoint \<Rightarrow> unit outcome" where
  "breakpoint_validate p = checks
     [(bp_file_path p = [], ''file_path cannot be empty''),
      (bp_line p = 0, ''line must be >= 1'')]"

record debug_references =
  dr_commit_ids :: "string list"
  dr_symbol_names :: "string list"

record debug_session =
  ds_tool :: string
  ds_session_id :: u64
  ds_breakpoints :: "breakpoint list"
  ds_stack_summary :: "string option"
  ds_references :: debug_references

fun breakpoints_validate :: "breakpoint list \<Rightarrow> unit outcome" where
  "breakpoints_validate [] = Ok ()"
| "breakpoints_validate (b # bs) = and_then (breakpoint_validate b) (\<lambda>_. breakpoints_validate bs)"

definition debug_session_validate :: "debug_session \<Rightarrow> unit outcome" where
  "debug_session_validate p =
     (if ds_tool p = [] then invalid ''tool cannot be empty'' else breakpoints_validate (ds_breakpoints p))"

record debug_snapshot =
  dn_session_id :: u64
  dn_snapshot_data :: string
  dn_context :: string_map

definition debug_snapshot_validate :: "debug_snapshot \<Rightarrow> unit outcome" where
  "debug_snapshot_validate p = checks
     [(dn_snapshot_data p = [], ''snapshot_data cannot be empty'')]"

record vcs_commit =
  vc_commit_hash :: string
  vc_author_id :: u64
  vc_commit_message :: string
  vc_changed_files :: "string list"
  vc_parent_commits :: "string list"
  vc_branch :: string
  vc_timestamp :: int

definition vcs_commit_validate :: "vcs_commit \<Rightarrow> unit outcome" where
  "vcs_commit_validate p = checks
     [(vc_commit_hash p = [], ''commit_hash cannot be empty''),
      (vc_branch p = [], ''branch cannot be empty'')]"

record vcs_branch =
  vb_operation :: string
  vb_branch_name :: string
  vb_old_name :: "string option"
  vb_actor_id :: "u64 option"
  vb_timestamp :: int

definition vcs_branch_validate :: "vcs_branch \<Rightarrow> unit outcome" where
  "vcs_branch_validate p = checks
     [(vb_operation p = [], ''operation cannot be empty''),
      (vb_branch_name p = [], ''branch_name cannot be empty''),
      (vb_operation p \<notin> {''create'', ''delete'', ''switch'', ''rename''}, ''operation must be one of: create, delete, switch, rename (got: '' @ vb_operation p @ '')'')]"

section \<open>Filters\<close>

record event_filter =
  ef_event_types :: "event_type list option"
  ef_actor_id :: "u64 option"
  ef_session_id :: "u64 option"
  ef_start_time :: "int option"
  ef_end_time :: "int option"
  ef_visibility_min :: "event_visibility option"
  ef_target_type :: "string option"
  ef_target_id :: "string option"
  ef_limit :: "nat option"

definition event_filter_default :: event_filter where
  "event_filter_default = \<lparr>ef_event_types = None, ef_actor_id = None, ef_session_id = None, ef_start_time = None, ef_end_time = None,
     ef_visibility_min = None, ef_target_type = None, ef_target_id = None, ef_limit = None\<rparr>"

definition event_filter_validate :: "event_filter \<Rightarrow> unit outcome" where
  "event_filter_validate f =
     (case (ef_start_time f, ef_end_time f) of
        (Some start, Some end_time) \<Rightarrow> if end_time < start then invalid ''start_time must be <= end_time'' else Ok ()
      | _ \<Rightarrow> Ok ())"

record event_result =
  er_header :: event_header
  er_payload :: bytes

section \<open>Store\<close>

record event_store =
  es_events :: "u64 \<rightharpoonup> event_header \<times> bytes"
  es_next_id :: u64
  es_max_payload_size :: u32

record event_store_config =
  ec_max_payload_size :: u32
  ec_events_path :: string
  ec_index_path :: string

definition event_store_config_default :: event_store_config where
  "event_store_config_default = \<lparr>ec_max_payload_size = MAX_EVENT_PAYLOAD_SIZE, ec_events_path = ''northstar_events.dat'',
     ec_index_path = ''northstar_events.idx''\<rparr>"

definition event_store_open :: "event_store_config \<Rightarrow> event_store" where
  "event_store_open config = \<lparr>es_events = Map.empty, es_next_id = 1, es_max_payload_size = ec_max_payload_size config\<rparr>"

definition append_event :: "event_header \<Rightarrow> bytes \<Rightarrow> event_store \<Rightarrow> (u64 \<times> event_store) outcome" where
  "append_event header payload s =
     (if unat (es_max_payload_size s) < length payload then Err (Io (IoGeneric ''Payload too large''))
      else
        case checked_add (es_next_id s) 1 of
          None \<Rightarrow> Panic
        | Some n \<Rightarrow>
            Ok (es_next_id s, s\<lparr>es_next_id := n, es_events := (es_events s)(es_next_id s \<mapsto> (header\<lparr>eh_event_id := es_next_id s\<rparr>, payload))\<rparr>))"

definition matches_filter :: "event_header \<Rightarrow> event_filter \<Rightarrow> bool" where
  "matches_filter h f =
     (if (case ef_event_types f of Some ts \<Rightarrow> eh_event_type h \<notin> set ts | None \<Rightarrow> False) then False
      else if (case ef_actor_id f of Some a \<Rightarrow> eh_actor_id h \<noteq> a | None \<Rightarrow> False) then False
      else if (case ef_session_id f of Some i \<Rightarrow> eh_session_id h \<noteq> Some i | None \<Rightarrow> False) then False
      else if (case ef_start_time f of Some t \<Rightarrow> eh_timestamp h < t | None \<Rightarrow> False) then False
      else if (case ef_end_time f of Some t \<Rightarrow> t < eh_timestamp h | None \<Rightarrow> False) then False
      else if (case ef_visibility_min f of Some v \<Rightarrow> eh_visibility h < v | None \<Rightarrow> False) then False
      else True)"

fun query_loop :: "event_filter \<Rightarrow> (event_header \<times> bytes) list \<Rightarrow> event_result list \<Rightarrow> event_result list" where
  "query_loop f [] results = results"
| "query_loop f ((h, payload) # es) results =
     (if matches_filter h f
      then
        let results = results @ [\<lparr>er_header = h, er_payload = payload\<rparr>] in
        case ef_limit f of
          Some limit \<Rightarrow> if limit \<le> length results then results else query_loop f es results
        | None \<Rightarrow> query_loop f es results
      else query_loop f es results)"

definition query_events :: "u64 list \<Rightarrow> event_filter \<Rightarrow> event_store \<Rightarrow> event_result list outcome" where
  "query_events visit f s =
     and_then (event_filter_validate f) (\<lambda>_. Ok (query_loop f (map (the \<circ> es_events s) visit) []))"

definition get_event :: "u64 \<Rightarrow> event_store \<Rightarrow> event_result option" where
  "get_event i s = map_option (\<lambda>(h, payload). \<lparr>er_header = h, er_payload = payload\<rparr>) (es_events s i)"

definition get_session_events :: "u64 list \<Rightarrow> u64 \<Rightarrow> event_store \<Rightarrow> event_result list outcome" where
  "get_session_events visit session_id s = query_events visit (event_filter_default\<lparr>ef_session_id := Some session_id\<rparr>) s"

definition get_actor_events :: "u64 list \<Rightarrow> u64 \<Rightarrow> nat option \<Rightarrow> event_store \<Rightarrow> event_result list outcome" where
  "get_actor_events visit actor_id limit s =
     query_events visit (event_filter_default\<lparr>ef_actor_id := Some actor_id, ef_limit := limit\<rparr>) s"

definition get_events_as_of :: "u64 list \<Rightarrow> int \<Rightarrow> event_store \<Rightarrow> event_result list outcome" where
  "get_events_as_of visit timestamp s = query_events visit (event_filter_default\<lparr>ef_end_time := Some timestamp\<rparr>) s"

definition compact_events :: "int \<Rightarrow> event_store \<Rightarrow> nat" where
  "compact_events retain_after_ns s = 0"

section \<open>What the store keeps and finds\<close>

lemma event_type_raw_roundtrip: "event_type_from_raw (event_type_code t) = Some t"
  by (cases t) (simp_all add: event_type_from_raw_def)

fun append_events :: "(event_header \<times> bytes) list \<Rightarrow> event_store \<Rightarrow> event_store outcome" where
  "append_events [] s = Ok s"
| "append_events ((h, p) # es) s = and_then (append_event h p s) (\<lambda>(_, s). append_events es s)"

lemma append_events_get:
  assumes "append_events es s = Ok s'"
  shows "unat (es_next_id s') = unat (es_next_id s) + length es \<and>
    (\<forall>i. es_events s' i =
       (if unat (es_next_id s) \<le> unat i \<and> unat i < unat (es_next_id s) + length es
        then Some (apfst (\<lambda>h. h\<lparr>eh_event_id := i\<rparr>) (es ! (unat i - unat (es_next_id s))))
        else es_events s i))"
  using assms
proof (induction es arbitrary: s)
  case (Cons e es)
  obtain h p where e: "e = (h, p)" by force
  obtain n where n: "checked_add (es_next_id s) 1 = Some n"
    and rest: "append_events es (s\<lparr>es_next_id := n, es_events := (es_events s)(es_next_id s \<mapsto> (h\<lparr>eh_event_id := es_next_id s\<rparr>, p))\<rparr>) = Ok s'"
    using Cons.prems by (auto simp: e append_event_def and_then_split split: if_splits option.splits)
  have un: "unat n = unat (es_next_id s) + 1" using checked_add_Some [OF n] by simp
  have neq: "unat i \<noteq> unat (es_next_id s)" if "i \<noteq> es_next_id s" for i using that by (simp add: word_unat_eq_iff)
  note IH = Cons.IH [OF rest, simplified]
  have "es_events s' i =
       (if unat (es_next_id s) \<le> unat i \<and> unat i < unat (es_next_id s) + length (e # es)
        then Some (apfst (\<lambda>h. h\<lparr>eh_event_id := i\<rparr>) ((e # es) ! (unat i - unat (es_next_id s))))
        else es_events s i)" for i
    using IH un neq [of i] by (cases "i = es_next_id s") (auto simp: e nth_Cons')
  with IH un show ?case by simp
qed auto

lemma query_loop_filter:
  "query_loop f es rs =
     (case ef_limit f of
        None \<Rightarrow> rs @ map (\<lambda>(h, p). \<lparr>er_header = h, er_payload = p\<rparr>) (filter (\<lambda>(h, _). matches_filter h f) es)
      | Some n \<Rightarrow> rs @ take (max 1 (n - length rs)) (map (\<lambda>(h, p). \<lparr>er_header = h, er_payload = p\<rparr>) (filter (\<lambda>(h, _). matches_filter h f) es)))"
proof (induction f es rs rule: query_loop.induct)
  case (2 f h payload es rs)
  then show ?case
    by (cases "ef_limit f") (auto simp: Let_def max_def take_Cons' Suc_diff_le not_le)
qed (auto split: option.splits)

text \<open>
  The event store keeps every event. The events appended to a new store get the numbers 1, 2, 3 and so on in their order,
  each number gives back the header under this number and the payload it was appended with, whatever was
  appended later, and no other number gives anything.
\<close>

theorem event_store_keeps:
  assumes "append_events es (event_store_open config) = Ok s"
  shows "get_event i s =
    (if 1 \<le> unat i \<and> unat i \<le> length es
     then Some \<lparr>er_header = (fst (es ! (unat i - 1)))\<lparr>eh_event_id := i\<rparr>, er_payload = snd (es ! (unat i - 1))\<rparr>
     else None)"
  using append_events_get [OF assms] by (auto simp: event_store_open_def get_event_def case_prod_beta)

text \<open>The events a filter asks for, criterion by criterion; the target type and id of a filter are not looked at.\<close>

definition stored_match :: "event_filter \<Rightarrow> event_store \<Rightarrow> u64 set" where
  "stored_match f s = {i. \<exists>h p. es_events s i = Some (h, p) \<and>
     (\<forall>ts. ef_event_types f = Some ts \<longrightarrow> eh_event_type h \<in> set ts) \<and>
     (\<forall>a. ef_actor_id f = Some a \<longrightarrow> eh_actor_id h = a) \<and>
     (\<forall>n. ef_session_id f = Some n \<longrightarrow> eh_session_id h = Some n) \<and>
     (\<forall>t. ef_start_time f = Some t \<longrightarrow> t \<le> eh_timestamp h) \<and>
     (\<forall>t. ef_end_time f = Some t \<longrightarrow> eh_timestamp h \<le> t) \<and>
     (\<forall>v. ef_visibility_min f = Some v \<longrightarrow> v \<le> eh_visibility h)}"

lemma matches_filter_iff:
  "matches_filter h f \<longleftrightarrow>
     (\<forall>ts. ef_event_types f = Some ts \<longrightarrow> eh_event_type h \<in> set ts) \<and>
     (\<forall>a. ef_actor_id f = Some a \<longrightarrow> eh_actor_id h = a) \<and>
     (\<forall>n. ef_session_id f = Some n \<longrightarrow> eh_session_id h = Some n) \<and>
     (\<forall>t. ef_start_time f = Some t \<longrightarrow> t \<le> eh_timestamp h) \<and>
     (\<forall>t. ef_end_time f = Some t \<longrightarrow> eh_timestamp h \<le> t) \<and>
     (\<forall>v. ef_visibility_min f = Some v \<longrightarrow> v \<le> eh_visibility h)"
  by (auto simp: matches_filter_def not_less split: option.splits)

definition event_at :: "event_store \<Rightarrow> u64 \<Rightarrow> event_result" where
  "event_at s i = \<lparr>er_header = fst (the (es_events s i)), er_payload = snd (the (es_events s i))\<rparr>"

lemma query_events_visit:
  assumes "event_filter_validate f = Ok ()"
  shows "query_events visit f s = Ok
    (let found = map (event_at s) (filter (\<lambda>i. matches_filter (fst (the (es_events s i))) f) visit)
     in case ef_limit f of None \<Rightarrow> found | Some n \<Rightarrow> take (max 1 n) found)"
  using assms by (simp add: query_events_def query_loop_filter Let_def filter_map comp_def case_prod_beta event_at_def [abs_def] split: option.splits)

text \<open>
  C34. Queries are exact, up to a limit. Whatever order an iteration visits the events of a store in, a query with valid times
  succeeds. Without a limit it returns exactly the stored events that meet every given criterion: the type is one of those
  listed, the actor and the session are those asked for, the time lies in the interval and the visibility is
  high enough. With a limit it returns only such events, as many as there are up to the limit, except that a limit of
  zero counts as one. The target type and target id of the filter change nothing.
\<close>

theorem event_query_exact:
  assumes "set visit = dom (es_events s)" "distinct visit"
    "\<And>t u. ef_start_time f = Some t \<Longrightarrow> ef_end_time f = Some u \<Longrightarrow> t \<le> u"
  shows "\<exists>rs. query_events visit f s = Ok rs \<and> set rs \<subseteq> event_at s ` stored_match f s \<and>
    (ef_limit f = None \<longrightarrow> set rs = event_at s ` stored_match f s \<and> length rs = card (stored_match f s)) \<and>
    (\<forall>n. ef_limit f = Some n \<longrightarrow> length rs = min (max 1 n) (card (stored_match f s))) \<and>
    (\<forall>ty id. query_events visit (f\<lparr>ef_target_type := ty, ef_target_id := id\<rparr>) s = Ok rs)"
proof -
  have "event_filter_validate f = Ok ()"
    using assms(3) by (force simp: event_filter_validate_def not_le [symmetric] split: option.splits)
  note q = query_events_visit [OF this, of visit s]
  let ?ids = "filter (\<lambda>i. matches_filter (fst (the (es_events s i))) f) visit"
  have ids: "set ?ids = stored_match f s" using assms(1) by (auto simp: stored_match_def matches_filter_iff)
  have "length ?ids = card (stored_match f s)" using distinct_card [of ?ids] assms(2) ids by simp
  moreover have "set (take n (map (event_at s) ?ids)) \<subseteq> event_at s ` stored_match f s" for n
    using set_take_subset [of n "map (event_at s) ?ids"] ids by simp
  moreover have "query_events visit (f\<lparr>ef_target_type := ty, ef_target_id := id\<rparr>) s = query_events visit f s" for ty id
  proof -
    have "event_filter_validate (f\<lparr>ef_target_type := ty, ef_target_id := id\<rparr>) = Ok ()"
      using \<open>event_filter_validate f = Ok ()\<close> by (simp add: event_filter_validate_def)
    from query_events_visit [OF this, of visit s] q show ?thesis by (simp add: matches_filter_def)
  qed
  ultimately show ?thesis using q ids by (cases "ef_limit f") (simp_all add: Let_def min.commute)
qed

definition sample_events :: "(event_header \<times> bytes) list" where
  "sample_events = [(event_header_new EtVcsCommit 5 1 None VisTeam 1, [1]), (event_header_new EtPerfSample 6 2 None VisPublic 0, [])]"

lemma sample_store:
  obtains s where "append_events sample_events (event_store_open event_store_config_default) = Ok s" "dom (es_events s) = {1, 2}"
proof -
  have "\<exists>s. append_events sample_events (event_store_open event_store_config_default) = Ok s \<and> dom (es_events s) = {1, 2}"
    by (auto simp: sample_events_def append_event_def event_store_open_def event_store_config_default_def MAX_EVENT_PAYLOAD_SIZE_def checked_add_def)
  with that show ?thesis by blast
qed

theorem event_store_keeps_witness:
  "\<exists>s. append_events sample_events (event_store_open event_store_config_default) = Ok s \<and> map_option er_payload (get_event 1 s) = Some [1]"
proof -
  obtain s where s: "append_events sample_events (event_store_open event_store_config_default) = Ok s" by (rule sample_store)
  moreover have "map_option er_payload (get_event 1 s) = Some [1]" using event_store_keeps [OF s, of 1] by (simp add: sample_events_def)
  ultimately show ?thesis by blast
qed

theorem event_query_exact_witness:
  "\<exists>s. append_events sample_events (event_store_open event_store_config_default) = Ok s \<and>
     (\<exists>rs. query_events [2, 1] (event_filter_default\<lparr>ef_limit := Some 0\<rparr>) s = Ok rs \<and> length rs = 1)"
proof -
  obtain s where s: "append_events sample_events (event_store_open event_store_config_default) = Ok s" "dom (es_events s) = {1, 2}"
    by (rule sample_store)
  from s(2) have "set [2, 1] = dom (es_events s)" by auto
  from event_query_exact [OF this, of "event_filter_default\<lparr>ef_limit := Some 0\<rparr>"]
  obtain rs where rs: "query_events [2, 1] (event_filter_default\<lparr>ef_limit := Some 0\<rparr>) s = Ok rs"
    "length rs = min 1 (card (stored_match (event_filter_default\<lparr>ef_limit := Some 0\<rparr>) s))"
    by (auto simp: event_filter_default_def)
  have "stored_match (event_filter_default\<lparr>ef_limit := Some 0\<rparr>) s = dom (es_events s)"
    by (auto simp: stored_match_def event_filter_default_def)
  with rs s show ?thesis by auto
qed

end
