(* ===== verification/Degradation.thy ===== *)
theory Degradation
  imports Prelude Floats Step_Runs
begin

text \<open>
  Graceful degradation: \<^verbatim>\<open>degradation/state.rs\<close>, \<^verbatim>\<open>degradation/monitor.rs\<close>, \<^verbatim>\<open>degradation/policy.rs\<close> and
  \<^verbatim>\<open>degradation/fallback.rs\<close>. Durations and instants are nanoseconds and the current instant is the argument \<open>now\<close>. The order in
  which a hash set is visited and the floating point operations (a hit rate in percent, milliseconds as a
  floating point number) are arguments. The trend and the average of the monitor, which nothing uses, are left out.
\<close>

section \<open>state.rs\<close>

datatype degradation_level = LvFull | LvReduced | LvMinimal | LvMaintenance | LvEmergency

fun level_rank :: "degradation_level \<Rightarrow> nat" where
  "level_rank LvFull = 0"
| "level_rank LvReduced = 1"
| "level_rank LvMinimal = 2"
| "level_rank LvMaintenance = 3"
| "level_rank LvEmergency = 4"

instantiation degradation_level :: linorder
begin

definition less_eq_degradation_level :: "degradation_level \<Rightarrow> degradation_level \<Rightarrow> bool" where
  "less_eq_degradation_level a b \<longleftrightarrow> level_rank a \<le> level_rank b"

definition less_degradation_level :: "degradation_level \<Rightarrow> degradation_level \<Rightarrow> bool" where
  "less_degradation_level a b \<longleftrightarrow> level_rank a < level_rank b"

instance
proof
  fix a b c :: degradation_level
  show "a < b \<longleftrightarrow> a \<le> b \<and> \<not> b \<le> a" by (auto simp: less_eq_degradation_level_def less_degradation_level_def)
  show "a \<le> a" by (simp add: less_eq_degradation_level_def)
  show "a \<le> b \<Longrightarrow> b \<le> c \<Longrightarrow> a \<le> c" by (simp add: less_eq_degradation_level_def)
  show "a \<le> b \<Longrightarrow> b \<le> a \<Longrightarrow> a = b" by (cases a; cases b) (simp_all add: less_eq_degradation_level_def)
  show "a \<le> b \<or> b \<le> a" by (auto simp: less_eq_degradation_level_def)
qed

end

definition allows_writes :: "degradation_level \<Rightarrow> bool" where
  "allows_writes l \<longleftrightarrow> l \<in> {LvFull, LvReduced, LvMinimal}"

definition allows_ai :: "degradation_level \<Rightarrow> bool" where
  "allows_ai l \<longleftrightarrow> l \<in> {LvFull, LvReduced}"

definition allows_background_tasks :: "degradation_level \<Rightarrow> bool" where
  "allows_background_tasks l \<longleftrightarrow> l \<in> {LvFull, LvReduced}"

datatype degradation_trigger =
    MemoryPressure | DiskSpaceLow | CpuSaturation | ConnectionPoolExhausted | CacheEvictionRateHigh | WriteLatencyHigh | ReadLatencyHigh
  | ExternalServiceUnavailable | ManualOverride

datatype degradation_action =
    ReduceCacheSize | DisableBackgroundTasks | ThrottleWrites | RejectNonCriticalQueries | SwitchToReadOnly | FlushCaches
  | ReduceConnectionPool | DisableAiFeatures | EnableFastPath

record recovery_condition =
  rd_metric_name :: string
  rd_threshold :: float_value
  rd_duration :: nat

definition recovery_condition_new :: "string \<Rightarrow> rat \<Rightarrow> nat \<Rightarrow> recovery_condition" where
  "recovery_condition_new metric_name threshold secs =
     \<lparr>rd_metric_name = metric_name, rd_threshold = FloatNum threshold, rd_duration = secs * 1000000000\<rparr>"

record degradation_policy =
  dp_level :: degradation_level
  dp_triggers :: "degradation_trigger list"
  dp_actions :: "degradation_action list"
  dp_recovery_conditions :: "recovery_condition list"
  dp_min_duration :: nat
  dp_max_duration :: "nat option"

definition degradation_policy_new :: "degradation_level \<Rightarrow> nat \<Rightarrow> degradation_policy" where
  "degradation_policy_new level min_duration =
     \<lparr>dp_level = level, dp_triggers = [], dp_actions = [], dp_recovery_conditions = [], dp_min_duration = min_duration, dp_max_duration = None\<rparr>"

definition with_trigger :: "degradation_trigger \<Rightarrow> degradation_policy \<Rightarrow> degradation_policy" where
  "with_trigger t p = p\<lparr>dp_triggers := dp_triggers p @ [t]\<rparr>"

definition with_action :: "degradation_action \<Rightarrow> degradation_policy \<Rightarrow> degradation_policy" where
  "with_action a p = p\<lparr>dp_actions := dp_actions p @ [a]\<rparr>"

definition with_recovery_condition :: "recovery_condition \<Rightarrow> degradation_policy \<Rightarrow> degradation_policy" where
  "with_recovery_condition c p = p\<lparr>dp_recovery_conditions := dp_recovery_conditions p @ [c]\<rparr>"

definition with_max_duration :: "nat \<Rightarrow> degradation_policy \<Rightarrow> degradation_policy" where
  "with_max_duration d p = p\<lparr>dp_max_duration := Some d\<rparr>"

record degradation_config =
  dc_enabled :: bool
  dc_policies :: "degradation_policy list"
  dc_monitoring_interval :: nat
  dc_flap_threshold :: u32
  dc_auto_recovery :: bool
  dc_recovery_check_interval :: nat
  dc_emergency_shutdown_timeout :: nat

definition degradation_config_default :: degradation_config where
  "degradation_config_default = \<lparr>dc_enabled = True, dc_policies = [], dc_monitoring_interval = 5000000000, dc_flap_threshold = 5,
     dc_auto_recovery = True, dc_recovery_check_interval = 30000000000, dc_emergency_shutdown_timeout = 60000000000\<rparr>"

definition with_policy :: "degradation_policy \<Rightarrow> degradation_config \<Rightarrow> degradation_config" where
  "with_policy p c = c\<lparr>dc_policies := dc_policies c @ [p]\<rparr>"

definition policy_for_level :: "degradation_level \<Rightarrow> degradation_config \<Rightarrow> degradation_policy option" where
  "policy_for_level level c = find (\<lambda>p. dp_level p = level) (dc_policies c)"

record degradation_state =
  dg_current_level :: degradation_level
  dg_previous_level :: degradation_level
  dg_level_since :: nat
  dg_active_triggers :: "degradation_trigger list"
  dg_active_actions :: "degradation_action list"
  dg_recovery_attempt_count :: u32
  dg_last_transition :: nat
  dg_flap_count :: u32

definition degradation_state_new :: "nat \<Rightarrow> degradation_state" where
  "degradation_state_new now =
     \<lparr>dg_current_level = LvFull, dg_previous_level = LvFull, dg_level_since = now, dg_active_triggers = [], dg_active_actions = [],
      dg_recovery_attempt_count = 0, dg_last_transition = now, dg_flap_count = 0\<rparr>"

definition transition_to :: "nat \<Rightarrow> degradation_level \<Rightarrow> degradation_trigger list \<Rightarrow> degradation_state \<Rightarrow> (string, degradation_state) res" where
  "transition_to now new_level triggers s =
     (let moved = s\<lparr>dg_previous_level := dg_current_level s, dg_current_level := new_level, dg_level_since := now, dg_last_transition := now,
                   dg_active_triggers := triggers\<rparr>
      in if now - dg_level_since s < 30000000000
         then (case checked_add (dg_flap_count s) 1 of Some n \<Rightarrow> Ok (moved\<lparr>dg_flap_count := n\<rparr>) | None \<Rightarrow> Panic)
         else Ok moved)"

definition time_in_level :: "nat \<Rightarrow> degradation_state \<Rightarrow> nat" where
  "time_in_level now s = now - dg_level_since s"

definition is_unstable :: "u32 \<Rightarrow> degradation_state \<Rightarrow> bool" where
  "is_unstable flap_threshold s \<longleftrightarrow> flap_threshold \<le> dg_flap_count s"

definition increment_recovery_attempts :: "degradation_state \<Rightarrow> (string, degradation_state) res" where
  "increment_recovery_attempts s =
     (case checked_add (dg_recovery_attempt_count s) 1 of Some n \<Rightarrow> Ok (s\<lparr>dg_recovery_attempt_count := n\<rparr>) | None \<Rightarrow> Panic)"

section \<open>monitor.rs\<close>

record resource_snapshot =
  sn_timestamp :: nat
  sn_memory_free_percent :: float_value
  sn_disk_free_percent :: float_value
  sn_cpu_usage_percent :: float_value
  sn_connection_pool_free :: u32
  sn_cache_hit_rate :: float_value
  sn_write_latency_p99 :: nat
  sn_read_latency_p99 :: nat

definition in_percent :: "rat \<Rightarrow> float_value \<Rightarrow> bool" where
  "in_percent limit x \<longleftrightarrow> float_less_eq (FloatNum 0) x \<and> float_less_eq x (FloatNum limit)"

definition resource_snapshot_validate :: "resource_snapshot \<Rightarrow> bool" where
  "resource_snapshot_validate r \<longleftrightarrow> in_percent 100 (sn_memory_free_percent r) \<and> in_percent 100 (sn_disk_free_percent r) \<and>
     in_percent 100 (sn_cpu_usage_percent r) \<and> in_percent 1 (sn_cache_hit_rate r)"

record resource_thresholds =
  th_memory_warning_percent :: float_value
  th_memory_critical_percent :: float_value
  th_disk_warning_percent :: float_value
  th_disk_critical_percent :: float_value
  th_cpu_warning_percent :: float_value
  th_cpu_critical_percent :: float_value
  th_latency_warning_ms :: u64
  th_latency_critical_ms :: u64

definition resource_thresholds_default :: resource_thresholds where
  "resource_thresholds_default =
     \<lparr>th_memory_warning_percent = FloatNum 20, th_memory_critical_percent = FloatNum 10, th_disk_warning_percent = FloatNum 10,
      th_disk_critical_percent = FloatNum 5, th_cpu_warning_percent = FloatNum 80, th_cpu_critical_percent = FloatNum 90,
      th_latency_warning_ms = 500, th_latency_critical_ms = 1000\<rparr>"

definition resource_thresholds_validate :: "resource_thresholds \<Rightarrow> bool" where
  "resource_thresholds_validate t \<longleftrightarrow>
     float_less_eq (th_memory_critical_percent t) (th_memory_warning_percent t) \<and>
     float_less_eq (th_disk_critical_percent t) (th_disk_warning_percent t) \<and>
     float_less_eq (th_cpu_warning_percent t) (th_cpu_critical_percent t) \<and>
     th_latency_warning_ms t \<le> th_latency_critical_ms t \<and>
     float_less (FloatNum 0) (th_memory_critical_percent t) \<and> float_less (FloatNum 0) (th_disk_critical_percent t)"

record resource_monitor =
  mn_config :: degradation_config
  mn_thresholds :: resource_thresholds
  mn_history :: "resource_snapshot list"
  mn_max_history_size :: nat

definition resource_monitor_new :: "degradation_config \<Rightarrow> resource_monitor" where
  "resource_monitor_new config =
     \<lparr>mn_config = config, mn_thresholds = resource_thresholds_default, mn_history = [], mn_max_history_size = 100\<rparr>"

definition with_thresholds :: "resource_thresholds \<Rightarrow> resource_monitor \<Rightarrow> resource_monitor" where
  "with_thresholds t m = m\<lparr>mn_thresholds := t\<rparr>"

text \<open>Appending to a bounded deque: the oldest entry makes room.\<close>

definition push_bounded :: "nat \<Rightarrow> 'a \<Rightarrow> 'a list \<Rightarrow> 'a list" where
  "push_bounded limit x xs = (if limit \<le> length xs then tl xs else xs) @ [x]"

definition add_resource_snapshot :: "resource_snapshot \<Rightarrow> resource_monitor \<Rightarrow> resource_monitor" where
  "add_resource_snapshot r m = m\<lparr>mn_history := push_bounded (mn_max_history_size m) r (mn_history m)\<rparr>"

definition latest_resource_snapshot :: "resource_monitor \<Rightarrow> resource_snapshot option" where
  "latest_resource_snapshot m = (if mn_history m = [] then None else Some (last (mn_history m)))"

definition check_consecutive :: "nat \<Rightarrow> (resource_snapshot \<Rightarrow> bool) \<Rightarrow> resource_monitor \<Rightarrow> bool" where
  "check_consecutive n predicate m \<longleftrightarrow> n \<le> length (mn_history m) \<and> list_all predicate (take n (rev (mn_history m)))"

definition monitor_resources :: "resource_monitor \<Rightarrow> resource_snapshot \<Rightarrow> degradation_trigger list" where
  "monitor_resources m r =
     (let t = mn_thresholds m in
      (if float_less (sn_memory_free_percent r) (th_memory_critical_percent t) then [MemoryPressure] else []) @
      (if float_less (sn_disk_free_percent r) (th_disk_critical_percent t) then [DiskSpaceLow] else []) @
      (if sn_connection_pool_free r = 0 then [ConnectionPoolExhausted] else []) @
      (if float_less (sn_cache_hit_rate r) (FloatNum (1 / 2)) then [CacheEvictionRateHigh] else []) @
      (if th_latency_critical_ms t < word_of_nat (sn_write_latency_p99 r div 1000000) then [WriteLatencyHigh] else []) @
      (if th_latency_critical_ms t < word_of_nat (sn_read_latency_p99 r div 1000000) then [ReadLatencyHigh] else []))"

section \<open>fallback.rs\<close>

datatype fallback_mode =
    CacheDisabled | AiDisabled | BackgroundTasksPaused | WriteThrottled | ReadThrottled | QueryOptimizationDisabled | IndexSeekDisabled
  | CompressionDisabled

definition fallback_mode_all :: "fallback_mode list" where
  "fallback_mode_all = [CacheDisabled, AiDisabled, BackgroundTasksPaused, WriteThrottled, ReadThrottled, QueryOptimizationDisabled,
     IndexSeekDisabled, CompressionDisabled]"

definition conflicts_with :: "fallback_mode \<Rightarrow> fallback_mode \<Rightarrow> bool" where
  "conflicts_with a b \<longleftrightarrow> a = b \<and> a \<in> {CacheDisabled, AiDisabled, BackgroundTasksPaused, WriteThrottled, ReadThrottled}"

record transition_event =
  te_mode :: fallback_mode
  te_activated :: bool
  te_timestamp :: nat
  te_trigger :: degradation_trigger

record fallback_manager =
  fb_active_modes :: "fallback_mode set"
  fb_transition_history :: "transition_event list"
  fb_config :: degradation_config
  fb_max_history_size :: nat

definition fallback_manager_new :: "degradation_config \<Rightarrow> fallback_manager" where
  "fallback_manager_new config = \<lparr>fb_active_modes = {}, fb_transition_history = [], fb_config = config, fb_max_history_size = 50\<rparr>"

definition record_transition :: "nat \<Rightarrow> fallback_mode \<Rightarrow> bool \<Rightarrow> degradation_trigger \<Rightarrow> fallback_manager \<Rightarrow> fallback_manager" where
  "record_transition now mode activated trigger m =
     m\<lparr>fb_transition_history := push_bounded (fb_max_history_size m)
         \<lparr>te_mode = mode, te_activated = activated, te_timestamp = now, te_trigger = trigger\<rparr> (fb_transition_history m)\<rparr>"

definition activate :: "nat \<Rightarrow> fallback_mode \<Rightarrow> degradation_trigger \<Rightarrow> fallback_manager \<Rightarrow> fallback_manager" where
  "activate now mode trigger m =
     (if mode \<notin> fb_active_modes m
      then record_transition now mode True trigger (m\<lparr>fb_active_modes := insert mode (fb_active_modes m)\<rparr>)
      else m)"

definition deactivate :: "nat \<Rightarrow> fallback_mode \<Rightarrow> degradation_trigger \<Rightarrow> fallback_manager \<Rightarrow> fallback_manager" where
  "deactivate now mode trigger m =
     (if mode \<in> fb_active_modes m
      then record_transition now mode False trigger (m\<lparr>fb_active_modes := fb_active_modes m - {mode}\<rparr>)
      else m)"

text \<open>The argument \<open>visit\<close> lists the active modes in the order of the iteration.\<close>

definition deactivate_all :: "nat \<Rightarrow> fallback_mode list \<Rightarrow> degradation_trigger \<Rightarrow> fallback_manager \<Rightarrow> fallback_manager" where
  "deactivate_all now visit trigger m = fold (\<lambda>mode. deactivate now mode trigger) visit m"

definition transition_count :: "fallback_mode \<Rightarrow> fallback_manager \<Rightarrow> nat" where
  "transition_count mode m = length (filter (\<lambda>e. te_mode e = mode) (fb_transition_history m))"

fun execute_action :: "nat \<Rightarrow> degradation_action \<Rightarrow> fallback_manager \<Rightarrow> fallback_manager" where
  "execute_action now ReduceCacheSize m = activate now CacheDisabled MemoryPressure m"
| "execute_action now DisableBackgroundTasks m = activate now BackgroundTasksPaused CpuSaturation m"
| "execute_action now ThrottleWrites m = activate now WriteThrottled WriteLatencyHigh m"
| "execute_action now RejectNonCriticalQueries m = activate now QueryOptimizationDisabled CpuSaturation m"
| "execute_action now SwitchToReadOnly m = m"
| "execute_action now FlushCaches m = activate now CacheDisabled MemoryPressure m"
| "execute_action now ReduceConnectionPool m = m"
| "execute_action now DisableAiFeatures m = activate now AiDisabled ExternalServiceUnavailable m"
| "execute_action now EnableFastPath m = activate now CompressionDisabled CpuSaturation m"

definition execute_degradation_actions ::
  "nat \<Rightarrow> degradation_level \<Rightarrow> degradation_action list \<Rightarrow> fallback_manager \<Rightarrow> fallback_manager" where
  "execute_degradation_actions now level actions m = fold (execute_action now) actions m"

section \<open>policy.rs\<close>

text \<open>The level proposed, unless a recent stay in a worse level is still within its minimum duration.\<close>

definition hold_level :: "nat \<Rightarrow> degradation_level \<Rightarrow> degradation_config \<Rightarrow> degradation_state \<Rightarrow> degradation_level" where
  "hold_level now proposed config s =
     (case policy_for_level proposed config of
        Some p \<Rightarrow> if time_in_level now s < dp_min_duration p \<and> proposed < dg_current_level s then dg_current_level s else proposed
      | None \<Rightarrow> proposed)"

definition evaluate_degradation_level ::
  "nat \<Rightarrow> degradation_state \<Rightarrow> degradation_trigger list \<Rightarrow> degradation_config \<Rightarrow> degradation_level" where
  "evaluate_degradation_level now s triggers config =
     (if triggers = [] then LvFull
      else if list_ex (\<lambda>t. t \<in> {MemoryPressure, CpuSaturation, ConnectionPoolExhausted}) triggers then hold_level now LvMinimal config s
      else hold_level now LvReduced config s)"

definition metric_value ::
  "(float_value \<Rightarrow> float_value) \<Rightarrow> (nat \<Rightarrow> float_value) \<Rightarrow> string \<Rightarrow> resource_snapshot \<Rightarrow> float_value option" where
  "metric_value percent float_of_nat name r =
     (if name = ''memory_free_percent'' then Some (sn_memory_free_percent r)
      else if name = ''disk_free_percent'' then Some (sn_disk_free_percent r)
      else if name = ''cpu_usage_percent'' then Some (sn_cpu_usage_percent r)
      else if name = ''cache_hit_rate'' then Some (percent (sn_cache_hit_rate r))
      else if name = ''write_latency_p99_ms'' then Some (float_of_nat (sn_write_latency_p99 r div 1000000))
      else if name = ''read_latency_p99_ms'' then Some (float_of_nat (sn_read_latency_p99 r div 1000000))
      else None)"

definition condition_met ::
  "(float_value \<Rightarrow> float_value) \<Rightarrow> (nat \<Rightarrow> float_value) \<Rightarrow> resource_snapshot \<Rightarrow> recovery_condition \<Rightarrow> bool" where
  "condition_met percent float_of_nat r c =
     (case metric_value percent float_of_nat (rd_metric_name c) r of
        None \<Rightarrow> True
      | Some v \<Rightarrow>
          if rd_metric_name c \<in> {''memory_free_percent'', ''disk_free_percent'', ''cache_hit_rate''} then float_less_eq (rd_threshold c) v
          else float_less_eq v (rd_threshold c))"

definition check_recovery_conditions ::
  "(float_value \<Rightarrow> float_value) \<Rightarrow> (nat \<Rightarrow> float_value) \<Rightarrow> nat \<Rightarrow> degradation_state \<Rightarrow> resource_monitor \<Rightarrow> degradation_config \<Rightarrow> bool" where
  "check_recovery_conditions percent float_of_nat now s monitor config =
     (if dg_current_level s = LvFull then True
      else case policy_for_level (dg_current_level s) config of
             None \<Rightarrow> False
           | Some p \<Rightarrow>
               if time_in_level now s < dp_min_duration p then False
               else case latest_resource_snapshot monitor of
                      None \<Rightarrow> False
                    | Some r \<Rightarrow> list_all (condition_met percent float_of_nat r) (dp_recovery_conditions p))"

definition recover_to_full ::
  "nat \<Rightarrow> fallback_mode list \<Rightarrow> degradation_state \<Rightarrow> fallback_manager \<Rightarrow> (string, degradation_state \<times> fallback_manager) res" where
  "recover_to_full now visit s m =
     (if dg_current_level s = LvFull then Ok (s, m)
      else
        let m = deactivate_all now visit ManualOverride m in
        and_then (transition_to now LvFull [] s) (\<lambda>s. Ok (s\<lparr>dg_recovery_attempt_count := 0\<rparr>, m)))"

definition attempt_recovery ::
  "(float_value \<Rightarrow> float_value) \<Rightarrow> (nat \<Rightarrow> float_value) \<Rightarrow> nat \<Rightarrow> fallback_mode list \<Rightarrow> resource_monitor \<Rightarrow> degradation_config \<Rightarrow>
   degradation_state \<Rightarrow> fallback_manager \<Rightarrow> (string, bool \<times> degradation_state \<times> fallback_manager) res" where
  "attempt_recovery percent float_of_nat now visit monitor config s m =
     (if \<not> check_recovery_conditions percent float_of_nat now s monitor config then Ok (False, s, m)
      else and_then (recover_to_full now visit s m) (\<lambda>(s, m). Ok (True, s, m)))"

definition get_actions_for_level :: "degradation_level \<Rightarrow> degradation_config \<Rightarrow> degradation_action list" where
  "get_actions_for_level level config = (case policy_for_level level config of Some p \<Rightarrow> dp_actions p | None \<Rightarrow> [])"

definition create_default_policies :: "degradation_policy list" where
  "create_default_policies =
     [with_recovery_condition (recovery_condition_new ''cpu_usage_percent'' 75 60)
        (with_recovery_condition (recovery_condition_new ''memory_free_percent'' 20 60)
          (fold with_action [ReduceCacheSize, ThrottleWrites]
            (fold with_trigger [MemoryPressure, DiskSpaceLow, CpuSaturation, ConnectionPoolExhausted, CacheEvictionRateHigh, WriteLatencyHigh, ReadLatencyHigh]
              (degradation_policy_new LvReduced 30000000000)))),
      with_recovery_condition (recovery_condition_new ''memory_free_percent'' 15 120)
        (fold with_action [FlushCaches, DisableBackgroundTasks, DisableAiFeatures, RejectNonCriticalQueries]
          (fold with_trigger [MemoryPressure, CpuSaturation] (degradation_policy_new LvMinimal 60000000000))),
      with_recovery_condition (recovery_condition_new ''disk_free_percent'' 10 60)
        (fold with_action [SwitchToReadOnly, DisableBackgroundTasks] (degradation_policy_new LvMaintenance 30000000000))]"

section \<open>What the fallback manager and recovery keep\<close>

definition last_event :: "fallback_mode \<Rightarrow> transition_event list \<Rightarrow> transition_event option" where
  "last_event mode es = find (\<lambda>e. te_mode e = mode) (rev es)"

definition fallback_inv :: "fallback_manager \<Rightarrow> bool" where
  "fallback_inv m \<longleftrightarrow> 0 < fb_max_history_size m \<and> length (fb_transition_history m) \<le> fb_max_history_size m \<and>
     (\<forall>mode e. last_event mode (fb_transition_history m) = Some e \<longrightarrow> te_activated e \<longleftrightarrow> mode \<in> fb_active_modes m)"

lemma last_event_append [simp]:
  "last_event mode (es @ [e]) = (if te_mode e = mode then Some e else last_event mode es)"
  by (simp add: last_event_def)

lemma find_append: "find P (xs @ ys) = (case find P xs of None \<Rightarrow> find P ys | Some x \<Rightarrow> Some x)"
  by (induction xs) auto

lemma last_event_tl: "last_event mode (tl es) = Some e \<Longrightarrow> last_event mode es = Some e"
  by (cases es) (auto simp: last_event_def find_append split: option.splits)

lemma record_transition_inv:
  assumes "fallback_inv m"
  shows "fallback_inv (record_transition now mode True trigger (m\<lparr>fb_active_modes := insert mode (fb_active_modes m)\<rparr>))"
    "fallback_inv (record_transition now mode False trigger (m\<lparr>fb_active_modes := fb_active_modes m - {mode}\<rparr>))"
  using assms by (auto simp: fallback_inv_def record_transition_def push_bounded_def dest: last_event_tl split: if_splits)

lemma activate_inv: "fallback_inv m \<Longrightarrow> fallback_inv (activate now mode trigger m)"
  by (simp add: activate_def record_transition_inv)

lemma deactivate_inv: "fallback_inv m \<Longrightarrow> fallback_inv (deactivate now mode trigger m)"
  by (simp add: deactivate_def record_transition_inv)

lemma deactivate_all_inv: "fallback_inv m \<Longrightarrow> fallback_inv (deactivate_all now visit trigger m)"
  unfolding deactivate_all_def by (induction visit arbitrary: m) (simp_all add: deactivate_inv)

lemma deactivate_modes: "fb_active_modes (deactivate now mode trigger m) = fb_active_modes m - {mode}"
  by (auto simp: deactivate_def record_transition_def)

lemma deactivate_all_modes: "fb_active_modes (deactivate_all now visit trigger m) = fb_active_modes m - set visit"
  unfolding deactivate_all_def by (induction visit arbitrary: m) (auto simp: deactivate_modes)

lemma execute_action_inv: "fallback_inv m \<Longrightarrow> fallback_inv (execute_action now a m)"
  by (cases a) (simp_all add: activate_inv)

datatype fallback_step =
    FbActivate nat fallback_mode degradation_trigger
  | FbDeactivate nat fallback_mode degradation_trigger
  | FbDeactivateAll nat "fallback_mode list" degradation_trigger
  | FbExecute nat degradation_level "degradation_action list"

fun fallback_run :: "fallback_step \<Rightarrow> fallback_manager \<Rightarrow> fallback_manager" where
  "fallback_run (FbActivate now mode t) m = activate now mode t m"
| "fallback_run (FbDeactivate now mode t) m = deactivate now mode t m"
| "fallback_run (FbDeactivateAll now visit t) m = deactivate_all now visit t m"
| "fallback_run (FbExecute now level actions) m = execute_degradation_actions now level actions m"

lemma fallback_run_inv: "fallback_inv m \<Longrightarrow> fallback_inv (fallback_run st m)"
proof (cases st)
  case (FbExecute now level actions)
  have "fallback_inv q \<Longrightarrow> fallback_inv (fold (execute_action now) actions q)" for q
    by (induction actions arbitrary: q) (simp_all add: execute_action_inv)
  moreover assume "fallback_inv m"
  ultimately show ?thesis by (simp add: FbExecute execute_degradation_actions_def)
qed (simp_all add: activate_inv deactivate_inv deactivate_all_inv)

interpretation fallback_runs: kept_by_all fallback_run fallback_inv
  by unfold_locales (rule fallback_run_inv)

lemma fallback_run_size: "fb_max_history_size (fallback_run st m) = fb_max_history_size m"
proof -
  have act: "fb_max_history_size (activate now mode t q) = fb_max_history_size q"
    "fb_max_history_size (deactivate now mode t q) = fb_max_history_size q" for now mode t q
    by (simp_all add: activate_def deactivate_def record_transition_def)
  have exec: "fb_max_history_size (execute_action now a q) = fb_max_history_size q" for now a q by (cases a) (simp_all add: act)
  have "fb_max_history_size (fold (execute_action now) as q) = fb_max_history_size q"
    "fb_max_history_size (fold (\<lambda>mode. deactivate now mode t) ms q) = fb_max_history_size q" for now as ms t q
    by (induction as arbitrary: q) (simp_all add: exec, induction ms arbitrary: q, simp_all add: act)
  then show ?thesis by (cases st) (simp_all add: act execute_degradation_actions_def deactivate_all_def)
qed

interpretation history_size: kept_by_all fallback_run "\<lambda>m. fb_max_history_size m = n" for n
  by unfold_locales (simp add: fallback_run_size)

text \<open>
  C35. The history of the fallback manager agrees with the active modes. After every sequence of activations, deactivations and executed
  actions the history has at most fifty entries, and the newest entry of a mode that is still in it says whether the mode is active.
\<close>

theorem fallback_history_agrees:
  "let m = fold fallback_run sts (fallback_manager_new config)
   in length (fb_transition_history m) \<le> 50 \<and>
      (\<forall>mode. case last_event mode (fb_transition_history m) of None \<Rightarrow> True | Some e \<Rightarrow> te_activated e = (mode \<in> fb_active_modes m))"
proof -
  let ?m = "fold fallback_run sts (fallback_manager_new config)"
  have "fallback_inv ?m"
    by (rule fallback_runs.every_run_keeps) (simp add: fallback_inv_def fallback_manager_new_def last_event_def)
  moreover have "fb_max_history_size ?m = 50"
    by (rule history_size.every_run_keeps) (simp add: fallback_manager_new_def)
  ultimately show ?thesis
    by (simp add: Let_def fallback_inv_def split: option.splits)
qed

text \<open>
  Recovery is all or nothing. \<open>attempt_recovery\<close> reports failure and changes nothing when the conditions of the current level
  are not met. When they are met in a degraded level, it succeeds, whatever order the active modes are visited in: the level is
  full, the level left is remembered, no fallback mode is active, no trigger is recorded and the attempts are reset.
\<close>

theorem recovery_all_or_nothing:
  assumes "dg_flap_count s < - 1" "set visit = fb_active_modes m" "dg_current_level s \<noteq> LvFull"
  shows "\<exists>s' m'. attempt_recovery percent float_of_nat now visit monitor config s m =
      Ok (check_recovery_conditions percent float_of_nat now s monitor config, s', m') \<and>
    (if check_recovery_conditions percent float_of_nat now s monitor config
     then dg_current_level s' = LvFull \<and> dg_previous_level s' = dg_current_level s \<and> fb_active_modes m' = {} \<and>
       dg_active_triggers s' = [] \<and> dg_recovery_attempt_count s' = 0
     else s' = s \<and> m' = m)"
proof -
  have "checked_add (dg_flap_count s) 1 = Some (dg_flap_count s + 1)" using assms(1) by (auto simp: checked_add_one_Some)
  then show ?thesis
    using assms(2,3) by (simp add: attempt_recovery_def recover_to_full_def transition_to_def Let_def deactivate_all_modes)
qed

definition degraded_state :: degradation_state where
  "degraded_state = (degradation_state_new 0)\<lparr>dg_current_level := LvReduced, dg_active_triggers := [ReadLatencyHigh]\<rparr>"

theorem recovery_all_or_nothing_witness:
  "\<exists>s' m'. attempt_recovery (\<lambda>x. x) (\<lambda>n. FloatNum 0) 0 [WriteThrottled] (resource_monitor_new degradation_config_default)
      degradation_config_default degraded_state
      ((fallback_manager_new degradation_config_default)\<lparr>fb_active_modes := {WriteThrottled}\<rparr>) = Ok (False, s', m') \<and> s' = degraded_state"
proof -
  have "\<not> check_recovery_conditions (\<lambda>x. x) (\<lambda>n. FloatNum 0) 0 degraded_state (resource_monitor_new degradation_config_default) degradation_config_default"
    by (simp add: check_recovery_conditions_def degraded_state_def policy_for_level_def degradation_config_default_def)
  moreover have "dg_flap_count degraded_state < - 1" "dg_current_level degraded_state \<noteq> LvFull"
    "set [WriteThrottled] = fb_active_modes ((fallback_manager_new degradation_config_default)\<lparr>fb_active_modes := {WriteThrottled}\<rparr>)"
    by (simp_all add: degraded_state_def degradation_state_new_def word_less_nat_alt unat_minus_one)
  ultimately show ?thesis
    using recovery_all_or_nothing [of degraded_state "[WriteThrottled]" "(fallback_manager_new degradation_config_default)\<lparr>fb_active_modes := {WriteThrottled}\<rparr>"
        "\<lambda>x. x" "\<lambda>n. FloatNum 0" 0 "resource_monitor_new degradation_config_default" degradation_config_default]
    by simp
qed

text \<open>Evaluation never worsens the level beyond minimal by itself, and the monitor never reports a saturated processor.\<close>

lemma evaluation_reaches_minimal:
  "evaluate_degradation_level now s triggers config \<in> {LvFull, LvReduced, LvMinimal, dg_current_level s}"
  by (auto simp: evaluate_degradation_level_def hold_level_def split: option.splits)

lemma saturation_unreported: "CpuSaturation \<notin> set (monitor_resources m r)"
  by (simp add: monitor_resources_def Let_def)

end
