(* ===== verification/Spec2Isabelle.thy ===== *)
theory Spec2Isabelle
  imports Pager Txn Ref_Model Ref_Compare Ref_Serialize Node Wal Wal_Config Restore Overflow_Chain Scan_Correct Db_Errors Btree_Recovery Delta Circuit_Breaker Publisher Subscriber Failover Events Degradation
begin

text \<open>
  A verification of the storage kernel of NorthstarDB and of the services around it: the Rust crate
  \<^verbatim>\<open>src/rust/northstar-core\<close>. File names below are relative to its \<^verbatim>\<open>src\<close> directory.

  \<^bold>\<open>The program.\<close> A database is one file of 16 KiB pages with a write-ahead log beside it. The pager (\<^verbatim>\<open>pager/\<close>) reads and
  writes pages, keeps two meta pages that are replaced in turn and hands out page numbers; a sharded cache (\<^verbatim>\<open>cache/\<close>)
  sits in front of it. The B+tree (\<^verbatim>\<open>btree/\<close>) stores its nodes in pages and large values in chains of overflow pages.
  A write transaction (\<^verbatim>\<open>txn/\<close>) buffers mutations, logs them (\<^verbatim>\<open>wal/\<close>), applies them to the tree and registers the
  new root as a snapshot (\<^verbatim>\<open>snap/\<close>); a read transaction reads at the root of its snapshot. The handle \<^verbatim>\<open>db/mod.rs\<close>
  puts these together. A reference model (\<^verbatim>\<open>refmodel/\<close>) defines the intended behaviour in memory. Around the kernel, the replication
  service (\<^verbatim>\<open>replication/\<close>) ships commit records to replicas, \<^verbatim>\<open>recovery/\<close> keeps track of replicas and elects a new
  primary, \<^verbatim>\<open>degradation/\<close> protects the database under load, and \<^verbatim>\<open>events/\<close> records what agents did.

  \<^bold>\<open>Conventions.\<close> Machine integers are words of their width; a sum, difference or product that the sources do not mark as wrapping
  is a panic on overflow, as in a build with overflow checks. A fallible function returns a \<open>res\<close>: a value, an error value
  of the source's error type, or \<open>Panic\<close> for a call that does not return normally. Methods that change
  their receiver return it on every path, also on errors (theory \<open>Procs\<close>). \<open>usize\<close> is a natural number. Code of other
  crates and of the standard library that is not specified further is an argument: the CRC-32C function, the hasher, the JSON encoder,
  the clock, the random identifiers, the order in which a hash map is visited, and the outcome of socket operations.

  \<^bold>\<open>Theories.\<close>
  \<^item> \<open>Prelude\<close>, \<open>Buffers\<close>, \<open>Procs\<close>, \<open>Floats\<close>, \<open>Step_Runs\<close>: words, little endian bytes, binary search, outcomes,
    buffers, state passing, runs of events. Locale \<open>key_search\<close> is the contract of a binary search, \<open>kept_by_steps\<close> and
    \<open>kept_by_all\<close> the contract of an invariant that steps keep.
  \<^item> \<open>Ids\<close> (\<^verbatim>\<open>types.rs\<close>), \<open>Errors\<close> (\<^verbatim>\<open>error.rs\<close>), \<open>Checksum\<close> (\<^verbatim>\<open>checksum.rs\<close>). Locale \<open>crc32c_lib\<close> states what the
    sources rely on of the CRC crate; it is interpreted with the bitwise Castagnoli division.
  \<^item> \<open>Page\<close> (\<^verbatim>\<open>page.rs\<close>), \<open>Meta\<close> (\<^verbatim>\<open>pager/meta.rs\<close>), \<open>Allocator\<close> (\<^verbatim>\<open>pager/allocator.rs\<close>), \<open>Storage_Backend\<close>
    (\<^verbatim>\<open>pager/storage.rs\<close>, locale \<open>page_store\<close>), \<open>Pager\<close> and \<open>Cached_Pager\<close> (\<^verbatim>\<open>pager/pager.rs\<close> without and with its cache):
    accepted page images, what opening finds when a crash leaves each of the two meta pages old, new or damaged in any combination,
    a commit is on disk when it returns, fresh pages are never in use.
  \<^item> \<open>Cache_Shard\<close>, \<open>Page_Cache\<close>, \<open>Query_Cache\<close> (\<^verbatim>\<open>cache/\<close>): shards with their eviction policies, the page cache, the caches of query
    results and nodes. Locale \<open>value_cache\<close> is what the pager relies on; it is interpreted for a shard and for
    the page cache. The accounting of a shard holds along every run.
  \<^item> \<open>Node_Header\<close>, \<open>Node\<close> (\<^verbatim>\<open>btree/header.rs\<close>, \<^verbatim>\<open>btree/node.rs\<close>), \<open>Overflow_Page\<close>, \<open>Overflow_Chain\<close> (\<^verbatim>\<open>btree/overflow.rs\<close>): node
    operations as maps on keys, page images read back as written, large values read back as written.
  \<^item> \<open>Btree_Ops\<close>, \<open>Btree\<close>, \<open>Btree_Scan\<close> (\<^verbatim>\<open>btree/insert.rs\<close>, \<^verbatim>\<open>delete.rs\<close>, \<^verbatim>\<open>merge.rs\<close>, \<^verbatim>\<open>borrow.rs\<close>, \<^verbatim>\<open>tree.rs\<close>,
    \<^verbatim>\<open>search.rs\<close>, \<^verbatim>\<open>scan.rs\<close>), with \<open>Btree_Correct\<close>, \<open>Btree_Split\<close>, \<open>Scan_Correct\<close>: lookup, insertion, removal and scans on
    well-formed trees, when a lookup returns, and what a split does.
  \<^item> \<open>Wal_Format\<close>, \<open>Wal_Record\<close>, \<open>Wal\<close>, \<open>Wal_Config\<close> (\<^verbatim>\<open>wal/\<close>), \<open>Btree_Recovery\<close> (\<^verbatim>\<open>btree/recovery.rs\<close>): records read back as written, the log after a
    crash is a prefix of the log, and recovery rebuilds the tree that the surviving transactions give.
  \<^item> \<open>Txn\<close> (\<^verbatim>\<open>txn/state.rs\<close>, \<^verbatim>\<open>mutation.rs\<close>, \<^verbatim>\<open>context.rs\<close>, \<^verbatim>\<open>commit.rs\<close>), \<open>Delta\<close> (\<^verbatim>\<open>btree/delta.rs\<close>, \<^verbatim>\<open>btree/version.rs\<close>), \<open>Snap\<close>
    (\<^verbatim>\<open>snap/\<close>), \<open>Db\<close> (\<^verbatim>\<open>db/\<close>, \<^verbatim>\<open>txn/write_txn.rs\<close>, \<^verbatim>\<open>txn/read_txn.rs\<close>), \<open>Db_Correct\<close>, \<open>Db_Errors\<close>: the states of a transaction,
    reading its own writes (in a tree whose root is page 2, where \<open>WriteTxn::get\<close> looks), the registry of snapshots, and end to end that a committed transaction is
    what later readers see, also after reopening the file, what an older reader sees, and how the handle fails.
  \<^item> \<open>Ref_Tree\<close>, \<open>Ref_Model\<close>, \<open>Ref_Compare\<close> (\<^verbatim>\<open>refmodel/\<close>): the reference model refines a map of versions, its snapshots are isolated, and the
    comparison of trees is exact. \<open>Ref_Serialize\<close> (\<^verbatim>\<open>refmodel/serialize.rs\<close>): its base64 text decodes to what was encoded, and a saved tree or
    registry of snapshots loads with the same live entries.
  \<^item> \<open>Replication\<close>, \<open>Replication_Stream\<close>, \<open>Publisher\<close>, \<open>Subscriber\<close> (\<^verbatim>\<open>replication/\<close>): messages and frames read back as sent, the buffer of
    the publisher is bounded and drops only what was acknowledged until it is shut down, reconnection is bounded, and what the subscriber does not do yet.
  \<^item> \<open>Failover\<close> (\<^verbatim>\<open>recovery/replication.rs\<close>, \<^verbatim>\<open>recovery/failover.rs\<close>), \<open>Circuit_Breaker\<close> and \<open>Degradation\<close> (\<^verbatim>\<open>degradation/\<close>), \<open>Events\<close>
    (\<^verbatim>\<open>events/\<close>): election, detection, tripping and recovering, levels and fallback modes, and exact queries.
  \<^item> \<open>Backup\<close>, \<open>Restore\<close> (\<^verbatim>\<open>recovery/backup.rs\<close>, \<^verbatim>\<open>recovery/restore.rs\<close>): a full backup restores to the content the database had, a restore that
    reports success wrote what the recorded digest covers, walks along chains of backups end, and what retention, incremental
    backups and point in time recovery do not do yet. This theory puts the parts together: a committed transaction is read from the database
    that is restored from a backup of its file.

  \<^bold>\<open>Loops, fuel and bounds.\<close> Loops are structural recursion or recursion with a measure. Walks along pages, which run forever on a cyclic
  file, are \<open>partial_function (option)\<close>: \<open>None\<close> means that the call does not return, and the theorems about
  lookups, commits and recovery state that it is \<open>Some\<close> (\<open>btree_get_returns_iff\<close> says exactly when). The walk along
  a chain of backups is one too, and returns in every reachable manager. The end to end theorems of
  \<open>Db_Correct\<close> and \<open>Btree_Recovery\<close> follow the tree while it is a single leaf: the entries fit into 13043 bytes, the
  threshold above which the code splits; beyond it a split can hide keys that the tree holds (\<open>Btree_Split.split_hides_later_keys\<close>). They
  assume room in the page cache, which starts with room for 16384 pages, so that no page is evicted on the way.

  \<^bold>\<open>Not modelled.\<close> Threads inside one step: the asynchronous tasks are steps on the state, taken in any order but one at a time, and
  poisoned locks do not occur. Of the crate, the network plumbing of \<^verbatim>\<open>replication/client.rs\<close> and \<^verbatim>\<open>server.rs\<close>, the throttler (a floating point counter that rounds
  at each step), prefetching and benchmarks, and the layers that call services or compute statistics in
  floating point: \<^verbatim>\<open>llm/\<close>, \<^verbatim>\<open>cloud/\<close>, \<^verbatim>\<open>plugins/\<close>, \<^verbatim>\<open>cartridges/\<close>, \<^verbatim>\<open>analytics/\<close>, \<^verbatim>\<open>queries/\<close>, \<^verbatim>\<open>query_plan/\<close>,
  \<^verbatim>\<open>monitoring/\<close>, \<^verbatim>\<open>autonomous/\<close>. The command line, the benchmarks and the test crate only call the
  modelled code.
\<close>

section \<open>From a commit to a restored database\<close>

text \<open>A full backup of a file on working disks, restored to another path, gives the content of the file.\<close>

lemma backup_restores:
  assumes "fs path = Some data"
    and "\<forall>j b. get_backup j m = Some b \<longrightarrow> bk_path b \<noteq> backup_path (tl_stamp tools) (mo_path mo) FullBackup m"
    and "path \<noteq> backup_path (tl_stamp tools) (mo_path mo) FullBackup m" "target \<noteq> backup_path (tl_stamp tools) (mo_path mo) FullBackup m"
    and "\<forall>content. tl_digest tools content \<noteq> []" "disk_works db" "disk_works dv" "disk_works dr"
  shows "\<exists>fs1 m1. create_full_backup tools db ds mo path m fs = (fs1, m1, Ok (mo_fresh mo)) \<and>
    (\<forall>fs2. fs2 (backup_path (tl_stamp tools) (mo_path mo) FullBackup m) = fs1 (backup_path (tl_stamp tools) (mo_path mo) FullBackup m) \<longrightarrow>
      (\<exists>g'. restore_backup tools dv dr fresh started ended (mo_fresh mo) target (with_backup_manager m1) fs2
        = (fs2(target \<mapsto> data), g', Ok fresh)))"
proof -
  obtain fs1 m1 where c: "create_full_backup tools db ds mo path m fs = (fs1, m1, Ok (mo_fresh mo))"
    using create_full_backup_works [of db fs path data, OF assms(6,1,3)] by blast
  obtain b where b: "get_backup (mo_fresh mo) m1 = Some b" "bk_status b = BkCompleted" "bk_checksum b = tl_digest tools data"
      "bk_path b = backup_path (tl_stamp tools) (mo_path mo) FullBackup m" "fs1 (bk_path b) = Some data"
    using create_full_backup_Ok [OF c assms(2,3)] assms(1) by auto
  have "backup_is_valid b" using b(2,3) assms(5) by (simp add: backup_is_valid_def)
  with b c assms(4,7,8) show ?thesis
    using restore_backup_works [of "mo_fresh mo" "with_backup_manager m1" b _ data tools target dv dr fresh started ended]
    by (simp add: with_backup_manager_def)
qed

text \<open>
  C36. From a commit to a restored database. Let a commit succeed under the conditions of \<open>db_commit_survives_reopen\<close>: a single leaf
  that takes the mutations, inline values, keys not held before, each key touched once, a well-formed meta page, plausible ids.
  Take the file it leaves, make a full backup of it on working disks under a path that is new, while nothing else writes the file,
  and restore the backup to any other path, as long as the file of the backup is unchanged. Both calls succeed, and
  opening the restored file without a log succeeds and gives read transactions that see exactly the committed contents.
  The digest is any function with nonempty texts; reads of files return the bytes stored, in pieces of any size.
\<close>

theorem db_restored_from_backup:
  assumes "db_leaf de d p l (n + 3 * length ms + 1)" "wal_ready d"
    and "begin_write now d = (Ok w, d1)" "buffer_all ms w = Ok w'" "ms \<noteq> []"
    and "leaf_takes l ms" "\<forall>x \<in> set ms. plain_value x"
    and "meta_state_wf (pgr_current_meta (cg_pager (sr_pager (db_registry d))))"
    and "unat (mp_page_size (ms_meta (pgr_current_meta (cg_pager (sr_pager (db_registry d)))))) = PAGE_SIZE"
    and "db_current_txn_id d + 1 \<le> 1000000000000" "p \<le> 1000000000" "usize_is_power_of_two (env_num_cpus (de_env de))"
    and new_path: "\<forall>j b. get_backup j m = Some b \<longrightarrow> bk_path b \<noteq> backup_path (tl_stamp tools) (mo_path mo) FullBackup m"
      "path \<noteq> backup_path (tl_stamp tools) (mo_path mo) FullBackup m" "target \<noteq> backup_path (tl_stamp tools) (mo_path mo) FullBackup m"
    and digest_text: "\<forall>content. tl_digest tools content \<noteq> []"
    and disks: "disk_works db" "disk_works dv" "disk_works dr"
  shows "\<exists>d2 data. wtxn_commit de w' d1 = Some (Ok (), d2) \<and> cg_storage (sr_pager (db_registry d2)) = FileStorage data \<and>
    (\<forall>fs. fs path = Some data \<longrightarrow>
      (\<exists>fs1 m1. create_full_backup tools db ds mo path m fs = (fs1, m1, Ok (mo_fresh mo)) \<and>
        (\<forall>fs2. fs2 (backup_path (tl_stamp tools) (mo_path mo) FullBackup m) = fs1 (backup_path (tl_stamp tools) (mo_path mo) FullBackup m) \<longrightarrow>
          (\<exists>fs3 g' d3. restore_backup tools dv dr fresh started ended (mo_fresh mo) target (with_backup_manager m1) fs2 = (fs3, g', Ok fresh) \<and>
            db_open_with_config de target cfg (fs3 target) None = Ok d3 \<and>
            db_reads de d3 (foldl apply_mutation (leaf_view (leaf_map l)) ms)))))"
proof -
  obtain d2 data where c: "wtxn_commit de w' d1 = Some (Ok (), d2)" "cg_storage (sr_pager (db_registry d2)) = FileStorage data"
    and reopens: "\<exists>d3. db_open_with_config de target cfg (Some data) None = Ok d3 \<and> db_reads de d3 (foldl apply_mutation (leaf_view (leaf_map l)) ms)"
    using committed_file_reopens [OF assms(1-12)] by blast
  have "(fs(target \<mapsto> data)) target = Some data" for fs :: disk_files by simp
  with backup_restores [where path = path and data = data and ds = ds, OF _ new_path digest_text disks] reopens
  have "\<exists>fs1 m1. create_full_backup tools db ds mo path m fs = (fs1, m1, Ok (mo_fresh mo)) \<and>
        (\<forall>fs2. fs2 (backup_path (tl_stamp tools) (mo_path mo) FullBackup m) = fs1 (backup_path (tl_stamp tools) (mo_path mo) FullBackup m) \<longrightarrow>
          (\<exists>fs3 g' d3. restore_backup tools dv dr fresh started ended (mo_fresh mo) target (with_backup_manager m1) fs2 = (fs3, g', Ok fresh) \<and>
            db_open_with_config de target cfg (fs3 target) None = Ok d3 \<and>
            db_reads de d3 (foldl apply_mutation (leaf_view (leaf_map l)) ms)))" if "fs path = Some data" for fs
    using that by metis
  with c show ?thesis by blast
qed

theorem db_restored_from_backup_witness:
  "\<exists>d w d1 w' d2 data fs1 m1 fs3 g' d3. begin_write 0 d = (Ok w, d1) \<and> buffer_all [Put [1] [7, 8], Delete [9]] w = Ok w' \<and>
     wtxn_commit sample_db_env w' d1 = Some (Ok (), d2) \<and> cg_storage (sr_pager (db_registry d2)) = FileStorage data \<and>
     create_full_backup sample_tools sample_disk (\<lambda>_. sample_disk) (sample_moment 1 0) ''db'' backup_sample [''db'' \<mapsto> data] = (fs1, m1, Ok 1) \<and>
     restore_backup sample_tools sample_disk sample_disk 7 5 6 1 ''new'' (with_backup_manager m1) fs1 = (fs3, g', Ok 7) \<and>
     db_open sample_db_env ''new'' (fs3 ''new'') None = Ok d3 \<and> db_reads sample_db_env d3 [[1] \<mapsto> [7, 8]]"
proof -
  obtain d c w d1 w' where d: "db_leaf sample_db_env d FIRST_DATA (checksummed c (leaf_new FIRST_DATA)) 100" "wal_ready d"
    "db_current_txn_id d = 0" "pgr_current_meta (cg_pager (sr_pager (db_registry d))) = initial_meta (env_crc sample_env)"
    "begin_write 0 d = (Ok w, d1)" "buffer_all sample_mutations w = Ok w'" by (rule sample_db, rule that)
  have dl: "db_leaf sample_db_env d FIRST_DATA (checksummed c (leaf_new FIRST_DATA)) (93 + 3 * length sample_mutations + 1)"
    using d(1) by (simp add: sample_fits)
  have cpus: "usize_is_power_of_two (env_num_cpus (de_env sample_db_env))"
    unfolding usize_is_power_of_two_def by (rule bexI [of _ 0]) (simp_all add: sample_env_def sample_db_env_def)
  have ids: "db_current_txn_id d + 1 \<le> 1000000000000" "FIRST_DATA \<le> 1000000000"
    by (simp_all add: d(3) FIRST_DATA_def word_le_nat_alt)
  have meta: "meta_state_wf (pgr_current_meta (cg_pager (sr_pager (db_registry d))))"
    "unat (mp_page_size (ms_meta (pgr_current_meta (cg_pager (sr_pager (db_registry d)))))) = PAGE_SIZE"
    using initial_meta_facts [of "env_crc sample_env"] d(4) by simp_all
  have paths: "\<forall>j b. get_backup j backup_sample = Some b \<longrightarrow> bk_path b \<noteq> backup_path (tl_stamp sample_tools) (mo_path (sample_moment 1 0)) FullBackup backup_sample"
    "''db'' \<noteq> backup_path (tl_stamp sample_tools) (mo_path (sample_moment 1 0)) FullBackup backup_sample"
    "''new'' \<noteq> backup_path (tl_stamp sample_tools) (mo_path (sample_moment 1 0)) FullBackup backup_sample"
    by (simp_all add: sample_path sample_get)
  have view: "foldl apply_mutation Map.empty sample_mutations = [[1] \<mapsto> [7, 8]]" by (auto simp: sample_mutations_def)
  have "mo_fresh (sample_moment 1 0) = 1" by (simp add: sample_moment_def)
  with db_restored_from_backup [OF dl d(2,5,6) sample_fits(4,1,2) meta ids cpus paths sample_digest sample_disk_works sample_disk_works
      sample_disk_works, of "\<lambda>_. sample_disk" 7 5 6 db_config_default, unfolded sample_fits(3) view]
  obtain d2 data fs1 m1 fs3 g' d3 where "wtxn_commit sample_db_env w' d1 = Some (Ok (), d2)"
    "cg_storage (sr_pager (db_registry d2)) = FileStorage data"
    "create_full_backup sample_tools sample_disk (\<lambda>_. sample_disk) (sample_moment 1 0) ''db'' backup_sample [''db'' \<mapsto> data] = (fs1, m1, Ok 1)"
    "restore_backup sample_tools sample_disk sample_disk 7 5 6 1 ''new'' (with_backup_manager m1) fs1 = (fs3, g', Ok 7)"
    "db_open_with_config sample_db_env ''new'' db_config_default (fs3 ''new'') None = Ok d3" "db_reads sample_db_env d3 [[1] \<mapsto> [7, 8]]"
    by (metis fun_upd_same)
  with d(5,6) show ?thesis unfolding sample_mutations_def db_open_def by blast
qed

end
